(* ===== verification/Prelude.thy ===== *)
theory Prelude
  imports Main "HOL-Library.Word" "HOL-Library.Monad_Syntax"
    "HOL-Library.While_Combinator"
begin

text \<open>
  Shared material of the development: the machine integers of the C sources, the memory mapped
  register bus and its access log, the kernel error numbers, little endian byte buffers, and the
  generic facts on lists, words and options that the component theories use.

  The FPGA behind the bus is not C code of the repository. It is a parameter of every definition
  that touches a register: a record of three functions over an abstract device state. A read
  may change the device (status registers move on between two reads), and so may a delay.
\<close>

unbundle bit_operations_syntax

section \<open>Collections of facts\<close>

named_theorems io_simps \<open>unfolding of register accesses\<close>
named_theorems trace_simps \<open>what an operation appends to the access log\<close>
named_theorems const_defs \<open>register offsets, masks and error numbers\<close>

section \<open>Machine integers\<close>

type_synonym u8 = "8 word"
type_synonym u16 = "16 word"
type_synonym u32 = "32 word"
type_synonym u64 = "64 word"

text \<open>A C buffer is a pointer: a function from byte positions to bytes; its length travels apart.\<close>

type_synonym cbuf = "nat \<Rightarrow> u8"

abbreviation BIT :: "nat \<Rightarrow> u32" where
  "BIT n \<equiv> push_bit n 1"

lemma u8_bit_less: "bit (a :: u8) n \<Longrightarrow> n < 8"
  using bit_imp_le_length [of a n] by simp

lemma u8_bit_ge [simp]:
  "\<not> bit (a :: u8) (8 + n)" "\<not> bit (a :: u8) (16 + n)" "\<not> bit (a :: u8) (24 + n)"
  using u8_bit_less [of a "8 + n"] u8_bit_less [of a "16 + n"] u8_bit_less [of a "24 + n"] by auto

lemma sint_of_nat_small: "n < 2 ^ 31 \<Longrightarrow> sint (of_nat n :: u32) = int n"
  by (simp add: sint_uint unat_of_nat uint_nat signed_take_bit_int_eq_self)

lemma unat_word_of_int_u32: "unat (word_of_int k :: u32) = nat (k mod 2 ^ 32)"
  by (simp add: unat_eq_nat_uint uint_word_of_int take_bit_eq_mod)

section \<open>Kernel error numbers\<close>

definition EIO :: int where [const_defs]: "EIO = 5"
definition ENOMEM :: int where [const_defs]: "ENOMEM = 12"
definition EACCES :: int where [const_defs]: "EACCES = 13"
definition EFAULT :: int where [const_defs]: "EFAULT = 14"
definition EBUSY :: int where [const_defs]: "EBUSY = 16"
definition ENODEV :: int where [const_defs]: "ENODEV = 19"
definition EINVAL :: int where [const_defs]: "EINVAL = 22"
definition ETIMEDOUT :: int where [const_defs]: "ETIMEDOUT = 110"

section \<open>The register bus and its access log\<close>

type_synonym pci_dev = nat

datatype io_event =
    Read u64 u32
  | Write u64 u32
  | Wait nat  \<comment> \<open>microseconds\<close>
  | CfgRead32 pci_dev int u32  \<comment> \<open>PCI configuration space: device, position, value\<close>
  | CfgWrite32 pci_dev int u32
  | CfgRead16 pci_dev int u16
  | CfgWrite16 pci_dev int u16
  | CfgSave pci_dev
  | CfgRestore pci_dev

text \<open>Accesses to the memory of the card and delays, as opposed to accesses to configuration space.\<close>

fun mmio :: "io_event \<Rightarrow> bool" where
  "mmio (Read a v) = True"
| "mmio (Write a v) = True"
| "mmio (Wait n) = True"
| "mmio _ = False"

record 'h bus =
  bus_read :: "u64 \<Rightarrow> 'h \<Rightarrow> u32 \<times> 'h"
  bus_write :: "u64 \<Rightarrow> u32 \<Rightarrow> 'h \<Rightarrow> 'h"
  bus_wait :: "nat \<Rightarrow> 'h \<Rightarrow> 'h"

record 'h world =
  dev :: 'h
  trace :: "io_event list"

definition readl :: "('h, 'z) bus_scheme \<Rightarrow> u64 \<Rightarrow> 'h world \<Rightarrow> u32 \<times> 'h world" where
  "readl b a w =
     (let (v, d) = bus_read b a (dev w)
      in (v, w\<lparr>dev := d, trace := trace w @ [Read a v]\<rparr>))"

definition writel :: "('h, 'z) bus_scheme \<Rightarrow> u32 \<Rightarrow> u64 \<Rightarrow> 'h world \<Rightarrow> 'h world" where
  "writel b v a w = w\<lparr>dev := bus_write b a v (dev w), trace := trace w @ [Write a v]\<rparr>"

definition udelay :: "('h, 'z) bus_scheme \<Rightarrow> nat \<Rightarrow> 'h world \<Rightarrow> 'h world" where
  "udelay b us w = w\<lparr>dev := bus_wait b us (dev w), trace := trace w @ [Wait us]\<rparr>"

definition msleep :: "('h, 'z) bus_scheme \<Rightarrow> nat \<Rightarrow> 'h world \<Rightarrow> 'h world" where
  "msleep b ms w = udelay b (1000 * ms) w"

text \<open>The writes of a log, in order, and the values written to one address.\<close>

fun writes_of :: "io_event list \<Rightarrow> (u64 \<times> u32) list" where
  "writes_of [] = []"
| "writes_of (Write a v # es) = (a, v) # writes_of es"
| "writes_of (_ # es) = writes_of es"

definition writes_to :: "u64 \<Rightarrow> io_event list \<Rightarrow> u32 list" where
  "writes_to a es = map snd (filter (\<lambda>p. fst p = a) (writes_of es))"

lemma writes_of_append [simp]: "writes_of (xs @ ys) = writes_of xs @ writes_of ys"
  by (induction xs rule: writes_of.induct) auto

lemma writes_to_simps [simp]:
  "writes_to a [] = []"
  "writes_to a (xs @ ys) = writes_to a xs @ writes_to a ys"
  "writes_to a (Write c v # es) = (if c = a then [v] else []) @ writes_to a es"
  "writes_to a (Read c v # es) = writes_to a es"
  "writes_to a (Wait n # es) = writes_to a es"
  by (auto simp: writes_to_def)

text \<open>The reads of a log.\<close>

fun reads_of :: "io_event list \<Rightarrow> (u64 \<times> u32) list" where
  "reads_of [] = []"
| "reads_of (Read a v # es) = (a, v) # reads_of es"
| "reads_of (_ # es) = reads_of es"

lemma reads_of_append [simp]: "reads_of (xs @ ys) = reads_of xs @ reads_of ys"
  by (induction xs rule: reads_of.induct) auto

lemma writes_of_map_Write [simp]: "writes_of (map (Write a) vs) = map (Pair a) vs"
  by (induction vs) auto

lemma writes_to_map_Write [simp]: "writes_to a (map (Write c) vs) = (if c = a then vs else [])"
  by (induction vs) auto

lemma trace_readl [trace_simps]: "trace (snd (readl b a w)) = trace w @ [Read a (fst (readl b a w))]"
  by (simp add: readl_def split: prod.split)

lemma trace_readlD: "readl b a w = (v, w') \<Longrightarrow> trace w' = trace w @ [Read a v]"
  by (auto simp: readl_def split: prod.splits)

lemma trace_writel [trace_simps]: "trace (writel b v a w) = trace w @ [Write a v]"
  by (simp add: writel_def)

lemma trace_udelay [trace_simps]: "trace (udelay b n w) = trace w @ [Wait n]"
  by (simp add: udelay_def)

lemma trace_msleep [trace_simps]: "trace (msleep b n w) = trace w @ [Wait (1000 * n)]"
  by (simp add: msleep_def trace_udelay)

text \<open>A step from one world to another that makes only such accesses.\<close>

definition mmio_step :: "'h world \<Rightarrow> 'h world \<Rightarrow> bool" where
  "mmio_step w w' \<longleftrightarrow> (\<exists>t. trace w' = trace w @ t \<and> list_all mmio t)"

lemma mmio_step_refl [simp, intro]: "mmio_step w w"
  by (simp add: mmio_step_def)

lemma mmio_step_trans [trans]: "mmio_step w w' \<Longrightarrow> mmio_step w' w'' \<Longrightarrow> mmio_step w w''"
  by (force simp: mmio_step_def)

lemma mmio_step_readl: "readl b a w = (v, w') \<Longrightarrow> mmio_step w w'"
  by (simp add: mmio_step_def trace_readlD)

lemma mmio_step_writel [simp]: "mmio_step w (writel b v a w)"
  by (simp add: mmio_step_def trace_writel)

lemma mmio_step_udelay [simp]: "mmio_step w (udelay b n w)"
  by (simp add: mmio_step_def trace_udelay)

lemma mmio_step_msleep [simp]: "mmio_step w (msleep b n w)"
  by (simp add: mmio_step_def trace_msleep)

lemmas io_defs = readl_def writel_def udelay_def msleep_def

declare io_defs [io_simps]

section \<open>Partial computations\<close>

lemma bind_total_None: "(\<And>x. f x \<noteq> None) \<Longrightarrow> Option.bind m f = None \<longleftrightarrow> m = None"
  by (cases m) auto

section \<open>The C loop do ... while\<close>

text \<open>
  \<open>do_while c b s\<close> runs the body \<open>c\<close> at least once and again while \<open>b\<close> holds; \<open>None\<close> is a loop that
  never ends. The polling loops of the sources, which have no bound, are written with it.
\<close>

definition do_while :: "('s \<Rightarrow> 's) \<Rightarrow> ('s \<Rightarrow> bool) \<Rightarrow> 's \<Rightarrow> 's option" where
  "do_while c b s = while_option b c (c s)"

lemma do_while_unfold:
  "do_while c b s = (if b (c s) then do_while c b (c s) else Some (c s))"
  unfolding do_while_def by (subst while_option_unfold) simp

lemma do_while_stop: "do_while c b s = Some t \<Longrightarrow> \<not> b t"
  unfolding do_while_def by (rule while_option_stop)

lemma funpow_Suc_apply: "(c ^^ Suc n) s = (c ^^ n) (c s)"
  by (simp add: funpow_Suc_right del: funpow.simps)

lemma do_while_Some_iff:
  "do_while c b s = Some t \<longleftrightarrow>
     (\<exists>n. t = (c ^^ Suc n) s \<and> \<not> b t \<and> (\<forall>m<n. b ((c ^^ Suc m) s)))"
  (is "?L \<longleftrightarrow> (\<exists>n. ?R n)")
proof
  let ?k = "LEAST k. \<not> b ((c ^^ k) (c s))"
  assume L: ?L
  then have ex: "\<exists>k. \<not> b ((c ^^ k) (c s))" and t: "t = (c ^^ ?k) (c s)"
    by (auto simp: do_while_def while_option_def split: if_splits)
  have "\<not> b ((c ^^ ?k) (c s))" using ex by (rule LeastI_ex)
  moreover have "\<forall>m<?k. b ((c ^^ m) (c s))" using not_less_Least by blast
  ultimately have "?R ?k" using t by (simp only: funpow_Suc_apply) simp
  then show "\<exists>n. ?R n" ..
next
  assume "\<exists>n. ?R n"
  then obtain n where n: "t = (c ^^ n) (c s)" "\<not> b ((c ^^ n) (c s))" "\<forall>m<n. b ((c ^^ m) (c s))"
    by (simp only: funpow_Suc_apply) blast
  then have "(LEAST k. \<not> b ((c ^^ k) (c s))) = n"
    by (intro Least_equality) (auto simp: not_le [symmetric])
  with n show ?L by (auto simp: do_while_def while_option_def)
qed

lemma do_while_None_iff: "do_while c b s = None \<longleftrightarrow> (\<forall>n. b ((c ^^ Suc n) s))"
  by (simp only: funpow_Suc_apply) (simp add: do_while_def while_option_def)

lemma do_while_returns: "\<not> b ((c ^^ Suc n) s) \<Longrightarrow> \<exists>t. do_while c b s = Some t"
  using do_while_None_iff [of c b s] by (metis not_Some_eq)

text \<open>
  The loop rule: \<open>Q\<close> relates the start of an iteration to the final state. It holds when the
  loop stops after this iteration, and it carries over one more iteration.
\<close>

lemma do_while_induct [consumes 1, case_names stop step]:
  assumes "do_while c b s = Some t"
    and stop: "\<And>s. \<not> b (c s) \<Longrightarrow> Q s (c s)"
    and step: "\<And>s t. b (c s) \<Longrightarrow> Q (c s) t \<Longrightarrow> \<not> b t \<Longrightarrow> Q s t"
  shows "Q s t"
proof -
  from assms(1) obtain n where "t = (c ^^ n) (c s)" and nb: "\<not> b t"
    and "\<forall>m<n. b ((c ^^ m) (c s))"
    by (simp only: do_while_Some_iff funpow_Suc_apply) blast
  then show ?thesis
  proof (induction n arbitrary: s)
    case 0
    then show ?case by (simp add: stop)
  next
    case (Suc n)
    have "t = (c ^^ n) (c (c s))" using Suc.prems(1) by (simp only: funpow_Suc_apply)
    moreover have "\<forall>m<n. b ((c ^^ m) (c (c s)))"
      using Suc.prems(3) by (metis Suc_less_eq funpow_Suc_apply)
    ultimately have "Q (c s) t" using Suc.IH Suc.prems(2) by blast
    moreover have "b (c s)" using Suc.prems(3) [rule_format, of 0] by simp
    ultimately show ?case using step Suc.prems(2) by blast
  qed
qed

end
