(* ===== verification/Driver_State.thy ===== *)
theory Driver_State
  imports Prelude
begin

text \<open>
  The data types of the driver's headers: the configuration states of \<open>fpga-pcie.h\<close>, the states
  the PR IP core reports (\<open>altera-pr-ip-core.h\<close>) and the per card private data
  \<open>struct fpga_pcie_priv\<close>. Pointers to \<open>struct pci_dev\<close> are device numbers, with \<open>None\<close> for NULL;
  pointers into io memory are 64 bit words, with 0 for NULL. The state string of the driver is
  compared by address in the C code, so it is an enumeration here.
\<close>

datatype fpga_config_states =
    FPGA_CONFIG_STATE_UNKNOWN | FPGA_CONFIG_STATE_POWER_OFF
  | FPGA_CONFIG_STATE_POWER_UP | FPGA_CONFIG_STATE_RESET
  | FPGA_CONFIG_STATE_FIRMWARE_REQ | FPGA_CONFIG_STATE_FIRMWARE_REQ_ERR
  | FPGA_CONFIG_STATE_WRITE_INIT | FPGA_CONFIG_STATE_WRITE_INIT_ERR
  | FPGA_CONFIG_STATE_WRITE | FPGA_CONFIG_STATE_WRITE_ERR
  | FPGA_CONFIG_STATE_WRITE_COMPLETE | FPGA_CONFIG_STATE_WRITE_COMPLETE_ERR
  | FPGA_CONFIG_STATE_OPERATING

datatype fpga_pr_ip_states =
    FPGA_PR_IP_STATE_UNKNOWN | FPGA_PR_IP_STATE_POWER_OFF
  | FPGA_PR_IP_STATE_POWER_UP | FPGA_PR_IP_STATE_RESET
  | FPGA_PR_IP_STATE_FIRMWARE_REQ | FPGA_PR_IP_STATE_FIRMWARE_REQ_ERR
  | FPGA_PR_IP_STATE_WRITE_INIT | FPGA_PR_IP_STATE_WRITE_INIT_ERR
  | FPGA_PR_IP_STATE_WRITE | FPGA_PR_IP_STATE_WRITE_ERR
  | FPGA_PR_IP_STATE_WRITE_COMPLETE | FPGA_PR_IP_STATE_WRITE_COMPLETE_ERR
  | FPGA_PR_IP_STATE_OPERATING

datatype drv_state = ST_IDLE | ST_AER_DISABLED

definition ALTR_PCI_CVP_NUM_BARS :: nat where [const_defs]: "ALTR_PCI_CVP_NUM_BARS = 6"
definition ALTR_PCI_CVP_CONFIG_BAR :: nat where [const_defs]: "ALTR_PCI_CVP_CONFIG_BAR = 2"
definition ALTR_PCI_CVP_PR_BAR :: nat where [const_defs]: "ALTR_PCI_CVP_PR_BAR = 4"
definition ALTR_PCI_CONFIG_ROM_OFFSET :: u64 where [const_defs]: "ALTR_PCI_CONFIG_ROM_OFFSET = 0"
definition ALTR_PCI_CONFIG_ROM_LEN :: nat where [const_defs]: "ALTR_PCI_CONFIG_ROM_LEN = 0x400"
definition ALTR_PR_IP_OFFSET :: u64 where [const_defs]: "ALTR_PR_IP_OFFSET = 0x1000"

record fpga_pcie_priv =
  bar_addrs :: "nat \<Rightarrow> u64"
  debugfs_root :: nat
  pci_dev :: "pci_dev option"
  pci_upstream_dev :: "pci_dev option"
  aer_uerr_mask_reg :: u32
  drv_st :: drv_state
  config_state :: fpga_config_states
  reg_base :: u64

end
