(* ===== verification/Region_Controller.thy ===== *)
theory Region_Controller
  imports Driver_State
begin

text \<open>
  The PR region controller, which freezes the bridges around a region while it is reconfigured.
  The repository has two drivers for it: the kernel side one of \<open>fpga-region-controller.c\<close>, which
  uses \<open>readl\<close> and \<open>writel\<close> on BAR 4, and the user space one of \<open>fpga_region_controller.c\<close>, which
  goes through the accessors of a \<open>struct device_handle\<close>. Both wait for the acknowledgement in a
  loop without a bound, so the operations are partial: \<open>None\<close> is a call that never returns.
\<close>

section \<open>Registers\<close>

definition FREEZE_CTRL_OFFSET :: u32 where [const_defs]: "FREEZE_CTRL_OFFSET = 4"
definition FREEZE_VERSION_OFFSET :: u32 where [const_defs]: "FREEZE_VERSION_OFFSET = 12"
definition FREEZE_STATUS_OFFSET :: u32 where [const_defs]: "FREEZE_STATUS_OFFSET = 0"
definition FREEZE_BRIDGE_SUPPORTED_VERSION :: u32 where
  [const_defs]: "FREEZE_BRIDGE_SUPPORTED_VERSION = 0xad000003"
definition FREEZE_REQ_DONE :: u32 where [const_defs]: "FREEZE_REQ_DONE = BIT 0"
definition UNFREEZE_REQ_DONE :: u32 where [const_defs]: "UNFREEZE_REQ_DONE = BIT 1"
definition FREEZE_REQ :: u32 where [const_defs]: "FREEZE_REQ = BIT 0"
definition RESET_REQ :: u32 where [const_defs]: "RESET_REQ = BIT 1"
definition UNFREEZE_REQ :: u32 where [const_defs]: "UNFREEZE_REQ = BIT 2"

section \<open>The kernel driver\<close>

abbreviation pr_bar :: "fpga_pcie_priv \<Rightarrow> u32 \<Rightarrow> u64" where
  "pr_bar priv off \<equiv> bar_addrs priv ALTR_PCI_CVP_PR_BAR + ucast off"

definition freeze_bridge_read_version ::
  "('h, 'z) bus_scheme \<Rightarrow> fpga_pcie_priv \<Rightarrow> u32 \<Rightarrow> 'h world \<Rightarrow> int \<times> 'h world" where
  "freeze_bridge_read_version b priv ctlr_offset w =
     (let version_addr = ctlr_offset + FREEZE_VERSION_OFFSET;
          (version, w) = readl b (pr_bar priv version_addr) w
      in if version \<noteq> FREEZE_BRIDGE_SUPPORTED_VERSION then (0, w) else (1, w))"

definition freeze_bridge_req_ack ::
  "('h, 'z) bus_scheme \<Rightarrow> fpga_pcie_priv \<Rightarrow> u32 \<Rightarrow> u32 \<Rightarrow> 'h world \<Rightarrow> (int \<times> 'h world) option" where
  "freeze_bridge_req_ack b priv offset req_ack w =
     (let status_addr = offset + FREEZE_STATUS_OFFSET
      in do {
           (ack, w) \<leftarrow> do_while
             (\<lambda>(_, w). let (status, w) = readl b (pr_bar priv status_addr) w in (status AND req_ack, w))
             (\<lambda>(ack, _). ack = 0) (0, w);
           Some (0, w)
         })"

definition fpga_pr_region_controller_freeze_enable ::
  "('h, 'z) bus_scheme \<Rightarrow> fpga_pcie_priv \<Rightarrow> u32 \<Rightarrow> 'h world \<Rightarrow> (int \<times> 'h world) option" where
  "fpga_pr_region_controller_freeze_enable b priv offset w =
     (let status_addr = offset + FREEZE_STATUS_OFFSET;
          freeze_addr = offset + FREEZE_CTRL_OFFSET;
          (ok, w) = freeze_bridge_read_version b priv offset w
      in if ok = 0 then Some (- EINVAL, w)
         else let (status, w) = readl b (pr_bar priv status_addr) w
              in if status AND FREEZE_REQ_DONE \<noteq> 0 then Some (0, w)
                 else if status AND UNFREEZE_REQ_DONE = 0 then Some (- EINVAL, w)
                 else do {
                   let w = writel b FREEZE_REQ (pr_bar priv freeze_addr) w;
                   (_, w) \<leftarrow> freeze_bridge_req_ack b priv offset FREEZE_REQ_DONE w;
                   let w = writel b RESET_REQ (pr_bar priv freeze_addr) w;
                   Some (0, w)
                 })"

definition fpga_pr_region_controller_freeze_disable ::
  "('h, 'z) bus_scheme \<Rightarrow> fpga_pcie_priv \<Rightarrow> u32 \<Rightarrow> 'h world \<Rightarrow> (int \<times> 'h world) option" where
  "fpga_pr_region_controller_freeze_disable b priv offset w =
     (let status_addr = offset + FREEZE_STATUS_OFFSET;
          freeze_addr = offset + FREEZE_CTRL_OFFSET;
          (ok, w) = freeze_bridge_read_version b priv offset w
      in if ok = 0 then Some (- EINVAL, w)
         else let (status, w) = readl b (pr_bar priv status_addr) w
              in if status AND UNFREEZE_REQ_DONE \<noteq> 0 then Some (0, w)
                 else if status AND FREEZE_REQ_DONE = 0 then Some (- EINVAL, w)
                 else do {
                   let (status, w) = readl b (pr_bar priv freeze_addr) w;
                   let status = status XOR RESET_REQ;
                   let w = writel b status (pr_bar priv freeze_addr) w;
                   let w = writel b UNFREEZE_REQ (pr_bar priv freeze_addr) w;
                   (_, w) \<leftarrow> freeze_bridge_req_ack b priv offset UNFREEZE_REQ_DONE w;
                   let w = writel b 0 (pr_bar priv freeze_addr) w;
                   Some (0, w)
                 })"

section \<open>The user space driver\<close>

text \<open>
  \<open>read_u32\<close> stores through its pointer argument only when it succeeds: the model passes the old
  value of the variable and returns the new one, next to the return code. The user space code
  ignores the return codes.
\<close>

record 'w device_handle =
  read_u32 :: "u32 \<Rightarrow> u32 \<Rightarrow> 'w \<Rightarrow> int \<times> u32 \<times> 'w"
  write_u32 :: "u32 \<Rightarrow> u32 \<Rightarrow> 'w \<Rightarrow> int \<times> 'w"

record uio_handle =
  uio_fd :: int
  uio_size :: int
  uio_iomem :: u64

definition uio_read_u32 ::
  "('h, 'z) bus_scheme \<Rightarrow> uio_handle option \<Rightarrow> u32 \<Rightarrow> u32 \<Rightarrow> 'h world \<Rightarrow> int \<times> u32 \<times> 'h world" where
  "uio_read_u32 b h offset pdata w =
     (case h of
        None \<Rightarrow> (EINVAL, pdata, w)
      | Some uioh \<Rightarrow>
          if offset \<ge> word_of_int (uio_size uioh) then (EINVAL, pdata, w)
          else let (v, w) = readl b (uio_iomem uioh + ucast offset) w in (0, v, w))"

definition uio_write_u32 ::
  "('h, 'z) bus_scheme \<Rightarrow> uio_handle option \<Rightarrow> u32 \<Rightarrow> u32 \<Rightarrow> 'h world \<Rightarrow> int \<times> 'h world" where
  "uio_write_u32 b h offset data w =
     (case h of
        None \<Rightarrow> (EINVAL, w)
      | Some uioh \<Rightarrow>
          if offset \<ge> word_of_int (uio_size uioh) then (EINVAL, w)
          else (0, writel b data (uio_iomem uioh + ucast offset) w))"

definition uio_device_handle ::
  "('h, 'z) bus_scheme \<Rightarrow> uio_handle option \<Rightarrow> 'h world device_handle" where
  "uio_device_handle b h = \<lparr>read_u32 = uio_read_u32 b h, write_u32 = uio_write_u32 b h\<rparr>"

definition uio_freeze_bridge_read_version :: "'w device_handle \<Rightarrow> u32 \<Rightarrow> 'w \<Rightarrow> int \<times> 'w" where
  "uio_freeze_bridge_read_version dh ctlr_offset w =
     (let version = 0;
          (_, version, w) = read_u32 dh (ctlr_offset + FREEZE_VERSION_OFFSET) version w
      in if version \<noteq> FREEZE_BRIDGE_SUPPORTED_VERSION then (0, w) else (1, w))"

definition uio_freeze_bridge_req_ack ::
  "'w device_handle \<Rightarrow> u32 \<Rightarrow> u32 \<Rightarrow> 'w \<Rightarrow> (int \<times> 'w) option" where
  "uio_freeze_bridge_req_ack dh ctlr_offset req_ack w =
     do {
       (ack, w) \<leftarrow> do_while
         (\<lambda>(_, w). let status = 0;
                       (_, status, w) = read_u32 dh (ctlr_offset + FREEZE_STATUS_OFFSET) status w
                   in (status AND req_ack, w))
         (\<lambda>(ack, _). ack = 0) (0, w);
       Some (0, w)
     }"

definition freeze_bridge_enable :: "'w device_handle \<Rightarrow> u32 \<Rightarrow> 'w \<Rightarrow> (int \<times> 'w) option" where
  "freeze_bridge_enable dh ctlr_offset w =
     (let status = 0;
          (ok, w) = uio_freeze_bridge_read_version dh ctlr_offset w
      in if ok = 0 then Some (- EINVAL, w)
         else let (_, status, w) = read_u32 dh (ctlr_offset + FREEZE_STATUS_OFFSET) status w
              in if status AND FREEZE_REQ_DONE \<noteq> 0 then Some (0, w)
                 else if status AND UNFREEZE_REQ_DONE = 0 then Some (- EINVAL, w)
                 else do {
                   let (_, w) = write_u32 dh (ctlr_offset + FREEZE_CTRL_OFFSET) FREEZE_REQ w;
                   (_, w) \<leftarrow> uio_freeze_bridge_req_ack dh ctlr_offset FREEZE_REQ_DONE w;
                   let (_, w) = write_u32 dh (ctlr_offset + FREEZE_CTRL_OFFSET) RESET_REQ w;
                   Some (0, w)
                 })"

definition freeze_bridge_disable :: "'w device_handle \<Rightarrow> u32 \<Rightarrow> 'w \<Rightarrow> (int \<times> 'w) option" where
  "freeze_bridge_disable dh ctlr_offset w =
     (let status = 0;
          (ok, w) = uio_freeze_bridge_read_version dh ctlr_offset w
      in if ok = 0 then Some (- EINVAL, w)
         else let (_, status, w) = read_u32 dh (ctlr_offset + FREEZE_STATUS_OFFSET) status w
              in if status AND UNFREEZE_REQ_DONE \<noteq> 0 then Some (0, w)
                 else if status AND FREEZE_REQ_DONE = 0 then Some (- EINVAL, w)
                 else do {
                   let (_, status, w) = read_u32 dh (ctlr_offset + FREEZE_CTRL_OFFSET) status w;
                   let status = status XOR RESET_REQ;
                   let (_, w) = write_u32 dh (ctlr_offset + FREEZE_CTRL_OFFSET) status w;
                   let (_, w) = write_u32 dh (ctlr_offset + FREEZE_CTRL_OFFSET) UNFREEZE_REQ w;
                   (_, w) \<leftarrow> uio_freeze_bridge_req_ack dh ctlr_offset UNFREEZE_REQ_DONE w;
                   let (_, w) = write_u32 dh (ctlr_offset + FREEZE_CTRL_OFFSET) 0 w;
                   Some (0, w)
                 })"

section \<open>The two drivers agree\<close>

text \<open>The kernel driver is the user space protocol over accessors that never fail.\<close>

definition kernel_device_handle ::
  "('h, 'z) bus_scheme \<Rightarrow> fpga_pcie_priv \<Rightarrow> 'h world device_handle" where
  "kernel_device_handle b priv =
     \<lparr>read_u32 = (\<lambda>off d w. let (v, w) = readl b (pr_bar priv off) w in (0, v, w)),
      write_u32 = (\<lambda>off v w. (0, writel b v (pr_bar priv off) w))\<rparr>"

lemma kernel_handle_simps [simp]:
  "read_u32 (kernel_device_handle b priv) off d w = (let (v, w) = readl b (pr_bar priv off) w in (0, v, w))"
  "write_u32 (kernel_device_handle b priv) off v w = (0, writel b v (pr_bar priv off) w)"
  by (simp_all add: kernel_device_handle_def)

lemma read_version_kernel:
  "freeze_bridge_read_version b priv off w =
   uio_freeze_bridge_read_version (kernel_device_handle b priv) off w"
  by (simp add: freeze_bridge_read_version_def uio_freeze_bridge_read_version_def split: prod.split)

lemma req_ack_kernel:
  "freeze_bridge_req_ack b priv off req w =
   uio_freeze_bridge_req_ack (kernel_device_handle b priv) off req w"
  by (simp add: freeze_bridge_req_ack_def uio_freeze_bridge_req_ack_def case_prod_beta Let_def)

lemma freeze_enable_kernel:
  "fpga_pr_region_controller_freeze_enable b priv off w =
   freeze_bridge_enable (kernel_device_handle b priv) off w"
  unfolding fpga_pr_region_controller_freeze_enable_def freeze_bridge_enable_def
    read_version_kernel req_ack_kernel
  by (auto simp: Let_def split: prod.split)

lemma freeze_disable_kernel:
  "fpga_pr_region_controller_freeze_disable b priv off w =
   freeze_bridge_disable (kernel_device_handle b priv) off w"
  unfolding fpga_pr_region_controller_freeze_disable_def freeze_bridge_disable_def
    read_version_kernel req_ack_kernel
  by (auto simp: Let_def split: prod.split)

text \<open>
  The protocol uses three registers only: two handles that agree on them, up to the return codes
  that the code ignores, run alike.
\<close>

definition same_access :: "'w device_handle \<Rightarrow> 'w device_handle \<Rightarrow> u32 \<Rightarrow> bool" where
  "same_access dh dh' off \<longleftrightarrow>
     (\<forall>d w. snd (read_u32 dh off d w) = snd (read_u32 dh' off d w)) \<and>
     (\<forall>v w. snd (write_u32 dh off v w) = snd (write_u32 dh' off v w))"

lemma same_accessD:
  assumes "same_access dh dh' off"
  shows "snd (read_u32 dh off d w) = snd (read_u32 dh' off d w)"
    and "snd (write_u32 dh off v w) = snd (write_u32 dh' off v w)"
  using assms by (auto simp: same_access_def)

lemma freeze_bridge_cong:
  assumes S: "same_access dh dh' (off + FREEZE_STATUS_OFFSET)"
    and C: "same_access dh dh' (off + FREEZE_CTRL_OFFSET)"
    and V: "same_access dh dh' (off + FREEZE_VERSION_OFFSET)"
  shows "freeze_bridge_enable dh off w = freeze_bridge_enable dh' off w"
    and "freeze_bridge_disable dh off w = freeze_bridge_disable dh' off w"
  by (simp_all only: freeze_bridge_enable_def freeze_bridge_disable_def Let_def case_prod_beta
      uio_freeze_bridge_read_version_def uio_freeze_bridge_req_ack_def
      same_accessD [OF S] same_accessD [OF C] same_accessD [OF V])

section \<open>The contract of register access, and what the protocol does to the registers\<close>

text \<open>
  A register access layer accepts some offsets (\<open>ok\<close>), maps them to bus addresses and logs each
  access; a refused access changes nothing, and a refused read leaves the caller's variable alone.
\<close>

locale device_access =
  fixes dh :: "'w device_handle"
    and addr :: "u32 \<Rightarrow> u64"
    and ok :: "u32 \<Rightarrow> bool"
    and log :: "'w \<Rightarrow> io_event list"
  assumes read_ok: "ok off \<Longrightarrow> read_u32 dh off d w = (r, v, w') \<Longrightarrow>
      r = 0 \<and> log w' = log w @ [Read (addr off) v]"
    and read_bad: "\<not> ok off \<Longrightarrow> read_u32 dh off d w = (r, v, w') \<Longrightarrow> r \<noteq> 0 \<and> v = d \<and> w' = w"
    and write_ok: "ok off \<Longrightarrow> write_u32 dh off v w = (r, w') \<Longrightarrow>
      r = 0 \<and> log w' = log w @ [Write (addr off) v]"
    and write_bad: "\<not> ok off \<Longrightarrow> write_u32 dh off v w = (r, w') \<Longrightarrow> r \<noteq> 0 \<and> w' = w"

text \<open>Reads of one register, of which exactly the last one has a bit of \<open>req\<close> set.\<close>

fun acked_poll :: "u64 \<Rightarrow> u32 \<Rightarrow> io_event list \<Rightarrow> bool" where
  "acked_poll a req [] = False"
| "acked_poll a req (Read c v # t) =
     (c = a \<and> (if v AND req = 0 then acked_poll a req t else t = []))"
| "acked_poll a req (e # t) = False"

lemma acked_poll_no_writes: "acked_poll a req t \<Longrightarrow> writes_of t = []"
  by (induction a req t rule: acked_poll.induct) (auto split: if_splits)

lemma acked_poll_last: "acked_poll a req t \<Longrightarrow> \<exists>p s. t = p @ [Read a s] \<and> s AND req \<noteq> 0"
proof (induction a req t rule: acked_poll.induct)
  case (2 a req c v t)
  then show ?case
  proof (cases "v AND req = 0")
    case True
    with 2 obtain p s where "t = p @ [Read a s]" "s AND req \<noteq> 0" by auto
    then show ?thesis by (intro exI [of _ "Read c v # p"]) auto
  qed auto
qed auto

text \<open>What a call that returns may do: its return code and the register accesses it makes.\<close>

inductive enable_spec :: "u64 \<Rightarrow> u64 \<Rightarrow> u64 \<Rightarrow> int \<Rightarrow> io_event list \<Rightarrow> bool"
  for S C V :: u64 where
  version: "v \<noteq> FREEZE_BRIDGE_SUPPORTED_VERSION \<Longrightarrow> enable_spec S C V (- EINVAL) [Read V v]"
| frozen: "s AND FREEZE_REQ_DONE \<noteq> 0 \<Longrightarrow>
     enable_spec S C V 0 [Read V FREEZE_BRIDGE_SUPPORTED_VERSION, Read S s]"
| unready: "s AND FREEZE_REQ_DONE = 0 \<Longrightarrow> s AND UNFREEZE_REQ_DONE = 0 \<Longrightarrow>
     enable_spec S C V (- EINVAL) [Read V FREEZE_BRIDGE_SUPPORTED_VERSION, Read S s]"
| freeze: "s AND FREEZE_REQ_DONE = 0 \<Longrightarrow> s AND UNFREEZE_REQ_DONE \<noteq> 0 \<Longrightarrow>
     acked_poll S FREEZE_REQ_DONE p \<Longrightarrow>
     enable_spec S C V 0
       ([Read V FREEZE_BRIDGE_SUPPORTED_VERSION, Read S s, Write C FREEZE_REQ] @ p @
        [Write C RESET_REQ])"

inductive disable_spec :: "u64 \<Rightarrow> u64 \<Rightarrow> u64 \<Rightarrow> int \<Rightarrow> io_event list \<Rightarrow> bool"
  for S C V :: u64 where
  version: "v \<noteq> FREEZE_BRIDGE_SUPPORTED_VERSION \<Longrightarrow> disable_spec S C V (- EINVAL) [Read V v]"
| unfrozen: "s AND UNFREEZE_REQ_DONE \<noteq> 0 \<Longrightarrow>
     disable_spec S C V 0 [Read V FREEZE_BRIDGE_SUPPORTED_VERSION, Read S s]"
| unready: "s AND UNFREEZE_REQ_DONE = 0 \<Longrightarrow> s AND FREEZE_REQ_DONE = 0 \<Longrightarrow>
     disable_spec S C V (- EINVAL) [Read V FREEZE_BRIDGE_SUPPORTED_VERSION, Read S s]"
| unfreeze: "s AND UNFREEZE_REQ_DONE = 0 \<Longrightarrow> s AND FREEZE_REQ_DONE \<noteq> 0 \<Longrightarrow>
     acked_poll S UNFREEZE_REQ_DONE p \<Longrightarrow>
     disable_spec S C V 0
       ([Read V FREEZE_BRIDGE_SUPPORTED_VERSION, Read S s, Read C c,
         Write C (c XOR RESET_REQ), Write C UNFREEZE_REQ] @ p @ [Write C 0])"

inductive_cases enable_specE: "enable_spec S C V r t"
inductive_cases disable_specE: "disable_spec S C V r t"

context device_access
begin

lemma poll_log:
  assumes "do_while
      (\<lambda>(_, w). let status = 0; (_, status, w) = read_u32 dh off status w in (status AND req, w))
      (\<lambda>(ack, _). ack = 0) x = Some y"
    and "ok off"
  shows "\<exists>p. log (snd y) = log (snd x) @ p \<and> acked_poll (addr off) req p"
  using assms
proof (induction rule: do_while_induct)
  case (stop x)
  obtain r v w' where "read_u32 dh off 0 (snd x) = (r, v, w')" by (metis prod_cases3)
  with stop read_ok [OF \<open>ok off\<close> this] show ?case
    by (intro exI [of _ "[Read (addr off) v]"]) (simp add: case_prod_beta)
next
  case (step x y)
  obtain r v w' where r: "read_u32 dh off 0 (snd x) = (r, v, w')" by (metis prod_cases3)
  from step obtain p where p: "log (snd y) = log w' @ p" "acked_poll (addr off) req p"
    by (auto simp: r case_prod_beta)
  with step.hyps r read_ok [OF \<open>ok off\<close> r] show ?case
    by (intro exI [of _ "Read (addr off) v # p"]) (simp add: case_prod_beta)
qed

lemma req_ack_log:
  assumes "uio_freeze_bridge_req_ack dh off req w = Some (r, w')"
    and "ok (off + FREEZE_STATUS_OFFSET)"
  shows "r = 0 \<and> (\<exists>p. log w' = log w @ p \<and> acked_poll (addr (off + FREEZE_STATUS_OFFSET)) req p)"
  using assms
  by (auto simp: uio_freeze_bridge_req_ack_def bind_eq_Some_conv dest!: poll_log [simplified])

lemma version_log:
  assumes "uio_freeze_bridge_read_version dh off w = (r, w')" and "ok (off + FREEZE_VERSION_OFFSET)"
  shows "\<exists>v. log w' = log w @ [Read (addr (off + FREEZE_VERSION_OFFSET)) v] \<and>
             r = (if v = FREEZE_BRIDGE_SUPPORTED_VERSION then 1 else 0)"
  using assms
  by (auto simp: uio_freeze_bridge_read_version_def split: prod.splits if_splits dest: read_ok)

lemma version_bad:
  assumes "\<not> ok (off + FREEZE_VERSION_OFFSET)"
  shows "uio_freeze_bridge_read_version dh off w = (0, w)"
  using assms
  by (auto simp: uio_freeze_bridge_read_version_def FREEZE_BRIDGE_SUPPORTED_VERSION_def
      split: prod.splits dest: read_bad)

lemma enable_refines:
  assumes run: "freeze_bridge_enable dh off w = Some (r, w')"
    and S: "ok (off + FREEZE_STATUS_OFFSET)" and C: "ok (off + FREEZE_CTRL_OFFSET)"
    and V: "ok (off + FREEZE_VERSION_OFFSET)"
  shows "\<exists>t. log w' = log w @ t \<and>
      enable_spec (addr (off + FREEZE_STATUS_OFFSET)) (addr (off + FREEZE_CTRL_OFFSET))
        (addr (off + FREEZE_VERSION_OFFSET)) r t"
proof -
  obtain k w1 where k: "uio_freeze_bridge_read_version dh off w = (k, w1)" by fastforce
  obtain v where v: "log w1 = log w @ [Read (addr (off + FREEZE_VERSION_OFFSET)) v]"
      "k = (if v = FREEZE_BRIDGE_SUPPORTED_VERSION then 1 else 0)"
    using version_log [OF k V] by blast
  obtain e s w2 where s: "read_u32 dh (off + FREEZE_STATUS_OFFSET) 0 w1 = (e, s, w2)"
    by (metis prod_cases3)
  note s_log = read_ok [OF S s]
  obtain e1 w3 where w3: "write_u32 dh (off + FREEZE_CTRL_OFFSET) FREEZE_REQ w2 = (e1, w3)"
    by fastforce
  note w3_log = write_ok [OF C w3]
  consider (version) "k = 0" | (frozen) "k \<noteq> 0" "s AND FREEZE_REQ_DONE \<noteq> 0"
    | (unready) "k \<noteq> 0" "s AND FREEZE_REQ_DONE = 0" "s AND UNFREEZE_REQ_DONE = 0"
    | (freeze) "k \<noteq> 0" "s AND FREEZE_REQ_DONE = 0" "s AND UNFREEZE_REQ_DONE \<noteq> 0" by blast
  then show ?thesis
  proof cases
    case freeze
    with run k s w3 obtain a w4 where a: "uio_freeze_bridge_req_ack dh off FREEZE_REQ_DONE w3 = Some (a, w4)"
      and w': "r = 0" "snd (write_u32 dh (off + FREEZE_CTRL_OFFSET) RESET_REQ w4) = w'"
      by (auto simp: freeze_bridge_enable_def bind_eq_Some_conv case_prod_beta)
    obtain e2 where "write_u32 dh (off + FREEZE_CTRL_OFFSET) RESET_REQ w4 = (e2, w')"
      using w'(2) by (metis prod.collapse)
    from write_ok [OF C this] req_ack_log [OF a S] w'(1) s_log w3_log v freeze show ?thesis
      by (auto intro!: enable_spec.freeze [simplified] split: if_splits)
  qed (use run k v s s_log in \<open>auto simp: freeze_bridge_enable_def split: if_splits
      intro: enable_spec.intros\<close>)
qed

lemma disable_refines:
  assumes run: "freeze_bridge_disable dh off w = Some (r, w')"
    and S: "ok (off + FREEZE_STATUS_OFFSET)" and C: "ok (off + FREEZE_CTRL_OFFSET)"
    and V: "ok (off + FREEZE_VERSION_OFFSET)"
  shows "\<exists>t. log w' = log w @ t \<and>
      disable_spec (addr (off + FREEZE_STATUS_OFFSET)) (addr (off + FREEZE_CTRL_OFFSET))
        (addr (off + FREEZE_VERSION_OFFSET)) r t"
proof -
  obtain k w1 where k: "uio_freeze_bridge_read_version dh off w = (k, w1)" by fastforce
  obtain v where v: "log w1 = log w @ [Read (addr (off + FREEZE_VERSION_OFFSET)) v]"
      "k = (if v = FREEZE_BRIDGE_SUPPORTED_VERSION then 1 else 0)"
    using version_log [OF k V] by blast
  obtain e s w2 where s: "read_u32 dh (off + FREEZE_STATUS_OFFSET) 0 w1 = (e, s, w2)"
    by (metis prod_cases3)
  note s_log = read_ok [OF S s]
  obtain e1 c w3 where c: "read_u32 dh (off + FREEZE_CTRL_OFFSET) s w2 = (e1, c, w3)"
    by (metis prod_cases3)
  note c_log = read_ok [OF C c]
  obtain e2 w4 where w4: "write_u32 dh (off + FREEZE_CTRL_OFFSET) (c XOR RESET_REQ) w3 = (e2, w4)"
    by fastforce
  note w4_log = write_ok [OF C w4]
  obtain e3 w5 where w5: "write_u32 dh (off + FREEZE_CTRL_OFFSET) UNFREEZE_REQ w4 = (e3, w5)"
    by fastforce
  note w5_log = write_ok [OF C w5]
  consider (version) "k = 0" | (unfrozen) "k \<noteq> 0" "s AND UNFREEZE_REQ_DONE \<noteq> 0"
    | (unready) "k \<noteq> 0" "s AND UNFREEZE_REQ_DONE = 0" "s AND FREEZE_REQ_DONE = 0"
    | (unfreeze) "k \<noteq> 0" "s AND UNFREEZE_REQ_DONE = 0" "s AND FREEZE_REQ_DONE \<noteq> 0" by blast
  then show ?thesis
  proof cases
    case unfreeze
    with run k s c w4 w5 obtain a w6
      where a: "uio_freeze_bridge_req_ack dh off UNFREEZE_REQ_DONE w5 = Some (a, w6)"
      and w': "r = 0" "snd (write_u32 dh (off + FREEZE_CTRL_OFFSET) 0 w6) = w'"
      by (auto simp: freeze_bridge_disable_def bind_eq_Some_conv case_prod_beta)
    obtain e4 where "write_u32 dh (off + FREEZE_CTRL_OFFSET) 0 w6 = (e4, w')"
      using w'(2) by (metis prod.collapse)
    from write_ok [OF C this] req_ack_log [OF a S] w'(1) s_log c_log w4_log w5_log v unfreeze
    show ?thesis
      by (auto intro!: disable_spec.unfreeze [simplified] split: if_splits)
  qed (use run k v s s_log in \<open>auto simp: freeze_bridge_disable_def split: if_splits
      intro: disable_spec.intros\<close>)
qed

lemma out_of_range_refused:
  assumes "\<not> ok (off + FREEZE_VERSION_OFFSET)"
  shows "freeze_bridge_enable dh off w = Some (- EINVAL, w)"
    and "freeze_bridge_disable dh off w = Some (- EINVAL, w)"
  by (simp_all add: freeze_bridge_enable_def freeze_bridge_disable_def version_bad [OF assms])

end

interpretation kernel_access:
  device_access "kernel_device_handle b priv" "pr_bar priv" "\<lambda>_. True" trace
  for b :: "('h, 'z) bus_scheme" and priv
  by unfold_locales (auto simp: trace_simps dest: trace_readlD split: prod.splits)

interpretation uio_access:
  device_access "uio_device_handle b (Some h)" "\<lambda>off. uio_iomem h + ucast off"
    "\<lambda>off. off < word_of_int (uio_size h)" trace
  for b :: "('h, 'z) bus_scheme" and h
  by unfold_locales
    (auto simp: uio_device_handle_def uio_read_u32_def uio_write_u32_def trace_simps EINVAL_def
      dest: trace_readlD split: prod.splits if_splits)

section \<open>When the acknowledgement loop ends\<close>

text \<open>The status register as the loop sees it: the value of read number \<open>n\<close>, counted from 0.\<close>

definition nth_status :: "('h, 'z) bus_scheme \<Rightarrow> u64 \<Rightarrow> nat \<Rightarrow> 'h world \<Rightarrow> u32" where
  "nth_status b a n w = fst (readl b a (((\<lambda>w. snd (readl b a w)) ^^ n) w))"

lemma req_ack_body:
  "((\<lambda>(_, w). let (status, w) = readl b a w in (status AND req, w)) ^^ Suc n) (x :: u32, w) =
   (nth_status b a n w AND req, ((\<lambda>w. snd (readl b a w)) ^^ Suc n) w)"
  by (induction n) (simp_all add: nth_status_def case_prod_beta Let_def)

lemma req_ack_None_iff:
  "freeze_bridge_req_ack b priv off req w = None \<longleftrightarrow>
   (\<forall>n. nth_status b (pr_bar priv (off + FREEZE_STATUS_OFFSET)) n w AND req = 0)"
  unfolding freeze_bridge_req_ack_def Let_def [of "off + FREEZE_STATUS_OFFSET"]
  by (subst bind_total_None) (simp_all only: do_while_None_iff req_ack_body split: prod.split, simp_all)

section \<open>A controller that acknowledges at once, for the witnesses\<close>

text \<open>Device state: the status and the control register, at \<open>base\<close> and \<open>base + 4\<close>.\<close>

definition demo_ctlr :: "u64 \<Rightarrow> (u32 \<times> u32) bus" where
  "demo_ctlr base =
     \<lparr>bus_read = (\<lambda>a (s, c). (if a = base then s else if a = base + 4 then c
                             else if a = base + 12 then FREEZE_BRIDGE_SUPPORTED_VERSION else 0, (s, c))),
      bus_write = (\<lambda>a v (s, c). if a = base + 4
         then (if v = FREEZE_REQ then 1 else if v = UNFREEZE_REQ then 2 else s, v) else (s, c)),
      bus_wait = (\<lambda>_ d. d)\<rparr>"

definition demo_priv :: fpga_pcie_priv where
  "demo_priv = \<lparr>bar_addrs = (\<lambda>i. if i < 6 then 0x10000 * of_nat (i + 1) else 0), debugfs_root = 0, pci_dev = Some 1,
     pci_upstream_dev = Some 0, aer_uerr_mask_reg = 0, drv_st = ST_IDLE,
     config_state = FPGA_CONFIG_STATE_UNKNOWN, reg_base = 0x31000\<rparr>"

definition demo_uio :: uio_handle where
  "demo_uio = \<lparr>uio_fd = 3, uio_size = 0x10000, uio_iomem = 0x50000\<rparr>"

lemmas demo_defs = demo_ctlr_def demo_priv_def

lemma demo_enable:
  "fpga_pr_region_controller_freeze_enable (demo_ctlr 0x50800) demo_priv 0x800
     \<lparr>dev = (2, 0), trace = []\<rparr> =
   Some (0, \<lparr>dev = (1, 2), trace =
     [Read 0x5080c FREEZE_BRIDGE_SUPPORTED_VERSION, Read 0x50800 2, Write 0x50804 FREEZE_REQ,
      Read 0x50800 1, Write 0x50804 RESET_REQ]\<rparr>)"
  by (simp add: fpga_pr_region_controller_freeze_enable_def freeze_bridge_read_version_def
      freeze_bridge_req_ack_def do_while_unfold demo_defs readl_def writel_def
      const_defs)

lemma demo_disable:
  "fpga_pr_region_controller_freeze_disable (demo_ctlr 0x50800) demo_priv 0x800
     \<lparr>dev = (1, 2), trace = []\<rparr> =
   Some (0, \<lparr>dev = (2, 0), trace =
     [Read 0x5080c FREEZE_BRIDGE_SUPPORTED_VERSION, Read 0x50800 1, Read 0x50804 2, Write 0x50804 0,
      Write 0x50804 UNFREEZE_REQ, Read 0x50800 2, Write 0x50804 0]\<rparr>)"
  by (simp add: fpga_pr_region_controller_freeze_disable_def freeze_bridge_read_version_def
      freeze_bridge_req_ack_def do_while_unfold demo_defs readl_def writel_def
      const_defs)

section \<open>Properties\<close>

text \<open>
  C11. Freezing a region refines its specification: whenever the call returns, its return code and
  its register accesses are those of \<open>enable_spec\<close>. In particular the only writes are FREEZE_REQ
  and then RESET_REQ, the reset is asserted only right after a status read that acknowledged the
  freeze, and a controller of the wrong version or one that is neither frozen nor unfrozen gets
  no write at all and yields \<open>-EINVAL\<close>.
\<close>

theorem freeze_enable_refines:
  assumes "fpga_pr_region_controller_freeze_enable b priv off w = Some (r, w')"
  shows "\<exists>t. trace w' = trace w @ t \<and>
    enable_spec (pr_bar priv (off + FREEZE_STATUS_OFFSET)) (pr_bar priv (off + FREEZE_CTRL_OFFSET))
      (pr_bar priv (off + FREEZE_VERSION_OFFSET)) r t"
  using kernel_access.enable_refines [OF assms [unfolded freeze_enable_kernel]] by simp

theorem freeze_enable_refines_witness:
  "\<exists>t. [Read 0x5080c FREEZE_BRIDGE_SUPPORTED_VERSION, Read 0x50800 2, Write 0x50804 FREEZE_REQ,
        Read 0x50800 1, Write 0x50804 RESET_REQ] = t \<and> enable_spec 0x50800 0x50804 0x5080c 0 t"
  using freeze_enable_refines [OF demo_enable] by (simp add: demo_priv_def const_defs)

text \<open>
  Unfreezing a region refines its specification: the call toggles the reset bit of the value it
  read from the control register, requests the unfreeze, waits for its acknowledgement and only
  then clears the control register; on every other path it writes nothing.
\<close>

theorem freeze_disable_refines:
  assumes "fpga_pr_region_controller_freeze_disable b priv off w = Some (r, w')"
  shows "\<exists>t. trace w' = trace w @ t \<and>
    disable_spec (pr_bar priv (off + FREEZE_STATUS_OFFSET)) (pr_bar priv (off + FREEZE_CTRL_OFFSET))
      (pr_bar priv (off + FREEZE_VERSION_OFFSET)) r t"
  using kernel_access.disable_refines [OF assms [unfolded freeze_disable_kernel]] by simp

theorem freeze_disable_refines_witness:
  "\<exists>t. [Read 0x5080c FREEZE_BRIDGE_SUPPORTED_VERSION, Read 0x50800 1, Read 0x50804 2,
        Write 0x50804 0, Write 0x50804 UNFREEZE_REQ, Read 0x50800 2, Write 0x50804 0] = t \<and>
       disable_spec 0x50800 0x50804 0x5080c 0 t"
  using freeze_disable_refines [OF demo_disable] by (simp add: demo_priv_def const_defs)

text \<open>
  C12. The kernel driver and the user space driver are the same protocol: on a UIO mapping of BAR 4
  that covers the four registers of the controller, both give the same return code, the same
  register accesses in the same order and the same final device state, and one hangs exactly when
  the other does.
\<close>

theorem uio_kernel_agree:
  assumes "uio_iomem h = bar_addrs priv ALTR_PCI_CVP_PR_BAR"
    and "uint off + 12 < uio_size h" and "uio_size h < 2 ^ 31"
  shows "freeze_bridge_enable (uio_device_handle b (Some h)) off w =
           fpga_pr_region_controller_freeze_enable b priv off w \<and>
         freeze_bridge_disable (uio_device_handle b (Some h)) off w =
           fpga_pr_region_controller_freeze_disable b priv off w"
proof -
  have "0 \<le> uio_size h" using assms(2) uint_ge_0 [of off] by linarith
  with assms(3) have sz: "uint (word_of_int (uio_size h) :: u32) = uio_size h"
    by (simp add: uint_word_of_int mod_pos_pos_trivial)
  have lt: "off + k < word_of_int (uio_size h)" if "uint k \<le> 12" for k
  proof -
    have "uint (off + k) = uint off + uint k"
      using assms(2,3) that by (intro uint_plus_simple_iff [THEN iffD1])
        (simp add: no_olen_add)
    with that assms(2) show ?thesis by (simp add: word_less_def sz)
  qed
  have "same_access (uio_device_handle b (Some h)) (kernel_device_handle b priv) (off + k)"
    if "uint k \<le> 12" for k
    using lt [OF that] assms(1)
    by (auto simp: same_access_def uio_device_handle_def uio_read_u32_def uio_write_u32_def
        split: prod.split)
  from this [of FREEZE_STATUS_OFFSET] this [of FREEZE_CTRL_OFFSET] this [of FREEZE_VERSION_OFFSET]
  show ?thesis
    by (simp add: const_defs freeze_enable_kernel freeze_disable_kernel freeze_bridge_cong)
qed

theorem uio_kernel_agree_witness:
  "freeze_bridge_enable (uio_device_handle (demo_ctlr 0x50800) (Some demo_uio)) 0x800
     \<lparr>dev = (2, 0), trace = []\<rparr> =
     fpga_pr_region_controller_freeze_enable (demo_ctlr 0x50800) demo_priv 0x800
       \<lparr>dev = (2, 0), trace = []\<rparr> \<and>
   freeze_bridge_disable (uio_device_handle (demo_ctlr 0x50800) (Some demo_uio)) 0x800
     \<lparr>dev = (2, 0), trace = []\<rparr> =
     fpga_pr_region_controller_freeze_disable (demo_ctlr 0x50800) demo_priv 0x800
       \<lparr>dev = (2, 0), trace = []\<rparr>"
  by (rule uio_kernel_agree) (simp_all add: demo_uio_def demo_priv_def const_defs)

text \<open>
  C13. When the kernel driver hangs: freezing never returns exactly when the controller has the
  supported version, reports unfrozen and not frozen, and, after the freeze request was written,
  never sets FREEZE_REQ_DONE in any of the reads that follow. There is no timeout.
\<close>

theorem freeze_enable_hangs_iff:
  "fpga_pr_region_controller_freeze_enable b priv off w = None \<longleftrightarrow>
     (let (v, w1) = readl b (pr_bar priv (off + FREEZE_VERSION_OFFSET)) w;
          (s, w2) = readl b (pr_bar priv (off + FREEZE_STATUS_OFFSET)) w1;
          w3 = writel b FREEZE_REQ (pr_bar priv (off + FREEZE_CTRL_OFFSET)) w2
      in v = FREEZE_BRIDGE_SUPPORTED_VERSION \<and> s AND FREEZE_REQ_DONE = 0 \<and>
         s AND UNFREEZE_REQ_DONE \<noteq> 0 \<and>
         (\<forall>n. nth_status b (pr_bar priv (off + FREEZE_STATUS_OFFSET)) n w3 AND FREEZE_REQ_DONE = 0))"
  unfolding fpga_pr_region_controller_freeze_enable_def freeze_bridge_read_version_def Let_def
    case_prod_beta req_ack_None_iff [symmetric]
  by (auto simp: bind_eq_None_conv)

end
