(* ===== verification/Pr_Ip_Core.thy ===== *)
theory Pr_Ip_Core
  imports Driver_State "HOL-Library.Sublist"
begin

text \<open>
  What the drivers of the partial reconfiguration IP core share: the register map that is common to
  the Arria 10 and the Stratix 10 core, the 32 bit words in which a configuration image is pushed
  into the data register, the file the image is read from, and the contract and the protocol of a core
  (locales \<open>pr_ip_core\<close>, \<open>protocol_core\<close>).

  The host is little endian: \<open>((u32 *)buf)[i]\<close> is the word of the bytes \<open>4 i\<close> to \<open>4 i + 3\<close>, lowest
  byte first. \<open>kernel_read\<close> is a function of the kernel; a file is the function it computes, from
  an offset and a count to the return code and the bytes it stores.
\<close>

section \<open>Registers\<close>

definition ALT_PR_DATA_OFST :: u64 where [const_defs]: "ALT_PR_DATA_OFST = 0x00"
definition ALT_PR_CSR_OFST :: u64 where [const_defs]: "ALT_PR_CSR_OFST = 0x04"
definition ALT_PR_VER_OFST :: u64 where [const_defs]: "ALT_PR_VER_OFST = 0x08"
definition ALT_PR_POF_ID_OFST :: u64 where [const_defs]: "ALT_PR_POF_ID_OFST = 0x0c"
definition ALT_PR_CSR_PR_START :: u32 where [const_defs]: "ALT_PR_CSR_PR_START = BIT 0"
definition ALT_PR_VER_POF_ID :: u32 where [const_defs]: "ALT_PR_VER_POF_ID = 0xaa500003"
definition ALT_PR_RBF_ID_OFST :: nat where [const_defs]: "ALT_PR_RBF_ID_OFST = 71 * 4"

section \<open>Words of an image\<close>

definition le32 :: "u8 \<Rightarrow> u8 \<Rightarrow> u8 \<Rightarrow> u8 \<Rightarrow> u32" where
  "le32 b0 b1 b2 b3 =
     ucast b0 OR push_bit 8 (ucast b1) OR push_bit 16 (ucast b2) OR push_bit 24 (ucast b3)"

definition buf32 :: "cbuf \<Rightarrow> nat \<Rightarrow> u32" where
  "buf32 buf p = le32 (buf p) (buf (p + 1)) (buf (p + 2)) (buf (p + 3))"

fun le_words :: "u8 list \<Rightarrow> u32 list" where
  "le_words (b0 # b1 # b2 # b3 # bs) = le32 b0 b1 b2 b3 # le_words bs"
| "le_words [b0, b1, b2] = [le32 b0 b1 b2 0]"
| "le_words [b0, b1] = [le32 b0 b1 0 0]"
| "le_words [b0] = [le32 b0 0 0 0]"
| "le_words [] = []"

definition word_bytes :: "u32 \<Rightarrow> u8 list" where
  "word_bytes v = [ucast v, ucast (drop_bit 8 v), ucast (drop_bit 16 v), ucast (drop_bit 24 v)]"

lemma word_bytes_le32 [simp]: "word_bytes (le32 a b c d) = [a, b, c, d]"
  by (simp add: word_bytes_def le32_def) (auto intro!: bit_word_eqI simp: bit_simps dest: u8_bit_less)

lemma le32_mask:
  "le32 a b c d AND 0x00ffffff = le32 a b c 0"
  "le32 a b c d AND 0x0000ffff = le32 a b 0 0"
  "le32 a b c d AND 0x000000ff = le32 a 0 0 0"
proof -
  have m: "(0x00ffffff :: u32) = mask 24" "(0x0000ffff :: u32) = mask 16" "(0x000000ff :: u32) = mask 8"
    by (simp_all add: mask_eq_exp_minus_1)
  show "le32 a b c d AND 0x00ffffff = le32 a b c 0"
    "le32 a b c d AND 0x0000ffff = le32 a b 0 0"
    "le32 a b c d AND 0x000000ff = le32 a 0 0 0"
    unfolding m le32_def by (auto intro!: bit_word_eqI simp: bit_simps) (auto dest!: u8_bit_less)
qed

text \<open>The words lose nothing: their bytes, cut at the length of the image, are the image.\<close>

lemma le_words_bytes: "take (length bs) (concat (map word_bytes (le_words bs))) = bs"
  by (induction bs rule: le_words.induct) auto

lemma length_le_words: "length (le_words bs) = (length bs + 3) div 4"
  by (induction bs rule: le_words.induct) auto

lemma le_words_append: "length as = 4 * n \<Longrightarrow> le_words (as @ bs) = le_words as @ le_words bs"
proof (induction n arbitrary: as)
  case (Suc n)
  then obtain b0 b1 b2 b3 as' where "as = b0 # b1 # b2 # b3 # as'" and "length as' = 4 * n"
    by (cases as rule: le_words.cases) auto
  then show ?case using Suc.IH by simp
qed simp

lemma le_words_drop:
  assumes "k + 4 \<le> length bs"
  shows "le_words (drop k bs) =
    le32 (bs ! k) (bs ! (k + 1)) (bs ! (k + 2)) (bs ! (k + 3)) # le_words (drop (k + 4) bs)"
proof -
  have "drop k bs = bs ! k # bs ! (k + 1) # bs ! (k + 2) # bs ! (k + 3) # drop (k + 4) bs"
    using assms by (simp add: Cons_nth_drop_Suc numeral_eq_Suc)
  then show ?thesis by simp
qed

text \<open>The complete words of an image, and the bytes that are left.\<close>

fun full_words :: "u8 list \<Rightarrow> u32 list" where
  "full_words (b0 # b1 # b2 # b3 # bs) = le32 b0 b1 b2 b3 # full_words bs"
| "full_words _ = []"

fun rest_bytes :: "u8 list \<Rightarrow> u8 list" where
  "rest_bytes (b0 # b1 # b2 # b3 # bs) = rest_bytes bs"
| "rest_bytes bs = bs"

lemma le_words_split: "le_words bs = full_words bs @ le_words (rest_bytes bs)"
  by (induction bs rule: le_words.induct) auto

lemma length_rest_bytes: "length (rest_bytes bs) = length bs mod 4"
  by (induction bs rule: rest_bytes.induct) auto

lemma length_full_words: "length (full_words bs) = length bs div 4"
  by (induction bs rule: full_words.induct) auto

lemma words_drop:
  assumes "k + 4 \<le> length bs"
  shows "full_words (drop k bs) =
      le32 (bs ! k) (bs ! (k + 1)) (bs ! (k + 2)) (bs ! (k + 3)) # full_words (drop (k + 4) bs)"
    and "rest_bytes (drop k bs) = rest_bytes (drop (k + 4) bs)"
proof -
  have "drop k bs = bs ! k # bs ! (k + 1) # bs ! (k + 2) # bs ! (k + 3) # drop (k + 4) bs"
    using assms by (simp add: Cons_nth_drop_Suc numeral_eq_Suc)
  then show "full_words (drop k bs) =
      le32 (bs ! k) (bs ! (k + 1)) (bs ! (k + 2)) (bs ! (k + 3)) # full_words (drop (k + 4) bs)"
    and "rest_bytes (drop k bs) = rest_bytes (drop (k + 4) bs)" by simp_all
qed

lemma short_words: "length xs < 4 \<Longrightarrow> full_words xs = [] \<and> rest_bytes xs = xs"
  by (cases xs rule: le_words.cases) auto

lemma buf32_nth:
  "(\<And>i. i < 4 \<Longrightarrow> buf i = bs ! (k + i)) \<Longrightarrow>
   buf32 buf 0 = le32 (bs ! k) (bs ! (k + 1)) (bs ! (k + 2)) (bs ! (k + 3))"
  by (simp add: buf32_def numeral_2_eq_2 numeral_3_eq_3)

section \<open>Files\<close>

type_synonym kfile = "int \<Rightarrow> nat \<Rightarrow> int \<times> u8 list"

definition file_has :: "kfile \<Rightarrow> u8 list \<Rightarrow> bool" where
  "file_has fp bs \<longleftrightarrow>
     (\<forall>off cnt. fp (int off) cnt = (int (min cnt (length bs - off)), take cnt (drop off bs)))"

definition kernel_read :: "kfile \<Rightarrow> int \<Rightarrow> cbuf \<Rightarrow> nat \<Rightarrow> int \<times> cbuf" where
  "kernel_read fp off buf cnt =
     (let (ret, bytes) = fp off cnt
      in (ret, \<lambda>i. if i < length bytes then bytes ! i else buf i))"

definition file_of :: "u8 list \<Rightarrow> kfile" where
  "file_of bs off cnt =
     (if off < 0 then (- EINVAL, [])
      else (int (min cnt (length bs - nat off)), take cnt (drop (nat off) bs)))"

lemma file_has_file_of: "file_has (file_of bs) bs"
  by (simp add: file_has_def file_of_def)

lemma kernel_read_file:
  "file_has fp bs \<Longrightarrow> kernel_read fp (int off) buf cnt =
     (int (min cnt (length bs - off)),
      \<lambda>i. if i < length (take cnt (drop off bs)) then take cnt (drop off bs) ! i else buf i)"
  by (simp only: kernel_read_def file_has_def prod.case Let_def)

section \<open>The bytes that do not fill a word\<close>

definition write_rest :: "('h, 'z) bus_scheme \<Rightarrow> u64 \<Rightarrow> int \<Rightarrow> cbuf \<Rightarrow> 'h world \<Rightarrow> 'h world option" where
  "write_rest b base ret buf w =
     (if ret = 3 then Some (writel b (buf32 buf 0 AND 0x00ffffff) base w)
      else if ret = 2 then Some (writel b (buf32 buf 0 AND 0x0000ffff) base w)
      else if ret = 1 then Some (writel b (buf32 buf 0 AND 0x000000ff) base w)
      else if ret = 0 then Some w
      else None)"

text \<open>Writing words to the data register one after the other.\<close>

definition push_words :: "('h, 'z) bus_scheme \<Rightarrow> u64 \<Rightarrow> u32 list \<Rightarrow> 'h world \<Rightarrow> 'h world" where
  "push_words b base ws w = fold (\<lambda>v. writel b v base) ws w"

lemma push_words_simps [simp]:
  "push_words b base [] w = w"
  "push_words b base (v # vs) w = push_words b base vs (writel b v base w)"
  "push_words b base (us @ vs) w = push_words b base vs (push_words b base us w)"
  by (simp_all add: push_words_def)

lemma trace_push_words [trace_simps]:
  "trace (push_words b base ws w) = trace w @ map (Write base) ws"
  by (induction ws arbitrary: w) (auto simp: trace_writel)

lemma write_rest_le_words:
  assumes "length xs < 4" and "\<And>i. i < length xs \<Longrightarrow> buf i = xs ! i"
  shows "write_rest b base (int (length xs)) buf w = Some (push_words b base (le_words xs) w)"
  using assms
  by (cases xs rule: le_words.cases)
    (force simp: write_rest_def buf32_def le32_mask less_Suc_eq)+

section \<open>The check of an image before it is written\<close>

text \<open>
  All the drivers start with the same reads. The core must not be busy with another image; when it
  has a POF ID register (a version number says so) the image must be long enough to hold an ID,
  and the ID must match unless the core's is zero. The result is the last value read, or \<open>None\<close>
  for an image that is refused.
\<close>

inductive image_check :: "u64 \<Rightarrow> cbuf \<Rightarrow> nat \<Rightarrow> u32 option \<Rightarrow> io_event list \<Rightarrow> bool"
  for base :: u64 and buf :: cbuf and count :: nat where
  started: "v AND ALT_PR_CSR_PR_START \<noteq> 0 \<Longrightarrow>
     image_check base buf count None [Read (base + ALT_PR_CSR_OFST) v]"
| no_id: "v AND ALT_PR_CSR_PR_START = 0 \<Longrightarrow> x \<noteq> ALT_PR_VER_POF_ID \<Longrightarrow>
     image_check base buf count (Some x)
       [Read (base + ALT_PR_CSR_OFST) v, Read (base + ALT_PR_VER_OFST) x]"
| short: "v AND ALT_PR_CSR_PR_START = 0 \<Longrightarrow> count < ALT_PR_RBF_ID_OFST \<Longrightarrow>
     image_check base buf count None
       [Read (base + ALT_PR_CSR_OFST) v, Read (base + ALT_PR_VER_OFST) ALT_PR_VER_POF_ID]"
| mismatch: "v AND ALT_PR_CSR_PR_START = 0 \<Longrightarrow> ALT_PR_RBF_ID_OFST \<le> count \<Longrightarrow>
     p \<noteq> 0 \<Longrightarrow> p \<noteq> buf32 buf ALT_PR_RBF_ID_OFST \<Longrightarrow>
     image_check base buf count None
       [Read (base + ALT_PR_CSR_OFST) v, Read (base + ALT_PR_VER_OFST) ALT_PR_VER_POF_ID,
        Read (base + ALT_PR_POF_ID_OFST) p]"
| match: "v AND ALT_PR_CSR_PR_START = 0 \<Longrightarrow> ALT_PR_RBF_ID_OFST \<le> count \<Longrightarrow>
     p = 0 \<or> p = buf32 buf ALT_PR_RBF_ID_OFST \<Longrightarrow>
     image_check base buf count (Some p)
       [Read (base + ALT_PR_CSR_OFST) v, Read (base + ALT_PR_VER_OFST) ALT_PR_VER_POF_ID,
        Read (base + ALT_PR_POF_ID_OFST) p]"

text \<open>The five ways the reads can turn out, for the drivers' proofs.\<close>

lemma image_check_cases:
  fixes v x p :: u32 and count :: nat and buf :: cbuf
  obtains (started) "v AND ALT_PR_CSR_PR_START \<noteq> 0"
    | (no_id) "v AND ALT_PR_CSR_PR_START = 0" "x \<noteq> ALT_PR_VER_POF_ID"
    | (short) "v AND ALT_PR_CSR_PR_START = 0" "x = ALT_PR_VER_POF_ID" "count < ALT_PR_RBF_ID_OFST"
    | (mismatch) "v AND ALT_PR_CSR_PR_START = 0" "x = ALT_PR_VER_POF_ID"
        "ALT_PR_RBF_ID_OFST \<le> count" "p \<noteq> 0" "p \<noteq> buf32 buf ALT_PR_RBF_ID_OFST"
    | (match) "v AND ALT_PR_CSR_PR_START = 0" "x = ALT_PR_VER_POF_ID"
        "ALT_PR_RBF_ID_OFST \<le> count" "p = 0 \<or> p = buf32 buf ALT_PR_RBF_ID_OFST"
  by force

lemma image_check_no_writes: "image_check base buf count x t \<Longrightarrow> writes_of t = []"
  by (induction rule: image_check.induct) auto

section \<open>Waiting for the end of a reconfiguration\<close>

text \<open>
  The outcome of a wait that may look at the status register at most \<open>n\<close> times: success or an
  error is what the last look showed and no earlier one did; a timeout used all \<open>n\<close> looks and
  none of them showed an end. \<open>quiet\<close> events are delays.
\<close>

definition poll_end :: "(u32 \<Rightarrow> fpga_pr_ip_states) \<Rightarrow> u32 \<Rightarrow> bool" where
  "poll_end st v \<longleftrightarrow> st v = FPGA_PR_IP_STATE_WRITE_ERR \<or> st v = FPGA_PR_IP_STATE_OPERATING"

definition quiet :: "io_event list \<Rightarrow> bool" where
  "quiet t \<longleftrightarrow> writes_of t = [] \<and> reads_of t = []"

definition poll_result :: "(u32 \<Rightarrow> fpga_pr_ip_states) \<Rightarrow> u32 \<Rightarrow> int" where
  "poll_result st v = (if st v = FPGA_PR_IP_STATE_OPERATING then 0 else - EIO)"

definition poll_outcome ::
  "(u32 \<Rightarrow> fpga_pr_ip_states) \<Rightarrow> u64 \<Rightarrow> nat \<Rightarrow> int \<Rightarrow> io_event list \<Rightarrow> bool" where
  "poll_outcome st a n r t \<longleftrightarrow> writes_of t = [] \<and>
     ((\<exists>vs. r = - ETIMEDOUT \<and> reads_of t = map (Pair a) vs \<and> length vs = n \<and>
         (\<forall>v \<in> set vs. \<not> poll_end st v)) \<or>
      (\<exists>t' vs v. t = t' @ [Read a v] \<and> reads_of t' = map (Pair a) vs \<and> length vs < n \<and>
         (\<forall>u \<in> set vs. \<not> poll_end st u) \<and> poll_end st v \<and> r = poll_result st v))"

lemma quiet_simps [simp]: "quiet []" "quiet (Wait n # t) \<longleftrightarrow> quiet t" "\<not> quiet (Read a v # t)"
  by (simp_all add: quiet_def)

lemma poll_outcome_timeout: "poll_outcome st a 0 (- ETIMEDOUT) []"
  by (simp add: poll_outcome_def)

lemma poll_outcome_end:
  "quiet p \<Longrightarrow> poll_end st v \<Longrightarrow> poll_outcome st a (Suc n) (poll_result st v) (p @ [Read a v])"
  by (auto simp: poll_outcome_def quiet_def)

lemma poll_outcome_later:
  assumes "quiet p" "quiet q" "\<not> poll_end st v" and t: "poll_outcome st a n r t"
  shows "poll_outcome st a (Suc n) r (p @ Read a v # q @ t)"
proof -
  have w: "writes_of (p @ Read a v # q @ t) = []" using assms by (simp add: poll_outcome_def quiet_def)
  from t consider
    (timeout) vs where "r = - ETIMEDOUT" "reads_of t = map (Pair a) vs" "length vs = n"
      "\<forall>v \<in> set vs. \<not> poll_end st v"
  | (ended) t' vs x where "t = t' @ [Read a x]" "reads_of t' = map (Pair a) vs" "length vs < n"
      "\<forall>u \<in> set vs. \<not> poll_end st u" "poll_end st x" "r = poll_result st x"
    unfolding poll_outcome_def by blast
  then show ?thesis
  proof cases
    case timeout
    then show ?thesis using assms(1-3) w unfolding poll_outcome_def quiet_def
      by (intro conjI disjI1 exI [of _ "v # vs"]) simp_all
  next
    case ended
    then show ?thesis using assms(1-3) w unfolding poll_outcome_def quiet_def
      by (intro conjI disjI2 exI [of _ "p @ Read a v # q @ t'"] exI [of _ "v # vs"] exI [of _ x]) simp_all
  qed
qed

section \<open>The interface the configuration loader links against\<close>

text \<open>
  The module is linked with one of the two cores (\<open>DEVICE\<close> in the Makefile): the three operations
  are the entries of a record. The contract names the words a world has received in the data
  register (\<open>data\<close>) and the worlds in which the core has reported success last (\<open>operating\<close>).
\<close>

record 'w pr_ip_ops =
  ip_write_init :: "fpga_pcie_priv \<Rightarrow> cbuf \<Rightarrow> nat \<Rightarrow> 'w \<Rightarrow> (int \<times> 'w) option"
  ip_write :: "fpga_pcie_priv \<Rightarrow> kfile \<Rightarrow> 'w \<Rightarrow> (int \<times> 'w) option"
  ip_write_complete :: "fpga_pcie_priv \<Rightarrow> int \<Rightarrow> 'w \<Rightarrow> (int \<times> 'w) option"

definition data_words :: "fpga_pcie_priv \<Rightarrow> 'h world \<Rightarrow> u32 list" where
  "data_words priv w = writes_to (reg_base priv) (trace w)"

definition last_csr :: "(u32 \<Rightarrow> bool) \<Rightarrow> fpga_pcie_priv \<Rightarrow> 'h world \<Rightarrow> bool" where
  "last_csr P priv w \<longleftrightarrow>
     (\<exists>t v. trace w = t @ [Read (reg_base priv + ALT_PR_CSR_OFST) v] \<and> P v)"

lemma csr_ne_data [simp]: "ALT_PR_CSR_OFST \<noteq> 0"
  by (simp add: ALT_PR_CSR_OFST_def)

locale pr_ip_core =
  fixes ops :: "'w pr_ip_ops"
    and data :: "fpga_pcie_priv \<Rightarrow> 'w \<Rightarrow> u32 list"
    and operating :: "fpga_pcie_priv \<Rightarrow> 'w \<Rightarrow> bool"
  assumes data_state: "data (priv\<lparr>config_state := st\<rparr>) = data priv"
    and operating_state: "operating (priv\<lparr>config_state := st\<rparr>) = operating priv"
    and init_law: "\<exists>r w'. ip_write_init ops priv buf n w = Some (r, w') \<and> r \<le> 0 \<and>
      data priv w' = data priv w"
    and write_law: "file_has fp bs \<Longrightarrow> 4 \<le> length bs \<Longrightarrow> length bs < 2 ^ 31 \<Longrightarrow>
      \<exists>r w' ws. ip_write ops priv fp w = Some (r, w') \<and> r \<le> 0 \<and>
        data priv w' = data priv w @ ws \<and> prefix ws (le_words bs) \<and> (r = 0 \<longrightarrow> ws = le_words bs)"
    and complete_law: "\<exists>r w'. ip_write_complete ops priv tmo w = Some (r, w') \<and> r \<le> 0 \<and>
      data priv w' = data priv w \<and> (r = 0 \<longrightarrow> operating priv w')"

lemma data_words_state [simp]: "data_words (priv\<lparr>config_state := st\<rparr>) = data_words priv"
  by (simp add: data_words_def fun_eq_iff)

lemma last_csr_state [simp]: "last_csr P (priv\<lparr>config_state := st\<rparr>) = last_csr P priv"
  by (simp add: last_csr_def fun_eq_iff)

lemma poll_outcome_operating:
  assumes "poll_outcome st (reg_base priv + ALT_PR_CSR_OFST) n r t" and "trace w' = trace w @ t"
  shows "r \<le> 0" and "data_words priv w' = data_words priv w"
    and "r = 0 \<Longrightarrow> last_csr (\<lambda>v. st v = FPGA_PR_IP_STATE_OPERATING) priv w'"
  using assms
  by (auto simp: poll_outcome_def poll_result_def data_words_def writes_to_def last_csr_def EIO_def
      ETIMEDOUT_def split: if_splits)

section \<open>The protocol of a load\<close>

text \<open>
  What a core's driver does on the bus in each of the three steps, as relations between the result of
  the step and its accesses: \<open>starts buf n r t\<close> for the check and the start of an image, of which the
  first \<open>n\<close> bytes are in \<open>buf\<close>, \<open>pushes bs r t\<close> for the transfer of the image \<open>bs\<close>, and
  \<open>ends n r t\<close> for the wait for completion, in which the status is read at most \<open>n\<close> times. The values
  that were read are in the accesses, so the relations say when a step may fail: they hold of a result
  other than 0 only for the reads that call for it.
\<close>

record core_protocol =
  starts :: "cbuf \<Rightarrow> nat \<Rightarrow> int \<Rightarrow> io_event list \<Rightarrow> bool"
  pushes :: "u8 list \<Rightarrow> int \<Rightarrow> io_event list \<Rightarrow> bool"
  ends :: "nat \<Rightarrow> int \<Rightarrow> io_event list \<Rightarrow> bool"

lemma image_check_cong:
  "buf32 buf ALT_PR_RBF_ID_OFST = buf32 buf' ALT_PR_RBF_ID_OFST \<Longrightarrow>
   image_check base buf n x t \<longleftrightarrow> image_check base buf' n x t"
  by (simp add: image_check.simps)

lemma buf32_id_cong: "(\<And>i. i < 1024 \<Longrightarrow> buf i = buf' i) \<Longrightarrow>
   buf32 buf ALT_PR_RBF_ID_OFST = buf32 buf' ALT_PR_RBF_ID_OFST"
  by (simp add: buf32_def ALT_PR_RBF_ID_OFST_def)

text \<open>The last step of a transfer is one look at the status.\<close>

definition push_result :: "(u32 \<Rightarrow> fpga_pr_ip_states) \<Rightarrow> u32 \<Rightarrow> int" where
  "push_result st v = (if st v = FPGA_PR_IP_STATE_WRITE_ERR then - EIO else 0)"

text \<open>A core whose driver follows a protocol, which depends on the address of its registers.\<close>

locale protocol_core = pr_ip_core ops data_words operating
  for ops :: "'h world pr_ip_ops" and operating :: "fpga_pcie_priv \<Rightarrow> 'h world \<Rightarrow> bool" +
  fixes protocol :: "u64 \<Rightarrow> core_protocol"
  assumes starts_cong: "(\<And>i. i < 1024 \<Longrightarrow> buf i = buf' i) \<Longrightarrow>
      starts (protocol base) buf n r t \<Longrightarrow> starts (protocol base) buf' n r t"
    and init_follows: "\<exists>r t w'. ip_write_init ops priv buf n w = Some (r, w') \<and> trace w' = trace w @ t \<and>
      starts (protocol (reg_base priv)) buf n r t"
    and write_follows: "file_has fp bs \<Longrightarrow> 4 \<le> length bs \<Longrightarrow> length bs < 2 ^ 31 \<Longrightarrow>
      \<exists>r t w'. ip_write ops priv fp w = Some (r, w') \<and> trace w' = trace w @ t \<and>
        pushes (protocol (reg_base priv)) bs r t"
    and complete_follows: "\<exists>r t w'. ip_write_complete ops priv tmo w = Some (r, w') \<and>
      trace w' = trace w @ t \<and> ends (protocol (reg_base priv)) (nat (tmo mod 2 ^ 32)) r t"

end
