(* ===== verification/Pr_Ip_A10.thy ===== *)
theory Pr_Ip_A10
  imports Pr_Ip_Core
begin

text \<open>
  The Arria 10 driver of the partial reconfiguration IP core, \<open>altera-pr-ip-core-a10.c\<close>: the state
  the core reports, the check before an image is written, the loop that pushes the image of a file
  into the data register, and the wait for completion.
\<close>

section \<open>Status register\<close>

definition A10_STATUS_MSK :: u32 where [const_defs]: "A10_STATUS_MSK = push_bit 2 7"
definition A10_STATUS_NRESET :: u32 where [const_defs]: "A10_STATUS_NRESET = push_bit 2 0"
definition A10_STATUS_PR_ERR :: u32 where [const_defs]: "A10_STATUS_PR_ERR = push_bit 2 1"
definition A10_STATUS_CRC_ERR :: u32 where [const_defs]: "A10_STATUS_CRC_ERR = push_bit 2 2"
definition A10_STATUS_BAD_BITS :: u32 where [const_defs]: "A10_STATUS_BAD_BITS = push_bit 2 3"
definition A10_STATUS_PR_IN_PROG :: u32 where [const_defs]: "A10_STATUS_PR_IN_PROG = push_bit 2 4"
definition A10_STATUS_PR_SUCCESS :: u32 where [const_defs]: "A10_STATUS_PR_SUCCESS = push_bit 2 5"

definition csr_state_a10 :: "u32 \<Rightarrow> fpga_pr_ip_states" where
  "csr_state_a10 csr =
     (let val = csr AND A10_STATUS_MSK
      in if val = A10_STATUS_NRESET then FPGA_PR_IP_STATE_RESET
         else if val = A10_STATUS_PR_ERR then FPGA_PR_IP_STATE_WRITE_ERR
         else if val = A10_STATUS_CRC_ERR then FPGA_PR_IP_STATE_WRITE_ERR
         else if val = A10_STATUS_BAD_BITS then FPGA_PR_IP_STATE_WRITE_ERR
         else if val = A10_STATUS_PR_IN_PROG then FPGA_PR_IP_STATE_WRITE
         else if val = A10_STATUS_PR_SUCCESS then FPGA_PR_IP_STATE_OPERATING
         else FPGA_PR_IP_STATE_UNKNOWN)"

definition alt_pr_ip_fpga_state_a10 ::
  "('h, 'z) bus_scheme \<Rightarrow> fpga_pcie_priv \<Rightarrow> 'h world \<Rightarrow> fpga_pr_ip_states \<times> 'h world" where
  "alt_pr_ip_fpga_state_a10 b priv w =
     (let (val, w) = readl b (reg_base priv + ALT_PR_CSR_OFST) w in (csr_state_a10 val, w))"

section \<open>Operations\<close>

definition alt_pr_ip_write_init_a10 ::
  "('h, 'z) bus_scheme \<Rightarrow> fpga_pcie_priv \<Rightarrow> cbuf \<Rightarrow> nat \<Rightarrow> 'h world \<Rightarrow> int \<times> 'h world" where
  "alt_pr_ip_write_init_a10 b priv buf count w =
     (let (val, w) = readl b (reg_base priv + ALT_PR_CSR_OFST) w
      in if val AND ALT_PR_CSR_PR_START \<noteq> 0 then (- EINVAL, w)
         else let (val, w) = readl b (reg_base priv + ALT_PR_VER_OFST) w
              in if val = ALT_PR_VER_POF_ID
                 then if count < ALT_PR_RBF_ID_OFST then (- EINVAL, w)
                      else let prbf = buf32 buf ALT_PR_RBF_ID_OFST;
                               (val, w) = readl b (reg_base priv + ALT_PR_POF_ID_OFST) w
                           in if val \<noteq> 0 \<and> val \<noteq> prbf then (- EINVAL, w)
                              else (0, writel b (val OR ALT_PR_CSR_PR_START)
                                         (reg_base priv + ALT_PR_CSR_OFST) w)
                 else (0, writel b (val OR ALT_PR_CSR_PR_START) (reg_base priv + ALT_PR_CSR_OFST) w))"

text \<open>
  One round of the copy loop. \<open>offset\<close> is a C \<open>int\<close>, a 32 bit word read as a signed number;
  \<open>buf\<close> keeps the bytes of the last round where a read returns fewer than four.
\<close>

definition write_round_a10 ::
  "('h, 'z) bus_scheme \<Rightarrow> fpga_pcie_priv \<Rightarrow> kfile \<Rightarrow> u32 \<times> int \<times> cbuf \<times> 'h world \<Rightarrow>
   u32 \<times> int \<times> cbuf \<times> 'h world" where
  "write_round_a10 b priv fp =
     (\<lambda>(offset, ret, buf, w).
        let offset = offset + word_of_int ret;
            w = writel b (buf32 buf 0) (reg_base priv) w;
            (ret, buf) = kernel_read fp (sint offset) buf 4
        in (offset, ret, buf, w))"

definition alt_pr_ip_fpga_write_a10 ::
  "('h, 'z) bus_scheme \<Rightarrow> fpga_pcie_priv \<Rightarrow> cbuf \<Rightarrow> kfile \<Rightarrow> 'h world \<Rightarrow> (int \<times> 'h world) option" where
  "alt_pr_ip_fpga_write_a10 b priv buf0 fp w =
     (let offset = 0; (ret, buf) = kernel_read fp (sint (offset :: u32)) buf0 4
      in do {
           (_, ret, buf, w) \<leftarrow>
             do_while (write_round_a10 b priv fp) (\<lambda>(_, ret, _, _). ret \<ge> 4) (offset, ret, buf, w);
           case write_rest b (reg_base priv) ret buf w of
             None \<Rightarrow> Some (- EFAULT, w)
           | Some w \<Rightarrow>
               let (st, w) = alt_pr_ip_fpga_state_a10 b priv w
               in if st = FPGA_PR_IP_STATE_WRITE_ERR then Some (- EIO, w) else Some (0, w)
         })"

text \<open>The loop counter is unsigned and the timeout signed: the bound is the timeout modulo \<open>2 ^ 32\<close>.\<close>

fun write_complete_loop_a10 ::
  "('h, 'z) bus_scheme \<Rightarrow> fpga_pcie_priv \<Rightarrow> nat \<Rightarrow> 'h world \<Rightarrow> int \<times> 'h world" where
  "write_complete_loop_a10 b priv 0 w = (- ETIMEDOUT, w)"
| "write_complete_loop_a10 b priv (Suc n) w =
     (let (st, w) = alt_pr_ip_fpga_state_a10 b priv w
      in if st = FPGA_PR_IP_STATE_WRITE_ERR then (- EIO, w)
         else if st = FPGA_PR_IP_STATE_OPERATING then (0, w)
         else write_complete_loop_a10 b priv n (udelay b 1 w))"

definition alt_pr_ip_fpga_write_complete_a10 ::
  "('h, 'z) bus_scheme \<Rightarrow> fpga_pcie_priv \<Rightarrow> int \<Rightarrow> 'h world \<Rightarrow> int \<times> 'h world" where
  "alt_pr_ip_fpga_write_complete_a10 b priv config_timeout_us w =
     write_complete_loop_a10 b priv (unat (word_of_int config_timeout_us :: u32)) w"

section \<open>The copy loop delivers the image\<close>

lemma write_round_a10_file:
  assumes "file_has fp bs" and "length bs < 2 ^ 31" and "k + 4 \<le> length bs"
  shows "write_round_a10 b priv fp (of_nat k, 4, buf, w) =
    (of_nat (k + 4), int (min 4 (length bs - (k + 4))),
     \<lambda>i. if i < length (take 4 (drop (k + 4) bs)) then take 4 (drop (k + 4) bs) ! i else buf i,
     writel b (buf32 buf 0) (reg_base priv) w)"
proof -
  have o: "(of_nat k + 4 :: u32) = of_nat (k + 4)" by simp
  have "sint (of_nat (k + 4) :: u32) = int (k + 4)"
    using assms(2,3) by (intro sint_of_nat_small) simp
  then show ?thesis
    using assms(1) unfolding write_round_a10_def file_has_def kernel_read_def Let_def
    by (simp only: o prod.case of_int_numeral)
qed

lemma write_loop_a10:
  assumes fp: "file_has fp bs" and small: "length bs < 2 ^ 31"
  shows "k + 4 \<le> length bs \<Longrightarrow> (\<And>i. i < 4 \<Longrightarrow> buf i = bs ! (k + i)) \<Longrightarrow>
    \<exists>off ret buf' w1.
      do_while (write_round_a10 b priv fp) (\<lambda>(_, ret, _, _). ret \<ge> 4) (of_nat k, 4, buf, w) =
        Some (off, ret, buf', w1) \<and>
      write_rest b (reg_base priv) ret buf' w1 =
        Some (push_words b (reg_base priv) (le_words (drop k bs)) w)"
proof (induction "length bs - k" arbitrary: k buf w rule: less_induct)
  case less
  let ?xs = "drop (k + 4) bs"
  let ?buf = "\<lambda>i. if i < length (take 4 ?xs) then take 4 ?xs ! i else buf i"
  let ?w = "writel b (buf32 buf 0) (reg_base priv) w"
  have round: "write_round_a10 b priv fp (of_nat k, 4, buf, w) =
      (of_nat (k + 4), int (min 4 (length bs - (k + 4))), ?buf, ?w)"
    by (rule write_round_a10_file [OF fp small less.prems(1)])
  have push: "push_words b (reg_base priv) (le_words (drop k bs)) w =
      push_words b (reg_base priv) (le_words ?xs) ?w"
    using buf32_nth [OF less.prems(2)] by (simp add: le_words_drop [OF less.prems(1)])
  show ?case
  proof (cases "k + 8 \<le> length bs")
    case True
    have bufs: "?buf i = bs ! (k + 4 + i)" if "i < 4" for i
      using True that by (simp add: add.commute)
    have dec: "length bs - (k + 4) < length bs - k" and le: "k + 4 + 4 \<le> length bs" using True by auto
    have "int (min 4 (length bs - (k + 4))) = 4" using True by simp
    then show ?thesis using less.hyps [OF dec le bufs, of ?w]
      by (subst do_while_unfold, simp only: round prod.case push) simp
  next
    case False
    then have len: "length ?xs < 4" "int (min 4 (length bs - (k + 4))) = int (length ?xs)"
      using less.prems(1) by auto
    have "write_rest b (reg_base priv) (int (length ?xs)) ?buf ?w =
        Some (push_words b (reg_base priv) (le_words ?xs) ?w)"
      using len(1) by (intro write_rest_le_words) simp_all
    then show ?thesis using len
      by (subst do_while_unfold, simp only: round prod.case push) auto
  qed
qed

lemma write_a10_file:
  assumes fp: "file_has fp bs" and len: "4 \<le> length bs" "length bs < 2 ^ 31"
  shows "alt_pr_ip_fpga_write_a10 b priv buf0 fp w =
    (let (st, w') = alt_pr_ip_fpga_state_a10 b priv (push_words b (reg_base priv) (le_words bs) w)
     in Some (if st = FPGA_PR_IP_STATE_WRITE_ERR then - EIO else 0, w'))"
proof -
  let ?buf = "\<lambda>i. if i < length (take 4 bs) then take 4 bs ! i else buf0 i"
  have first: "kernel_read fp (sint (0 :: u32)) buf0 4 = (4, ?buf)"
    using fp [unfolded file_has_def, rule_format, of 0 4] len by (simp add: kernel_read_def)
  have bufs: "?buf i = bs ! (0 + i)" if "i < 4" for i using len that by simp
  have "0 + 4 \<le> length bs" using len by simp
  from write_loop_a10 [OF fp len(2) this bufs, of b priv w, unfolded drop_0 semiring_1_class.of_nat_0]
  obtain off ret buf' w1 where
    loop: "do_while (write_round_a10 b priv fp) (\<lambda>(_, ret, _, _). ret \<ge> 4) (0, 4, ?buf, w) =
        Some (off, ret, buf', w1)"
    and rest: "write_rest b (reg_base priv) ret buf' w1 =
        Some (push_words b (reg_base priv) (le_words bs) w)"
    by blast
  show ?thesis
    unfolding alt_pr_ip_fpga_write_a10_def Let_def first prod.case loop bind.simps rest option.case
    by (simp split: prod.split)
qed

lemma write_a10_trace:
  assumes "file_has fp bs" "4 \<le> length bs" "length bs < 2 ^ 31"
  shows "\<exists>v w'. alt_pr_ip_fpga_write_a10 b priv buf0 fp w =
      Some (if csr_state_a10 v = FPGA_PR_IP_STATE_WRITE_ERR then - EIO else 0, w') \<and>
    trace w' = trace w @ map (Write (reg_base priv)) (le_words bs) @
      [Read (reg_base priv + ALT_PR_CSR_OFST) v]"
proof -
  obtain v w' where v: "readl b (reg_base priv + ALT_PR_CSR_OFST)
      (push_words b (reg_base priv) (le_words bs) w) = (v, w')" by fastforce
  show ?thesis using trace_readlD [OF v]
    by (simp add: write_a10_file [OF assms] alt_pr_ip_fpga_state_a10_def v trace_push_words)
qed

section \<open>The wait for completion is bounded\<close>

lemma write_complete_loop_a10_outcome:
  "\<exists>r t w'. write_complete_loop_a10 b priv n w = (r, w') \<and> trace w' = trace w @ t \<and>
     poll_outcome csr_state_a10 (reg_base priv + ALT_PR_CSR_OFST) n r t"
proof (induction n arbitrary: w)
  case 0
  show ?case using poll_outcome_timeout by force
next
  case (Suc n)
  let ?a = "reg_base priv + ALT_PR_CSR_OFST"
  obtain v w1 where v: "readl b ?a w = (v, w1)" by fastforce
  note tr = trace_readlD [OF v]
  show ?case
  proof (cases "poll_end csr_state_a10 v")
    case True
    then show ?thesis
      using tr poll_outcome_end [of "[]", OF _ True, of ?a n]
      by (auto simp: alt_pr_ip_fpga_state_a10_def v poll_end_def poll_result_def)
  next
    case False
    obtain r t w' where "write_complete_loop_a10 b priv n (udelay b 1 w1) = (r, w')"
      "trace w' = trace (udelay b 1 w1) @ t" "poll_outcome csr_state_a10 ?a n r t"
      using Suc.IH by blast
    then show ?thesis
      using tr False poll_outcome_later [of "[]" "[Wait 1]", OF _ _ False]
      by (intro exI [of _ r] exI [of _ "[] @ Read ?a v # [Wait 1] @ t"] exI [of _ w'])
        (simp add: alt_pr_ip_fpga_state_a10_def v poll_end_def trace_udelay)
  qed
qed

section \<open>The Arria 10 core keeps the contract of the loader\<close>

lemma write_init_a10_spec:
  "\<exists>x t w'. image_check (reg_base priv) buf count x t \<and>
     alt_pr_ip_write_init_a10 b priv buf count w = (if x = None then - EINVAL else 0, w') \<and>
     trace w' = trace w @ t @
       (case x of None \<Rightarrow> []
        | Some v \<Rightarrow> [Write (reg_base priv + ALT_PR_CSR_OFST) (v OR ALT_PR_CSR_PR_START)])"
proof -
  let ?a = "reg_base priv"
  obtain v w1 where v: "readl b (?a + ALT_PR_CSR_OFST) w = (v, w1)" by fastforce
  obtain x w2 where x: "readl b (?a + ALT_PR_VER_OFST) w1 = (x, w2)" by fastforce
  obtain p w3 where p: "readl b (?a + ALT_PR_POF_ID_OFST) w2 = (p, w3)" by fastforce
  note tr = trace_readlD [OF v] trace_readlD [OF x] trace_readlD [OF p]
  note def = alt_pr_ip_write_init_a10_def v x p tr trace_writel
  show ?thesis
  proof (cases rule: image_check_cases [where v = v and x = x and count = count and p = p and buf = buf])
    case started
    then show ?thesis using image_check.started [OF started] by (force simp: def)
  next
    case no_id
    then show ?thesis using image_check.no_id [OF no_id] by (force simp: def)
  next
    case short
    then show ?thesis using image_check.short [OF short(1,3)] by (force simp: def)
  next
    case mismatch
    then show ?thesis using image_check.mismatch [OF mismatch(1,3,4,5)] by (force simp: def)
  next
    case match
    then show ?thesis using image_check.match [OF match(1,3,4)] by (force simp: def)
  qed
qed

definition a10_ops :: "('h, 'z) bus_scheme \<Rightarrow> cbuf \<Rightarrow> 'h world pr_ip_ops" where
  "a10_ops b buf0 =
     \<lparr>ip_write_init = (\<lambda>priv buf n w. Some (alt_pr_ip_write_init_a10 b priv buf n w)),
      ip_write = (\<lambda>priv fp w. alt_pr_ip_fpga_write_a10 b priv buf0 fp w),
      ip_write_complete = (\<lambda>priv tmo w. Some (alt_pr_ip_fpga_write_complete_a10 b priv tmo w))\<rparr>"

definition operating_a10 :: "fpga_pcie_priv \<Rightarrow> 'h world \<Rightarrow> bool" where
  "operating_a10 = last_csr (\<lambda>v. csr_state_a10 v = FPGA_PR_IP_STATE_OPERATING)"

lemma a10_init_law:
  "\<exists>r w'. ip_write_init (a10_ops b buf0) priv buf n w = Some (r, w') \<and> r \<le> 0 \<and>
     data_words priv w' = data_words priv w"
proof -
  obtain x t w' where "image_check (reg_base priv) buf n x t"
    "alt_pr_ip_write_init_a10 b priv buf n w = (if x = None then - EINVAL else 0, w')"
    "trace w' = trace w @ t @ (case x of None \<Rightarrow> []
        | Some v \<Rightarrow> [Write (reg_base priv + ALT_PR_CSR_OFST) (v OR ALT_PR_CSR_PR_START)])"
    using write_init_a10_spec [of priv buf n b w] by blast
  then show ?thesis
    by (auto simp: a10_ops_def data_words_def EINVAL_def writes_to_def
        dest: image_check_no_writes split: option.split)
qed

lemma a10_write_law:
  assumes "file_has fp bs" "4 \<le> length bs" "length bs < 2 ^ 31"
  shows "\<exists>r w' ws. ip_write (a10_ops b buf0) priv fp w = Some (r, w') \<and> r \<le> 0 \<and>
     data_words priv w' = data_words priv w @ ws \<and> prefix ws (le_words bs) \<and>
     (r = 0 \<longrightarrow> ws = le_words bs)"
proof -
  obtain v w' where
    "alt_pr_ip_fpga_write_a10 b priv buf0 fp w =
      Some (if csr_state_a10 v = FPGA_PR_IP_STATE_WRITE_ERR then - EIO else 0, w')"
    "trace w' = trace w @ map (Write (reg_base priv)) (le_words bs) @
      [Read (reg_base priv + ALT_PR_CSR_OFST) v]"
    using write_a10_trace [OF assms, of b priv buf0 w] by blast
  then show ?thesis
    by (intro exI [of _ "if csr_state_a10 v = FPGA_PR_IP_STATE_WRITE_ERR then - EIO else 0"]
        exI [of _ w'] exI [of _ "le_words bs"]) (simp add: a10_ops_def data_words_def EIO_def)
qed

lemma a10_complete_law:
  "\<exists>r w'. ip_write_complete (a10_ops b buf0) priv tmo w = Some (r, w') \<and> r \<le> 0 \<and>
     data_words priv w' = data_words priv w \<and> (r = 0 \<longrightarrow> operating_a10 priv w')"
  using write_complete_loop_a10_outcome [of b priv "unat (word_of_int tmo :: u32)" w]
  by (auto simp: a10_ops_def alt_pr_ip_fpga_write_complete_a10_def operating_a10_def
      intro: poll_outcome_operating)

interpretation a10: pr_ip_core "a10_ops b buf0" data_words operating_a10 for b buf0
  by unfold_locales (simp, simp add: operating_a10_def, rule a10_init_law, rule a10_write_law, assumption+, rule a10_complete_law)

section \<open>The protocol of the Arria 10 core\<close>

text \<open>
  An image is started after the check and with one write. All its words go to the data register, and the
  one look at the status that follows decides. The end is awaited with at most \<open>n\<close> looks.
\<close>

definition a10_starts :: "u64 \<Rightarrow> cbuf \<Rightarrow> nat \<Rightarrow> int \<Rightarrow> io_event list \<Rightarrow> bool" where
  "a10_starts base buf n r t \<longleftrightarrow> (\<exists>x t0. image_check base buf n x t0 \<and>
     (case x of
        None \<Rightarrow> r = - EINVAL \<and> t = t0
      | Some v \<Rightarrow> r = 0 \<and> t = t0 @ [Write (base + ALT_PR_CSR_OFST) (v OR ALT_PR_CSR_PR_START)]))"

definition a10_pushes :: "u64 \<Rightarrow> u8 list \<Rightarrow> int \<Rightarrow> io_event list \<Rightarrow> bool" where
  "a10_pushes base bs r t \<longleftrightarrow> (\<exists>v. r = push_result csr_state_a10 v \<and>
     t = map (Write base) (le_words bs) @ [Read (base + ALT_PR_CSR_OFST) v])"

definition a10_protocol :: "u64 \<Rightarrow> core_protocol" where
  "a10_protocol base = \<lparr>starts = a10_starts base, pushes = a10_pushes base,
     ends = poll_outcome csr_state_a10 (base + ALT_PR_CSR_OFST)\<rparr>"

lemma a10_starts_cong:
  "(\<And>i. i < 1024 \<Longrightarrow> buf i = buf' i) \<Longrightarrow> a10_starts base buf n r t \<Longrightarrow> a10_starts base buf' n r t"
  by (simp only: a10_starts_def image_check_cong [OF buf32_id_cong, of buf buf'])

lemma a10_init_follows:
  "\<exists>r t w'. alt_pr_ip_write_init_a10 b priv buf n w = (r, w') \<and> trace w' = trace w @ t \<and>
     a10_starts (reg_base priv) buf n r t"
proof -
  obtain x t0 w' where "image_check (reg_base priv) buf n x t0"
    "alt_pr_ip_write_init_a10 b priv buf n w = (if x = None then - EINVAL else 0, w')"
    "trace w' = trace w @ t0 @ (case x of None \<Rightarrow> []
        | Some v \<Rightarrow> [Write (reg_base priv + ALT_PR_CSR_OFST) (v OR ALT_PR_CSR_PR_START)])"
    using write_init_a10_spec [of priv buf n b w] by blast
  then show ?thesis
    by (intro exI conjI) (assumption, assumption, cases x, force simp: a10_starts_def, force simp: a10_starts_def)
qed

lemma a10_write_follows:
  assumes "file_has fp bs" "4 \<le> length bs" "length bs < 2 ^ 31"
  shows "\<exists>r t w'. alt_pr_ip_fpga_write_a10 b priv buf0 fp w = Some (r, w') \<and> trace w' = trace w @ t \<and>
     a10_pushes (reg_base priv) bs r t"
  using write_a10_trace [OF assms, of b priv buf0 w] by (auto simp: a10_pushes_def push_result_def)

lemma a10_complete_follows:
  "\<exists>r t w'. alt_pr_ip_fpga_write_complete_a10 b priv tmo w = (r, w') \<and> trace w' = trace w @ t \<and>
     poll_outcome csr_state_a10 (reg_base priv + ALT_PR_CSR_OFST) (nat (tmo mod 2 ^ 32)) r t"
  using write_complete_loop_a10_outcome [of b priv "unat (word_of_int tmo :: u32)" w]
  by (simp add: alt_pr_ip_fpga_write_complete_a10_def unat_word_of_int_u32)

interpretation a10p: protocol_core "a10_ops b buf0" operating_a10 a10_protocol for b buf0
  by unfold_locales
    (simp only: a10_protocol_def core_protocol.simps, erule a10_starts_cong [rotated], assumption,
     simp_all only: a10_protocol_def core_protocol.simps a10_ops_def pr_ip_ops.simps option.inject
       a10_init_follows a10_write_follows a10_complete_follows)

section \<open>Properties\<close>

text \<open>
  \<open>alt_pr_ip_write_init\<close> makes exactly the reads of the image check, in that order. It returns
  0 and makes one write, the start bit in the control register, when the check passes; otherwise
  it returns \<open>-EINVAL\<close> and writes nothing.
\<close>

theorem write_init_a10_starts_checked_image:
  "\<exists>x t w'. image_check (reg_base priv) buf count x t \<and>
     alt_pr_ip_write_init_a10 b priv buf count w = (if x = None then - EINVAL else 0, w') \<and>
     trace w' = trace w @ t @
       (case x of None \<Rightarrow> []
        | Some v \<Rightarrow> [Write (reg_base priv + ALT_PR_CSR_OFST) (v OR ALT_PR_CSR_PR_START)])"
  by (rule write_init_a10_spec)

text \<open>
  \<open>alt_pr_ip_fpga_write\<close> returns, for every image of at least four bytes and less than 2 GiB. It
  writes the image and nothing else to the data register: its little endian words in order,
  the last one padded with zero bytes. Then it reads the status once, and the result is \<open>-EIO\<close>
  exactly when that read shows an error.
\<close>

theorem write_a10_delivers_image:
  assumes "file_has fp bs" and "4 \<le> length bs" and "length bs < 2 ^ 31"
  shows "\<exists>v w'. alt_pr_ip_fpga_write_a10 b priv buf0 fp w =
      Some (if csr_state_a10 v = FPGA_PR_IP_STATE_WRITE_ERR then - EIO else 0, w') \<and>
    trace w' = trace w @ map (Write (reg_base priv)) (le_words bs) @
      [Read (reg_base priv + ALT_PR_CSR_OFST) v]"
  using assms by (rule write_a10_trace)

definition demo_core :: "nat bus" where
  "demo_core = \<lparr>bus_read = (\<lambda>a n. (if n = 3 then A10_STATUS_PR_SUCCESS else A10_STATUS_PR_IN_PROG, n)),
     bus_write = (\<lambda>a v n. n + 1), bus_wait = (\<lambda>_ n. n)\<rparr>"

definition demo_card :: fpga_pcie_priv where
  "demo_card = \<lparr>bar_addrs = (\<lambda>_. 0xf0000000), debugfs_root = 0, pci_dev = Some 0, pci_upstream_dev = Some 1,
     aer_uerr_mask_reg = 0, drv_st = ST_IDLE, config_state = FPGA_CONFIG_STATE_UNKNOWN,
     reg_base = 0xf0001000\<rparr>"

theorem write_a10_delivers_image_witness:
  "\<exists>v w'. alt_pr_ip_fpga_write_a10 demo_core demo_card (\<lambda>_. 0) (file_of [1, 2, 3, 4, 5, 6, 7, 8, 9])
      \<lparr>dev = 0, trace = []\<rparr> = Some (if csr_state_a10 v = FPGA_PR_IP_STATE_WRITE_ERR then - EIO else 0, w') \<and>
    trace w' = [Write 0xf0001000 0x04030201, Write 0xf0001000 0x08070605, Write 0xf0001000 9,
      Read 0xf0001004 v]"
  using write_a10_delivers_image [OF file_has_file_of, of "[1, 2, 3, 4, 5, 6, 7, 8, 9]" demo_core demo_card
      "\<lambda>_. 0" "\<lparr>dev = 0, trace = []\<rparr>"]
  by (simp add: demo_card_def le32_def ALT_PR_CSR_OFST_def)

text \<open>
  \<open>alt_pr_ip_fpga_write_complete\<close> looks at the status at most as often as the timeout, taken
  modulo \<open>2 ^ 32\<close>, says, and writes nothing. It returns 0 or \<open>-EIO\<close> at the first status that shows
  success or an error, and \<open>-ETIMEDOUT\<close> only when all the looks showed neither.
\<close>

theorem write_complete_a10_bounded:
  "\<exists>r t w'. alt_pr_ip_fpga_write_complete_a10 b priv tmo w = (r, w') \<and> trace w' = trace w @ t \<and>
     poll_outcome csr_state_a10 (reg_base priv + ALT_PR_CSR_OFST) (nat (tmo mod 2 ^ 32)) r t"
  using write_complete_loop_a10_outcome [of b priv "unat (word_of_int tmo :: u32)" w]
  by (simp add: alt_pr_ip_fpga_write_complete_a10_def unat_word_of_int_u32)

end
