(* ===== verification/Pr_Ip_S10.thy ===== *)
theory Pr_Ip_S10
  imports Pr_Ip_Core
begin

text \<open>
  The Stratix 10 driver of the partial reconfiguration IP core, \<open>altera-pr-ip-core-s10.c\<close>. It
  differs from the Arria 10 driver in the status encoding, in a wait for an idle core before the
  image is started, and in a pause after every 4096 bytes of the image. \<open>WAIT_TIME\<close> (the pause in
  milliseconds) and \<open>VERBOSE_TRUE\<close> (check the status before each pause) are compile time settings
  of the Makefile and arguments here.
\<close>

section \<open>Status register\<close>

definition S10_STATUS_MSK :: u32 where [const_defs]: "S10_STATUS_MSK = push_bit 1 7"
definition S10_STATUS_NRESET :: u32 where [const_defs]: "S10_STATUS_NRESET = push_bit 1 0"
definition S10_STATUS_BUSY :: u32 where [const_defs]: "S10_STATUS_BUSY = push_bit 1 1"
definition S10_STATUS_PR_IN_PROG :: u32 where [const_defs]: "S10_STATUS_PR_IN_PROG = push_bit 1 2"
definition S10_STATUS_PR_SUCCESS :: u32 where [const_defs]: "S10_STATUS_PR_SUCCESS = push_bit 1 3"
definition S10_STATUS_PR_ERR :: u32 where [const_defs]: "S10_STATUS_PR_ERR = push_bit 1 4"

definition csr_state_s10 :: "u32 \<Rightarrow> fpga_pr_ip_states" where
  "csr_state_s10 csr =
     (let val = csr AND S10_STATUS_MSK
      in if val = S10_STATUS_NRESET then FPGA_PR_IP_STATE_RESET
         else if val = S10_STATUS_PR_ERR then FPGA_PR_IP_STATE_WRITE_ERR
         else if val = S10_STATUS_PR_IN_PROG then FPGA_PR_IP_STATE_WRITE
         else if val = S10_STATUS_PR_SUCCESS then FPGA_PR_IP_STATE_OPERATING
         else if val = S10_STATUS_BUSY then FPGA_PR_IP_STATE_UNKNOWN
         else FPGA_PR_IP_STATE_UNKNOWN)"

definition alt_pr_ip_fpga_state_s10 ::
  "('h, 'z) bus_scheme \<Rightarrow> fpga_pcie_priv \<Rightarrow> 'h world \<Rightarrow> fpga_pr_ip_states \<times> 'h world" where
  "alt_pr_ip_fpga_state_s10 b priv w =
     (let (val, w) = readl b (reg_base priv + ALT_PR_CSR_OFST) w in (csr_state_s10 val, w))"

section \<open>Operations\<close>

text \<open>
  The loop of the wait for an idle core: \<open>n\<close> rounds are left, and the result is the variable
  \<open>timeout\<close>. The condition of the code is a disjunction.
\<close>

fun wait_initial_loop_s10 ::
  "('h, 'z) bus_scheme \<Rightarrow> fpga_pcie_priv \<Rightarrow> nat \<Rightarrow> u32 \<Rightarrow> 'h world \<Rightarrow> bool \<times> 'h world" where
  "wait_initial_loop_s10 b priv 0 val w = (True, w)"
| "wait_initial_loop_s10 b priv (Suc n) val w =
     (if val \<noteq> S10_STATUS_NRESET \<or> val \<noteq> S10_STATUS_PR_SUCCESS
      then let (val, w) = readl b (reg_base priv + ALT_PR_CSR_OFST) w
           in wait_initial_loop_s10 b priv n (val AND S10_STATUS_MSK) (msleep b 1 w)
      else (False, w))"

definition alt_pr_ip_wait_for_initial_state_s10 ::
  "('h, 'z) bus_scheme \<Rightarrow> fpga_pcie_priv \<Rightarrow> 'h world \<Rightarrow> int \<times> 'h world" where
  "alt_pr_ip_wait_for_initial_state_s10 b priv w =
     (let (val, w) = readl b (reg_base priv + ALT_PR_CSR_OFST) w;
          val = val AND S10_STATUS_MSK
      in if val = S10_STATUS_BUSY
         then let (timeout, w) = wait_initial_loop_s10 b priv 5000 val w
              in if timeout then (- ETIMEDOUT, w) else (0, w)
         else (0, w))"

definition write_init_start_s10 ::
  "('h, 'z) bus_scheme \<Rightarrow> fpga_pcie_priv \<Rightarrow> u32 \<Rightarrow> 'h world \<Rightarrow> int \<times> 'h world" where
  "write_init_start_s10 b priv val w =
     (let (ret, w) = alt_pr_ip_wait_for_initial_state_s10 b priv w
      in if ret \<noteq> 0 then (- ETIMEDOUT, w)
         else let (_, w) = alt_pr_ip_fpga_state_s10 b priv w
              in (0, writel b (val OR ALT_PR_CSR_PR_START) (reg_base priv + ALT_PR_CSR_OFST) w))"

definition alt_pr_ip_write_init_s10 ::
  "('h, 'z) bus_scheme \<Rightarrow> fpga_pcie_priv \<Rightarrow> cbuf \<Rightarrow> nat \<Rightarrow> 'h world \<Rightarrow> int \<times> 'h world" where
  "alt_pr_ip_write_init_s10 b priv buf count w =
     (let (val, w) = readl b (reg_base priv + ALT_PR_CSR_OFST) w
      in if val AND ALT_PR_CSR_PR_START \<noteq> 0 then (- EINVAL, w)
         else let (val, w) = readl b (reg_base priv + ALT_PR_VER_OFST) w
              in if val = ALT_PR_VER_POF_ID
                 then if count < ALT_PR_RBF_ID_OFST then (- EINVAL, w)
                      else let prbf = buf32 buf ALT_PR_RBF_ID_OFST;
                               (val, w) = readl b (reg_base priv + ALT_PR_POF_ID_OFST) w
                           in if val \<noteq> 0 \<and> val \<noteq> prbf then (- EINVAL, w)
                              else write_init_start_s10 b priv val w
                 else write_init_start_s10 b priv val w)"

text \<open>
  One word: it is written, and after 1024 words the status is checked (in the verbose build) and the
  driver sleeps. The first component of the result is the early \<open>return -EIO\<close>, the second the new
  counter \<open>j\<close>.
\<close>

definition put_word_s10 ::
  "bool \<Rightarrow> nat \<Rightarrow> ('h, 'z) bus_scheme \<Rightarrow> fpga_pcie_priv \<Rightarrow> u32 \<Rightarrow> u32 \<Rightarrow> 'h world \<Rightarrow> bool \<times> u32 \<times> 'h world" where
  "put_word_s10 verbose wait_time b priv v j w =
     (let j = j + 1;
          w = writel b v (reg_base priv) w
      in if j \<ge> 1024
         then let (st, w) = (if verbose then alt_pr_ip_fpga_state_s10 b priv w
                             else (FPGA_PR_IP_STATE_WRITE, w))
              in if st \<noteq> FPGA_PR_IP_STATE_WRITE then (True, 0, w)
                 else (False, 0, msleep b wait_time w)
         else (False, j, w))"

text \<open>One round of the copy loop: the word in the buffer is written and the next one is read.\<close>

definition write_round_s10 ::
  "bool \<Rightarrow> nat \<Rightarrow> ('h, 'z) bus_scheme \<Rightarrow> fpga_pcie_priv \<Rightarrow> kfile \<Rightarrow>
   bool \<times> u32 \<times> u32 \<times> int \<times> cbuf \<times> 'h world \<Rightarrow> bool \<times> u32 \<times> u32 \<times> int \<times> cbuf \<times> 'h world" where
  "write_round_s10 verbose wait_time b priv fp =
     (\<lambda>(_, j, offset, ret, buf, w).
        let offset = offset + word_of_int ret;
            (eio, j, w) = put_word_s10 verbose wait_time b priv (buf32 buf 0) j w
        in if eio then (True, j, offset, ret, buf, w)
           else let (ret, buf) = kernel_read fp (sint offset) buf 4
                in (False, j, offset, ret, buf, w))"

definition alt_pr_ip_fpga_write_s10 ::
  "bool \<Rightarrow> nat \<Rightarrow> ('h, 'z) bus_scheme \<Rightarrow> fpga_pcie_priv \<Rightarrow> cbuf \<Rightarrow> kfile \<Rightarrow> 'h world \<Rightarrow>
   (int \<times> 'h world) option" where
  "alt_pr_ip_fpga_write_s10 verbose wait_time b priv buf0 fp w =
     (let (_, w) = alt_pr_ip_fpga_state_s10 b priv w;
          offset = 0;
          (ret, buf) = kernel_read fp (sint (offset :: u32)) buf0 4
      in do {
           (eio, _, _, ret, buf, w) \<leftarrow>
             do_while (write_round_s10 verbose wait_time b priv fp)
               (\<lambda>(eio, _, _, ret, _, _). \<not> eio \<and> ret \<ge> 4) (False, 0, offset, ret, buf, w);
           if eio then Some (- EIO, w)
           else case write_rest b (reg_base priv) ret buf w of
             None \<Rightarrow> Some (- EFAULT, w)
           | Some w \<Rightarrow>
               let (st, w) = alt_pr_ip_fpga_state_s10 b priv w
               in if st = FPGA_PR_IP_STATE_WRITE_ERR then Some (- EIO, w) else Some (0, w)
         })"

text \<open>The loop counter is unsigned and the timeout signed: the bound is the timeout modulo \<open>2 ^ 32\<close>.\<close>

fun write_complete_loop_s10 ::
  "('h, 'z) bus_scheme \<Rightarrow> fpga_pcie_priv \<Rightarrow> nat \<Rightarrow> 'h world \<Rightarrow> int \<times> 'h world" where
  "write_complete_loop_s10 b priv 0 w = (- ETIMEDOUT, w)"
| "write_complete_loop_s10 b priv (Suc n) w =
     (let w = msleep b 200 w;
          (st, w) = alt_pr_ip_fpga_state_s10 b priv w
      in if st = FPGA_PR_IP_STATE_WRITE_ERR then (- EIO, w)
         else if st = FPGA_PR_IP_STATE_OPERATING then (0, w)
         else write_complete_loop_s10 b priv n (udelay b 1 w))"

definition alt_pr_ip_fpga_write_complete_s10 ::
  "('h, 'z) bus_scheme \<Rightarrow> fpga_pcie_priv \<Rightarrow> int \<Rightarrow> 'h world \<Rightarrow> int \<times> 'h world" where
  "alt_pr_ip_fpga_write_complete_s10 b priv config_timeout_us w =
     write_complete_loop_s10 b priv (unat (word_of_int config_timeout_us :: u32)) w"

section \<open>The wait for an idle core\<close>

lemma s10_status_distinct [simp]:
  "S10_STATUS_NRESET \<noteq> S10_STATUS_PR_SUCCESS" "S10_STATUS_PR_SUCCESS \<noteq> S10_STATUS_NRESET"
  by (simp_all add: const_defs)

text \<open>No value differs from neither of two distinct values: the loop never stops early.\<close>

lemma wait_initial_loop_s10_trace:
  "\<exists>vs w'. wait_initial_loop_s10 b priv n val w = (True, w') \<and> length vs = n \<and>
     trace w' = trace w @
       concat (map (\<lambda>v. [Read (reg_base priv + ALT_PR_CSR_OFST) v, Wait 1000]) vs)"
proof (induction n arbitrary: val w)
  case (Suc n)
  obtain v w1 where v: "readl b (reg_base priv + ALT_PR_CSR_OFST) w = (v, w1)" by fastforce
  obtain vs w' where "wait_initial_loop_s10 b priv n (v AND S10_STATUS_MSK) (msleep b 1 w1) = (True, w')"
    "length vs = n" "trace w' = trace (msleep b 1 w1) @
       concat (map (\<lambda>v. [Read (reg_base priv + ALT_PR_CSR_OFST) v, Wait 1000]) vs)"
    using Suc.IH by blast
  moreover have "val \<noteq> S10_STATUS_NRESET \<or> val \<noteq> S10_STATUS_PR_SUCCESS"
    using s10_status_distinct by metis
  ultimately show ?case using trace_readlD [OF v]
    by (intro exI [of _ "v # vs"] exI [of _ w']) (simp add: v trace_msleep)
qed simp

lemma wait_for_initial_state_s10_spec:
  "\<exists>v vs w'. alt_pr_ip_wait_for_initial_state_s10 b priv w =
       (if v AND S10_STATUS_MSK = S10_STATUS_BUSY then - ETIMEDOUT else 0, w') \<and>
     length vs = (if v AND S10_STATUS_MSK = S10_STATUS_BUSY then 5000 else 0) \<and>
     trace w' = trace w @ Read (reg_base priv + ALT_PR_CSR_OFST) v #
       concat (map (\<lambda>v. [Read (reg_base priv + ALT_PR_CSR_OFST) v, Wait 1000]) vs)"
proof -
  obtain v w1 where v: "readl b (reg_base priv + ALT_PR_CSR_OFST) w = (v, w1)" by fastforce
  obtain vs w' where "wait_initial_loop_s10 b priv 5000 (v AND S10_STATUS_MSK) w1 = (True, w')"
    "length vs = 5000" "trace w' = trace w1 @
       concat (map (\<lambda>v. [Read (reg_base priv + ALT_PR_CSR_OFST) v, Wait 1000]) vs)"
    using wait_initial_loop_s10_trace [of b priv 5000 "v AND S10_STATUS_MSK" w1] by blast
  then show ?thesis using trace_readlD [OF v]
    by (cases "v AND S10_STATUS_MSK = S10_STATUS_BUSY")
      (intro exI [of _ v] exI [of _ vs] exI [of _ w'],
        simp add: alt_pr_ip_wait_for_initial_state_s10_def v,
        intro exI [of _ v] exI [of _ "[]"] exI [of _ w1],
        simp add: alt_pr_ip_wait_for_initial_state_s10_def v)
qed

section \<open>The start of an image\<close>

lemma write_init_start_s10_spec:
  "\<exists>v t w'. write_init_start_s10 b priv x w =
       (if v AND S10_STATUS_MSK = S10_STATUS_BUSY then - ETIMEDOUT else 0, w') \<and>
     trace w' = trace w @ Read (reg_base priv + ALT_PR_CSR_OFST) v # t \<and>
     writes_of t = (if v AND S10_STATUS_MSK = S10_STATUS_BUSY then []
                    else [(reg_base priv + ALT_PR_CSR_OFST, x OR ALT_PR_CSR_PR_START)])"
proof -
  let ?a = "reg_base priv + ALT_PR_CSR_OFST"
  obtain v vs w1 where wait: "alt_pr_ip_wait_for_initial_state_s10 b priv w =
       (if v AND S10_STATUS_MSK = S10_STATUS_BUSY then - ETIMEDOUT else 0, w1)"
    and tr: "trace w1 = trace w @ Read ?a v # concat (map (\<lambda>v. [Read ?a v, Wait 1000]) vs)"
    using wait_for_initial_state_s10_spec [of b priv w] by blast
  have quiet: "writes_of (concat (map (\<lambda>v. [Read ?a v, Wait 1000]) vs)) = []"
    by (induction vs) auto
  obtain u w2 where u: "readl b ?a w1 = (u, w2)" by fastforce
  show ?thesis
    using wait tr quiet trace_readlD [OF u]
    by (cases "v AND S10_STATUS_MSK = S10_STATUS_BUSY")
      (force simp: write_init_start_s10_def ETIMEDOUT_def,
       force simp: write_init_start_s10_def alt_pr_ip_fpga_state_s10_def u trace_writel)
qed

lemma write_init_s10_spec:
  "\<exists>x t r w'. image_check (reg_base priv) buf count x t \<and>
     alt_pr_ip_write_init_s10 b priv buf count w = (r, w') \<and>
     (case x of
        None \<Rightarrow> r = - EINVAL \<and> trace w' = trace w @ t
      | Some y \<Rightarrow> (\<exists>v t'. r = (if v AND S10_STATUS_MSK = S10_STATUS_BUSY then - ETIMEDOUT else 0) \<and>
          trace w' = trace w @ t @ Read (reg_base priv + ALT_PR_CSR_OFST) v # t' \<and>
          writes_of t' = (if v AND S10_STATUS_MSK = S10_STATUS_BUSY then []
                          else [(reg_base priv + ALT_PR_CSR_OFST, y OR ALT_PR_CSR_PR_START)])))"
proof -
  let ?a = "reg_base priv"
  obtain v w1 where v: "readl b (?a + ALT_PR_CSR_OFST) w = (v, w1)" by fastforce
  obtain x w2 where x: "readl b (?a + ALT_PR_VER_OFST) w1 = (x, w2)" by fastforce
  obtain p w3 where p: "readl b (?a + ALT_PR_POF_ID_OFST) w2 = (p, w3)" by fastforce
  note tr = trace_readlD [OF v] trace_readlD [OF x] trace_readlD [OF p]
  note def = alt_pr_ip_write_init_s10_def v x p tr
  show ?thesis
  proof (cases rule: image_check_cases [where v = v and x = x and count = count and p = p and buf = buf])
    case started
    then show ?thesis using image_check.started [OF started] by (force simp: def)
  next
    case no_id
    then show ?thesis
      using image_check.no_id [OF no_id, of ?a buf count] write_init_start_s10_spec [of b priv x w2]
      by (intro exI [of _ "Some x"] exI [of _ "[Read (?a + ALT_PR_CSR_OFST) v, Read (?a + ALT_PR_VER_OFST) x]"])
        (auto simp: def)
  next
    case short
    then show ?thesis using image_check.short [OF short(1,3)] by (force simp: def)
  next
    case mismatch
    then show ?thesis using image_check.mismatch [OF mismatch(1,3,4,5)] by (force simp: def)
  next
    case match
    then show ?thesis
      using image_check.match [OF match(1,3,4), of ?a] write_init_start_s10_spec [of b priv p w3]
      by (intro exI [of _ "Some p"] exI [of _ "[Read (?a + ALT_PR_CSR_OFST) v,
          Read (?a + ALT_PR_VER_OFST) ALT_PR_VER_POF_ID, Read (?a + ALT_PR_POF_ID_OFST) p]"])
        (auto simp: def)
  qed
qed

section \<open>The copy loop delivers the image\<close>

definition sleeps_of :: "io_event list \<Rightarrow> nat list" where
  "sleeps_of t = concat (map (\<lambda>e. case e of Wait n \<Rightarrow> [n] | _ \<Rightarrow> []) t)"

lemma sleeps_of_simps [simp]:
  "sleeps_of [] = []" "sleeps_of (Wait n # t) = n # sleeps_of t"
  "sleeps_of (Read a v # t) = sleeps_of t" "sleeps_of (Write a v # t) = sleeps_of t"
  "sleeps_of (t @ t') = sleeps_of t @ sleeps_of t'"
  by (simp_all add: sleeps_of_def)

lemma sleeps_of_map_Write [simp]: "sleeps_of (map (Write a) vs) = []"
  by (induction vs) auto

lemma reads_of_map_Write [simp]: "reads_of (map (Write a) vs) = []"
  by (induction vs) auto

text \<open>The words of a list, until an error.\<close>

fun push_s10 ::
  "bool \<Rightarrow> nat \<Rightarrow> ('h, 'z) bus_scheme \<Rightarrow> fpga_pcie_priv \<Rightarrow> u32 list \<Rightarrow> u32 \<Rightarrow> 'h world \<Rightarrow> bool \<times> u32 \<times> 'h world" where
  "push_s10 verbose wait_time b priv [] j w = (False, j, w)"
| "push_s10 verbose wait_time b priv (v # vs) j w =
     (let (eio, j, w) = put_word_s10 verbose wait_time b priv v j w
      in if eio then (True, j, w) else push_s10 verbose wait_time b priv vs j w)"

lemma put_word_s10_spec:
  assumes j: "j < 1024"
  shows "\<exists>eio w'. put_word_s10 verbose wait_time b priv v (of_nat j) w =
      (eio, of_nat ((j + 1) mod 1024), w') \<and> (eio \<longrightarrow> verbose) \<and>
    data_words priv w' = data_words priv w @ [v] \<and>
    (\<not> verbose \<longrightarrow> trace w' = trace w @ Write (reg_base priv) v #
       (if j = 1023 then [Wait (1000 * wait_time)] else []))"
proof -
  have j1: "(1024 \<le> (of_nat j + 1 :: u32)) = (j = 1023)"
  proof -
    have "unat (of_nat (j + 1) :: u32) = j + 1"
      using j by (simp only: unat_of_nat take_bit_nat_eq_self_iff) simp
    then have "unat (of_nat j + 1 :: u32) = j + 1" by (simp add: add.commute)
    then show ?thesis using j by (simp add: word_le_nat_alt) linarith
  qed
  have jm: "(of_nat j + 1 :: u32) = of_nat ((j + 1) mod 1024)" if "j \<noteq> 1023" using that j by simp
  obtain u w1 where u: "readl b (reg_base priv + ALT_PR_CSR_OFST)
      (writel b v (reg_base priv) w) = (u, w1)" by fastforce
  show ?thesis
    unfolding put_word_s10_def Let_def j1
    using trace_readlD [OF u] jm
    by (cases "j = 1023"; cases verbose)
      (simp_all add: u alt_pr_ip_fpga_state_s10_def data_words_def trace_simps ex_bool_eq)
qed

lemma push_s10_spec:
  "push_s10 verbose wait_time b priv vs (of_nat j) w = (eio, j', w') \<Longrightarrow> j < 1024 \<Longrightarrow>
   \<exists>us. data_words priv w' = data_words priv w @ us \<and>
     (if eio then verbose \<and> prefix us vs else us = vs) \<and>
     (\<not> verbose \<longrightarrow> (\<exists>t. trace w' = trace w @ t \<and> reads_of t = [] \<and>
        sleeps_of t = replicate ((j + length vs) div 1024) (1000 * wait_time)))"
proof (induction vs arbitrary: j w)
  case (Cons v vs)
  let ?j = "(j + 1) mod 1024"
  obtain e w1 where put: "put_word_s10 verbose wait_time b priv v (of_nat j) w = (e, of_nat ?j, w1)"
    and v: "e \<longrightarrow> verbose" and d: "data_words priv w1 = data_words priv w @ [v]"
    and t: "\<not> verbose \<longrightarrow> trace w1 = trace w @ Write (reg_base priv) v #
       (if j = 1023 then [Wait (1000 * wait_time)] else [])"
    using put_word_s10_spec [OF Cons.prems(2), of verbose wait_time b priv v w] by blast
  show ?case
  proof (cases e)
    case True
    then show ?thesis using Cons.prems put v d by auto
  next
    case False
    then have "push_s10 verbose wait_time b priv vs (of_nat ?j) w1 = (eio, j', w')"
      using Cons.prems put by simp
    from Cons.IH [OF this] obtain us where us: "data_words priv w' = data_words priv w1 @ us"
      "if eio then verbose \<and> prefix us vs else us = vs"
      "\<not> verbose \<longrightarrow> (\<exists>t. trace w' = trace w1 @ t \<and> reads_of t = [] \<and>
        sleeps_of t = replicate ((?j + length vs) div 1024) (1000 * wait_time))" by auto
    have n: "(j + length (v # vs)) div 1024 = (if j = 1023 then 1 else 0) + (?j + length vs) div 1024"
      using Cons.prems(2) div_add_self1 [of 1024 "length vs"] by simp
    show ?thesis using us d t unfolding n
      by (intro exI [of _ "v # us"]) (auto split: if_splits)
  qed
qed auto

lemma write_loop_s10:
  assumes fp: "file_has fp bs" and small: "length bs < 2 ^ 31"
  shows "k + 4 \<le> length bs \<Longrightarrow> (\<And>i. i < 4 \<Longrightarrow> buf i = bs ! (k + i)) \<Longrightarrow>
    push_s10 verbose wait_time b priv (full_words (drop k bs)) j w = (eio, j', w1) \<Longrightarrow>
    \<exists>off ret buf'.
      do_while (write_round_s10 verbose wait_time b priv fp)
        (\<lambda>(eio, _, _, ret, _, _). \<not> eio \<and> ret \<ge> 4) (False, j, of_nat k, 4, buf, w) =
        Some (eio, j', off, ret, buf', w1) \<and>
      (\<not> eio \<longrightarrow> write_rest b (reg_base priv) ret buf' w1 =
         Some (push_words b (reg_base priv) (le_words (rest_bytes (drop k bs))) w1))"
proof (induction "length bs - k" arbitrary: k j buf w rule: less_induct)
  case less
  let ?xs = "drop (k + 4) bs"
  let ?buf = "\<lambda>i. if i < length (take 4 ?xs) then take 4 ?xs ! i else buf i"
  let ?loop = "do_while (write_round_s10 verbose wait_time b priv fp)
      (\<lambda>(eio, _, _, ret, _, _). \<not> eio \<and> ret \<ge> 4)"
  have o: "(of_nat k + 4 :: u32) = of_nat (k + 4)" by simp
  have sk: "sint (of_nat (k + 4) :: u32) = int (k + 4)"
    using small less.prems(1) by (intro sint_of_nat_small) simp
  have rd: "kernel_read fp (sint (of_nat (k + 4) :: u32)) buf 4 =
      (int (min 4 (length bs - (k + 4))), ?buf)"
    unfolding sk by (rule kernel_read_file [OF fp])
  obtain e j2 w2 where put: "put_word_s10 verbose wait_time b priv (buf32 buf 0) j w = (e, j2, w2)"
    by (metis prod_cases3)
  have round: "write_round_s10 verbose wait_time b priv fp (False, j, of_nat k, 4, buf, w) =
      (if e then (True, j2, of_nat (k + 4), 4, buf, w2)
       else (False, j2, of_nat (k + 4), int (min 4 (length bs - (k + 4))), ?buf, w2))"
    unfolding write_round_s10_def Let_def prod.case of_int_numeral o put rd by (rule refl)
  have push: "(if e then (True, j2, w2) else push_s10 verbose wait_time b priv (full_words ?xs) j2 w2) = (eio, j', w1)"
    using less.prems(3) put buf32_nth [OF less.prems(2)]
    by (simp add: words_drop [OF less.prems(1)] split: if_splits)
  consider (eio) e | (more) "\<not> e" "k + 8 \<le> length bs" | (rest) "\<not> e" "length bs < k + 8"
    by linarith
  then show ?case
  proof cases
    case eio
    then show ?thesis using round push by (subst do_while_unfold) simp
  next
    case more
    have bufs: "?buf i = bs ! (k + 4 + i)" if "i < 4" for i
      using more that by (simp add: add.commute)
    have dec: "length bs - (k + 4) < length bs - k" "k + 4 + 4 \<le> length bs" using more by auto
    have p: "push_s10 verbose wait_time b priv (full_words ?xs) j2 w2 = (eio, j', w1)"
      using push more by simp
    have four: "int (min 4 (length bs - (k + 4))) = 4" using more by simp
    have "?loop (False, j, of_nat k, 4, buf, w) = ?loop (False, j2, of_nat (k + 4), 4, ?buf, w2)"
      by (subst do_while_unfold) (use more in \<open>simp only: round four prod.case if_False if_True
          simp_thms order_refl\<close>)
    then show ?thesis
      using less.hyps [OF dec bufs p] unfolding words_drop(2) [OF less.prems(1)] by simp
  next
    case rest
    then have len: "length ?xs < 4" "int (min 4 (length bs - (k + 4))) = int (length ?xs)"
      using less.prems(1) by auto
    have "?buf i = ?xs ! i" if "i < length ?xs" for i using len(1) that by simp
    then have "write_rest b (reg_base priv) (int (length ?xs)) ?buf w2 =
        Some (push_words b (reg_base priv) (le_words ?xs) w2)"
      by (rule write_rest_le_words [OF len(1)])
    moreover have "?loop (False, j, of_nat k, 4, buf, w) =
        Some (False, j2, of_nat (k + 4), int (length ?xs), ?buf, w2)"
      by (subst do_while_unfold) (use rest len in \<open>simp only: round prod.case if_False
          simp_thms\<close>, simp)
    moreover have "eio = False" "j' = j2" "w1 = w2" using push rest short_words [OF len(1)] by auto
    ultimately show ?thesis using short_words [OF len(1)] words_drop(2) [OF less.prems(1)] by simp
  qed
qed

lemma write_s10_file:
  assumes fp: "file_has fp bs" and len: "4 \<le> length bs" "length bs < 2 ^ 31"
  shows "alt_pr_ip_fpga_write_s10 verbose wait_time b priv buf0 fp w =
    (let (_, w) = alt_pr_ip_fpga_state_s10 b priv w;
         (eio, _, w) = push_s10 verbose wait_time b priv (full_words bs) 0 w
     in if eio then Some (- EIO, w)
        else let (st, w) = alt_pr_ip_fpga_state_s10 b priv
                   (push_words b (reg_base priv) (le_words (rest_bytes bs)) w)
             in Some (if st = FPGA_PR_IP_STATE_WRITE_ERR then - EIO else 0, w))"
proof -
  let ?buf = "\<lambda>i. if i < length (take 4 bs) then take 4 bs ! i else buf0 i"
  obtain u w0 where u: "alt_pr_ip_fpga_state_s10 b priv w = (u, w0)" by fastforce
  have first: "kernel_read fp (sint (0 :: u32)) buf0 4 = (4, ?buf)"
    using fp [unfolded file_has_def, rule_format, of 0 4] len by (simp add: kernel_read_def)
  have bufs: "?buf i = bs ! (0 + i)" if "i < 4" for i using len that by simp
  have k: "0 + 4 \<le> length bs" using len by simp
  obtain eio j' w1 where p: "push_s10 verbose wait_time b priv (full_words bs) 0 w0 = (eio, j', w1)"
    by (metis prod_cases3)
  have p': "push_s10 verbose wait_time b priv (full_words (drop 0 bs)) 0 w0 = (eio, j', w1)" using p by simp
  from write_loop_s10 [OF fp len(2) k bufs p', unfolded drop_0 semiring_1_class.of_nat_0]
  obtain off ret buf' where
    loop: "do_while (write_round_s10 verbose wait_time b priv fp)
        (\<lambda>(eio, _, _, ret, _, _). \<not> eio \<and> ret \<ge> 4) (False, 0, 0, 4, ?buf, w0) =
        Some (eio, j', off, ret, buf', w1)"
    and rest: "\<not> eio \<longrightarrow> write_rest b (reg_base priv) ret buf' w1 =
        Some (push_words b (reg_base priv) (le_words (rest_bytes bs)) w1)"
    by blast
  show ?thesis
    unfolding alt_pr_ip_fpga_write_s10_def u Let_def first prod.case loop bind.simps p
    using rest by (cases eio) (simp_all split: prod.split)
qed

lemma write_s10_trace:
  assumes fp: "file_has fp bs" and len: "4 \<le> length bs" "length bs < 2 ^ 31"
  shows "\<exists>r w' ws. alt_pr_ip_fpga_write_s10 verbose wait_time b priv buf0 fp w = Some (r, w') \<and>
    data_words priv w' = data_words priv w @ ws \<and>
    (if verbose then prefix ws (le_words bs) \<and> (r = - EIO \<or> r = 0 \<and> ws = le_words bs)
     else ws = le_words bs \<and> (\<exists>u v t. trace w' = trace w @ Read (reg_base priv + ALT_PR_CSR_OFST) u # t @
         [Read (reg_base priv + ALT_PR_CSR_OFST) v] \<and>
       r = (if csr_state_s10 v = FPGA_PR_IP_STATE_WRITE_ERR then - EIO else 0) \<and>
       reads_of t = [] \<and> sleeps_of t = replicate (length bs div 4096) (1000 * wait_time)))"
proof -
  let ?a = "reg_base priv + ALT_PR_CSR_OFST"
  obtain u w0 where u: "readl b ?a w = (u, w0)" by fastforce
  obtain eio j' w1 where p: "push_s10 verbose wait_time b priv (full_words bs) (of_nat 0) w0 = (eio, j', w1)"
    by (metis prod_cases3)
  obtain us where us: "data_words priv w1 = data_words priv w0 @ us"
     "if eio then verbose \<and> prefix us (full_words bs) else us = full_words bs"
     "\<not> verbose \<longrightarrow> (\<exists>t. trace w1 = trace w0 @ t \<and> reads_of t = [] \<and>
        sleeps_of t = replicate ((0 + length (full_words bs)) div 1024) (1000 * wait_time))"
    using push_s10_spec [OF p] by auto
  have d0: "data_words priv w0 = data_words priv w" using trace_readlD [OF u] by (simp add: data_words_def)
  let ?w2 = "push_words b (reg_base priv) (le_words (rest_bytes bs)) w1"
  obtain v w3 where v: "readl b ?a ?w2 = (v, w3)" by fastforce
  have d3: "data_words priv w3 = data_words priv w1 @ le_words (rest_bytes bs)"
    using trace_readlD [OF v] by (simp add: data_words_def trace_push_words)
  have n: "(0 + length (full_words bs)) div 1024 = length bs div 4096"
    by (simp add: length_full_words div_mult2_eq [symmetric])
  note run = write_s10_file [OF assms, of verbose wait_time b priv buf0 w]
  show ?thesis
  proof (cases eio)
    case True
    then have "alt_pr_ip_fpga_write_s10 verbose wait_time b priv buf0 fp w = Some (- EIO, w1)"
      unfolding run using p by (simp add: alt_pr_ip_fpga_state_s10_def u)
    then show ?thesis using True us d0 le_words_split [of bs] by auto
  next
    case False
    then have r: "alt_pr_ip_fpga_write_s10 verbose wait_time b priv buf0 fp w =
        Some (if csr_state_s10 v = FPGA_PR_IP_STATE_WRITE_ERR then - EIO else 0, w3)"
      unfolding run using p by (simp add: alt_pr_ip_fpga_state_s10_def u v)
    have d: "data_words priv w3 = data_words priv w @ le_words bs"
      using us(1,2) d0 d3 le_words_split [of bs] False by simp
    have "\<exists>t. trace w3 = trace w @ Read ?a u # t @ [Read ?a v] \<and> reads_of t = [] \<and>
        sleeps_of t = replicate (length bs div 4096) (1000 * wait_time)" if nv: "\<not> verbose"
    proof -
      obtain t where "trace w1 = trace w0 @ t" "reads_of t = []"
        "sleeps_of t = replicate (length bs div 4096) (1000 * wait_time)" using us(3) nv n by auto
      then show ?thesis using trace_readlD [OF u] trace_readlD [OF v]
        by (intro exI [of _ "t @ map (Write (reg_base priv)) (le_words (rest_bytes bs))"])
          (simp add: trace_push_words)
    qed
    then show ?thesis using r d by (cases verbose) auto
  qed
qed

section \<open>The wait for completion is bounded\<close>

lemma write_complete_loop_s10_outcome:
  "\<exists>r t w'. write_complete_loop_s10 b priv n w = (r, w') \<and> trace w' = trace w @ t \<and>
     poll_outcome csr_state_s10 (reg_base priv + ALT_PR_CSR_OFST) n r t"
proof (induction n arbitrary: w)
  case 0
  show ?case using poll_outcome_timeout by force
next
  case (Suc n)
  let ?a = "reg_base priv + ALT_PR_CSR_OFST"
  obtain v w1 where v: "readl b ?a (msleep b 200 w) = (v, w1)" by fastforce
  note tr = trace_readlD [OF v]
  show ?case
  proof (cases "poll_end csr_state_s10 v")
    case True
    then show ?thesis
      using tr poll_outcome_end [of "[Wait 200000]", OF _ True, of ?a n]
      by (auto simp: alt_pr_ip_fpga_state_s10_def v poll_end_def poll_result_def trace_msleep)
  next
    case False
    obtain r t w' where "write_complete_loop_s10 b priv n (udelay b 1 w1) = (r, w')"
      "trace w' = trace (udelay b 1 w1) @ t" "poll_outcome csr_state_s10 ?a n r t"
      using Suc.IH by blast
    then show ?thesis
      using tr False poll_outcome_later [of "[Wait 200000]" "[Wait 1]", OF _ _ False]
      by (intro exI [of _ r] exI [of _ "[Wait 200000] @ Read ?a v # [Wait 1] @ t"] exI [of _ w'])
        (simp add: alt_pr_ip_fpga_state_s10_def v poll_end_def trace_simps)
  qed
qed

section \<open>The Stratix 10 core keeps the contract of the loader\<close>

definition s10_ops :: "bool \<Rightarrow> nat \<Rightarrow> ('h, 'z) bus_scheme \<Rightarrow> cbuf \<Rightarrow> 'h world pr_ip_ops" where
  "s10_ops verbose wait_time b buf0 =
     \<lparr>ip_write_init = (\<lambda>priv buf n w. Some (alt_pr_ip_write_init_s10 b priv buf n w)),
      ip_write = (\<lambda>priv fp w. alt_pr_ip_fpga_write_s10 verbose wait_time b priv buf0 fp w),
      ip_write_complete = (\<lambda>priv tmo w. Some (alt_pr_ip_fpga_write_complete_s10 b priv tmo w))\<rparr>"

definition operating_s10 :: "fpga_pcie_priv \<Rightarrow> 'h world \<Rightarrow> bool" where
  "operating_s10 = last_csr (\<lambda>v. csr_state_s10 v = FPGA_PR_IP_STATE_OPERATING)"

lemma s10_init_law:
  "\<exists>r w'. ip_write_init (s10_ops verbose wait_time b buf0) priv buf n w = Some (r, w') \<and> r \<le> 0 \<and>
     data_words priv w' = data_words priv w"
proof -
  obtain x t r w' where c: "image_check (reg_base priv) buf n x t"
    and run: "alt_pr_ip_write_init_s10 b priv buf n w = (r, w')"
    and post: "case x of
        None \<Rightarrow> r = - EINVAL \<and> trace w' = trace w @ t
      | Some y \<Rightarrow> (\<exists>v t'. r = (if v AND S10_STATUS_MSK = S10_STATUS_BUSY then - ETIMEDOUT else 0) \<and>
          trace w' = trace w @ t @ Read (reg_base priv + ALT_PR_CSR_OFST) v # t' \<and>
          writes_of t' = (if v AND S10_STATUS_MSK = S10_STATUS_BUSY then []
                          else [(reg_base priv + ALT_PR_CSR_OFST, y OR ALT_PR_CSR_PR_START)]))"
    using write_init_s10_spec [of priv buf n b w] by blast
  have "data_words priv w' = data_words priv w \<and> r \<le> 0"
    using post image_check_no_writes [OF c]
    by (auto simp: data_words_def writes_to_def const_defs split: option.splits if_splits)
  then show ?thesis using run by (simp add: s10_ops_def)
qed

lemma s10_write_law:
  assumes "file_has fp bs" "4 \<le> length bs" "length bs < 2 ^ 31"
  shows "\<exists>r w' ws. ip_write (s10_ops verbose wait_time b buf0) priv fp w = Some (r, w') \<and> r \<le> 0 \<and>
     data_words priv w' = data_words priv w @ ws \<and> prefix ws (le_words bs) \<and>
     (r = 0 \<longrightarrow> ws = le_words bs)"
proof -
  obtain r w' ws where "alt_pr_ip_fpga_write_s10 verbose wait_time b priv buf0 fp w = Some (r, w')"
    "data_words priv w' = data_words priv w @ ws" "prefix ws (le_words bs)"
    "r = - EIO \<or> r = 0 \<and> ws = le_words bs"
    using write_s10_trace [OF assms, of verbose wait_time b priv buf0 w] by (auto split: if_splits)
  then show ?thesis by (auto simp: s10_ops_def EIO_def)
qed

lemma s10_complete_law:
  "\<exists>r w'. ip_write_complete (s10_ops verbose wait_time b buf0) priv tmo w = Some (r, w') \<and> r \<le> 0 \<and>
     data_words priv w' = data_words priv w \<and> (r = 0 \<longrightarrow> operating_s10 priv w')"
  using write_complete_loop_s10_outcome [of b priv "unat (word_of_int tmo :: u32)" w]
  by (auto simp: s10_ops_def alt_pr_ip_fpga_write_complete_s10_def operating_s10_def
      intro: poll_outcome_operating)

interpretation s10: pr_ip_core "s10_ops verbose wait_time b buf0" data_words operating_s10
  for verbose wait_time b buf0
  by unfold_locales (simp, simp add: operating_s10_def, rule s10_init_law, rule s10_write_law, assumption+, rule s10_complete_law)

section \<open>The protocol of the Stratix 10 core\<close>

text \<open>
  A core that is busy when an image is started is watched for 5000 looks, in vain; the one that is not is
  looked at twice and started with one write.
\<close>

definition s10_idle :: "u64 \<Rightarrow> u32 \<Rightarrow> int \<Rightarrow> io_event list \<Rightarrow> bool" where
  "s10_idle base x r t \<longleftrightarrow> (\<exists>v. if v AND S10_STATUS_MSK = S10_STATUS_BUSY
     then r = - ETIMEDOUT \<and> (\<exists>vs. length vs = 5000 \<and> t = Read (base + ALT_PR_CSR_OFST) v #
       concat (map (\<lambda>v. [Read (base + ALT_PR_CSR_OFST) v, Wait 1000]) vs))
     else r = 0 \<and> (\<exists>u. t = [Read (base + ALT_PR_CSR_OFST) v, Read (base + ALT_PR_CSR_OFST) u,
       Write (base + ALT_PR_CSR_OFST) (x OR ALT_PR_CSR_PR_START)]))"

lemma write_init_start_s10_idle:
  "\<exists>r t w'. write_init_start_s10 b priv x w = (r, w') \<and> trace w' = trace w @ t \<and> s10_idle (reg_base priv) x r t"
proof -
  let ?a = "reg_base priv + ALT_PR_CSR_OFST"
  obtain v vs w1 where wait: "alt_pr_ip_wait_for_initial_state_s10 b priv w =
       (if v AND S10_STATUS_MSK = S10_STATUS_BUSY then - ETIMEDOUT else 0, w1)"
    and n: "length vs = (if v AND S10_STATUS_MSK = S10_STATUS_BUSY then 5000 else 0)"
    and tr: "trace w1 = trace w @ Read ?a v # concat (map (\<lambda>v. [Read ?a v, Wait 1000]) vs)"
    using wait_for_initial_state_s10_spec [of b priv w] by blast
  obtain u w2 where u: "readl b ?a w1 = (u, w2)" by fastforce
  show ?thesis
  proof (cases "v AND S10_STATUS_MSK = S10_STATUS_BUSY")
    case True
    then show ?thesis using wait n tr
      by (intro exI [of _ "- ETIMEDOUT"] exI [of _ "Read ?a v # concat (map (\<lambda>v. [Read ?a v, Wait 1000]) vs)"]
          exI [of _ w1]) (auto simp: write_init_start_s10_def ETIMEDOUT_def s10_idle_def)
  next
    case False
    then show ?thesis using wait n tr trace_readlD [OF u]
      by (intro exI [of _ 0] exI [of _ "[Read ?a v, Read ?a u, Write ?a (x OR ALT_PR_CSR_PR_START)]"]
          exI [of _ "writel b (x OR ALT_PR_CSR_PR_START) ?a w2"])
        (auto simp: write_init_start_s10_def alt_pr_ip_fpga_state_s10_def u trace_writel s10_idle_def)
  qed
qed

definition s10_starts :: "u64 \<Rightarrow> cbuf \<Rightarrow> nat \<Rightarrow> int \<Rightarrow> io_event list \<Rightarrow> bool" where
  "s10_starts base buf n r t \<longleftrightarrow> (\<exists>x t0. image_check base buf n x t0 \<and>
     (case x of
        None \<Rightarrow> r = - EINVAL \<and> t = t0
      | Some v \<Rightarrow> \<exists>t1. s10_idle base v r t1 \<and> t = t0 @ t1))"

lemma s10_init_follows:
  "\<exists>r t w'. alt_pr_ip_write_init_s10 b priv buf n w = (r, w') \<and> trace w' = trace w @ t \<and>
     s10_starts (reg_base priv) buf n r t"
proof -
  let ?a = "reg_base priv"
  obtain v w1 where v: "readl b (?a + ALT_PR_CSR_OFST) w = (v, w1)" by fastforce
  obtain x w2 where x: "readl b (?a + ALT_PR_VER_OFST) w1 = (x, w2)" by fastforce
  obtain p w3 where p: "readl b (?a + ALT_PR_POF_ID_OFST) w2 = (p, w3)" by fastforce
  note tr = trace_readlD [OF v] trace_readlD [OF x] trace_readlD [OF p]
  note def = alt_pr_ip_write_init_s10_def v x p tr s10_starts_def
  show ?thesis
  proof (cases rule: image_check_cases [where v = v and x = x and count = n and p = p and buf = buf])
    case started
    then show ?thesis using image_check.started [OF started] by (force simp: def)
  next
    case no_id
    obtain r t w' where "write_init_start_s10 b priv x w2 = (r, w')" "trace w' = trace w2 @ t" "s10_idle ?a x r t"
      using write_init_start_s10_idle [of b priv x w2] by blast
    then show ?thesis using image_check.no_id [OF no_id, of ?a buf n] no_id
      by (intro exI [of _ r] exI [of _ "[Read (?a + ALT_PR_CSR_OFST) v, Read (?a + ALT_PR_VER_OFST) x] @ t"]
          exI [of _ w']) (force simp: def)
  next
    case short
    then show ?thesis using image_check.short [OF short(1,3)] by (force simp: def)
  next
    case mismatch
    then show ?thesis using image_check.mismatch [OF mismatch(1,3,4,5)] by (force simp: def)
  next
    case match
    obtain r t w' where "write_init_start_s10 b priv p w3 = (r, w')" "trace w' = trace w3 @ t" "s10_idle ?a p r t"
      using write_init_start_s10_idle [of b priv p w3] by blast
    then show ?thesis using image_check.match [OF match(1,3,4), of ?a] match
      by (intro exI [of _ r] exI [of _ "[Read (?a + ALT_PR_CSR_OFST) v,
          Read (?a + ALT_PR_VER_OFST) ALT_PR_VER_POF_ID, Read (?a + ALT_PR_POF_ID_OFST) p] @ t"]
          exI [of _ w']) (force simp: def)
  qed
qed

lemma s10_starts_cong:
  "(\<And>i. i < 1024 \<Longrightarrow> buf i = buf' i) \<Longrightarrow> s10_starts base buf n r t \<Longrightarrow> s10_starts base buf' n r t"
  by (simp only: s10_starts_def image_check_cong [OF buf32_id_cong, of buf buf'])

text \<open>
  The complete words of an image, \<open>j\<close> of which have been written since the last pause. Every 1024th word
  is followed by a pause. In the verbose build it is preceded by a look at the status, and the
  transfer stops there, with the third argument true, unless the core is in the state of a write.
\<close>

inductive paced :: "bool \<Rightarrow> nat \<Rightarrow> u64 \<Rightarrow> nat \<Rightarrow> u32 list \<Rightarrow> bool \<Rightarrow> io_event list \<Rightarrow> bool"
  for verbose :: bool and wait_time :: nat and base :: u64 where
  sent: "paced verbose wait_time base j [] False []"
| word: "j < 1023 \<Longrightarrow> paced verbose wait_time base (Suc j) vs e t \<Longrightarrow>
    paced verbose wait_time base j (v # vs) e (Write base v # t)"
| pause: "\<not> verbose \<Longrightarrow> paced verbose wait_time base 0 vs e t \<Longrightarrow>
    paced verbose wait_time base 1023 (v # vs) e (Write base v # Wait (1000 * wait_time) # t)"
| checked: "verbose \<Longrightarrow> csr_state_s10 u = FPGA_PR_IP_STATE_WRITE \<Longrightarrow> paced verbose wait_time base 0 vs e t \<Longrightarrow>
    paced verbose wait_time base 1023 (v # vs) e
      (Write base v # Read (base + ALT_PR_CSR_OFST) u # Wait (1000 * wait_time) # t)"
| stopped: "verbose \<Longrightarrow> csr_state_s10 u \<noteq> FPGA_PR_IP_STATE_WRITE \<Longrightarrow>
    paced verbose wait_time base 1023 (v # vs) True [Write base v, Read (base + ALT_PR_CSR_OFST) u]"

definition s10_pushes :: "bool \<Rightarrow> nat \<Rightarrow> u64 \<Rightarrow> u8 list \<Rightarrow> int \<Rightarrow> io_event list \<Rightarrow> bool" where
  "s10_pushes verbose wait_time base bs r t \<longleftrightarrow> (\<exists>u e t1. paced verbose wait_time base 0 (full_words bs) e t1 \<and>
     (if e then r = - EIO \<and> t = Read (base + ALT_PR_CSR_OFST) u # t1
      else \<exists>v. r = push_result csr_state_s10 v \<and>
        t = Read (base + ALT_PR_CSR_OFST) u # t1 @ map (Write base) (le_words (rest_bytes bs)) @
          [Read (base + ALT_PR_CSR_OFST) v]))"

lemma put_word_s10_cases:
  assumes j: "j < 1024"
  shows "if j < 1023 then put_word_s10 verbose wait_time b priv v (of_nat j) w =
        (False, of_nat (j + 1), writel b v (reg_base priv) w)
     else if \<not> verbose then put_word_s10 verbose wait_time b priv v (of_nat j) w =
        (False, 0, msleep b wait_time (writel b v (reg_base priv) w))
     else \<exists>u w1. readl b (reg_base priv + ALT_PR_CSR_OFST) (writel b v (reg_base priv) w) = (u, w1) \<and>
        put_word_s10 verbose wait_time b priv v (of_nat j) w =
          (if csr_state_s10 u \<noteq> FPGA_PR_IP_STATE_WRITE then (True, 0, w1) else (False, 0, msleep b wait_time w1))"
proof -
  have "unat (of_nat (j + 1) :: u32) = j + 1"
    using j by (simp only: unat_of_nat take_bit_nat_eq_self_iff) simp
  then have "unat (of_nat j + 1 :: u32) = j + 1" by (simp add: add.commute)
  then have j1: "(1024 \<le> (of_nat j + 1 :: u32)) = (j = 1023)"
    using j by (simp add: word_le_nat_alt) linarith
  show ?thesis
    unfolding put_word_s10_def Let_def j1 using j
    by (cases "readl b (reg_base priv + ALT_PR_CSR_OFST) (writel b v (reg_base priv) w)")
      (simp add: alt_pr_ip_fpga_state_s10_def add.commute)
qed

lemma push_s10_paced:
  "push_s10 verbose wait_time b priv vs (of_nat j) w = (e, j', w') \<Longrightarrow> j < 1024 \<Longrightarrow>
   \<exists>t. trace w' = trace w @ t \<and> paced verbose wait_time (reg_base priv) j vs e t"
proof (induction vs arbitrary: j w)
  case Nil
  then show ?case by (auto intro: paced.sent)
next
  case (Cons v vs)
  let ?w = "writel b v (reg_base priv) w"
  note put = put_word_s10_cases [OF Cons.prems(2), of verbose wait_time b priv v w]
  consider (word) "j < 1023" | (pause) "j = 1023" "\<not> verbose" | (check) "j = 1023" verbose
    using Cons.prems(2) by linarith
  then show ?case
  proof cases
    case word
    then have "push_s10 verbose wait_time b priv vs (of_nat (j + 1)) ?w = (e, j', w')" "j + 1 < 1024"
      using Cons.prems(1) put by auto
    from Cons.IH [OF this] word show ?thesis by (auto simp: trace_writel intro: paced.word)
  next
    case pause
    then have "push_s10 verbose wait_time b priv vs (of_nat 0) (msleep b wait_time ?w) = (e, j', w')"
      using Cons.prems(1) put by auto
    from Cons.IH [OF this] pause show ?thesis by (auto simp: trace_simps intro: paced.pause)
  next
    case check
    then obtain u w1 where u: "readl b (reg_base priv + ALT_PR_CSR_OFST) ?w = (u, w1)"
      and p: "put_word_s10 verbose wait_time b priv v (of_nat j) w =
          (if csr_state_s10 u \<noteq> FPGA_PR_IP_STATE_WRITE then (True, 0, w1) else (False, 0, msleep b wait_time w1))"
      using put by auto
    note tr = trace_readlD [OF u]
    show ?thesis
    proof (cases "csr_state_s10 u = FPGA_PR_IP_STATE_WRITE")
      case True
      then have "push_s10 verbose wait_time b priv vs (of_nat 0) (msleep b wait_time w1) = (e, j', w')"
        using Cons.prems(1) p by auto
      from Cons.IH [OF this] check True tr show ?thesis by (auto simp: trace_simps intro: paced.checked)
    next
      case False
      then show ?thesis using Cons.prems(1) p check tr by (auto simp: trace_simps intro: paced.stopped)
    qed
  qed
qed

text \<open>The transfer, as the writers of both stacks are known to compute it.\<close>

lemma s10_transfer_follows:
  assumes "alt_pr_ip_fpga_state_s10 b priv w = (u, w0)"
    and "push_s10 verbose wait_time b priv (full_words bs) 0 w0 = (e, j', w1)"
    and "alt_pr_ip_fpga_state_s10 b priv (push_words b (reg_base priv) (le_words (rest_bytes bs)) w1) = (st, w2)"
  shows "\<exists>t. trace (if e then w1 else w2) = trace w @ t \<and> s10_pushes verbose wait_time (reg_base priv) bs
    (if e \<or> st = FPGA_PR_IP_STATE_WRITE_ERR then - EIO else 0) t"
proof -
  let ?a = "reg_base priv + ALT_PR_CSR_OFST"
  let ?w = "push_words b (reg_base priv) (le_words (rest_bytes bs)) w1"
  obtain x where x: "trace w0 = trace w @ [Read ?a x]"
    using assms(1) trace_readlD by (fastforce simp: alt_pr_ip_fpga_state_s10_def split: prod.splits)
  obtain y where y: "trace w2 = trace ?w @ [Read ?a y]" "st = csr_state_s10 y"
    using assms(3) trace_readlD by (fastforce simp: alt_pr_ip_fpga_state_s10_def split: prod.splits)
  obtain t1 where t1: "trace w1 = trace w0 @ t1" "paced verbose wait_time (reg_base priv) 0 (full_words bs) e t1"
    using push_s10_paced [of verbose wait_time b priv "full_words bs" 0 w0 e j' w1] assms(2) by auto
  show ?thesis
  proof (cases e)
    case True
    then have "s10_pushes verbose wait_time (reg_base priv) bs (- EIO) (Read ?a x # t1)"
      using t1(2) unfolding s10_pushes_def by (intro exI [of _ x] exI [of _ True] exI [of _ t1]) simp
    then show ?thesis using True x t1(1) by (intro exI [of _ "Read ?a x # t1"]) simp
  next
    case False
    let ?t = "Read ?a x # t1 @ map (Write (reg_base priv)) (le_words (rest_bytes bs)) @ [Read ?a y]"
    have "s10_pushes verbose wait_time (reg_base priv) bs (push_result csr_state_s10 y) ?t"
      using t1(2) False unfolding s10_pushes_def
      by (intro exI [of _ x] exI [of _ False] exI [of _ t1]) auto
    then show ?thesis using False x y t1(1)
      by (intro exI [of _ ?t]) (simp add: trace_push_words push_result_def)
  qed
qed

lemma s10_write_follows:
  assumes "file_has fp bs" "4 \<le> length bs" "length bs < 2 ^ 31"
  shows "\<exists>r t w'. alt_pr_ip_fpga_write_s10 verbose wait_time b priv buf0 fp w = Some (r, w') \<and>
     trace w' = trace w @ t \<and> s10_pushes verbose wait_time (reg_base priv) bs r t"
proof -
  obtain u w0 where u: "alt_pr_ip_fpga_state_s10 b priv w = (u, w0)" by fastforce
  obtain e j' w1 where p: "push_s10 verbose wait_time b priv (full_words bs) 0 w0 = (e, j', w1)"
    by (metis prod_cases3)
  obtain st w2 where st: "alt_pr_ip_fpga_state_s10 b priv
      (push_words b (reg_base priv) (le_words (rest_bytes bs)) w1) = (st, w2)" by fastforce
  show ?thesis using s10_transfer_follows [OF u p st]
    by (cases e) (auto simp: write_s10_file [OF assms] u p st)
qed

lemma s10_complete_follows:
  "\<exists>r t w'. alt_pr_ip_fpga_write_complete_s10 b priv tmo w = (r, w') \<and> trace w' = trace w @ t \<and>
     poll_outcome csr_state_s10 (reg_base priv + ALT_PR_CSR_OFST) (nat (tmo mod 2 ^ 32)) r t"
  using write_complete_loop_s10_outcome [of b priv "unat (word_of_int tmo :: u32)" w]
  by (simp add: alt_pr_ip_fpga_write_complete_s10_def unat_word_of_int_u32)

definition s10_protocol :: "bool \<Rightarrow> nat \<Rightarrow> u64 \<Rightarrow> core_protocol" where
  "s10_protocol verbose wait_time base = \<lparr>starts = s10_starts base, pushes = s10_pushes verbose wait_time base,
     ends = poll_outcome csr_state_s10 (base + ALT_PR_CSR_OFST)\<rparr>"

interpretation s10p: protocol_core "s10_ops verbose wait_time b buf0" operating_s10 "s10_protocol verbose wait_time"
  for verbose wait_time b buf0
  by unfold_locales
    (simp only: s10_protocol_def core_protocol.simps, erule s10_starts_cong [rotated], assumption,
     simp_all only: s10_protocol_def core_protocol.simps s10_ops_def pr_ip_ops.simps option.inject
       s10_init_follows s10_write_follows s10_complete_follows)

section \<open>Properties\<close>

text \<open>
  A Stratix 10 core that is busy when an image is started is never waited for: whatever
  status it shows afterwards, the wait polls 5000 times, sleeps a millisecond each time and ends in
  \<open>-ETIMEDOUT\<close>. A core that is not busy is accepted at the first look.
\<close>

theorem wait_for_initial_state_s10_polls:
  "\<exists>v vs w'. alt_pr_ip_wait_for_initial_state_s10 b priv w =
       (if v AND S10_STATUS_MSK = S10_STATUS_BUSY then - ETIMEDOUT else 0, w') \<and>
     length vs = (if v AND S10_STATUS_MSK = S10_STATUS_BUSY then 5000 else 0) \<and>
     trace w' = trace w @ Read (reg_base priv + ALT_PR_CSR_OFST) v #
       concat (map (\<lambda>v. [Read (reg_base priv + ALT_PR_CSR_OFST) v, Wait 1000]) vs)"
  by (rule wait_for_initial_state_s10_spec)

text \<open>
  The Stratix 10 \<open>alt_pr_ip_write_init\<close> sets the start bit, with one write, exactly when the
  image check passes and the core is not busy. An image that fails the check gives \<open>-EINVAL\<close>,
  a busy core \<open>-ETIMEDOUT\<close>, and neither is written to.
\<close>

theorem write_init_s10_starts_checked_image:
  "\<exists>x t r w'. image_check (reg_base priv) buf count x t \<and>
     alt_pr_ip_write_init_s10 b priv buf count w = (r, w') \<and>
     (case x of
        None \<Rightarrow> r = - EINVAL \<and> trace w' = trace w @ t
      | Some y \<Rightarrow> (\<exists>v t'. r = (if v AND S10_STATUS_MSK = S10_STATUS_BUSY then - ETIMEDOUT else 0) \<and>
          trace w' = trace w @ t @ Read (reg_base priv + ALT_PR_CSR_OFST) v # t' \<and>
          writes_of t' = (if v AND S10_STATUS_MSK = S10_STATUS_BUSY then []
                          else [(reg_base priv + ALT_PR_CSR_OFST, y OR ALT_PR_CSR_PR_START)])))"
  by (rule write_init_s10_spec)

text \<open>
  The Stratix 10 \<open>alt_pr_ip_fpga_write\<close> returns for every image of at least four bytes and less
  than 2 GiB. In the plain build it delivers all words of the image and sleeps \<open>WAIT_TIME\<close>
  milliseconds after each full 4096 bytes; in the verbose build it may stop early, with \<open>-EIO\<close> and a
  prefix of the words, and returns 0 only when all of them were delivered.
\<close>

theorem write_s10_delivers_image:
  assumes "file_has fp bs" and "4 \<le> length bs" and "length bs < 2 ^ 31"
  shows "\<exists>r w' ws. alt_pr_ip_fpga_write_s10 verbose wait_time b priv buf0 fp w = Some (r, w') \<and>
    data_words priv w' = data_words priv w @ ws \<and>
    (if verbose then prefix ws (le_words bs) \<and> (r = - EIO \<or> r = 0 \<and> ws = le_words bs)
     else ws = le_words bs \<and> (\<exists>u v t. trace w' = trace w @ Read (reg_base priv + ALT_PR_CSR_OFST) u # t @
         [Read (reg_base priv + ALT_PR_CSR_OFST) v] \<and>
       r = (if csr_state_s10 v = FPGA_PR_IP_STATE_WRITE_ERR then - EIO else 0) \<and>
       reads_of t = [] \<and> sleeps_of t = replicate (length bs div 4096) (1000 * wait_time)))"
  using assms by (rule write_s10_trace)

definition demo_core_s10 :: "unit bus" where
  "demo_core_s10 = \<lparr>bus_read = (\<lambda>a n. (S10_STATUS_PR_IN_PROG, n)),
     bus_write = (\<lambda>a v n. n), bus_wait = (\<lambda>_ n. n)\<rparr>"

definition demo_card_s10 :: fpga_pcie_priv where
  "demo_card_s10 = \<lparr>bar_addrs = (\<lambda>_. 0xf0000000), debugfs_root = 0, pci_dev = Some 0, pci_upstream_dev = Some 1,
     aer_uerr_mask_reg = 0, drv_st = ST_IDLE, config_state = FPGA_CONFIG_STATE_UNKNOWN,
     reg_base = 0xf0001000\<rparr>"

theorem write_s10_delivers_image_witness:
  "\<exists>r w'. alt_pr_ip_fpga_write_s10 False 5 demo_core_s10 demo_card_s10 (\<lambda>_. 0) (file_of (replicate 8193 1))
      \<lparr>dev = (), trace = []\<rparr> = Some (r, w') \<and>
    data_words demo_card_s10 w' = le_words (replicate 8193 1) \<and>
    (\<exists>u v t. trace w' = Read 0xf0001004 u # t @ [Read 0xf0001004 v] \<and> sleeps_of t = [5000, 5000])"
proof -
  have "4 \<le> length (replicate 8193 (1 :: u8))" "length (replicate 8193 (1 :: u8)) < 2 ^ 31" by simp_all
  from write_s10_delivers_image [OF file_has_file_of this, of False 5 demo_core_s10 demo_card_s10
      "\<lambda>_. 0" "\<lparr>dev = (), trace = []\<rparr>"]
  have "\<exists>r w' ws. alt_pr_ip_fpga_write_s10 False 5 demo_core_s10 demo_card_s10 (\<lambda>_. 0)
        (file_of (replicate 8193 1)) \<lparr>dev = (), trace = []\<rparr> = Some (r, w') \<and>
      data_words demo_card_s10 w' = ws \<and> ws = le_words (replicate 8193 1) \<and>
      (\<exists>u v t. trace w' = Read 0xf0001004 u # t @ [Read 0xf0001004 v] \<and>
        sleeps_of t = replicate 2 5000)"
    by (auto simp: data_words_def demo_card_s10_def ALT_PR_CSR_OFST_def)
  then show ?thesis by (simp add: numeral_2_eq_2)
qed

end
