(* ===== verification/Config_Load.thy ===== *)
theory Config_Load
  imports Pr_Ip_A10 Pr_Ip_S10
begin

text \<open>
  The configuration loader, \<open>fpga_config_buf_load\<close> of \<open>fpga-pcie.c\<close>: it takes the linked core
  through its three steps and records in the private data how far it came. The loader is proved
  once, against the contract of the core and against its protocol (\<open>load_run\<close>), and the results hold for
  both cores.
\<close>

section \<open>The loader\<close>

definition fpga_config_buf_load ::
  "'w pr_ip_ops \<Rightarrow> fpga_pcie_priv \<Rightarrow> int \<Rightarrow> cbuf \<Rightarrow> kfile \<Rightarrow> 'w \<Rightarrow> (int \<times> fpga_pcie_priv \<times> 'w) option"
  where
  "fpga_config_buf_load ops priv config_timeout buf0 fp w =
     (let (ret, buf) = kernel_read fp 0 buf0 1024
      in if ret \<noteq> 1024 then Some (0, priv, w)
         else do {
           let priv = priv\<lparr>config_state := FPGA_CONFIG_STATE_WRITE_INIT\<rparr>;
           (ret, w) \<leftarrow> ip_write_init ops priv buf 1024 w;
           if ret \<noteq> 0 then Some (ret, priv\<lparr>config_state := FPGA_CONFIG_STATE_WRITE_INIT_ERR\<rparr>, w)
           else do {
             let priv = priv\<lparr>config_state := FPGA_CONFIG_STATE_WRITE\<rparr>;
             (ret, w) \<leftarrow> ip_write ops priv fp w;
             if ret \<noteq> 0 then Some (ret, priv\<lparr>config_state := FPGA_CONFIG_STATE_WRITE_ERR\<rparr>, w)
             else do {
               let priv = priv\<lparr>config_state := FPGA_CONFIG_STATE_WRITE_COMPLETE\<rparr>;
               (ret, w) \<leftarrow> ip_write_complete ops priv config_timeout w;
               if ret \<noteq> 0
               then Some (ret, priv\<lparr>config_state := FPGA_CONFIG_STATE_WRITE_COMPLETE_ERR\<rparr>, w)
               else Some (0, priv\<lparr>config_state := FPGA_CONFIG_STATE_OPERATING\<rparr>, w)
             }
           }
         })"

section \<open>What a load does\<close>

text \<open>
  The outcome of a load of the image \<open>bs\<close>, which has been started: the state says where it ended,
  \<open>ws\<close> are the words the core has received.
\<close>

inductive load_outcome :: "u8 list \<Rightarrow> int \<Rightarrow> fpga_config_states \<Rightarrow> u32 list \<Rightarrow> bool \<Rightarrow> bool"
  for bs :: "u8 list" where
  init_err: "r < 0 \<Longrightarrow> load_outcome bs r FPGA_CONFIG_STATE_WRITE_INIT_ERR [] oper"
| write_err: "r < 0 \<Longrightarrow> prefix ws (le_words bs) \<Longrightarrow>
    load_outcome bs r FPGA_CONFIG_STATE_WRITE_ERR ws oper"
| complete_err: "r < 0 \<Longrightarrow> load_outcome bs r FPGA_CONFIG_STATE_WRITE_COMPLETE_ERR (le_words bs) oper"
| operating: "load_outcome bs 0 FPGA_CONFIG_STATE_OPERATING (le_words bs) True"

inductive_cases load_outcomeE: "load_outcome bs r st ws oper"

lemma load_outcome_prefix: "load_outcome bs r st ws oper \<Longrightarrow> prefix ws (le_words bs)"
  by (auto elim: load_outcomeE)

lemma load_outcome_iff:
  "load_outcome bs r st ws oper \<Longrightarrow> r = 0 \<longleftrightarrow> st = FPGA_CONFIG_STATE_OPERATING"
  "load_outcome bs r st ws oper \<Longrightarrow> st = FPGA_CONFIG_STATE_OPERATING \<Longrightarrow> ws = le_words bs \<and> oper"
  by (auto elim: load_outcomeE)

context pr_ip_core
begin

lemma short_file:
  assumes "file_has fp bs" and "length bs < 1024"
  shows "fpga_config_buf_load ops priv tmo buf0 fp w = Some (0, priv, w)"
  using kernel_read_file [OF assms(1), of 0 buf0 1024] assms(2)
  by (simp add: fpga_config_buf_load_def)

lemma load_file:
  assumes fp: "file_has fp bs" and len: "1024 \<le> length bs" "length bs < 2 ^ 31"
  shows "\<exists>r st ws w'. fpga_config_buf_load ops priv tmo buf0 fp w =
      Some (r, priv\<lparr>config_state := st\<rparr>, w') \<and>
    data priv w' = data priv w @ ws \<and> load_outcome bs r st ws (operating priv w')"
proof -
  obtain buf where buf: "kernel_read fp 0 buf0 1024 = (1024, buf)"
    using kernel_read_file [OF fp, of 0 buf0 1024] len by simp
  let ?p = "\<lambda>st. priv\<lparr>config_state := st\<rparr>"
  obtain r1 w1 where 1: "ip_write_init ops (?p FPGA_CONFIG_STATE_WRITE_INIT) buf 1024 w = Some (r1, w1)"
    "r1 \<le> 0" "data priv w1 = data priv w"
    using init_law [of "?p FPGA_CONFIG_STATE_WRITE_INIT" buf 1024 w] by (auto simp: data_state)
  have "4 \<le> length bs" using len by simp
  from write_law [OF fp this len(2), of "?p FPGA_CONFIG_STATE_WRITE" w1] obtain r2 w2 ws where
    2: "ip_write ops (?p FPGA_CONFIG_STATE_WRITE) fp w1 = Some (r2, w2)"
    "r2 \<le> 0" "data priv w2 = data priv w1 @ ws" "prefix ws (le_words bs)" "r2 = 0 \<longrightarrow> ws = le_words bs"
    by (auto simp: data_state)
  obtain r3 w3 where 3:
    "ip_write_complete ops (?p FPGA_CONFIG_STATE_WRITE_COMPLETE) tmo w2 = Some (r3, w3)"
    "r3 \<le> 0" "data priv w3 = data priv w2" "r3 = 0 \<longrightarrow> operating priv w3"
    using complete_law [of "?p FPGA_CONFIG_STATE_WRITE_COMPLETE" tmo w2]
    by (auto simp: data_state operating_state)
  note run = fpga_config_buf_load_def buf
  consider (init) "r1 \<noteq> 0" | (copy) "r1 = 0" "r2 \<noteq> 0" | (compl) "r1 = 0" "r2 = 0" "r3 \<noteq> 0"
    | (fine) "r1 = 0" "r2 = 0" "r3 = 0" by blast
  then show ?thesis
  proof cases
    case init
    then show ?thesis using 1 load_outcome.init_err [of r1 bs]
      by (intro exI [of _ r1] exI [of _ FPGA_CONFIG_STATE_WRITE_INIT_ERR] exI [of _ "[]"] exI [of _ w1])
        (simp add: run)
  next
    case copy
    then show ?thesis using 1 2 load_outcome.write_err [of r2 ws bs]
      by (intro exI [of _ r2] exI [of _ FPGA_CONFIG_STATE_WRITE_ERR] exI [of _ "ws"] exI [of _ w2])
        (simp add: run)
  next
    case compl
    then show ?thesis using 1 2 3 load_outcome.complete_err [of r3 bs]
      by (intro exI [of _ r3] exI [of _ FPGA_CONFIG_STATE_WRITE_COMPLETE_ERR] exI [of _ "le_words bs"] exI [of _ w3])
        (simp add: run)
  next
    case fine
    then show ?thesis using 1 2 3 load_outcome.operating [of bs]
      by (intro exI [of _ 0] exI [of _ FPGA_CONFIG_STATE_OPERATING] exI [of _ "le_words bs"] exI [of _ w3])
        (simp add: run)
  qed
qed

end

section \<open>What a load does on the bus\<close>

text \<open>
  The accesses of a load of the image \<open>bs\<close>, whose first \<open>n\<close> bytes are in \<open>buf\<close>, under the protocol of a
  core: the steps follow each other, a step is taken only when the ones before it returned 0, and the
  state names the step that did not. The result is that of the last step, and each step obeys the
  protocol, so a load can fail only for a reason that the protocol names.
\<close>

inductive load_run ::
  "core_protocol \<Rightarrow> cbuf \<Rightarrow> nat \<Rightarrow> u8 list \<Rightarrow> nat \<Rightarrow> int \<Rightarrow> fpga_config_states \<Rightarrow> io_event list \<Rightarrow> bool"
  for P :: core_protocol and buf :: cbuf and n :: nat and bs :: "u8 list" and tmo :: nat where
  refused: "starts P buf n r t \<Longrightarrow> r \<noteq> 0 \<Longrightarrow> load_run P buf n bs tmo r FPGA_CONFIG_STATE_WRITE_INIT_ERR t"
| broken: "starts P buf n 0 t1 \<Longrightarrow> pushes P bs r t2 \<Longrightarrow> r \<noteq> 0 \<Longrightarrow>
    load_run P buf n bs tmo r FPGA_CONFIG_STATE_WRITE_ERR (t1 @ t2)"
| unfinished: "starts P buf n 0 t1 \<Longrightarrow> pushes P bs 0 t2 \<Longrightarrow> ends P tmo r t3 \<Longrightarrow> r \<noteq> 0 \<Longrightarrow>
    load_run P buf n bs tmo r FPGA_CONFIG_STATE_WRITE_COMPLETE_ERR (t1 @ t2 @ t3)"
| loaded: "starts P buf n 0 t1 \<Longrightarrow> pushes P bs 0 t2 \<Longrightarrow> ends P tmo 0 t3 \<Longrightarrow>
    load_run P buf n bs tmo 0 FPGA_CONFIG_STATE_OPERATING (t1 @ t2 @ t3)"

lemma load_run_result: "load_run P buf n bs tmo r st t \<Longrightarrow> r = 0 \<longleftrightarrow> st = FPGA_CONFIG_STATE_OPERATING"
  by (induction rule: load_run.induct) auto

context protocol_core
begin

lemma load_follows:
  assumes fp: "file_has fp bs" and len: "1024 \<le> length bs" "length bs < 2 ^ 31"
  shows "\<exists>r st t w'. fpga_config_buf_load ops priv tmo buf0 fp w = Some (r, priv\<lparr>config_state := st\<rparr>, w') \<and>
    trace w' = trace w @ t \<and>
    load_run (protocol (reg_base priv)) ((!) bs) 1024 bs (nat (tmo mod 2 ^ 32)) r st t"
proof -
  let ?P = "protocol (reg_base priv)" and ?n = "nat (tmo mod 2 ^ 32)"
  obtain buf where buf: "kernel_read fp 0 buf0 1024 = (1024, buf)" "\<And>i. i < 1024 \<Longrightarrow> buf i = bs ! i"
    using kernel_read_file [OF fp, of 0 buf0 1024] len by simp
  let ?p = "\<lambda>st. priv\<lparr>config_state := st\<rparr>"
  obtain r1 t1 w1 where 1: "ip_write_init ops (?p FPGA_CONFIG_STATE_WRITE_INIT) buf 1024 w = Some (r1, w1)"
    "trace w1 = trace w @ t1" "starts ?P ((!) bs) 1024 r1 t1"
    using init_follows [of "?p FPGA_CONFIG_STATE_WRITE_INIT" buf 1024 w] starts_cong [OF buf(2)] by auto
  have "4 \<le> length bs" using len by simp
  from write_follows [OF fp this len(2), of "?p FPGA_CONFIG_STATE_WRITE" w1] obtain r2 t2 w2 where
    2: "ip_write ops (?p FPGA_CONFIG_STATE_WRITE) fp w1 = Some (r2, w2)"
    "trace w2 = trace w1 @ t2" "pushes ?P bs r2 t2" by auto
  obtain r3 t3 w3 where 3:
    "ip_write_complete ops (?p FPGA_CONFIG_STATE_WRITE_COMPLETE) tmo w2 = Some (r3, w3)"
    "trace w3 = trace w2 @ t3" "ends ?P ?n r3 t3"
    using complete_follows [of "?p FPGA_CONFIG_STATE_WRITE_COMPLETE" tmo w2] by auto
  note run = fpga_config_buf_load_def buf(1)
  consider (init) "r1 \<noteq> 0" | (copy) "r1 = 0" "r2 \<noteq> 0" | (compl) "r1 = 0" "r2 = 0" "r3 \<noteq> 0"
    | (fine) "r1 = 0" "r2 = 0" "r3 = 0" by blast
  then show ?thesis
  proof cases
    case init
    then show ?thesis using 1 load_run.refused [OF 1(3) init]
      by (intro exI [of _ r1] exI [of _ FPGA_CONFIG_STATE_WRITE_INIT_ERR] exI [of _ t1] exI [of _ w1])
        (simp add: run)
  next
    case copy
    then show ?thesis using 1 2 load_run.broken [OF _ 2(3) copy(2)]
      by (intro exI [of _ r2] exI [of _ FPGA_CONFIG_STATE_WRITE_ERR] exI [of _ "t1 @ t2"] exI [of _ w2])
        (simp add: run)
  next
    case compl
    then show ?thesis using 1 2 3 load_run.unfinished [OF _ _ 3(3) compl(3)]
      by (intro exI [of _ r3] exI [of _ FPGA_CONFIG_STATE_WRITE_COMPLETE_ERR] exI [of _ "t1 @ t2 @ t3"] exI [of _ w3])
        (simp add: run)
  next
    case fine
    then show ?thesis using 1 2 3 load_run.loaded
      by (intro exI [of _ 0] exI [of _ FPGA_CONFIG_STATE_OPERATING] exI [of _ "t1 @ t2 @ t3"] exI [of _ w3])
        (simp add: run)
  qed
qed

lemma load_protocol:
  assumes fp: "file_has fp bs" and len: "1024 \<le> length bs" "length bs < 2 ^ 31"
  shows "\<exists>r st t w'. fpga_config_buf_load ops priv tmo buf0 fp w = Some (r, priv\<lparr>config_state := st\<rparr>, w') \<and>
    trace w' = trace w @ t \<and>
    load_run (protocol (reg_base priv)) ((!) bs) 1024 bs (nat (tmo mod 2 ^ 32)) r st t \<and>
    prefix (writes_to (reg_base priv) t) (le_words bs) \<and>
    (r \<noteq> 0 \<or> take (length bs) (concat (map word_bytes (writes_to (reg_base priv) t))) = bs \<and> operating priv w')"
proof -
  obtain r st t w' where 1: "fpga_config_buf_load ops priv tmo buf0 fp w = Some (r, priv\<lparr>config_state := st\<rparr>, w')"
    "trace w' = trace w @ t"
    "load_run (protocol (reg_base priv)) ((!) bs) 1024 bs (nat (tmo mod 2 ^ 32)) r st t"
    using load_follows [OF assms] by blast
  obtain st' ws where 2: "data_words priv w' = data_words priv w @ ws" "load_outcome bs r st' ws (operating priv w')"
    using load_file [OF assms, of priv tmo buf0 w] 1(1) by auto
  have ws: "ws = writes_to (reg_base priv) t" using 1(2) 2(1) by (simp add: data_words_def)
  show ?thesis using 1 load_outcome_prefix [OF 2(2)] load_outcome_iff [OF 2(2)] le_words_bytes [of bs]
    unfolding ws by metis
qed

end

section \<open>Properties\<close>

text \<open>
  C1. A load on an Arria 10 card of an image of at least 1024 bytes and less than 2 GiB returns, and it is a
  run of the core's protocol. The image check must pass, or the result is \<open>-EINVAL\<close> and nothing has been
  written; all the words of the image go to the data register, and the result is \<open>-EIO\<close> when the
  status read after them shows an error; the status is then read at most as often as the timeout,
  modulo \<open>2 ^ 32\<close>, says, and the result is 0 or \<open>-EIO\<close> at the first look that shows success or an error, and
  \<open>-ETIMEDOUT\<close> only when none of them showed either. No other access is made, the configuration state
  names the step that failed, and the result is 0 exactly when it is OPERATING; then the bytes of the words
  sent are the image and the last status read showed success.
\<close>

theorem load_a10_follows_protocol:
  assumes "file_has fp bs" and "1024 \<le> length bs" and "length bs < 2 ^ 31"
  shows "\<exists>r st t w'. fpga_config_buf_load (a10_ops b buf0) priv tmo buf1 fp w =
      Some (r, priv\<lparr>config_state := st\<rparr>, w') \<and> trace w' = trace w @ t \<and>
    load_run (a10_protocol (reg_base priv)) ((!) bs) 1024 bs (nat (tmo mod 2 ^ 32)) r st t \<and>
    (r = 0 \<longleftrightarrow> st = FPGA_CONFIG_STATE_OPERATING) \<and>
    prefix (writes_to (reg_base priv) t) (le_words bs) \<and>
    (r \<noteq> 0 \<or> take (length bs) (concat (map word_bytes (writes_to (reg_base priv) t))) = bs \<and> operating_a10 priv w')"
  using a10p.load_protocol [OF assms, of b buf0 priv tmo buf1 w] load_run_result by blast

theorem load_a10_follows_protocol_witness:
  "\<exists>r st t w'. fpga_config_buf_load (a10_ops demo_core (\<lambda>_. 0)) demo_card 10000 (\<lambda>_. 0)
      (file_of (replicate 2000 7)) \<lparr>dev = 0, trace = []\<rparr> = Some (r, demo_card\<lparr>config_state := st\<rparr>, w') \<and>
    trace w' = t \<and> load_run (a10_protocol 0xf0001000) ((!) (replicate 2000 7)) 1024 (replicate 2000 7) 10000 r st t"
proof -
  have "1024 \<le> length (replicate 2000 (7 :: u8))" "length (replicate 2000 (7 :: u8)) < 2 ^ 31" by simp_all
  from load_a10_follows_protocol [OF file_has_file_of this, of demo_core "\<lambda>_. 0" demo_card 10000
      "\<lambda>_. 0" "\<lparr>dev = 0, trace = []\<rparr>"]
  show ?thesis by (auto simp: demo_card_def)
qed

text \<open>
  C2. The same of a load on a Stratix 10 card under its protocol, in either build and with any pause. After the
  check the core must not be busy, or it is watched for 5000 looks and the result is \<open>-ETIMEDOUT\<close>. The
  transfer pauses after every 1024 words. In the verbose build it looks at the status before each pause and stops
  with \<open>-EIO\<close> unless the core is in the state of a write, so there an error can also follow a prefix of the image,
  which may be all of it.
\<close>

theorem load_s10_follows_protocol:
  assumes "file_has fp bs" and "1024 \<le> length bs" and "length bs < 2 ^ 31"
  shows "\<exists>r st t w'. fpga_config_buf_load (s10_ops verbose wait_time b buf0) priv tmo buf1 fp w =
      Some (r, priv\<lparr>config_state := st\<rparr>, w') \<and> trace w' = trace w @ t \<and>
    load_run (s10_protocol verbose wait_time (reg_base priv)) ((!) bs) 1024 bs (nat (tmo mod 2 ^ 32)) r st t \<and>
    (r = 0 \<longleftrightarrow> st = FPGA_CONFIG_STATE_OPERATING) \<and>
    prefix (writes_to (reg_base priv) t) (le_words bs) \<and>
    (r \<noteq> 0 \<or> take (length bs) (concat (map word_bytes (writes_to (reg_base priv) t))) = bs \<and> operating_s10 priv w')"
  using s10p.load_protocol [OF assms, of verbose wait_time b buf0 priv tmo buf1 w] load_run_result by blast

theorem load_s10_follows_protocol_witness:
  "\<exists>r st t w'. fpga_config_buf_load (s10_ops True 5 demo_core_s10 (\<lambda>_. 0)) demo_card_s10 10 (\<lambda>_. 0)
      (file_of (replicate 5000 7)) \<lparr>dev = (), trace = []\<rparr> =
        Some (r, demo_card_s10\<lparr>config_state := st\<rparr>, w') \<and> trace w' = t \<and>
    load_run (s10_protocol True 5 0xf0001000) ((!) (replicate 5000 7)) 1024 (replicate 5000 7) 10 r st t"
proof -
  have "1024 \<le> length (replicate 5000 (7 :: u8))" "length (replicate 5000 (7 :: u8)) < 2 ^ 31" by simp_all
  from load_s10_follows_protocol [OF file_has_file_of this, of True 5 demo_core_s10 "\<lambda>_. 0"
      demo_card_s10 10 "\<lambda>_. 0" "\<lparr>dev = (), trace = []\<rparr>"]
  show ?thesis by (auto simp: demo_card_s10_def)
qed

text \<open>
  The timeout is the caller's: with a timeout of 0 an Arria 10 load that has sent the whole image without an
  error is reported as \<open>-ETIMEDOUT\<close>, whatever the core shows.
\<close>

theorem zero_timeout_fails:
  "alt_pr_ip_fpga_write_complete_a10 b priv 0 w = (- ETIMEDOUT, w)"
  by (simp add: alt_pr_ip_fpga_write_complete_a10_def)

text \<open>
  A file of fewer than 1024 bytes is not loaded and yet reported as a success: the loader
  returns 0 without a register access and without a change of the configuration state.
\<close>

theorem load_short_file_reports_success:
  assumes "file_has fp bs" and "length bs < 1024"
  shows "fpga_config_buf_load (a10_ops b buf0) priv tmo buf1 fp w = Some (0, priv, w) \<and>
    fpga_config_buf_load (s10_ops verbose wait_time b' buf0) priv tmo buf1 fp w' = Some (0, priv, w')"
  by (simp add: a10.short_file [OF assms] s10.short_file [OF assms])

theorem load_short_file_reports_success_witness:
  "fpga_config_buf_load (a10_ops demo_core (\<lambda>_. 0)) demo_card 10000 (\<lambda>_. 0) (file_of [1, 2, 3])
     \<lparr>dev = 0, trace = []\<rparr> = Some (0, demo_card, \<lparr>dev = 0, trace = []\<rparr>)"
  by (rule load_short_file_reports_success [THEN conjunct1, OF file_has_file_of]) simp

end
