(* ===== verification/Core_Access.thy ===== *)
theory Core_Access
  imports Config_Load
begin

text \<open>
  Where the drivers of the PR IP cores go: a run of an operation of a core is a sequence of accesses to the
  core's own registers and of delays. What the rest of the card does meanwhile follows from this, whatever the
  device behind the bus.
\<close>

section \<open>Accesses to a set of registers\<close>

inductive access :: "('h, 'z) bus_scheme \<Rightarrow> u64 set \<Rightarrow> 'h world \<Rightarrow> 'h world \<Rightarrow> bool"
  for b :: "('h, 'z) bus_scheme" and A :: "u64 set" where
  readw: "a \<in> A \<Longrightarrow> readl b a w = (v, w') \<Longrightarrow> access b A w w'"
| writew: "a \<in> A \<Longrightarrow> access b A w (writel b v a w)"
| waitw: "access b A w (udelay b n w)"

abbreviation touches :: "('h, 'z) bus_scheme \<Rightarrow> u64 set \<Rightarrow> 'h world \<Rightarrow> 'h world \<Rightarrow> bool" where
  "touches b A \<equiv> (access b A)\<^sup>*\<^sup>*"

lemma touch_trans [trans]: "touches b A w w' \<Longrightarrow> touches b A w' w'' \<Longrightarrow> touches b A w w''"
  by (rule rtranclp_trans)

lemma touch_readl: "readl b a w = (v, w') \<Longrightarrow> a \<in> A \<Longrightarrow> touches b A w w'"
  by (blast intro: access.readw)

lemma touch_writel [simp]: "a \<in> A \<Longrightarrow> touches b A w (writel b v a w)"
  by (blast intro: access.writew)

lemma touch_udelay [simp]: "touches b A w (udelay b n w)"
  by (blast intro: access.waitw)

lemma touch_msleep [simp]: "touches b A w (msleep b n w)"
  by (simp add: msleep_def)

lemma touches_mmio: "touches b A w w' \<Longrightarrow> mmio_step w w'"
proof (induction rule: rtranclp_induct)
  case (step w1 w2)
  from step(2) have "mmio_step w1 w2" by cases (auto dest: mmio_step_readl)
  with step.IH show ?case by (rule mmio_step_trans)
qed simp

text \<open>A property of the device that every access to these registers keeps.\<close>

definition keeps :: "('h, 'z) bus_scheme \<Rightarrow> u64 set \<Rightarrow> ('h \<Rightarrow> bool) \<Rightarrow> bool" where
  "keeps b A P \<longleftrightarrow> (\<forall>h. P h \<longrightarrow>
     (\<forall>a\<in>A. P (snd (bus_read b a h)) \<and> (\<forall>v. P (bus_write b a v h))) \<and> (\<forall>n. P (bus_wait b n h)))"

lemma access_keeps: "access b A w w' \<Longrightarrow> keeps b A P \<Longrightarrow> P (dev w) \<Longrightarrow> P (dev w')"
  unfolding keeps_def
proof (induction rule: access.induct)
  case (readw a w v w')
  then have "dev w' = snd (bus_read b a (dev w))" by (auto simp: readl_def split: prod.splits)
  with readw show ?case by simp
qed (simp_all add: writel_def udelay_def)

lemma touches_keeps: "touches b A w w' \<Longrightarrow> keeps b A P \<Longrightarrow> P (dev w) \<Longrightarrow> P (dev w')"
  by (induction rule: rtranclp_induct) (auto intro: access_keeps)

section \<open>The cores\<close>

definition core_regs :: "fpga_pcie_priv \<Rightarrow> u64 set" where
  "core_regs priv = {reg_base priv, reg_base priv + ALT_PR_CSR_OFST, reg_base priv + ALT_PR_VER_OFST, reg_base priv + ALT_PR_POF_ID_OFST}"

lemma core_regs_simps [simp]:
  "reg_base priv \<in> core_regs priv" "reg_base priv + ALT_PR_CSR_OFST \<in> core_regs priv"
  "reg_base priv + ALT_PR_VER_OFST \<in> core_regs priv" "reg_base priv + ALT_PR_POF_ID_OFST \<in> core_regs priv"
  "core_regs (priv\<lparr>config_state := st\<rparr>) = core_regs priv"
  by (simp_all add: core_regs_def)

lemma state_a10_touches: "alt_pr_ip_fpga_state_a10 b priv w = (st, w') \<Longrightarrow> touches b (core_regs priv) w w'"
  by (auto simp: alt_pr_ip_fpga_state_a10_def split: prod.splits intro: touch_readl)

lemma state_s10_touches: "alt_pr_ip_fpga_state_s10 b priv w = (st, w') \<Longrightarrow> touches b (core_regs priv) w w'"
  by (auto simp: alt_pr_ip_fpga_state_s10_def split: prod.splits intro: touch_readl)

lemma write_rest_touches: "write_rest b (reg_base priv) ret buf w = Some w' \<Longrightarrow> touches b (core_regs priv) w w'"
  by (auto simp: write_rest_def split: if_splits)

lemma do_while_touches:
  assumes "do_while c P s = Some s'" and "\<And>s. touches b A (f s) (f (c s))"
  shows "touches b A (f s) (f s')"
  using assms(1) by (induction rule: do_while_induct) (auto intro: touch_trans assms(2))

lemma write_round_a10_touches:
  "touches b (core_regs priv) (snd (snd (snd s))) (snd (snd (snd (write_round_a10 b priv fp s))))"
  by (simp add: write_round_a10_def Let_def case_prod_beta)

lemma write_a10_touches: "alt_pr_ip_fpga_write_a10 b priv buf0 fp w = Some (r, w') \<Longrightarrow> touches b (core_regs priv) w w'"
proof -
  assume "alt_pr_ip_fpga_write_a10 b priv buf0 fp w = Some (r, w')"
  then obtain ret buf off ret' buf' w1 where
    loop: "do_while (write_round_a10 b priv fp) (\<lambda>(_, ret, _, _). ret \<ge> 4) (0, ret, buf, w) =
      Some (off, ret', buf', w1)"
    and rest: "(case write_rest b (reg_base priv) ret' buf' w1 of
             None \<Rightarrow> Some (- EFAULT, w1)
           | Some w \<Rightarrow>
               let (st, w) = alt_pr_ip_fpga_state_a10 b priv w
               in if st = FPGA_PR_IP_STATE_WRITE_ERR then Some (- EIO, w) else Some (0, w)) = Some (r, w')"
    by (auto simp: alt_pr_ip_fpga_write_a10_def Let_def bind_eq_Some_conv split: prod.splits)
  have "touches b (core_regs priv) w w1"
    using do_while_touches [OF loop, of b "core_regs priv" "\<lambda>s. snd (snd (snd s))", OF write_round_a10_touches] by simp
  moreover have "touches b (core_regs priv) w1 w'" using rest
    by (auto split: option.splits prod.splits if_splits intro: touch_trans dest!: write_rest_touches state_a10_touches)
  ultimately show ?thesis by (rule touch_trans)
qed

lemma put_word_s10_touches: "put_word_s10 vb wt b priv v j w = (e, j', w') \<Longrightarrow> touches b (core_regs priv) w w'"
proof -
  assume run: "put_word_s10 vb wt b priv v j w = (e, j', w')"
  let ?w = "writel b v (reg_base priv) w"
  obtain st w1 where st: "alt_pr_ip_fpga_state_s10 b priv ?w = (st, w1)" by fastforce
  have p: "touches b (core_regs priv) w ?w" by simp
  then have "touches b (core_regs priv) w w1" using state_s10_touches [OF st] by (rule touch_trans)
  with p have "touches b (core_regs priv) w w1" "touches b (core_regs priv) w (msleep b wt w1)"
    "touches b (core_regs priv) w (msleep b wt ?w)" by (meson touch_trans touch_msleep)+
  with p show ?thesis using run by (auto simp: put_word_s10_def st Let_def split: if_splits)
qed

lemma write_round_s10_touches:
  "touches b (core_regs priv) (snd (snd (snd (snd (snd s)))))
     (snd (snd (snd (snd (snd (write_round_s10 vb wt b priv fp s))))))"
proof -
  obtain e j off ret buf w where s: "s = (e, j, off, ret, buf, w)" by (metis prod.exhaust)
  obtain e' j' w' where p: "put_word_s10 vb wt b priv (buf32 buf 0) j w = (e', j', w')" by (metis prod_cases3)
  show ?thesis using put_word_s10_touches [OF p] by (simp add: write_round_s10_def s p Let_def case_prod_beta)
qed

lemma write_s10_touches: "alt_pr_ip_fpga_write_s10 vb wt b priv buf0 fp w = Some (r, w') \<Longrightarrow> touches b (core_regs priv) w w'"
proof -
  assume run: "alt_pr_ip_fpga_write_s10 vb wt b priv buf0 fp w = Some (r, w')"
  obtain st w0 where st: "alt_pr_ip_fpga_state_s10 b priv w = (st, w0)" by fastforce
  obtain ret buf where rd: "kernel_read fp (sint (0 :: u32)) buf0 4 = (ret, buf)" by fastforce
  from run obtain eio j off ret' buf' w1 where
    loop: "do_while (write_round_s10 vb wt b priv fp) (\<lambda>(eio, _, _, ret, _, _). \<not> eio \<and> ret \<ge> 4)
      (False, 0, 0, ret, buf, w0) = Some (eio, j, off, ret', buf', w1)"
    and rest: "(if eio then Some (- EIO, w1)
           else case write_rest b (reg_base priv) ret' buf' w1 of
             None \<Rightarrow> Some (- EFAULT, w1)
           | Some w \<Rightarrow>
               let (st, w) = alt_pr_ip_fpga_state_s10 b priv w
               in if st = FPGA_PR_IP_STATE_WRITE_ERR then Some (- EIO, w) else Some (0, w)) = Some (r, w')"
    unfolding alt_pr_ip_fpga_write_s10_def st rd Let_def prod.case bind_eq_Some_conv
    by (elim exE conjE) (simp only: split_paired_all prod.case)
  have "touches b (core_regs priv) w w0" by (rule state_s10_touches [OF st])
  also have "touches b (core_regs priv) w0 w1"
    using do_while_touches [OF loop, of b "core_regs priv" "\<lambda>s. snd (snd (snd (snd (snd s))))", OF write_round_s10_touches] by simp
  also have "touches b (core_regs priv) w1 w'" using rest
    by (auto split: option.splits prod.splits if_splits intro: touch_trans dest!: write_rest_touches state_s10_touches)
  finally show ?thesis .
qed

lemma complete_a10_touches: "write_complete_loop_a10 b priv n w = (r, w') \<Longrightarrow> touches b (core_regs priv) w w'"
proof (induction n arbitrary: w)
  case (Suc n)
  obtain st w1 where st: "alt_pr_ip_fpga_state_a10 b priv w = (st, w1)" by fastforce
  have "touches b (core_regs priv) w w'" if "write_complete_loop_a10 b priv n (udelay b 1 w1) = (r, w')"
    using state_a10_touches [OF st] touch_udelay Suc.IH [OF that] by (blast intro: touch_trans)
  then show ?case using Suc.prems state_a10_touches [OF st] by (auto simp: st split: if_splits)
qed auto

lemma complete_s10_touches: "write_complete_loop_s10 b priv n w = (r, w') \<Longrightarrow> touches b (core_regs priv) w w'"
proof (induction n arbitrary: w)
  case (Suc n)
  obtain st w1 where st: "alt_pr_ip_fpga_state_s10 b priv (msleep b 200 w) = (st, w1)" by fastforce
  have t: "touches b (core_regs priv) w w1" using touch_msleep state_s10_touches [OF st] by (rule touch_trans)
  moreover have "touches b (core_regs priv) w w'" if "write_complete_loop_s10 b priv n (udelay b 1 w1) = (r, w')"
    using t touch_udelay Suc.IH [OF that] by (blast intro: touch_trans)
  ultimately show ?case using Suc.prems by (auto simp: st split: if_splits)
qed auto

text \<open>The reads that check an image, on either core.\<close>

lemma checks_touch:
  assumes "readl b (reg_base priv + ALT_PR_CSR_OFST) w = (v, w1)" and "readl b (reg_base priv + ALT_PR_VER_OFST) w1 = (x, w2)"
    and "readl b (reg_base priv + ALT_PR_POF_ID_OFST) w2 = (p, w3)"
  shows "touches b (core_regs priv) w w1" "touches b (core_regs priv) w w2" "touches b (core_regs priv) w w3"
proof -
  note t = assms [THEN touch_readl, where A = "core_regs priv", simplified]
  show "touches b (core_regs priv) w w1" by (rule t)
  also note t(2) finally show 2: "touches b (core_regs priv) w w2" .
  show "touches b (core_regs priv) w w3" using 2 t(3) by (rule touch_trans)
qed

lemma touch_then_writel: "touches b A w w' \<Longrightarrow> a \<in> A \<Longrightarrow> touches b A w (writel b v a w')"
  by (blast intro: access.writew rtranclp.rtrancl_into_rtrancl)

lemma init_a10_touches: "alt_pr_ip_write_init_a10 b priv buf n w = (r, w') \<Longrightarrow> touches b (core_regs priv) w w'"
proof -
  obtain v w1 where v: "readl b (reg_base priv + ALT_PR_CSR_OFST) w = (v, w1)" by fastforce
  obtain x w2 where x: "readl b (reg_base priv + ALT_PR_VER_OFST) w1 = (x, w2)" by fastforce
  obtain p w3 where p: "readl b (reg_base priv + ALT_PR_POF_ID_OFST) w2 = (p, w3)" by fastforce
  note t = checks_touch [OF v x p]
  show "touches b (core_regs priv) w w'" if "alt_pr_ip_write_init_a10 b priv buf n w = (r, w')"
    using that t by (auto simp: alt_pr_ip_write_init_a10_def v x p Let_def touch_then_writel split: if_splits)
qed

lemma wait_initial_s10_touches: "wait_initial_loop_s10 b priv n v w = (r, w') \<Longrightarrow> touches b (core_regs priv) w w'"
proof (induction n arbitrary: v w)
  case (Suc n)
  obtain u w1 where u: "readl b (reg_base priv + ALT_PR_CSR_OFST) w = (u, w1)" by fastforce
  have t: "touches b (core_regs priv) w (msleep b 1 w1)"
    using touch_readl [OF u] touch_msleep by (meson core_regs_simps touch_trans)
  moreover have "touches b (core_regs priv) (msleep b 1 w1) w'"
    if "wait_initial_loop_s10 b priv n (u AND S10_STATUS_MSK) (msleep b 1 w1) = (r, w')"
    using that by (rule Suc.IH)
  ultimately show ?case using Suc.prems by (auto simp: u split: if_splits intro: touch_trans)
qed simp

lemma wait_for_initial_state_s10_touches:
  "alt_pr_ip_wait_for_initial_state_s10 b priv w = (r, w') \<Longrightarrow> touches b (core_regs priv) w w'"
  by (auto simp: alt_pr_ip_wait_for_initial_state_s10_def Let_def split: prod.splits if_splits
      dest!: touch_readl [where A = "core_regs priv"] wait_initial_s10_touches intro: touch_trans)

lemma write_init_start_s10_touches: "write_init_start_s10 b priv v w = (r, w') \<Longrightarrow> touches b (core_regs priv) w w'"
  by (auto simp: write_init_start_s10_def split: prod.splits if_splits
      dest!: wait_for_initial_state_s10_touches state_s10_touches intro: touch_trans touch_writel)

lemma init_s10_touches: "alt_pr_ip_write_init_s10 b priv buf n w = (r, w') \<Longrightarrow> touches b (core_regs priv) w w'"
proof -
  obtain v w1 where v: "readl b (reg_base priv + ALT_PR_CSR_OFST) w = (v, w1)" by fastforce
  obtain x w2 where x: "readl b (reg_base priv + ALT_PR_VER_OFST) w1 = (x, w2)" by fastforce
  obtain p w3 where p: "readl b (reg_base priv + ALT_PR_POF_ID_OFST) w2 = (p, w3)" by fastforce
  note t = checks_touch [OF v x p]
  have "touches b (core_regs priv) w w''" if "write_init_start_s10 b priv y w2 = (r, w'')
      \<or> write_init_start_s10 b priv y w3 = (r, w'')" for y w''
    using that t(2,3) write_init_start_s10_touches touch_trans by metis
  then show "touches b (core_regs priv) w w'" if "alt_pr_ip_write_init_s10 b priv buf n w = (r, w')"
    using that t by (simp add: alt_pr_ip_write_init_s10_def v x p Let_def split: if_splits) auto
qed

section \<open>The contract\<close>

text \<open>A core whose driver stays at its own registers; the loader then does too.\<close>

locale located_core =
  fixes b :: "('h, 'z) bus_scheme" and ops :: "'h world pr_ip_ops"
  assumes init_at: "ip_write_init ops priv buf n w = Some (r, w') \<Longrightarrow> touches b (core_regs priv) w w'"
    and write_at: "ip_write ops priv fp w = Some (r, w') \<Longrightarrow> touches b (core_regs priv) w w'"
    and complete_at: "ip_write_complete ops priv tmo w = Some (r, w') \<Longrightarrow> touches b (core_regs priv) w w'"
begin

lemma load_touches:
  assumes run: "fpga_config_buf_load ops priv tmo buf0 fp w = Some (r, priv', w')"
  shows "touches b (core_regs priv) w w' \<and> (\<exists>st. priv' = priv\<lparr>config_state := st\<rparr>)"
proof -
  obtain ret buf where rd: "kernel_read fp 0 buf0 1024 = (ret, buf)" by fastforce
  let ?p = "\<lambda>st. priv\<lparr>config_state := st\<rparr>"
  note run = run [unfolded fpga_config_buf_load_def rd Let_def prod.case]
  show ?thesis
  proof (cases "ret = 1024")
    case False
    with run have "priv' = priv" "w' = w" by simp_all
    then show ?thesis by (auto intro: exI [of _ "config_state priv"])
  next
    case True
    with run obtain r1 w1 where 1: "ip_write_init ops (?p FPGA_CONFIG_STATE_WRITE_INIT) buf 1024 w = Some (r1, w1)"
      by (auto simp: bind_eq_Some_conv)
    then have t1: "touches b (core_regs priv) w w1" by (auto dest: init_at)
    show ?thesis
    proof (cases "r1 = 0")
      case False
      with run True 1 t1 show ?thesis by auto
    next
      case r1: True
      with run True 1 obtain r2 w2 where 2: "ip_write ops (?p FPGA_CONFIG_STATE_WRITE) fp w1 = Some (r2, w2)"
        by (auto simp: bind_eq_Some_conv)
      then have t2: "touches b (core_regs priv) w w2" using t1 by (auto dest!: write_at)
      show ?thesis
      proof (cases "r2 = 0")
        case False
        with run True 1 2 r1 t2 show ?thesis by auto
      next
        case r2: True
        with run True 1 2 r1 obtain r3 w3 where
          3: "ip_write_complete ops (?p FPGA_CONFIG_STATE_WRITE_COMPLETE) tmo w2 = Some (r3, w3)"
          by (auto simp: bind_eq_Some_conv)
        then have "touches b (core_regs priv) w w3" using t2 by (auto dest!: complete_at)
        with run True 1 2 3 r1 r2 show ?thesis by (auto split: if_splits)
      qed
    qed
  qed
qed

lemma load_mmio:
  assumes "fpga_config_buf_load ops priv tmo buf0 fp w = Some (r, priv', w')"
  shows "mmio_step w w' \<and> (\<exists>st. priv' = priv\<lparr>config_state := st\<rparr>)"
  using load_touches [OF assms] touches_mmio by blast

end

interpretation a10_core: located_core b "a10_ops b buf0" for b :: "('h, 'z) bus_scheme" and buf0
  by unfold_locales
    (auto simp: a10_ops_def alt_pr_ip_fpga_write_complete_a10_def
      dest: init_a10_touches write_a10_touches complete_a10_touches)

interpretation s10_core: located_core b "s10_ops vb wt b buf0" for b :: "('h, 'z) bus_scheme" and vb wt buf0
  by unfold_locales
    (auto simp: s10_ops_def alt_pr_ip_fpga_write_complete_s10_def
      dest: init_s10_touches write_s10_touches complete_s10_touches)

end
