(* ===== verification/Pci_Config.thy ===== *)
theory Pci_Config
  imports Driver_State
begin

text \<open>
  The accesses of \<open>fpga-pcie.c\<close> to PCI configuration space: saving, widening and restoring the mask of
  the uncorrectable errors of the upstream bridge (AER), and retraining the link.

  Configuration space is reached through functions of the kernel, which are parameters: the bus
  record is extended with them. The driver never looks at their return codes, and a read always
  stores a value. The register numbers and bits are those of \<open>linux/pci_regs.h\<close>.
\<close>

section \<open>Configuration space\<close>

record 'h pci_bus = "'h bus" +
  hw_find_capability :: "pci_dev \<Rightarrow> int \<Rightarrow> 'h \<Rightarrow> int"
  hw_find_ext_capability :: "pci_dev \<Rightarrow> int \<Rightarrow> 'h \<Rightarrow> int"
  hw_cfg_read32 :: "pci_dev \<Rightarrow> int \<Rightarrow> 'h \<Rightarrow> u32 \<times> 'h"
  hw_cfg_write32 :: "pci_dev \<Rightarrow> int \<Rightarrow> u32 \<Rightarrow> 'h \<Rightarrow> 'h"
  hw_cfg_read16 :: "pci_dev \<Rightarrow> int \<Rightarrow> 'h \<Rightarrow> u16 \<times> 'h"
  hw_cfg_write16 :: "pci_dev \<Rightarrow> int \<Rightarrow> u16 \<Rightarrow> 'h \<Rightarrow> 'h"
  hw_save_state :: "pci_dev \<Rightarrow> 'h \<Rightarrow> 'h"
  hw_restore_state :: "pci_dev \<Rightarrow> 'h \<Rightarrow> 'h"

definition PCI_CAP_ID_EXP :: int where [const_defs]: "PCI_CAP_ID_EXP = 0x10"
definition PCI_EXT_CAP_ID_ERR :: int where [const_defs]: "PCI_EXT_CAP_ID_ERR = 1"
definition PCI_EXP_DEVCAP :: int where [const_defs]: "PCI_EXP_DEVCAP = 4"
definition PCI_EXP_DEVCTL :: int where [const_defs]: "PCI_EXP_DEVCTL = 8"
definition PCI_EXP_LNKCAP :: int where [const_defs]: "PCI_EXP_LNKCAP = 12"
definition PCI_EXP_LNKCTL :: int where [const_defs]: "PCI_EXP_LNKCTL = 16"
definition PCI_EXP_LNKSTA :: int where [const_defs]: "PCI_EXP_LNKSTA = 18"
definition PCI_EXP_LNKSTA_CLS :: u16 where [const_defs]: "PCI_EXP_LNKSTA_CLS = 0x000f"
definition PCI_EXP_LNKSTA_NLW :: u16 where [const_defs]: "PCI_EXP_LNKSTA_NLW = 0x03f0"
definition PCI_EXP_LNKSTA_NLW_SHIFT :: nat where [const_defs]: "PCI_EXP_LNKSTA_NLW_SHIFT = 4"
definition PCI_EXP_LNKSTA_LT :: u16 where [const_defs]: "PCI_EXP_LNKSTA_LT = 0x0800"
definition PCI_EXP_LNKSTA_CLS_2_5GB :: u16 where [const_defs]: "PCI_EXP_LNKSTA_CLS_2_5GB = 1"
definition PCI_EXP_LNKSTA_CLS_5_0GB :: u16 where [const_defs]: "PCI_EXP_LNKSTA_CLS_5_0GB = 2"
definition PCI_EXP_LNKSTA_CLS_8_0GB :: u16 where [const_defs]: "PCI_EXP_LNKSTA_CLS_8_0GB = 3"
definition PCI_EXP_LNKCTL_RL :: u16 where [const_defs]: "PCI_EXP_LNKCTL_RL = 0x0020"
definition PCI_ERR_UNC_SURPDN :: u32 where [const_defs]: "PCI_ERR_UNC_SURPDN = 0x00000020"
definition PCI_ERR_UNC_COMP_TIME :: u32 where [const_defs]: "PCI_ERR_UNC_COMP_TIME = 0x00004000"
definition PCI_ERR_UNC_UNSUP :: u32 where [const_defs]: "PCI_ERR_UNC_UNSUP = 0x00100000"
definition DEV_LINK_WIDTH :: u16 where [const_defs]: "DEV_LINK_WIDTH = 8"

definition pci_find_capability :: "('h, 'z) pci_bus_scheme \<Rightarrow> pci_dev \<Rightarrow> int \<Rightarrow> 'h world \<Rightarrow> int" where
  "pci_find_capability b d cap w = hw_find_capability b d cap (dev w)"

definition pci_find_ext_capability :: "('h, 'z) pci_bus_scheme \<Rightarrow> pci_dev \<Rightarrow> int \<Rightarrow> 'h world \<Rightarrow> int" where
  "pci_find_ext_capability b d cap w = hw_find_ext_capability b d cap (dev w)"

definition pci_read_config_dword ::
  "('h, 'z) pci_bus_scheme \<Rightarrow> pci_dev \<Rightarrow> int \<Rightarrow> 'h world \<Rightarrow> u32 \<times> 'h world" where
  "pci_read_config_dword b d pos w =
     (let (v, h) = hw_cfg_read32 b d pos (dev w)
      in (v, w\<lparr>dev := h, trace := trace w @ [CfgRead32 d pos v]\<rparr>))"

definition pci_write_config_dword ::
  "('h, 'z) pci_bus_scheme \<Rightarrow> pci_dev \<Rightarrow> int \<Rightarrow> u32 \<Rightarrow> 'h world \<Rightarrow> 'h world" where
  "pci_write_config_dword b d pos v w =
     w\<lparr>dev := hw_cfg_write32 b d pos v (dev w), trace := trace w @ [CfgWrite32 d pos v]\<rparr>"

definition pci_read_config_word ::
  "('h, 'z) pci_bus_scheme \<Rightarrow> pci_dev \<Rightarrow> int \<Rightarrow> 'h world \<Rightarrow> u16 \<times> 'h world" where
  "pci_read_config_word b d pos w =
     (let (v, h) = hw_cfg_read16 b d pos (dev w)
      in (v, w\<lparr>dev := h, trace := trace w @ [CfgRead16 d pos v]\<rparr>))"

definition pci_write_config_word ::
  "('h, 'z) pci_bus_scheme \<Rightarrow> pci_dev \<Rightarrow> int \<Rightarrow> u16 \<Rightarrow> 'h world \<Rightarrow> 'h world" where
  "pci_write_config_word b d pos v w =
     w\<lparr>dev := hw_cfg_write16 b d pos v (dev w), trace := trace w @ [CfgWrite16 d pos v]\<rparr>"

definition pci_save_state :: "('h, 'z) pci_bus_scheme \<Rightarrow> pci_dev \<Rightarrow> 'h world \<Rightarrow> 'h world" where
  "pci_save_state b d w = w\<lparr>dev := hw_save_state b d (dev w), trace := trace w @ [CfgSave d]\<rparr>"

definition pci_restore_state :: "('h, 'z) pci_bus_scheme \<Rightarrow> pci_dev \<Rightarrow> 'h world \<Rightarrow> 'h world" where
  "pci_restore_state b d w = w\<lparr>dev := hw_restore_state b d (dev w), trace := trace w @ [CfgRestore d]\<rparr>"

lemma trace_cfg_dwordD: "pci_read_config_dword b d pos w = (v, w') \<Longrightarrow> trace w' = trace w @ [CfgRead32 d pos v]"
  by (auto simp: pci_read_config_dword_def split: prod.splits)

lemma trace_cfg_wordD: "pci_read_config_word b d pos w = (v, w') \<Longrightarrow> trace w' = trace w @ [CfgRead16 d pos v]"
  by (auto simp: pci_read_config_word_def split: prod.splits)

lemma trace_cfg_simps [trace_simps]:
  "trace (pci_write_config_dword b d pos v w) = trace w @ [CfgWrite32 d pos v]"
  "trace (pci_write_config_word b d pos x w) = trace w @ [CfgWrite16 d pos x]"
  "trace (pci_save_state b d w) = trace w @ [CfgSave d]"
  "trace (pci_restore_state b d w) = trace w @ [CfgRestore d]"
  by (simp_all add: pci_write_config_dword_def pci_write_config_word_def pci_save_state_def
      pci_restore_state_def)

section \<open>The error mask of the upstream bridge\<close>

definition AER_MASKED :: u32 where [const_defs]:
  "AER_MASKED = PCI_ERR_UNC_SURPDN OR PCI_ERR_UNC_COMP_TIME OR PCI_ERR_UNC_UNSUP"

definition get_aer_uerr_mask_reg ::
  "('h, 'z) pci_bus_scheme \<Rightarrow> pci_dev \<Rightarrow> 'h world \<Rightarrow> u32 \<times> 'h world" where
  "get_aer_uerr_mask_reg b d w =
     (let pos = pci_find_ext_capability b d PCI_EXT_CAP_ID_ERR w
      in if pos = 0 then (word_of_int (- EIO), w)
         else let (reg, w) = pci_read_config_dword b d (pos + PCI_EXP_DEVCAP) w;
                  (reg, w) = pci_read_config_dword b d (pos + PCI_EXP_DEVCTL) w
              in (reg, w))"

definition set_aer_uerr_mask_reg ::
  "('h, 'z) pci_bus_scheme \<Rightarrow> pci_dev \<Rightarrow> u32 \<Rightarrow> 'h world \<Rightarrow> 'h world" where
  "set_aer_uerr_mask_reg b d val w =
     (let pos = pci_find_ext_capability b d PCI_EXT_CAP_ID_ERR w
      in if pos = 0 then w
         else let w = pci_write_config_dword b d (pos + PCI_EXP_DEVCAP)
                        (PCI_ERR_UNC_SURPDN OR PCI_ERR_UNC_COMP_TIME OR PCI_ERR_UNC_UNSUP) w
              in pci_write_config_dword b d (pos + PCI_EXP_DEVCTL) val w)"

definition disable_upstream_aer ::
  "('h, 'z) pci_bus_scheme \<Rightarrow> pci_dev option \<Rightarrow> pci_dev option \<Rightarrow> 'h world \<Rightarrow> u32 \<times> 'h world" where
  "disable_upstream_aer b d upstream w =
     (case d of
        None \<Rightarrow> (word_of_int (- EINVAL), w)
      | Some _ \<Rightarrow>
          (case upstream of
             None \<Rightarrow> (word_of_int (- EINVAL), w)
           | Some up \<Rightarrow>
               let (reg, w) = get_aer_uerr_mask_reg b up w;
                   w = set_aer_uerr_mask_reg b up
                         (reg OR PCI_ERR_UNC_SURPDN OR PCI_ERR_UNC_COMP_TIME OR PCI_ERR_UNC_UNSUP) w
               in (reg, w)))"

section \<open>Link training\<close>

text \<open>The loop that waits for the end of training: \<open>n\<close> rounds are left of the 50.\<close>

fun training_loop ::
  "('h, 'z) pci_bus_scheme \<Rightarrow> pci_dev \<Rightarrow> int \<Rightarrow> nat \<Rightarrow> u16 \<Rightarrow> 'h world \<Rightarrow> u16 \<times> 'h world" where
  "training_loop b up status_reg 0 training w = (training, w)"
| "training_loop b up status_reg (Suc n) training w =
     (if training = 0 then (training, w)
      else let (status, w) = pci_read_config_word b up status_reg w
           in training_loop b up status_reg n (status AND PCI_EXP_LNKSTA_LT) (msleep b 1 w))"

definition link_good :: "u16 \<Rightarrow> bool" where
  "link_good linkstat \<longleftrightarrow>
     (let speed = linkstat AND PCI_EXP_LNKSTA_CLS;
          width = drop_bit PCI_EXP_LNKSTA_NLW_SHIFT (linkstat AND PCI_EXP_LNKSTA_NLW)
      in if speed = PCI_EXP_LNKSTA_CLS_2_5GB then False
         else if speed = PCI_EXP_LNKSTA_CLS_5_0GB then width = DEV_LINK_WIDTH
         else if speed = PCI_EXP_LNKSTA_CLS_8_0GB then width = DEV_LINK_WIDTH
         else False)"

definition retrain_device_speed ::
  "('h, 'z) pci_bus_scheme \<Rightarrow> pci_dev \<Rightarrow> pci_dev \<Rightarrow> 'h world \<Rightarrow> 'h world" where
  "retrain_device_speed b d upstream w =
     (let pos = pci_find_capability b d PCI_CAP_ID_EXP w
      in if pos = 0 then w
         else let upos = pci_find_capability b upstream PCI_CAP_ID_EXP w;
                  status_reg = (upos + PCI_EXP_LNKSTA) mod 2 ^ 16;
                  control_reg = (upos + PCI_EXP_LNKCTL) mod 2 ^ 16;
                  link_cap_reg = (upos + PCI_EXP_LNKCAP) mod 2 ^ 16;
                  (status, w) = pci_read_config_word b upstream status_reg w;
                  (control, w) = pci_read_config_word b upstream control_reg w;
                  (link_cap, w) = pci_read_config_dword b upstream link_cap_reg w;
                  (linkstat, w) = pci_read_config_word b d (pos + PCI_EXP_LNKSTA) w;
                  (link_cap, w) = pci_read_config_dword b upstream link_cap_reg w
              in if link_good linkstat then w
                 else let (control, w) = pci_read_config_word b upstream control_reg w;
                          w = pci_write_config_word b upstream control_reg (control OR PCI_EXP_LNKCTL_RL) w;
                          (training, w) = training_loop b upstream status_reg 50 1 w;
                          (linkstat, w) = pci_read_config_word b d (pos + PCI_EXP_LNKSTA) w;
                          (link_cap, w) = pci_read_config_dword b upstream link_cap_reg w
                      in w)"

section \<open>What the operations do to configuration space\<close>

text \<open>The accesses to one 32 bit register of a device, and the writes to configuration space.\<close>

fun at_reg :: "pci_dev \<Rightarrow> int \<Rightarrow> io_event \<Rightarrow> bool" where
  "at_reg d pos (CfgRead32 d' pos' v) = (d' = d \<and> pos' = pos)"
| "at_reg d pos (CfgWrite32 d' pos' v) = (d' = d \<and> pos' = pos)"
| "at_reg d pos _ = False"

fun cfg_write :: "io_event \<Rightarrow> bool" where
  "cfg_write (CfgWrite32 d pos v) = True"
| "cfg_write (CfgWrite16 d pos v) = True"
| "cfg_write (CfgRestore d) = True"
| "cfg_write _ = False"

abbreviation reg_log :: "pci_dev \<Rightarrow> int \<Rightarrow> io_event list \<Rightarrow> io_event list" where
  "reg_log d pos \<equiv> filter (at_reg d pos)"

lemma reg_log_mmio: "list_all mmio t \<Longrightarrow> reg_log d pos t = []"
proof (induction t)
  case (Cons e t)
  then show ?case by (cases e) auto
qed simp

lemma reg_log_mmio_step: "mmio_step w w' \<Longrightarrow> reg_log d pos (trace w') = reg_log d pos (trace w)"
  by (auto simp: mmio_step_def reg_log_mmio)

definition poll_log :: "pci_dev \<Rightarrow> int \<Rightarrow> u16 list \<Rightarrow> io_event list" where
  "poll_log up reg vs = concat (map (\<lambda>v. [CfgRead16 up reg v, Wait 1000]) vs)"

lemma poll_log_simps [simp]:
  "poll_log up reg [] = []" "poll_log up reg (v # vs) = CfgRead16 up reg v # Wait 1000 # poll_log up reg vs"
  by (simp_all add: poll_log_def)

lemma poll_log_filter [simp]: "filter cfg_write (poll_log up reg vs) = []" "reg_log d pos (poll_log up reg vs) = []"
  by (induction vs) auto

lemma length_poll_log [simp]: "length (poll_log up reg vs) = 2 * length vs"
  by (induction vs) auto

lemma training_loop_trace:
  "\<exists>vs r w'. training_loop b up reg n training w = (r, w') \<and> length vs \<le> n \<and>
     trace w' = trace w @ poll_log up reg vs \<and> (r = 0 \<or> length vs = n)"
proof (induction n arbitrary: training w)
  case (Suc n)
  obtain v w1 where v: "pci_read_config_word b up reg w = (v, w1)" by fastforce
  obtain vs r w' where "training_loop b up reg n (v AND PCI_EXP_LNKSTA_LT) (msleep b 1 w1) = (r, w')"
    "length vs \<le> n" "trace w' = trace (msleep b 1 w1) @ poll_log up reg vs" "r = 0 \<or> length vs = n"
    using Suc.IH by blast
  then have more: "\<exists>vs r w'. training_loop b up reg (Suc n) training w = (r, w') \<and> length vs \<le> Suc n \<and>
     trace w' = trace w @ poll_log up reg vs \<and> (r = 0 \<or> length vs = Suc n)" if "training \<noteq> 0"
    using trace_cfg_wordD [OF v] that
    by (intro exI [of _ "v # vs"] exI [of _ r] exI [of _ w']) (simp add: v trace_msleep)
  show ?case using more by (cases "training = 0") (auto intro: exI [of _ "[]"])
qed auto

text \<open>The whole of a retraining: nothing, five reads, or five reads and one training of the link.\<close>

inductive retrain_spec :: "pci_dev \<Rightarrow> pci_dev \<Rightarrow> io_event list \<Rightarrow> bool" for d up :: pci_dev where
  no_cap: "retrain_spec d up []"
| good: "link_good stat \<Longrightarrow> retrain_spec d up
     [CfgRead16 up (upos + 18) s, CfgRead16 up (upos + 16) c, CfgRead32 up (upos + 12) x,
      CfgRead16 d (pos + 18) stat, CfgRead32 up (upos + 12) y]"
| train: "\<not> link_good stat \<Longrightarrow> length vs \<le> 50 \<Longrightarrow> retrain_spec d up
     ([CfgRead16 up (upos + 18) s, CfgRead16 up (upos + 16) c, CfgRead32 up (upos + 12) x,
       CfgRead16 d (pos + 18) stat, CfgRead32 up (upos + 12) y,
       CfgRead16 up (upos + 16) c', CfgWrite16 up (upos + 16) (c' OR PCI_EXP_LNKCTL_RL)] @
      poll_log up (upos + 18) vs @ [CfgRead16 d (pos + 18) stat', CfgRead32 up (upos + 12) z])"

lemma retrain_spec_bounds:
  "retrain_spec d up t \<Longrightarrow> length t \<le> 109 \<and> length (filter cfg_write t) \<le> 1"
  by (induction rule: retrain_spec.induct) auto

lemma retrain_trace:
  assumes upos: "pci_find_capability b up PCI_CAP_ID_EXP w = upos" "0 \<le> upos" "upos < 0x100"
  shows "\<exists>t. trace (retrain_device_speed b d up w) = trace w @ t \<and> retrain_spec d up t \<and>
    (\<forall>p. p \<noteq> upos + 12 \<longrightarrow> reg_log up p t = [])"
proof -
  define pos where "pos = pci_find_capability b d PCI_CAP_ID_EXP w"
  have m: "(upos + PCI_EXP_LNKSTA) mod 2 ^ 16 = upos + 18" "(upos + PCI_EXP_LNKCTL) mod 2 ^ 16 = upos + 16"
    "(upos + PCI_EXP_LNKCAP) mod 2 ^ 16 = upos + 12" "pos + PCI_EXP_LNKSTA = pos + 18"
    using upos by (simp_all add: const_defs)
  obtain s w1 where 1: "pci_read_config_word b up (upos + 18) w = (s, w1)" by fastforce
  obtain c w2 where 2: "pci_read_config_word b up (upos + 16) w1 = (c, w2)" by fastforce
  obtain x w3 where 3: "pci_read_config_dword b up (upos + 12) w2 = (x, w3)" by fastforce
  obtain stat w4 where 4: "pci_read_config_word b d (pos + 18) w3 = (stat, w4)" by fastforce
  obtain y w5 where 5: "pci_read_config_dword b up (upos + 12) w4 = (y, w5)" by fastforce
  obtain c' w6 where 6: "pci_read_config_word b up (upos + 16) w5 = (c', w6)" by fastforce
  let ?w7 = "pci_write_config_word b up (upos + 16) (c' OR PCI_EXP_LNKCTL_RL) w6"
  obtain vs r w8 where 8: "training_loop b up (upos + 18) 50 1 ?w7 = (r, w8)" "length vs \<le> 50"
    "trace w8 = trace ?w7 @ poll_log up (upos + 18) vs"
    using training_loop_trace [of b up "upos + 18" 50 1 ?w7] by blast
  obtain stat' w9 where 9: "pci_read_config_word b d (pos + 18) w8 = (stat', w9)" by fastforce
  obtain z w10 where 10: "pci_read_config_dword b up (upos + 12) w9 = (z, w10)" by fastforce
  note tr = trace_cfg_wordD [OF 1] trace_cfg_wordD [OF 2] trace_cfg_dwordD [OF 3] trace_cfg_wordD [OF 4]
    trace_cfg_dwordD [OF 5] trace_cfg_wordD [OF 6] 8(3) trace_cfg_wordD [OF 9] trace_cfg_dwordD [OF 10]
  note run = retrain_device_speed_def Let_def pos_def [symmetric] upos(1) m 1 2 3 4 5 6 8(1) 9 10 prod.case
  consider "pos = 0" | "pos \<noteq> 0" "link_good stat" | "pos \<noteq> 0" "\<not> link_good stat" by blast
  then show ?thesis
  proof cases
    case 1
    then have "retrain_device_speed b d up w = w" by (simp add: run)
    then show ?thesis by (auto intro: retrain_spec.no_cap)
  next
    case 2
    then have "retrain_device_speed b d up w = w5" unfolding run by simp
    then show ?thesis using 2 retrain_spec.good [of stat d up upos s c x pos y] tr by (simp add: tr)
  next
    case 3
    then have "retrain_device_speed b d up w = w10" unfolding run by simp
    then show ?thesis
      using 3 retrain_spec.train [of stat vs d up upos s c x pos y c' stat' z] tr 8(2)
      by (simp add: tr trace_cfg_simps)
  qed
qed

text \<open>Masking the errors: the two reads, then the status and the mask; the mask is returned.\<close>

lemma disable_upstream_aer_trace:
  assumes pos: "\<And>h. hw_find_ext_capability b up PCI_EXT_CAP_ID_ERR h = pos" "pos \<noteq> 0"
  shows "\<exists>s m w'. disable_upstream_aer b (Some d) (Some up) w = (m, w') \<and>
    trace w' = trace w @ [CfgRead32 up (pos + 4) s, CfgRead32 up (pos + 8) m,
      CfgWrite32 up (pos + 4) AER_MASKED, CfgWrite32 up (pos + 8) (m OR AER_MASKED)]"
proof -
  obtain s w1 where 1: "pci_read_config_dword b up (pos + 4) w = (s, w1)" by fastforce
  obtain m w2 where 2: "pci_read_config_dword b up (pos + 8) w1 = (m, w2)" by fastforce
  have "m OR PCI_ERR_UNC_SURPDN OR PCI_ERR_UNC_COMP_TIME OR PCI_ERR_UNC_UNSUP = m OR AER_MASKED"
    by (simp add: AER_MASKED_def or.assoc)
  then show ?thesis using pos 1 2 trace_cfg_dwordD [OF 1] trace_cfg_dwordD [OF 2]
    by (simp add: disable_upstream_aer_def get_aer_uerr_mask_reg_def set_aer_uerr_mask_reg_def
        pci_find_ext_capability_def PCI_EXP_DEVCAP_def PCI_EXP_DEVCTL_def trace_cfg_simps
        AER_MASKED_def or.assoc)
qed

lemma set_aer_trace:
  assumes pos: "\<And>h. hw_find_ext_capability b up PCI_EXT_CAP_ID_ERR h = pos" "pos \<noteq> 0"
  shows "trace (set_aer_uerr_mask_reg b up v w) =
    trace w @ [CfgWrite32 up (pos + 4) AER_MASKED, CfgWrite32 up (pos + 8) v]"
  using pos by (simp add: set_aer_uerr_mask_reg_def pci_find_ext_capability_def PCI_EXP_DEVCAP_def
      PCI_EXP_DEVCTL_def AER_MASKED_def trace_cfg_simps)

section \<open>Properties\<close>

text \<open>
  C14. A retraining of the link always ends, after at most 109 accesses and sleeps. It writes at
  most once to configuration space, the retrain bit into the upstream bridge's link control
  register, and only when the link is not yet at 5 or 8 GT/s on all lanes.
\<close>

theorem retrain_bounded:
  assumes "pci_find_capability b up PCI_CAP_ID_EXP w = upos" "0 \<le> upos" "upos < 0x100"
  shows "\<exists>t. trace (retrain_device_speed b d up w) = trace w @ t \<and> retrain_spec d up t \<and>
    length t \<le> 109 \<and> length (filter cfg_write t) \<le> 1"
  using retrain_trace [OF assms] retrain_spec_bounds by metis

definition demo_pci :: "u32 pci_bus" where
  "demo_pci = \<lparr>bus_read = (\<lambda>a m. (0, m)), bus_write = (\<lambda>a v m. m), bus_wait = (\<lambda>_ m. m),
     hw_find_capability = (\<lambda>d c m. 0x80), hw_find_ext_capability = (\<lambda>d c m. 0x100),
     hw_cfg_read32 = (\<lambda>d p m. (if p = 0x108 then m else 0, m)),
     hw_cfg_write32 = (\<lambda>d p v m. if p = 0x108 then v else m),
     hw_cfg_read16 = (\<lambda>d p m. (0x0011, m)), hw_cfg_write16 = (\<lambda>d p v m. m),
     hw_save_state = (\<lambda>d m. m), hw_restore_state = (\<lambda>d m. m)\<rparr>"

theorem retrain_bounded_witness:
  "\<exists>t. trace (retrain_device_speed demo_pci 0 1 \<lparr>dev = 0, trace = []\<rparr>) = t \<and> retrain_spec 0 1 t \<and>
    length t \<le> 109 \<and> length (filter cfg_write t) \<le> 1"
  using retrain_bounded [of demo_pci 1 "\<lparr>dev = 0, trace = []\<rparr>" "0x80" 0]
  by (simp add: pci_find_capability_def demo_pci_def)

end
