(* ===== verification/Pcie_Driver.thy ===== *)
theory Pcie_Driver
  imports Region_Controller Core_Access Pci_Config
begin

text \<open>
  The character device of \<open>fpga-pcie.c\<close>: every request of a user program is an ioctl. A command
  carries what the kernel copies from the caller's memory, with \<open>None\<close> for a failing copy; a call
  returns its code, the structure copied back to the caller (if any), and the new private data and
  world. \<open>None\<close> is a call that does not return: a loop without end, or a NULL pointer that the
  kernel follows. File names are looked up in a parameter, the file system.
\<close>

section \<open>The ioctl interface\<close>

record pr_arg_t =
  rbf_name :: string
  config_timeout :: int

record rw_arg_t =
  rw_offset :: u32
  rw_data :: u32

datatype ioctl_cmd =
    FPGA_DEBUG_PRINT_ROM
  | FPGA_DISABLE_UPSTREAM_AER
  | FPGA_ENABLE_UPSTREAM_AER
  | FPGA_INITIATE_PR "pr_arg_t option"
  | FPGA_PR_REGION_CONTROLLER_FREEZE_ENABLE "u32 option"
  | FPGA_PR_REGION_CONTROLLER_FREEZE_DISABLE "u32 option"
  | FPGA_PR_REGION_READ "rw_arg_t option" bool  \<comment> \<open>whether the copy back to the caller succeeds\<close>
  | FPGA_PR_REGION_WRITE "rw_arg_t option"
  | UNKNOWN_CMD

fun print_rom_loop :: "('h, 'z) bus_scheme \<Rightarrow> u64 \<Rightarrow> nat \<Rightarrow> nat \<Rightarrow> 'h world \<Rightarrow> 'h world" where
  "print_rom_loop b rom_base_addr i 0 w = w"
| "print_rom_loop b rom_base_addr i (Suc n) w =
     (let (_, w) = readl b (rom_base_addr + of_nat i) w
      in print_rom_loop b rom_base_addr (i + 4) n w)"

definition fpga_pcie_print_rom :: "('h, 'z) bus_scheme \<Rightarrow> fpga_pcie_priv \<Rightarrow> 'h world \<Rightarrow> 'h world" where
  "fpga_pcie_print_rom b priv w =
     print_rom_loop b (bar_addrs priv ALTR_PCI_CVP_CONFIG_BAR + ALTR_PCI_CONFIG_ROM_OFFSET) 0
       (ALTR_PCI_CONFIG_ROM_LEN div 4) w"

text \<open>The offset of a region access is a C \<open>int\<close>: added to a pointer it is sign extended.\<close>

abbreviation pr_region :: "fpga_pcie_priv \<Rightarrow> u32 \<Rightarrow> u64" where
  "pr_region priv off \<equiv> bar_addrs priv ALTR_PCI_CVP_PR_BAR + scast off"

definition my_ioctl ::
  "('h, 'z) pci_bus_scheme \<Rightarrow> 'h world pr_ip_ops \<Rightarrow> (string \<Rightarrow> kfile option) \<Rightarrow> cbuf \<Rightarrow>
   fpga_pcie_priv \<Rightarrow> ioctl_cmd \<Rightarrow> 'h world \<Rightarrow>
   (int \<times> rw_arg_t option \<times> fpga_pcie_priv \<times> 'h world) option" where
  "my_ioctl b ops filp_open buf0 priv cmd w =
     (case cmd of
        FPGA_DEBUG_PRINT_ROM \<Rightarrow> Some (0, None, priv, fpga_pcie_print_rom b priv w)
      | FPGA_DISABLE_UPSTREAM_AER \<Rightarrow>
          if drv_st priv = ST_AER_DISABLED then Some (0, None, priv, w)
          else let (reg, w) = disable_upstream_aer b (pci_dev priv) (pci_upstream_dev priv) w;
                   priv = priv\<lparr>aer_uerr_mask_reg := reg\<rparr>
               in (case pci_dev priv of
                     None \<Rightarrow> None
                   | Some d \<Rightarrow>
                       let w = pci_save_state b d w;
                           priv = priv\<lparr>drv_st := ST_AER_DISABLED\<rparr>
                       in Some (0, None, priv, w))
      | FPGA_ENABLE_UPSTREAM_AER \<Rightarrow>
          if drv_st priv = ST_AER_DISABLED
          then (case (pci_dev priv, pci_upstream_dev priv) of
                  (Some d, Some up) \<Rightarrow>
                    let w = pci_restore_state b d w;
                        w = set_aer_uerr_mask_reg b up (aer_uerr_mask_reg priv) w;
                        w = retrain_device_speed b d up w;
                        priv = priv\<lparr>drv_st := ST_IDLE\<rparr>
                    in Some (0, None, priv, w)
                | _ \<Rightarrow> None)
          else if drv_st priv = ST_IDLE then Some (0, None, priv, w)
          else Some (- EINVAL, None, priv, w)
      | FPGA_INITIATE_PR arg \<Rightarrow>
          (case arg of
             None \<Rightarrow> Some (- EACCES, None, priv, w)
           | Some pr_args \<Rightarrow>
               (case filp_open (rbf_name pr_args) of
                  None \<Rightarrow> Some (- 1, None, priv, w)
                | Some fp \<Rightarrow>
                    do {
                      (_, priv, w) \<leftarrow> fpga_config_buf_load ops priv (config_timeout pr_args) buf0 fp w;
                      Some (0, None, priv, w)
                    }))
      | FPGA_PR_REGION_CONTROLLER_FREEZE_ENABLE arg \<Rightarrow>
          (case arg of
             None \<Rightarrow> Some (- EACCES, None, priv, w)
           | Some offset \<Rightarrow>
               do {
                 (result, w) \<leftarrow> fpga_pr_region_controller_freeze_enable b priv offset w;
                 Some (result, None, priv, w)
               })
      | FPGA_PR_REGION_CONTROLLER_FREEZE_DISABLE arg \<Rightarrow>
          (case arg of
             None \<Rightarrow> Some (- EACCES, None, priv, w)
           | Some offset \<Rightarrow>
               do {
                 (result, w) \<leftarrow> fpga_pr_region_controller_freeze_disable b priv offset w;
                 Some (result, None, priv, w)
               })
      | FPGA_PR_REGION_READ arg copy_out \<Rightarrow>
          (case arg of
             None \<Rightarrow> Some (- EACCES, None, priv, w)
           | Some rw_args \<Rightarrow>
               let (v, w) = readl b (pr_region priv (rw_offset rw_args)) w;
                   rw_args = rw_args\<lparr>rw_data := v\<rparr>
               in if copy_out then Some (0, Some rw_args, priv, w) else Some (- EACCES, None, priv, w))
      | FPGA_PR_REGION_WRITE arg \<Rightarrow>
          (case arg of
             None \<Rightarrow> Some (- EACCES, None, priv, w)
           | Some rw_args \<Rightarrow>
               let w = writel b (rw_data rw_args) (pr_region priv (rw_offset rw_args)) w;
                   (_, w) = readl b (pr_region priv (rw_offset rw_args)) w
               in Some (0, None, priv, w))
      | UNKNOWN_CMD \<Rightarrow> Some (- EINVAL, None, priv, w))"

text \<open>
  Opening the device stores in the file the private data that contains the character device of the
  inode; closing does nothing. Files are numbered and the private data are named by their card.
\<close>

definition my_open :: "pci_dev \<Rightarrow> nat \<Rightarrow> (nat \<Rightarrow> pci_dev option) \<Rightarrow> int \<times> (nat \<Rightarrow> pci_dev option)" where
  "my_open i_cdev f private_data = (0, private_data(f := Some i_cdev))"

definition my_close :: "nat \<Rightarrow> (nat \<Rightarrow> pci_dev option) \<Rightarrow> int \<times> (nat \<Rightarrow> pci_dev option)" where
  "my_close f private_data = (0, private_data)"

section \<open>Memory accesses of the operations\<close>

lemma enable_spec_mmio: "enable_spec S C V r t \<Longrightarrow> list_all mmio t"
  and disable_spec_mmio: "disable_spec S C V r t \<Longrightarrow> list_all mmio t"
  and acked_poll_mmio: "acked_poll S req t \<Longrightarrow> list_all mmio t"
proof -
  show poll: "acked_poll S req t \<Longrightarrow> list_all mmio t" for S req t
    by (induction S req t rule: acked_poll.induct) (auto split: if_splits)
  show "enable_spec S C V r t \<Longrightarrow> list_all mmio t"
    by (induction rule: enable_spec.induct) (auto dest: poll)
  show "disable_spec S C V r t \<Longrightarrow> list_all mmio t"
    by (induction rule: disable_spec.induct) (auto dest: poll)
qed

lemma print_rom_loop_mmio: "mmio_step w (print_rom_loop b base i n w)"
proof (induction n arbitrary: i w)
  case (Suc n)
  obtain v w1 where v: "readl b (base + of_nat i) w = (v, w1)" by fastforce
  show ?case using mmio_step_trans [OF mmio_step_readl [OF v] Suc.IH] by (simp add: v)
qed simp

section \<open>The error mask over a sequence of requests\<close>

text \<open>
  The upstream bridge has its AER capability at \<open>pos\<close> and its PCI Express capability in the first 256
  bytes, at fixed places, as the PCI specification has it.
\<close>

definition aer_bridge :: "('h, 'z) pci_bus_scheme \<Rightarrow> pci_dev \<Rightarrow> int \<Rightarrow> bool" where
  "aer_bridge b up pos \<longleftrightarrow>
     (\<forall>h. hw_find_ext_capability b up PCI_EXT_CAP_ID_ERR h = pos) \<and> pos \<noteq> 0 \<and>
     (\<exists>upos. (\<forall>h. hw_find_capability b up PCI_CAP_ID_EXP h = upos) \<and> 0 \<le> upos \<and> upos < 0x100 \<and>
        pos + 8 \<noteq> upos + 12)"

text \<open>
  The accesses to a mask register that has been masked and unmasked for each of \<open>ms\<close>, and masked
  once more when there is an open request.
\<close>

definition mask_on :: "pci_dev \<Rightarrow> int \<Rightarrow> u32 \<Rightarrow> io_event list" where
  "mask_on up p m = [CfgRead32 up p m, CfgWrite32 up p (m OR AER_MASKED)]"

definition mask_off :: "pci_dev \<Rightarrow> int \<Rightarrow> u32 \<Rightarrow> io_event list" where
  "mask_off up p m = [CfgWrite32 up p m]"

definition aer_history :: "pci_dev \<Rightarrow> int \<Rightarrow> u32 list \<Rightarrow> u32 option \<Rightarrow> io_event list" where
  "aer_history up p ms cur =
     concat (map (\<lambda>m. mask_on up p m @ mask_off up p m) ms) @
     (case cur of None \<Rightarrow> [] | Some m \<Rightarrow> mask_on up p m)"

definition open_mask :: "fpga_pcie_priv \<Rightarrow> u32 option" where
  "open_mask priv = (if drv_st priv = ST_AER_DISABLED then Some (aer_uerr_mask_reg priv) else None)"

lemma aer_history_disable:
  "aer_history up p ms None @ mask_on up p m = aer_history up p ms (Some m)"
  by (simp add: aer_history_def)

lemma aer_history_enable:
  "aer_history up p ms (Some m) @ mask_off up p m = aer_history up p (ms @ [m]) None"
  by (simp add: aer_history_def)

text \<open>Requests of user programs, one after the other.\<close>

inductive ioctl_run ::
  "('h, 'z) pci_bus_scheme \<Rightarrow> 'h world pr_ip_ops \<Rightarrow> (string \<Rightarrow> kfile option) \<Rightarrow> cbuf \<Rightarrow>
   fpga_pcie_priv \<times> 'h world \<Rightarrow> fpga_pcie_priv \<times> 'h world \<Rightarrow> bool"
  for b ops fs buf0 s where
  start: "ioctl_run b ops fs buf0 s s"
| call: "ioctl_run b ops fs buf0 s (priv, w) \<Longrightarrow>
    my_ioctl b ops fs buf0 priv cmd w = Some (r, out, priv', w') \<Longrightarrow>
    ioctl_run b ops fs buf0 s (priv', w')"

lemma widen_mask_log:
  assumes "aer_bridge b up pos"
  shows "\<exists>m w'. disable_upstream_aer b (Some d) (Some up) w = (m, w') \<and>
    reg_log up (pos + 8) (trace w') = reg_log up (pos + 8) (trace w) @ mask_on up (pos + 8) m"
proof -
  obtain s m w1 where "disable_upstream_aer b (Some d) (Some up) w = (m, w1)"
    "trace w1 = trace w @ [CfgRead32 up (pos + 4) s, CfgRead32 up (pos + 8) m,
      CfgWrite32 up (pos + 4) AER_MASKED, CfgWrite32 up (pos + 8) (m OR AER_MASKED)]"
    using disable_upstream_aer_trace [of b up pos d w] assms(1) unfolding aer_bridge_def by blast
  then show ?thesis by (auto simp: mask_on_def)
qed

lemma restore_mask_log:
  assumes "aer_bridge b up pos"
  shows "reg_log up (pos + 8)
      (trace (retrain_device_speed b d up (set_aer_uerr_mask_reg b up m (pci_restore_state b d w)))) =
    reg_log up (pos + 8) (trace w) @ mask_off up (pos + 8) m"
proof -
  obtain upos where pos: "\<And>h. hw_find_ext_capability b up PCI_EXT_CAP_ID_ERR h = pos" "pos \<noteq> 0"
    and upos: "\<And>h. hw_find_capability b up PCI_CAP_ID_EXP h = upos" "0 \<le> upos" "upos < 0x100"
      "pos + 8 \<noteq> upos + 12"
    using assms(1) unfolding aer_bridge_def by blast
  let ?w1 = "set_aer_uerr_mask_reg b up m (pci_restore_state b d w)"
  have "pci_find_capability b up PCI_CAP_ID_EXP ?w1 = upos" by (simp add: pci_find_capability_def upos)
  then obtain t where "trace (retrain_device_speed b d up ?w1) = trace ?w1 @ t" "reg_log up (pos + 8) t = []"
    using retrain_trace [OF _ upos(2,3)] upos(4) by blast
  then show ?thesis by (auto simp: set_aer_trace [OF pos] trace_cfg_simps mask_off_def)
qed

lemma disable_aer_ioctl:
  assumes "aer_bridge b up pos" and "pci_dev priv = Some d" "pci_upstream_dev priv = Some up"
    and "drv_st priv = ST_IDLE"
    and run: "my_ioctl b ops fs buf0 priv FPGA_DISABLE_UPSTREAM_AER w = Some (r, out, priv', w')"
  shows "\<exists>m. priv' = priv\<lparr>aer_uerr_mask_reg := m, drv_st := ST_AER_DISABLED\<rparr> \<and>
    reg_log up (pos + 8) (trace w') = reg_log up (pos + 8) (trace w) @ mask_on up (pos + 8) m"
proof -
  obtain m w1 where "disable_upstream_aer b (Some d) (Some up) w = (m, w1)"
    "reg_log up (pos + 8) (trace w1) = reg_log up (pos + 8) (trace w) @ mask_on up (pos + 8) m"
    using widen_mask_log [OF assms(1)] by blast
  then show ?thesis using run assms(2-4)
    by (auto simp: my_ioctl_def trace_cfg_simps intro!: exI [of _ m])
qed

lemma enable_aer_ioctl:
  assumes "aer_bridge b up pos" and "pci_dev priv = Some d" "pci_upstream_dev priv = Some up"
    and "drv_st priv = ST_AER_DISABLED"
    and run: "my_ioctl b ops fs buf0 priv FPGA_ENABLE_UPSTREAM_AER w = Some (r, out, priv', w')"
  shows "priv' = priv\<lparr>drv_st := ST_IDLE\<rparr> \<and> reg_log up (pos + 8) (trace w') =
    reg_log up (pos + 8) (trace w) @ mask_off up (pos + 8) (aer_uerr_mask_reg priv)"
  using restore_mask_log [OF assms(1)] run assms(2-4) by (auto simp: my_ioctl_def)

text \<open>
  The bookkeeping of the mask relies on the contract of the core: its driver stays at the registers of the core,
  which are card memory, on a bus that has a configuration space too.
\<close>

locale card_core = located_core b ops for b :: "('h, 'z) pci_bus_scheme" and ops
begin

lemma other_ioctl:
  assumes run: "my_ioctl b ops fs buf0 priv cmd w = Some (r, out, priv', w')"
    and "cmd = FPGA_DISABLE_UPSTREAM_AER \<Longrightarrow> drv_st priv = ST_AER_DISABLED"
    and "cmd = FPGA_ENABLE_UPSTREAM_AER \<Longrightarrow> drv_st priv = ST_IDLE"
  shows "mmio_step w w' \<and> (\<exists>st. priv' = priv\<lparr>config_state := st\<rparr>)"
proof -
  have self: "\<exists>st. priv = priv\<lparr>config_state := st\<rparr>" by (rule exI [of _ "config_state priv"]) simp
  have freeze: "mmio_step w w'" if "fpga_pr_region_controller_freeze_enable b priv off w = Some (r, w')
      \<or> fpga_pr_region_controller_freeze_disable b priv off w = Some (r, w')" for off
    using that kernel_access.enable_refines [of b priv off w r w'] enable_spec_mmio
      kernel_access.disable_refines [of b priv off w r w'] disable_spec_mmio
    unfolding freeze_enable_kernel freeze_disable_kernel mmio_step_def by blast
  show ?thesis
  proof (cases cmd)
    case (FPGA_INITIATE_PR arg)
    with run self show ?thesis
      by (auto simp: my_ioctl_def bind_eq_Some_conv split: option.splits dest: load_mmio)
  next
    case (FPGA_PR_REGION_READ arg copy_out)
    with run self show ?thesis
      by (auto simp: my_ioctl_def split: option.splits prod.splits if_splits dest: mmio_step_readl)
  next
    case (FPGA_PR_REGION_WRITE arg)
    with run self show ?thesis
      by (auto simp: my_ioctl_def Let_def split: option.splits prod.splits
          dest!: mmio_step_readl intro: mmio_step_trans mmio_step_writel)
  qed (use run self assms(2,3) freeze in \<open>auto simp: my_ioctl_def bind_eq_Some_conv
      fpga_pcie_print_rom_def print_rom_loop_mmio split: option.splits\<close>)
qed

text \<open>
  The invariant of the driver: the log of the mask register is a sequence of closed pairs, with an
  open one exactly while the driver is in the state \<open>ST_AER_DISABLED\<close>, and the open one's value is
  the one the driver has saved.
\<close>

lemma aer_invariant:
  assumes br: "aer_bridge b up pos"
    and run: "ioctl_run b ops fs buf0 (priv0, w0) s"
    and init: "pci_dev priv0 = Some d" "pci_upstream_dev priv0 = Some up" "drv_st priv0 = ST_IDLE"
      "reg_log up (pos + 8) (trace w0) = []"
  shows "pci_dev (fst s) = Some d \<and> pci_upstream_dev (fst s) = Some up \<and>
    (\<exists>ms. reg_log up (pos + 8) (trace (snd s)) = aer_history up (pos + 8) ms (open_mask (fst s)))"
  using run
proof (induction rule: ioctl_run.induct)
  case start
  then show ?case using init by (auto simp: aer_history_def open_mask_def intro: exI [of _ "[]"])
next
  case (call priv w cmd r out priv' w')
  then obtain ms where IH: "pci_dev priv = Some d" "pci_upstream_dev priv = Some up"
    and ms: "reg_log up (pos + 8) (trace w) = aer_history up (pos + 8) ms (open_mask priv)" by auto
  consider (dis) "cmd = FPGA_DISABLE_UPSTREAM_AER" "drv_st priv = ST_IDLE"
    | (en) "cmd = FPGA_ENABLE_UPSTREAM_AER" "drv_st priv = ST_AER_DISABLED"
    | (other) "cmd = FPGA_DISABLE_UPSTREAM_AER \<Longrightarrow> drv_st priv = ST_AER_DISABLED"
        "cmd = FPGA_ENABLE_UPSTREAM_AER \<Longrightarrow> drv_st priv = ST_IDLE"
    by (cases "drv_st priv") auto
  then show ?case
  proof cases
    case dis
    then show ?thesis
      using disable_aer_ioctl [OF br IH, of ops fs buf0 w r out priv' w'] call.hyps(2) IH ms
      by (auto simp: open_mask_def aer_history_disable)
  next
    case en
    then show ?thesis
      using enable_aer_ioctl [OF br IH, of ops fs buf0 w r out priv' w'] call.hyps(2) IH ms
      by (auto simp: open_mask_def aer_history_enable)
  next
    case other
    then show ?thesis
      using other_ioctl [OF call.hyps(2)] IH ms
      by (auto simp: open_mask_def dest!: reg_log_mmio_step [where d = up and pos = "pos + 8"])
  qed
qed

end

interpretation a10_card: card_core b "a10_ops b buf0" for b buf0
  by (intro card_core.intro a10_core.located_core_axioms)

interpretation s10_card: card_core b "s10_ops vb wt b buf0" for b vb wt buf0
  by (intro card_core.intro s10_core.located_core_axioms)

section \<open>Properties\<close>

text \<open>
  C3. Whatever ioctls user programs make, in whatever order, the error mask of the upstream bridge is
  handled in pairs: the driver reads the mask, writes it back with the three error bits set, and
  later writes back exactly the value it read. Disabling twice or enabling twice touches nothing, and
  between the pairs nothing touches the register. While the driver is in the disabled state the
  saved mask is the one to be restored.
\<close>

theorem aer_mask_restored:
  assumes "aer_bridge b up pos" and "ops = a10_ops b buf1 \<or> ops = s10_ops vb wt b buf1"
    and "ioctl_run b ops fs buf0 (priv0, w0) (priv, w)"
    and "pci_dev priv0 = Some d" and "pci_upstream_dev priv0 = Some up" and "drv_st priv0 = ST_IDLE"
    and "reg_log up (pos + 8) (trace w0) = []"
  shows "\<exists>ms. reg_log up (pos + 8) (trace w) = aer_history up (pos + 8) ms (open_mask priv)"
  using assms(2)
proof
  assume eq: "ops = a10_ops b buf1"
  show ?thesis
    using a10_card.aer_invariant [OF assms(1) assms(3) [unfolded eq] assms(4-7)] by simp
next
  assume eq: "ops = s10_ops vb wt b buf1"
  show ?thesis
    using s10_card.aer_invariant [OF assms(1) assms(3) [unfolded eq] assms(4-7)] by simp
qed

lemma demo_pci_bridge: "aer_bridge demo_pci 1 0x100"
  by (auto simp: aer_bridge_def demo_pci_def intro: exI [of _ "0x80"])

definition demo_world :: "u32 world" where
  "demo_world = \<lparr>dev = 0x400000, trace = []\<rparr>"

theorem aer_mask_restored_witness:
  "\<exists>priv w ms. ioctl_run demo_pci (a10_ops demo_pci (\<lambda>_. 0)) (\<lambda>_. None) (\<lambda>_. 0) (demo_card, demo_world) (priv, w) \<and>
     drv_st priv = ST_AER_DISABLED \<and> aer_uerr_mask_reg priv = 0x400000 \<and>
     reg_log 1 0x108 (trace w) = aer_history 1 0x108 ms (Some 0x400000)"
proof -
  obtain r out priv w where io: "my_ioctl demo_pci (a10_ops demo_pci (\<lambda>_. 0)) (\<lambda>_. None) (\<lambda>_. 0) demo_card
      FPGA_DISABLE_UPSTREAM_AER demo_world = Some (r, out, priv, w)"
    and st: "drv_st priv = ST_AER_DISABLED" "aer_uerr_mask_reg priv = 0x400000"
    by (simp add: my_ioctl_def demo_card_def demo_world_def demo_pci_def disable_upstream_aer_def
        get_aer_uerr_mask_reg_def pci_find_ext_capability_def pci_read_config_dword_def
        PCI_EXP_DEVCAP_def PCI_EXP_DEVCTL_def split: prod.split)
  have run: "ioctl_run demo_pci (a10_ops demo_pci (\<lambda>_. 0)) (\<lambda>_. None) (\<lambda>_. 0) (demo_card, demo_world) (priv, w)"
    using io by (rule ioctl_run.call [OF ioctl_run.start])
  have "\<exists>ms. reg_log 1 (0x100 + 8) (trace w) = aer_history 1 (0x100 + 8) ms (open_mask priv)"
    by (rule aer_mask_restored [OF demo_pci_bridge _ run]) (auto simp: demo_card_def demo_world_def)
  then show ?thesis using run st by (auto simp: open_mask_def)
qed

text \<open>
  The ioctl that starts a reconfiguration returns 0 for every file that can be opened and is
  shorter than 2 GiB, whatever the loader returned: a file that is too short, a rejected image, a
  transfer error and a timeout all look like success to the caller. The outcome is in the
  configuration state of the private data only.
\<close>

theorem initiate_pr_always_succeeds:
  assumes "filp_open (rbf_name a) = Some fp" and "file_has fp bs" and "length bs < 2 ^ 31"
  shows "\<exists>priv' w'. my_ioctl b (a10_ops b buf1) filp_open buf0 priv (FPGA_INITIATE_PR (Some a)) w =
      Some (0, None, priv', w') \<and>
    (if length bs < 1024 then priv' = priv \<and> w' = w
     else \<exists>r st ws. priv' = priv\<lparr>config_state := st\<rparr> \<and> data_words priv w' = data_words priv w @ ws \<and>
       load_outcome bs r st ws (operating_a10 priv w'))"
proof (cases "length bs < 1024")
  case True
  then show ?thesis using a10.short_file [OF assms(2) True, of b buf1] assms(1) by (simp add: my_ioctl_def)
next
  case False
  then obtain r st ws w' where "fpga_config_buf_load (a10_ops b buf1) priv (config_timeout a) buf0 fp w =
      Some (r, priv\<lparr>config_state := st\<rparr>, w')"
    "data_words priv w' = data_words priv w @ ws" "load_outcome bs r st ws (operating_a10 priv w')"
    using a10.load_file [OF assms(2) _ assms(3), of b buf1 priv "config_timeout a" buf0 w] by auto
  then show ?thesis using assms(1) False by (auto simp: my_ioctl_def)
qed

theorem initiate_pr_always_succeeds_witness:
  "\<exists>priv' w'. my_ioctl demo_pci (a10_ops demo_pci (\<lambda>_. 0)) (\<lambda>_. Some (file_of (replicate 1024 0))) (\<lambda>_. 0)
     demo_card (FPGA_INITIATE_PR (Some \<lparr>rbf_name = ''img.rbf'', config_timeout = 3\<rparr>)) demo_world =
       Some (0, None, priv', w') \<and>
     (\<exists>r st ws. priv' = demo_card\<lparr>config_state := st\<rparr> \<and>
        load_outcome (replicate 1024 0) r st ws (operating_a10 demo_card w'))"
proof -
  have "length (replicate 1024 (0 :: u8)) < 2 ^ 31" by simp
  from initiate_pr_always_succeeds [OF _ file_has_file_of this,
      of "\<lambda>_. Some (file_of (replicate 1024 0))" "\<lparr>rbf_name = ''img.rbf'', config_timeout = 3\<rparr>"
      demo_pci "\<lambda>_. 0" "\<lambda>_. 0" demo_card demo_world]
  show ?thesis by simp blast
qed

text \<open>
  The region requests reach the register at the sign extended offset in BAR 4. A write stores
  the caller's word and reads the register back; a read hands the register's value to the caller and
  leaves the offset as it was; neither changes the private data.
\<close>

theorem region_access:
  "\<exists>x w'. my_ioctl b ops filp_open buf0 priv (FPGA_PR_REGION_WRITE (Some a)) w = Some (0, None, priv, w') \<and>
     trace w' = trace w @ [Write (pr_region priv (rw_offset a)) (rw_data a), Read (pr_region priv (rw_offset a)) x] \<and>
     (\<exists>y w''. my_ioctl b ops filp_open buf0 priv (FPGA_PR_REGION_READ (Some a) True) w' =
        Some (0, Some (a\<lparr>rw_data := y\<rparr>), priv, w'') \<and>
      trace w'' = trace w' @ [Read (pr_region priv (rw_offset a)) y])"
proof -
  let ?a = "pr_region priv (rw_offset a)"
  obtain x w' where x: "readl b ?a (writel b (rw_data a) ?a w) = (x, w')" by fastforce
  obtain y w'' where y: "readl b ?a w' = (y, w'')" by fastforce
  show ?thesis using trace_readlD [OF x] trace_readlD [OF y]
    by (simp add: my_ioctl_def x y trace_writel)
qed

end
