(* ===== verification/Pcie_Probe.thy ===== *)
theory Pcie_Probe
  imports Driver_State "HOL-Library.Multiset"
begin

text \<open>
  Bringing a card up and down: \<open>fpga_pcie_probe\<close>, \<open>fpga_pcie_remove\<close>, the functions they call and the
  entry points of the module. The kernel functions are parameters; each call that takes or
  gives back a resource is logged, and the theorems say which resources are held at the end.

  The reads of the link status in \<open>fpga_pcie_setup_pci\<close> and of \<open>PCI_EXP_DEVCTL\<close> feed log messages only
  and are left out, apart from the failure of the latter. \<open>pci_set_drvdata\<close> stores a pointer, so
  the table of driver data holds the final contents of the private data.
\<close>

section \<open>Resources\<close>

datatype resource =
    DevEnabled pci_dev | Regions pci_dev | Mapping u64
  | ChrdevRegion nat | Cdev pci_dev | ClassObj "int + nat" | DeviceNode "int + nat" nat | PciDriver
  | UioDevice pci_dev | DebugfsDir nat | Memory nat | SubDevice nat | Bound nat

datatype kevent = Get resource | Put resource

fun held :: "resource multiset \<Rightarrow> kevent list \<Rightarrow> resource multiset" where
  "held M [] = M"
| "held M (Get r # es) = held (add_mset r M) es"
| "held M (Put r # es) = held (M - {#r#}) es"

text \<open>Everything that is given back was held.\<close>

fun puts_ok :: "resource multiset \<Rightarrow> kevent list \<Rightarrow> bool" where
  "puts_ok M [] = True"
| "puts_ok M (Get r # es) = puts_ok (add_mset r M) es"
| "puts_ok M (Put r # es) = (r \<in># M \<and> puts_ok (M - {#r#}) es)"

lemma held_append [simp]: "held M (es @ es') = held (held M es) es'"
  by (induction M es rule: held.induct) auto

lemma puts_ok_append [simp]: "puts_ok M (es @ es') \<longleftrightarrow> puts_ok M es \<and> puts_ok (held M es) es'"
  by (induction M es rule: puts_ok.induct) auto

lemma held_gets [simp]: "held M (map Get rs) = M + mset rs" "puts_ok M (map Get rs)"
  by (induction rs arbitrary: M) auto

lemma held_puts [simp]: "held (M + mset rs) (map Put rs) = M" "puts_ok (M + mset rs) (map Put rs)"
  by (induction rs arbitrary: M) auto

section \<open>The kernel\<close>

record 'k kernel_api =
  api_upstream_bridge :: "pci_dev \<Rightarrow> 'k \<Rightarrow> pci_dev option"
  api_enable_device :: "pci_dev \<Rightarrow> 'k \<Rightarrow> int \<times> 'k"
  api_set_master :: "pci_dev \<Rightarrow> 'k \<Rightarrow> 'k"
  api_request_regions :: "pci_dev \<Rightarrow> 'k \<Rightarrow> int \<times> 'k"
  api_resource_start :: "pci_dev \<Rightarrow> nat \<Rightarrow> 'k \<Rightarrow> u64"
  api_ioremap_bar :: "pci_dev \<Rightarrow> nat \<Rightarrow> 'k \<Rightarrow> u64 \<times> 'k"
  api_iounmap :: "u64 \<Rightarrow> 'k \<Rightarrow> 'k"
  api_release_regions :: "pci_dev \<Rightarrow> 'k \<Rightarrow> 'k"
  api_disable_device :: "pci_dev \<Rightarrow> 'k \<Rightarrow> 'k"
  api_alloc_chrdev_region :: "'k \<Rightarrow> int \<times> nat \<times> 'k"
  api_unregister_chrdev_region :: "nat \<Rightarrow> 'k \<Rightarrow> 'k"
  api_cdev_add :: "pci_dev \<Rightarrow> nat \<Rightarrow> 'k \<Rightarrow> int \<times> 'k"
  api_cdev_del :: "pci_dev \<Rightarrow> 'k \<Rightarrow> 'k"
  api_class_create :: "'k \<Rightarrow> (int + nat) \<times> 'k"
  api_class_destroy :: "int + nat \<Rightarrow> 'k \<Rightarrow> 'k"
  api_device_create :: "int + nat \<Rightarrow> nat \<Rightarrow> 'k \<Rightarrow> int \<times> 'k"
  api_device_destroy :: "int + nat \<Rightarrow> nat \<Rightarrow> 'k \<Rightarrow> 'k"
  api_read_devctl :: "pci_dev \<Rightarrow> 'k \<Rightarrow> int"
  api_devm_kzalloc :: "'k \<Rightarrow> bool \<times> 'k"
  api_register_driver :: "'k \<Rightarrow> int \<times> 'k"
  api_unregister_driver :: "'k \<Rightarrow> 'k"
  api_debugfs_remove :: "nat \<Rightarrow> 'k \<Rightarrow> 'k"

text \<open>The state: the kernel's, the log, the driver data of the devices, and the module's globals.
  \<open>cl\<close> is a pointer to a class or an error pointer (\<open>Inl\<close>).\<close>

record 'k kbase =
  kern :: 'k
  klog :: "kevent list"

record 'k kworld = "'k kbase" +
  drvdata :: "pci_dev \<Rightarrow> fpga_pcie_priv option"
  devt :: nat
  cl :: "int + nat"

definition acquire ::
  "resource \<Rightarrow> bool \<Rightarrow> 'k \<Rightarrow> ('k, 'z) kbase_scheme \<Rightarrow> ('k, 'z) kbase_scheme" where
  "acquire r ok k w = w\<lparr>kern := k, klog := klog w @ (if ok then [Get r] else [])\<rparr>"

definition give_back ::
  "resource \<Rightarrow> ('k \<Rightarrow> 'k) \<Rightarrow> ('k, 'z) kbase_scheme \<Rightarrow> ('k, 'z) kbase_scheme" where
  "give_back r f w = w\<lparr>kern := f (kern w), klog := klog w @ [Put r]\<rparr>"

lemma acquire_simps [simp]:
  "klog (acquire r ok k v) = klog v @ (if ok then [Get r] else [])" "kern (acquire r ok k v) = k"
  "drvdata (acquire r ok k w) = drvdata w" "devt (acquire r ok k w) = devt w" "cl (acquire r ok k w) = cl w"
  by (simp_all add: acquire_def)

lemma give_back_simps [simp]:
  "klog (give_back r f v) = klog v @ [Put r]" "kern (give_back r f v) = f (kern v)" "drvdata (give_back r f w) = drvdata w"
  "devt (give_back r f w) = devt w" "cl (give_back r f w) = cl w"
  by (simp_all add: give_back_def)

section \<open>The PCI device\<close>

fun unmap_bars :: "'k kernel_api \<Rightarrow> fpga_pcie_priv \<Rightarrow> nat list \<Rightarrow> 'k kworld \<Rightarrow> 'k kworld" where
  "unmap_bars api priv [] w = w"
| "unmap_bars api priv (i # is) w =
     unmap_bars api priv is
       (if bar_addrs priv i \<noteq> 0 then give_back (Mapping (bar_addrs priv i)) (api_iounmap api (bar_addrs priv i)) w
        else w)"

definition fpga_pcie_shutdown_pci ::
  "'k kernel_api \<Rightarrow> pci_dev \<Rightarrow> fpga_pcie_priv \<Rightarrow> 'k kworld \<Rightarrow> 'k kworld" where
  "fpga_pcie_shutdown_pci api d priv w =
     (let w = unmap_bars api priv [0..<ALTR_PCI_CVP_NUM_BARS] w;
          w = give_back (Regions d) (api_release_regions api d) w
      in give_back (DevEnabled d) (api_disable_device api d) w)"

fun map_bars ::
  "'k kernel_api \<Rightarrow> pci_dev \<Rightarrow> nat list \<Rightarrow> fpga_pcie_priv \<Rightarrow> 'k kworld \<Rightarrow> bool \<times> fpga_pcie_priv \<times> 'k kworld" where
  "map_bars api d [] priv w = (True, priv, w)"
| "map_bars api d (i # is) priv w =
     (if api_resource_start api d i (kern w) \<noteq> 0
      then let (a, k) = api_ioremap_bar api d i (kern w);
               w = acquire (Mapping a) (a \<noteq> 0) k w;
               priv = priv\<lparr>bar_addrs := (bar_addrs priv)(i := a)\<rparr>
           in if a = 0 then (False, priv, w) else map_bars api d is priv w
      else map_bars api d is priv w)"

definition setup_body ::
  "'k kernel_api \<Rightarrow> pci_dev \<Rightarrow> fpga_pcie_priv \<Rightarrow> 'k kworld \<Rightarrow> int \<times> fpga_pcie_priv \<times> 'k kworld" where
  "setup_body api d priv w =
     (let priv = priv\<lparr>pci_dev := Some d\<rparr>;
          priv = priv\<lparr>pci_upstream_dev := api_upstream_bridge api d (kern w)\<rparr>
      in if pci_upstream_dev priv = None then (- EINVAL, priv, w)
         else let (ret, k) = api_enable_device api d (kern w);
                  w = acquire (DevEnabled d) (ret = 0) k w
              in if ret \<noteq> 0 then (- EIO, priv, w)
                 else let w = w\<lparr>kern := api_set_master api d (kern w)\<rparr>;
                          (ret, k) = api_request_regions api d (kern w);
                          w = acquire (Regions d) (ret = 0) k w
                      in if ret \<noteq> 0
                         then (- EIO, priv, give_back (DevEnabled d) (api_disable_device api d) w)
                         else let (ok, priv, w) = map_bars api d [0..<ALTR_PCI_CVP_NUM_BARS] priv w
                              in if ok
                                 then (0, priv\<lparr>reg_base := bar_addrs priv ALTR_PCI_CVP_CONFIG_BAR + ALTR_PR_IP_OFFSET\<rparr>, w)
                                 else (- EIO, priv, fpga_pcie_shutdown_pci api d priv w))"

definition fpga_pcie_setup_pci ::
  "'k kernel_api \<Rightarrow> pci_dev \<Rightarrow> fpga_pcie_priv \<Rightarrow> 'k kworld \<Rightarrow> int \<times> fpga_pcie_priv \<times> 'k kworld" where
  "fpga_pcie_setup_pci api d priv w =
     (let (ret, priv, w) = setup_body api d priv w
      in (ret, priv, w\<lparr>drvdata := (drvdata w)(d := Some priv)\<rparr>))"

section \<open>The character device\<close>

text \<open>\<open>0x1b6\<close> is the octal mode 0666.\<close>

definition tty_devnode :: "u32 option \<Rightarrow> u32 option" where
  "tty_devnode mode = (case mode of None \<Rightarrow> None | Some _ \<Rightarrow> Some 0x1b6)"

definition init_chrdev :: "'k kernel_api \<Rightarrow> pci_dev \<Rightarrow> 'k kworld \<Rightarrow> int \<times> 'k kworld" where
  "init_chrdev api d w =
     (let (ret, t, k) = api_alloc_chrdev_region api (kern w);
          w = acquire (ChrdevRegion t) (ret \<ge> 0) k w
      in if ret < 0 then (ret, w)
         else let w = w\<lparr>devt := t\<rparr>;
                  (ret, k) = api_cdev_add api d (devt w) (kern w);
                  w = acquire (Cdev d) (ret \<ge> 0) k w
              in if ret < 0 then (ret, w)
                 else let (c, k) = api_class_create api (kern w);
                          w = w\<lparr>cl := c\<rparr>
                      in (case c of
                            Inl err \<Rightarrow>
                              let w = w\<lparr>kern := k\<rparr>;
                                  w = give_back (Cdev d) (api_cdev_del api d) w;
                                  w = give_back (ChrdevRegion (devt w)) (api_unregister_chrdev_region api (devt w)) w
                              in (err, w)
                          | Inr _ \<Rightarrow>
                              let w = acquire (ClassObj c) True k w;
                                  (ret, k) = api_device_create api (cl w) (devt w) (kern w);
                                  w = acquire (DeviceNode (cl w) (devt w)) (ret \<ge> 0) k w
                              in if ret < 0
                                 then let w = give_back (ClassObj (cl w)) (api_class_destroy api (cl w)) w;
                                          w = give_back (Cdev d) (api_cdev_del api d) w;
                                          w = give_back (ChrdevRegion (devt w)) (api_unregister_chrdev_region api (devt w)) w
                                      in (ret, w)
                                 else (0, w)))"

section \<open>Probe and remove\<close>

definition zero_priv :: fpga_pcie_priv where
  "zero_priv = \<lparr>bar_addrs = (\<lambda>_. 0), debugfs_root = 0, pci_dev = None, pci_upstream_dev = None, aer_uerr_mask_reg = 0,
     drv_st = ST_IDLE, config_state = FPGA_CONFIG_STATE_UNKNOWN, reg_base = 0\<rparr>"

definition fpga_pcie_probe :: "'k kernel_api \<Rightarrow> pci_dev \<Rightarrow> 'k kworld \<Rightarrow> int \<times> 'k kworld" where
  "fpga_pcie_probe api d w =
     (if api_read_devctl api d (kern w) \<noteq> 0 then (- EINVAL, w)
      else let (ok, k) = api_devm_kzalloc api (kern w);
               w = w\<lparr>kern := k\<rparr>
           in if \<not> ok then (- ENOMEM, w)
              else let priv = zero_priv\<lparr>drv_st := ST_IDLE\<rparr>;
                       (err, priv, w) = fpga_pcie_setup_pci api d priv w
                   in if err \<noteq> 0 then (err, w)
                      else let (err, w) = init_chrdev api d w
                           in if err \<noteq> 0 then (err, w) else (0, w))"

text \<open>
  \<open>None\<close> is a NULL pointer followed by the kernel: a device that was never probed. The driver tests the field
  \<open>debugfs_root\<close>, which nothing in it sets.
\<close>

definition fpga_pcie_remove :: "'k kernel_api \<Rightarrow> pci_dev \<Rightarrow> 'k kworld \<Rightarrow> 'k kworld option" where
  "fpga_pcie_remove api d w =
     (let w' = give_back (DeviceNode (cl w) (devt w)) (api_device_destroy api (cl w) (devt w)) w;
          w' = give_back (ClassObj (cl w')) (api_class_destroy api (cl w')) w'
      in (case drvdata w d of
            None \<Rightarrow> None
          | Some priv \<Rightarrow>
              let w = give_back (Cdev d) (api_cdev_del api d) w';
                  w = give_back (ChrdevRegion (devt w)) (api_unregister_chrdev_region api (devt w)) w;
                  w = fpga_pcie_shutdown_pci api d priv w
              in Some (if debugfs_root priv \<noteq> 0
                       then give_back (DebugfsDir (debugfs_root priv)) (api_debugfs_remove api (debugfs_root priv)) w
                       else w)))"

section \<open>The module\<close>

definition fpga_pcie_register_driver :: "'k kernel_api \<Rightarrow> 'k kworld \<Rightarrow> int \<times> 'k kworld" where
  "fpga_pcie_register_driver api w =
     (let (ret, k) = api_register_driver api (kern w) in (ret, acquire PciDriver (ret \<ge> 0) k w))"

definition fpga_pcie_unregister_driver :: "'k kernel_api \<Rightarrow> 'k kworld \<Rightarrow> 'k kworld" where
  "fpga_pcie_unregister_driver api w = give_back PciDriver (api_unregister_driver api) w"

definition fpga_pcie_init :: "'k kernel_api \<Rightarrow> 'k kworld \<Rightarrow> int \<times> 'k kworld" where
  "fpga_pcie_init api w =
     (let (err, w) = fpga_pcie_register_driver api w
      in if err < 0 then (err, fpga_pcie_unregister_driver api w) else (0, w))"

definition fpga_pcie_exit :: "'k kernel_api \<Rightarrow> 'k kworld \<Rightarrow> 'k kworld" where
  "fpga_pcie_exit api w = fpga_pcie_unregister_driver api w"

section \<open>What is held at the end\<close>

definition bars :: "fpga_pcie_priv \<Rightarrow> nat list \<Rightarrow> resource list" where
  "bars priv is = map Mapping (filter (\<lambda>a. a \<noteq> 0) (map (bar_addrs priv) is))"

definition pci_resources :: "pci_dev \<Rightarrow> fpga_pcie_priv \<Rightarrow> resource list" where
  "pci_resources d priv = bars priv [0..<ALTR_PCI_CVP_NUM_BARS] @ [Regions d, DevEnabled d]"

definition chrdev_resources :: "pci_dev \<Rightarrow> 'k kworld \<Rightarrow> resource list" where
  "chrdev_resources d w = [DeviceNode (cl w) (devt w), ClassObj (cl w), Cdev d, ChrdevRegion (devt w)]"

lemma bars_simps [simp]:
  "bars priv [] = []"
  "bars priv (i # is) = (if bar_addrs priv i \<noteq> 0 then [Mapping (bar_addrs priv i)] else []) @ bars priv is"
  by (simp_all add: bars_def)

lemma bars_cong: "(\<And>i. i \<in> set is \<Longrightarrow> bar_addrs p i = bar_addrs q i) \<Longrightarrow> bars p is = bars q is"
  by (induction "is") auto

lemma bars_zero: "(\<And>i. i \<in> set is \<Longrightarrow> bar_addrs p i = 0) \<Longrightarrow> bars p is = []"
  by (induction "is") auto

lemma unmap_bars_log: "klog (unmap_bars api priv is w) = klog w @ map Put (bars priv is)"
  by (induction "is" arbitrary: w) auto

lemma shutdown_log: "klog (fpga_pcie_shutdown_pci api d priv w) = klog w @ map Put (pci_resources d priv)"
  by (simp add: fpga_pcie_shutdown_pci_def pci_resources_def unmap_bars_log)

lemma map_bars_spec:
  assumes "map_bars api d is priv w = (ok, priv', w')" and "distinct is"
    and "\<And>i. i \<in> set is \<Longrightarrow> bar_addrs priv i = 0"
  shows "klog w' = klog w @ map Get (bars priv' is) \<and> (\<forall>j. j \<notin> set is \<longrightarrow> bar_addrs priv' j = bar_addrs priv j) \<and>
    pci_dev priv' = pci_dev priv \<and> pci_upstream_dev priv' = pci_upstream_dev priv \<and> debugfs_root priv' = debugfs_root priv"
  using assms
proof (induction "is" arbitrary: priv w)
  case (Cons i "is")
  obtain a k where a: "api_ioremap_bar api d i (kern w) = (a, k)" by fastforce
  let ?priv = "priv\<lparr>bar_addrs := (bar_addrs priv)(i := a)\<rparr>"
  consider (unused) "api_resource_start api d i (kern w) = 0"
    | (failed) "api_resource_start api d i (kern w) \<noteq> 0" "a = 0"
    | (mapped) "api_resource_start api d i (kern w) \<noteq> 0" "a \<noteq> 0" by blast
  then show ?case
  proof cases
    case unused
    with Cons.prems have "klog w' = klog w @ map Get (bars priv' is) \<and>
        (\<forall>j. j \<notin> set is \<longrightarrow> bar_addrs priv' j = bar_addrs priv j) \<and>
        pci_dev priv' = pci_dev priv \<and> pci_upstream_dev priv' = pci_upstream_dev priv \<and>
        debugfs_root priv' = debugfs_root priv"
      by (intro Cons.IH) auto
    with Cons.prems show ?thesis by auto
  next
    case failed
    with Cons.prems a have "priv' = ?priv" "klog w' = klog w" by auto
    moreover have "bars ?priv (i # is) = []" using failed Cons.prems by (intro bars_zero) auto
    ultimately show ?thesis using failed by simp
  next
    case mapped
    with Cons.prems a have "klog w' = klog (acquire (Mapping a) (a \<noteq> 0) k w) @ map Get (bars priv' is) \<and>
        (\<forall>j. j \<notin> set is \<longrightarrow> bar_addrs priv' j = bar_addrs ?priv j) \<and>
        pci_dev priv' = pci_dev ?priv \<and> pci_upstream_dev priv' = pci_upstream_dev ?priv \<and>
        debugfs_root priv' = debugfs_root ?priv"
      by (intro Cons.IH) auto
    with Cons.prems mapped show ?thesis by auto
  qed
qed simp

lemma held_puts_mset: "mset rs \<subseteq># M \<Longrightarrow> held M (map Put rs) = M - mset rs \<and> puts_ok M (map Put rs)"
proof -
  assume "mset rs \<subseteq># M"
  then obtain N where "M = N + mset rs" by (metis add.commute subset_mset.less_eqE)
  then show ?thesis by simp
qed

lemma setup_body_spec:
  assumes "setup_body api d priv w = (r, priv', w')" and zero: "\<And>i. bar_addrs priv i = 0"
  shows "\<exists>t. klog w' = klog w @ t \<and> puts_ok M t \<and>
    held M t = (if r = 0 then M + mset (pci_resources d priv') else M) \<and>
    (r = 0 \<longrightarrow> pci_dev priv' = Some d \<and> pci_upstream_dev priv' \<noteq> None \<and> debugfs_root priv' = debugfs_root priv)"
proof -
  define up where "up = api_upstream_bridge api d (kern w)"
  define p where "p = priv\<lparr>pci_dev := Some d, pci_upstream_dev := up\<rparr>"
  obtain r1 k1 where 1: "api_enable_device api d (kern w) = (r1, k1)" by fastforce
  let ?k = "api_set_master api d k1"
  obtain r2 k2 where 2: "api_request_regions api d ?k = (r2, k2)" by fastforce
  let ?w2 = "acquire (Regions d) (r2 = 0) k2 (acquire (DevEnabled d) (r1 = 0) k1 w\<lparr>kern := ?k\<rparr>)"
  obtain ok q w3 where 3: "map_bars api d [0..<ALTR_PCI_CVP_NUM_BARS] p ?w2 = (ok, q, w3)" by (metis prod_cases3)
  have map: "klog w3 = klog ?w2 @ map Get (bars q [0..<ALTR_PCI_CVP_NUM_BARS])"
    "pci_dev q = Some d" "pci_upstream_dev q = up" "debugfs_root q = debugfs_root priv"
    using map_bars_spec [OF 3] zero by (auto simp: p_def)
  note run = assms(1) [unfolded setup_body_def Let_def up_def [symmetric]]
  consider (no_bridge) "up = None" | (no_enable) "up \<noteq> None" "r1 \<noteq> 0"
    | (no_regions) "up \<noteq> None" "r1 = 0" "r2 \<noteq> 0" | (no_map) "up \<noteq> None" "r1 = 0" "r2 = 0" "\<not> ok"
    | (fine) "up \<noteq> None" "r1 = 0" "r2 = 0" ok by blast
  then show ?thesis
  proof cases
    case no_map
    then have "r = - EIO" "w' = fpga_pcie_shutdown_pci api d q w3"
      using run 3 by (auto simp: 1 2 p_def)
    moreover have "klog w3 = klog w @ Get (DevEnabled d) # Get (Regions d) #
        map Get (bars q [0..<ALTR_PCI_CVP_NUM_BARS])" using map(1) no_map by simp
    moreover have "mset (pci_resources d q) \<subseteq># M + mset (pci_resources d q)" by simp
    from held_puts_mset [OF this] have "held (M + mset (pci_resources d q)) (map Put (pci_resources d q)) = M"
      "puts_ok (M + mset (pci_resources d q)) (map Put (pci_resources d q))" by simp_all
    ultimately show ?thesis
      by (intro exI [of _ "Get (DevEnabled d) # Get (Regions d) # map Get (bars q [0..<ALTR_PCI_CVP_NUM_BARS]) @
          map Put (pci_resources d q)"]) (simp add: shutdown_log EIO_def pci_resources_def)
  next
    case fine
    then have "r = 0" "w' = w3" "bars priv' = bars q" "pci_dev priv' = Some d" "pci_upstream_dev priv' = up"
      "debugfs_root priv' = debugfs_root priv"
      using run 3 map by (auto simp: 1 2 p_def bars_def fun_eq_iff)
    then show ?thesis using map(1) fine
      by (intro exI [of _ "Get (DevEnabled d) # Get (Regions d) # map Get (bars q [0..<ALTR_PCI_CVP_NUM_BARS])"])
        (simp add: pci_resources_def)
  qed (use run in \<open>auto simp: 1 2 p_def EIO_def EINVAL_def\<close>)
qed

text \<open>An error pointer stands for a negative number, as \<open>IS_ERR\<close> has it.\<close>

definition error_pointers :: "'k kernel_api \<Rightarrow> bool" where
  "error_pointers api \<longleftrightarrow> (\<forall>k err k'. api_class_create api k = (Inl err, k') \<longrightarrow> err < 0)"

lemma zero_priv_idle: "zero_priv\<lparr>drv_st := ST_IDLE\<rparr> = zero_priv"
  by (simp add: zero_priv_def)

lemma init_chrdev_spec:
  assumes "init_chrdev api d w = (r, w')" and "error_pointers api"
  shows "\<exists>t. klog w' = klog w @ t \<and> puts_ok M t \<and> drvdata w' = drvdata w \<and> r \<le> 0 \<and>
    (if r = 0 then held M t = M + mset (chrdev_resources d w')
     else held M t = M \<or> held M t = add_mset (ChrdevRegion (devt w')) M)"
proof -
  obtain r1 t k1 where 1: "api_alloc_chrdev_region api (kern w) = (r1, t, k1)" by (metis prod_cases3)
  obtain r2 k2 where 2: "api_cdev_add api d t k1 = (r2, k2)" by fastforce
  obtain c k3 where 3: "api_class_create api k2 = (c, k3)" by fastforce
  obtain r4 k4 where 4: "api_device_create api c t k3 = (r4, k4)" by fastforce
  note run = assms(1) [unfolded init_chrdev_def Let_def]
  consider (no_region) "r1 < 0" | (no_cdev) "r1 \<ge> 0" "r2 < 0"
    | (no_class) err where "r1 \<ge> 0" "r2 \<ge> 0" "c = Inl err"
    | (no_dev) x where "r1 \<ge> 0" "r2 \<ge> 0" "c = Inr x" "r4 < 0"
    | (fine) x where "r1 \<ge> 0" "r2 \<ge> 0" "c = Inr x" "r4 \<ge> 0"
    by (metis linorder_not_le sum.exhaust)
  then show ?thesis
  proof cases
    case no_class
    then have "err < 0" using assms(2) 3 by (auto simp: error_pointers_def)
    then show ?thesis using run no_class by (auto simp: 1 2 3 4)
  qed (use run 4 in \<open>auto simp: 1 2 3 chrdev_resources_def\<close>)
qed

section \<open>Properties\<close>

text \<open>
  A probe of a card that fails in \<open>fpga_pcie_setup_pci\<close> gives back everything it took, in every
  error branch and wherever the mapping of the BARs stops; a successful one holds the enabled
  device, its regions and exactly the mappings recorded in the private data, whose device and
  upstream bridge are set.
\<close>

theorem setup_pci_balanced:
  assumes "fpga_pcie_setup_pci api d zero_priv w = (r, priv', w')"
  shows "\<exists>t. klog w' = klog w @ t \<and> puts_ok M t \<and> drvdata w' d = Some priv' \<and>
    held M t = (if r = 0 then M + mset (pci_resources d priv') else M) \<and>
    (r \<noteq> 0 \<or> pci_dev priv' = Some d \<and> pci_upstream_dev priv' \<noteq> None)"
proof -
  obtain w1 where w1: "setup_body api d zero_priv w = (r, priv', w1)" "w' = w1\<lparr>drvdata := (drvdata w1)(d := Some priv')\<rparr>"
    using assms by (auto simp: fpga_pcie_setup_pci_def split: prod.splits)
  show ?thesis using setup_body_spec [OF w1(1), of M] w1(2) by (auto simp: zero_priv_def)
qed

definition demo_kernel :: "bool \<Rightarrow> nat kernel_api" where
  "demo_kernel chr_ok =
     \<lparr>api_upstream_bridge = (\<lambda>d k. Some 9), api_enable_device = (\<lambda>d k. (0, k)), api_set_master = (\<lambda>d k. k),
      api_request_regions = (\<lambda>d k. (0, k)), api_resource_start = (\<lambda>d i k. if i = 2 \<or> i = 4 then 1 else 0),
      api_ioremap_bar = (\<lambda>d i k. (of_nat (i * 0x10000), k)), api_iounmap = (\<lambda>a k. k),
      api_release_regions = (\<lambda>d k. k), api_disable_device = (\<lambda>d k. k),
      api_alloc_chrdev_region = (\<lambda>k. (0, k, k + 1)), api_unregister_chrdev_region = (\<lambda>t k. k),
      api_cdev_add = (\<lambda>d t k. (if chr_ok then 0 else - 12, k)), api_cdev_del = (\<lambda>d k. k),
      api_class_create = (\<lambda>k. (Inr k, k)), api_class_destroy = (\<lambda>c k. k),
      api_device_create = (\<lambda>c t k. (0, k)), api_device_destroy = (\<lambda>c t k. k),
      api_read_devctl = (\<lambda>d k. 0), api_devm_kzalloc = (\<lambda>k. (True, k)),
      api_register_driver = (\<lambda>k. (if chr_ok then 0 else - 16, k)), api_unregister_driver = (\<lambda>k. k),
      api_debugfs_remove = (\<lambda>r k. k)\<rparr>"

definition demo_kworld :: "nat kworld" where
  "demo_kworld = \<lparr>kern = 0, klog = [], drvdata = (\<lambda>_. None), devt = 0, cl = Inl 0\<rparr>"

theorem setup_pci_balanced_witness:
  "\<exists>r priv' w' t. fpga_pcie_setup_pci (demo_kernel True) 3 zero_priv demo_kworld = (r, priv', w') \<and>
     klog w' = t \<and> puts_ok {#} t \<and> held {#} t = (if r = 0 then mset (pci_resources 3 priv') else {#})"
proof -
  obtain r priv' w' where run: "fpga_pcie_setup_pci (demo_kernel True) 3 zero_priv demo_kworld = (r, priv', w')"
    by (metis prod_cases3)
  show ?thesis using run setup_pci_balanced [OF run, of "{#}"] by (auto simp: demo_kworld_def)
qed

text \<open>
  C5. After a successful probe, removing the card gives back everything the probe took, each
  resource once, and leaves held what was held before.
\<close>

theorem probe_remove_balanced:
  assumes "fpga_pcie_probe api d w = (0, w1)" and "error_pointers api"
  shows "\<exists>w2 t. fpga_pcie_remove api d w1 = Some w2 \<and> klog w2 = klog w @ t \<and> puts_ok M t \<and> held M t = M"
proof -
  obtain k priv w0 where su: "fpga_pcie_setup_pci api d zero_priv (w\<lparr>kern := k\<rparr>) = (0, priv, w0)"
    and chr: "init_chrdev api d w0 = (0, w1)"
    using assms(1)
    by (auto simp: fpga_pcie_probe_def zero_priv_idle Let_def EINVAL_def ENOMEM_def split: prod.splits if_splits)
  then obtain w00 where body: "setup_body api d zero_priv (w\<lparr>kern := k\<rparr>) = (0, priv, w00)"
    and w0: "w0 = w00\<lparr>drvdata := (drvdata w00)(d := Some priv)\<rparr>"
    by (auto simp: fpga_pcie_setup_pci_def split: prod.splits)
  obtain t where t: "klog w0 = klog w @ t" "puts_ok M t" "held M t = M + mset (pci_resources d priv)" "debugfs_root priv = 0"
    using setup_body_spec [OF body, of M] w0 by (auto simp: zero_priv_def)
  let ?N = "M + mset (pci_resources d priv)"
  obtain u where u: "klog w1 = klog w0 @ u" "puts_ok ?N u" "drvdata w1 = drvdata w0"
    "held ?N u = ?N + mset (chrdev_resources d w1)"
    using init_chrdev_spec [OF chr assms(2), of ?N] by auto
  let ?puts = "map Put (chrdev_resources d w1) @ map Put (pci_resources d priv)"
  have "drvdata w1 d = Some priv" using u w0 by simp
  then have rm: "\<exists>w2. fpga_pcie_remove api d w1 = Some w2 \<and> klog w2 = klog w1 @ ?puts"
    using t(4) by (simp add: fpga_pcie_remove_def chrdev_resources_def shutdown_log)
  have "puts_ok M (t @ u @ ?puts) \<and> held M (t @ u @ ?puts) = M"
    using t u held_puts [of ?N "chrdev_resources d w1"] held_puts [of M "pci_resources d priv"] by simp
  then show ?thesis using rm t u by (metis append.assoc)
qed

theorem probe_remove_balanced_witness:
  "\<exists>w1 w2 t. fpga_pcie_probe (demo_kernel True) 3 demo_kworld = (0, w1) \<and>
     fpga_pcie_remove (demo_kernel True) 3 w1 = Some w2 \<and> klog w2 = t \<and> held {#} t = {#}"
proof -
  have "\<exists>w1. fpga_pcie_probe (demo_kernel True) 3 demo_kworld = (0, w1)"
    by (simp add: fpga_pcie_probe_def fpga_pcie_setup_pci_def setup_body_def init_chrdev_def demo_kernel_def
        demo_kworld_def zero_priv_def ALTR_PCI_CVP_NUM_BARS_def upt_rec acquire_def)
  then obtain w1 where run: "fpga_pcie_probe (demo_kernel True) 3 demo_kworld = (0, w1)" by blast
  have "error_pointers (demo_kernel True)" by (simp add: error_pointers_def demo_kernel_def)
  from probe_remove_balanced [OF run this, of "{#}"] run show ?thesis by (auto simp: demo_kworld_def)
qed

text \<open>
  When the character device cannot be created, the probe fails and keeps what \<open>fpga_pcie_setup_pci\<close>
  took: the device stays enabled, its regions requested and its BARs mapped, with nothing left to
  release them; a failing \<open>cdev_add\<close> also keeps the device number.
\<close>

theorem probe_failure_keeps_pci:
  assumes "api_read_devctl api d (kern w) = 0" and "api_devm_kzalloc api (kern w) = (True, k)"
    and "fpga_pcie_setup_pci api d zero_priv (w\<lparr>kern := k\<rparr>) = (0, priv, w0)"
    and "init_chrdev api d w0 = (err, w1)" and "err \<noteq> 0" and "error_pointers api"
  shows "\<exists>t. fpga_pcie_probe api d w = (err, w1) \<and> klog w1 = klog w @ t \<and>
    (held M t = M + mset (pci_resources d priv) \<or>
     held M t = add_mset (ChrdevRegion (devt w1)) (M + mset (pci_resources d priv)))"
proof -
  obtain w00 where body: "setup_body api d zero_priv (w\<lparr>kern := k\<rparr>) = (0, priv, w00)"
    and w0: "w0 = w00\<lparr>drvdata := (drvdata w00)(d := Some priv)\<rparr>"
    using assms(3) by (auto simp: fpga_pcie_setup_pci_def split: prod.splits)
  obtain t where t: "klog w0 = klog w @ t" "held M t = M + mset (pci_resources d priv)"
    using setup_body_spec [OF body, of M] w0 by (auto simp: zero_priv_def)
  obtain u where u: "klog w1 = klog w0 @ u" "held (held M t) u = held M t \<or>
      held (held M t) u = add_mset (ChrdevRegion (devt w1)) (held M t)"
    using init_chrdev_spec [OF assms(4,6), of "held M t"] assms(5) by auto
  have "fpga_pcie_probe api d w = (err, w1)" using assms by (simp add: fpga_pcie_probe_def zero_priv_idle)
  then show ?thesis using t u by (intro exI [of _ "t @ u"]) auto
qed

theorem probe_failure_keeps_pci_witness:
  "\<exists>err w1 t. fpga_pcie_probe (demo_kernel False) 3 demo_kworld = (err, w1) \<and> err \<noteq> 0 \<and> klog w1 = t \<and>
     DevEnabled 3 \<in># held {#} t \<and> Regions 3 \<in># held {#} t"
proof -
  let ?api = "demo_kernel False"
  obtain r priv w0 where su: "fpga_pcie_setup_pci ?api 3 zero_priv (demo_kworld\<lparr>kern := 0\<rparr>) = (r, priv, w0)"
    by (metis prod_cases3)
  have r: "r = 0" using su
    by (auto simp: fpga_pcie_setup_pci_def setup_body_def demo_kernel_def demo_kworld_def zero_priv_def
        ALTR_PCI_CVP_NUM_BARS_def upt_rec acquire_def)
  obtain err w1 where chr: "init_chrdev ?api 3 w0 = (err, w1)" by fastforce
  have err: "err \<noteq> 0" using chr by (auto simp: init_chrdev_def demo_kernel_def)
  have "error_pointers ?api" by (simp add: error_pointers_def demo_kernel_def)
  from probe_failure_keeps_pci [OF _ _ su [unfolded r] chr err this, of "{#}"] err show ?thesis
    by (auto simp: demo_kernel_def demo_kworld_def pci_resources_def)
qed

text \<open>
  A module whose registration fails unregisters the driver all the same: it gives back a
  registration that it does not hold.
\<close>

theorem failed_init_unregisters:
  assumes "api_register_driver api (kern w) = (err, k)" and "err < 0" and "PciDriver \<notin># M"
  shows "\<exists>w' t. fpga_pcie_init api w = (err, w') \<and> klog w' = klog w @ t \<and> \<not> puts_ok M t"
  using assms
  by (simp add: fpga_pcie_init_def fpga_pcie_register_driver_def fpga_pcie_unregister_driver_def)

theorem failed_init_unregisters_witness:
  "\<exists>w' t. fpga_pcie_init (demo_kernel False) demo_kworld = (- 16, w') \<and> klog w' = t \<and> \<not> puts_ok {#} t"
  using failed_init_unregisters [of "demo_kernel False" demo_kworld "- 16" 0 "{#}"]
  by (simp add: demo_kernel_def demo_kworld_def)

end
