(* ===== verification/Fpga_Mgr.thy ===== *)
theory Fpga_Mgr
  imports Config_Load
begin

text \<open>
  The FPGA manager framework of the older driver stack, \<open>fpga-mgr.c\<close> and \<open>linux/fpga/fpga-mgr.h\<close>:
  loading an image through the operations of a low level driver, exclusive references to a
  manager, and registration. Function pointers may be NULL, so the fields of the operations are
  options, and \<open>None\<close> as the result of a call is a NULL pointer that the kernel follows.
\<close>

section \<open>Data\<close>

datatype fpga_mgr_states =
    FPGA_MGR_STATE_UNKNOWN | FPGA_MGR_STATE_POWER_OFF | FPGA_MGR_STATE_POWER_UP | FPGA_MGR_STATE_RESET
  | FPGA_MGR_STATE_FIRMWARE_REQ | FPGA_MGR_STATE_FIRMWARE_REQ_ERR
  | FPGA_MGR_STATE_WRITE_INIT | FPGA_MGR_STATE_WRITE_INIT_ERR
  | FPGA_MGR_STATE_WRITE | FPGA_MGR_STATE_WRITE_ERR
  | FPGA_MGR_STATE_WRITE_COMPLETE | FPGA_MGR_STATE_WRITE_COMPLETE_ERR
  | FPGA_MGR_STATE_OPERATING

fun state_str :: "fpga_mgr_states \<Rightarrow> string" where
  "state_str FPGA_MGR_STATE_UNKNOWN = ''unknown''"
| "state_str FPGA_MGR_STATE_POWER_OFF = ''power off''"
| "state_str FPGA_MGR_STATE_POWER_UP = ''power up''"
| "state_str FPGA_MGR_STATE_RESET = ''reset''"
| "state_str FPGA_MGR_STATE_FIRMWARE_REQ = ''firmware request''"
| "state_str FPGA_MGR_STATE_FIRMWARE_REQ_ERR = ''firmware request error''"
| "state_str FPGA_MGR_STATE_WRITE_INIT = ''write init''"
| "state_str FPGA_MGR_STATE_WRITE_INIT_ERR = ''write init error''"
| "state_str FPGA_MGR_STATE_WRITE = ''write''"
| "state_str FPGA_MGR_STATE_WRITE_ERR = ''write error''"
| "state_str FPGA_MGR_STATE_WRITE_COMPLETE = ''write complete''"
| "state_str FPGA_MGR_STATE_WRITE_COMPLETE_ERR = ''write complete error''"
| "state_str FPGA_MGR_STATE_OPERATING = ''operating''"

definition FPGA_MGR_PARTIAL_RECONFIG :: u32 where [const_defs]: "FPGA_MGR_PARTIAL_RECONFIG = BIT 0"

record fpga_image_info =
  flags :: u32
  enable_timeout_us :: u32
  disable_timeout_us :: u32
  config_complete_timeout_us :: u32

record ('p, 'w) fpga_manager_ops =
  op_state :: "('p \<Rightarrow> 'w \<Rightarrow> fpga_mgr_states \<times> 'w) option"
  op_write_init :: "('p \<Rightarrow> fpga_image_info \<Rightarrow> cbuf \<Rightarrow> nat \<Rightarrow> 'w \<Rightarrow> int \<times> 'w) option"
  op_write :: "('p \<Rightarrow> cbuf \<Rightarrow> nat \<Rightarrow> 'w \<Rightarrow> int \<times> 'w) option"
  op_write_complete :: "('p \<Rightarrow> fpga_image_info \<Rightarrow> 'w \<Rightarrow> int \<times> 'w) option"
  op_fpga_remove :: "('p \<Rightarrow> 'w \<Rightarrow> 'w) option"

record ('p, 'w) fpga_manager =
  mgr_name :: string
  ref_mutex :: bool
  mgr_state :: fpga_mgr_states
  mops :: "('p, 'w) fpga_manager_ops"
  mgr_priv :: 'p
  mgr_id :: nat
  mgr_parent :: nat
  mgr_of_node :: nat

definition name_show :: "('p, 'w) fpga_manager \<Rightarrow> string" where
  "name_show mgr = mgr_name mgr @ [CHR 0x0A]"

definition state_show :: "('p, 'w) fpga_manager \<Rightarrow> string" where
  "state_show mgr = state_str (mgr_state mgr) @ [CHR 0x0A]"

section \<open>Loading an image\<close>

definition fpga_mgr_buf_load ::
  "('p, 'w) fpga_manager \<Rightarrow> fpga_image_info \<Rightarrow> cbuf \<Rightarrow> nat \<Rightarrow> 'w \<Rightarrow>
   (int \<times> ('p, 'w) fpga_manager \<times> 'w) option" where
  "fpga_mgr_buf_load mgr info buf count w =
     do {
       let mgr = mgr\<lparr>mgr_state := FPGA_MGR_STATE_WRITE_INIT\<rparr>;
       write_init \<leftarrow> op_write_init (mops mgr);
       let (ret, w) = write_init (mgr_priv mgr) info buf count w;
       if ret \<noteq> 0 then Some (ret, mgr\<lparr>mgr_state := FPGA_MGR_STATE_WRITE_INIT_ERR\<rparr>, w)
       else do {
         let mgr = mgr\<lparr>mgr_state := FPGA_MGR_STATE_WRITE\<rparr>;
         write \<leftarrow> op_write (mops mgr);
         let (ret, w) = write (mgr_priv mgr) buf count w;
         if ret \<noteq> 0 then Some (ret, mgr\<lparr>mgr_state := FPGA_MGR_STATE_WRITE_ERR\<rparr>, w)
         else do {
           let mgr = mgr\<lparr>mgr_state := FPGA_MGR_STATE_WRITE_COMPLETE\<rparr>;
           write_complete \<leftarrow> op_write_complete (mops mgr);
           let (ret, w) = write_complete (mgr_priv mgr) info w;
           if ret \<noteq> 0 then Some (ret, mgr\<lparr>mgr_state := FPGA_MGR_STATE_WRITE_COMPLETE_ERR\<rparr>, w)
           else Some (0, mgr\<lparr>mgr_state := FPGA_MGR_STATE_OPERATING\<rparr>, w)
         }
       }
     }"

text \<open>
  \<open>request_firmware\<close> gives an error number or the bytes of the image; what lies behind them in
  memory is the argument \<open>beyond\<close>.
\<close>

definition image_buf :: "u8 list \<Rightarrow> cbuf \<Rightarrow> cbuf" where
  "image_buf bs beyond i = (if i < length bs then bs ! i else beyond i)"

definition fpga_mgr_firmware_load ::
  "(string \<Rightarrow> int + u8 list) \<Rightarrow> cbuf \<Rightarrow> ('p, 'w) fpga_manager \<Rightarrow> fpga_image_info \<Rightarrow> string \<Rightarrow> 'w \<Rightarrow>
   (int \<times> ('p, 'w) fpga_manager \<times> 'w) option" where
  "fpga_mgr_firmware_load request_firmware beyond mgr info image_name w =
     (let mgr = mgr\<lparr>mgr_state := FPGA_MGR_STATE_FIRMWARE_REQ\<rparr>
      in (case request_firmware image_name of
            Inl ret \<Rightarrow> Some (ret, mgr\<lparr>mgr_state := FPGA_MGR_STATE_FIRMWARE_REQ_ERR\<rparr>, w)
          | Inr bs \<Rightarrow> fpga_mgr_buf_load mgr info (image_buf bs beyond) (length bs) w))"

section \<open>Managers in the system\<close>

text \<open>
  The device model of the kernel as far as the framework uses it: the managers by address, the
  identifiers in use, the devices of the class in order, the driver data of the parents, and the
  reference counts of devices and of the parents' modules.
\<close>

record ('p, 'w) mgr_world =
  heap :: "nat \<Rightarrow> ('p, 'w) fpga_manager option"
  ida :: "nat set"
  class_devs :: "nat list"
  mgr_drvdata :: "nat \<Rightarrow> nat option"
  dev_refs :: "nat \<Rightarrow> nat"
  mod_refs :: "nat \<Rightarrow> nat"

definition put_device :: "nat \<Rightarrow> ('p, 'w) mgr_world \<Rightarrow> ('p, 'w) mgr_world" where
  "put_device a W =
     (let W = W\<lparr>dev_refs := (dev_refs W)(a := dev_refs W a - 1)\<rparr>
      in if dev_refs W a \<noteq> 0 then W
         else (case heap W a of
                 None \<Rightarrow> W
               | Some mgr \<Rightarrow> W\<lparr>ida := ida W - {mgr_id mgr}, heap := (heap W)(a := None)\<rparr>))"

definition fpga_mgr_of_node_match :: "('p, 'w) mgr_world \<Rightarrow> nat \<Rightarrow> nat \<Rightarrow> bool" where
  "fpga_mgr_of_node_match W a node = (case heap W a of None \<Rightarrow> False | Some mgr \<Rightarrow> mgr_of_node mgr = node)"

definition class_find_device :: "nat \<Rightarrow> ('p, 'w) mgr_world \<Rightarrow> nat option \<times> ('p, 'w) mgr_world" where
  "class_find_device node W =
     (case find (\<lambda>a. fpga_mgr_of_node_match W a node) (class_devs W) of
        None \<Rightarrow> (None, W)
      | Some a \<Rightarrow> (Some a, W\<lparr>dev_refs := (dev_refs W)(a := dev_refs W a + 1)\<rparr>))"

definition set_mutex :: "nat \<Rightarrow> bool \<Rightarrow> ('p, 'w) mgr_world \<Rightarrow> ('p, 'w) mgr_world" where
  "set_mutex a l W = W\<lparr>heap := (heap W)(a := map_option (\<lambda>mgr. mgr\<lparr>ref_mutex := l\<rparr>) (heap W a))\<rparr>"

text \<open>\<open>going p\<close> says that the module of the parent device \<open>p\<close> is being unloaded.\<close>

definition of_fpga_mgr_get ::
  "(nat \<Rightarrow> bool) \<Rightarrow> nat \<Rightarrow> ('p, 'w) mgr_world \<Rightarrow> (int + nat) \<times> ('p, 'w) mgr_world" where
  "of_fpga_mgr_get going node W =
     (let (d, W) = class_find_device node W
      in (case d of
            None \<Rightarrow> (Inl (- ENODEV), W)
          | Some a \<Rightarrow>
              (case heap W a of
                 None \<Rightarrow> (Inl (- ENODEV), put_device a W)
               | Some mgr \<Rightarrow>
                   if ref_mutex mgr then (Inl (- EBUSY), put_device a W)
                   else let W = set_mutex a True W
                        in if going (mgr_parent mgr)
                           then (Inl (- ENODEV), put_device a (set_mutex a False W))
                           else (Inr a, W\<lparr>mod_refs := (mod_refs W)(mgr_parent mgr := mod_refs W (mgr_parent mgr) + 1)\<rparr>))))"

definition fpga_mgr_put :: "nat \<Rightarrow> ('p, 'w) mgr_world \<Rightarrow> ('p, 'w) mgr_world" where
  "fpga_mgr_put a W =
     (case heap W a of
        None \<Rightarrow> W
      | Some mgr \<Rightarrow>
          let W = W\<lparr>mod_refs := (mod_refs W)(mgr_parent mgr := mod_refs W (mgr_parent mgr) - 1)\<rparr>;
              W = set_mutex a False W
          in put_device a W)"

text \<open>
  What the kernel answers during a registration: the address that \<open>kzalloc\<close> gives, the identifier or
  error of \<open>ida_simple_get\<close>, and the results of \<open>dev_set_name\<close> and \<open>device_add\<close>.
\<close>

record reg_answers =
  ans_kzalloc :: "nat option"
  ans_ida :: "int + nat"
  ans_set_name :: int
  ans_device_add :: int

definition fpga_mgr_register ::
  "reg_answers \<Rightarrow> (nat \<Rightarrow> nat) \<Rightarrow> nat \<Rightarrow> string option \<Rightarrow> ('p, 'w) fpga_manager_ops option \<Rightarrow> 'p \<Rightarrow>
   ('p, 'w) mgr_world \<Rightarrow> 'w \<Rightarrow> int \<times> ('p, 'w) mgr_world \<times> 'w" where
  "fpga_mgr_register ans of_node pdev name ops priv W w =
     (case ops of
        None \<Rightarrow> (- EINVAL, W, w)
      | Some ops \<Rightarrow>
         (case (op_write_init ops, op_write ops, op_write_complete ops, op_state ops) of
            (Some _, Some _, Some _, Some state) \<Rightarrow>
              (case name of
                 None \<Rightarrow> (- EINVAL, W, w)
               | Some nm \<Rightarrow>
                   if nm = [] then (- EINVAL, W, w)
                   else (case ans_kzalloc ans of
                     None \<Rightarrow> (- ENOMEM, W, w)
                   | Some a \<Rightarrow>
                       (case ans_ida ans of
                          Inl ret \<Rightarrow> (ret, W, w)
                        | Inr nid \<Rightarrow>
                            let W = W\<lparr>ida := insert nid (ida W)\<rparr>;
                                (st, w) = state priv w;
                                mgr = \<lparr>mgr_name = nm, ref_mutex = False, mgr_state = st, mops = ops,
                                       mgr_priv = priv, mgr_id = nid, mgr_parent = pdev, mgr_of_node = of_node pdev\<rparr>;
                                W = W\<lparr>heap := (heap W)(a := Some mgr), dev_refs := (dev_refs W)(a := 1),
                                     mgr_drvdata := (mgr_drvdata W)(pdev := Some a)\<rparr>;
                                ret = (if ans_set_name ans \<noteq> 0 then ans_set_name ans else ans_device_add ans)
                            in if ret \<noteq> 0
                               then (ret, W\<lparr>ida := ida W - {nid}, heap := (heap W)(a := None)\<rparr>, w)
                               else (0, W\<lparr>class_devs := class_devs W @ [a]\<rparr>, w))))
          | _ \<Rightarrow> (- EINVAL, W, w)))"

definition fpga_mgr_unregister ::
  "nat \<Rightarrow> ('p, 'w) mgr_world \<Rightarrow> 'w \<Rightarrow> (('p, 'w) mgr_world \<times> 'w) option" where
  "fpga_mgr_unregister pdev W w =
     do {
       a \<leftarrow> mgr_drvdata W pdev;
       mgr \<leftarrow> heap W a;
       let w = (case op_fpga_remove (mops mgr) of None \<Rightarrow> w | Some f \<Rightarrow> f (mgr_priv mgr) w);
       let W = put_device a (W\<lparr>class_devs := filter (\<lambda>x. x \<noteq> a) (class_devs W)\<rparr>);
       Some (W, w)
     }"

section \<open>What a load does\<close>

text \<open>The states of a manager are those of the newer driver under other names.\<close>

fun config_of :: "fpga_mgr_states \<Rightarrow> fpga_config_states" where
  "config_of FPGA_MGR_STATE_UNKNOWN = FPGA_CONFIG_STATE_UNKNOWN"
| "config_of FPGA_MGR_STATE_POWER_OFF = FPGA_CONFIG_STATE_POWER_OFF"
| "config_of FPGA_MGR_STATE_POWER_UP = FPGA_CONFIG_STATE_POWER_UP"
| "config_of FPGA_MGR_STATE_RESET = FPGA_CONFIG_STATE_RESET"
| "config_of FPGA_MGR_STATE_FIRMWARE_REQ = FPGA_CONFIG_STATE_FIRMWARE_REQ"
| "config_of FPGA_MGR_STATE_FIRMWARE_REQ_ERR = FPGA_CONFIG_STATE_FIRMWARE_REQ_ERR"
| "config_of FPGA_MGR_STATE_WRITE_INIT = FPGA_CONFIG_STATE_WRITE_INIT"
| "config_of FPGA_MGR_STATE_WRITE_INIT_ERR = FPGA_CONFIG_STATE_WRITE_INIT_ERR"
| "config_of FPGA_MGR_STATE_WRITE = FPGA_CONFIG_STATE_WRITE"
| "config_of FPGA_MGR_STATE_WRITE_ERR = FPGA_CONFIG_STATE_WRITE_ERR"
| "config_of FPGA_MGR_STATE_WRITE_COMPLETE = FPGA_CONFIG_STATE_WRITE_COMPLETE"
| "config_of FPGA_MGR_STATE_WRITE_COMPLETE_ERR = FPGA_CONFIG_STATE_WRITE_COMPLETE_ERR"
| "config_of FPGA_MGR_STATE_OPERATING = FPGA_CONFIG_STATE_OPERATING"

text \<open>The bytes of a buffer, and an image in memory as a buffer.\<close>

definition buf_bytes :: "cbuf \<Rightarrow> nat \<Rightarrow> u8 list" where
  "buf_bytes buf n = map buf [0..<n]"

lemma buf_bytes_image [simp]: "buf_bytes (image_buf bs beyond) (length bs) = bs"
  by (rule nth_equalityI) (simp_all add: buf_bytes_def image_buf_def)

text \<open>What the framework relies on in a low level driver.\<close>

locale fpga_mgr_driver =
  fixes ops :: "('p, 'w) fpga_manager_ops"
    and data :: "'p \<Rightarrow> 'w \<Rightarrow> u32 list"
    and operating :: "'p \<Rightarrow> 'w \<Rightarrow> bool"
  assumes init_law: "\<exists>f. op_write_init ops = Some f \<and> (\<forall>p info buf n w r w'. f p info buf n w = (r, w') \<longrightarrow>
      r \<le> 0 \<and> data p w' = data p w)"
    and write_law: "\<exists>f. op_write ops = Some f \<and> (\<forall>p buf n w r w'. f p buf n w = (r, w') \<longrightarrow> r \<le> 0 \<and>
      (\<exists>ws. data p w' = data p w @ ws \<and> prefix ws (le_words (buf_bytes buf n)) \<and>
        (r = 0 \<longrightarrow> ws = le_words (buf_bytes buf n))))"
    and complete_law: "\<exists>f. op_write_complete ops = Some f \<and> (\<forall>p info w r w'. f p info w = (r, w') \<longrightarrow>
      r \<le> 0 \<and> data p w' = data p w \<and> (r = 0 \<longrightarrow> operating p w'))"
begin

lemma buf_load:
  assumes ops: "mops mgr = ops"
  shows "\<exists>r st ws w'. fpga_mgr_buf_load mgr info buf n w = Some (r, mgr\<lparr>mgr_state := st\<rparr>, w') \<and>
    data (mgr_priv mgr) w' = data (mgr_priv mgr) w @ ws \<and>
    load_outcome (buf_bytes buf n) r (config_of st) ws (operating (mgr_priv mgr) w')"
proof -
  let ?p = "mgr_priv mgr" and ?bs = "buf_bytes buf n"
  obtain f1 r1 w1 where f1: "op_write_init ops = Some f1" "f1 ?p info buf n w = (r1, w1)"
    "r1 \<le> 0" "data ?p w1 = data ?p w" using init_law by (metis prod.exhaust)
  obtain f2 r2 w2 ws where f2: "op_write ops = Some f2" "f2 ?p buf n w1 = (r2, w2)" "r2 \<le> 0"
    "data ?p w2 = data ?p w1 @ ws" "prefix ws (le_words ?bs)" "r2 = 0 \<longrightarrow> ws = le_words ?bs"
    using write_law by (metis prod.exhaust)
  obtain f3 r3 w3 where f3: "op_write_complete ops = Some f3" "f3 ?p info w2 = (r3, w3)" "r3 \<le> 0"
    "data ?p w3 = data ?p w2" "r3 = 0 \<longrightarrow> operating ?p w3" using complete_law by (metis prod.exhaust)
  note run = fpga_mgr_buf_load_def ops f1(1,2) f2(1,2) f3(1,2)
  consider (init) "r1 \<noteq> 0" | (copy) "r1 = 0" "r2 \<noteq> 0" | (compl) "r1 = 0" "r2 = 0" "r3 \<noteq> 0"
    | (fine) "r1 = 0" "r2 = 0" "r3 = 0" by blast
  then show ?thesis
  proof cases
    case init
    then show ?thesis using f1 load_outcome.init_err [of r1 ?bs]
      by (intro exI [of _ r1] exI [of _ FPGA_MGR_STATE_WRITE_INIT_ERR] exI [of _ "[]"] exI [of _ w1])
        (simp add: run)
  next
    case copy
    then show ?thesis using f1 f2 load_outcome.write_err [of r2 ws ?bs]
      by (intro exI [of _ r2] exI [of _ FPGA_MGR_STATE_WRITE_ERR] exI [of _ ws] exI [of _ w2])
        (simp add: run)
  next
    case compl
    then show ?thesis using f1 f2 f3 load_outcome.complete_err [of r3 ?bs]
      by (intro exI [of _ r3] exI [of _ FPGA_MGR_STATE_WRITE_COMPLETE_ERR] exI [of _ "le_words ?bs"]
          exI [of _ w3]) (simp add: run)
  next
    case fine
    then show ?thesis using f1 f2 f3 load_outcome.operating [of ?bs]
      by (intro exI [of _ 0] exI [of _ FPGA_MGR_STATE_OPERATING] exI [of _ "le_words ?bs"] exI [of _ w3])
        (simp add: run)
  qed
qed

lemma firmware_load:
  assumes "mops mgr = ops"
  shows "\<exists>r st w'. fpga_mgr_firmware_load request beyond mgr info name w = Some (r, mgr\<lparr>mgr_state := st\<rparr>, w') \<and>
    (case request name of
       Inl e \<Rightarrow> r = e \<and> st = FPGA_MGR_STATE_FIRMWARE_REQ_ERR \<and> w' = w
     | Inr bs \<Rightarrow> \<exists>ws. data (mgr_priv mgr) w' = data (mgr_priv mgr) w @ ws \<and>
         load_outcome bs r (config_of st) ws (operating (mgr_priv mgr) w'))"
proof (cases "request name")
  case (Inl e)
  then show ?thesis by (auto simp: fpga_mgr_firmware_load_def)
next
  case (Inr bs)
  let ?m = "mgr\<lparr>mgr_state := FPGA_MGR_STATE_FIRMWARE_REQ\<rparr>"
  have "mops ?m = ops" using assms by simp
  from buf_load [OF this, of info "image_buf bs beyond" "length bs" w] show ?thesis
    using Inr by (auto simp: fpga_mgr_firmware_load_def)
qed

end

text \<open>
  A low level driver that follows a protocol, which depends on the image information and on the driver's
  private data. The order of the steps and the guards between them are the framework's.
\<close>

lemma config_of_operating: "config_of st = FPGA_CONFIG_STATE_OPERATING \<longleftrightarrow> st = FPGA_MGR_STATE_OPERATING"
  by (cases st) simp_all

locale fpga_mgr_protocol =
  fixes ops :: "('p, 'h world) fpga_manager_ops" and protocol :: "fpga_image_info \<Rightarrow> 'p \<Rightarrow> core_protocol"
  assumes init_follows: "\<exists>f. op_write_init ops = Some f \<and> (\<forall>p info buf n w. \<exists>r t w'. f p info buf n w = (r, w') \<and>
      trace w' = trace w @ t \<and> starts (protocol info p) buf n r t)"
    and write_follows: "\<exists>f. op_write ops = Some f \<and> (\<forall>p buf n w. \<exists>r t w'. f p buf n w = (r, w') \<and>
      trace w' = trace w @ t \<and> (\<forall>info. pushes (protocol info p) (buf_bytes buf n) r t))"
    and complete_follows: "\<exists>f. op_write_complete ops = Some f \<and> (\<forall>p info w. \<exists>r t w'. f p info w = (r, w') \<and>
      trace w' = trace w @ t \<and> ends (protocol info p) (unat (config_complete_timeout_us info)) r t)"
begin

lemma buf_follows:
  assumes ops: "mops mgr = ops"
  shows "\<exists>r st t w'. fpga_mgr_buf_load mgr info buf n w = Some (r, mgr\<lparr>mgr_state := st\<rparr>, w') \<and>
    trace w' = trace w @ t \<and>
    load_run (protocol info (mgr_priv mgr)) buf n (buf_bytes buf n) (unat (config_complete_timeout_us info)) r
      (config_of st) t"
proof -
  let ?p = "mgr_priv mgr" and ?bs = "buf_bytes buf n"
  let ?P = "protocol info ?p"
  obtain f1 r1 t1 w1 where f1: "op_write_init ops = Some f1" "f1 ?p info buf n w = (r1, w1)"
    "trace w1 = trace w @ t1" "starts ?P buf n r1 t1" using init_follows by metis
  obtain f2 r2 t2 w2 where f2: "op_write ops = Some f2" "f2 ?p buf n w1 = (r2, w2)"
    "trace w2 = trace w1 @ t2" "pushes ?P ?bs r2 t2" using write_follows by metis
  obtain f3 r3 t3 w3 where f3: "op_write_complete ops = Some f3" "f3 ?p info w2 = (r3, w3)"
    "trace w3 = trace w2 @ t3" "ends ?P (unat (config_complete_timeout_us info)) r3 t3"
    using complete_follows by metis
  note run = fpga_mgr_buf_load_def ops f1(1,2) f2(1,2) f3(1,2)
  consider (init) "r1 \<noteq> 0" | (copy) "r1 = 0" "r2 \<noteq> 0" | (compl) "r1 = 0" "r2 = 0" "r3 \<noteq> 0"
    | (fine) "r1 = 0" "r2 = 0" "r3 = 0" by blast
  then show ?thesis
  proof cases
    case init
    then show ?thesis using f1(3) load_run.refused [OF f1(4) init]
      by (intro exI [of _ r1] exI [of _ FPGA_MGR_STATE_WRITE_INIT_ERR] exI [of _ t1] exI [of _ w1])
        (simp add: run)
  next
    case copy
    then show ?thesis using f1(3,4) f2(3) load_run.broken [OF _ f2(4) copy(2)]
      by (intro exI [of _ r2] exI [of _ FPGA_MGR_STATE_WRITE_ERR] exI [of _ "t1 @ t2"] exI [of _ w2])
        (simp add: run)
  next
    case compl
    then show ?thesis using f1(3,4) f2(3,4) f3(3) load_run.unfinished [OF _ _ f3(4) compl(3)]
      by (intro exI [of _ r3] exI [of _ FPGA_MGR_STATE_WRITE_COMPLETE_ERR] exI [of _ "t1 @ t2 @ t3"] exI [of _ w3])
        (simp add: run)
  next
    case fine
    then show ?thesis using f1(3,4) f2(3,4) f3(3,4) load_run.loaded
      by (intro exI [of _ 0] exI [of _ FPGA_MGR_STATE_OPERATING] exI [of _ "t1 @ t2 @ t3"] exI [of _ w3])
        (simp add: run)
  qed
qed

lemma firmware_follows:
  assumes "mops mgr = ops"
  shows "\<exists>r st t w'. fpga_mgr_firmware_load request beyond mgr info name w = Some (r, mgr\<lparr>mgr_state := st\<rparr>, w') \<and>
    trace w' = trace w @ t \<and>
    (case request name of
       Inl e \<Rightarrow> r = e \<and> st = FPGA_MGR_STATE_FIRMWARE_REQ_ERR \<and> w' = w
     | Inr bs \<Rightarrow> load_run (protocol info (mgr_priv mgr)) (image_buf bs beyond) (length bs) bs
         (unat (config_complete_timeout_us info)) r (config_of st) t)"
proof (cases "request name")
  case (Inl e)
  then show ?thesis by (auto simp: fpga_mgr_firmware_load_def)
next
  case (Inr bs)
  let ?m = "mgr\<lparr>mgr_state := FPGA_MGR_STATE_FIRMWARE_REQ\<rparr>"
  have "mops ?m = ops" using assms by simp
  from buf_follows [OF this, of info "image_buf bs beyond" "length bs" w] show ?thesis
    using Inr by (auto simp: fpga_mgr_firmware_load_def)
qed

end

section \<open>Exclusive references\<close>

text \<open>
  Clients that get and put references, one call after the other; \<open>hs\<close> are the managers that are held.
  Only a holder puts.
\<close>

inductive mgr_run :: "('p, 'w) mgr_world \<Rightarrow> ('p, 'w) mgr_world \<Rightarrow> nat list \<Rightarrow> bool" for W0 where
  start: "mgr_run W0 W0 []"
| got: "mgr_run W0 W hs \<Longrightarrow> of_fpga_mgr_get going node W = (Inr a, W') \<Longrightarrow> mgr_run W0 W' (a # hs)"
| refused: "mgr_run W0 W hs \<Longrightarrow> of_fpga_mgr_get going node W = (Inl e, W') \<Longrightarrow> mgr_run W0 W' hs"
| put: "mgr_run W0 W hs \<Longrightarrow> a \<in> set hs \<Longrightarrow> mgr_run W0 (fpga_mgr_put a W) (remove1 a hs)"

definition idle_managers :: "('p, 'w) mgr_world \<Rightarrow> bool" where
  "idle_managers W \<longleftrightarrow> (\<forall>a \<in> set (class_devs W). 1 \<le> dev_refs W a \<and>
     (\<exists>mgr. heap W a = Some mgr \<and> \<not> ref_mutex mgr))"

definition parent_of :: "('p, 'w) mgr_world \<Rightarrow> nat \<Rightarrow> nat" where
  "parent_of W a = (case heap W a of None \<Rightarrow> 0 | Some mgr \<Rightarrow> mgr_parent mgr)"

text \<open>The system in which exactly the managers \<open>hs\<close> are held.\<close>

definition locked :: "nat list \<Rightarrow> ('p, 'w) mgr_world \<Rightarrow> ('p, 'w) mgr_world" where
  "locked hs W =
     W\<lparr>heap := (\<lambda>a. map_option (\<lambda>mgr. if a \<in> set hs then mgr\<lparr>ref_mutex := True\<rparr> else mgr) (heap W a)),
       dev_refs := (\<lambda>a. dev_refs W a + (if a \<in> set hs then 1 else 0)),
       mod_refs := (\<lambda>p. mod_refs W p + length (filter (\<lambda>a. parent_of W a = p) hs))\<rparr>"

lemma locked_Nil [simp]: "locked [] W = W"
  by (simp add: locked_def option.map_ident)

lemma match_locked: "fpga_mgr_of_node_match (locked hs W) a node = fpga_mgr_of_node_match W a node"
  by (simp add: fpga_mgr_of_node_match_def locked_def split: option.split)

lemma find_in: "find P xs = Some x \<Longrightarrow> x \<in> set xs"
  by (induction xs) (auto split: if_splits)

lemma get_locked:
  assumes W: "idle_managers W" and hs: "set hs \<subseteq> set (class_devs W)"
    and run: "of_fpga_mgr_get going node (locked hs W) = (res, W')"
  shows "case res of Inl _ \<Rightarrow> W' = locked hs W
    | Inr a \<Rightarrow> a \<in> set (class_devs W) \<and> a \<notin> set hs \<and> W' = locked (a # hs) W"
proof (cases "find (\<lambda>a. fpga_mgr_of_node_match W a node) (class_devs W)")
  case None
  moreover have "class_devs (locked hs W) = class_devs W" by (simp add: locked_def)
  ultimately show ?thesis using run by (auto simp: of_fpga_mgr_get_def class_find_device_def match_locked)
next
  case (Some a)
  then have a: "a \<in> set (class_devs W)" by (rule find_in)
  then obtain mgr where mgr: "heap W a = Some mgr" "\<not> ref_mutex mgr" "1 \<le> dev_refs W a"
    using W by (auto simp: idle_managers_def)
  have cd: "class_devs (locked hs W) = class_devs W" by (simp add: locked_def)
  note run' = run [unfolded of_fpga_mgr_get_def class_find_device_def match_locked cd Some]
  show ?thesis
  proof (cases "a \<in> set hs \<or> going (mgr_parent mgr)")
    case True
    then have "res \<in> range Inl" "W' = locked hs W"
      using run' mgr
      by (auto simp: locked_def put_device_def set_mutex_def fun_eq_iff split: if_splits)
    then show ?thesis by auto
  next
    case False
    then have "res = Inr a" "W' = locked (a # hs) W"
      using run' mgr
      by (auto simp: locked_def set_mutex_def parent_of_def fun_eq_iff split: if_splits)
    then show ?thesis using a False by simp
  qed
qed

lemma put_locked:
  assumes W: "idle_managers W" and hs: "set hs \<subseteq> set (class_devs W)" "distinct hs" "a \<in> set hs"
  shows "fpga_mgr_put a (locked hs W) = locked (remove1 a hs) W"
proof -
  obtain mgr where mgr: "heap W a = Some mgr" "\<not> ref_mutex mgr" "1 \<le> dev_refs W a"
    using W hs by (auto simp: idle_managers_def)
  have len: "length (filter P hs) = length (filter P (remove1 a hs)) + (if P a then 1 else 0)" for P
    using hs(3) by (induction hs) auto
  have "mgr\<lparr>ref_mutex := False\<rparr> = mgr" using mgr(2) by (cases mgr) simp
  then show ?thesis using mgr hs(2,3)
    by (auto simp: fpga_mgr_put_def locked_def put_device_def set_mutex_def parent_of_def fun_eq_iff
        len [of "\<lambda>x. (case heap W x of None \<Rightarrow> 0 | Some m \<Rightarrow> mgr_parent m) = p" for p])
qed

lemma mgr_run_locked:
  assumes "mgr_run W0 W hs" and "idle_managers W0"
  shows "distinct hs \<and> set hs \<subseteq> set (class_devs W0) \<and> W = locked hs W0"
  using assms
proof (induction rule: mgr_run.induct)
  case (got W hs going node a W')
  then show ?case using get_locked [of W0 hs going node "Inr a" W'] by auto
next
  case (refused W hs going node e W')
  then show ?case using get_locked [of W0 hs going node "Inl e" W'] by auto
next
  case (put W hs a)
  then have IH: "distinct hs" "set hs \<subseteq> set (class_devs W0)" "W = locked hs W0" by auto
  then show ?case using put_locked [OF put.prems IH(2,1) put.hyps(2)] set_remove1_subset [of a hs] by auto
qed auto

section \<open>Properties\<close>

text \<open>
  C9. A reference to a manager is exclusive. However clients get and put references, no manager is
  held twice, and the system is exactly the initial one with the mutex of each held manager taken,
  its device referenced once more and its module used once more per held manager. A refused request
  changes nothing, and when all references are put the system is as it was.
\<close>

theorem manager_exclusive:
  assumes "mgr_run W0 W hs" and "idle_managers W0"
  shows "distinct hs \<and> W = locked hs W0 \<and> (hs \<noteq> [] \<or> W = W0)"
  using mgr_run_locked [OF assms] by auto

definition demo_mgr :: "(unit, unit) fpga_manager" where
  "demo_mgr = \<lparr>mgr_name = ''pr'', ref_mutex = False, mgr_state = FPGA_MGR_STATE_UNKNOWN,
     mops = \<lparr>op_state = None, op_write_init = None, op_write = None, op_write_complete = None,
       op_fpga_remove = None\<rparr>, mgr_priv = (), mgr_id = 0, mgr_parent = 1, mgr_of_node = 7\<rparr>"

definition demo_managers :: "(unit, unit) mgr_world" where
  "demo_managers = \<lparr>heap = [5 \<mapsto> demo_mgr], ida = {0}, class_devs = [5], mgr_drvdata = [1 \<mapsto> 5],
     dev_refs = (\<lambda>a. if a = 5 then 1 else 0), mod_refs = (\<lambda>_. 0)\<rparr>"

theorem manager_exclusive_witness:
  "\<exists>W. mgr_run demo_managers W [5] \<and> W = locked [5] demo_managers"
proof -
  have idle: "idle_managers demo_managers"
    by (simp add: idle_managers_def demo_managers_def demo_mgr_def)
  have "\<exists>W. of_fpga_mgr_get (\<lambda>_. False) 7 demo_managers = (Inr 5, W)"
    by (simp add: of_fpga_mgr_get_def class_find_device_def fpga_mgr_of_node_match_def demo_managers_def
        demo_mgr_def Let_def)
  then obtain W where run: "mgr_run demo_managers W [5]" using mgr_run.start mgr_run.got by blast
  show ?thesis using run manager_exclusive [OF run idle] by blast
qed



end
