(* ===== verification/Pr_Ip_Legacy.thy ===== *)
theory Pr_Ip_Legacy
  imports Fpga_Mgr
begin

text \<open>
  The low level drivers of the older stack, \<open>fpga/altera-pr-ip-core.c\<close> (Arria 10) and
  \<open>fpga/altera-pr-ip-core_s10.c\<close> (Stratix 10). They take the image from a buffer instead of a file
  and report through the FPGA manager framework; the private data is the address of the registers.
  They are proved equivalent to the drivers of the newer stack, and their operations keep the
  contract of the framework.
\<close>

section \<open>Arria 10\<close>

definition csr_state_mgr_a10 :: "u32 \<Rightarrow> fpga_mgr_states" where
  "csr_state_mgr_a10 csr =
     (let val = csr AND A10_STATUS_MSK
      in if val = A10_STATUS_NRESET then FPGA_MGR_STATE_RESET
         else if val = A10_STATUS_PR_ERR then FPGA_MGR_STATE_WRITE_ERR
         else if val = A10_STATUS_CRC_ERR then FPGA_MGR_STATE_WRITE_ERR
         else if val = A10_STATUS_BAD_BITS then FPGA_MGR_STATE_WRITE_ERR
         else if val = A10_STATUS_PR_IN_PROG then FPGA_MGR_STATE_WRITE
         else if val = A10_STATUS_PR_SUCCESS then FPGA_MGR_STATE_OPERATING
         else FPGA_MGR_STATE_UNKNOWN)"

definition alt_pr_fpga_state_a10 ::
  "('h, 'z) bus_scheme \<Rightarrow> u64 \<Rightarrow> 'h world \<Rightarrow> fpga_mgr_states \<times> 'h world" where
  "alt_pr_fpga_state_a10 b base w =
     (let (val, w) = readl b (base + ALT_PR_CSR_OFST) w in (csr_state_mgr_a10 val, w))"

definition alt_pr_fpga_write_init_a10 ::
  "('h, 'z) bus_scheme \<Rightarrow> u64 \<Rightarrow> fpga_image_info \<Rightarrow> cbuf \<Rightarrow> nat \<Rightarrow> 'h world \<Rightarrow> int \<times> 'h world" where
  "alt_pr_fpga_write_init_a10 b base info buf count w =
     (if flags info AND FPGA_MGR_PARTIAL_RECONFIG = 0 then (- EINVAL, w)
      else let (val, w) = readl b (base + ALT_PR_CSR_OFST) w
           in if val AND ALT_PR_CSR_PR_START \<noteq> 0 then (- EINVAL, w)
              else let (val, w) = readl b (base + ALT_PR_VER_OFST) w
                   in if val = ALT_PR_VER_POF_ID
                      then if count < ALT_PR_RBF_ID_OFST then (- EINVAL, w)
                           else let prbf = buf32 buf ALT_PR_RBF_ID_OFST;
                                    (val, w) = readl b (base + ALT_PR_POF_ID_OFST) w
                                in if val \<noteq> 0 \<and> val \<noteq> prbf then (- EINVAL, w)
                                   else (0, writel b (val OR ALT_PR_CSR_PR_START) (base + ALT_PR_CSR_OFST) w)
                      else (0, writel b (val OR ALT_PR_CSR_PR_START) (base + ALT_PR_CSR_OFST) w))"

fun mgr_write_loop_a10 ::
  "('h, 'z) bus_scheme \<Rightarrow> u64 \<Rightarrow> cbuf \<Rightarrow> nat \<Rightarrow> nat \<Rightarrow> 'h world \<Rightarrow> nat \<times> nat \<times> 'h world" where
  "mgr_write_loop_a10 b base buf i count w =
     (if count \<ge> 4
      then mgr_write_loop_a10 b base buf (i + 1) (count - 4) (writel b (buf32 buf (4 * i)) base w)
      else (i, count, w))"

declare mgr_write_loop_a10.simps [simp del]

definition alt_pr_fpga_write_a10 ::
  "('h, 'z) bus_scheme \<Rightarrow> u64 \<Rightarrow> cbuf \<Rightarrow> nat \<Rightarrow> 'h world \<Rightarrow> int \<times> 'h world" where
  "alt_pr_fpga_write_a10 b base buf count w =
     (if count = 0 then (- EINVAL, w)
      else let (i, count, w) = mgr_write_loop_a10 b base buf 0 count w
           in (case write_rest b base (int count) (\<lambda>k. buf (4 * i + k)) w of
                 None \<Rightarrow> (- EFAULT, w)
               | Some w \<Rightarrow>
                   let (st, w) = alt_pr_fpga_state_a10 b base w
                   in if st = FPGA_MGR_STATE_WRITE_ERR then (- EIO, w) else (0, w)))"

fun mgr_complete_loop_a10 ::
  "('h, 'z) bus_scheme \<Rightarrow> u64 \<Rightarrow> nat \<Rightarrow> 'h world \<Rightarrow> int \<times> 'h world" where
  "mgr_complete_loop_a10 b base 0 w = (- ETIMEDOUT, w)"
| "mgr_complete_loop_a10 b base (Suc n) w =
     (let (st, w) = alt_pr_fpga_state_a10 b base w
      in if st = FPGA_MGR_STATE_WRITE_ERR then (- EIO, w)
         else if st = FPGA_MGR_STATE_OPERATING then (0, w)
         else mgr_complete_loop_a10 b base n (udelay b 1 w))"

definition alt_pr_fpga_write_complete_a10 ::
  "('h, 'z) bus_scheme \<Rightarrow> u64 \<Rightarrow> fpga_image_info \<Rightarrow> 'h world \<Rightarrow> int \<times> 'h world" where
  "alt_pr_fpga_write_complete_a10 b base info w =
     mgr_complete_loop_a10 b base (unat (config_complete_timeout_us info)) w"

definition alt_pr_ops_a10 :: "('h, 'z) bus_scheme \<Rightarrow> (u64, 'h world) fpga_manager_ops" where
  "alt_pr_ops_a10 b =
     \<lparr>op_state = Some (alt_pr_fpga_state_a10 b), op_write_init = Some (alt_pr_fpga_write_init_a10 b),
      op_write = Some (alt_pr_fpga_write_a10 b), op_write_complete = Some (alt_pr_fpga_write_complete_a10 b),
      op_fpga_remove = None\<rparr>"

text \<open>The values that \<open>alt_pr_probe\<close> reads go to a log message; the reads reach the device.\<close>

definition alt_pr_probe_a10 ::
  "('h, 'z) bus_scheme \<Rightarrow> bool \<Rightarrow> reg_answers \<Rightarrow> (nat \<Rightarrow> nat) \<Rightarrow> nat \<Rightarrow> string option \<Rightarrow> u64 \<Rightarrow>
   (u64, 'h world) mgr_world \<Rightarrow> 'h world \<Rightarrow> int \<times> (u64, 'h world) mgr_world \<times> 'h world" where
  "alt_pr_probe_a10 b devm_ok ans of_node pdev name base W w =
     (if \<not> devm_ok then (- ENOMEM, W, w)
      else let (val, w) = readl b (base + ALT_PR_CSR_OFST) w;
               (_, w) = readl b (base + ALT_PR_VER_OFST) w;
               (_, w) = readl b (base + ALT_PR_POF_ID_OFST) w
           in fpga_mgr_register ans of_node pdev name (Some (alt_pr_ops_a10 b)) base W w)"

definition alt_pr_remove ::
  "nat \<Rightarrow> (u64, 'h world) mgr_world \<Rightarrow> 'h world \<Rightarrow> (int \<times> (u64, 'h world) mgr_world \<times> 'h world) option" where
  "alt_pr_remove pdev W w = do { (W, w) \<leftarrow> fpga_mgr_unregister pdev W w; Some (0, W, w) }"

section \<open>Stratix 10\<close>

definition ALT_P_BASE :: u64 where [const_defs]: "ALT_P_BASE = 0x0c"
definition ALT_P_STARTUP :: u64 where [const_defs]: "ALT_P_STARTUP = 0x00"
definition ALT_P_DATA_LO :: u64 where [const_defs]: "ALT_P_DATA_LO = 0x04"
definition ALT_P_DATA_HI :: u64 where [const_defs]: "ALT_P_DATA_HI = 0x08"
definition ALT_P_PROCESS_LO :: u64 where [const_defs]: "ALT_P_PROCESS_LO = 0x0c"
definition ALT_P_PROCESS_HI :: u64 where [const_defs]: "ALT_P_PROCESS_HI = 0x10"
definition ALT_P_COMPLETE :: u64 where [const_defs]: "ALT_P_COMPLETE = 0x14"

text \<open>The performance counters; the total is printed. The operands of a sum are read left to right.\<close>

definition read_p_reg :: "('h, 'z) bus_scheme \<Rightarrow> u64 \<Rightarrow> 'h world \<Rightarrow> u64 \<times> 'h world" where
  "read_p_reg b base w =
     (let (startup, w) = readl b (base + ALT_P_BASE + ALT_P_STARTUP) w;
          (lo, w) = readl b (base + ALT_P_BASE + ALT_P_DATA_LO) w;
          (hi, w) = readl b (base + ALT_P_BASE + ALT_P_DATA_HI) w;
          p_data = ucast lo + push_bit 32 (ucast hi);
          (lo, w) = readl b (base + ALT_P_BASE + ALT_P_PROCESS_LO) w;
          (hi, w) = readl b (base + ALT_P_BASE + ALT_P_PROCESS_HI) w;
          p_process = ucast lo + push_bit 32 (ucast hi);
          (compl, w) = readl b (base + ALT_P_BASE + ALT_P_COMPLETE) w
      in (ucast startup + p_data + p_process + ucast compl, w))"

fun mgr_wait_initial_loop ::
  "('h, 'z) bus_scheme \<Rightarrow> u64 \<Rightarrow> nat \<Rightarrow> u32 \<Rightarrow> 'h world \<Rightarrow> bool \<times> 'h world" where
  "mgr_wait_initial_loop b base 0 val w = (True, w)"
| "mgr_wait_initial_loop b base (Suc n) val w =
     (if val \<noteq> S10_STATUS_NRESET \<or> val \<noteq> S10_STATUS_PR_SUCCESS
      then let (val, w) = readl b (base + ALT_PR_CSR_OFST) w
           in mgr_wait_initial_loop b base n (val AND S10_STATUS_MSK) (msleep b 1 w)
      else (False, w))"

definition alt_pr_wait_for_initial_state :: "('h, 'z) bus_scheme \<Rightarrow> u64 \<Rightarrow> 'h world \<Rightarrow> int \<times> 'h world" where
  "alt_pr_wait_for_initial_state b base w =
     (let (val, w) = readl b (base + ALT_PR_CSR_OFST) w;
          val = val AND S10_STATUS_MSK
      in if val = S10_STATUS_BUSY
         then let (timeout, w) = mgr_wait_initial_loop b base 5000 val w
              in if timeout then (- ETIMEDOUT, w) else (0, w)
         else (0, w))"

definition csr_state_mgr_s10 :: "u32 \<Rightarrow> fpga_mgr_states" where
  "csr_state_mgr_s10 csr =
     (let val = csr AND S10_STATUS_MSK
      in if val = S10_STATUS_NRESET then FPGA_MGR_STATE_RESET
         else if val = S10_STATUS_PR_ERR then FPGA_MGR_STATE_WRITE_ERR
         else if val = S10_STATUS_PR_IN_PROG then FPGA_MGR_STATE_WRITE
         else if val = S10_STATUS_PR_SUCCESS then FPGA_MGR_STATE_OPERATING
         else if val = S10_STATUS_BUSY then FPGA_MGR_STATE_UNKNOWN
         else FPGA_MGR_STATE_UNKNOWN)"

definition alt_pr_fpga_state_s10 ::
  "('h, 'z) bus_scheme \<Rightarrow> u64 \<Rightarrow> 'h world \<Rightarrow> fpga_mgr_states \<times> 'h world" where
  "alt_pr_fpga_state_s10 b base w =
     (let (val, w) = readl b (base + ALT_PR_CSR_OFST) w in (csr_state_mgr_s10 val, w))"

definition mgr_write_init_start_s10 ::
  "('h, 'z) bus_scheme \<Rightarrow> u64 \<Rightarrow> u32 \<Rightarrow> 'h world \<Rightarrow> int \<times> 'h world" where
  "mgr_write_init_start_s10 b base val w =
     (let (ret, w) = alt_pr_wait_for_initial_state b base w
      in if ret \<noteq> 0 then (- ETIMEDOUT, w)
         else let (_, w) = alt_pr_fpga_state_s10 b base w
              in (0, writel b (val OR ALT_PR_CSR_PR_START) (base + ALT_PR_CSR_OFST) w))"

definition alt_pr_fpga_write_init_s10 ::
  "('h, 'z) bus_scheme \<Rightarrow> u64 \<Rightarrow> fpga_image_info \<Rightarrow> cbuf \<Rightarrow> nat \<Rightarrow> 'h world \<Rightarrow> int \<times> 'h world" where
  "alt_pr_fpga_write_init_s10 b base info buf count w =
     (if flags info AND FPGA_MGR_PARTIAL_RECONFIG = 0 then (- EINVAL, w)
      else let (val, w) = readl b (base + ALT_PR_CSR_OFST) w
           in if val AND ALT_PR_CSR_PR_START \<noteq> 0 then (- EINVAL, w)
              else let (val, w) = readl b (base + ALT_PR_VER_OFST) w
                   in if val = ALT_PR_VER_POF_ID
                      then if count < ALT_PR_RBF_ID_OFST then (- EINVAL, w)
                           else let prbf = buf32 buf ALT_PR_RBF_ID_OFST;
                                    (val, w) = readl b (base + ALT_PR_POF_ID_OFST) w
                                in if val \<noteq> 0 \<and> val \<noteq> prbf then (- EINVAL, w)
                                   else mgr_write_init_start_s10 b base val w
                      else mgr_write_init_start_s10 b base val w)"

fun mgr_write_loop_s10 ::
  "bool \<Rightarrow> nat \<Rightarrow> ('h, 'z) bus_scheme \<Rightarrow> u64 \<Rightarrow> cbuf \<Rightarrow> nat \<Rightarrow> nat \<Rightarrow> u32 \<Rightarrow> 'h world \<Rightarrow>
   bool \<times> nat \<times> nat \<times> 'h world" where
  "mgr_write_loop_s10 verbose wait_time b base buf i count j w =
     (if count \<ge> 4
      then let j = j + 1;
               w = writel b (buf32 buf (4 * i)) base w;
               i = i + 1
           in if j \<ge> 1024
              then let (st, w) = (if verbose then alt_pr_fpga_state_s10 b base w else (FPGA_MGR_STATE_WRITE, w))
                   in if st \<noteq> FPGA_MGR_STATE_WRITE then (True, i, count - 4, w)
                      else mgr_write_loop_s10 verbose wait_time b base buf i (count - 4) 0 (msleep b wait_time w)
              else mgr_write_loop_s10 verbose wait_time b base buf i (count - 4) j w
      else (False, i, count, w))"

declare mgr_write_loop_s10.simps [simp del]

definition alt_pr_fpga_write_s10 ::
  "bool \<Rightarrow> nat \<Rightarrow> ('h, 'z) bus_scheme \<Rightarrow> u64 \<Rightarrow> cbuf \<Rightarrow> nat \<Rightarrow> 'h world \<Rightarrow> int \<times> 'h world" where
  "alt_pr_fpga_write_s10 verbose wait_time b base buf count w =
     (if count = 0 then (- EINVAL, w)
      else let (_, w) = alt_pr_fpga_state_s10 b base w;
               (eio, i, count, w) = mgr_write_loop_s10 verbose wait_time b base buf 0 count 0 w
           in if eio then (- EIO, w)
              else (case write_rest b base (int count) (\<lambda>k. buf (4 * i + k)) w of
                 None \<Rightarrow> (- EFAULT, w)
               | Some w \<Rightarrow>
                   let (st, w) = alt_pr_fpga_state_s10 b base w
                   in if st = FPGA_MGR_STATE_WRITE_ERR then (- EIO, w)
                      else let (_, w) = read_p_reg b base w in (0, w)))"

fun mgr_complete_loop_s10 ::
  "('h, 'z) bus_scheme \<Rightarrow> u64 \<Rightarrow> nat \<Rightarrow> 'h world \<Rightarrow> int \<times> 'h world" where
  "mgr_complete_loop_s10 b base 0 w = (- ETIMEDOUT, w)"
| "mgr_complete_loop_s10 b base (Suc n) w =
     (let w = msleep b 200 w;
          (st, w) = alt_pr_fpga_state_s10 b base w
      in if st = FPGA_MGR_STATE_WRITE_ERR then (- EIO, w)
         else if st = FPGA_MGR_STATE_OPERATING then (0, w)
         else mgr_complete_loop_s10 b base n (udelay b 1 w))"

definition alt_pr_fpga_write_complete_s10 ::
  "('h, 'z) bus_scheme \<Rightarrow> u64 \<Rightarrow> fpga_image_info \<Rightarrow> 'h world \<Rightarrow> int \<times> 'h world" where
  "alt_pr_fpga_write_complete_s10 b base info w =
     mgr_complete_loop_s10 b base (unat (config_complete_timeout_us info)) w"

definition alt_pr_ops_s10 :: "bool \<Rightarrow> nat \<Rightarrow> ('h, 'z) bus_scheme \<Rightarrow> (u64, 'h world) fpga_manager_ops" where
  "alt_pr_ops_s10 verbose wait_time b =
     \<lparr>op_state = Some (alt_pr_fpga_state_s10 b), op_write_init = Some (alt_pr_fpga_write_init_s10 b),
      op_write = Some (alt_pr_fpga_write_s10 verbose wait_time b),
      op_write_complete = Some (alt_pr_fpga_write_complete_s10 b), op_fpga_remove = None\<rparr>"

definition alt_pr_probe_s10 ::
  "bool \<Rightarrow> nat \<Rightarrow> ('h, 'z) bus_scheme \<Rightarrow> bool \<Rightarrow> reg_answers \<Rightarrow> (nat \<Rightarrow> nat) \<Rightarrow> nat \<Rightarrow> string option \<Rightarrow> u64 \<Rightarrow>
   (u64, 'h world) mgr_world \<Rightarrow> 'h world \<Rightarrow> int \<times> (u64, 'h world) mgr_world \<times> 'h world" where
  "alt_pr_probe_s10 verbose wait_time b devm_ok ans of_node pdev name base W w =
     (if \<not> devm_ok then (- ENOMEM, W, w)
      else let (val, w) = readl b (base + ALT_PR_CSR_OFST) w;
               (_, w) = readl b (base + ALT_PR_VER_OFST) w
           in fpga_mgr_register ans of_node pdev name (Some (alt_pr_ops_s10 verbose wait_time b)) base W w)"

section \<open>The two stacks do the same\<close>

lemma csr_state_mgr_a10_iff:
  "csr_state_mgr_a10 v = FPGA_MGR_STATE_WRITE_ERR \<longleftrightarrow> csr_state_a10 v = FPGA_PR_IP_STATE_WRITE_ERR"
  "csr_state_mgr_a10 v = FPGA_MGR_STATE_OPERATING \<longleftrightarrow> csr_state_a10 v = FPGA_PR_IP_STATE_OPERATING"
  by (simp_all add: csr_state_mgr_a10_def csr_state_a10_def Let_def)

lemma csr_state_mgr_s10_iff:
  "csr_state_mgr_s10 v = FPGA_MGR_STATE_WRITE_ERR \<longleftrightarrow> csr_state_s10 v = FPGA_PR_IP_STATE_WRITE_ERR"
  "csr_state_mgr_s10 v = FPGA_MGR_STATE_OPERATING \<longleftrightarrow> csr_state_s10 v = FPGA_PR_IP_STATE_OPERATING"
  "csr_state_mgr_s10 v = FPGA_MGR_STATE_WRITE \<longleftrightarrow> csr_state_s10 v = FPGA_PR_IP_STATE_WRITE"
  by (simp_all add: csr_state_mgr_s10_def csr_state_s10_def Let_def)

lemmas state_defs_a10 = alt_pr_fpga_state_a10_def alt_pr_ip_fpga_state_a10_def csr_state_mgr_a10_iff
lemmas state_defs_s10 = alt_pr_fpga_state_s10_def alt_pr_ip_fpga_state_s10_def csr_state_mgr_s10_iff

lemma mgr_write_init_a10:
  "alt_pr_fpga_write_init_a10 b (reg_base priv) info buf n w =
     (if flags info AND FPGA_MGR_PARTIAL_RECONFIG = 0 then (- EINVAL, w)
      else alt_pr_ip_write_init_a10 b priv buf n w)"
  by (simp add: alt_pr_fpga_write_init_a10_def alt_pr_ip_write_init_a10_def)

lemma mgr_complete_loop_a10: "mgr_complete_loop_a10 b (reg_base priv) n w = write_complete_loop_a10 b priv n w"
  by (induction n arbitrary: w) (simp_all add: state_defs_a10 split: prod.split)

lemma mgr_complete_loop_s10: "mgr_complete_loop_s10 b (reg_base priv) n w = write_complete_loop_s10 b priv n w"
  by (induction n arbitrary: w) (simp_all add: state_defs_s10 split: prod.split)

lemma mgr_wait_initial_loop: "mgr_wait_initial_loop b (reg_base priv) n v w = wait_initial_loop_s10 b priv n v w"
  by (induction n arbitrary: v w) (simp_all split: prod.split)

lemma mgr_write_init_start_s10:
  "mgr_write_init_start_s10 b (reg_base priv) v w = write_init_start_s10 b priv v w"
  unfolding mgr_write_init_start_s10_def write_init_start_s10_def alt_pr_wait_for_initial_state_def
    alt_pr_ip_wait_for_initial_state_s10_def mgr_wait_initial_loop state_defs_s10
  by (simp add: Let_def case_prod_beta)

lemma mgr_write_init_s10:
  "alt_pr_fpga_write_init_s10 b (reg_base priv) info buf n w =
     (if flags info AND FPGA_MGR_PARTIAL_RECONFIG = 0 then (- EINVAL, w)
      else alt_pr_ip_write_init_s10 b priv buf n w)"
  unfolding alt_pr_fpga_write_init_s10_def alt_pr_ip_write_init_s10_def mgr_write_init_start_s10 ..

text \<open>The loop over the buffer pushes its complete words and stops at the rest.\<close>

lemma buf_bytes_4:
  assumes "4 \<le> n"
  shows "buf_bytes f n = f 0 # f 1 # f 2 # f 3 # buf_bytes (\<lambda>k. f (4 + k)) (n - 4)"
proof -
  have "[0..<n] = 0 # 1 # 2 # 3 # [4..<n]"
    using assms by (simp add: upt_conv_Cons numeral_eq_Suc)
  moreover have "[4..<n] = map (\<lambda>k. k + 4) [0..<n - 4]" using assms by (simp add: map_add_upt)
  ultimately show ?thesis by (simp add: buf_bytes_def add.commute)
qed

lemma full_words_buf: "4 \<le> n \<Longrightarrow> full_words (buf_bytes f n) = buf32 f 0 # full_words (buf_bytes (\<lambda>k. f (4 + k)) (n - 4))"
  by (simp add: buf_bytes_4 buf32_def numeral_2_eq_2 numeral_3_eq_3)

lemma rest_bytes_buf: "4 \<le> n \<Longrightarrow> rest_bytes (buf_bytes f n) = rest_bytes (buf_bytes (\<lambda>k. f (4 + k)) (n - 4))"
  by (simp add: buf_bytes_4)

lemma short_buf: "n < 4 \<Longrightarrow> full_words (buf_bytes f n) = [] \<and> rest_bytes (buf_bytes f n) = buf_bytes f n"
  by (rule short_words) (simp add: buf_bytes_def)

lemma buf32_shift: "buf32 buf (4 * i) = buf32 (\<lambda>k. buf (4 * i + k)) 0"
  by (simp add: buf32_def)

lemma buf32_shift' [simp]: "buf32 (\<lambda>k. buf (k + j)) 0 = buf32 buf j"
  by (simp add: buf32_def add.commute)

lemma mgr_write_loop_a10_words:
  "mgr_write_loop_a10 b base buf i n w =
     (i + n div 4, n mod 4, push_words b base (full_words (buf_bytes (\<lambda>k. buf (4 * i + k)) n)) w) \<and>
   rest_bytes (buf_bytes (\<lambda>k. buf (4 * i + k)) n) = buf_bytes (\<lambda>k. buf (4 * (i + n div 4) + k)) (n mod 4)"
proof (induction n arbitrary: i w rule: less_induct)
  case (less n)
  show ?case
  proof (cases "4 \<le> n")
    case True
    then have "n div 4 = (n - 4) div 4 + 1" "n mod 4 = (n - 4) mod 4" by (simp_all add: le_div_geq le_mod_geq)
    moreover have shift: "(\<lambda>k. buf (4 * i + (4 + k))) = (\<lambda>k. buf (4 * (i + 1) + k))" by (simp add: algebra_simps)
    ultimately show ?thesis
      using less.IH [of "n - 4" "i + 1" "writel b (buf32 buf (4 * i)) base w"] True
      by (subst mgr_write_loop_a10.simps)
        (simp add: full_words_buf rest_bytes_buf shift buf32_shift [symmetric] algebra_simps)
  next
    case False
    then show ?thesis by (subst mgr_write_loop_a10.simps) (simp add: short_buf)
  qed
qed

lemma write_rest_buf:
  "n < 4 \<Longrightarrow> write_rest b base (int n) buf w = Some (push_words b base (le_words (buf_bytes buf n)) w)"
  using write_rest_le_words [of "buf_bytes buf n" buf b base w] by (simp add: buf_bytes_def)

lemma mgr_write_a10:
  assumes "0 < n"
  shows "alt_pr_fpga_write_a10 b base buf n w =
    (let (v, w') = readl b (base + ALT_PR_CSR_OFST) (push_words b base (le_words (buf_bytes buf n)) w)
     in (if csr_state_a10 v = FPGA_PR_IP_STATE_WRITE_ERR then - EIO else 0, w'))"
proof -
  have loop: "mgr_write_loop_a10 b base buf 0 n w =
      (n div 4, n mod 4, push_words b base (full_words (buf_bytes buf n)) w)"
    and rest: "rest_bytes (buf_bytes buf n) = buf_bytes (\<lambda>k. buf (4 * (n div 4) + k)) (n mod 4)"
    using mgr_write_loop_a10_words [of b base buf 0 n w] by simp_all
  have m: "n mod 4 < 4" by simp
  show ?thesis using assms le_words_split [of "buf_bytes buf n"]
    by (simp add: alt_pr_fpga_write_a10_def loop write_rest_buf [OF m] state_defs_a10 rest [symmetric]
        case_prod_beta)
qed

lemma mgr_write_loop_s10_words:
  assumes "push_s10 verbose wait_time b priv (full_words (buf_bytes (\<lambda>k. buf (4 * i + k)) n)) j w = (eio, j', w')"
  shows "\<exists>i' n'. mgr_write_loop_s10 verbose wait_time b (reg_base priv) buf i n j w = (eio, i', n', w') \<and>
    (\<not> eio \<longrightarrow> n' < 4 \<and>
       rest_bytes (buf_bytes (\<lambda>k. buf (4 * i + k)) n) = buf_bytes (\<lambda>k. buf (4 * i' + k)) n')"
  using assms
proof (induction n arbitrary: i j w rule: less_induct)
  case (less n)
  show ?case
  proof (cases "4 \<le> n")
    case True
    let ?v = "buf32 buf (4 * i)"
    have shift: "(\<lambda>k. buf (4 * i + (4 + k))) = (\<lambda>k. buf (4 * (i + 1) + k))" by (simp add: algebra_simps)
    have words: "full_words (buf_bytes (\<lambda>k. buf (4 * i + k)) n) =
        ?v # full_words (buf_bytes (\<lambda>k. buf (4 * (i + 1) + k)) (n - 4))"
      using full_words_buf [OF True, of "\<lambda>k. buf (4 * i + k)"] unfolding shift buf32_shift [symmetric] .
    have rest: "rest_bytes (buf_bytes (\<lambda>k. buf (4 * i + k)) n) =
        rest_bytes (buf_bytes (\<lambda>k. buf (4 * (i + 1) + k)) (n - 4))"
      using rest_bytes_buf [OF True, of "\<lambda>k. buf (4 * i + k)"] unfolding shift .
    obtain e j1 w1 where put: "put_word_s10 verbose wait_time b priv ?v j w = (e, j1, w1)" by (metis prod_cases3)
    have step: "mgr_write_loop_s10 verbose wait_time b (reg_base priv) buf i n j w =
        (if e then (True, i + 1, n - 4, w1)
         else mgr_write_loop_s10 verbose wait_time b (reg_base priv) buf (i + 1) (n - 4) j1 w1)"
      using put True
      by (subst mgr_write_loop_s10.simps)
        (auto simp: put_word_s10_def state_defs_s10 Let_def split: prod.splits if_splits)
    show ?thesis
    proof (cases e)
      case True
      then show ?thesis using less.prems put step by (simp add: words)
    next
      case False
      then have "push_s10 verbose wait_time b priv (full_words (buf_bytes (\<lambda>k. buf (4 * (i + 1) + k)) (n - 4))) j1 w1 =
          (eio, j', w')" using less.prems put by (simp add: words)
      from less.IH [OF _ this] show ?thesis using True step False rest by simp
    qed
  next
    case False
    then show ?thesis using less.prems by (subst mgr_write_loop_s10.simps) (simp add: short_buf)
  qed
qed

text \<open>The older Stratix 10 writer is the newer one on a file with the same bytes, up to the counters.\<close>

lemma mgr_write_s10:
  assumes n: "0 < n"
  shows "alt_pr_fpga_write_s10 verbose wait_time b (reg_base priv) buf n w =
    (let (_, w) = alt_pr_ip_fpga_state_s10 b priv w;
         (eio, _, w) = push_s10 verbose wait_time b priv (full_words (buf_bytes buf n)) 0 w
     in if eio then (- EIO, w)
        else let (st, w) = alt_pr_ip_fpga_state_s10 b priv
                   (push_words b (reg_base priv) (le_words (rest_bytes (buf_bytes buf n))) w)
             in if st = FPGA_PR_IP_STATE_WRITE_ERR then (- EIO, w)
                else (0, snd (read_p_reg b (reg_base priv) w)))"
proof -
  obtain u w0 where u: "readl b (reg_base priv + ALT_PR_CSR_OFST) w = (u, w0)" by fastforce
  obtain eio j' w1 where p: "push_s10 verbose wait_time b priv (full_words (buf_bytes buf n)) 0 w0 = (eio, j', w1)"
    by (metis prod_cases3)
  then have "push_s10 verbose wait_time b priv (full_words (buf_bytes (\<lambda>k. buf (4 * 0 + k)) n)) 0 w0 = (eio, j', w1)"
    by simp
  from mgr_write_loop_s10_words [OF this] obtain i' n' where
    loop: "mgr_write_loop_s10 verbose wait_time b (reg_base priv) buf 0 n 0 w0 = (eio, i', n', w1)"
    and rest: "\<not> eio \<longrightarrow> n' < 4 \<and> rest_bytes (buf_bytes buf n) = buf_bytes (\<lambda>k. buf (4 * i' + k)) n'"
    by auto
  show ?thesis using n rest
    by (cases eio)
      (simp_all add: alt_pr_fpga_write_s10_def state_defs_s10 u loop p write_rest_buf case_prod_beta)
qed

section \<open>The drivers keep the contract of the framework\<close>

definition card_at :: "u64 \<Rightarrow> fpga_pcie_priv" where
  "card_at base = \<lparr>bar_addrs = (\<lambda>_. 0), debugfs_root = 0, pci_dev = None, pci_upstream_dev = None, aer_uerr_mask_reg = 0,
     drv_st = ST_IDLE, config_state = FPGA_CONFIG_STATE_UNKNOWN, reg_base = base\<rparr>"

lemma reg_base_card_at [simp]: "reg_base (card_at base) = base"
  by (simp add: card_at_def)

definition mgr_data :: "u64 \<Rightarrow> 'h world \<Rightarrow> u32 list" where
  "mgr_data base = data_words (card_at base)"

lemma read_p_reg_data: "mgr_data base (snd (read_p_reg b base' w)) = mgr_data base w"
  by (simp add: read_p_reg_def mgr_data_def data_words_def case_prod_beta trace_readl)

lemma mgr_write_a10_data:
  assumes "alt_pr_fpga_write_a10 b base buf n w = (r, w')"
  shows "r \<le> 0 \<and> (\<exists>ws. mgr_data base w' = mgr_data base w @ ws \<and> prefix ws (le_words (buf_bytes buf n)) \<and>
    (r = 0 \<longrightarrow> ws = le_words (buf_bytes buf n)))"
proof (cases "n = 0")
  case True
  then show ?thesis using assms by (auto simp: alt_pr_fpga_write_a10_def EINVAL_def)
next
  case False
  obtain v w1 where v: "readl b (base + ALT_PR_CSR_OFST) (push_words b base (le_words (buf_bytes buf n)) w) = (v, w1)"
    by fastforce
  then have "r = (if csr_state_a10 v = FPGA_PR_IP_STATE_WRITE_ERR then - EIO else 0)" "w' = w1"
    using assms False by (auto simp: mgr_write_a10)
  then show ?thesis using trace_readlD [OF v]
    by (auto simp: mgr_data_def data_words_def trace_push_words EIO_def)
qed

lemma mgr_write_s10_data:
  assumes run: "alt_pr_fpga_write_s10 verbose wait_time b base buf n w = (r, w')"
  shows "r \<le> 0 \<and> (\<exists>ws. mgr_data base w' = mgr_data base w @ ws \<and> prefix ws (le_words (buf_bytes buf n)) \<and>
    (r = 0 \<longrightarrow> ws = le_words (buf_bytes buf n)))"
proof (cases "n = 0")
  case True
  then show ?thesis using assms by (auto simp: alt_pr_fpga_write_s10_def EINVAL_def)
next
  case False
  let ?a = "base + ALT_PR_CSR_OFST" and ?bs = "buf_bytes buf n"
  obtain u w0 where u: "readl b ?a w = (u, w0)" by fastforce
  obtain eio j' w1 where p: "push_s10 verbose wait_time b (card_at base) (full_words ?bs) (of_nat 0) w0 = (eio, j', w1)"
    by (metis prod_cases3)
  obtain us where us: "mgr_data base w1 = mgr_data base w0 @ us"
     "if eio then prefix us (full_words ?bs) else us = full_words ?bs"
    using push_s10_spec [OF p] by (auto simp: mgr_data_def split: if_splits)
  have d0: "mgr_data base w0 = mgr_data base w"
    using trace_readlD [OF u] by (simp add: mgr_data_def data_words_def)
  let ?w2 = "push_words b base (le_words (rest_bytes ?bs)) w1"
  obtain v w3 where v: "readl b ?a ?w2 = (v, w3)" by fastforce
  have d3: "mgr_data base w3 = mgr_data base w1 @ le_words (rest_bytes ?bs)"
    using trace_readlD [OF v] by (simp add: mgr_data_def data_words_def trace_push_words)
  have res: "(r, w') = (if eio then (- EIO, w1) else if csr_state_s10 v = FPGA_PR_IP_STATE_WRITE_ERR then (- EIO, w3)
      else (0, snd (read_p_reg b base w3)))"
    using run mgr_write_s10 [of n verbose wait_time b "card_at base" buf w] False p
    by (auto simp: alt_pr_ip_fpga_state_s10_def u v)
  show ?thesis
  proof (cases eio)
    case True
    then show ?thesis using res us d0 le_words_split [of ?bs] by (auto simp: EIO_def)
  next
    case False
    then have "mgr_data base w' = mgr_data base w @ le_words ?bs" "r \<le> 0"
      using res us d0 d3 le_words_split [of ?bs] by (auto simp: read_p_reg_data EIO_def split: if_splits)
    then show ?thesis by blast
  qed
qed

definition mgr_operating_a10 :: "u64 \<Rightarrow> 'h world \<Rightarrow> bool" where
  "mgr_operating_a10 base = operating_a10 (card_at base)"

definition mgr_operating_s10 :: "u64 \<Rightarrow> 'h world \<Rightarrow> bool" where
  "mgr_operating_s10 base = operating_s10 (card_at base)"

lemma mgr_init_a10_data:
  assumes "alt_pr_fpga_write_init_a10 b base info buf n w = (r, w')"
  shows "r \<le> 0 \<and> mgr_data base w' = mgr_data base w"
  using assms a10_init_law [of b "\<lambda>_. 0" "card_at base" buf n w]
    mgr_write_init_a10 [of b "card_at base" info buf n w]
  by (auto simp: a10_ops_def mgr_data_def EINVAL_def split: if_splits)

lemma mgr_complete_a10_data:
  assumes "alt_pr_fpga_write_complete_a10 b base info w = (r, w')"
  shows "r \<le> 0 \<and> mgr_data base w' = mgr_data base w \<and> (r = 0 \<longrightarrow> mgr_operating_a10 base w')"
proof -
  obtain t where tr: "trace w' = trace w @ t"
    and po: "poll_outcome csr_state_a10 (reg_base (card_at base) + ALT_PR_CSR_OFST)
       (unat (config_complete_timeout_us info)) r t"
    using assms write_complete_loop_a10_outcome [of b "card_at base" "unat (config_complete_timeout_us info)" w]
      mgr_complete_loop_a10 [of b "card_at base" "unat (config_complete_timeout_us info)" w]
    by (auto simp: alt_pr_fpga_write_complete_a10_def)
  show ?thesis using poll_outcome_operating [OF po tr]
    unfolding mgr_data_def mgr_operating_a10_def operating_a10_def by blast
qed

lemma mgr_init_s10_data:
  assumes "alt_pr_fpga_write_init_s10 b base info buf n w = (r, w')"
  shows "r \<le> 0 \<and> mgr_data base w' = mgr_data base w"
  using assms s10_init_law [of False 0 b "\<lambda>_. 0" "card_at base" buf n w]
    mgr_write_init_s10 [of b "card_at base" info buf n w]
  by (auto simp: s10_ops_def mgr_data_def EINVAL_def split: if_splits)

lemma mgr_complete_s10_data:
  assumes "alt_pr_fpga_write_complete_s10 b base info w = (r, w')"
  shows "r \<le> 0 \<and> mgr_data base w' = mgr_data base w \<and> (r = 0 \<longrightarrow> mgr_operating_s10 base w')"
proof -
  obtain t where tr: "trace w' = trace w @ t"
    and po: "poll_outcome csr_state_s10 (reg_base (card_at base) + ALT_PR_CSR_OFST)
       (unat (config_complete_timeout_us info)) r t"
    using assms write_complete_loop_s10_outcome [of b "card_at base" "unat (config_complete_timeout_us info)" w]
      mgr_complete_loop_s10 [of b "card_at base" "unat (config_complete_timeout_us info)" w]
    by (auto simp: alt_pr_fpga_write_complete_s10_def)
  show ?thesis using poll_outcome_operating [OF po tr]
    unfolding mgr_data_def mgr_operating_s10_def operating_s10_def by blast
qed

interpretation mgr_a10: fpga_mgr_driver "alt_pr_ops_a10 b" mgr_data mgr_operating_a10
  for b :: "('h, 'z) bus_scheme"
  by unfold_locales
    (simp_all add: alt_pr_ops_a10_def mgr_init_a10_data mgr_write_a10_data mgr_complete_a10_data)

interpretation mgr_s10: fpga_mgr_driver "alt_pr_ops_s10 verbose wait_time b" mgr_data mgr_operating_s10
  for verbose wait_time and b :: "('h, 'z) bus_scheme"
  by unfold_locales
    (simp_all add: alt_pr_ops_s10_def mgr_init_s10_data mgr_write_s10_data mgr_complete_s10_data)

section \<open>The protocols of the older drivers\<close>

text \<open>
  They are those of the newer drivers behind two guards: an image without the partial reconfiguration flag and
  an empty image are refused without an access. After a transfer without an error the Stratix 10 driver
  reads its six performance counters.
\<close>

definition guarded :: "fpga_image_info \<Rightarrow> core_protocol \<Rightarrow> core_protocol" where
  "guarded info P = P\<lparr>
     starts := (\<lambda>buf n r t. if flags info AND FPGA_MGR_PARTIAL_RECONFIG = 0 then r = - EINVAL \<and> t = []
                else starts P buf n r t),
     pushes := (\<lambda>bs r t. if bs = [] then r = - EINVAL \<and> t = [] else pushes P bs r t)\<rparr>"

definition p_counters :: "u64 \<Rightarrow> u64 list" where
  "p_counters base = map (\<lambda>ofst. base + ALT_P_BASE + ofst)
     [ALT_P_STARTUP, ALT_P_DATA_LO, ALT_P_DATA_HI, ALT_P_PROCESS_LO, ALT_P_PROCESS_HI, ALT_P_COMPLETE]"

definition counted :: "u64 \<Rightarrow> core_protocol \<Rightarrow> core_protocol" where
  "counted base P = P\<lparr>
     pushes := (\<lambda>bs r t. if r = 0 then \<exists>t' vs. pushes P bs 0 t' \<and> length vs = 6 \<and> t = t' @ map2 Read (p_counters base) vs
                else pushes P bs r t)\<rparr>"

definition mgr_a10_protocol :: "fpga_image_info \<Rightarrow> u64 \<Rightarrow> core_protocol" where
  "mgr_a10_protocol info base = guarded info (a10_protocol base)"

definition mgr_s10_protocol :: "bool \<Rightarrow> nat \<Rightarrow> fpga_image_info \<Rightarrow> u64 \<Rightarrow> core_protocol" where
  "mgr_s10_protocol verbose wait_time info base = guarded info (counted base (s10_protocol verbose wait_time base))"

lemma read_p_reg_trace:
  "\<exists>vs. length vs = 6 \<and> trace (snd (read_p_reg b base w)) = trace w @ map2 Read (p_counters base) vs"
proof -
  define c where "c = (\<lambda>w ofst. readl b (base + ALT_P_BASE + ofst) w)"
  define w1 where "w1 = snd (c w ALT_P_STARTUP)"
  define w2 where "w2 = snd (c w1 ALT_P_DATA_LO)"
  define w3 where "w3 = snd (c w2 ALT_P_DATA_HI)"
  define w4 where "w4 = snd (c w3 ALT_P_PROCESS_LO)"
  define w5 where "w5 = snd (c w4 ALT_P_PROCESS_HI)"
  show ?thesis
    by (intro exI [of _ "[fst (c w ALT_P_STARTUP), fst (c w1 ALT_P_DATA_LO), fst (c w2 ALT_P_DATA_HI),
        fst (c w3 ALT_P_PROCESS_LO), fst (c w4 ALT_P_PROCESS_HI), fst (c w5 ALT_P_COMPLETE)]"])
      (simp add: read_p_reg_def p_counters_def w1_def w2_def w3_def w4_def w5_def c_def case_prod_beta trace_readl)
qed

lemma length_buf_bytes [simp]: "length (buf_bytes buf n) = n"
  by (simp add: buf_bytes_def)

lemma buf_bytes_Nil [simp]: "buf_bytes buf n = [] \<longleftrightarrow> n = 0"
  by (simp add: buf_bytes_def)

lemma mgr_a10_init_follows:
  "\<exists>r t w'. alt_pr_fpga_write_init_a10 b base info buf n w = (r, w') \<and> trace w' = trace w @ t \<and>
     starts (mgr_a10_protocol info base) buf n r t"
  using a10_init_follows [of b "card_at base" buf n w] mgr_write_init_a10 [of b "card_at base" info buf n w]
  by (auto simp: mgr_a10_protocol_def guarded_def a10_protocol_def)

lemma mgr_s10_init_follows:
  "\<exists>r t w'. alt_pr_fpga_write_init_s10 b base info buf n w = (r, w') \<and> trace w' = trace w @ t \<and>
     starts (mgr_s10_protocol verbose wait_time info base) buf n r t"
  using s10_init_follows [of b "card_at base" buf n w] mgr_write_init_s10 [of b "card_at base" info buf n w]
  by (auto simp: mgr_s10_protocol_def guarded_def counted_def s10_protocol_def)

lemma mgr_a10_write_follows:
  "\<exists>r t w'. alt_pr_fpga_write_a10 b base buf n w = (r, w') \<and> trace w' = trace w @ t \<and>
     (\<forall>info. pushes (mgr_a10_protocol info base) (buf_bytes buf n) r t)"
proof (cases "n = 0")
  case True
  then show ?thesis by (simp add: alt_pr_fpga_write_a10_def mgr_a10_protocol_def guarded_def)
next
  case False
  obtain v w' where v: "readl b (base + ALT_PR_CSR_OFST) (push_words b base (le_words (buf_bytes buf n)) w) = (v, w')"
    by fastforce
  then show ?thesis using False trace_readlD [OF v]
    by (intro exI [of _ "push_result csr_state_a10 v"]
        exI [of _ "map (Write base) (le_words (buf_bytes buf n)) @ [Read (base + ALT_PR_CSR_OFST) v]"] exI [of _ w'])
      (auto simp: mgr_write_a10 push_result_def trace_push_words mgr_a10_protocol_def guarded_def a10_protocol_def
        a10_pushes_def)
qed

lemma mgr_s10_write_follows:
  "\<exists>r t w'. alt_pr_fpga_write_s10 verbose wait_time b base buf n w = (r, w') \<and> trace w' = trace w @ t \<and>
     (\<forall>info. pushes (mgr_s10_protocol verbose wait_time info base) (buf_bytes buf n) r t)"
proof (cases "n = 0")
  case True
  then show ?thesis by (simp add: alt_pr_fpga_write_s10_def mgr_s10_protocol_def guarded_def)
next
  case False
  let ?bs = "buf_bytes buf n" and ?card = "card_at base"
  obtain u w0 where u: "alt_pr_ip_fpga_state_s10 b ?card w = (u, w0)" by fastforce
  obtain e j' w1 where p: "push_s10 verbose wait_time b ?card (full_words ?bs) 0 w0 = (e, j', w1)"
    by (metis prod_cases3)
  obtain st w2 where st: "alt_pr_ip_fpga_state_s10 b ?card
      (push_words b (reg_base ?card) (le_words (rest_bytes ?bs)) w1) = (st, w2)" by fastforce
  let ?r = "if e \<or> st = FPGA_PR_IP_STATE_WRITE_ERR then - EIO else 0"
  obtain t where t: "trace (if e then w1 else w2) = trace w @ t" "s10_pushes verbose wait_time base ?bs ?r t"
    using s10_transfer_follows [OF u p st] by auto
  have run: "alt_pr_fpga_write_s10 verbose wait_time b base buf n w =
      (?r, if e then w1 else if st = FPGA_PR_IP_STATE_WRITE_ERR then w2 else snd (read_p_reg b base w2))"
    using mgr_write_s10 [of n verbose wait_time b ?card buf w] False st by (simp add: u p)
  show ?thesis
  proof (cases "?r = 0")
    case True
    then have ok: "\<not> e" "st \<noteq> FPGA_PR_IP_STATE_WRITE_ERR" by (auto simp: EIO_def split: if_splits)
    obtain vs where vs: "length vs = 6" "trace (snd (read_p_reg b base w2)) = trace w2 @ map2 Read (p_counters base) vs"
      using read_p_reg_trace by blast
    show ?thesis using run ok t vs False
      by (intro exI [of _ 0] exI [of _ "t @ map2 Read (p_counters base) vs"] exI [of _ "snd (read_p_reg b base w2)"])
        (auto simp: mgr_s10_protocol_def guarded_def counted_def s10_protocol_def)
  next
    case bad: False
    then show ?thesis using run t False
      by (intro exI [of _ ?r] exI [of _ t] exI [of _ "if e then w1 else w2"])
        (auto simp: mgr_s10_protocol_def guarded_def counted_def s10_protocol_def)
  qed
qed

lemma mgr_a10_complete_follows:
  "\<exists>r t w'. alt_pr_fpga_write_complete_a10 b base info w = (r, w') \<and> trace w' = trace w @ t \<and>
     ends (mgr_a10_protocol info base) (unat (config_complete_timeout_us info)) r t"
  using write_complete_loop_a10_outcome [of b "card_at base" "unat (config_complete_timeout_us info)" w]
    mgr_complete_loop_a10 [of b "card_at base" "unat (config_complete_timeout_us info)" w]
  by (simp add: alt_pr_fpga_write_complete_a10_def mgr_a10_protocol_def guarded_def a10_protocol_def)

lemma mgr_s10_complete_follows:
  "\<exists>r t w'. alt_pr_fpga_write_complete_s10 b base info w = (r, w') \<and> trace w' = trace w @ t \<and>
     ends (mgr_s10_protocol verbose wait_time info base) (unat (config_complete_timeout_us info)) r t"
  using write_complete_loop_s10_outcome [of b "card_at base" "unat (config_complete_timeout_us info)" w]
    mgr_complete_loop_s10 [of b "card_at base" "unat (config_complete_timeout_us info)" w]
  by (simp add: alt_pr_fpga_write_complete_s10_def mgr_s10_protocol_def guarded_def counted_def s10_protocol_def)

interpretation mgr_a10p: fpga_mgr_protocol "alt_pr_ops_a10 b" mgr_a10_protocol for b :: "('h, 'z) bus_scheme"
  by unfold_locales
    (simp_all add: alt_pr_ops_a10_def mgr_a10_init_follows mgr_a10_write_follows mgr_a10_complete_follows)

interpretation mgr_s10p: fpga_mgr_protocol "alt_pr_ops_s10 verbose wait_time b" "mgr_s10_protocol verbose wait_time"
  for verbose wait_time and b :: "('h, 'z) bus_scheme"
  by unfold_locales
    (simp_all add: alt_pr_ops_s10_def mgr_s10_init_follows mgr_s10_write_follows mgr_s10_complete_follows)

section \<open>Properties\<close>

text \<open>
  C6. The Arria 10 drivers of the two stacks do the same to the card: with the partial
  reconfiguration flag set they start an image alike, they write a buffer and a file with the same
  bytes alike (the buffer's bytes behind the image do not matter), and they wait alike. Without
  the flag the older one refuses the image before it touches the card.
\<close>

theorem legacy_a10_equivalent:
  assumes "file_has fp (buf_bytes buf n)" and "4 \<le> n" and "n < 2 ^ 31"
  shows "alt_pr_fpga_write_init_a10 b (reg_base priv) info buf n w =
      (if flags info AND FPGA_MGR_PARTIAL_RECONFIG = 0 then (- EINVAL, w)
       else alt_pr_ip_write_init_a10 b priv buf n w) \<and>
    alt_pr_ip_fpga_write_a10 b priv buf0 fp w = Some (alt_pr_fpga_write_a10 b (reg_base priv) buf n w) \<and>
    alt_pr_fpga_write_complete_a10 b (reg_base priv) info w =
      alt_pr_ip_fpga_write_complete_a10 b priv (uint (config_complete_timeout_us info)) w"
proof -
  have len: "length (buf_bytes buf n) = n" by (simp add: buf_bytes_def)
  show ?thesis
    using mgr_write_init_a10 [of b priv info buf n w] write_a10_file [OF assms(1), unfolded len, OF assms(2,3), of b priv buf0 w]
      mgr_write_a10 [of n b "reg_base priv" buf w] assms(2)
    by (simp add: alt_pr_fpga_write_complete_a10_def alt_pr_ip_fpga_write_complete_a10_def
        mgr_complete_loop_a10 alt_pr_ip_fpga_state_a10_def case_prod_beta)
qed

theorem legacy_a10_equivalent_witness:
  "alt_pr_ip_fpga_write_a10 demo_core demo_card (\<lambda>_. 0) (file_of [1, 2, 3, 4, 5]) \<lparr>dev = 0, trace = []\<rparr> =
     Some (alt_pr_fpga_write_a10 demo_core 0xf0001000 (image_buf [1, 2, 3, 4, 5] (\<lambda>_. 0xff)) 5 \<lparr>dev = 0, trace = []\<rparr>)"
proof -
  have "buf_bytes (image_buf [1, 2, 3, 4, 5 :: u8] (\<lambda>_. 0xff)) 5 = [1, 2, 3, 4, 5]"
    by (simp add: buf_bytes_def image_buf_def upt_rec)
  then have "file_has (file_of [1, 2, 3, 4, 5]) (buf_bytes (image_buf [1, 2, 3, 4, 5] (\<lambda>_. 0xff)) 5)"
    using file_has_file_of by simp
  from legacy_a10_equivalent [OF this, of demo_core demo_card undefined] show ?thesis
    by (simp add: demo_card_def)
qed



lemma mgr_load_words:
  assumes "mgr_data base w' = mgr_data base w @ ws" and "trace w' = trace w @ t"
    and "load_outcome bs r st ws oper"
  shows "prefix (writes_to base t) (le_words bs) \<and>
    (r \<noteq> 0 \<or> take (length bs) (concat (map word_bytes (writes_to base t))) = bs \<and> oper)"
proof -
  have "ws = writes_to base t" using assms(1,2) by (simp add: mgr_data_def data_words_def)
  then show ?thesis using load_outcome_prefix [OF assms(3)] load_outcome_iff [OF assms(3)] le_words_bytes by auto
qed

text \<open>
  C8. Loading a firmware file through a manager of either driver. A missing file is reported, and the card is
  not touched. Otherwise the load is a run of the driver's protocol: without the partial reconfiguration flag
  the image is refused and the card not touched, an empty image is refused after the start, and apart from that
  it is the protocol of the newer driver, with the counters of the Stratix 10 core read after the transfer and
  as many looks at the status as the timeout of the image information says. The state names the step that failed,
  the result is 0 exactly when the manager ends as OPERATING, and then the bytes of the words sent are the image
  and the last status read showed success.
\<close>

theorem legacy_firmware_load:
  "(\<exists>r st t w'. fpga_mgr_firmware_load request beyond (mgr\<lparr>mops := alt_pr_ops_a10 b\<rparr>) info name w =
        Some (r, mgr\<lparr>mops := alt_pr_ops_a10 b, mgr_state := st\<rparr>, w') \<and> trace w' = trace w @ t \<and>
      (case request name of
         Inl e \<Rightarrow> r = e \<and> st = FPGA_MGR_STATE_FIRMWARE_REQ_ERR \<and> w' = w
       | Inr bs \<Rightarrow>
           load_run (mgr_a10_protocol info (mgr_priv mgr)) (image_buf bs beyond) (length bs) bs
             (unat (config_complete_timeout_us info)) r (config_of st) t \<and>
           (r = 0 \<longleftrightarrow> st = FPGA_MGR_STATE_OPERATING) \<and>
           prefix (writes_to (mgr_priv mgr) t) (le_words bs) \<and>
           (r \<noteq> 0 \<or> take (length bs) (concat (map word_bytes (writes_to (mgr_priv mgr) t))) = bs \<and>
             mgr_operating_a10 (mgr_priv mgr) w'))) \<and>
   (\<exists>r st t w'. fpga_mgr_firmware_load request beyond (mgr\<lparr>mops := alt_pr_ops_s10 verbose wait_time b\<rparr>) info name w =
        Some (r, mgr\<lparr>mops := alt_pr_ops_s10 verbose wait_time b, mgr_state := st\<rparr>, w') \<and> trace w' = trace w @ t \<and>
      (case request name of
         Inl e \<Rightarrow> r = e \<and> st = FPGA_MGR_STATE_FIRMWARE_REQ_ERR \<and> w' = w
       | Inr bs \<Rightarrow>
           load_run (mgr_s10_protocol verbose wait_time info (mgr_priv mgr)) (image_buf bs beyond) (length bs) bs
             (unat (config_complete_timeout_us info)) r (config_of st) t \<and>
           (r = 0 \<longleftrightarrow> st = FPGA_MGR_STATE_OPERATING) \<and>
           prefix (writes_to (mgr_priv mgr) t) (le_words bs) \<and>
           (r \<noteq> 0 \<or> take (length bs) (concat (map word_bytes (writes_to (mgr_priv mgr) t))) = bs \<and>
             mgr_operating_s10 (mgr_priv mgr) w')))"
proof -
  let ?a = "mgr\<lparr>mops := alt_pr_ops_a10 b\<rparr>" and ?s = "mgr\<lparr>mops := alt_pr_ops_s10 verbose wait_time b\<rparr>"
  have res: "r = 0 \<longleftrightarrow> st = FPGA_MGR_STATE_OPERATING" if "load_run P buf n bs tmo r (config_of st) t"
    for P buf n bs tmo r st t
    using load_run_result [OF that] config_of_operating by simp
  have ops: "mops ?a = alt_pr_ops_a10 b" "mops ?s = alt_pr_ops_s10 verbose wait_time b"
    and priv: "mgr_priv ?a = mgr_priv mgr" "mgr_priv ?s = mgr_priv mgr" by simp_all
  note a = mgr_a10.firmware_load [OF ops(1), of request beyond info name w, unfolded priv]
    mgr_a10p.firmware_follows [OF ops(1), of request beyond info name w, unfolded priv]
  note s = mgr_s10.firmware_load [OF ops(2), of request beyond info name w, unfolded priv]
    mgr_s10p.firmware_follows [OF ops(2), of request beyond info name w, unfolded priv]
  show ?thesis
  proof (cases "request name")
    case (Inl e)
    then show ?thesis using a(2) s(2) by (intro conjI) fastforce+
  next
    case (Inr bs)
    show ?thesis unfolding Inr sum.case
      by (intro conjI; insert a s; clarsimp simp: Inr; metis mgr_load_words res)
  qed
qed

theorem legacy_firmware_load_witness:
  "\<exists>r st t w'. fpga_mgr_firmware_load (\<lambda>_. Inr [1, 2, 3]) (\<lambda>_. 0)
       \<lparr>mgr_name = ''pr'', ref_mutex = True, mgr_state = FPGA_MGR_STATE_UNKNOWN, mops = alt_pr_ops_a10 demo_core,
        mgr_priv = 0, mgr_id = 0, mgr_parent = 0, mgr_of_node = 0\<rparr>
       \<lparr>flags = 1, enable_timeout_us = 0, disable_timeout_us = 0, config_complete_timeout_us = 10\<rparr> ''a.rbf''
       \<lparr>dev = 0, trace = []\<rparr> = Some (r, st, w') \<and> trace w' = t \<and> prefix (writes_to 0 t) [0x030201]"
  using legacy_firmware_load [of "\<lambda>_. Inr [1, 2, 3]" "\<lambda>_. 0" demo_core
      "\<lparr>mgr_name = ''pr'', ref_mutex = True, mgr_state = FPGA_MGR_STATE_UNKNOWN, mops = alt_pr_ops_a10 demo_core,
        mgr_priv = 0, mgr_id = 0, mgr_parent = 0, mgr_of_node = 0\<rparr>"
      "\<lparr>flags = 1, enable_timeout_us = 0, disable_timeout_us = 0, config_complete_timeout_us = 10\<rparr>" "''a.rbf''"
      "\<lparr>dev = 0, trace = []\<rparr>", THEN conjunct1]
  by (fastforce simp: le32_def)

end
