(* ===== verification/Fdt.thy ===== *)
theory Fdt
  imports Pr_Ip_Core
begin

text \<open>
  The flattened device tree library that is linked into the older PCIe driver: \<open>libfdt/fdt.c\<close> and
  the part of \<open>libfdt/fdt_ro.c\<close> that the driver calls.

  A blob is the memory behind the pointer \<open>fdt\<close>: a function from the distance to that pointer to
  the byte there. A pointer into the blob is such a distance, and \<open>NULL\<close> is \<open>None\<close>. An \<open>int\<close> of the
  sources is an HOL integer; every operation that may leave the range of 32 bits goes through
  \<open>c_int\<close>, the conversion of a wider value to \<open>int\<close>. A loop that may run forever is a partial
  function, \<open>None\<close> when it does.
\<close>

section \<open>Integers, strings and the header\<close>

type_synonym blob = "int \<Rightarrow> u8"

definition c_int :: "int \<Rightarrow> int" where
  "c_int k = signed_take_bit 31 k"

definition be32 :: "blob \<Rightarrow> int \<Rightarrow> u32" where
  "be32 fdt p = le32 (fdt (p + 3)) (fdt (p + 2)) (fdt (p + 1)) (fdt p)"

partial_function (option) strlen :: "blob \<Rightarrow> int \<Rightarrow> nat option" where
  [code]: "strlen fdt p =
    (if fdt p = 0 then Some 0 else do { n \<leftarrow> strlen fdt (p + 1); Some (Suc n) })"

definition memcmp_eq :: "blob \<Rightarrow> int \<Rightarrow> u8 list \<Rightarrow> bool" where
  "memcmp_eq fdt p s \<longleftrightarrow> list_all (\<lambda>i. fdt (p + int i) = s ! i) [0..<length s]"

definition FDT_MAGIC :: u32 where [const_defs]: "FDT_MAGIC = 0xd00dfeed"
definition FDT_SW_MAGIC :: u32 where [const_defs]: "FDT_SW_MAGIC = NOT FDT_MAGIC"
definition FDT_TAGSIZE :: int where [const_defs]: "FDT_TAGSIZE = 4"
definition FDT_BEGIN_NODE :: u32 where [const_defs]: "FDT_BEGIN_NODE = 0x1"
definition FDT_END_NODE :: u32 where [const_defs]: "FDT_END_NODE = 0x2"
definition FDT_PROP :: u32 where [const_defs]: "FDT_PROP = 0x3"
definition FDT_NOP :: u32 where [const_defs]: "FDT_NOP = 0x4"
definition FDT_END :: u32 where [const_defs]: "FDT_END = 0x9"
definition FDT_FIRST_SUPPORTED_VERSION :: u32 where
  [const_defs]: "FDT_FIRST_SUPPORTED_VERSION = 0x10"
definition FDT_LAST_SUPPORTED_VERSION :: u32 where
  [const_defs]: "FDT_LAST_SUPPORTED_VERSION = 0x11"

definition FDT_ERR_NOTFOUND :: int where [const_defs]: "FDT_ERR_NOTFOUND = 1"
definition FDT_ERR_NOSPACE :: int where [const_defs]: "FDT_ERR_NOSPACE = 3"
definition FDT_ERR_BADOFFSET :: int where [const_defs]: "FDT_ERR_BADOFFSET = 4"
definition FDT_ERR_BADSTATE :: int where [const_defs]: "FDT_ERR_BADSTATE = 7"
definition FDT_ERR_TRUNCATED :: int where [const_defs]: "FDT_ERR_TRUNCATED = 8"
definition FDT_ERR_BADMAGIC :: int where [const_defs]: "FDT_ERR_BADMAGIC = 9"
definition FDT_ERR_BADVERSION :: int where [const_defs]: "FDT_ERR_BADVERSION = 10"
definition FDT_ERR_BADSTRUCTURE :: int where [const_defs]: "FDT_ERR_BADSTRUCTURE = 11"
definition FDT_ERR_INTERNAL :: int where [const_defs]: "FDT_ERR_INTERNAL = 13"

definition fdt_magic :: "blob \<Rightarrow> u32" where "fdt_magic fdt = be32 fdt 0"
definition fdt_totalsize :: "blob \<Rightarrow> u32" where "fdt_totalsize fdt = be32 fdt 4"
definition fdt_off_dt_struct :: "blob \<Rightarrow> u32" where "fdt_off_dt_struct fdt = be32 fdt 8"
definition fdt_off_dt_strings :: "blob \<Rightarrow> u32" where "fdt_off_dt_strings fdt = be32 fdt 12"
definition fdt_version :: "blob \<Rightarrow> u32" where "fdt_version fdt = be32 fdt 20"
definition fdt_last_comp_version :: "blob \<Rightarrow> u32" where "fdt_last_comp_version fdt = be32 fdt 24"
definition fdt_size_dt_struct :: "blob \<Rightarrow> u32" where "fdt_size_dt_struct fdt = be32 fdt 36"

definition fdt_check_header :: "blob \<Rightarrow> int" where
  "fdt_check_header fdt =
     (if fdt_magic fdt = FDT_MAGIC then
        (if fdt_version fdt < FDT_FIRST_SUPPORTED_VERSION then - FDT_ERR_BADVERSION
         else if fdt_last_comp_version fdt > FDT_LAST_SUPPORTED_VERSION then - FDT_ERR_BADVERSION
         else 0)
      else if fdt_magic fdt = FDT_SW_MAGIC then
        (if fdt_size_dt_struct fdt = 0 then - FDT_ERR_BADSTATE else 0)
      else - FDT_ERR_BADMAGIC)"

section \<open>The structure block\<close>

definition raw_fdt_offset_ptr :: "blob \<Rightarrow> int \<Rightarrow> int" where
  "raw_fdt_offset_ptr fdt offset = uint (fdt_off_dt_struct fdt) + offset"

text \<open>
  \<open>offset + len\<close> is computed and compared in \<open>unsigned int\<close>. The last test of the function asks
  whether the pointer wraps; a distance does not.
\<close>

definition fdt_offset_ptr :: "blob \<Rightarrow> int \<Rightarrow> u32 \<Rightarrow> int option" where
  "fdt_offset_ptr fdt offset len =
     (if fdt_version fdt \<ge> 0x11 \<and>
         (word_of_int offset + len < (word_of_int offset :: u32) \<or>
          word_of_int offset + len > fdt_size_dt_struct fdt)
      then None
      else let p = raw_fdt_offset_ptr fdt offset in
        if p + uint len < p then None else Some p)"

definition FDT_TAGALIGN :: "int \<Rightarrow> int" where
  "FDT_TAGALIGN x = c_int ((x + FDT_TAGSIZE - 1) AND NOT (FDT_TAGSIZE - 1))"

text \<open>The loop over the name of a node: the last pointer, and the offset behind it.\<close>

partial_function (option) skip_name :: "blob \<Rightarrow> int \<Rightarrow> (int option \<times> int) option" where
  [code]: "skip_name fdt offset =
    (case fdt_offset_ptr fdt offset 1 of
       None \<Rightarrow> Some (None, c_int (offset + 1))
     | Some p \<Rightarrow> if fdt p \<noteq> 0 then skip_name fdt (c_int (offset + 1))
         else Some (Some p, c_int (offset + 1)))"

text \<open>The body of a tag: the offset behind it, \<open>Some None\<close> when the block ends before.\<close>

definition tag_body :: "blob \<Rightarrow> u32 \<Rightarrow> int \<Rightarrow> int option option" where
  "tag_body fdt tag offset =
     (if tag = FDT_BEGIN_NODE then do {
        (p, offset) \<leftarrow> skip_name fdt offset;
        Some (if p = None then None else Some offset)
      }
      else if tag = FDT_PROP then
        Some (case fdt_offset_ptr fdt offset 4 of
                None \<Rightarrow> None
              | Some lenp \<Rightarrow> Some (c_int (offset + (12 - FDT_TAGSIZE + uint (be32 fdt lenp)))))
      else if tag = FDT_END \<or> tag = FDT_END_NODE \<or> tag = FDT_NOP then Some (Some offset)
      else Some None)"

definition fdt_next_tag :: "blob \<Rightarrow> int \<Rightarrow> (u32 \<times> int) option" where
  "fdt_next_tag fdt startoffset =
     (case fdt_offset_ptr fdt startoffset (word_of_int FDT_TAGSIZE) of
        None \<Rightarrow> Some (FDT_END, - FDT_ERR_TRUNCATED)
      | Some tagp \<Rightarrow> do {
          let tag = be32 fdt tagp;
          r \<leftarrow> tag_body fdt tag (c_int (startoffset + FDT_TAGSIZE));
          Some (case r of
              None \<Rightarrow> (FDT_END, - FDT_ERR_BADSTRUCTURE)
            | Some offset \<Rightarrow>
                if fdt_offset_ptr fdt startoffset (word_of_int (offset - startoffset)) = None
                then (FDT_END, - FDT_ERR_BADSTRUCTURE)
                else (tag, FDT_TAGALIGN offset))
        })"

definition fdt_check_node_offset :: "blob \<Rightarrow> int \<Rightarrow> int option" where
  "fdt_check_node_offset fdt offset =
     (if offset < 0 \<or> offset mod FDT_TAGSIZE \<noteq> 0 then Some (- FDT_ERR_BADOFFSET)
      else do {
        (tag, offset) \<leftarrow> fdt_next_tag fdt offset;
        Some (if tag \<noteq> FDT_BEGIN_NODE then - FDT_ERR_BADOFFSET else offset)
      })"

definition fdt_check_prop_offset :: "blob \<Rightarrow> int \<Rightarrow> int option" where
  "fdt_check_prop_offset fdt offset =
     (if offset < 0 \<or> offset mod FDT_TAGSIZE \<noteq> 0 then Some (- FDT_ERR_BADOFFSET)
      else do {
        (tag, offset) \<leftarrow> fdt_next_tag fdt offset;
        Some (if tag \<noteq> FDT_PROP then - FDT_ERR_BADOFFSET else offset)
      })"

text \<open>The loop of \<open>fdt_next_node\<close>; the pointer \<open>depth\<close> is \<open>None\<close> or the value it points to.\<close>

partial_function (option) next_node_loop ::
    "blob \<Rightarrow> int \<Rightarrow> int option \<Rightarrow> (int \<times> int option) option" where
  [code]: "next_node_loop fdt offset depth = do {
     (tag, nextoffset) \<leftarrow> fdt_next_tag fdt offset;
     if tag = FDT_PROP \<or> tag = FDT_NOP then next_node_loop fdt nextoffset depth
     else if tag = FDT_BEGIN_NODE then Some (offset, map_option (\<lambda>d. c_int (d + 1)) depth)
     else if tag = FDT_END_NODE then
       (let depth = map_option (\<lambda>d. c_int (d - 1)) depth in
        if depth \<noteq> None \<and> the depth < 0 then Some (nextoffset, depth)
        else next_node_loop fdt nextoffset depth)
     else if nextoffset \<ge> 0 \<or> nextoffset = - FDT_ERR_TRUNCATED \<and> depth = None
     then Some (- FDT_ERR_NOTFOUND, depth)
     else Some (nextoffset, depth)
   }"

definition fdt_next_node :: "blob \<Rightarrow> int \<Rightarrow> int option \<Rightarrow> (int \<times> int option) option" where
  "fdt_next_node fdt offset depth = do {
     nextoffset \<leftarrow> (if offset \<ge> 0 then fdt_check_node_offset fdt offset else Some 0);
     if nextoffset < 0 then Some (nextoffset, depth) else next_node_loop fdt nextoffset depth
   }"

section \<open>String table and relocation\<close>

text \<open>
  \<open>_fdt_find_string\<close> looks for a string with its terminator; the result is the distance to the
  start of the table.
\<close>

fun find_string_loop :: "u8 list \<Rightarrow> nat \<Rightarrow> nat \<Rightarrow> u8 list \<Rightarrow> nat option" where
  "find_string_loop strtab p 0 s = None"
| "find_string_loop strtab p (Suc n) s =
     (if take (length s + 1) (drop p strtab) = s @ [0] then Some p
      else find_string_loop strtab (Suc p) n s)"

definition fdt_find_string :: "u8 list \<Rightarrow> u8 list \<Rightarrow> nat option" where
  "fdt_find_string strtab s =
     (let len = length s + 1 in
      find_string_loop strtab 0 (if len \<le> length strtab then length strtab - len + 1 else 0) s)"

text \<open>\<open>fdt_move\<close>: the return code and the memory behind \<open>buf\<close>; the size is compared unsigned.\<close>

definition fdt_move :: "blob \<Rightarrow> blob \<Rightarrow> int \<Rightarrow> int \<times> blob" where
  "fdt_move fdt buf bufsize =
     (if fdt_check_header fdt \<noteq> 0 then (fdt_check_header fdt, buf)
      else if fdt_totalsize fdt > word_of_int bufsize then (- FDT_ERR_NOSPACE, buf)
      else (0, \<lambda>p. if 0 \<le> p \<and> p < uint (fdt_totalsize fdt) then fdt p else buf p))"

section \<open>Names and properties\<close>

definition fdt_string :: "blob \<Rightarrow> int \<Rightarrow> int" where
  "fdt_string fdt stroffset = uint (fdt_off_dt_strings fdt) + stroffset"

definition fdt_string_eq :: "blob \<Rightarrow> int \<Rightarrow> u8 list \<Rightarrow> bool option" where
  "fdt_string_eq fdt stroffset s = do {
     let p = fdt_string fdt stroffset;
     n \<leftarrow> strlen fdt p;
     Some (n = length s \<and> memcmp_eq fdt p s)
   }"

partial_function (option) nextprop :: "blob \<Rightarrow> int \<Rightarrow> int option" where
  [code]: "nextprop fdt offset = do {
     (tag, nextoffset) \<leftarrow> fdt_next_tag fdt offset;
     if tag = FDT_END then Some (if nextoffset \<ge> 0 then - FDT_ERR_BADSTRUCTURE else nextoffset)
     else if tag = FDT_PROP then Some offset
     else if tag = FDT_NOP then nextprop fdt nextoffset
     else Some (- FDT_ERR_NOTFOUND)
   }"

text \<open>
  A function with an out parameter \<open>int *len\<close> returns the value it stores there with its result.
\<close>

definition fdt_get_name :: "blob \<Rightarrow> int \<Rightarrow> (int option \<times> int) option" where
  "fdt_get_name fdt nodeoffset =
     (let nh = raw_fdt_offset_ptr fdt nodeoffset in
      if fdt_check_header fdt \<noteq> 0 then Some (None, fdt_check_header fdt)
      else do {
        err \<leftarrow> fdt_check_node_offset fdt nodeoffset;
        if err < 0 then Some (None, err)
        else do { len \<leftarrow> strlen fdt (nh + 4); Some (Some (nh + 4), int len) }
      })"

definition fdt_first_property_offset :: "blob \<Rightarrow> int \<Rightarrow> int option" where
  "fdt_first_property_offset fdt nodeoffset = do {
     offset \<leftarrow> fdt_check_node_offset fdt nodeoffset;
     if offset < 0 then Some offset else nextprop fdt offset
   }"

definition fdt_next_property_offset :: "blob \<Rightarrow> int \<Rightarrow> int option" where
  "fdt_next_property_offset fdt offset = do {
     offset \<leftarrow> fdt_check_prop_offset fdt offset;
     if offset < 0 then Some offset else nextprop fdt offset
   }"

definition fdt_get_property_by_offset :: "blob \<Rightarrow> int \<Rightarrow> (int option \<times> int) option" where
  "fdt_get_property_by_offset fdt offset = do {
     err \<leftarrow> fdt_check_prop_offset fdt offset;
     if err < 0 then Some (None, err)
     else
       let prop = raw_fdt_offset_ptr fdt offset in
       Some (Some prop, c_int (uint (be32 fdt (prop + 4))))
   }"

text \<open>The loop over the properties of a node: \<open>prop->nameoff\<close> is the third word of a property.\<close>

partial_function (option) property_loop ::
    "blob \<Rightarrow> int \<Rightarrow> u8 list \<Rightarrow> (int option \<times> int) option" where
  [code]: "property_loop fdt offset name =
    (if offset < 0 then Some (None, offset)
     else do {
       (prop, len) \<leftarrow> fdt_get_property_by_offset fdt offset;
       case prop of
         None \<Rightarrow> Some (None, - FDT_ERR_INTERNAL)
       | Some p \<Rightarrow> do {
           eq \<leftarrow> fdt_string_eq fdt (c_int (uint (be32 fdt (p + 8)))) name;
           if eq then Some (Some p, len)
           else do {
             offset \<leftarrow> fdt_next_property_offset fdt offset;
             property_loop fdt offset name
           }
         }
     })"

definition fdt_get_property_namelen :: "blob \<Rightarrow> int \<Rightarrow> u8 list \<Rightarrow> (int option \<times> int) option" where
  "fdt_get_property_namelen fdt offset name = do {
     offset \<leftarrow> fdt_first_property_offset fdt offset;
     property_loop fdt offset name
   }"

definition fdt_getprop_namelen :: "blob \<Rightarrow> int \<Rightarrow> u8 list \<Rightarrow> (int option \<times> int) option" where
  "fdt_getprop_namelen fdt nodeoffset name = do {
     (prop, len) \<leftarrow> fdt_get_property_namelen fdt nodeoffset name;
     Some (map_option (\<lambda>p. p + 12) prop, len)
   }"

definition fdt_getprop :: "blob \<Rightarrow> int \<Rightarrow> u8 list \<Rightarrow> (int option \<times> int) option" where
  "fdt_getprop fdt nodeoffset name = fdt_getprop_namelen fdt nodeoffset name"

section \<open>Offsets inside and outside the block\<close>

lemma c_int_id: "- (2 ^ 31) \<le> k \<Longrightarrow> k < 2 ^ 31 \<Longrightarrow> c_int k = k"
  by (simp add: c_int_def signed_take_bit_int_eq_self)

lemma c_int_range: "- (2 ^ 31) \<le> c_int k" "c_int k < 2 ^ 31"
  using signed_take_bit_int_greater_eq_minus_exp [of 31 k] signed_take_bit_int_less_exp [of 31 k]
  by (simp_all add: c_int_def)

lemma c_int_mod: "c_int k mod 2 ^ 32 = k mod 2 ^ 32"
proof -
  have "take_bit (Suc 31) (signed_take_bit 31 k) = take_bit (Suc 31) k"
    by (simp add: take_bit_signed_take_bit)
  then show ?thesis by (simp add: c_int_def take_bit_eq_mod)
qed

lemma word_c_int [simp]: "(word_of_int (c_int k - j) :: u32) = word_of_int (k - j)"
  using c_int_mod [of k] by (simp add: word_of_int_eq_iff take_bit_eq_mod mod_diff_cong)

lemma align4: "((k :: int) + 3) AND NOT 3 = k + 3 - (k + 3) mod 4"
proof -
  have "(k + 3) AND NOT (mask 2) = push_bit 2 (drop_bit 2 (k + 3))"
    by (auto intro!: bit_eqI simp: bit_simps le_add_diff_inverse not_less simp del: bit_Suc) (metis add_2_eq_Suc le_add_diff_inverse)+
  then show ?thesis
    by (simp add: mask_eq_exp_minus_1 push_bit_eq_mult drop_bit_eq_div minus_mod_eq_mult_div [symmetric] mult.commute)
qed

lemma FDT_TAGALIGN_eq:
  assumes "- (2 ^ 31) \<le> k" "k < 2 ^ 31 - 3"
  shows "FDT_TAGALIGN k = k + 3 - (k + 3) mod 4"
proof -
  have "- (2 ^ 31) \<le> k + 3 - (k + 3) mod 4" "k + 3 - (k + 3) mod 4 < 2 ^ 31"
    using assms by presburger+
  then have "c_int ((k + 3) AND NOT 3) = k + 3 - (k + 3) mod 4"
    by (subst align4) (rule c_int_id)
  then show ?thesis by (simp add: FDT_TAGALIGN_def FDT_TAGSIZE_def add.commute)
qed

lemma fdt_offset_ptr_v17:
  assumes "fdt_version fdt \<ge> 0x11" "0 \<le> offset" "offset < 2 ^ 32"
  shows "fdt_offset_ptr fdt offset len =
    (if offset + uint len \<le> uint (fdt_size_dt_struct fdt) then Some (raw_fdt_offset_ptr fdt offset)
     else None)"
proof -
  let ?o = "word_of_int offset :: u32"
  have o: "uint ?o = offset" using assms by (simp add: uint_word_of_int)
  have len: "0 \<le> uint len" "uint len < 2 ^ 32" using uint_lt2p [of len] by simp_all
  have sz: "uint (fdt_size_dt_struct fdt) < 2 ^ 32" using uint_lt2p [of "fdt_size_dt_struct fdt"] by simp
  have "uint (?o + len) = (offset + uint len) mod 2 ^ 32" by (simp add: uint_word_ariths o)
  also have "\<dots> = (if offset + uint len < 2 ^ 32 then offset + uint len else offset + uint len - 2 ^ 32)"
    using assms len by (simp add: mod_add_if_z)
  finally have "(?o + len < ?o \<or> ?o + len > fdt_size_dt_struct fdt) =
      (\<not> offset + uint len \<le> uint (fdt_size_dt_struct fdt))"
    using len sz assms by (auto simp: word_less_def o split: if_splits)
  then show ?thesis using assms(1) len by (simp add: fdt_offset_ptr_def Let_def)
qed

lemma fdt_offset_ptr_in:
  assumes "0 \<le> offset" "offset + uint len \<le> uint (fdt_size_dt_struct fdt)"
  shows "fdt_offset_ptr fdt offset len = Some (raw_fdt_offset_ptr fdt offset)"
proof (cases "fdt_version fdt \<ge> 0x11")
  case True
  have "uint (fdt_size_dt_struct fdt) < 2 ^ 32"
    using uint_lt2p [of "fdt_size_dt_struct fdt"] by simp
  then have "offset < 2 ^ 32" using assms uint_ge_0 [of len] by linarith
  with True assms show ?thesis by (simp add: fdt_offset_ptr_v17)
qed (simp add: fdt_offset_ptr_def Let_def not_less)

section \<open>One tag\<close>

text \<open>
  The blobs of which the library checks every access: version 17, with a structure block that
  stays clear of the end of the \<open>int\<close> range.
\<close>

definition checked_blob :: "blob \<Rightarrow> bool" where
  "checked_blob fdt \<longleftrightarrow> fdt_version fdt \<ge> 0x11 \<and> uint (fdt_size_dt_struct fdt) < 2 ^ 31 - 4"

lemma skip_name_bound:
  assumes "checked_blob fdt" "0 \<le> offset" "offset < 2 ^ 31 - 1"
  shows "\<exists>r offset'. skip_name fdt offset = Some (r, offset') \<and>
    (r \<noteq> None \<longrightarrow> offset < offset' \<and> offset' \<le> uint (fdt_size_dt_struct fdt))"
  using assms(2,3)
proof (induction "nat (uint (fdt_size_dt_struct fdt) - offset)" arbitrary: offset rule: less_induct)
  case less
  have next_id: "c_int (offset + 1) = offset + 1" using less.prems by (simp add: c_int_id)
  have ptr: "fdt_offset_ptr fdt offset 1 =
      (if offset + 1 \<le> uint (fdt_size_dt_struct fdt) then Some (raw_fdt_offset_ptr fdt offset) else None)"
    using assms(1) less.prems by (subst fdt_offset_ptr_v17) (auto simp: checked_blob_def)
  show ?case
  proof (cases "offset + 1 \<le> uint (fdt_size_dt_struct fdt) \<and> fdt (raw_fdt_offset_ptr fdt offset) \<noteq> 0")
    case True
    then have "\<exists>r offset'. skip_name fdt (offset + 1) = Some (r, offset') \<and>
        (r \<noteq> None \<longrightarrow> offset + 1 < offset' \<and> offset' \<le> uint (fdt_size_dt_struct fdt))"
      using less.prems assms(1) by (intro less.hyps) (auto simp: checked_blob_def)
    with True show ?thesis by (subst skip_name.simps) (auto simp: ptr next_id)
  next
    case False
    then show ?thesis by (subst skip_name.simps) (auto simp: ptr next_id)
  qed
qed

text \<open>
  The end of a property: the addition of the length is cut to 32 bits, so a length close to
  \<open>2 ^ 32\<close> leads back. The final check of the source catches every such case but twelve.
\<close>

lemma prop_wrap:
  fixes start len size :: int
  assumes "0 \<le> start" "start + 8 \<le> size" "size < 2 ^ 31 - 4" "0 \<le> len" "len < 2 ^ 32"
    and "start + (c_int (start + 12 + len) - start) mod 2 ^ 32 \<le> size"
  shows "start \<le> c_int (start + 12 + len)" "c_int (start + 12 + len) \<le> size"
    and "c_int (start + 12 + len) = start \<longleftrightarrow> len = 2 ^ 32 - 12"
proof -
  let ?k = "c_int (start + 12 + len)"
  have m: "(?k - start) mod 2 ^ 32 = (12 + len) mod 2 ^ 32"
    using mod_diff_cong [OF c_int_mod [of "start + 12 + len"] refl [of "start mod 2 ^ 32"]]
    by (simp add: add.assoc)
  also have "\<dots> = (if 12 + len < 2 ^ 32 then 12 + len else 12 + len - 2 ^ 32)"
    using assms by (simp add: mod_add_if_z)
  finally have d: "(?k - start) mod 2 ^ 32 = (if 12 + len < 2 ^ 32 then 12 + len else 12 + len - 2 ^ 32)" .
  have k: "?k = start + (if 12 + len < 2 ^ 32 then 12 + len else 12 + len - 2 ^ 32)"
  proof -
    let ?e = "start + (if 12 + len < 2 ^ 32 then 12 + len else 12 + len - 2 ^ 32)"
    have "?e mod 2 ^ 32 = (start + 12 + len) mod 2 ^ 32"
      using minus_mod_self2 [of "start + 12 + len" "2 ^ 32"] by (simp add: add.assoc diff_add_eq add_diff_eq)
    then have "c_int ?e = ?k" by (simp add: c_int_def signed_take_bit_eq_iff_take_bit_eq take_bit_eq_mod)
    moreover have "c_int ?e = ?e" using assms d by (intro c_int_id) (auto split: if_splits)
    ultimately show ?thesis by simp
  qed
  then show "start \<le> ?k" "?k \<le> size" "?k = start \<longleftrightarrow> len = 2 ^ 32 - 12"
    using assms d by (auto split: if_splits)
qed

lemma tag_body_bound:
  assumes "checked_blob fdt" "0 \<le> start" "start + 4 \<le> uint (fdt_size_dt_struct fdt)"
  obtains "tag_body fdt tag (start + 4) = Some None"
  | k where "tag_body fdt tag (start + 4) = Some (Some k)" "tag \<noteq> FDT_PROP" "start < k"
      "k \<le> uint (fdt_size_dt_struct fdt)"
      "tag \<in> {FDT_BEGIN_NODE, FDT_END_NODE, FDT_NOP, FDT_END}"
  | "tag_body fdt tag (start + 4) =
       Some (Some (c_int (start + 12 + uint (be32 fdt (raw_fdt_offset_ptr fdt start + 4)))))"
      "tag = FDT_PROP" "start + 8 \<le> uint (fdt_size_dt_struct fdt)"
proof -
  have range: "0 \<le> start + 4" "start + 4 < 2 ^ 31 - 1" using assms by (auto simp: checked_blob_def)
  from skip_name_bound [OF assms(1) range] obtain r k where skip: "skip_name fdt (start + 4) = Some (r, k)"
    "r \<noteq> None \<longrightarrow> start + 4 < k \<and> k \<le> uint (fdt_size_dt_struct fdt)" by blast
  have ptr: "fdt_offset_ptr fdt (start + 4) 4 =
      (if start + 8 \<le> uint (fdt_size_dt_struct fdt) then Some (raw_fdt_offset_ptr fdt (start + 4)) else None)"
    using assms range by (subst fdt_offset_ptr_v17) (auto simp: checked_blob_def)
  consider "tag = FDT_BEGIN_NODE" | "tag = FDT_PROP" | "tag = FDT_END \<or> tag = FDT_END_NODE \<or> tag = FDT_NOP"
    | "tag \<notin> {FDT_BEGIN_NODE, FDT_PROP, FDT_END, FDT_END_NODE, FDT_NOP}" by blast
  then show thesis
  proof cases
    case 1
    with skip show ?thesis
      by (cases r) (auto intro: that(1) that(2) [of k] simp: tag_body_def const_defs)
  next
    case 2
    have "raw_fdt_offset_ptr fdt (start + 4) = raw_fdt_offset_ptr fdt start + 4"
      "start + 4 + (8 + n) = start + 12 + n" for n by (simp_all add: raw_fdt_offset_ptr_def)
    with 2 ptr show ?thesis
      by (cases "start + 8 \<le> uint (fdt_size_dt_struct fdt)")
        (intro that(3), auto intro: that(1) simp: tag_body_def const_defs add.assoc add.left_commute)
  next
    case 3
    with assms show ?thesis by (intro that(2) [of "start + 4"]) (auto simp: tag_body_def const_defs)
  next
    case 4
    then show ?thesis by (intro that(1)) (auto simp: tag_body_def)
  qed
qed

lemma tag_split:
  assumes "checked_blob fdt" "0 \<le> start" "start < 2 ^ 31"
  shows "fdt_next_tag fdt start =
    (if start + 4 \<le> uint (fdt_size_dt_struct fdt)
     then do {
       r \<leftarrow> tag_body fdt (be32 fdt (raw_fdt_offset_ptr fdt start)) (start + 4);
       Some (case r of
           None \<Rightarrow> (FDT_END, - FDT_ERR_BADSTRUCTURE)
         | Some k \<Rightarrow>
             if start + (k - start) mod 2 ^ 32 \<le> uint (fdt_size_dt_struct fdt)
             then (be32 fdt (raw_fdt_offset_ptr fdt start), FDT_TAGALIGN k)
             else (FDT_END, - FDT_ERR_BADSTRUCTURE))
     }
     else Some (FDT_END, - FDT_ERR_TRUNCATED))"
proof -
  have ptr: "fdt_offset_ptr fdt start len =
      (if start + uint len \<le> uint (fdt_size_dt_struct fdt) then Some (raw_fdt_offset_ptr fdt start) else None)" for len
    using assms by (subst fdt_offset_ptr_v17) (auto simp: checked_blob_def)
  have diff: "uint (word_of_int k - word_of_int start :: u32) = (k - start) mod 2 ^ 32" for k
    by (simp add: uint_word_ariths uint_word_of_int take_bit_eq_mod mod_diff_eq)
  have "c_int (start + 4) = start + 4" if "start + 4 \<le> uint (fdt_size_dt_struct fdt)"
    using assms that by (intro c_int_id) (auto simp: checked_blob_def)
  then show ?thesis
    by (auto simp: fdt_next_tag_def ptr FDT_TAGSIZE_def diff Let_def
        intro!: arg_cong [where f = "Option.bind m" for m] ext split: option.splits)
qed

text \<open>
  \<open>fdt_next_tag\<close> always returns on such a blob. It reports an error, or a tag whose end lies in the
  block at an aligned offset larger than where it started, with exactly one exception: a property
  whose length field is \<open>0xfffffff4\<close>, for which the offset does not move.
\<close>

lemma next_tag_progress:
  assumes "checked_blob fdt" "0 \<le> start" "start mod 4 = 0" "start < 2 ^ 31"
  shows "\<exists>tag next. fdt_next_tag fdt start = Some (tag, next) \<and>
    (tag = FDT_END \<and> next < 0 \<or>
     tag \<in> {FDT_BEGIN_NODE, FDT_END_NODE, FDT_PROP, FDT_NOP, FDT_END} \<and>
     start \<le> next \<and> next mod 4 = 0 \<and> next \<le> uint (fdt_size_dt_struct fdt) + 3 \<and>
     (next = start \<longleftrightarrow>
        tag = FDT_PROP \<and> be32 fdt (raw_fdt_offset_ptr fdt start + 4) = 0xfffffff4))"
proof (cases "start + 4 \<le> uint (fdt_size_dt_struct fdt)")
  case False
  then show ?thesis using tag_split [OF assms(1,2,4)] by (auto simp: const_defs)
next
  case True
  let ?size = "uint (fdt_size_dt_struct fdt)" and ?tag = "be32 fdt (raw_fdt_offset_ptr fdt start)"
    and ?len = "be32 fdt (raw_fdt_offset_ptr fdt start + 4)"
  have size: "?size < 2 ^ 31 - 4" using assms(1) by (simp add: checked_blob_def)
  note split = tag_split [OF assms(1,2,4)]
  have align: "FDT_TAGALIGN k = k + 3 - (k + 3) mod 4" if "start \<le> k" "k \<le> ?size" for k
    using that assms(2) size by (intro FDT_TAGALIGN_eq) auto
  from assms(1,2) True show ?thesis
  proof (cases rule: tag_body_bound [where tag = ?tag])
    case 1
    then show ?thesis using True by (simp add: split const_defs)
  next
    case (2 k)
    have "(k - start) mod 2 ^ 32 = k - start" using 2 size assms(2) by (intro mod_pos_pos_trivial) auto
    moreover have "k + 3 - (k + 3) mod 4 > start" "(k + 3 - (k + 3) mod 4) mod 4 = 0"
      using 2(3) assms(3) by presburger+
    ultimately show ?thesis using 2 True align [of k] by (auto simp: split)
  next
    case 3
    let ?k = "c_int (start + 12 + uint ?len)"
    have len: "0 \<le> uint ?len" "uint ?len < 2 ^ 32" using uint_lt2p [of ?len] by simp_all
    have "?len = 0xfffffff4 \<longleftrightarrow> uint ?len = 2 ^ 32 - 12" by (simp add: word_uint_eq_iff)
    note wrap = prop_wrap [OF assms(2) 3(3) size len, folded this]
    show ?thesis
    proof (cases "start + (?k - start) mod 2 ^ 32 \<le> ?size")
      case True2: True
      have "?k + 3 - (?k + 3) mod 4 = start \<longleftrightarrow> ?k = start" "?k + 3 - (?k + 3) mod 4 \<ge> start"
        "(?k + 3 - (?k + 3) mod 4) mod 4 = 0"
        using wrap(1) [OF True2] assms(3) by presburger+
      then show ?thesis using wrap [OF True2] 3 True True2 align [of ?k] by (auto simp: split)
    next
      case False
      then show ?thesis using 3 True by (simp add: split const_defs)
    qed
  qed
qed

section \<open>The loop over the tags\<close>

definition no_wrap_prop :: "blob \<Rightarrow> bool" where
  "no_wrap_prop fdt \<longleftrightarrow>
     (\<forall>k. 0 \<le> k \<and> k mod 4 = 0 \<and> k \<le> uint (fdt_size_dt_struct fdt) \<and>
          be32 fdt (raw_fdt_offset_ptr fdt k) = FDT_PROP \<longrightarrow>
          be32 fdt (raw_fdt_offset_ptr fdt k + 4) \<noteq> 0xfffffff4)"

lemma next_tag_is_tag:
  "fdt_next_tag fdt k = Some (tag, n) \<Longrightarrow> tag \<noteq> FDT_END \<Longrightarrow> tag = be32 fdt (raw_fdt_offset_ptr fdt k)"
  by (auto simp: fdt_next_tag_def fdt_offset_ptr_def Let_def bind_eq_Some_conv split: option.splits if_splits)

lemma next_node_loop_returns:
  assumes "checked_blob fdt" "no_wrap_prop fdt"
    and "0 \<le> off" "off mod 4 = 0" "off \<le> uint (fdt_size_dt_struct fdt) + 3"
  shows "\<exists>r. next_node_loop fdt off depth = Some r"
  using assms(3-)
proof (induction "nat (uint (fdt_size_dt_struct fdt) + 4 - off)" arbitrary: off depth rule: less_induct)
  case less
  have size: "uint (fdt_size_dt_struct fdt) < 2 ^ 31 - 4" using assms(1) by (simp add: checked_blob_def)
  then have "off < 2 ^ 31" using less.prems by simp
  from next_tag_progress [OF assms(1) less.prems(1,2) this]
  obtain tag n where tag: "fdt_next_tag fdt off = Some (tag, n)"
    and n: "tag = FDT_END \<and> n < 0 \<or> tag \<in> {FDT_BEGIN_NODE, FDT_END_NODE, FDT_PROP, FDT_NOP, FDT_END} \<and>
      off \<le> n \<and> n mod 4 = 0 \<and> n \<le> uint (fdt_size_dt_struct fdt) + 3 \<and>
      (n = off \<longleftrightarrow> tag = FDT_PROP \<and> be32 fdt (raw_fdt_offset_ptr fdt off + 4) = 0xfffffff4)"
    by (elim exE conjE)
  have "\<exists>r. next_node_loop fdt n d = Some r" if "tag \<noteq> FDT_END" for d
  proof (rule less.hyps)
    have "be32 fdt (raw_fdt_offset_ptr fdt off) = tag" using next_tag_is_tag [OF tag that] by simp
    moreover have "off \<le> uint (fdt_size_dt_struct fdt)"
      using tag_split [OF assms(1) less.prems(1)] tag that less.prems(3) size by (auto split: if_splits)
    ultimately have "n \<noteq> off" using assms(2) less.prems n that by (auto simp: no_wrap_prop_def)
    then show "nat (uint (fdt_size_dt_struct fdt) + 4 - n) < nat (uint (fdt_size_dt_struct fdt) + 4 - off)"
      using n that less.prems by auto
  qed (use n that less.prems in auto)
  then show ?case using tag n
    by (subst next_node_loop.simps) (auto simp: Let_def const_defs)
qed

lemma next_node_loop_stuck:
  assumes "fdt_next_tag fdt off = Some (FDT_PROP, off)"
  shows "next_node_loop fdt off depth = None"
proof (rule ccontr)
  assume "next_node_loop fdt off depth \<noteq> None"
  then obtain r where "next_node_loop fdt off depth = Some r" by blast
  then have "fdt_next_tag fdt off \<noteq> Some (FDT_PROP, off)"
  proof (induction rule: next_node_loop.raw_induct [rotated, consumes 1, case_names step])
    case (step loop fdt off depth r)
    then show ?case by (cases r) (auto simp: const_defs)
  qed
  with assms show False by simp
qed

end
