(* ===== verification/Fdt_Tree.thy ===== *)
theory Fdt_Tree
  imports Fdt
begin

text \<open>
  What the functions of \<open>libfdt\<close> compute on a well-formed blob. The structure block is the encoding of
  a list of tokens, the tokens are the flattening of a tree; walking the blob with \<open>fdt_next_node\<close>
  visits the nodes of the tree in preorder, and \<open>fdt_getprop\<close> is the look-up of a property.
\<close>

section \<open>Tokens and their encoding\<close>

datatype fdt_token =
    BeginNode "u8 list"
  | EndNode
  | Prop u32 "u8 list"
  | Nop
  | End

definition be_bytes :: "u32 \<Rightarrow> u8 list" where
  "be_bytes v = rev (word_bytes v)"

definition pad4 :: "u8 list \<Rightarrow> u8 list" where
  "pad4 bs = bs @ replicate ((4 - length bs mod 4) mod 4) 0"

fun tag_of :: "fdt_token \<Rightarrow> u32" where
  "tag_of (BeginNode nm) = FDT_BEGIN_NODE"
| "tag_of EndNode = FDT_END_NODE"
| "tag_of (Prop nameoff v) = FDT_PROP"
| "tag_of Nop = FDT_NOP"
| "tag_of End = FDT_END"

fun payload :: "fdt_token \<Rightarrow> u8 list" where
  "payload (BeginNode nm) = nm @ [0]"
| "payload (Prop nameoff v) = be_bytes (of_nat (length v)) @ be_bytes nameoff @ v"
| "payload t = []"

definition enc :: "fdt_token \<Rightarrow> u8 list" where
  "enc t = be_bytes (tag_of t) @ pad4 (payload t)"

abbreviation encs :: "fdt_token list \<Rightarrow> u8 list" where
  "encs ts \<equiv> concat (map enc ts)"

fun wf_token :: "fdt_token \<Rightarrow> bool" where
  "wf_token (BeginNode nm) \<longleftrightarrow> 0 \<notin> set nm"
| "wf_token _ \<longleftrightarrow> True"

lemma le32_word_bytes [simp]:
  "le32 (ucast v) (ucast (drop_bit 8 v)) (ucast (drop_bit 16 v)) (ucast (drop_bit 24 v)) = v"
proof (rule bit_word_eqI)
  fix n assume "n < LENGTH(32)"
  then consider "n < 8" | "8 \<le> n" "n < 16" | "16 \<le> n" "n < 24" | "24 \<le> n" "n < 32" by force
  then show "bit (le32 (ucast v) (ucast (drop_bit 8 v)) (ucast (drop_bit 16 v)) (ucast (drop_bit 24 v))) n
      = bit v n"
    by cases (auto simp: le32_def bit_or_iff bit_push_bit_iff bit_ucast_iff bit_drop_bit_eq)
qed

lemma length_be_bytes [simp]: "length (be_bytes v) = 4"
  by (simp add: be_bytes_def word_bytes_def)

lemma length_pad4: "length (pad4 bs) = (length bs + 3) div 4 * 4"
proof -
  have "n + (4 - n mod 4) mod 4 = (n + 3) div 4 * 4" for n :: nat
  proof -
    define q r where "q = n div 4" and "r = n mod 4"
    then have "n = 4 * q + r" "r = 0 \<or> r = 1 \<or> r = 2 \<or> r = 3" by auto
    then show ?thesis by auto
  qed
  then show ?thesis by (simp add: pad4_def)
qed

lemma length_enc: "length (enc t) = 4 + (length (payload t) + 3) div 4 * 4"
  by (simp add: enc_def length_pad4)

lemma length_enc_mod [simp]: "length (enc t) mod 4 = 0"
  by (simp add: length_enc)

section \<open>A blob that holds bytes\<close>

definition holds :: "blob \<Rightarrow> int \<Rightarrow> u8 list \<Rightarrow> bool" where
  "holds fdt p bs \<longleftrightarrow> (\<forall>i<length bs. fdt (p + int i) = bs ! i)"

lemma holds_Nil [simp]: "holds fdt p []"
  by (simp add: holds_def)

lemma holds_Cons [simp]: "holds fdt p (b # bs) \<longleftrightarrow> fdt p = b \<and> holds fdt (p + 1) bs"
  by (auto simp: holds_def nth_Cons' less_Suc_eq_0_disj algebra_simps)

lemma holds_append: "holds fdt p (as @ bs) \<longleftrightarrow> holds fdt p as \<and> holds fdt (p + int (length as)) bs"
  by (induction as arbitrary: p) (auto simp: algebra_simps)

lemma holds_be32: "holds fdt p (be_bytes v) \<Longrightarrow> be32 fdt p = v"
  by (auto simp: be_bytes_def word_bytes_def be32_def add.assoc)

lemma strlen_holds: "holds fdt p (s @ [0]) \<Longrightarrow> 0 \<notin> set s \<Longrightarrow> strlen fdt p = Some (length s)"
  by (induction s arbitrary: p) (subst strlen.simps, auto)+

lemma memcmp_eq_holds: "memcmp_eq fdt p s \<longleftrightarrow> holds fdt p s"
  by (auto simp: memcmp_eq_def holds_def list_all_iff)

text \<open>Two terminated strings at the same place are the same string.\<close>

lemma holds_string_unique:
  "holds fdt p (s @ [0]) \<Longrightarrow> holds fdt p (t @ [0]) \<Longrightarrow> 0 \<notin> set s \<Longrightarrow> 0 \<notin> set t \<Longrightarrow> s = t"
proof (induction s arbitrary: p t)
  case Nil
  then show ?case by (cases t) auto
next
  case (Cons b s)
  then show ?case by (cases t) auto
qed

section \<open>A blob that holds tokens\<close>

abbreviation struct_size :: "blob \<Rightarrow> int" where
  "struct_size fdt \<equiv> uint (fdt_size_dt_struct fdt)"

text \<open>The bytes that pad a token to a multiple of four are not looked at.\<close>

fun holds_tokens :: "blob \<Rightarrow> int \<Rightarrow> fdt_token list \<Rightarrow> bool" where
  "holds_tokens fdt p [] \<longleftrightarrow> True"
| "holds_tokens fdt p (t # ts) \<longleftrightarrow>
     holds fdt p (be_bytes (tag_of t) @ payload t) \<and> holds_tokens fdt (p + int (length (enc t))) ts"

lemma holds_tokens_append:
  "holds_tokens fdt p (ts @ us) \<longleftrightarrow> holds_tokens fdt p ts \<and> holds_tokens fdt (p + int (length (encs ts))) us"
  by (induction ts arbitrary: p) (auto simp: algebra_simps)

lemma holds_encs: "holds fdt p (encs ts) \<Longrightarrow> holds_tokens fdt p ts"
  by (induction ts arbitrary: p) (auto simp: holds_append enc_def pad4_def add.assoc)

definition tokens_at :: "blob \<Rightarrow> int \<Rightarrow> fdt_token list \<Rightarrow> bool" where
  "tokens_at fdt off ts \<longleftrightarrow>
     0 \<le> off \<and> off mod 4 = 0 \<and> struct_size fdt < 2 ^ 31 - 4 \<and>
     off + int (length (encs ts)) \<le> struct_size fdt \<and> list_all wf_token ts \<and>
     holds_tokens fdt (raw_fdt_offset_ptr fdt off) ts"

lemma tokens_at_small: "tokens_at fdt off (t # ts) \<Longrightarrow> off < 2 ^ 31 - 8"
  by (auto simp: tokens_at_def length_enc)

lemma uint_u32_small: "0 \<le> k \<Longrightarrow> k < 2 ^ 31 \<Longrightarrow> uint (word_of_int k :: u32) = k"
  by (simp add: uint_word_of_int)

lemma align_token:
  fixes off n :: int
  assumes "off mod 4 = 0"
  shows "off + 4 + n + 3 - (off + 4 + n + 3) mod 4 = off + 4 + (n + 3) div 4 * 4"
proof -
  obtain q where "off = 4 * q" using assms by (metis mod_0_imp_dvd dvdE)
  then have "off + 4 + n + 3 = n + 3 + 4 * (q + 1)" by simp
  then have "(off + 4 + n + 3) mod 4 = (n + 3) mod 4" by (simp only: mod_mult_self2)
  then show ?thesis using div_mult_mod_eq [of "n + 3" 4] by linarith
qed

lemma raw_add: "raw_fdt_offset_ptr fdt (off + k) = raw_fdt_offset_ptr fdt off + k"
  by (simp add: raw_fdt_offset_ptr_def)

lemma tokens_at_tl:
  assumes "tokens_at fdt off (t # ts)"
  shows "tokens_at fdt (off + int (length (enc t))) ts"
proof -
  have "off mod 4 = 0" using assms by (simp add: tokens_at_def)
  moreover have "int (length (enc t)) mod 4 = 0" unfolding length_enc by simp
  ultimately have "(off + int (length (enc t))) mod 4 = 0" by presburger
  with assms show ?thesis by (auto simp: tokens_at_def holds_append raw_add)
qed

lemma skip_name_holds:
  assumes "holds fdt (raw_fdt_offset_ptr fdt off) (nm @ [0])" "0 \<notin> set nm" "0 \<le> off"
    and "off + int (length nm) + 1 \<le> struct_size fdt" "struct_size fdt < 2 ^ 31 - 4"
  shows "skip_name fdt off =
    Some (Some (raw_fdt_offset_ptr fdt (off + int (length nm))), off + int (length nm) + 1)"
  using assms
proof (induction nm arbitrary: off)
  case (Cons b nm)
  have "fdt_offset_ptr fdt off 1 = Some (raw_fdt_offset_ptr fdt off)" "c_int (off + 1) = off + 1"
    using Cons.prems by (auto intro!: fdt_offset_ptr_in c_int_id)
  moreover have "skip_name fdt (off + 1) =
      Some (Some (raw_fdt_offset_ptr fdt (off + 1 + int (length nm))), off + 1 + int (length nm) + 1)"
    using Cons.prems by (intro Cons.IH) (auto simp: raw_add)
  ultimately show ?case using Cons.prems by (subst skip_name.simps) (auto simp: algebra_simps)
next
  case Nil
  then have "fdt_offset_ptr fdt off 1 = Some (raw_fdt_offset_ptr fdt off)" "c_int (off + 1) = off + 1"
    by (auto intro!: fdt_offset_ptr_in c_int_id)
  with Nil show ?case by (subst skip_name.simps) auto
qed

lemma tag_body_token:
  assumes "holds fdt (raw_fdt_offset_ptr fdt (off + 4)) (payload t)" "wf_token t" "0 \<le> off"
    and "off + 4 + int (length (payload t)) \<le> struct_size fdt" "struct_size fdt < 2 ^ 31 - 4"
  shows "tag_body fdt (tag_of t) (off + 4) = Some (Some (off + 4 + int (length (payload t))))"
proof (cases t)
  case (BeginNode nm)
  then show ?thesis using assms skip_name_holds [of fdt "off + 4" nm]
    by (simp add: tag_body_def const_defs algebra_simps)
next
  case (Prop nameoff v)
  have len: "uint (of_nat (length v) :: u32) = int (length v)"
    using assms Prop uint_u32_small [of "int (length v)"] by simp
  have "be32 fdt (raw_fdt_offset_ptr fdt (off + 4)) = of_nat (length v)"
    using assms(1) Prop by (auto simp: holds_append intro: holds_be32)
  moreover have "fdt_offset_ptr fdt (off + 4) 4 = Some (raw_fdt_offset_ptr fdt (off + 4))"
    using assms Prop by (auto intro!: fdt_offset_ptr_in)
  ultimately show ?thesis using assms Prop len
    by (simp add: tag_body_def const_defs) (subst c_int_id, auto)
qed (simp_all add: tag_body_def const_defs)

lemma next_tag_token:
  assumes "tokens_at fdt off (t # ts)"
  shows "fdt_next_tag fdt off = Some (tag_of t, off + int (length (enc t)))"
proof -
  let ?k = "off + 4 + int (length (payload t))"
  have pl: "holds fdt (raw_fdt_offset_ptr fdt (off + 4)) (payload t)"
    and tag: "be32 fdt (raw_fdt_offset_ptr fdt off) = tag_of t"
    using assms by (auto simp: tokens_at_def enc_def pad4_def holds_append raw_add intro: holds_be32)
  have off: "0 \<le> off" "off mod 4 = 0" "struct_size fdt < 2 ^ 31 - 4" "wf_token t"
    and size: "off + int (length (enc t)) \<le> struct_size fdt"
    using assms by (auto simp: tokens_at_def)
  have "length (payload t) \<le> (length (payload t) + 3) div 4 * 4" by presburger
  then have k: "?k \<le> struct_size fdt" using size unfolding length_enc by linarith
  have ptr: "fdt_offset_ptr fdt off (word_of_int 4) = Some (raw_fdt_offset_ptr fdt off)"
    "fdt_offset_ptr fdt off (word_of_int (?k - off)) = Some (raw_fdt_offset_ptr fdt off)"
    using off k by (auto intro!: fdt_offset_ptr_in simp only: uint_u32_small)
  have "?k + 3 - (?k + 3) mod 4 = off + int (length (enc t))"
    using align_token [OF off(2), of "int (length (payload t))"] by (simp add: length_enc zdiv_int)
  then have "FDT_TAGALIGN ?k = off + int (length (enc t))"
    using off k by (subst FDT_TAGALIGN_eq) auto
  moreover have "c_int (off + 4) = off + 4" using off k by (intro c_int_id) auto
  ultimately show ?thesis using ptr tag_body_token [OF pl off(4,1) k off(3)] tag
    by (simp add: fdt_next_tag_def FDT_TAGSIZE_def)
qed

section \<open>From node to node\<close>

lemmas tag_neqs = FDT_BEGIN_NODE_def FDT_END_NODE_def FDT_PROP_def FDT_NOP_def FDT_END_def

lemma tokens_at_off: "tokens_at fdt off ts \<Longrightarrow> 0 \<le> off \<and> off mod FDT_TAGSIZE = 0"
  by (simp add: tokens_at_def FDT_TAGSIZE_def)

lemma check_node_token:
  "tokens_at fdt off (BeginNode nm # ts) \<Longrightarrow>
   fdt_check_node_offset fdt off = Some (off + int (length (enc (BeginNode nm))))"
  using tokens_at_off [of fdt off "BeginNode nm # ts"]
  by (simp add: fdt_check_node_offset_def next_tag_token not_less)

lemma check_prop_token:
  "tokens_at fdt off (Prop n v # ts) \<Longrightarrow>
   fdt_check_prop_offset fdt off = Some (off + int (length (enc (Prop n v))))"
  using tokens_at_off [of fdt off "Prop n v # ts"]
  by (simp add: fdt_check_prop_offset_def next_tag_token not_less)

text \<open>The offset of the next node, and of every node, in a list of tokens.\<close>

fun seek :: "int \<Rightarrow> fdt_token list \<Rightarrow> int" where
  "seek off (BeginNode nm # ts) = off"
| "seek off (End # ts) = - FDT_ERR_NOTFOUND"
| "seek off (t # ts) = seek (off + int (length (enc t))) ts"
| "seek off [] = - FDT_ERR_NOTFOUND"

fun props_of :: "(u32 \<Rightarrow> u8 list) \<Rightarrow> fdt_token list \<Rightarrow> (u8 list \<times> u8 list) list" where
  "props_of nm (Prop n v # ts) = (nm n, v) # props_of nm ts"
| "props_of nm (Nop # ts) = props_of nm ts"
| "props_of nm _ = []"

type_synonym visit = "int \<times> u8 list \<times> (u8 list \<times> u8 list) list"

fun visits :: "(u32 \<Rightarrow> u8 list) \<Rightarrow> int \<Rightarrow> fdt_token list \<Rightarrow> visit list" where
  "visits nm off (BeginNode s # ts) =
     (off, s, props_of nm ts) # visits nm (off + int (length (enc (BeginNode s)))) ts"
| "visits nm off (End # ts) = []"
| "visits nm off (t # ts) = visits nm (off + int (length (enc t))) ts"
| "visits nm off [] = []"

lemma next_node_loop_seek:
  "tokens_at fdt off ts \<Longrightarrow> End \<in> set ts \<Longrightarrow> next_node_loop fdt off None = Some (seek off ts, None)"
proof (induction off ts rule: seek.induct [case_names node stop leave valued nop nil])
  case (stop off ts)
  then show ?case
    by (subst next_node_loop.simps)
      (use tokens_at_off [of fdt off] in \<open>auto simp: next_tag_token tag_neqs\<close>)
next
  case (leave off ts)
  then show ?case
    by (subst next_node_loop.simps) (use tokens_at_tl in \<open>auto simp: next_tag_token tag_neqs\<close>)
next
  case (valued off n v ts)
  then show ?case
    by (subst next_node_loop.simps) (use tokens_at_tl in \<open>auto simp: next_tag_token tag_neqs\<close>)
next
  case (nop off ts)
  then show ?case
    by (subst next_node_loop.simps) (use tokens_at_tl in \<open>auto simp: next_tag_token tag_neqs\<close>)
qed (subst next_node_loop.simps, auto simp: next_tag_token tag_neqs)

lemma seek_visits: "End \<in> set ts \<Longrightarrow> seek off ts = (case visits nm off ts of [] \<Rightarrow> - FDT_ERR_NOTFOUND | v # _ \<Rightarrow> fst v)"
  by (induction off ts rule: seek.induct) auto

lemma next_node_token:
  assumes "tokens_at fdt off (BeginNode s # ts)" "End \<in> set ts"
  shows "fdt_next_node fdt off None = Some (seek (off + int (length (enc (BeginNode s)))) ts, None)"
proof -
  note tl = tokens_at_tl [OF assms(1)]
  show ?thesis
    using tokens_at_off [OF assms(1)] tokens_at_off [OF tl] check_node_token [OF assms(1)]
      next_node_loop_seek [OF tl assms(2)]
    by (simp add: fdt_next_node_def not_less)
qed

section \<open>Properties of a node\<close>

definition name_at :: "blob \<Rightarrow> u32 \<Rightarrow> u8 list \<Rightarrow> bool" where
  "name_at fdt n s \<longleftrightarrow> 0 \<notin> set s \<and> holds fdt (fdt_string fdt (c_int (uint n))) (s @ [0])"

fun names_at :: "blob \<Rightarrow> (u32 \<Rightarrow> u8 list) \<Rightarrow> fdt_token list \<Rightarrow> bool" where
  "names_at fdt nm [] \<longleftrightarrow> True"
| "names_at fdt nm (Prop n v # ts) \<longleftrightarrow> name_at fdt n (nm n) \<and> names_at fdt nm ts"
| "names_at fdt nm (_ # ts) \<longleftrightarrow> names_at fdt nm ts"

lemma string_eq_name:
  assumes "name_at fdt n s"
  shows "fdt_string_eq fdt (c_int (uint n)) name = Some (s = name)"
proof -
  let ?p = "fdt_string fdt (c_int (uint n))"
  have "holds fdt ?p name \<longleftrightarrow> s = name" if "length s = length name"
    using assms that by (auto simp: name_at_def holds_append intro: nth_equalityI) (auto simp: holds_def intro: nth_equalityI)
  then show ?thesis using assms
    by (auto simp: fdt_string_eq_def name_at_def strlen_holds memcmp_eq_holds)
qed

fun find_prop :: "(u32 \<Rightarrow> u8 list) \<Rightarrow> u8 list \<Rightarrow> int \<Rightarrow> fdt_token list \<Rightarrow> int option \<times> int" where
  "find_prop nm name off (Prop n v # ts) =
     (if nm n = name then (Some off, int (length v))
      else find_prop nm name (off + int (length (enc (Prop n v)))) ts)"
| "find_prop nm name off (Nop # ts) = find_prop nm name (off + int (length (enc Nop))) ts"
| "find_prop nm name off (End # ts) = (None, - FDT_ERR_BADSTRUCTURE)"
| "find_prop nm name off _ = (None, - FDT_ERR_NOTFOUND)"

lemma property_by_offset_token:
  assumes "tokens_at fdt off (Prop n v # ts)"
  shows "fdt_get_property_by_offset fdt off = Some (Some (raw_fdt_offset_ptr fdt off), int (length v))"
    and "be32 fdt (raw_fdt_offset_ptr fdt off + 8) = n"
    and "holds fdt (raw_fdt_offset_ptr fdt off + 12) v"
proof -
  let ?p = "raw_fdt_offset_ptr fdt off"
  have h: "holds fdt (?p + 4) (be_bytes (of_nat (length v)))" "holds fdt (?p + 8) (be_bytes n)"
    "holds fdt (?p + 12) v"
    using assms by (auto simp: tokens_at_def enc_def pad4_def holds_append add.commute)
  have "int (length v) < 2 ^ 31 - 4"
    using assms by (simp add: tokens_at_def enc_def pad4_def)
  then have "c_int (uint (of_nat (length v) :: u32)) = int (length v)"
    using uint_u32_small [of "int (length v)"] by (simp add: c_int_id)
  with check_prop_token [OF assms] tokens_at_off [OF assms] holds_be32 [OF h(1)]
  show "fdt_get_property_by_offset fdt off = Some (Some ?p, int (length v))"
    by (simp add: fdt_get_property_by_offset_def Let_def not_less)
  show "be32 fdt (?p + 8) = n" "holds fdt (?p + 12) v" using h by (auto intro: holds_be32)
qed

lemma property_search:
  assumes "tokens_at fdt off ts" "End \<in> set ts" "names_at fdt nm ts"
  shows "do { o' \<leftarrow> nextprop fdt off; property_loop fdt o' name } =
    Some (map_prod (map_option (raw_fdt_offset_ptr fdt)) (\<lambda>l. l) (find_prop nm name off ts))"
  using assms
proof (induction nm name off ts rule: find_prop.induct)
  case (1 nm name off n v ts)
  note tl = tokens_at_tl [OF "1.prems"(1)]
  have np: "nextprop fdt off = Some off"
    by (subst nextprop.simps) (use "1.prems"(1) in \<open>simp add: next_tag_token tag_neqs\<close>)
  have pn: "fdt_next_property_offset fdt off = nextprop fdt (off + int (length (enc (Prop n v))))"
    using tokens_at_off [OF tl] by (simp add: fdt_next_property_offset_def check_prop_token [OF "1.prems"(1)] not_less)
  have "property_loop fdt off name =
      (if nm n = name then Some (Some (raw_fdt_offset_ptr fdt off), int (length v))
       else do { o' \<leftarrow> fdt_next_property_offset fdt off; property_loop fdt o' name })"
    using tokens_at_off [OF "1.prems"(1)] property_by_offset_token [OF "1.prems"(1)]
      string_eq_name [of fdt n "nm n" name] "1.prems"(3)
    by (subst property_loop.simps) (simp add: not_less)
  with 1 np pn tl show ?case by simp
next
  case (2 nm name off ts)
  have "nextprop fdt off = nextprop fdt (off + int (length (enc Nop)))"
    by (subst nextprop.simps) (use "2.prems"(1) in \<open>simp add: next_tag_token tag_neqs\<close>)
  with 2 tokens_at_tl [OF "2.prems"(1)] show ?case by simp
qed (subst nextprop.simps, use tokens_at_off in \<open>force simp: next_tag_token tag_neqs property_loop.simps const_defs\<close>)+

text \<open>The properties of a node are followed by a subnode or the end of the node.\<close>

fun stops_at_node :: "fdt_token list \<Rightarrow> bool" where
  "stops_at_node (Prop n v # ts) \<longleftrightarrow> stops_at_node ts"
| "stops_at_node (Nop # ts) \<longleftrightarrow> stops_at_node ts"
| "stops_at_node (t # ts) \<longleftrightarrow> t \<noteq> End"
| "stops_at_node [] \<longleftrightarrow> True"

fun nodes_stop :: "fdt_token list \<Rightarrow> bool" where
  "nodes_stop (BeginNode s # ts) \<longleftrightarrow> stops_at_node ts \<and> nodes_stop ts"
| "nodes_stop (t # ts) \<longleftrightarrow> nodes_stop ts"
| "nodes_stop [] \<longleftrightarrow> True"

lemma find_prop_lookup:
  assumes "tokens_at fdt off ts" "find_prop nm name off ts = (r, l)" "stops_at_node ts"
  shows "case map_of (props_of nm ts) name of
      Some v \<Rightarrow> l = int (length v) \<and> (\<exists>k. r = Some k \<and> holds fdt (raw_fdt_offset_ptr fdt k + 12) v)
    | None \<Rightarrow> r = None \<and> l = - FDT_ERR_NOTFOUND"
  using assms
proof (induction nm name off ts rule: find_prop.induct)
  case (1 nm name off n v ts)
  then show ?case using property_by_offset_token(3) [OF "1.prems"(1)] tokens_at_tl [OF "1.prems"(1)]
    by (auto split: if_splits)
next
  case (2 nm name off ts)
  then show ?case using tokens_at_tl [OF "2.prems"(1)] by simp
qed (auto simp: const_defs)

definition found :: "blob \<Rightarrow> u8 list option \<Rightarrow> int option \<times> int \<Rightarrow> bool" where
  "found fdt mv r \<longleftrightarrow>
     (case mv of
        None \<Rightarrow> fst r = None \<and> snd r = - FDT_ERR_NOTFOUND
      | Some v \<Rightarrow> snd r = int (length v) \<and> (\<exists>p. fst r = Some p \<and> holds fdt p v))"

lemma getprop_token:
  assumes "tokens_at fdt off (BeginNode s # ts)" "End \<in> set ts" "names_at fdt nm ts" "stops_at_node ts"
  shows "\<exists>r. fdt_getprop fdt off name = Some r \<and> found fdt (map_of (props_of nm ts) name) r"
proof -
  let ?off = "off + int (length (enc (BeginNode s)))"
  note tl = tokens_at_tl [OF assms(1)]
  obtain r l where fp: "find_prop nm name ?off ts = (r, l)" by force
  have "fdt_get_property_namelen fdt off name = Some (map_option (raw_fdt_offset_ptr fdt) r, l)"
    using property_search [OF tl assms(2,3), of name] tokens_at_off [OF tl] fp
    by (simp add: fdt_get_property_namelen_def fdt_first_property_offset_def check_node_token [OF assms(1)] not_less)
  then show ?thesis
    using find_prop_lookup [OF tl fp assms(4)]
    by (auto simp: fdt_getprop_def fdt_getprop_namelen_def found_def split: option.splits)
qed

section \<open>Trees\<close>

datatype dt_node = DtNode "u8 list" "(u8 list \<times> u8 list) list" "dt_node list"

fun flatten :: "(u8 list \<Rightarrow> u32) \<Rightarrow> dt_node \<Rightarrow> fdt_token list" where
  "flatten noff (DtNode s ps kids) =
     BeginNode s # map (\<lambda>(k, v). Prop (noff k) v) ps @ concat (map (flatten noff) kids) @ [EndNode]"

fun preorder :: "dt_node \<Rightarrow> (u8 list \<times> (u8 list \<times> u8 list) list) list" where
  "preorder (DtNode s ps kids) = (s, ps) # concat (map preorder kids)"

fun prop_names :: "dt_node \<Rightarrow> u8 list set" where
  "prop_names (DtNode s ps kids) = fst ` set ps \<union> (\<Union>k\<in>set kids. prop_names k)"

text \<open>The name of a property as the blob has it, and the blobs that hold a tree.\<close>

definition blob_name :: "blob \<Rightarrow> u32 \<Rightarrow> u8 list" where
  "blob_name fdt n =
     (let p = fdt_string fdt (c_int (uint n)) in
      case strlen fdt p of None \<Rightarrow> [] | Some l \<Rightarrow> map (\<lambda>i. fdt (p + int i)) [0..<l])"

definition represents :: "blob \<Rightarrow> (u8 list \<Rightarrow> u32) \<Rightarrow> dt_node \<Rightarrow> bool" where
  "represents fdt noff t \<longleftrightarrow>
     fdt_check_header fdt = 0 \<and> tokens_at fdt 0 (flatten noff t @ [End]) \<and>
     (\<forall>k\<in>prop_names t. name_at fdt (noff k) k)"

lemma name_at_blob_name: "name_at fdt n s \<Longrightarrow> blob_name fdt n = s"
  by (auto simp: blob_name_def name_at_def strlen_holds holds_def nth_append Let_def intro!: nth_equalityI)

lemma names_at_append [simp]: "names_at fdt nm (as @ bs) \<longleftrightarrow> names_at fdt nm as \<and> names_at fdt nm bs"
  by (induction fdt nm as rule: names_at.induct) auto

lemma names_at_flatten:
  "(\<And>k. k \<in> prop_names t \<Longrightarrow> name_at fdt (noff k) k) \<Longrightarrow> names_at fdt (blob_name fdt) (flatten noff t)"
proof (induction t)
  case (DtNode s ps kids)
  have "names_at fdt (blob_name fdt) (map (\<lambda>(k, v). Prop (noff k) v) qs)" if "set qs \<subseteq> set ps" for qs
    using that
  proof (induction qs)
    case (Cons q qs)
    have "name_at fdt (noff (fst q)) (fst q)" using Cons.prems DtNode.prems by force
    with Cons show ?case by (cases q) (auto simp: name_at_blob_name)
  qed simp
  moreover have "names_at fdt (blob_name fdt) (concat (map (flatten noff) ks))" if "set ks \<subseteq> set kids" for ks
    using that DtNode by (induction ks) auto
  ultimately show ?case by auto
qed

lemma props_of_flatten:
  assumes "\<And>k. k \<in> fst ` set ps \<Longrightarrow> nm (noff k) = k"
  shows "props_of nm (map (\<lambda>(k, v). Prop (noff k) v) ps @ concat (map (flatten noff) kids) @ EndNode # ts) = ps"
  using assms
proof (induction ps)
  case Nil
  show ?case by (cases kids rule: list.exhaust; cases "hd kids") auto
qed auto

lemma visits_props:
  "\<exists>off'. visits nm off (map (\<lambda>(k, v). Prop (noff k) v) ps @ ts) = visits nm off' ts"
  by (induction ps arbitrary: off) auto

lemma visits_flatten:
  assumes "\<And>k. k \<in> prop_names t \<Longrightarrow> nm (noff k) = k"
  shows "\<exists>off'. map snd (visits nm off (flatten noff t @ ts)) = preorder t @ map snd (visits nm off' ts)"
  using assms
proof (induction t arbitrary: off ts)
  case (DtNode s ps kids)
  have kids: "\<exists>off'. map snd (visits nm off (concat (map (flatten noff) ks) @ ts)) =
      concat (map preorder ks) @ map snd (visits nm off' ts)" if "set ks \<subseteq> set kids" for ks off ts
    using that
  proof (induction ks arbitrary: off)
    case (Cons k ks)
    obtain off1 where "map snd (visits nm off (flatten noff k @ concat (map (flatten noff) ks) @ ts)) =
        preorder k @ map snd (visits nm off1 (concat (map (flatten noff) ks) @ ts))"
      using DtNode.IH [of k off] DtNode.prems Cons.prems by fastforce
    with Cons.IH [of off1] Cons.prems show ?case by auto
  qed auto
  have ps: "props_of nm (map (\<lambda>(k, v). Prop (noff k) v) ps @ concat (map (flatten noff) kids) @ EndNode # ts) = ps"
    using DtNode.prems by (intro props_of_flatten) auto
  obtain off1 where "visits nm (off + int (length (enc (BeginNode s))))
      (map (\<lambda>(k, v). Prop (noff k) v) ps @ concat (map (flatten noff) kids) @ EndNode # ts) =
      visits nm off1 (concat (map (flatten noff) kids) @ EndNode # ts)"
    using visits_props by blast
  moreover obtain off2 where "map snd (visits nm off1 (concat (map (flatten noff) kids) @ EndNode # ts)) =
      concat (map preorder kids) @ map snd (visits nm off2 (EndNode # ts))"
    using kids [of kids off1 "EndNode # ts"] by auto
  ultimately show ?case using ps by auto
qed

lemma stops_at_node_flatten:
  "stops_at_node (map (\<lambda>(k, v). Prop (noff k) v) ps @ concat (map (flatten noff) kids) @ EndNode # ts)"
proof (induction ps)
  case Nil
  show ?case by (cases kids rule: list.exhaust; cases "hd kids") auto
qed auto

lemma nodes_stop_props [simp]: "nodes_stop (map (\<lambda>(k, v). Prop (noff k) v) ps @ ts) \<longleftrightarrow> nodes_stop ts"
  by (induction ps) auto

lemma nodes_stop_flatten [simp]: "nodes_stop (flatten noff t @ ts) \<longleftrightarrow> nodes_stop ts"
proof (induction t arbitrary: ts)
  case (DtNode s ps kids)
  have "nodes_stop (concat (map (flatten noff) ks) @ us) \<longleftrightarrow> nodes_stop us" if "set ks \<subseteq> set kids" for ks us
    using that DtNode by (induction ks) auto
  then show ?case using stops_at_node_flatten by simp
qed

text \<open>Every visited offset is the start of a node, with the rest of the tokens behind it.\<close>

lemma visits_nth:
  assumes "tokens_at fdt off ts" "End \<in> set ts" "names_at fdt nm ts" "i < length (visits nm off ts)" "nodes_stop ts"
  shows "\<exists>k s us. visits nm off ts ! i = (k, s, props_of nm us) \<and> tokens_at fdt k (BeginNode s # us) \<and>
    End \<in> set us \<and> names_at fdt nm us \<and> stops_at_node us \<and>
    drop (Suc i) (visits nm off ts) = visits nm (k + int (length (enc (BeginNode s)))) us"
  using assms
proof (induction nm off ts arbitrary: i rule: visits.induct [case_names node stop leave valued nop nil])
  case (node nm off s ts)
  show ?case
  proof (cases i)
    case 0
    then show ?thesis using node.prems by auto
  next
    case (Suc j)
    then show ?thesis using node.prems node.IH [of j] tokens_at_tl [OF node.prems(1)] by auto
  qed
next
  case (leave nm off ts)
  then show ?case using tokens_at_tl [OF leave.prems(1)] by auto
next
  case (valued nm off n v ts)
  then show ?case using tokens_at_tl [OF valued.prems(1)] by auto
next
  case (nop nm off ts)
  then show ?case using tokens_at_tl [OF nop.prems(1)] by auto
qed auto

definition tree_visits :: "blob \<Rightarrow> (u8 list \<Rightarrow> u32) \<Rightarrow> dt_node \<Rightarrow> visit list" where
  "tree_visits fdt noff t = visits (blob_name fdt) 0 (flatten noff t @ [End])"

lemma tree_visits_preorder:
  assumes "represents fdt noff t"
  shows "map snd (tree_visits fdt noff t) = preorder t"
proof -
  have "\<And>k. k \<in> prop_names t \<Longrightarrow> blob_name fdt (noff k) = k"
    using assms by (auto simp: represents_def intro: name_at_blob_name)
  then obtain off' where "map snd (visits (blob_name fdt) 0 (flatten noff t @ [End])) =
      preorder t @ map snd (visits (blob_name fdt) off' [End])"
    using visits_flatten by blast
  then show ?thesis by (simp add: tree_visits_def)
qed

lemma tree_visit:
  assumes "represents fdt noff t" "i < length (preorder t)"
  obtains k us where "tree_visits fdt noff t ! i = (k, preorder t ! i)"
    "snd (preorder t ! i) = props_of (blob_name fdt) us"
    "tokens_at fdt k (BeginNode (fst (preorder t ! i)) # us)" "End \<in> set us"
    "names_at fdt (blob_name fdt) us" "stops_at_node us"
    "drop (Suc i) (tree_visits fdt noff t) =
      visits (blob_name fdt) (k + int (length (enc (BeginNode (fst (preorder t ! i)))))) us"
proof -
  have len: "i < length (tree_visits fdt noff t)"
    using assms tree_visits_preorder [OF assms(1)] by (metis length_map)
  have nth: "snd (tree_visits fdt noff t ! i) = preorder t ! i"
    using len tree_visits_preorder [OF assms(1)] by (metis nth_map)
  have "names_at fdt (blob_name fdt) (flatten noff t @ [End])"
    using assms(1) by (auto simp: represents_def intro: names_at_flatten)
  then obtain k s us where v: "tree_visits fdt noff t ! i = (k, s, props_of (blob_name fdt) us)"
    and us: "tokens_at fdt k (BeginNode s # us)" "End \<in> set us" "names_at fdt (blob_name fdt) us"
    "stops_at_node us" "drop (Suc i) (tree_visits fdt noff t) = visits (blob_name fdt) (k + int (length (enc (BeginNode s)))) us"
    using visits_nth [of fdt 0 "flatten noff t @ [End]" "blob_name fdt" i] len assms(1)
    unfolding represents_def tree_visits_def by auto
  moreover have "preorder t ! i = (s, props_of (blob_name fdt) us)" using nth v by simp
  ultimately show thesis by (intro that [of k us]) simp_all
qed

lemma next_node_tree:
  assumes "represents fdt noff t" "i < length (preorder t)"
  shows "fdt_next_node fdt (fst (tree_visits fdt noff t ! i)) None =
    Some (if Suc i < length (preorder t) then fst (tree_visits fdt noff t ! Suc i)
          else - FDT_ERR_NOTFOUND, None)"
proof -
  have len: "length (tree_visits fdt noff t) = length (preorder t)"
    using tree_visits_preorder [OF assms(1)] by (metis length_map)
  obtain k us where t: "tree_visits fdt noff t ! i = (k, preorder t ! i)"
    and us: "tokens_at fdt k (BeginNode (fst (preorder t ! i)) # us)" "End \<in> set us"
    and drop: "drop (Suc i) (tree_visits fdt noff t) =
      visits (blob_name fdt) (k + int (length (enc (BeginNode (fst (preorder t ! i)))))) us"
    using tree_visit [OF assms] by blast
  have "fdt_next_node fdt k None =
      Some (case drop (Suc i) (tree_visits fdt noff t) of [] \<Rightarrow> - FDT_ERR_NOTFOUND | v # _ \<Rightarrow> fst v, None)"
    using next_node_token [OF us] seek_visits [OF us(2)] drop by metis
  then show ?thesis using t len
    by (cases "Suc i < length (preorder t)") (simp_all add: Cons_nth_drop_Suc [symmetric])
qed

lemma getprop_tree:
  assumes "represents fdt noff t" "i < length (preorder t)"
  shows "\<exists>r. fdt_getprop fdt (fst (tree_visits fdt noff t ! i)) name = Some r \<and>
    found fdt (map_of (snd (preorder t ! i)) name) r"
  using tree_visit [OF assms] getprop_token by (metis fst_conv)

lemma get_name_tree:
  assumes "represents fdt noff t" "i < length (preorder t)"
  shows "\<exists>p. fdt_get_name fdt (fst (tree_visits fdt noff t ! i)) =
      Some (Some p, int (length (fst (preorder t ! i)))) \<and>
    holds fdt p (fst (preorder t ! i) @ [0])"
proof -
  obtain k us where t: "tree_visits fdt noff t ! i = (k, preorder t ! i)"
    and us: "tokens_at fdt k (BeginNode (fst (preorder t ! i)) # us)"
    using tree_visit [OF assms] by blast
  let ?p = "raw_fdt_offset_ptr fdt k + 4"
  have "holds fdt ?p (fst (preorder t ! i) @ [0])" "0 \<notin> set (fst (preorder t ! i))"
    using us by (auto simp: tokens_at_def enc_def pad4_def holds_append)
  moreover have "fdt_check_header fdt = 0" using assms(1) by (simp add: represents_def)
  ultimately show ?thesis
    using check_node_token [OF us] tokens_at_off [OF tokens_at_tl [OF us]] t
    by (auto simp: fdt_get_name_def strlen_holds not_less Let_def)
qed

lemma tree_visits_0: "tree_visits fdt noff t \<noteq> [] \<and> fst (tree_visits fdt noff t ! 0) = 0"
  by (cases t) (simp add: tree_visits_def)

section \<open>Building a blob\<close>

text \<open>
  A version 17 blob: the header of ten words, an empty memory reservation map, the structure block
  and the strings.
\<close>

definition blob_of :: "u8 list \<Rightarrow> blob" where
  "blob_of bs p = (if 0 \<le> p \<and> nat p < length bs then bs ! nat p else 0)"

definition fdt_header :: "nat \<Rightarrow> nat \<Rightarrow> u8 list" where
  "fdt_header struct_len strings_len =
     concat (map be_bytes
       [FDT_MAGIC, of_nat (56 + struct_len + strings_len), 56, of_nat (56 + struct_len), 40,
        0x11, 0x10, 0, of_nat strings_len, of_nat struct_len]) @ replicate 16 0"

definition build_fdt :: "fdt_token list \<Rightarrow> u8 list \<Rightarrow> blob" where
  "build_fdt ts strings =
     blob_of (fdt_header (length (encs ts)) (length strings) @ encs ts @ strings)"

lemma holds_blob_of: "holds (blob_of (as @ bs @ cs)) (int (length as)) bs"
  by (auto simp: holds_def blob_of_def nth_append nat_add_distrib)

lemma holds_blob_of_word:
  "be32 (blob_of (concat (map be_bytes ws) @ cs)) (4 * int i) = ws ! i" if "i < length ws"
proof (rule holds_be32)
  have "concat (map be_bytes ws) @ cs =
      concat (map be_bytes (take i ws)) @ be_bytes (ws ! i) @ concat (map be_bytes (drop (Suc i) ws)) @ cs"
    using that by (subst id_take_nth_drop [OF that]) simp
  moreover have "length (concat (map be_bytes (take i ws))) = 4 * i"
    using that by (simp add: length_concat sum_list_triv comp_def)
  ultimately show "holds (blob_of (concat (map be_bytes ws) @ cs)) (4 * int i) (be_bytes (ws ! i))"
    using holds_blob_of [of "concat (map be_bytes (take i ws))"] by simp
qed

lemma build_fdt_header:
  assumes "length (encs ts) < 2 ^ 31 - 4" "length strings < 2 ^ 31"
  shows "fdt_check_header (build_fdt ts strings) = 0"
    and "fdt_version (build_fdt ts strings) = 0x11"
    and "fdt_off_dt_struct (build_fdt ts strings) = 56"
    and "fdt_off_dt_strings (build_fdt ts strings) = of_nat (56 + length (encs ts))"
    and "struct_size (build_fdt ts strings) = int (length (encs ts))"
proof -
  note word = holds_blob_of_word [of _ "[FDT_MAGIC, of_nat (56 + length (encs ts) + length strings), 56,
     of_nat (56 + length (encs ts)), 40, 0x11, 0x10, 0, of_nat (length strings), of_nat (length (encs ts))]"
     "replicate 16 0 @ encs ts @ strings"]
  have b: "build_fdt ts strings = blob_of (concat (map be_bytes
      [FDT_MAGIC, of_nat (56 + length (encs ts) + length strings), 56, of_nat (56 + length (encs ts)), 40,
       0x11, 0x10, 0, of_nat (length strings), of_nat (length (encs ts))]) @
      replicate 16 0 @ encs ts @ strings)"
    by (simp only: build_fdt_def fdt_header_def append_assoc)
  have "fdt_magic (build_fdt ts strings) = FDT_MAGIC" "fdt_last_comp_version (build_fdt ts strings) = 0x10"
    and v: "fdt_version (build_fdt ts strings) = 0x11"
    using word [of 0] word [of 6] word [of 5]
    by (simp_all only: b fdt_magic_def fdt_last_comp_version_def fdt_version_def) simp_all
  then show "fdt_check_header (build_fdt ts strings) = 0" "fdt_version (build_fdt ts strings) = 0x11"
    by (simp_all add: fdt_check_header_def const_defs)
  show "fdt_off_dt_struct (build_fdt ts strings) = 56"
    "fdt_off_dt_strings (build_fdt ts strings) = of_nat (56 + length (encs ts))"
    using word [of 2] word [of 3] by (simp_all only: b fdt_off_dt_struct_def fdt_off_dt_strings_def) simp_all
  have "fdt_size_dt_struct (build_fdt ts strings) = of_nat (length (encs ts))"
    using word [of 9] by (simp only: b fdt_size_dt_struct_def) simp
  then show "struct_size (build_fdt ts strings) = int (length (encs ts))"
    using uint_u32_small [of "int (length (encs ts))"] assms(1) by simp
qed

lemma build_fdt_tokens:
  assumes "length (encs ts) < 2 ^ 31 - 4" "length strings < 2 ^ 31" "list_all wf_token ts"
  shows "tokens_at (build_fdt ts strings) 0 ts"
proof -
  have "length (fdt_header n m) = 56" for n m by (simp add: fdt_header_def)
  then have "holds (build_fdt ts strings) 56 (encs ts)"
    using holds_blob_of [of "fdt_header (length (encs ts)) (length strings)" "encs ts" strings]
    by (simp add: build_fdt_def)
  then show ?thesis using build_fdt_header [OF assms(1,2)] assms
    by (simp add: tokens_at_def raw_fdt_offset_ptr_def holds_encs)
qed

lemma build_fdt_name:
  assumes "length (encs ts) + length strings + 56 < 2 ^ 31"
    and "strings = as @ (s @ [0]) @ bs" "0 \<notin> set s"
  shows "name_at (build_fdt ts strings) (of_nat (length as)) s"
proof -
  have "length (fdt_header n m) = 56" for n m by (simp add: fdt_header_def)
  then have h: "holds (build_fdt ts strings) (int (56 + length (encs ts) + length as)) (s @ [0])"
    using holds_blob_of [of "fdt_header (length (encs ts)) (length strings) @ encs ts @ as" "s @ [0]" bs] assms(2)
    by (simp add: build_fdt_def add.assoc)
  have "uint (of_nat (length as) :: u32) = int (length as)"
    "uint (of_nat (56 + length (encs ts)) :: u32) = int (56 + length (encs ts))"
    using uint_u32_small [of "int (length as)"] uint_u32_small [of "int (56 + length (encs ts))"] assms(1,2)
    by simp_all
  then have "fdt_string (build_fdt ts strings) (c_int (uint (of_nat (length as) :: u32))) =
      int (56 + length (encs ts) + length as)"
    using build_fdt_header(4) [of ts strings] assms(1,2) by (simp add: fdt_string_def c_int_id)
  with h assms(3) show ?thesis by (simp add: name_at_def)
qed

definition bytes :: "string \<Rightarrow> u8 list" where
  "bytes s = map of_char s"

text \<open>The device tree of the reference design in short: a PR IP core in BAR 4.\<close>

definition demo_noff :: "u8 list \<Rightarrow> u32" where
  "demo_noff k = (if k = bytes ''reg'' then 11 else 0)"

definition demo_tree :: dt_node where
  "demo_tree = DtNode [] []
     [DtNode (bytes ''pr@8'')
        [(bytes ''compatible'', bytes ''altr,pr-ip-core'' @ [0]),
         (bytes ''reg'', [0, 0, 0, 4, 0, 0, 0, 8, 0, 0, 0, 16])] []]"

definition demo_strings :: "u8 list" where
  "demo_strings = bytes ''compatible'' @ [0] @ bytes ''reg'' @ [0]"

definition demo_fdt :: blob where
  "demo_fdt = build_fdt (flatten demo_noff demo_tree @ [End]) demo_strings"

lemma demo_names: "prop_names demo_tree = {bytes ''compatible'', bytes ''reg''}"
  by (auto simp: demo_tree_def)

lemma demo_small: "length (encs (flatten demo_noff demo_tree @ [End])) = 84" "length demo_strings = 15"
  by (simp_all add: demo_tree_def length_enc demo_strings_def bytes_def)

lemma demo_represents: "represents demo_fdt demo_noff demo_tree"
proof -
  have nz: "0 \<notin> set (bytes ''compatible'')" "0 \<notin> set (bytes ''reg'')" "0 \<notin> set (bytes ''pr@8'')"
    "bytes ''compatible'' \<noteq> bytes ''reg''" by (simp_all add: bytes_def)
  have "tokens_at demo_fdt 0 (flatten demo_noff demo_tree @ [End])"
    unfolding demo_fdt_def using demo_small nz
    by (intro build_fdt_tokens) (simp_all add: demo_tree_def)
  moreover have "fdt_check_header demo_fdt = 0"
    unfolding demo_fdt_def using demo_small by (intro build_fdt_header) simp_all
  moreover have "name_at demo_fdt (of_nat (length ([] :: u8 list))) (bytes ''compatible'')"
    unfolding demo_fdt_def using demo_small nz
    by (intro build_fdt_name [where bs = "bytes ''reg'' @ [0]"]) (simp_all add: demo_strings_def)
  moreover have "name_at demo_fdt (of_nat (length (bytes ''compatible'' @ [0]))) (bytes ''reg'')"
    unfolding demo_fdt_def using demo_small nz
    by (intro build_fdt_name [where bs = "[]"]) (simp_all add: demo_strings_def)
  moreover have "length (bytes ''compatible'') = 10" by (simp add: bytes_def)
  ultimately show ?thesis using nz by (auto simp: represents_def demo_names demo_noff_def)
qed

section \<open>The properties\<close>

text \<open>
  C15. Termination of the walk over an untrusted blob. On a version 17 blob none of whose properties
  has the length field \<open>0xfffffff4\<close>, \<open>fdt_next_node\<close> returns, from any offset and with any depth.
\<close>

theorem fdt_next_node_terminates:
  assumes "checked_blob fdt" "no_wrap_prop fdt" "off < 2 ^ 31"
  shows "\<exists>r. fdt_next_node fdt off depth = Some r"
proof (cases "off < 0 \<or> off mod 4 \<noteq> 0")
  case True
  moreover have "0 \<le> uint (fdt_size_dt_struct fdt) + 3" by (simp add: add_increasing)
  ultimately show ?thesis
    using next_node_loop_returns [OF assms(1,2), of 0 depth]
    by (auto simp: fdt_next_node_def fdt_check_node_offset_def FDT_TAGSIZE_def FDT_ERR_BADOFFSET_def not_less)
next
  case False
  then obtain tag n where "fdt_next_tag fdt off = Some (tag, n)"
    "n < 0 \<or> n mod 4 = 0 \<and> n \<le> uint (fdt_size_dt_struct fdt) + 3"
    using next_tag_progress [OF assms(1), of off] assms(3) by force
  with False next_node_loop_returns [OF assms(1,2), of n depth] show ?thesis
    by (auto simp: fdt_next_node_def fdt_check_node_offset_def FDT_TAGSIZE_def FDT_ERR_BADOFFSET_def not_less)
qed

definition small_fdt :: blob where
  "small_fdt = build_fdt [BeginNode [], EndNode, End] []"

lemma small_fdt_header:
  "checked_blob small_fdt" "fdt_off_dt_struct small_fdt = 56" "struct_size small_fdt = 16"
proof -
  have "length (encs [BeginNode [], EndNode, End]) = 16" by (simp add: length_enc)
  then show "checked_blob small_fdt" "fdt_off_dt_struct small_fdt = 56" "struct_size small_fdt = 16"
    unfolding small_fdt_def checked_blob_def using build_fdt_header [of "[BeginNode [], EndNode, End]" "[]"]
    by simp_all
qed

lemma small_fdt_no_wrap: "no_wrap_prop small_fdt"
proof -
  have "list_all (\<lambda>k. be32 small_fdt (56 + k) \<noteq> FDT_PROP) [0, 4, 8, 12, 16]" by code_simp
  moreover have "k = 0 \<or> k = 4 \<or> k = 8 \<or> k = 12 \<or> k = 16" if "0 \<le> k" "4 dvd k" "k \<le> 16" for k :: int
    using that by presburger
  ultimately have "be32 small_fdt (56 + k) \<noteq> FDT_PROP" if "0 \<le> k" "4 dvd k" "k \<le> 16" for k :: int
    using that by fastforce
  then show ?thesis
    by (auto simp: no_wrap_prop_def small_fdt_header raw_fdt_offset_ptr_def)
qed

theorem fdt_next_node_terminates_witness:
  "checked_blob small_fdt \<and> no_wrap_prop small_fdt \<and> (\<exists>r. fdt_next_node small_fdt 0 None = Some r)"
  using fdt_next_node_terminates [of small_fdt 0 None] small_fdt_header small_fdt_no_wrap by simp

text \<open>A blob that passes \<open>fdt_check_header\<close>: a root node with a property of length \<open>0xfffffff4\<close>.\<close>

definition wrap_fdt :: blob where
  "wrap_fdt = blob_of (fdt_header 28 0 @ concat (map be_bytes
     [FDT_BEGIN_NODE, 0, FDT_PROP, 0xfffffff4, 0, FDT_END_NODE, FDT_END]))"

text \<open>
  C16. The one exception is real: the header check accepts \<open>wrap_fdt\<close>, a version 17 blob, and
  \<open>fdt_next_node\<close> never returns on it.
\<close>

theorem fdt_next_node_hangs:
  "checked_blob wrap_fdt \<and> fdt_check_header wrap_fdt = 0 \<and> fdt_next_node wrap_fdt 0 None = None"
proof (intro conjI)
  show "checked_blob wrap_fdt" "fdt_check_header wrap_fdt = 0"
    by (unfold checked_blob_def, code_simp+)
  have "fdt_check_node_offset wrap_fdt 0 = Some 8" "fdt_next_tag wrap_fdt 8 = Some (FDT_PROP, 8)"
    by code_simp+
  then show "fdt_next_node wrap_fdt 0 None = None"
    by (simp add: fdt_next_node_def next_node_loop_stuck)
qed

text \<open>
  C17. Walking a well-formed blob. When the blob holds the flattened tree \<open>t\<close>, the offsets of its nodes
  start with 0, \<open>fdt_next_node\<close> leads from each to the next one in preorder and from the last to
  \<open>-FDT_ERR_NOTFOUND\<close>, and \<open>fdt_get_name\<close> gives the name of the node at each of them.
\<close>

theorem fdt_walk_preorder:
  assumes "represents fdt noff t"
  shows "length (tree_visits fdt noff t) = length (preorder t) \<and>
    fst (tree_visits fdt noff t ! 0) = 0 \<and>
    (\<forall>i<length (preorder t).
      fdt_next_node fdt (fst (tree_visits fdt noff t ! i)) None =
        Some (if Suc i < length (preorder t) then fst (tree_visits fdt noff t ! Suc i)
              else - FDT_ERR_NOTFOUND, None) \<and>
      (\<exists>p. fdt_get_name fdt (fst (tree_visits fdt noff t ! i)) =
          Some (Some p, int (length (fst (preorder t ! i)))) \<and>
        holds fdt p (fst (preorder t ! i) @ [0])))"
  using next_node_tree [OF assms] get_name_tree [OF assms] tree_visits_0
    arg_cong [OF tree_visits_preorder [OF assms], of length]
  by simp

theorem fdt_walk_preorder_witness:
  "represents demo_fdt demo_noff demo_tree \<and>
   fdt_next_node demo_fdt 0 None = Some (fst (tree_visits demo_fdt demo_noff demo_tree ! 1), None)"
  using fdt_walk_preorder [OF demo_represents] demo_represents
  by (auto simp: demo_tree_def dest!: spec [of _ 0])

text \<open>
  C18. Looking up a property. At the offset of a node of the tree, \<open>fdt_getprop\<close> returns, for every
  name, a pointer to the bytes of the first property of that name and their number, or \<open>NULL\<close> and
  \<open>-FDT_ERR_NOTFOUND\<close> when the node has no such property.
\<close>

theorem fdt_getprop_finds:
  assumes "represents fdt noff t" "i < length (preorder t)"
  shows "\<exists>p len. fdt_getprop fdt (fst (tree_visits fdt noff t ! i)) name = Some (p, len) \<and>
    (case map_of (snd (preorder t ! i)) name of
       None \<Rightarrow> p = None \<and> len = - FDT_ERR_NOTFOUND
     | Some v \<Rightarrow> len = int (length v) \<and> (\<exists>q. p = Some q \<and> holds fdt q v))"
  using getprop_tree [OF assms, of name] by (auto simp: found_def split: option.splits)

theorem fdt_getprop_finds_witness:
  "\<exists>q. fdt_getprop demo_fdt (fst (tree_visits demo_fdt demo_noff demo_tree ! 1)) (bytes ''reg'') =
      Some (Some q, 12) \<and> holds demo_fdt q [0, 0, 0, 4, 0, 0, 0, 8, 0, 0, 0, 16]"
  using fdt_getprop_finds [OF demo_represents, of 1 "bytes ''reg''"]
  by (auto simp: demo_tree_def bytes_def)

end
