(* ===== verification/Fdt_Ro.thy ===== *)
theory Fdt_Ro
  imports Fdt_Tree
begin

text \<open>
  The rest of \<open>libfdt/fdt_ro.c\<close>: reservations, subnodes and paths, aliases, ancestors, and the searches
  for a node by a property. As in the theory on the block structure, a pointer into the blob is a
  distance to its start, and a loop or recursion that does not end is \<open>None\<close>. A C string that is an
  argument is the list of its bytes without the terminator.
\<close>

section \<open>Memory reservations\<close>

definition FDT_ERR_BADPATH :: int where [const_defs]: "FDT_ERR_BADPATH = 5"
definition FDT_ERR_BADPHANDLE :: int where [const_defs]: "FDT_ERR_BADPHANDLE = 6"

definition fdt_off_mem_rsvmap :: "blob \<Rightarrow> u32" where "fdt_off_mem_rsvmap fdt = be32 fdt 16"

definition be64 :: "blob \<Rightarrow> int \<Rightarrow> u64" where
  "be64 fdt p = push_bit 32 (ucast (be32 fdt p)) OR ucast (be32 fdt (p + 4))"

text \<open>An entry has the address and the size, eight bytes each.\<close>

definition fdt_mem_rsv :: "blob \<Rightarrow> int \<Rightarrow> int" where
  "fdt_mem_rsv fdt n = uint (fdt_off_mem_rsvmap fdt) + 16 * n"

definition fdt_get_mem_rsv :: "blob \<Rightarrow> int \<Rightarrow> int \<times> (u64 \<times> u64) option" where
  "fdt_get_mem_rsv fdt n =
     (if fdt_check_header fdt \<noteq> 0 then (fdt_check_header fdt, None)
      else (0, Some (be64 fdt (fdt_mem_rsv fdt n), be64 fdt (fdt_mem_rsv fdt n + 8))))"

partial_function (option) num_mem_rsv_loop :: "blob \<Rightarrow> int \<Rightarrow> int option" where
  [code]: "num_mem_rsv_loop fdt i =
    (if be64 fdt (fdt_mem_rsv fdt i + 8) \<noteq> 0 then num_mem_rsv_loop fdt (i + 1) else Some i)"

definition fdt_num_mem_rsv :: "blob \<Rightarrow> int option" where
  "fdt_num_mem_rsv fdt = num_mem_rsv_loop fdt 0"

section \<open>Subnodes and paths\<close>

definition SLASH :: u8 where [const_defs]: "SLASH = 47"
definition AT :: u8 where [const_defs]: "AT = 64"

definition fdt_nodename_eq :: "blob \<Rightarrow> int \<Rightarrow> u8 list \<Rightarrow> bool" where
  "fdt_nodename_eq fdt offset s =
     (case fdt_offset_ptr fdt (c_int (offset + FDT_TAGSIZE)) (word_of_int (int (length s) + 1)) of
        None \<Rightarrow> False
      | Some p \<Rightarrow> memcmp_eq fdt p s \<and>
          (let c = fdt (p + int (length s)) in c = 0 \<or> AT \<notin> set s \<and> c = AT))"

partial_function (option) subnode_loop :: "blob \<Rightarrow> int \<Rightarrow> int \<Rightarrow> u8 list \<Rightarrow> int option" where
  [code]: "subnode_loop fdt offset depth name =
    (if 0 \<le> offset \<and> 0 \<le> depth then
       (if depth = 1 \<and> fdt_nodename_eq fdt offset name then Some offset
        else do {
          (offset, d) \<leftarrow> fdt_next_node fdt offset (Some depth);
          subnode_loop fdt offset (the d) name
        })
     else Some (if depth < 0 then - FDT_ERR_NOTFOUND else offset))"

definition fdt_subnode_offset_namelen :: "blob \<Rightarrow> int \<Rightarrow> u8 list \<Rightarrow> int option" where
  "fdt_subnode_offset_namelen fdt offset name =
     (if fdt_check_header fdt \<noteq> 0 then Some (fdt_check_header fdt) else subnode_loop fdt offset 0 name)"

definition fdt_subnode_offset :: "blob \<Rightarrow> int \<Rightarrow> u8 list \<Rightarrow> int option" where
  "fdt_subnode_offset fdt parentoffset name = fdt_subnode_offset_namelen fdt parentoffset name"

text \<open>The loop of \<open>fdt_path_offset\<close> over the parts of a path.\<close>

function path_loop :: "blob \<Rightarrow> int \<Rightarrow> u8 list \<Rightarrow> int option" where
  "path_loop fdt offset p =
     (let p = dropWhile (\<lambda>c. c = SLASH) p in
      if p = [] then Some offset
      else do {
        offset \<leftarrow> fdt_subnode_offset_namelen fdt offset (takeWhile (\<lambda>c. c \<noteq> SLASH) p);
        if offset < 0 then Some offset else path_loop fdt offset (dropWhile (\<lambda>c. c \<noteq> SLASH) p)
      })"
  by pat_completeness auto

lemma dropWhile_slash_shorter:
  "dropWhile (\<lambda>c. c = SLASH) p \<noteq> [] \<Longrightarrow>
   length (dropWhile (\<lambda>c. c \<noteq> SLASH) (dropWhile (\<lambda>c. c = SLASH) p)) < length p"
proof (induction p)
  case (Cons c p)
  have "length (dropWhile (\<lambda>c. c \<noteq> SLASH) p) < Suc (length p)" by (simp add: length_dropWhile_le le_imp_less_Suc)
  with Cons show ?case by auto
qed simp

termination path_loop
  by (relation "measure (\<lambda>(fdt, offset, p). length p)") (auto intro: dropWhile_slash_shorter)

declare path_loop.simps [simp del]

text \<open>
  \<open>fdt_path_offset\<close> and \<open>fdt_get_alias_namelen\<close> call each other, the second one with the absolute path
  of the node with the aliases, for which no alias is looked up.
\<close>

definition absolute_path_offset :: "blob \<Rightarrow> u8 list \<Rightarrow> int option" where
  "absolute_path_offset fdt path =
     (if fdt_check_header fdt \<noteq> 0 then Some (fdt_check_header fdt) else path_loop fdt 0 path)"

definition fdt_get_alias_namelen :: "blob \<Rightarrow> u8 list \<Rightarrow> int option option" where
  "fdt_get_alias_namelen fdt name = do {
     aliasoffset \<leftarrow> absolute_path_offset fdt (bytes ''/aliases'');
     if aliasoffset < 0 then Some None
     else do {
       (p, len) \<leftarrow> fdt_getprop_namelen fdt aliasoffset name;
       Some p
     }
   }"

definition fdt_get_alias :: "blob \<Rightarrow> u8 list \<Rightarrow> int option option" where
  "fdt_get_alias fdt name = fdt_get_alias_namelen fdt name"

text \<open>The string at a place of the blob.\<close>

definition c_string :: "blob \<Rightarrow> int \<Rightarrow> u8 list option" where
  "c_string fdt p = do { n \<leftarrow> strlen fdt p; Some (map (\<lambda>i. fdt (p + int i)) [0..<n]) }"

partial_function (option) fdt_path_offset :: "blob \<Rightarrow> u8 list \<Rightarrow> int option" where
  [code]: "fdt_path_offset fdt path =
    (if fdt_check_header fdt \<noteq> 0 then Some (fdt_check_header fdt)
     else if take 1 path \<noteq> [SLASH] then do {
       alias \<leftarrow> fdt_get_alias_namelen fdt (takeWhile (\<lambda>c. c \<noteq> SLASH) path);
       case alias of
         None \<Rightarrow> Some (- FDT_ERR_BADPATH)
       | Some p \<Rightarrow> do {
           target \<leftarrow> c_string fdt p;
           offset \<leftarrow> fdt_path_offset fdt target;
           path_loop fdt offset (dropWhile (\<lambda>c. c \<noteq> SLASH) path)
         }
     }
     else path_loop fdt 0 path)"

text \<open>
  The buffer of \<open>fdt_get_path\<close> is the list of the first \<open>p\<close> bytes. A search for a slash in front of the
  buffer is \<open>None\<close>.
\<close>

fun pop_part :: "u8 list \<Rightarrow> u8 list option" where
  "pop_part buf =
     (if length buf < 2 then None
      else if last (butlast buf) = SLASH then Some (butlast buf)
      else pop_part (butlast buf))"

declare pop_part.simps [simp del]

fun pop_parts :: "nat \<Rightarrow> u8 list \<Rightarrow> u8 list option" where
  "pop_parts 0 buf = Some buf"
| "pop_parts (Suc n) buf = do { buf \<leftarrow> pop_part buf; pop_parts n buf }"

definition path_result :: "int \<Rightarrow> int" where
  "path_result offset =
     (if offset = - FDT_ERR_NOTFOUND \<or> 0 \<le> offset then - FDT_ERR_BADOFFSET
      else if offset = - FDT_ERR_BADOFFSET then - FDT_ERR_BADSTRUCTURE
      else offset)"

partial_function (option) get_path_loop ::
    "blob \<Rightarrow> int \<Rightarrow> int \<Rightarrow> int \<Rightarrow> int \<Rightarrow> int \<Rightarrow> u8 list \<Rightarrow> (int \<times> u8 list) option" where
  [code]: "get_path_loop fdt nodeoffset buflen offset depth pdepth buf =
    (if \<not> (0 \<le> offset \<and> offset \<le> nodeoffset) then Some (path_result offset, buf)
     else do {
       buf \<leftarrow> pop_parts (nat (pdepth - depth)) buf;
       let pdepth = min pdepth depth;
       (err, pdepth, buf) \<leftarrow>
         (if pdepth < depth then Some (0, pdepth, buf)
          else do {
            (name, namelen) \<leftarrow> fdt_get_name fdt offset;
            case name of
              None \<Rightarrow> Some (namelen, pdepth, buf)
            | Some nm \<Rightarrow>
                Some (if int (length buf) + namelen + 1 \<le> buflen
                      then (0, pdepth + 1, buf @ map (\<lambda>i. fdt (nm + int i)) [0..<nat namelen] @ [SLASH])
                      else (0, pdepth, buf))
          });
       if err \<noteq> 0 then Some (err, buf)
       else if offset = nodeoffset then
         Some (if pdepth < depth + 1 then (- FDT_ERR_NOSPACE, buf)
               else (0, if 1 < length buf then butlast buf else buf))
       else do {
         (offset, d) \<leftarrow> fdt_next_node fdt offset (Some depth);
         get_path_loop fdt nodeoffset buflen offset (the d) pdepth buf
       }
     })"

definition fdt_get_path :: "blob \<Rightarrow> int \<Rightarrow> int \<Rightarrow> (int \<times> u8 list) option" where
  "fdt_get_path fdt nodeoffset buflen =
     (if fdt_check_header fdt \<noteq> 0 then Some (fdt_check_header fdt, [])
      else if buflen < 2 then Some (- FDT_ERR_NOSPACE, [])
      else get_path_loop fdt nodeoffset buflen 0 0 0 [])"

section \<open>Ancestors\<close>

partial_function (option) supernode_loop ::
    "blob \<Rightarrow> int \<Rightarrow> int \<Rightarrow> int \<Rightarrow> int \<Rightarrow> int \<Rightarrow> (int \<times> int option) option" where
  [code]: "supernode_loop fdt nodeoffset supernodedepth offset depth supernodeoffset =
    (if \<not> (0 \<le> offset \<and> offset \<le> nodeoffset) then Some (path_result offset, None)
     else let supernodeoffset = (if depth = supernodedepth then offset else supernodeoffset) in
       if offset = nodeoffset
       then Some (if supernodedepth > depth then - FDT_ERR_NOTFOUND else supernodeoffset, Some depth)
       else do {
         (offset, d) \<leftarrow> fdt_next_node fdt offset (Some depth);
         supernode_loop fdt nodeoffset supernodedepth offset (the d) supernodeoffset
       })"

text \<open>The result and the value stored in \<open>nodedepth\<close>, if any.\<close>

definition fdt_supernode_atdepth_offset :: "blob \<Rightarrow> int \<Rightarrow> int \<Rightarrow> (int \<times> int option) option" where
  "fdt_supernode_atdepth_offset fdt nodeoffset supernodedepth =
     (if fdt_check_header fdt \<noteq> 0 then Some (fdt_check_header fdt, None)
      else if supernodedepth < 0 then Some (- FDT_ERR_NOTFOUND, None)
      else supernode_loop fdt nodeoffset supernodedepth 0 0 (- FDT_ERR_INTERNAL))"

definition fdt_node_depth :: "blob \<Rightarrow> int \<Rightarrow> int option" where
  "fdt_node_depth fdt nodeoffset = do {
     (err, nodedepth) \<leftarrow> fdt_supernode_atdepth_offset fdt nodeoffset 0;
     if err \<noteq> 0 then Some (if err < 0 then err else - FDT_ERR_INTERNAL) else nodedepth
   }"

definition fdt_parent_offset :: "blob \<Rightarrow> int \<Rightarrow> int option" where
  "fdt_parent_offset fdt nodeoffset = do {
     nodedepth \<leftarrow> fdt_node_depth fdt nodeoffset;
     if nodedepth < 0 then Some nodedepth
     else map_option fst (fdt_supernode_atdepth_offset fdt nodeoffset (nodedepth - 1))
   }"

section \<open>Properties by offset, and searches\<close>

definition fdt_get_property :: "blob \<Rightarrow> int \<Rightarrow> u8 list \<Rightarrow> (int option \<times> int) option" where
  "fdt_get_property fdt nodeoffset name = fdt_get_property_namelen fdt nodeoffset name"

text \<open>The pointer to the data, the length, and the pointer to the name.\<close>

definition fdt_getprop_by_offset :: "blob \<Rightarrow> int \<Rightarrow> (int option \<times> int \<times> int option) option" where
  "fdt_getprop_by_offset fdt offset = do {
     (prop, len) \<leftarrow> fdt_get_property_by_offset fdt offset;
     Some (case prop of
         None \<Rightarrow> (None, len, None)
       | Some p \<Rightarrow> (Some (p + 12), len, Some (fdt_string fdt (c_int (uint (be32 fdt (p + 8)))))))
   }"

definition phandle_value :: "blob \<Rightarrow> int option \<times> int \<Rightarrow> u32 option" where
  "phandle_value fdt r = (case r of (Some php, len) \<Rightarrow> if len = 4 then Some (be32 fdt php) else None | _ \<Rightarrow> None)"

definition fdt_get_phandle :: "blob \<Rightarrow> int \<Rightarrow> u32 option" where
  "fdt_get_phandle fdt nodeoffset = do {
     r \<leftarrow> fdt_getprop fdt nodeoffset (bytes ''phandle'');
     case phandle_value fdt r of
       Some h \<Rightarrow> Some h
     | None \<Rightarrow> do {
         r \<leftarrow> fdt_getprop fdt nodeoffset (bytes ''linux,phandle'');
         Some (case phandle_value fdt r of Some h \<Rightarrow> h | None \<Rightarrow> 0)
       }
   }"

partial_function (option) prop_value_loop :: "blob \<Rightarrow> u8 list \<Rightarrow> u8 list \<Rightarrow> int \<Rightarrow> int option" where
  [code]: "prop_value_loop fdt propname propval offset =
    (if offset < 0 then Some offset
     else do {
       (val, len) \<leftarrow> fdt_getprop fdt offset propname;
       if (case val of None \<Rightarrow> False | Some p \<Rightarrow> len = int (length propval) \<and> memcmp_eq fdt p propval)
       then Some offset
       else do {
         (offset, _) \<leftarrow> fdt_next_node fdt offset None;
         prop_value_loop fdt propname propval offset
       }
     })"

definition fdt_node_offset_by_prop_value :: "blob \<Rightarrow> int \<Rightarrow> u8 list \<Rightarrow> u8 list \<Rightarrow> int option" where
  "fdt_node_offset_by_prop_value fdt startoffset propname propval =
     (if fdt_check_header fdt \<noteq> 0 then Some (fdt_check_header fdt)
      else do {
        (offset, _) \<leftarrow> fdt_next_node fdt startoffset None;
        prop_value_loop fdt propname propval offset
      })"

partial_function (option) phandle_loop :: "blob \<Rightarrow> u32 \<Rightarrow> int \<Rightarrow> int option" where
  [code]: "phandle_loop fdt phandle offset =
    (if offset < 0 then Some offset
     else do {
       h \<leftarrow> fdt_get_phandle fdt offset;
       if h = phandle then Some offset
       else do {
         (offset, _) \<leftarrow> fdt_next_node fdt offset None;
         phandle_loop fdt phandle offset
       }
     })"

definition fdt_node_offset_by_phandle :: "blob \<Rightarrow> u32 \<Rightarrow> int option" where
  "fdt_node_offset_by_phandle fdt phandle =
     (if phandle = 0 \<or> phandle = - 1 then Some (- FDT_ERR_BADPHANDLE)
      else if fdt_check_header fdt \<noteq> 0 then Some (fdt_check_header fdt)
      else do {
        (offset, _) \<leftarrow> fdt_next_node fdt (- 1) None;
        phandle_loop fdt phandle offset
      })"

text \<open>\<open>memchr\<close> for the terminator: the number of bytes in front of the first one.\<close>

definition memchr_zero :: "blob \<Rightarrow> int \<Rightarrow> int \<Rightarrow> nat option" where
  "memchr_zero fdt p n = find (\<lambda>i. fdt (p + int i) = 0) [0..<nat n]"

lemma memchr_zero_less: "memchr_zero fdt p n = Some i \<Longrightarrow> int i < n"
  by (auto simp: memchr_zero_def find_Some_iff)

function fdt_stringlist_contains :: "blob \<Rightarrow> int \<Rightarrow> int \<Rightarrow> u8 list \<Rightarrow> bool" where
  "fdt_stringlist_contains fdt strlist listlen str =
     (if int (length str) \<le> listlen then
        (if memcmp_eq fdt strlist (str @ [0]) then True
         else (case memchr_zero fdt strlist listlen of
                 None \<Rightarrow> False
               | Some i \<Rightarrow> fdt_stringlist_contains fdt (strlist + int i + 1) (listlen - (int i + 1)) str))
      else False)"
  by pat_completeness auto
termination
  by (relation "measure (\<lambda>(fdt, p, n, str). nat n)") (auto dest: memchr_zero_less)

declare fdt_stringlist_contains.simps [simp del]

definition fdt_node_check_compatible :: "blob \<Rightarrow> int \<Rightarrow> u8 list \<Rightarrow> int option" where
  "fdt_node_check_compatible fdt nodeoffset compatible = do {
     (p, len) \<leftarrow> fdt_getprop fdt nodeoffset (bytes ''compatible'');
     Some (case p of
         None \<Rightarrow> len
       | Some q \<Rightarrow> if fdt_stringlist_contains fdt q len compatible then 0 else 1)
   }"

partial_function (option) compatible_loop :: "blob \<Rightarrow> u8 list \<Rightarrow> int \<Rightarrow> int option" where
  [code]: "compatible_loop fdt compatible offset =
    (if offset < 0 then Some offset
     else do {
       err \<leftarrow> fdt_node_check_compatible fdt offset compatible;
       if err < 0 \<and> err \<noteq> - FDT_ERR_NOTFOUND then Some err
       else if err = 0 then Some offset
       else do {
         (offset, _) \<leftarrow> fdt_next_node fdt offset None;
         compatible_loop fdt compatible offset
       }
     })"

definition fdt_node_offset_by_compatible :: "blob \<Rightarrow> int \<Rightarrow> u8 list \<Rightarrow> int option" where
  "fdt_node_offset_by_compatible fdt startoffset compatible =
     (if fdt_check_header fdt \<noteq> 0 then Some (fdt_check_header fdt)
      else do {
        (offset, _) \<leftarrow> fdt_next_node fdt startoffset None;
        compatible_loop fdt compatible offset
      })"

end
