(* ===== verification/Fdt_Search.thy ===== *)
theory Fdt_Search
  imports Fdt_Ro
begin

text \<open>
  The searches of \<open>fdt_ro.c\<close> on a blob that holds a tree: by the value of a property, by the phandle,
  and by a string in the list \<open>compatible\<close>. All three walk over the nodes and stop at the first one
  they accept, which is proved once, in a locale.
\<close>

section \<open>Walking until a node is accepted\<close>

type_synonym dt_entry = "u8 list \<times> (u8 list \<times> u8 list) list"

abbreviation node_offset :: "blob \<Rightarrow> (u8 list \<Rightarrow> u32) \<Rightarrow> dt_node \<Rightarrow> nat \<Rightarrow> int" where
  "node_offset fdt noff t i \<equiv> fst (tree_visits fdt noff t ! i)"

text \<open>The first accepted node from number \<open>i\<close> on in preorder.\<close>

definition first_accepted :: "(dt_entry \<Rightarrow> bool) \<Rightarrow> dt_node \<Rightarrow> nat \<Rightarrow> nat option" where
  "first_accepted acc t i = find (\<lambda>j. acc (preorder t ! j)) [i..<length (preorder t)]"

definition search_result :: "blob \<Rightarrow> (u8 list \<Rightarrow> u32) \<Rightarrow> dt_node \<Rightarrow> nat option \<Rightarrow> int" where
  "search_result fdt noff t r = (case r of None \<Rightarrow> - FDT_ERR_NOTFOUND | Some j \<Rightarrow> node_offset fdt noff t j)"

locale node_search =
  fixes loop :: "blob \<Rightarrow> int \<Rightarrow> int option"
    and accepts :: "dt_entry \<Rightarrow> bool"
    and regular :: "dt_entry \<Rightarrow> bool"
  assumes at_end: "offset < 0 \<Longrightarrow> loop fdt offset = Some offset"
    and hit: "represents fdt noff t \<Longrightarrow> i < length (preorder t) \<Longrightarrow> regular (preorder t ! i) \<Longrightarrow>
      accepts (preorder t ! i) \<Longrightarrow> loop fdt (node_offset fdt noff t i) = Some (node_offset fdt noff t i)"
    and miss: "represents fdt noff t \<Longrightarrow> i < length (preorder t) \<Longrightarrow> regular (preorder t ! i) \<Longrightarrow>
      \<not> accepts (preorder t ! i) \<Longrightarrow>
      loop fdt (node_offset fdt noff t i) = do { (n, _) \<leftarrow> fdt_next_node fdt (node_offset fdt noff t i) None; loop fdt n }"
begin

lemma search:
  assumes "represents fdt noff t" and "list_all regular (preorder t)" and "i < length (preorder t)"
  shows "loop fdt (node_offset fdt noff t i) = Some (search_result fdt noff t (first_accepted accepts t i))"
  using assms(3)
proof (induction "length (preorder t) - i" arbitrary: i)
  case (Suc n)
  note next_node = next_node_tree [OF assms(1) Suc.prems]
  have reg: "regular (preorder t ! i)" using assms(2) Suc.prems by (simp add: list_all_length)
  have split: "[i..<length (preorder t)] = i # [Suc i..<length (preorder t)]" using Suc.prems by (rule upt_conv_Cons)
  show ?case
  proof (cases "accepts (preorder t ! i)")
    case True
    then show ?thesis using hit [OF assms(1) Suc.prems reg True]
      by (simp add: search_result_def first_accepted_def split)
  next
    case False
    have "loop fdt (- FDT_ERR_NOTFOUND) = Some (- FDT_ERR_NOTFOUND)" by (intro at_end) (simp add: FDT_ERR_NOTFOUND_def)
    then show ?thesis using miss [OF assms(1) Suc.prems reg False] next_node Suc.hyps(1) [of "Suc i"] Suc.hyps(2) False
      by (cases "Suc i < length (preorder t)") (simp_all add: search_result_def first_accepted_def split)
  qed
qed simp

text \<open>From the node behind a start node, or from the root for a negative start.\<close>

lemma search_after:
  assumes "represents fdt noff t" and "list_all regular (preorder t)" and "i < length (preorder t)"
  shows "do { (n, _) \<leftarrow> fdt_next_node fdt (node_offset fdt noff t i) None; loop fdt n } =
    Some (search_result fdt noff t (first_accepted accepts t (Suc i)))"
proof (cases "Suc i < length (preorder t)")
  case True
  then show ?thesis using next_node_tree [OF assms(1,3)] search [OF assms(1,2) True] by simp
next
  case False
  then have "first_accepted accepts t (Suc i) = None" by (simp add: first_accepted_def)
  moreover have "loop fdt (- FDT_ERR_NOTFOUND) = Some (- FDT_ERR_NOTFOUND)" by (intro at_end) (simp add: FDT_ERR_NOTFOUND_def)
  ultimately show ?thesis using next_node_tree [OF assms(1,3)] False by (simp add: search_result_def)
qed

lemma search_all:
  assumes "represents fdt noff t" and "list_all regular (preorder t)"
  shows "do { (n, _) \<leftarrow> fdt_next_node fdt (- 1) None; loop fdt n } =
    Some (search_result fdt noff t (first_accepted accepts t 0))"
proof -
  obtain s ps kids where t: "t = DtNode s ps kids" by (cases t)
  have toks: "tokens_at fdt 0 (flatten noff t @ [End])" using assms(1) by (simp add: represents_def)
  have "next_node_loop fdt 0 None = Some (seek 0 (flatten noff t @ [End]), None)"
    by (rule next_node_loop_seek [OF toks]) simp
  then have "fdt_next_node fdt (- 1) None = Some (0, None)" by (simp add: fdt_next_node_def t)
  moreover have "0 < length (preorder t)" by (simp add: t)
  ultimately show ?thesis using search [OF assms, of 0] tree_visits_0 [of fdt noff t] by simp
qed

end

section \<open>By the value of a property\<close>

definition has_value :: "u8 list \<Rightarrow> u8 list \<Rightarrow> dt_entry \<Rightarrow> bool" where
  "has_value name v e \<longleftrightarrow> map_of (snd e) name = Some v"

lemma holds_unique: "holds fdt p as \<Longrightarrow> holds fdt p bs \<Longrightarrow> length as = length bs \<Longrightarrow> as = bs"
  by (auto simp: holds_def intro: nth_equalityI)

lemma node_offset_nonneg:
  assumes "represents fdt noff t" "i < length (preorder t)"
  shows "0 \<le> node_offset fdt noff t i"
proof -
  obtain k us where "tree_visits fdt noff t ! i = (k, preorder t ! i)"
    "tokens_at fdt k (BeginNode (fst (preorder t ! i)) # us)" using tree_visit [OF assms] by metis
  then show ?thesis using tokens_at_off by force
qed

lemma prop_value_step:
  assumes "represents fdt noff t" "i < length (preorder t)"
  shows "prop_value_loop fdt name v (node_offset fdt noff t i) =
    (if has_value name v (preorder t ! i) then Some (node_offset fdt noff t i)
     else do { (n, _) \<leftarrow> fdt_next_node fdt (node_offset fdt noff t i) None; prop_value_loop fdt name v n })"
proof -
  obtain p len where p: "fdt_getprop fdt (node_offset fdt noff t i) name = Some (p, len)"
    "found fdt (map_of (snd (preorder t ! i)) name) (p, len)" using getprop_tree [OF assms, of name] by auto
  then have "(case p of None \<Rightarrow> False | Some p \<Rightarrow> len = int (length v) \<and> memcmp_eq fdt p v) \<longleftrightarrow>
      has_value name v (preorder t ! i)"
    by (auto simp: found_def has_value_def memcmp_eq_holds dest: holds_unique split: option.splits)
  then show ?thesis using node_offset_nonneg [OF assms] p(1) by (subst prop_value_loop.simps) simp
qed

interpretation by_value: node_search "\<lambda>fdt. prop_value_loop fdt name v" "has_value name v" "\<lambda>_. True" for name v
  by unfold_locales (simp_all add: prop_value_step, subst prop_value_loop.simps, simp)

section \<open>By the phandle\<close>

definition phandle_bytes :: "u8 list option \<Rightarrow> u32 option" where
  "phandle_bytes mv = (case mv of Some [a, b, c, d] \<Rightarrow> Some (le32 d c b a) | _ \<Rightarrow> None)"

definition entry_phandle :: "dt_entry \<Rightarrow> u32" where
  "entry_phandle e =
     (case phandle_bytes (map_of (snd e) (bytes ''phandle'')) of
        Some h \<Rightarrow> h
      | None \<Rightarrow> (case phandle_bytes (map_of (snd e) (bytes ''linux,phandle'')) of Some h \<Rightarrow> h | None \<Rightarrow> 0))"

lemma length_4: "length v = 4 \<longleftrightarrow> (\<exists>a b c d. v = [a, b, c, d])"
  by (auto simp: eval_nat_numeral length_Suc_conv)

lemma phandle_value_found: "found fdt mv r \<Longrightarrow> phandle_value fdt r = phandle_bytes mv"
  by (auto simp: found_def phandle_value_def phandle_bytes_def be32_def length_4 add.assoc
      split: option.splits prod.splits list.splits)

lemma get_phandle_tree:
  assumes "represents fdt noff t" "i < length (preorder t)"
  shows "fdt_get_phandle fdt (node_offset fdt noff t i) = Some (entry_phandle (preorder t ! i))"
proof -
  obtain r r' where "fdt_getprop fdt (node_offset fdt noff t i) (bytes ''phandle'') = Some r"
    "found fdt (map_of (snd (preorder t ! i)) (bytes ''phandle'')) r"
    "fdt_getprop fdt (node_offset fdt noff t i) (bytes ''linux,phandle'') = Some r'"
    "found fdt (map_of (snd (preorder t ! i)) (bytes ''linux,phandle'')) r'"
    using getprop_tree [OF assms] by metis
  then show ?thesis
    by (simp add: fdt_get_phandle_def entry_phandle_def phandle_value_found split: option.split)
qed

lemma phandle_step:
  assumes "represents fdt noff t" "i < length (preorder t)"
  shows "phandle_loop fdt h (node_offset fdt noff t i) =
    (if entry_phandle (preorder t ! i) = h then Some (node_offset fdt noff t i)
     else do { (n, _) \<leftarrow> fdt_next_node fdt (node_offset fdt noff t i) None; phandle_loop fdt h n })"
  using node_offset_nonneg [OF assms] get_phandle_tree [OF assms] by (subst phandle_loop.simps) simp

interpretation by_phandle: node_search "\<lambda>fdt. phandle_loop fdt h" "\<lambda>e. entry_phandle e = h" "\<lambda>_. True" for h
  by unfold_locales (simp_all add: phandle_step, subst phandle_loop.simps, simp)

section \<open>By a string in a list\<close>

text \<open>The terminated strings in a list of bytes.\<close>

fun strings_of :: "u8 list \<Rightarrow> u8 list \<Rightarrow> u8 list list" where
  "strings_of acc [] = []"
| "strings_of acc (c # cs) = (if c = 0 then acc # strings_of [] cs else strings_of (acc @ [c]) cs)"

abbreviation strlist :: "u8 list list \<Rightarrow> u8 list" where
  "strlist ss \<equiv> concat (map (\<lambda>s. s @ [0]) ss)"

definition is_strlist :: "u8 list \<Rightarrow> bool" where
  "is_strlist v \<longleftrightarrow> v = [] \<or> last v = 0"

lemma strings_of_strlist: "v \<noteq> [] \<Longrightarrow> last v = 0 \<Longrightarrow> strlist (strings_of acc v) = acc @ v"
proof (induction acc v rule: strings_of.induct)
  case (2 acc c cs)
  then show ?case by (cases "cs = []") auto
qed simp

lemma is_strlist_strings: "is_strlist v \<Longrightarrow> strlist (strings_of [] v) = v"
  using strings_of_strlist [of v "[]"] by (cases "v = []") (simp_all add: is_strlist_def)

lemma strings_of_nonzero: "0 \<notin> set acc \<Longrightarrow> s \<in> set (strings_of acc v) \<Longrightarrow> 0 \<notin> set s"
  by (induction acc v rule: strings_of.induct) (auto split: if_splits)

lemma memchr_string:
  assumes "holds fdt p (s @ [0])" "0 \<notin> set s" "int (length s) < n"
  shows "memchr_zero fdt p n = Some (length s)"
proof -
  have "fdt (p + int i) = s ! i" if "i < length s" for i
    using assms(1) that by (auto simp: holds_def nth_append dest!: spec [of _ i])
  then have "fdt (p + int i) \<noteq> 0" if "i < length s" for i using assms(2) that by (metis nth_mem)
  moreover have "fdt (p + int (length s)) = 0" using assms(1) by (simp add: holds_append)
  ultimately show ?thesis unfolding memchr_zero_def find_Some_iff
    using assms(3) by (intro exI [of _ "length s"]) auto
qed

lemma strlist_longer: "s \<in> set ss \<Longrightarrow> length s < length (strlist ss)"
  by (induction ss) auto

lemma stringlist_contains_strlist:
  assumes "holds fdt p (strlist ss)" "\<And>s. s \<in> set ss \<Longrightarrow> 0 \<notin> set s" "str \<noteq> []" "0 \<notin> set str"
  shows "fdt_stringlist_contains fdt p (int (length (strlist ss))) str \<longleftrightarrow> str \<in> set ss"
  using assms(1,2)
proof (induction ss arbitrary: p)
  case Nil
  then show ?case using assms(3) by (subst fdt_stringlist_contains.simps) simp
next
  case (Cons s ss)
  have s: "holds fdt p (s @ [0])" "0 \<notin> set s" "holds fdt (p + int (length s) + 1) (strlist ss)"
    using Cons.prems by (auto simp: holds_append add.assoc)
  have eq: "memcmp_eq fdt p (str @ [0]) \<longleftrightarrow> s = str"
    using holds_string_unique [OF s(1) _ s(2) assms(4)] s(1) by (auto simp: memcmp_eq_holds)
  have IH: "fdt_stringlist_contains fdt (p + int (length s) + 1) (int (length (strlist ss))) str \<longleftrightarrow> str \<in> set ss"
    using Cons.IH [OF s(3)] Cons.prems(2) by simp
  have short: "str \<notin> set (s # ss)" if "int (length (strlist (s # ss))) < int (length str)"
    using that strlist_longer [of str "s # ss"] by auto
  show ?case
    using eq IH short memchr_string [OF s(1,2), of "int (length (strlist (s # ss)))"]
    by (subst fdt_stringlist_contains.simps) (auto simp: algebra_simps)
qed

definition compatible_with :: "u8 list \<Rightarrow> dt_entry \<Rightarrow> bool" where
  "compatible_with str e \<longleftrightarrow>
     (case map_of (snd e) (bytes ''compatible'') of None \<Rightarrow> False | Some v \<Rightarrow> str \<in> set (strings_of [] v))"

definition regular_compatible :: "dt_entry \<Rightarrow> bool" where
  "regular_compatible e \<longleftrightarrow>
     (case map_of (snd e) (bytes ''compatible'') of None \<Rightarrow> True | Some v \<Rightarrow> is_strlist v)"

lemma check_compatible_tree:
  assumes "represents fdt noff t" "i < length (preorder t)" "regular_compatible (preorder t ! i)" "str \<noteq> []" "0 \<notin> set str"
  shows "\<exists>r. fdt_node_check_compatible fdt (node_offset fdt noff t i) str = Some r \<and>
    (if compatible_with str (preorder t ! i) then r = 0 else r = 1 \<or> r = - FDT_ERR_NOTFOUND)"
proof -
  let ?mv = "map_of (snd (preorder t ! i)) (bytes ''compatible'')"
  obtain p len where p: "fdt_getprop fdt (node_offset fdt noff t i) (bytes ''compatible'') = Some (p, len)"
    "found fdt ?mv (p, len)" using getprop_tree [OF assms(1,2), of "bytes ''compatible''"] by auto
  show ?thesis
  proof (cases ?mv)
    case None
    then show ?thesis using p by (simp add: fdt_node_check_compatible_def compatible_with_def found_def)
  next
    case (Some v)
    then obtain q where q: "p = Some q" "len = int (length v)" "holds fdt q v" using p(2) by (auto simp: found_def)
    have v: "strlist (strings_of [] v) = v" using assms(3) Some by (simp add: regular_compatible_def is_strlist_strings)
    have "fdt_stringlist_contains fdt q (int (length (strlist (strings_of [] v)))) str \<longleftrightarrow> str \<in> set (strings_of [] v)"
      by (rule stringlist_contains_strlist) (use q(3) v assms(4,5) strings_of_nonzero [of "[]"] in auto)
    then show ?thesis using p(1) q(1,2) Some v
      by (simp add: fdt_node_check_compatible_def compatible_with_def)
  qed
qed

lemma compatible_step:
  assumes "represents fdt noff t" "i < length (preorder t)" "regular_compatible (preorder t ! i)" "str \<noteq> []" "0 \<notin> set str"
  shows "compatible_loop fdt str (node_offset fdt noff t i) =
    (if compatible_with str (preorder t ! i) then Some (node_offset fdt noff t i)
     else do { (n, _) \<leftarrow> fdt_next_node fdt (node_offset fdt noff t i) None; compatible_loop fdt str n })"
proof -
  obtain r where "fdt_node_check_compatible fdt (node_offset fdt noff t i) str = Some r"
    "if compatible_with str (preorder t ! i) then r = 0 else r = 1 \<or> r = - FDT_ERR_NOTFOUND"
    using check_compatible_tree [OF assms] by blast
  then show ?thesis using node_offset_nonneg [OF assms(1,2)]
    by (subst compatible_loop.simps) (auto simp: FDT_ERR_NOTFOUND_def split: if_splits)
qed

lemma compatible_search:
  assumes "str \<noteq> []" "0 \<notin> set str"
  shows "node_search (\<lambda>fdt. compatible_loop fdt str) (compatible_with str) regular_compatible"
  by unfold_locales (simp_all add: compatible_step assms, subst compatible_loop.simps, simp)

section \<open>Properties\<close>

text \<open>
  The search by a property gives the first node behind the start, in preorder, whose property has
  exactly this value.
\<close>

theorem by_prop_value_first:
  assumes "represents fdt noff t" and "i < length (preorder t)"
  shows "fdt_node_offset_by_prop_value fdt (node_offset fdt noff t i) name v =
    Some (search_result fdt noff t (first_accepted (has_value name v) t (Suc i)))"
  using by_value.search_after [OF assms(1) _ assms(2)] assms(1)
  by (simp add: fdt_node_offset_by_prop_value_def represents_def list_all_iff)

text \<open>
  The search by a phandle gives the first node of the tree with this phandle, which is the value of
  \<open>phandle\<close> or, when that is not a word, of \<open>linux,phandle\<close>.
\<close>

theorem by_phandle_first:
  assumes "represents fdt noff t" and "h \<noteq> 0" and "h \<noteq> - 1"
  shows "fdt_node_offset_by_phandle fdt h =
    Some (search_result fdt noff t (first_accepted (\<lambda>e. entry_phandle e = h) t 0))"
  using by_phandle.search_all [OF assms(1)] assms
  by (simp add: fdt_node_offset_by_phandle_def represents_def list_all_iff)

text \<open>
  C21. Looking for a compatible node. On a blob that holds a tree whose \<open>compatible\<close> properties are
  lists of terminated strings, the search gives the first node behind the start node, in preorder,
  whose list has the string, or \<open>-FDT_ERR_NOTFOUND\<close> when there is none.
\<close>

theorem by_compatible_first:
  assumes "represents fdt noff t" and "list_all regular_compatible (preorder t)" and "i < length (preorder t)"
    and "str \<noteq> []" and "0 \<notin> set str"
  shows "fdt_node_offset_by_compatible fdt (node_offset fdt noff t i) str =
    Some (search_result fdt noff t (first_accepted (compatible_with str) t (Suc i)))"
  using node_search.search_after [OF compatible_search [OF assms(4,5)] assms(1,2,3)] assms(1)
  by (simp add: fdt_node_offset_by_compatible_def represents_def)

theorem by_compatible_first_witness:
  "fdt_node_offset_by_compatible demo_fdt 0 (bytes ''altr,pr-ip-core'') =
     Some (node_offset demo_fdt demo_noff demo_tree 1)"
proof -
  let ?str = "bytes ''altr,pr-ip-core''"
  have reg: "list_all regular_compatible (preorder demo_tree)"
    by (simp add: demo_tree_def regular_compatible_def is_strlist_def)
  have str: "?str \<noteq> []" "0 \<notin> set ?str" by (simp_all add: bytes_def)
  have "first_accepted (compatible_with ?str) demo_tree (Suc 0) = Some 1"
    by (simp add: first_accepted_def demo_tree_def compatible_with_def bytes_def)
  then show ?thesis
    using by_compatible_first [OF demo_represents reg _ str, of 0] tree_visits_0 [of demo_fdt demo_noff demo_tree]
    by (simp add: demo_tree_def search_result_def)
qed

end
