(* ===== verification/Fdt_Path.thy ===== *)
theory Fdt_Path
  imports Fdt_Search
begin

text \<open>
  Paths and ancestors in a blob that holds a tree. The loops of \<open>fdt_ro.c\<close> that follow the depth
  (over subnodes, for the path and for the ancestor of a node) are shown to do what a recursion on
  the tree does; this refinement is proved once, in a locale. The rest is about trees.
\<close>

section \<open>Recursion on a tree in the order of the walk\<close>

text \<open>
  \<open>body name off d st\<close> is what a loop does at a node: it ends with a result, or goes on with a state.
\<close>

type_synonym ('st, 'r) visit_body = "u8 list \<Rightarrow> int \<Rightarrow> int \<Rightarrow> 'st \<Rightarrow> 'r option + 'st"

abbreviation enc_len :: "fdt_token list \<Rightarrow> int" where
  "enc_len ts \<equiv> int (length (encs ts))"

definition head_tokens :: "(u8 list \<Rightarrow> u32) \<Rightarrow> u8 list \<Rightarrow> (u8 list \<times> u8 list) list \<Rightarrow> fdt_token list" where
  "head_tokens noff s ps = BeginNode s # map (\<lambda>(k, v). Prop (noff k) v) ps"

fun walk_node :: "('st, 'r) visit_body \<Rightarrow> (u8 list \<Rightarrow> u32) \<Rightarrow> int \<Rightarrow> int \<Rightarrow> dt_node \<Rightarrow> 'st \<Rightarrow> 'r option + 'st"
  and walk_nodes :: "('st, 'r) visit_body \<Rightarrow> (u8 list \<Rightarrow> u32) \<Rightarrow> int \<Rightarrow> int \<Rightarrow> dt_node list \<Rightarrow> 'st \<Rightarrow> 'r option + 'st" where
  "walk_node body noff off d (DtNode s ps kids) st =
     (case body s off d st of
        Inl r \<Rightarrow> Inl r
      | Inr st' \<Rightarrow> walk_nodes body noff (off + enc_len (head_tokens noff s ps)) (d + 1) kids st')"
| "walk_nodes body noff off d [] st = Inr st"
| "walk_nodes body noff off d (n # ns) st =
     (case walk_node body noff off d n st of
        Inl r \<Rightarrow> Inl r
      | Inr st' \<Rightarrow> walk_nodes body noff (off + enc_len (flatten noff n)) d ns st')"

lemma flatten_head: "flatten noff (DtNode s ps kids) = head_tokens noff s ps @ concat (map (flatten noff) kids) @ [EndNode]"
  by (simp add: head_tokens_def)

lemma enc_len_flatten:
  "enc_len (flatten noff (DtNode s ps kids)) = enc_len (head_tokens noff s ps) + enc_len (concat (map (flatten noff) kids)) + 4"
  by (simp add: flatten_head length_enc del: flatten.simps)

lemma tokens_at_append:
  "tokens_at fdt off (ts @ us) \<Longrightarrow> tokens_at fdt (off + enc_len ts) us"
proof (induction ts arbitrary: off)
  case (Cons t ts)
  then show ?case using tokens_at_tl [of fdt off t "ts @ us"] by (simp add: add.assoc [symmetric])
qed simp

lemma tokens_at_nonneg: "tokens_at fdt off ts \<Longrightarrow> 0 \<le> off"
  by (simp add: tokens_at_def)

locale depth_walk =
  fixes fdt :: blob
    and loop :: "int \<Rightarrow> int \<Rightarrow> 'st \<Rightarrow> 'r option"
    and body :: "('st, 'r) visit_body"
  assumes at_node: "tokens_at fdt off (BeginNode s # ts) \<Longrightarrow> 0 \<le> d \<Longrightarrow>
    loop off d st = (case body s off d st of
        Inl r \<Rightarrow> r
      | Inr st' \<Rightarrow> do { (off', d') \<leftarrow> fdt_next_node fdt off (Some d); loop off' (the d') st' })"
begin

text \<open>The loop from the token at \<open>off\<close> on, where the depth is \<open>d\<close>.\<close>

definition resume :: "int \<Rightarrow> int \<Rightarrow> 'st \<Rightarrow> 'r option" where
  "resume off d st = do { (off', d') \<leftarrow> next_node_loop fdt off (Some d); loop off' (the d') st }"

lemma loop_resume:
  assumes "tokens_at fdt off (BeginNode s # ts)" "0 \<le> d"
  shows "loop off d st = (case body s off d st of
      Inl r \<Rightarrow> r
    | Inr st' \<Rightarrow> resume (off + enc_len [BeginNode s]) d st')"
  using at_node [OF assms] check_node_token [OF assms(1)] tokens_at_nonneg [OF assms(1)]
    tokens_at_nonneg [OF tokens_at_tl [OF assms(1)]]
  by (simp add: fdt_next_node_def resume_def not_less split: sum.split)

lemma resume_begin:
  assumes "tokens_at fdt off (BeginNode s # ts)" "0 \<le> d" "d \<le> off"
  shows "resume off d st = loop off (d + 1) st"
  using assms tokens_at_small [OF assms(1)]
  by (simp add: resume_def next_node_loop.simps [of fdt off] next_tag_token [OF assms(1)] tag_neqs c_int_id)

lemma resume_props:
  "tokens_at fdt off (map (\<lambda>(k, v). Prop (noff k) v) ps @ ts) \<Longrightarrow>
   resume off d st = resume (off + enc_len (map (\<lambda>(k, v). Prop (noff k) v) ps)) d st"
proof (induction ps arbitrary: off)
  case (Cons p ps)
  obtain k v where p: "p = (k, v)" by (cases p)
  let ?t = "Prop (noff k) v"
  note at = Cons.prems [unfolded p, simplified]
  have "resume off d st = resume (off + enc_len [?t]) d st"
    by (simp add: resume_def next_node_loop.simps [of fdt off] next_tag_token [OF at] tag_neqs)
  with Cons.IH [OF tokens_at_tl [OF at]] show ?case by (simp add: p add.assoc)
qed simp

lemma resume_end:
  assumes "tokens_at fdt off (EndNode # ts)" "0 \<le> d" "d \<le> off"
  shows "resume off d st = (if d = 0 then loop (off + 4) (- 1) st else resume (off + 4) (d - 1) st)"
  using assms tokens_at_small [OF assms(1)]
  by (simp add: resume_def next_node_loop.simps [of fdt off] next_tag_token [OF assms(1)] tag_neqs c_int_id length_enc)

lemma resume_nodes:
  assumes "\<And>n off d st ts. n \<in> set ns \<Longrightarrow> tokens_at fdt off (flatten noff n @ ts) \<Longrightarrow> 0 \<le> d \<Longrightarrow> d \<le> off \<Longrightarrow>
      resume off d st = (case walk_node body noff off (d + 1) n st of
        Inl r \<Rightarrow> r | Inr st' \<Rightarrow> resume (off + enc_len (flatten noff n)) d st')"
    and "tokens_at fdt off (concat (map (flatten noff) ns) @ ts)" "0 \<le> d" "d \<le> off"
  shows "resume off d st = (case walk_nodes body noff off (d + 1) ns st of
      Inl r \<Rightarrow> r | Inr st' \<Rightarrow> resume (off + enc_len (concat (map (flatten noff) ns))) d st')"
  using assms
proof (induction ns arbitrary: off st)
  case (Cons n ns)
  let ?off = "off + enc_len (flatten noff n)"
  have at: "tokens_at fdt off (flatten noff n @ concat (map (flatten noff) ns) @ ts)" using Cons.prems(2) by simp
  have "resume ?off d st' = (case walk_nodes body noff ?off (d + 1) ns st' of
      Inl r \<Rightarrow> r | Inr st' \<Rightarrow> resume (?off + enc_len (concat (map (flatten noff) ns))) d st')" for st'
    using Cons.prems tokens_at_append [OF at] by (intro Cons.IH) auto
  then show ?case using Cons.prems(1) [OF _ at Cons.prems(3,4), of st]
    by (auto simp: add.assoc split: sum.splits)
qed simp

lemma resume_node:
  "tokens_at fdt off (flatten noff n @ ts) \<Longrightarrow> 0 \<le> d \<Longrightarrow> d \<le> off \<Longrightarrow>
   resume off d st = (case walk_node body noff off (d + 1) n st of
     Inl r \<Rightarrow> r | Inr st' \<Rightarrow> resume (off + enc_len (flatten noff n)) d st')"
proof (induction n arbitrary: off d st ts)
  case (DtNode s ps kids)
  let ?h = "off + enc_len (head_tokens noff s ps)"
  let ?e = "?h + enc_len (concat (map (flatten noff) kids))"
  have at: "tokens_at fdt off (BeginNode s # map (\<lambda>(k, v). Prop (noff k) v) ps @
      concat (map (flatten noff) kids) @ EndNode # ts)" using DtNode.prems(1) by simp
  have h: "tokens_at fdt ?h (concat (map (flatten noff) kids) @ EndNode # ts)"
    using tokens_at_append [of fdt off "head_tokens noff s ps"] at by (simp add: head_tokens_def)
  have e: "tokens_at fdt ?e (EndNode # ts)" using tokens_at_append [OF h] by simp
  have le: "d + 1 \<le> ?h" "d + 1 \<le> ?e" using DtNode.prems(3) by (simp_all add: head_tokens_def length_enc)
  have "resume off d st = (case body s off (d + 1) st of Inl r \<Rightarrow> r | Inr st' \<Rightarrow> resume ?h (d + 1) st')"
    using resume_begin [OF at DtNode.prems(2,3)] loop_resume [OF at, of "d + 1"] DtNode.prems(2)
      resume_props [OF tokens_at_tl [OF at]]
    by (simp add: head_tokens_def add.assoc split: sum.splits)
  moreover have "resume ?h (d + 1) st' = (case walk_nodes body noff ?h (d + 1 + 1) kids st' of
      Inl r \<Rightarrow> r | Inr st' \<Rightarrow> resume ?e (d + 1) st')" for st'
    using DtNode.prems(2) h le by (intro resume_nodes DtNode.IH) auto
  moreover have "resume ?e (d + 1) st' = resume (?e + 4) d st'" for st'
    using resume_end [OF e _ le(2)] DtNode.prems(2) by simp
  moreover have "?e + 4 = off + enc_len (flatten noff (DtNode s ps kids))"
    by (simp only: enc_len_flatten)
  ultimately show ?case by (auto split: sum.splits)
qed

text \<open>The whole loop, started at a node with depth 0: behind the node the depth is \<open>- 1\<close>.\<close>

lemma loop_node:
  assumes "tokens_at fdt off (flatten noff n @ ts)"
  shows "loop off 0 st = (case walk_node body noff off 0 n st of
    Inl r \<Rightarrow> r | Inr st' \<Rightarrow> loop (off + enc_len (flatten noff n)) (- 1) st')"
proof (cases n)
  case (DtNode s ps kids)
  let ?h = "off + enc_len (head_tokens noff s ps)"
  let ?e = "?h + enc_len (concat (map (flatten noff) kids))"
  have at: "tokens_at fdt off (BeginNode s # map (\<lambda>(k, v). Prop (noff k) v) ps @
      concat (map (flatten noff) kids) @ EndNode # ts)" using assms DtNode by simp
  have h: "tokens_at fdt ?h (concat (map (flatten noff) kids) @ EndNode # ts)"
    using tokens_at_append [of fdt off "head_tokens noff s ps"] at by (simp add: head_tokens_def)
  note e = tokens_at_append [OF h]
  have "loop off 0 st = (case body s off 0 st of Inl r \<Rightarrow> r | Inr st' \<Rightarrow> resume ?h 0 st')"
    using loop_resume [OF at, of 0] resume_props [OF tokens_at_tl [OF at]]
    by (simp add: head_tokens_def add.assoc split: sum.splits)
  moreover have "resume ?h 0 st' = (case walk_nodes body noff ?h (0 + 1) kids st' of
      Inl r \<Rightarrow> r | Inr st' \<Rightarrow> resume ?e 0 st')" for st'
    using h tokens_at_nonneg [OF h] by (intro resume_nodes resume_node) auto
  moreover have "resume ?e 0 st' = loop (?e + 4) (- 1) st'" for st'
    using resume_end [OF e] tokens_at_nonneg [OF e] by simp
  moreover have "?e + 4 = off + enc_len (flatten noff n)"
    by (simp only: enc_len_flatten DtNode)
  ultimately show ?thesis by (auto simp: DtNode split: sum.splits)
qed

end

section \<open>Subnodes\<close>

text \<open>A name without a unit address also stands for a name with one.\<close>

definition node_matches :: "u8 list \<Rightarrow> u8 list \<Rightarrow> bool" where
  "node_matches name s \<longleftrightarrow> s = name \<or> AT \<notin> set name \<and> take (length name + 1) s = name @ [AT]"

lemma holds_prefix:
  assumes "holds fdt p (s @ [0])" "holds fdt p name" "0 \<notin> set name"
  shows "name = take (length name) s" "fdt (p + int (length name)) = (s @ [0]) ! length name"
proof -
  have le: "length name \<le> length s"
  proof (rule ccontr)
    assume "\<not> length name \<le> length s"
    then have "name ! length s = 0" "length s < length name"
      using assms(1,2) by (auto simp: holds_def nth_append dest!: spec [of _ "length s"])
    then show False using assms(3) by (metis nth_mem)
  qed
  then show "name = take (length name) s" using assms(1,2)
    by (intro nth_equalityI) (auto simp: holds_def nth_append)
  show "fdt (p + int (length name)) = (s @ [0]) ! length name"
    using assms(1) le by (auto simp: holds_def dest!: spec [of _ "length name"])
qed

lemma nodename_eq_token:
  assumes "tokens_at fdt off (BeginNode s # ts)" "0 \<notin> set name" "length name < 2 ^ 31 - 1"
  shows "fdt_nodename_eq fdt off name \<longleftrightarrow> node_matches name s"
proof -
  let ?p = "raw_fdt_offset_ptr fdt (off + 4)" and ?n = "length name"
  have s: "0 \<notin> set s" "holds fdt ?p (s @ [0])" and off: "0 \<le> off" "off < 2 ^ 31 - 8"
    and fits: "off + 4 + int (length s) + 1 \<le> struct_size fdt"
    using assms(1) tokens_at_small [OF assms(1)]
    by (auto simp: tokens_at_def enc_def pad4_def holds_append raw_add)
  have off4: "c_int (off + FDT_TAGSIZE) = off + 4" using off by (simp add: c_int_id FDT_TAGSIZE_def)
  have len: "uint (word_of_int (int ?n + 1) :: u32) = int ?n + 1" using assms(3) by (intro uint_u32_small) auto
  have some: "fdt_offset_ptr fdt (off + 4) (word_of_int (int ?n + 1)) \<in> {None, Some ?p}"
    by (simp add: fdt_offset_ptr_def Let_def)
  show ?thesis
  proof
    assume "fdt_nodename_eq fdt off name"
    then have h: "holds fdt ?p name" "let c = fdt (?p + int ?n) in c = 0 \<or> AT \<notin> set name \<and> c = AT"
      using some by (auto simp: fdt_nodename_eq_def off4 memcmp_eq_holds split: option.splits)
    note pre = holds_prefix [OF s(2) h(1) assms(2)]
    then have le: "?n \<le> length s" by (metis length_take min.cobounded1)
    show "node_matches name s"
    proof (cases "?n = length s")
      case True
      then show ?thesis using pre(1) by (simp add: node_matches_def)
    next
      case False
      then have c: "fdt (?p + int ?n) = s ! ?n" "?n < length s" using pre(2) le by (auto simp: nth_append)
      then have "s ! ?n \<noteq> 0" using s(1) by (metis nth_mem)
      then show ?thesis using h(2) c pre(1) by (simp add: node_matches_def take_Suc_conv_app_nth Let_def)
    qed
  next
    assume m: "node_matches name s"
    have le: "?n \<le> length s" "s = name \<or> ?n < length s \<and> s ! ?n = AT \<and> AT \<notin> set name" "take ?n s = name"
    proof -
      have "?n < length s \<and> s ! ?n = AT \<and> take ?n s = name" if "take (?n + 1) s = name @ [AT]"
      proof -
        have "length (take (?n + 1) s) = ?n + 1" using that by simp
        then have "?n < length s" by simp
        then show ?thesis using that by (simp add: take_Suc_conv_app_nth)
      qed
      with m show "?n \<le> length s" "s = name \<or> ?n < length s \<and> s ! ?n = AT \<and> AT \<notin> set name" "take ?n s = name"
        by (auto simp: node_matches_def)
    qed
    have "off + 4 + uint (word_of_int (int ?n + 1) :: u32) \<le> struct_size fdt"
      unfolding len using le(1) fits by linarith
    then have "fdt_offset_ptr fdt (off + 4) (word_of_int (int ?n + 1)) = Some ?p"
      using off by (intro fdt_offset_ptr_in) simp_all
    moreover have "holds fdt ?p name"
      using s(2) le(1,3) append_take_drop_id [of ?n s] by (metis holds_append append.assoc)
    moreover have "fdt (?p + int ?n) = (s @ [0]) ! ?n" using s(2) le(1) by (auto simp: holds_def dest!: spec [of _ ?n])
    ultimately show "fdt_nodename_eq fdt off name"
      using le(1,2) by (auto simp: fdt_nodename_eq_def off4 memcmp_eq_holds nth_append Let_def)
  qed
qed

definition subnode_body :: "u8 list \<Rightarrow> (unit, int) visit_body" where
  "subnode_body name s off d st = (if d = 1 \<and> node_matches name s then Inl (Some off) else Inr ())"

lemma subnode_walk:
  assumes "0 \<notin> set name" "length name < 2 ^ 31 - 1"
  shows "depth_walk fdt (\<lambda>off d _. subnode_loop fdt off d name) (subnode_body name)"
proof (unfold_locales, goal_cases)
  case (1 off s ts d st)
  then show ?case
    using nodename_eq_token [OF 1(1) assms] tokens_at_nonneg [OF 1(1)]
    by (subst subnode_loop.simps) (simp add: subnode_body_def)
qed

text \<open>The offset of the kid with number \<open>i\<close>, and the first kid with a matching name.\<close>

definition kid_offset :: "(u8 list \<Rightarrow> u32) \<Rightarrow> int \<Rightarrow> dt_node \<Rightarrow> nat \<Rightarrow> int" where
  "kid_offset noff k n i =
     (case n of DtNode s ps kids \<Rightarrow>
        k + enc_len (head_tokens noff s ps) + enc_len (concat (map (flatten noff) (take i kids))))"

fun node_name :: "dt_node \<Rightarrow> u8 list" where "node_name (DtNode s ps kids) = s"
fun node_kids :: "dt_node \<Rightarrow> dt_node list" where "node_kids (DtNode s ps kids) = kids"

definition matching_kid :: "u8 list \<Rightarrow> dt_node \<Rightarrow> nat option" where
  "matching_kid name n =
     find (\<lambda>i. node_matches name (node_name (node_kids n ! i))) [0..<length (node_kids n)]"

lemma subnode_deep:
  "1 < d \<Longrightarrow> walk_node (subnode_body name) noff off d n st = Inr ()"
  "1 < d \<Longrightarrow> walk_nodes (subnode_body name) noff off d ns st = Inr ()"
  by (induction "subnode_body name" noff off d n st and "subnode_body name" noff off d ns st
      rule: walk_node_walk_nodes.induct) (auto simp: subnode_body_def)

lemma find_upt_Suc: "find P [0..<Suc n] = (if P 0 then Some 0 else map_option Suc (find (\<lambda>i. P (Suc i)) [0..<n]))"
proof -
  have "find P (map Suc is) = map_option Suc (find (\<lambda>i. P (Suc i)) is)" for "is" by (induction "is") auto
  then show ?thesis by (simp add: upt_conv_Cons map_Suc_upt [symmetric] del: upt_Suc map_Suc_upt)
qed

lemma subnode_kids:
  "walk_nodes (subnode_body name) noff off 1 kids st =
    (case find (\<lambda>i. node_matches name (node_name (kids ! i))) [0..<length kids] of
       None \<Rightarrow> Inr st
     | Some i \<Rightarrow> Inl (Some (off + enc_len (concat (map (flatten noff) (take i kids))))))"
proof (induction kids arbitrary: off st)
  case (Cons n ns)
  obtain s ps kids where n: "n = DtNode s ps kids" by (cases n)
  show ?case
  proof (cases "node_matches name s")
    case True
    then show ?thesis by (simp add: n subnode_body_def find_upt_Suc del: upt_Suc)
  next
    case False
    then have "walk_node (subnode_body name) noff off 1 n st = Inr ()"
      by (simp add: n subnode_body_def subnode_deep)
    moreover have "node_name n = s" by (simp add: n)
    ultimately show ?thesis using False Cons.IH [of "off + enc_len (flatten noff n)" "()"]
      by (simp add: find_upt_Suc add.assoc del: upt_Suc split: option.splits)
  qed
qed simp

lemma subnode_offset_tree:
  assumes "fdt_check_header fdt = 0" "tokens_at fdt k (flatten noff n @ ts)" "0 \<notin> set name" "length name < 2 ^ 31 - 1"
  shows "fdt_subnode_offset_namelen fdt k name = Some (case matching_kid name n of
    None \<Rightarrow> - FDT_ERR_NOTFOUND | Some i \<Rightarrow> kid_offset noff k n i)"
proof -
  obtain s ps kids where n: "n = DtNode s ps kids" by (cases n)
  have "subnode_loop fdt off (- 1) name = Some (- FDT_ERR_NOTFOUND)" for off by (subst subnode_loop.simps) simp
  then show ?thesis using depth_walk.loop_node [OF subnode_walk [OF assms(3,4)] assms(2), of "()"] assms(1)
    by (simp add: fdt_subnode_offset_namelen_def n subnode_body_def subnode_kids matching_kid_def kid_offset_def
        split: option.splits)
qed

section \<open>Nodes by their position\<close>

text \<open>A position is the list of the numbers of the kids on the way down from the root.\<close>

fun locate :: "(u8 list \<Rightarrow> u32) \<Rightarrow> int \<Rightarrow> dt_node \<Rightarrow> nat list \<Rightarrow> (int \<times> dt_node) option" where
  "locate noff k n [] = Some (k, n)"
| "locate noff k n (i # is) =
     (if i < length (node_kids n) then locate noff (kid_offset noff k n i) (node_kids n ! i) is else None)"

fun names_to :: "dt_node \<Rightarrow> nat list \<Rightarrow> u8 list list" where
  "names_to n [] = [node_name n]"
| "names_to n (i # is) = node_name n # names_to (node_kids n ! i) is"

lemma tokens_at_kid:
  assumes "tokens_at fdt k (flatten noff n @ ts)" "i < length (node_kids n)"
  shows "tokens_at fdt (kid_offset noff k n i)
    (flatten noff (node_kids n ! i) @ concat (map (flatten noff) (drop (Suc i) (node_kids n))) @ EndNode # ts)"
proof -
  obtain s ps kids where n: "n = DtNode s ps kids" by (cases n)
  have kids: "kids = take i kids @ kids ! i # drop (Suc i) kids" using assms(2) by (simp add: n id_take_nth_drop)
  have "concat (map (flatten noff) kids) = concat (map (flatten noff) (take i kids)) @ flatten noff (kids ! i) @
      concat (map (flatten noff) (drop (Suc i) kids))" by (subst kids) simp
  then have "flatten noff n @ ts = (head_tokens noff s ps @ concat (map (flatten noff) (take i kids))) @
      flatten noff (kids ! i) @ concat (map (flatten noff) (drop (Suc i) kids)) @ EndNode # ts"
    by (simp only: n flatten_head append_assoc append_Cons append_Nil)
  with assms(1) tokens_at_append show ?thesis
    by (metis (no_types, lifting) n kid_offset_def dt_node.case node_kids.simps map_append concat_append length_append
        of_nat_add add.assoc)
qed

lemma tokens_at_locate:
  "tokens_at fdt k (flatten noff n @ ts) \<Longrightarrow> locate noff k n is = Some (k', n') \<Longrightarrow>
   \<exists>us. tokens_at fdt k' (flatten noff n' @ us)"
  by (induction noff k n "is" arbitrary: ts rule: locate.induct)
    (auto split: if_splits dest: tokens_at_kid)

section \<open>Paths\<close>

fun resolve :: "(u8 list \<Rightarrow> u32) \<Rightarrow> int \<Rightarrow> dt_node \<Rightarrow> u8 list list \<Rightarrow> int" where
  "resolve noff k n [] = k"
| "resolve noff k n (c # cs) =
     (case matching_kid c n of
        None \<Rightarrow> - FDT_ERR_NOTFOUND
      | Some i \<Rightarrow> resolve noff (kid_offset noff k n i) (node_kids n ! i) cs)"

definition path_part :: "u8 list \<Rightarrow> bool" where
  "path_part c \<longleftrightarrow> c \<noteq> [] \<and> SLASH \<notin> set c \<and> 0 \<notin> set c \<and> length c < 2 ^ 31 - 1"

abbreviation path_of :: "u8 list list \<Rightarrow> u8 list" where
  "path_of cs \<equiv> concat (map (\<lambda>c. SLASH # c) cs)"

lemma matching_kid_less: "matching_kid name n = Some i \<Longrightarrow> i < length (node_kids n)"
  by (auto simp: matching_kid_def find_Some_iff)

lemma path_split:
  assumes "path_part c"
  shows "dropWhile (\<lambda>b. b = SLASH) (SLASH # c @ path_of cs) = c @ path_of cs"
    "takeWhile (\<lambda>b. b \<noteq> SLASH) (c @ path_of cs) = c" "dropWhile (\<lambda>b. b \<noteq> SLASH) (c @ path_of cs) = path_of cs"
proof -
  have c: "c \<noteq> []" "\<And>b. b \<in> set c \<Longrightarrow> b \<noteq> SLASH" using assms by (auto simp: path_part_def)
  then show "dropWhile (\<lambda>b. b = SLASH) (SLASH # c @ path_of cs) = c @ path_of cs" by (cases c) auto
  show "takeWhile (\<lambda>b. b \<noteq> SLASH) (c @ path_of cs) = c" and "dropWhile (\<lambda>b. b \<noteq> SLASH) (c @ path_of cs) = path_of cs"
    using c(2) by (cases cs; simp add: takeWhile_append dropWhile_append)+
qed

lemma path_loop_resolve:
  assumes "fdt_check_header fdt = 0" "tokens_at fdt k (flatten noff n @ ts)" "\<forall>c \<in> set cs. path_part c"
  shows "path_loop fdt k (path_of cs) = Some (resolve noff k n cs)"
  using assms(2,3)
proof (induction cs arbitrary: k n ts)
  case Nil
  then show ?case by (subst path_loop.simps) simp
next
  case (Cons c cs)
  have c: "path_part c" using Cons.prems by simp
  then have sub: "fdt_subnode_offset_namelen fdt k c = Some (case matching_kid c n of
      None \<Rightarrow> - FDT_ERR_NOTFOUND | Some i \<Rightarrow> kid_offset noff k n i)"
    using subnode_offset_tree [OF assms(1) Cons.prems(1)] by (simp add: path_part_def)
  have run: "path_loop fdt k (path_of (c # cs)) = do {
      off \<leftarrow> fdt_subnode_offset_namelen fdt k c;
      if off < 0 then Some off else path_loop fdt off (path_of cs) }"
  proof -
    have "path_of (c # cs) = SLASH # c @ path_of cs" "c @ path_of cs \<noteq> []" using c by (simp_all add: path_part_def)
    then show ?thesis
      by (subst path_loop.simps) (simp only: path_split [OF c] Let_def if_False)
  qed
  show ?case
  proof (cases "matching_kid c n")
    case None
    then show ?thesis using run sub by (simp add: FDT_ERR_NOTFOUND_def)
  next
    case (Some i)
    note kid = tokens_at_kid [OF Cons.prems(1) matching_kid_less [OF Some]]
    show ?thesis using run sub Some Cons.IH [OF kid] Cons.prems(2) tokens_at_nonneg [OF kid] by simp
  qed
qed

lemma path_offset_resolve:
  assumes "represents fdt noff t" "\<forall>c \<in> set cs. path_part c" "cs \<noteq> []"
  shows "fdt_path_offset fdt (path_of cs) = Some (resolve noff 0 t cs)"
proof -
  have "fdt_check_header fdt = 0" "tokens_at fdt 0 (flatten noff t @ [End])" using assms(1) by (simp_all add: represents_def)
  from path_loop_resolve [OF this assms(2)] this(1) show ?thesis
    using assms(3) by (subst fdt_path_offset.simps) (cases cs; simp)
qed

end
