(* ===== verification/Fdt_Anc.thy ===== *)
theory Fdt_Anc
  imports Fdt_Path
begin

text \<open>
  The ancestors and the path of a node of a tree in a blob, and the round trip between a node and its
  path.
\<close>

section \<open>Walking up to a target\<close>

lemma walk_nodes_append:
  "walk_nodes body noff off d (as @ bs) st =
    (case walk_nodes body noff off d as st of
       Inl r \<Rightarrow> Inl r
     | Inr st' \<Rightarrow> walk_nodes body noff (off + enc_len (concat (map (flatten noff) as))) d bs st')"
  by (induction as arbitrary: off st) (auto simp: add.assoc split: sum.splits)

lemma enc_len_positive: "8 \<le> enc_len (flatten noff n)"
  by (cases n) (simp add: length_enc)

lemma kid_offset_bounds:
  assumes "i < length (node_kids n)"
  shows "k < kid_offset noff k n i"
    "kid_offset noff k n i + enc_len (flatten noff (node_kids n ! i)) \<le> k + enc_len (flatten noff n)"
proof -
  obtain s ps kids where n: "n = DtNode s ps kids" by (cases n)
  show "k < kid_offset noff k n i" by (simp add: kid_offset_def n head_tokens_def length_enc)
  have "kids = take i kids @ kids ! i # drop (Suc i) kids" using assms by (simp add: n id_take_nth_drop)
  then have "enc_len (concat (map (flatten noff) kids)) = enc_len (concat (map (flatten noff) (take i kids))) +
      enc_len (flatten noff (kids ! i)) + enc_len (concat (map (flatten noff) (drop (Suc i) kids)))"
    by (metis (no_types, lifting) concat.simps(2) concat_append length_append list.simps(9) map_append of_nat_add add.assoc)
  then show "kid_offset noff k n i + enc_len (flatten noff (node_kids n ! i)) \<le> k + enc_len (flatten noff n)"
    unfolding n enc_len_flatten by (simp add: kid_offset_def)
qed

lemma locate_ge: "locate noff k n is = Some (k', n') \<Longrightarrow> k \<le> k'"
  by (induction noff k n "is" rule: locate.induct)
    (auto split: if_splits dest: order_trans [OF less_imp_le [OF kid_offset_bounds(1)]])

text \<open>
  The walk to a target: a body that goes on at every node in front of it, keeping \<open>ok d\<close> for the state
  between two nodes of depth \<open>d\<close>.
\<close>

lemma walk_kids_to:
  assumes "i < length (node_kids n)"
    and pass: "\<And>m off st. m \<in> set (take i (node_kids n)) \<Longrightarrow> off + enc_len (flatten noff m) \<le> kid_offset noff k n i \<Longrightarrow>
      ok st \<Longrightarrow> \<exists>st'. walk_node body noff off d m st = Inr st' \<and> ok st'"
    and "ok st" and n: "n = DtNode s ps kids"
  shows "\<exists>st'. ok st' \<and> walk_nodes body noff (k + enc_len (head_tokens noff s ps)) d kids st =
    (case walk_node body noff (kid_offset noff k n i) d (kids ! i) st' of
       Inl r \<Rightarrow> Inl r
     | Inr st' \<Rightarrow> walk_nodes body noff (kid_offset noff k n i + enc_len (flatten noff (kids ! i))) d (drop (Suc i) kids) st')"
proof -
  have front: "\<exists>st'. walk_nodes body noff off d ms st = Inr st' \<and> ok st'"
    if "set ms \<subseteq> set (take i kids)" "off + enc_len (concat (map (flatten noff) ms)) \<le> kid_offset noff k n i" "ok st"
    for ms off st
    using that
  proof (induction ms arbitrary: off st)
    case (Cons m ms)
    obtain st1 where "walk_node body noff off d m st = Inr st1" "ok st1"
      using pass [of m off st] Cons.prems n by auto
    then show ?case using Cons.IH [of "off + enc_len (flatten noff m)" st1] Cons.prems by auto
  qed simp
  have kids: "kids = take i kids @ kids ! i # drop (Suc i) kids" using assms(1) by (simp add: n id_take_nth_drop)
  obtain st' where "walk_nodes body noff (k + enc_len (head_tokens noff s ps)) d (take i kids) st = Inr st'" "ok st'"
    using front [of "take i kids" "k + enc_len (head_tokens noff s ps)" st] assms(3) by (auto simp: kid_offset_def n)
  moreover have "walk_nodes body noff off d kids st =
      walk_nodes body noff off d (take i kids @ kids ! i # drop (Suc i) kids) st" for off using kids by simp
  ultimately show ?thesis by (intro exI [of _ st']) (simp add: walk_nodes_append kid_offset_def n split: sum.split)
qed

section \<open>Ancestors\<close>

definition super_body :: "int \<Rightarrow> int \<Rightarrow> (int, int \<times> int option) visit_body" where
  "super_body target j s off d st =
     (if target < off then Inl (Some (path_result off, None))
      else let st = (if d = j then off else st) in
        if off = target then Inl (Some (if j > d then - FDT_ERR_NOTFOUND else st, Some d)) else Inr st)"

interpretation super: depth_walk fdt "\<lambda>off d st. supernode_loop fdt target j off d st" "super_body target j"
  for fdt target j
proof (unfold_locales, goal_cases)
  case (1 off s ts d st)
  then show ?case using tokens_at_nonneg [OF 1(1)]
    by (subst supernode_loop.simps) (simp add: super_body_def Let_def not_le)
qed

fun offsets_to :: "(u8 list \<Rightarrow> u32) \<Rightarrow> int \<Rightarrow> dt_node \<Rightarrow> nat list \<Rightarrow> int list" where
  "offsets_to noff k n [] = [k]"
| "offsets_to noff k n (i # is) = k # offsets_to noff (kid_offset noff k n i) (node_kids n ! i) is"

lemma super_pass:
  "off + enc_len (flatten noff n) \<le> target \<Longrightarrow>
   \<exists>st'. walk_node (super_body target j) noff off d n st = Inr st' \<and> (j < d \<longrightarrow> st' = st)"
  "off + enc_len (concat (map (flatten noff) ns)) \<le> target \<Longrightarrow>
   \<exists>st'. walk_nodes (super_body target j) noff off d ns st = Inr st' \<and> (j < d \<longrightarrow> st' = st)"
proof (induction "super_body target j" noff off d n st and "super_body target j" noff off d ns st
    rule: walk_node_walk_nodes.induct)
  case (1 noff off d s ps kids st)
  let ?st = "if d = j then off else st"
  have lt: "off < target" using "1.prems" enc_len_positive [of noff "DtNode s ps kids"] by linarith
  then have b: "super_body target j s off d st = Inr ?st" by (simp add: super_body_def Let_def)
  have "off + enc_len (head_tokens noff s ps) + enc_len (concat (map (flatten noff) kids)) \<le> target"
    using "1.prems" unfolding enc_len_flatten by simp
  from "1.hyps" [OF b this] b show ?case by auto
next
  case (3 noff off d n ns st)
  obtain st1 where st1: "walk_node (super_body target j) noff off d n st = Inr st1" "j < d \<longrightarrow> st1 = st"
    using "3.hyps"(1) "3.prems" by (auto simp: algebra_simps)
  have "off + enc_len (flatten noff n) + enc_len (concat (map (flatten noff) ns)) \<le> target" using "3.prems" by simp
  from "3.hyps"(2) [OF st1(1) this] st1 show ?case by auto
qed simp

lemma super_at:
  assumes "locate noff k n is = Some (target, n')"
  shows "walk_node (super_body target j) noff k d n st =
    Inl (Some (if j > d + int (length is) then - FDT_ERR_NOTFOUND
        else if j < d then st else offsets_to noff k n is ! nat (j - d), Some (d + int (length is))))"
  using assms
proof (induction noff k n "is" arbitrary: d st rule: locate.induct)
  case (1 noff k n)
  then show ?case by (cases n) (auto simp: super_body_def Let_def)
next
  case (2 noff k n i "is")
  obtain s ps kids where n: "n = DtNode s ps kids" by (cases n)
  let ?k = "kid_offset noff k n i"
  let ?st = "if d = j then k else st"
  have i: "i < length (node_kids n)" and loc: "locate noff ?k (node_kids n ! i) is = Some (target, n')"
    using "2.prems" by (auto split: if_splits)
  have kt: "?k \<le> target" by (rule locate_ge [OF loc])
  then have "k < target" using kid_offset_bounds(1) [OF i, of k noff] by linarith
  then have b: "super_body target j s k d st = Inr ?st" by (simp add: super_body_def Let_def)
  have pass: "\<exists>st''. walk_node (super_body target j) noff off (d + 1) m st1 = Inr st'' \<and> (j < d + 1 \<longrightarrow> st'' = ?st)"
    if "off + enc_len (flatten noff m) \<le> ?k" "j < d + 1 \<longrightarrow> st1 = ?st" for m off st1
    using super_pass(1) [of off noff m target j "d + 1" st1] that kt by auto
  have "\<exists>st'. (j < d + 1 \<longrightarrow> st' = ?st) \<and>
    walk_nodes (super_body target j) noff (k + enc_len (head_tokens noff s ps)) (d + 1) kids ?st =
    (case walk_node (super_body target j) noff ?k (d + 1) (kids ! i) st' of
       Inl r \<Rightarrow> Inl r
     | Inr st' \<Rightarrow> walk_nodes (super_body target j) noff (?k + enc_len (flatten noff (kids ! i))) (d + 1) (drop (Suc i) kids) st')"
    by (rule walk_kids_to [OF i _ _ n]) (use pass in auto)
  then obtain st' where st': "j < d + 1 \<longrightarrow> st' = ?st" and
    w: "walk_nodes (super_body target j) noff (k + enc_len (head_tokens noff s ps)) (d + 1) kids ?st =
    (case walk_node (super_body target j) noff ?k (d + 1) (kids ! i) st' of
       Inl r \<Rightarrow> Inl r
     | Inr st' \<Rightarrow> walk_nodes (super_body target j) noff (?k + enc_len (flatten noff (kids ! i))) (d + 1) (drop (Suc i) kids) st')"
    by blast
  have at: "walk_node (super_body target j) noff k d n st = walk_node (super_body target j) noff ?k (d + 1) (kids ! i) st'"
    using "2.IH" [OF i loc, of "d + 1" st'] b w by (simp add: n)
  consider "j < d" | "j = d" | "d < j" by linarith
  then show ?case
  proof cases
    case 3
    then have "nat (j - d) = Suc (nat (j - (d + 1)))" by simp
    then show ?thesis using at "2.IH" [OF i loc, of "d + 1" st'] 3 by (auto simp: n)
  qed (use at "2.IH" [OF i loc, of "d + 1" st'] st' in \<open>auto simp: n\<close>)
qed

lemma offsets_to_0 [simp]: "offsets_to noff k n is ! 0 = k"
  by (cases "is") auto

lemma supernode_tree:
  assumes "represents fdt noff t" "locate noff 0 t is = Some (k, n)" "0 \<le> j"
  shows "fdt_supernode_atdepth_offset fdt k j =
    Some (if j > int (length is) then - FDT_ERR_NOTFOUND else offsets_to noff 0 t is ! nat j, Some (int (length is)))"
proof -
  have "fdt_check_header fdt = 0" "tokens_at fdt 0 (flatten noff t @ [End])" using assms(1) by (simp_all add: represents_def)
  then show ?thesis
    using super.loop_node [of fdt 0 noff t "[End]" k j "- FDT_ERR_INTERNAL"] super_at [OF assms(2), of j 0] assms(3)
    by (simp add: fdt_supernode_atdepth_offset_def)
qed

lemma node_depth_tree:
  assumes "represents fdt noff t" "locate noff 0 t is = Some (k, n)"
  shows "fdt_node_depth fdt k = Some (int (length is))"
  using supernode_tree [OF assms, of 0] by (simp add: fdt_node_depth_def)

lemma parent_offset_tree:
  assumes "represents fdt noff t" "locate noff 0 t is = Some (k, n)"
  shows "fdt_parent_offset fdt k =
    Some (if is = [] then - FDT_ERR_NOTFOUND else offsets_to noff 0 t is ! (length is - 1))"
proof (cases "is = []")
  case True
  have "fdt_check_header fdt = 0" using assms(1) by (simp add: represents_def)
  with True show ?thesis using node_depth_tree [OF assms]
    by (simp add: fdt_parent_offset_def fdt_supernode_atdepth_offset_def)
next
  case False
  then have "nat (int (length is) - 1) = length is - 1" "0 \<le> int (length is) - 1" by (cases "is"; simp)+
  with False show ?thesis
    using node_depth_tree [OF assms] supernode_tree [OF assms, of "int (length is) - 1"]
    by (simp add: fdt_parent_offset_def)
qed

lemma offsets_to_parent:
  "locate noff k n (is @ [i]) = Some (k', n') \<Longrightarrow>
   \<exists>m. locate noff k n is = Some (offsets_to noff k n (is @ [i]) ! length is, m) \<and> i < length (node_kids m) \<and>
     k' = kid_offset noff (offsets_to noff k n (is @ [i]) ! length is) m i \<and> n' = node_kids m ! i"
  by (induction noff k n "is" rule: locate.induct) (auto split: if_splits)

section \<open>The path of a node\<close>

definition joined :: "u8 list list \<Rightarrow> u8 list" where
  "joined ss = concat (map (\<lambda>s. s @ [SLASH]) ss)"

lemma joined_simps [simp]: "joined [] = []" "joined (s # ss) = s @ SLASH # joined ss" "joined (as @ bs) = joined as @ joined bs"
  by (simp_all add: joined_def)

text \<open>How many names fit into a buffer.\<close>

fun fit :: "int \<Rightarrow> u8 list list \<Rightarrow> nat" where
  "fit b [] = 0"
| "fit b (s # ss) = (if int (length s) + 1 \<le> b then Suc (fit (b - (int (length s) + 1)) ss) else 0)"

lemma fit_le: "fit b ss \<le> length ss"
  by (induction b ss rule: fit.induct) auto

lemma fit_append:
  "fit b (as @ bs) = (if fit b as < length as then fit b as else length as + fit (b - int (length (joined as))) bs)"
  by (induction b as rule: fit.induct) (auto simp: algebra_simps)

lemma fit_all: "0 \<le> b \<Longrightarrow> fit b ss = length ss \<longleftrightarrow> int (length (joined ss)) \<le> b"
  by (induction b ss rule: fit.induct) auto

lemma pop_part_joined:
  assumes "SLASH \<notin> set u"
  shows "pop_part (x @ SLASH # u @ [c]) = Some (x @ [SLASH])"
  using assms
proof (induction u arbitrary: c rule: rev_induct)
  case Nil
  then show ?case by (subst pop_part.simps) (simp add: butlast_append)
next
  case (snoc a u)
  have "butlast (x @ SLASH # (u @ [a]) @ [c]) = x @ SLASH # u @ [a]" by (simp add: butlast_append)
  with snoc show ?case by (subst pop_part.simps) auto
qed

lemma joined_last: "ss \<noteq> [] \<Longrightarrow> \<exists>x. joined ss = x @ [SLASH]"
  by (cases ss rule: rev_cases) auto

lemma pop_parts_joined:
  assumes "ss \<noteq> []" "\<forall>s \<in> set us. SLASH \<notin> set s"
  shows "pop_parts (length us) (joined (ss @ us)) = Some (joined ss)"
  using assms(2)
proof (induction us rule: rev_induct)
  case (snoc u us)
  obtain x where x: "joined (ss @ us) = x @ [SLASH]" using joined_last [of "ss @ us"] assms(1) by auto
  have "joined (ss @ us @ [u]) = joined (ss @ us) @ u @ [SLASH]" by simp
  also have "\<dots> = x @ SLASH # u @ [SLASH]" by (simp only: x append_assoc append_Cons append_Nil)
  finally have "pop_part (joined (ss @ us @ [u])) = Some (joined (ss @ us))"
    using pop_part_joined [of u x SLASH] snoc.prems by (simp only: x) simp
  then show ?case using snoc by simp
qed simp

definition path_body :: "int \<Rightarrow> int \<Rightarrow> (int \<times> u8 list, int \<times> u8 list) visit_body" where
  "path_body target b s off d st =
     (case st of (m, buf) \<Rightarrow>
        if target < off then Inl (Some (path_result off, buf))
        else (case pop_parts (nat (m - d)) buf of
            None \<Rightarrow> Inl None
          | Some buf \<Rightarrow>
              let m = min m d;
                  (m, buf) = (if \<not> m < d \<and> int (length buf) + int (length s) + 1 \<le> b
                    then (m + 1, buf @ s @ [SLASH]) else (m, buf))
              in if off = target
                 then Inl (Some (if m < d + 1 then (- FDT_ERR_NOSPACE, buf)
                     else (0, if 1 < length buf then butlast buf else buf)))
                 else Inr (m, buf)))"

lemma get_name_token:
  assumes "tokens_at fdt k (BeginNode s # ts)" "fdt_check_header fdt = 0"
  shows "\<exists>p. fdt_get_name fdt k = Some (Some p, int (length s)) \<and> map (\<lambda>i. fdt (p + int i)) [0..<length s] = s"
proof -
  let ?p = "raw_fdt_offset_ptr fdt k + 4"
  have h: "holds fdt ?p (s @ [0])" "0 \<notin> set s"
    using assms(1) by (auto simp: tokens_at_def enc_def pad4_def holds_append)
  then have "map (\<lambda>i. fdt (?p + int i)) [0..<length s] = s"
    by (intro nth_equalityI) (auto simp: holds_def nth_append)
  then show ?thesis using h check_node_token [OF assms(1)] tokens_at_nonneg [OF tokens_at_tl [OF assms(1)]] assms(2)
    by (auto simp: fdt_get_name_def strlen_holds not_less Let_def)
qed

lemma path_walk:
  assumes "fdt_check_header fdt = 0"
  shows "depth_walk fdt (\<lambda>off d st. get_path_loop fdt target b off d (fst st) (snd st)) (path_body target b)"
proof (unfold_locales, goal_cases)
  case (1 off s ts d st)
  obtain m buf where st: "st = (m, buf)" by (cases st)
  obtain p where p: "fdt_get_name fdt off = Some (Some p, int (length s))" "map (\<lambda>i. fdt (p + int i)) [0..<length s] = s"
    using get_name_token [OF 1(1) assms] by blast
  show ?case using tokens_at_nonneg [OF 1(1)]
    by (subst get_path_loop.simps)
      (auto simp: path_body_def st p Let_def not_le split: option.splits)
qed

text \<open>
  The state between two nodes below the ancestors \<open>anc\<close>: the buffer has the names of some chain that
  starts with \<open>anc\<close>, as many as fit.
\<close>

definition path_state :: "int \<Rightarrow> u8 list list \<Rightarrow> int \<times> u8 list \<Rightarrow> bool" where
  "path_state b anc st \<longleftrightarrow> (\<exists>ext. fst st = int (fit b (anc @ ext)) \<and>
     snd st = joined (take (fit b (anc @ ext)) (anc @ ext)) \<and> (\<forall>s \<in> set (anc @ ext). SLASH \<notin> set s) \<and>
     (anc = [] \<longrightarrow> ext = []))"

definition path_after :: "int \<Rightarrow> u8 list list \<Rightarrow> int \<times> u8 list" where
  "path_after b ss = (int (fit b ss), joined (take (fit b ss) ss))"

definition path_answer :: "int \<Rightarrow> u8 list list \<Rightarrow> int \<times> u8 list" where
  "path_answer b ss =
     (if fit b ss < length ss then (- FDT_ERR_NOSPACE, joined (take (fit b ss) ss))
      else (0, if 1 < length (joined ss) then butlast (joined ss) else joined ss))"

lemma path_body_step:
  assumes "path_state b anc st" "off \<le> target" "d = int (length anc)"
  shows "path_body target b s off d st =
    (if off = target then Inl (Some (path_answer b (anc @ [s]))) else Inr (path_after b (anc @ [s])))"
proof -
  obtain ext where ext: "st = (int (fit b (anc @ ext)), joined (take (fit b (anc @ ext)) (anc @ ext)))"
    "\<forall>s \<in> set (anc @ ext). SLASH \<notin> set s" "anc = [] \<longrightarrow> ext = []"
    using assms(1) by (cases st) (auto simp: path_state_def)
  let ?m = "fit b (anc @ ext)"
  show ?thesis
  proof (cases "fit b anc < length anc")
    case True
    then show ?thesis using ext(1) assms(2,3)
      by (auto simp: path_body_def path_answer_def path_after_def fit_append Let_def)
  next
    case False
    then have anc: "fit b anc = length anc" using fit_le [of b anc] by simp
    define r where "r = fit (b - int (length (joined anc))) ext"
    have m: "?m = length anc + r" using anc by (simp add: fit_append r_def)
    have "r = 0 \<or> anc \<noteq> []" using ext(3) by (auto simp: r_def)
    moreover have "length (take r ext) = r" using fit_le [of _ ext] by (simp add: r_def)
    ultimately have "pop_parts r (joined anc @ joined (take r ext)) = Some (joined anc)"
      using pop_parts_joined [of anc "take r ext"] ext(2) by (auto dest: in_set_takeD)
    then show ?thesis using ext(1) assms(2,3) m anc
      by (auto simp: path_body_def path_answer_def path_after_def fit_append Let_def)
  qed
qed

lemma path_state_after:
  assumes "path_state b anc st" "SLASH \<notin> set s"
  shows "path_state b (anc @ [s]) (path_after b (anc @ [s]))"
  using assms by (auto simp: path_state_def path_after_def intro!: exI [of _ "[]"])

lemma path_state_up: "path_state b (anc @ [s]) st \<Longrightarrow> anc \<noteq> [] \<Longrightarrow> path_state b anc st"
  unfolding path_state_def by (metis append_assoc)

fun clean_names :: "dt_node \<Rightarrow> bool" where
  "clean_names (DtNode s ps kids) \<longleftrightarrow> SLASH \<notin> set s \<and> list_all clean_names kids"

lemma path_pass:
  "off + enc_len (flatten noff n) \<le> target \<Longrightarrow> path_state b anc st \<Longrightarrow> d = int (length anc) \<Longrightarrow> anc \<noteq> [] \<Longrightarrow> clean_names n \<Longrightarrow>
   \<exists>st'. walk_node (path_body target b) noff off d n st = Inr st' \<and> path_state b anc st'"
  "off + enc_len (concat (map (flatten noff) ns)) \<le> target \<Longrightarrow> path_state b anc st \<Longrightarrow> d = int (length anc) \<Longrightarrow> anc \<noteq> [] \<Longrightarrow>
   list_all clean_names ns \<Longrightarrow>
   \<exists>st'. walk_nodes (path_body target b) noff off d ns st = Inr st' \<and> path_state b anc st'"
proof (induction "path_body target b" noff off d n st and "path_body target b" noff off d ns st
    arbitrary: anc and anc rule: walk_node_walk_nodes.induct)
  case (1 noff off d s ps kids st)
  have lt: "off < target" using "1.prems"(1) enc_len_positive [of noff "DtNode s ps kids"] by linarith
  have b: "path_body target b s off d st = Inr (path_after b (anc @ [s]))"
    using path_body_step [OF "1.prems"(2) less_imp_le [OF lt] "1.prems"(3)] lt by simp
  have "off + enc_len (head_tokens noff s ps) + enc_len (concat (map (flatten noff) kids)) \<le> target"
    using "1.prems"(1) unfolding enc_len_flatten by simp
  moreover have "path_state b (anc @ [s]) (path_after b (anc @ [s]))"
    using path_state_after [OF "1.prems"(2)] "1.prems"(5) by simp
  ultimately show ?case using "1.hyps" [OF b, of "anc @ [s]"] "1.prems"(3,4,5) b by (auto dest: path_state_up)
next
  case (3 noff off d n ns st)
  obtain st1 where st1: "walk_node (path_body target b) noff off d n st = Inr st1" "path_state b anc st1"
    using "3.hyps"(1) [OF _ "3.prems"(2,3,4)] "3.prems"(1,5) by (auto simp: algebra_simps)
  have "off + enc_len (flatten noff n) + enc_len (concat (map (flatten noff) ns)) \<le> target" using "3.prems"(1) by simp
  from "3.hyps"(2) [OF st1(1) this st1(2) "3.prems"(3,4)] st1 "3.prems"(5) show ?case by auto
qed auto

lemma path_at:
  assumes "locate noff k n is = Some (target, n')" "path_state b anc st" "d = int (length anc)" "clean_names n"
  shows "walk_node (path_body target b) noff k d n st = Inl (Some (path_answer b (anc @ names_to n is)))"
  using assms
proof (induction noff k n "is" arbitrary: d st anc rule: locate.induct)
  case (1 noff k n)
  then show ?case using path_body_step [OF "1.prems"(2) _ "1.prems"(3)] by (cases n) auto
next
  case (2 noff k n i "is")
  obtain s ps kids where n: "n = DtNode s ps kids" by (cases n)
  let ?k = "kid_offset noff k n i" and ?anc = "anc @ [s]"
  have i: "i < length (node_kids n)" and loc: "locate noff ?k (node_kids n ! i) is = Some (target, n')"
    using "2.prems"(1) by (auto split: if_splits)
  have kt: "?k \<le> target" by (rule locate_ge [OF loc])
  then have lt: "k < target" using kid_offset_bounds(1) [OF i, of k noff] by linarith
  have b: "path_body target b s k d st = Inr (path_after b ?anc)"
    using path_body_step [OF "2.prems"(2) less_imp_le [OF lt] "2.prems"(3)] lt by simp
  have ok: "path_state b ?anc (path_after b ?anc)" using path_state_after [OF "2.prems"(2)] "2.prems"(4) n by simp
  have d: "d + 1 = int (length ?anc)" using "2.prems"(3) by simp
  have clean: "clean_names m" if "m \<in> set kids" for m using "2.prems"(4) that by (simp add: n list_all_iff)
  have pass: "\<exists>st''. walk_node (path_body target b) noff off (d + 1) m st1 = Inr st'' \<and> path_state b ?anc st''"
    if "m \<in> set (take i kids)" "off + enc_len (flatten noff m) \<le> ?k" "path_state b ?anc st1" for m off st1
    by (rule path_pass(1) [OF _ that(3) d]) (use that(2) kt clean [OF in_set_takeD [OF that(1)]] in auto)
  have "\<exists>st'. path_state b ?anc st' \<and>
    walk_nodes (path_body target b) noff (k + enc_len (head_tokens noff s ps)) (d + 1) kids (path_after b ?anc) =
    (case walk_node (path_body target b) noff ?k (d + 1) (kids ! i) st' of
       Inl r \<Rightarrow> Inl r
     | Inr st' \<Rightarrow> walk_nodes (path_body target b) noff (?k + enc_len (flatten noff (kids ! i))) (d + 1) (drop (Suc i) kids) st')"
    by (rule walk_kids_to [OF i _ _ n]) (use pass ok n in auto)
  then obtain st' where st': "path_state b ?anc st'" and
    w: "walk_nodes (path_body target b) noff (k + enc_len (head_tokens noff s ps)) (d + 1) kids (path_after b ?anc) =
    (case walk_node (path_body target b) noff ?k (d + 1) (kids ! i) st' of
       Inl r \<Rightarrow> Inl r
     | Inr st' \<Rightarrow> walk_nodes (path_body target b) noff (?k + enc_len (flatten noff (kids ! i))) (d + 1) (drop (Suc i) kids) st')"
    by blast
  have "walk_node (path_body target b) noff ?k (d + 1) (kids ! i) st' = Inl (Some (path_answer b (?anc @ names_to (kids ! i) is)))"
    using "2.IH" [OF i loc st' d] i clean by (simp add: n)
  then show ?case using b w by (simp add: n)
qed

lemma get_path_tree:
  assumes "represents fdt noff t" "locate noff 0 t is = Some (k, n)" "clean_names t" "2 \<le> b"
  shows "fdt_get_path fdt k b = Some (path_answer b (names_to t is))"
proof -
  have hdr: "fdt_check_header fdt = 0" and at: "tokens_at fdt 0 (flatten noff t @ [End])"
    using assms(1) by (simp_all add: represents_def)
  have "path_state b [] (0, [])" by (simp add: path_state_def)
  from path_at [OF assms(2) this _ assms(3), of 0] show ?thesis
    using depth_walk.loop_node [OF path_walk [OF hdr] at, of k b "(0, [])"] hdr assms(4)
    by (simp add: fdt_get_path_def)
qed

section \<open>From a path back to its node\<close>

text \<open>No name stands for a sibling that comes before its own node.\<close>

fun unambiguous :: "dt_node \<Rightarrow> bool" where
  "unambiguous (DtNode s ps kids) \<longleftrightarrow>
     list_all (\<lambda>j. list_all (\<lambda>i. \<not> node_matches (node_name (kids ! j)) (node_name (kids ! i))) [0..<j]) [0..<length kids] \<and>
     list_all unambiguous kids"

fun path_tree :: "dt_node \<Rightarrow> bool" where
  "path_tree (DtNode s ps kids) \<longleftrightarrow> list_all (\<lambda>k. path_part (node_name k) \<and> path_tree k) kids"

lemma path_tree_clean: "path_tree t \<Longrightarrow> SLASH \<notin> set (node_name t) \<Longrightarrow> clean_names t"
  by (induction t) (auto simp: list_all_iff path_part_def)

lemma names_to_Cons: "names_to n is = node_name n # tl (names_to n is)"
  by (cases "is") auto

lemma matching_kid_self:
  assumes "unambiguous n" "i < length (node_kids n)"
  shows "matching_kid (node_name (node_kids n ! i)) n = Some i"
proof -
  have "\<not> node_matches (node_name (node_kids n ! i)) (node_name (node_kids n ! j))" if "j < i" for j
    using assms that by (cases n) (auto simp: list_all_iff)
  moreover have "node_matches s s" for s by (simp add: node_matches_def)
  ultimately show ?thesis using assms(2) by (auto simp: matching_kid_def find_Some_iff intro!: exI [of _ i])
qed

lemma resolve_names:
  "locate noff k n is = Some (k', n') \<Longrightarrow> unambiguous n \<Longrightarrow> resolve noff k n (tl (names_to n is)) = k'"
proof (induction noff k n "is" rule: locate.induct)
  case (2 noff k n i "is")
  have i: "i < length (node_kids n)" using "2.prems"(1) by (auto split: if_splits)
  then have "unambiguous (node_kids n ! i)" using "2.prems"(2) by (cases n) (simp add: list_all_length)
  with 2 i show ?case
    by (subst names_to.simps, subst names_to_Cons) (simp add: matching_kid_self)
qed simp

lemma names_to_parts:
  "locate noff k n is = Some (k', n') \<Longrightarrow> path_tree n \<Longrightarrow> \<forall>c \<in> set (tl (names_to n is)). path_part c"
proof (induction noff k n "is" rule: locate.induct)
  case (2 noff k n i "is")
  have i: "i < length (node_kids n)" using "2.prems"(1) by (auto split: if_splits)
  then have "path_tree (node_kids n ! i)" "path_part (node_name (node_kids n ! i))"
    using "2.prems"(2) by (cases n, simp add: list_all_length)+
  with 2 i show ?case by (subst names_to.simps, subst names_to_Cons) simp
qed simp

lemma joined_path: "SLASH # joined cs = path_of cs @ [SLASH]"
  by (induction cs) auto

section \<open>Properties\<close>

text \<open>
  C19. A node and its path. On a blob that holds a tree with usual names (an empty name for the root,
  for every other node a name that is not empty, has no slash and no zero byte and is shorter than \<open>2 ^ 31 - 1\<close>,
  and no name that stands for an earlier sibling), \<open>fdt_get_path\<close> gives a path of every node when the
  buffer has room for it, and \<open>-FDT_ERR_NOSPACE\<close> otherwise, and \<open>fdt_path_offset\<close> leads from this path
  back to the node.
\<close>

theorem fdt_path_round_trip:
  assumes "represents fdt noff t" and "locate noff 0 t is = Some (k, n)"
    and "node_name t = []" and "path_tree t" and "unambiguous t"
  shows "if 2 \<le> b \<and> int (length (joined (names_to t is))) \<le> b
    then \<exists>path. fdt_get_path fdt k b = Some (0, path) \<and> fdt_path_offset fdt path = Some k
    else \<exists>buf. fdt_get_path fdt k b = Some (- FDT_ERR_NOSPACE, buf)"
proof (cases "2 \<le> b")
  case True
  define cs where "cs = tl (names_to t is)"
  have names: "names_to t is = [] # cs" using names_to_Cons [of t "is"] assms(3) by (simp add: cs_def)
  have get: "fdt_get_path fdt k b = Some (path_answer b ([] # cs))"
    using get_path_tree [OF assms(1,2) path_tree_clean [OF assms(4)] True] assms(3) names by simp
  have parts: "\<forall>c \<in> set cs. path_part c" unfolding cs_def by (rule names_to_parts [OF assms(2,4)])
  have root: "fdt_path_offset fdt [SLASH] = Some 0"
    using assms(1) by (subst fdt_path_offset.simps) (simp add: represents_def path_loop.simps)
  have "fdt_path_offset fdt (if cs = [] then [SLASH] else path_of cs) = Some k"
    using path_offset_resolve [OF assms(1) parts] resolve_names [OF assms(2,5)] root by (auto simp: cs_def)
  moreover have "(if 1 < length (joined ([] # cs)) then butlast (joined ([] # cs)) else joined ([] # cs)) =
      (if cs = [] then [SLASH] else path_of cs)"
    using joined_path [of cs] parts by (cases cs) (auto simp: path_part_def butlast_append)
  ultimately show ?thesis
    using get True fit_all [of b "[] # cs"] fit_le [of b "[] # cs"] names by (auto simp: path_answer_def)
next
  case False
  then show ?thesis using assms(1) by (simp add: fdt_get_path_def represents_def)
qed

lemma demo_located: "\<exists>k n. locate demo_noff 0 demo_tree [0] = Some (k, n)"
  by (simp add: demo_tree_def)

theorem fdt_path_round_trip_witness:
  "\<exists>k n path. locate demo_noff 0 demo_tree [0] = Some (k, n) \<and> fdt_get_path demo_fdt k 64 = Some (0, path) \<and>
     fdt_path_offset demo_fdt path = Some k"
proof -
  obtain k n where loc: "locate demo_noff 0 demo_tree [0] = Some (k, n)" using demo_located by blast
  have "node_name demo_tree = []" "path_tree demo_tree" "unambiguous demo_tree"
    by (simp_all add: demo_tree_def path_part_def bytes_def SLASH_def)
  from fdt_path_round_trip [OF demo_represents loc this, of 64] loc show ?thesis
    by (auto simp: demo_tree_def bytes_def)
qed

text \<open>
  C20. The parent and the depth of a node. On a blob that holds a tree, the root has depth 0 and no
  parent; for a node below it, \<open>fdt_node_depth\<close> is the number of steps from the root and
  \<open>fdt_parent_offset\<close> the offset of the node of which it is a kid. \<open>fdt_supernode_atdepth_offset\<close> gives
  the ancestor of each depth.
\<close>

theorem fdt_parent_and_depth:
  assumes "represents fdt noff t" and "locate noff 0 t is = Some (k, n)"
  shows "fdt_node_depth fdt k = Some (int (length is)) \<and>
    (if is = [] then fdt_parent_offset fdt k = Some (- FDT_ERR_NOTFOUND)
     else \<exists>p m. locate noff 0 t (butlast is) = Some (p, m) \<and> last is < length (node_kids m) \<and> n = node_kids m ! last is \<and>
       fdt_parent_offset fdt k = Some p) \<and>
    (\<forall>j \<le> length is. fst (the (fdt_supernode_atdepth_offset fdt k (int j))) = offsets_to noff 0 t is ! j)"
proof -
  have "\<exists>p m. locate noff 0 t (butlast is) = Some (p, m) \<and> last is < length (node_kids m) \<and> n = node_kids m ! last is \<and>
      fdt_parent_offset fdt k = Some p" if ne: "is \<noteq> []"
  proof -
    have "is = butlast is @ [last is]" using ne by simp
    then have "locate noff 0 t (butlast is @ [last is]) = Some (k, n)" using assms(2) by simp
    from offsets_to_parent [OF this] show ?thesis
      using parent_offset_tree [OF assms] ne by auto
  qed
  then show ?thesis
    using node_depth_tree [OF assms] parent_offset_tree [OF assms] supernode_tree [OF assms] by simp
qed

theorem fdt_parent_and_depth_witness:
  "\<exists>k n. locate demo_noff 0 demo_tree [0] = Some (k, n) \<and> fdt_node_depth demo_fdt k = Some 1 \<and> fdt_parent_offset demo_fdt k = Some 0"
proof -
  obtain k n where loc: "locate demo_noff 0 demo_tree [0] = Some (k, n)" using demo_located by blast
  from fdt_parent_and_depth [OF demo_represents loc] loc show ?thesis by (auto simp del: locate.simps(2))
qed

text \<open>A node behind the root has depth \<open>- 1\<close>, and its path is looked for in front of the buffer.\<close>

lemma get_path_behind_root:
  "fdt_check_header (build_fdt [BeginNode [], EndNode, BeginNode [], EndNode, End] []) = 0 \<and>
   fdt_get_path (build_fdt [BeginNode [], EndNode, BeginNode [], EndNode, End] []) 12 64 = None"
  by code_simp

section \<open>Aliases\<close>

lemma path_offset_stuck:
  assumes "fdt_get_alias_namelen fdt (takeWhile (\<lambda>c. c \<noteq> SLASH) path) = Some (Some p)" "c_string fdt p = Some path"
    and "fdt_check_header fdt = 0" "take 1 path \<noteq> [SLASH]"
  shows "fdt_path_offset fdt path = None"
proof (rule ccontr)
  assume "fdt_path_offset fdt path \<noteq> None"
  then obtain r where "fdt_path_offset fdt path = Some r" by blast
  then have "\<not> (fdt_get_alias_namelen fdt (takeWhile (\<lambda>c. c \<noteq> SLASH) path) = Some (Some p) \<and> c_string fdt p = Some path \<and>
      fdt_check_header fdt = 0 \<and> take 1 path \<noteq> [SLASH])"
  proof (induction rule: fdt_path_offset.raw_induct [rotated, consumes 1, case_names step])
    case (step loop fdt path r)
    show ?case
    proof
      assume stuck: "fdt_get_alias_namelen fdt (takeWhile (\<lambda>c. c \<noteq> SLASH) path) = Some (Some p) \<and>
        c_string fdt p = Some path \<and> fdt_check_header fdt = 0 \<and> take 1 path \<noteq> [SLASH]"
      with step(2) obtain y where "loop fdt path = Some y" by (cases "loop fdt path") auto
      from step(1) [OF this] stuck show False by blast
    qed
  qed
  with assms show False by simp
qed

text \<open>A tree with the alias \<open>a\<close> for \<open>a\<close>.\<close>

definition alias_fdt :: blob where
  "alias_fdt = build_fdt (flatten (\<lambda>_. 0) (DtNode [] [] [DtNode (bytes ''aliases'') [(bytes ''a'', bytes ''a'' @ [0])] []]) @ [End])
     (bytes ''a'' @ [0])"

text \<open>
  The aliases of a blob are followed without a bound: the header check accepts \<open>alias_fdt\<close>, whose
  alias \<open>a\<close> stands for \<open>a\<close>, and \<open>fdt_path_offset\<close> never returns for this name.
\<close>

theorem fdt_path_offset_alias_loop:
  "fdt_check_header alias_fdt = 0 \<and> fdt_path_offset alias_fdt (bytes ''a'') = None"
proof
  show hdr: "fdt_check_header alias_fdt = 0" by code_simp
  have "fdt_get_alias_namelen alias_fdt (bytes ''a'') = Some (Some 88)" "c_string alias_fdt 88 = Some (bytes ''a'')"
    by code_simp+
  then show "fdt_path_offset alias_fdt (bytes ''a'') = None"
    using path_offset_stuck [OF _ _ hdr] by (auto simp: bytes_def SLASH_def)
qed

end
