(* ===== verification/Fdt_Mem.thy ===== *)
theory Fdt_Mem
  imports Fdt_Ro
begin

text \<open>
  Stores into a blob, for the part of \<open>libfdt\<close> that writes: copies of bytes, the big endian fields of the
  header, and which reads a store changes. A pointer is 64 bits wide, as is \<open>size_t\<close>.
\<close>

section \<open>Stores\<close>

definition store_bytes :: "blob \<Rightarrow> int \<Rightarrow> u8 list \<Rightarrow> blob" where
  "store_bytes fdt p bs = (\<lambda>q. if p \<le> q \<and> q < p + int (length bs) then bs ! nat (q - p) else fdt q)"

definition load_bytes :: "blob \<Rightarrow> int \<Rightarrow> nat \<Rightarrow> u8 list" where
  "load_bytes fdt p n = map (\<lambda>i. fdt (p + int i)) [0..<n]"

definition memmove :: "blob \<Rightarrow> int \<Rightarrow> int \<Rightarrow> nat \<Rightarrow> blob" where
  "memmove fdt dst src n = store_bytes fdt dst (load_bytes fdt src n)"

definition put32 :: "blob \<Rightarrow> int \<Rightarrow> u32 \<Rightarrow> blob" where
  "put32 fdt p v = store_bytes fdt p (be_bytes v)"

definition be64_bytes :: "u64 \<Rightarrow> u8 list" where
  "be64_bytes v = be_bytes (ucast (drop_bit 32 v)) @ be_bytes (ucast v)"

definition fdt_set_magic :: "blob \<Rightarrow> u32 \<Rightarrow> blob" where "fdt_set_magic fdt v = put32 fdt 0 v"
definition fdt_set_totalsize :: "blob \<Rightarrow> u32 \<Rightarrow> blob" where "fdt_set_totalsize fdt v = put32 fdt 4 v"
definition fdt_set_off_dt_struct :: "blob \<Rightarrow> u32 \<Rightarrow> blob" where "fdt_set_off_dt_struct fdt v = put32 fdt 8 v"
definition fdt_set_off_dt_strings :: "blob \<Rightarrow> u32 \<Rightarrow> blob" where "fdt_set_off_dt_strings fdt v = put32 fdt 12 v"
definition fdt_set_off_mem_rsvmap :: "blob \<Rightarrow> u32 \<Rightarrow> blob" where "fdt_set_off_mem_rsvmap fdt v = put32 fdt 16 v"
definition fdt_set_version :: "blob \<Rightarrow> u32 \<Rightarrow> blob" where "fdt_set_version fdt v = put32 fdt 20 v"
definition fdt_set_last_comp_version :: "blob \<Rightarrow> u32 \<Rightarrow> blob" where "fdt_set_last_comp_version fdt v = put32 fdt 24 v"
definition fdt_set_boot_cpuid_phys :: "blob \<Rightarrow> u32 \<Rightarrow> blob" where "fdt_set_boot_cpuid_phys fdt v = put32 fdt 28 v"
definition fdt_set_size_dt_strings :: "blob \<Rightarrow> u32 \<Rightarrow> blob" where "fdt_set_size_dt_strings fdt v = put32 fdt 32 v"
definition fdt_set_size_dt_struct :: "blob \<Rightarrow> u32 \<Rightarrow> blob" where "fdt_set_size_dt_struct fdt v = put32 fdt 36 v"

definition fdt_boot_cpuid_phys :: "blob \<Rightarrow> u32" where "fdt_boot_cpuid_phys fdt = be32 fdt 28"
definition fdt_size_dt_strings :: "blob \<Rightarrow> u32" where "fdt_size_dt_strings fdt = be32 fdt 32"

lemmas fdt_get_defs = fdt_magic_def fdt_totalsize_def fdt_off_dt_struct_def fdt_off_dt_strings_def
  fdt_off_mem_rsvmap_def fdt_version_def fdt_last_comp_version_def fdt_boot_cpuid_phys_def
  fdt_size_dt_strings_def fdt_size_dt_struct_def

lemmas fdt_set_defs = fdt_set_magic_def fdt_set_totalsize_def fdt_set_off_dt_struct_def fdt_set_off_dt_strings_def
  fdt_set_off_mem_rsvmap_def fdt_set_version_def fdt_set_last_comp_version_def fdt_set_boot_cpuid_phys_def
  fdt_set_size_dt_strings_def fdt_set_size_dt_struct_def

section \<open>What a store changes\<close>

lemma store_bytes_out [simp]: "q < p \<or> p + int (length bs) \<le> q \<Longrightarrow> store_bytes fdt p bs q = fdt q"
  by (auto simp: store_bytes_def)

lemma store_bytes_in: "i < length bs \<Longrightarrow> store_bytes fdt p bs (p + int i) = bs ! i"
  by (simp add: store_bytes_def)

lemma store_bytes_Nil [simp]: "store_bytes fdt p [] = fdt"
  by (rule ext) (auto simp: store_bytes_def)

lemma holds_store [simp]: "holds (store_bytes fdt p bs) p bs"
  by (simp add: holds_def store_bytes_in)

lemma length_load_bytes [simp]: "length (load_bytes fdt p n) = n"
  by (simp add: load_bytes_def)

lemma load_bytes_nth [simp]: "i < n \<Longrightarrow> load_bytes fdt p n ! i = fdt (p + int i)"
  by (simp add: load_bytes_def)

lemma load_holds: "holds fdt p bs \<Longrightarrow> load_bytes fdt p (length bs) = bs"
  by (simp add: holds_def list_eq_iff_nth_eq)

text \<open>Reads only depend on the bytes they look at; \<open>d\<close> is how far the bytes have moved.\<close>

definition moved :: "int \<Rightarrow> int \<Rightarrow> int \<Rightarrow> blob \<Rightarrow> blob \<Rightarrow> bool" where
  "moved d p n fdt fdt' \<longleftrightarrow> (\<forall>q. p \<le> q \<longrightarrow> q < p + n \<longrightarrow> fdt' (q + d) = fdt q)"

lemma moved_refl [simp]: "moved 0 p n fdt fdt"
  by (simp add: moved_def)

lemma moved_sub: "moved d p n fdt fdt' \<Longrightarrow> p \<le> p' \<Longrightarrow> p' + n' \<le> p + n \<Longrightarrow> moved d p' n' fdt fdt'"
  by (auto simp: moved_def)

lemma moved_trans: "moved d p n fdt fdt' \<Longrightarrow> moved e (p + d) n fdt' fdt'' \<Longrightarrow> moved (d + e) p n fdt fdt''"
  unfolding moved_def by (metis (no_types, opaque_lifting) add.assoc add.commute add_le_cancel_right add_less_cancel_right)

lemma moved_holds: "moved d p n fdt fdt' \<Longrightarrow> int (length bs) \<le> n \<Longrightarrow> holds fdt p bs \<Longrightarrow> holds fdt' (p + d) bs"
  unfolding moved_def holds_def
proof (intro allI impI)
  fix i assume "\<forall>q. p \<le> q \<longrightarrow> q < p + n \<longrightarrow> fdt' (q + d) = fdt q" "int (length bs) \<le> n"
    "\<forall>i<length bs. fdt (p + int i) = bs ! i" "i < length bs"
  then have "fdt' (p + int i + d) = bs ! i" by (metis add_less_cancel_left le_add_same_cancel1 of_nat_0_le_iff of_nat_less_iff order_less_le_trans)
  then show "fdt' (p + d + int i) = bs ! i" by (simp add: algebra_simps)
qed

lemma moved_tokens:
  "moved d p n fdt fdt' \<Longrightarrow> int (length (encs ts)) \<le> n \<Longrightarrow> holds_tokens fdt p ts \<Longrightarrow> holds_tokens fdt' (p + d) ts"
proof (induction ts arbitrary: p n)
  case (Cons t ts)
  have len: "length (be_bytes (tag_of t) @ payload t) \<le> length (enc t)" unfolding length_enc by simp
  have "holds fdt' (p + d) (be_bytes (tag_of t) @ payload t)"
    using Cons.prems len by (intro moved_holds [OF moved_sub [OF Cons.prems(1), of p "int (length (enc t))"]]) auto
  moreover have "holds_tokens fdt' (p + int (length (enc t)) + d) ts"
    using Cons.prems by (intro Cons.IH [OF moved_sub [OF Cons.prems(1)]]) auto
  ultimately show ?case by (simp add: algebra_simps)
qed simp

lemma moved_be32: "moved d p 4 fdt fdt' \<Longrightarrow> be32 fdt' (p + d) = be32 fdt p"
  using moved_holds [of d p 4 fdt fdt' "load_bytes fdt p 4"]
  by (simp add: load_bytes_def be32_def upt_rec add.assoc)

lemma moved_store [simp]: "p + n \<le> q \<or> q + int (length bs) \<le> p \<Longrightarrow> moved 0 p n fdt (store_bytes fdt q bs)"
  by (auto simp: moved_def)

lemma moved_store_step: "moved 0 p n fdt fdt' \<Longrightarrow> p + n \<le> q \<or> q + int (length bs) \<le> p \<Longrightarrow> moved 0 p n fdt (store_bytes fdt' q bs)"
  by (auto simp: moved_def)

lemma moved_memmove: "moved (dst - src) src (int n) fdt (memmove fdt dst src n)"
  unfolding moved_def memmove_def
proof (intro allI impI)
  fix q assume "src \<le> q" "q < src + int n"
  then show "store_bytes fdt dst (load_bytes fdt src n) (q + (dst - src)) = fdt q"
    using store_bytes_in [of "nat (q - src)" "load_bytes fdt src n" fdt dst] by (simp add: algebra_simps)
qed

lemma moved_memmove_out [simp]: "p + n \<le> dst \<or> dst + int k \<le> p \<Longrightarrow> moved 0 p n fdt (memmove fdt dst src k)"
  by (simp add: memmove_def)

text \<open>Only the bytes from \<open>a\<close> up to \<open>b\<close> change.\<close>

definition changed :: "int \<Rightarrow> int \<Rightarrow> blob \<Rightarrow> blob \<Rightarrow> bool" where
  "changed a b fdt fdt' \<longleftrightarrow> (\<forall>q. q < a \<or> b \<le> q \<longrightarrow> fdt' q = fdt q)"

lemma changed_refl [simp]: "changed a b fdt fdt"
  by (simp add: changed_def)

lemma changed_moved: "changed a b fdt fdt' \<Longrightarrow> p + n \<le> a \<or> b \<le> p \<Longrightarrow> moved 0 p n fdt fdt'"
  by (auto simp: changed_def moved_def)

lemma changed_trans: "changed a b f g \<Longrightarrow> changed a b g h \<Longrightarrow> changed a b f h"
  by (simp add: changed_def)

lemma changed_wider: "changed a b f g \<Longrightarrow> a' \<le> a \<Longrightarrow> b \<le> b' \<Longrightarrow> changed a' b' f g"
  by (auto simp: changed_def)

lemma changed_store: "changed a b fdt fdt' \<Longrightarrow> a \<le> p \<Longrightarrow> p + int (length bs) \<le> b \<Longrightarrow> changed a b fdt (store_bytes fdt' p bs)"
  by (auto simp: changed_def)

section \<open>Fields of four and eight bytes\<close>

lemma be32_store_out [simp]: "q + 4 \<le> p \<or> p + int (length bs) \<le> q \<Longrightarrow> be32 (store_bytes fdt p bs) q = be32 fdt q"
  using moved_be32 [OF moved_store [of q 4 p bs fdt]] by simp

lemma holds_store_out [simp]:
  "q + int (length cs) \<le> p \<or> p + int (length bs) \<le> q \<Longrightarrow> holds (store_bytes fdt p bs) q cs \<longleftrightarrow> holds fdt q cs"
  by (auto simp: holds_def)

lemma be32_put32 [simp]: "be32 (put32 fdt p v) p = v"
  by (simp add: put32_def holds_be32)

lemma holds_put32 [simp]: "holds (put32 fdt p v) p (be_bytes v)"
  by (simp add: put32_def)

lemma holds_be_append: "holds fdt p (be_bytes v @ bs) \<longleftrightarrow> holds fdt p (be_bytes v) \<and> holds fdt (p + 4) bs"
  by (simp add: holds_append)

lemma holds_be_prop:
  "holds fdt p (be_bytes a @ be_bytes b @ be_bytes c @ bs) \<longleftrightarrow> holds fdt p (be_bytes a) \<and>
    holds fdt (p + 4) (be_bytes b) \<and> holds fdt (p + 8) (be_bytes c) \<and> holds fdt (p + 12) bs"
  by (simp add: holds_append add.assoc)

lemma be32_put32_out [simp]: "q + 4 \<le> p \<or> p + 4 \<le> q \<Longrightarrow> be32 (put32 fdt p v) q = be32 fdt q"
  by (simp add: put32_def)

lemma holds_put32_out [simp]: "q + int (length bs) \<le> p \<or> p + 4 \<le> q \<Longrightarrow> holds (put32 fdt p v) q bs \<longleftrightarrow> holds fdt q bs"
  by (simp add: put32_def)

lemma put32_out [simp]: "q < p \<or> p + 4 \<le> q \<Longrightarrow> put32 fdt p v q = fdt q"
  by (simp add: put32_def)

lemma moved_put32 [simp]: "p + n \<le> q \<or> q + 4 \<le> p \<Longrightarrow> moved 0 p n fdt (put32 fdt q v)"
  by (simp add: put32_def)

lemma moved_put32_step: "moved 0 p n fdt fdt' \<Longrightarrow> p + n \<le> q \<or> q + 4 \<le> p \<Longrightarrow> moved 0 p n fdt (put32 fdt' q v)"
  by (simp add: put32_def moved_store_step)

lemma changed_put32: "changed a b fdt fdt' \<Longrightarrow> a \<le> p \<Longrightarrow> p + 4 \<le> b \<Longrightarrow> changed a b fdt (put32 fdt' p v)"
  by (simp add: put32_def changed_store)

lemma changed_memmove: "changed a b fdt fdt' \<Longrightarrow> a \<le> dst \<Longrightarrow> dst + int n \<le> b \<Longrightarrow> changed a b fdt (memmove fdt' dst src n)"
  by (simp add: memmove_def changed_store)

lemmas changed_steps = changed_refl changed_store changed_put32 changed_memmove

lemmas moved_steps = moved_refl moved_store_step moved_put32_step

lemma payload_fits: "4 + length (payload t) \<le> length (enc t)"
  unfolding length_enc by simp

text \<open>A token is there when its tag and payload are and the bytes that pad it are 0.\<close>

lemma holds_enc:
  assumes "holds fdt p (be_bytes (tag_of t) @ payload t)"
    and "\<And>q. p + 4 + int (length (payload t)) \<le> q \<Longrightarrow> q < p + int (length (enc t)) \<Longrightarrow> fdt q = 0"
  shows "holds fdt p (enc t)"
proof -
  let ?k = "(4 - length (payload t) mod 4) mod 4"
  have "length (enc t) = 4 + length (payload t) + ?k" by (simp add: enc_def pad4_def)
  then have "holds fdt (p + 4 + int (length (payload t))) (replicate ?k 0)"
    using assms(2) by (auto simp: holds_def)
  then show ?thesis using assms(1) by (simp add: enc_def pad4_def holds_append add.assoc)
qed

lemma length_be64_bytes [simp]: "length (be64_bytes v) = 8"
  by (simp add: be64_bytes_def)

lemma be64_holds:
  assumes "holds fdt p (be64_bytes v)"
  shows "be64 fdt p = v"
proof -
  have "be32 fdt p = ucast (drop_bit 32 v)" "be32 fdt (p + 4) = ucast v"
    using assms by (auto simp: be64_bytes_def holds_append intro: holds_be32)
  moreover have "push_bit 32 (ucast (ucast (drop_bit 32 v) :: u32)) OR ucast (ucast v :: u32) = v"
    by (rule bit_word_eqI) (auto simp: bit_simps)
  ultimately show ?thesis by (simp add: be64_def)
qed

lemma uint_nat32: "n < 2 ^ 31 \<Longrightarrow> uint (of_nat n :: u32) = int n"
  using uint_u32_small [of "int n"] by simp

lemma unat_nat32: "n < 2 ^ 31 \<Longrightarrow> unat (of_nat n :: u32) = n"
  by (simp add: unsigned_of_nat take_bit_nat_eq_self)

lemma uint_u64_small: "0 \<le> k \<Longrightarrow> k < 2 ^ 63 \<Longrightarrow> uint (word_of_int k :: u64) = k"
  by (simp add: uint_word_of_int)

lemma uint_nat64: "n < 2 ^ 63 \<Longrightarrow> uint (of_nat n :: u64) = int n"
  using uint_u64_small [of "int n"] by simp

lemma c_int_nat: "n < 2 ^ 31 \<Longrightarrow> c_int (int n) = int n"
  by (simp add: c_int_id)

lemma c_int_uint: "n < 2 ^ 31 \<Longrightarrow> c_int (uint (of_nat n :: u32)) = int n"
  by (simp only: uint_nat32 c_int_nat)

end
