(* ===== verification/Fdt_Sw.thy ===== *)
theory Fdt_Sw
  imports Fdt_Mem
begin

text \<open>
  Building a blob from front to back, \<open>libfdt/fdt_sw.c\<close>. Tags are appended to the structure block, the
  strings grow down from the end of the buffer, and \<open>fdt_finish\<close> moves them behind the structure block
  and corrects the offsets in the properties. The names and values are the lists of their bytes; a
  \<open>len\<close> that is an argument beside a value is the length of the list.

  \<open>None\<close> is a call with a negative size of the buffer, which \<open>memset\<close> would take for a huge one, or a
  walk of \<open>fdt_finish\<close> that does not end.
\<close>

section \<open>The operations\<close>

definition fdt_sw_check_header :: "blob \<Rightarrow> int" where
  "fdt_sw_check_header fdt = (if fdt_magic fdt \<noteq> FDT_SW_MAGIC then - FDT_ERR_BADMAGIC else 0)"

text \<open>\<open>FDT_TAGALIGN\<close> as a \<open>size_t\<close>.\<close>

definition tagalign_size :: "int \<Rightarrow> u64" where
  "tagalign_size x = (word_of_int x + 4 - 1) AND NOT (4 - 1)"

definition fdt_grab_space :: "blob \<Rightarrow> u64 \<Rightarrow> int option \<times> blob" where
  "fdt_grab_space fdt len =
     (let offset = c_int (uint (fdt_size_dt_struct fdt));
          spaceleft = c_int (uint (fdt_totalsize fdt - fdt_off_dt_struct fdt - fdt_size_dt_strings fdt))
      in if word_of_int offset + len < (word_of_int offset :: u64) \<or> word_of_int offset + len > (word_of_int spaceleft :: u64)
         then (None, fdt)
         else let fdt = fdt_set_size_dt_struct fdt (ucast (word_of_int offset + len))
              in (Some (raw_fdt_offset_ptr fdt offset), fdt))"

definition fdt_create :: "blob \<Rightarrow> int \<Rightarrow> (int \<times> blob) option" where
  "fdt_create buf bufsize =
     (if (word_of_int bufsize :: u64) < 40 then Some (- FDT_ERR_NOSPACE, buf)
      else if bufsize < 0 then None
      else let fdt = store_bytes buf 0 (replicate (nat bufsize) 0);
               fdt = fdt_set_magic fdt FDT_SW_MAGIC;
               fdt = fdt_set_version fdt FDT_LAST_SUPPORTED_VERSION;
               fdt = fdt_set_last_comp_version fdt FDT_FIRST_SUPPORTED_VERSION;
               fdt = fdt_set_totalsize fdt (word_of_int bufsize);
               fdt = fdt_set_off_mem_rsvmap fdt ((40 + 16 - 1) AND NOT (16 - 1));
               fdt = fdt_set_off_dt_struct fdt (fdt_off_mem_rsvmap fdt);
               fdt = fdt_set_off_dt_strings fdt (word_of_int bufsize)
           in Some (0, fdt))"

definition fdt_add_reservemap_entry :: "blob \<Rightarrow> u64 \<Rightarrow> u64 \<Rightarrow> int \<times> blob" where
  "fdt_add_reservemap_entry fdt addr sz =
     (if fdt_sw_check_header fdt \<noteq> 0 then (fdt_sw_check_header fdt, fdt)
      else if fdt_size_dt_struct fdt \<noteq> 0 then (- FDT_ERR_BADSTATE, fdt)
      else let offset = c_int (uint (fdt_off_dt_struct fdt)) in
        if (word_of_int offset :: u64) + 16 > ucast (fdt_totalsize fdt) then (- FDT_ERR_NOSPACE, fdt)
        else let fdt = store_bytes fdt offset (be64_bytes addr);
                 fdt = store_bytes fdt (offset + 8) (be64_bytes sz)
             in (0, fdt_set_off_dt_struct fdt (word_of_int (offset + 16))))"

definition fdt_finish_reservemap :: "blob \<Rightarrow> int \<times> blob" where
  "fdt_finish_reservemap fdt = fdt_add_reservemap_entry fdt 0 0"

definition fdt_begin_node :: "blob \<Rightarrow> u8 list \<Rightarrow> int \<times> blob" where
  "fdt_begin_node fdt name =
     (if fdt_sw_check_header fdt \<noteq> 0 then (fdt_sw_check_header fdt, fdt)
      else let namelen = c_int (int (length name) + 1);
               (nh, fdt) = fdt_grab_space fdt (4 + tagalign_size namelen)
           in case nh of
                None \<Rightarrow> (- FDT_ERR_NOSPACE, fdt)
              | Some nh \<Rightarrow>
                  let fdt = put32 fdt nh FDT_BEGIN_NODE;
                      fdt = store_bytes fdt (nh + 4) (name @ [0])
                  in (0, fdt))"

definition fdt_end_node :: "blob \<Rightarrow> int \<times> blob" where
  "fdt_end_node fdt =
     (if fdt_sw_check_header fdt \<noteq> 0 then (fdt_sw_check_header fdt, fdt)
      else let (en, fdt) = fdt_grab_space fdt (word_of_int FDT_TAGSIZE)
           in case en of None \<Rightarrow> (- FDT_ERR_NOSPACE, fdt) | Some en \<Rightarrow> (0, put32 fdt en FDT_END_NODE))"

text \<open>
  The distance of the string to the end of the buffer, a negative number, or 0 when there is no room;
  the end of the new string is compared with the end of the structure block in \<open>unsigned int\<close>.
\<close>

definition sw_find_add_string :: "blob \<Rightarrow> u8 list \<Rightarrow> int \<times> blob" where
  "sw_find_add_string fdt s =
     (let strtab = uint (fdt_totalsize fdt);
          strtabsize = c_int (uint (fdt_size_dt_strings fdt));
          len = c_int (int (length s) + 1)
      in case fdt_find_string (load_bytes fdt (strtab - strtabsize) (nat strtabsize)) s of
           Some p \<Rightarrow> (int p - strtabsize, fdt)
         | None \<Rightarrow>
             let offset = c_int (- strtabsize - len);
                 struct_top = c_int (uint (fdt_off_dt_struct fdt + fdt_size_dt_struct fdt))
             in if fdt_totalsize fdt + word_of_int offset < word_of_int struct_top then (0, fdt)
                else let fdt = store_bytes fdt (strtab + offset) (s @ [0]);
                         fdt = fdt_set_size_dt_strings fdt (word_of_int (strtabsize + len))
                     in (offset, fdt))"

definition fdt_property :: "blob \<Rightarrow> u8 list \<Rightarrow> u8 list \<Rightarrow> int \<times> blob" where
  "fdt_property fdt name val =
     (if fdt_sw_check_header fdt \<noteq> 0 then (fdt_sw_check_header fdt, fdt)
      else let (nameoff, fdt) = sw_find_add_string fdt name
           in if nameoff = 0 then (- FDT_ERR_NOSPACE, fdt)
              else let (p, fdt) = fdt_grab_space fdt (12 + tagalign_size (int (length val)))
                   in case p of
                        None \<Rightarrow> (- FDT_ERR_NOSPACE, fdt)
                      | Some p \<Rightarrow>
                          let fdt = put32 fdt p FDT_PROP;
                              fdt = put32 fdt (p + 8) (word_of_int nameoff);
                              fdt = put32 fdt (p + 4) (of_nat (length val));
                              fdt = store_bytes fdt (p + 12) val
                          in (0, fdt))"

text \<open>The walk over the structure block that corrects the offsets of the names.\<close>

partial_function (option) finish_loop :: "blob \<Rightarrow> int \<Rightarrow> (int \<times> blob) option" where
  [code]: "finish_loop fdt offset = do {
     (tag, nextoffset) \<leftarrow> fdt_next_tag fdt offset;
     if tag = FDT_END then Some (nextoffset, fdt)
     else if tag = FDT_PROP then
       let p = raw_fdt_offset_ptr fdt offset;
           nameoff = be32 fdt (p + 8) + fdt_size_dt_strings fdt
       in finish_loop (put32 fdt (p + 8) nameoff) nextoffset
     else finish_loop fdt nextoffset
   }"

definition fdt_finish :: "blob \<Rightarrow> (int \<times> blob) option" where
  "fdt_finish fdt =
     (if fdt_sw_check_header fdt \<noteq> 0 then Some (fdt_sw_check_header fdt, fdt)
      else let (e, fdt) = fdt_grab_space fdt 4
           in case e of
                None \<Rightarrow> Some (- FDT_ERR_NOSPACE, fdt)
              | Some e \<Rightarrow> do {
                  let fdt = put32 fdt e FDT_END;
                  let oldstroffset = c_int (uint (fdt_totalsize fdt - fdt_size_dt_strings fdt));
                  let newstroffset = c_int (uint (fdt_off_dt_struct fdt + fdt_size_dt_struct fdt));
                  let fdt = memmove fdt newstroffset oldstroffset (unat (fdt_size_dt_strings fdt));
                  let fdt = fdt_set_off_dt_strings fdt (word_of_int newstroffset);
                  (nextoffset, fdt) \<leftarrow> finish_loop fdt 0;
                  if nextoffset < 0 then Some (nextoffset, fdt)
                  else
                    let fdt = fdt_set_totalsize fdt (word_of_int newstroffset + fdt_size_dt_strings fdt)
                    in Some (0, fdt_set_magic fdt FDT_MAGIC)
                })"

section \<open>The contents of a buffer\<close>

lemma tagalign_size_eq:
  assumes "0 \<le> x" "x < 2 ^ 32"
  shows "tagalign_size x = word_of_int ((x + 3) div 4 * 4)"
proof -
  have "tagalign_size x = word_of_int ((x + 3) AND NOT 3)"
    by (simp add: tagalign_size_def of_int_and_eq of_int_not_eq add.commute)
  also have "(x + 3) AND NOT 3 = (x + 3) div 4 * 4" by (simp only: align4 minus_mod_eq_div_mult)
  finally show ?thesis .
qed

lemma tagalign_size_nat: "n < 2 ^ 32 \<Longrightarrow> tagalign_size (int n) = of_nat ((n + 3) div 4 * 4)"
proof -
  assume "n < 2 ^ 32"
  moreover have "(int n + 3) div 4 * 4 = int ((n + 3) div 4 * 4)" by (simp add: zdiv_int)
  ultimately show ?thesis by (subst tagalign_size_eq) (simp_all only: of_int_of_nat_eq, simp_all)
qed

text \<open>
  The reservations, the tags and the string table of a blob that is being built in a buffer of \<open>n\<close>
  bytes. Between the tags and the strings the buffer is zero.
\<close>

record sw_state =
  sw_rsv :: "(u64 \<times> u64) list"
  sw_tags :: "fdt_token list"
  sw_strs :: "u8 list"

definition rsv_bytes :: "(u64 \<times> u64) list \<Rightarrow> u8 list" where
  "rsv_bytes rs = concat (map (\<lambda>(a, s). be64_bytes a @ be64_bytes s) rs)"

definition sw_struct :: "sw_state \<Rightarrow> nat" where
  "sw_struct s = 48 + 16 * length (sw_rsv s)"

definition sw_end :: "sw_state \<Rightarrow> nat" where
  "sw_end s = sw_struct s + length (encs (sw_tags s))"

definition sw_used :: "sw_state \<Rightarrow> nat" where
  "sw_used s = sw_end s + length (sw_strs s)"

definition sw_blob :: "nat \<Rightarrow> sw_state \<Rightarrow> blob \<Rightarrow> bool" where
  "sw_blob n s fdt \<longleftrightarrow>
     n < 2 ^ 31 \<and> sw_used s \<le> n \<and>
     fdt_magic fdt = FDT_SW_MAGIC \<and> fdt_version fdt = 17 \<and> fdt_last_comp_version fdt = 16 \<and>
     fdt_totalsize fdt = of_nat n \<and> fdt_off_mem_rsvmap fdt = 48 \<and>
     fdt_off_dt_struct fdt = of_nat (sw_struct s) \<and> fdt_size_dt_struct fdt = of_nat (length (encs (sw_tags s))) \<and>
     fdt_size_dt_strings fdt = of_nat (length (sw_strs s)) \<and>
     holds fdt 48 (rsv_bytes (sw_rsv s)) \<and> holds fdt (int (sw_struct s)) (encs (sw_tags s)) \<and>
     (\<forall>q. int (sw_end s) \<le> q \<longrightarrow> q < int n - int (length (sw_strs s)) \<longrightarrow> fdt q = 0) \<and>
     holds fdt (int n - int (length (sw_strs s))) (sw_strs s)"

lemma length_rsv_bytes [simp]: "length (rsv_bytes rs) = 16 * length rs"
  by (induction rs) (auto simp: rsv_bytes_def)

lemmas sw_defs = sw_struct_def sw_end_def sw_used_def

lemma create_blob:
  assumes "48 \<le> n" "n < 2 ^ 31"
  shows "\<exists>fdt'. fdt_create fdt (int n) = Some (0, fdt') \<and> sw_blob n \<lparr>sw_rsv = [], sw_tags = [], sw_strs = []\<rparr> fdt' \<and>
    changed 0 (int n) fdt fdt'"
proof -
  have "uint (of_nat n :: u64) = int n" using assms by (simp add: uint_nat64)
  then have "\<not> (word_of_int (int n) :: u64) < 40" using assms by (simp add: word_less_def)
  moreover have "(40 + 16 - 1 :: u32) AND NOT (16 - 1) = 48" by code_simp
  moreover have "store_bytes fdt 0 (replicate n 0) q = 0" if "0 \<le> q" "q < int n" for q
    using that by (simp add: store_bytes_def)
  moreover from calculation(3) have "be32 (store_bytes fdt 0 (replicate n 0)) p = 0" if "0 \<le> p" "p + 4 \<le> int n" for p
    using that by (simp add: be32_def le32_def)
  ultimately show ?thesis using assms
    by (auto simp: fdt_create_def Let_def sw_blob_def sw_defs rsv_bytes_def fdt_get_defs fdt_set_defs const_defs
        intro!: changed_steps)
qed

lemma grab:
  assumes "sw_blob n s fdt" "k < 2 ^ 32"
  shows "fdt_grab_space fdt (of_nat k) =
    (if sw_used s + k \<le> n
     then (Some (int (sw_end s)), fdt_set_size_dt_struct fdt (of_nat (length (encs (sw_tags s)) + k)))
     else (None, fdt))"
proof -
  let ?m = "length (encs (sw_tags s))" and ?left = "n - sw_struct s - length (sw_strs s)"
  have n: "n < 2 ^ 31" and used: "sw_struct s + ?m + length (sw_strs s) \<le> n"
    using assms(1) by (auto simp: sw_blob_def sw_end_def sw_used_def)
  have "fdt_totalsize fdt - fdt_off_dt_struct fdt - fdt_size_dt_strings fdt = of_nat ?left"
    using assms(1) used by (simp add: sw_blob_def of_nat_diff)
  then have left: "c_int (uint (fdt_totalsize fdt - fdt_off_dt_struct fdt - fdt_size_dt_strings fdt)) = int ?left"
    using n by (simp only:) (simp add: uint_nat32 c_int_nat)
  have m: "c_int (uint (fdt_size_dt_struct fdt)) = int ?m" "?m < 2 ^ 31"
    using assms(1) n used by (auto simp: sw_blob_def uint_nat32 c_int_nat)
  have sum: "(of_nat ?m + of_nat k :: u64) = of_nat (?m + k)" by simp
  have u: "uint (of_nat ?m :: u64) = int ?m" "uint (of_nat (?m + k) :: u64) = int (?m + k)" "uint (of_nat ?left :: u64) = int ?left"
    by (rule uint_nat64, use m(2) assms(2) n in simp)+
  have "raw_fdt_offset_ptr (fdt_set_size_dt_struct fdt v) (int ?m) = int (sw_end s)" for v
    using assms(1) n used by (simp add: raw_fdt_offset_ptr_def fdt_set_defs fdt_get_defs sw_blob_def sw_end_def uint_nat32)
  moreover have "ucast (of_nat (?m + k) :: u64) = (of_nat (?m + k) :: u32)"
    using m(2) assms(2) by (subst unsigned_of_nat) (simp add: take_bit_nat_eq_self)
  moreover have "sw_used s + k \<le> n \<longleftrightarrow> \<not> ?left < ?m + k" using used by (auto simp: sw_used_def sw_end_def)
  ultimately show ?thesis
    by (simp only: fdt_grab_space_def Let_def left m(1) of_int_of_nat_eq sum word_less_def u of_nat_less_iff) simp
qed

text \<open>Appending a token: the header but for the size, and what lies around the token, stay as they are.\<close>

lemma append_token:
  assumes "sw_blob n s fdt" "sw_used s + length (enc t) \<le> n"
    and "moved 0 0 36 fdt fdt'" "fdt_size_dt_struct fdt' = of_nat (length (encs (sw_tags s)) + length (enc t))"
    and "moved 0 40 (int (sw_end s) - 40) fdt fdt'"
    and "moved 0 (int (sw_end s + length (enc t))) (int n - int (sw_end s + length (enc t))) fdt fdt'"
    and "holds fdt' (int (sw_end s)) (enc t)"
  shows "sw_blob n (s\<lparr>sw_tags := sw_tags s @ [t]\<rparr>) fdt'"
proof -
  let ?s = "s\<lparr>sw_tags := sw_tags s @ [t]\<rparr>"
  have e: "sw_struct ?s = sw_struct s" "sw_end ?s = sw_end s + length (enc t)" "sw_used ?s = sw_used s + length (enc t)"
    by (simp_all add: sw_defs)
  have head: "be32 fdt' k = be32 fdt k" if "0 \<le> k" "k + 4 \<le> 36" for k
    using moved_be32 [OF moved_sub [OF assms(3) that(1), of 4]] that(2) by simp
  have "holds fdt' 48 (rsv_bytes (sw_rsv s))" "holds fdt' (int (sw_struct s)) (encs (sw_tags s))"
    using moved_holds [OF moved_sub [OF assms(5), of 48 "int (16 * length (sw_rsv s))"], of "rsv_bytes (sw_rsv s)"]
      moved_holds [OF moved_sub [OF assms(5), of "int (sw_struct s)" "int (length (encs (sw_tags s)))"], of "encs (sw_tags s)"] assms(1)
    by (simp_all add: sw_blob_def sw_defs)
  moreover have "holds fdt' (int n - int (length (sw_strs s))) (sw_strs s)"
    using moved_holds [OF moved_sub [OF assms(6), of "int n - int (length (sw_strs s))" "int (length (sw_strs s))"], of "sw_strs s"]
      assms(1,2) by (simp add: sw_blob_def sw_defs)
  moreover have "fdt' q = 0" if "int (sw_end s + length (enc t)) \<le> q" "q < int n - int (length (sw_strs s))" for q
    using assms(1,6) that by (auto simp: sw_blob_def moved_def)
  ultimately show ?thesis using assms(1,2,4,7)
    by (auto simp: sw_blob_def e fdt_get_defs head holds_append) (simp_all add: sw_defs add.assoc)
qed

lemma sw_header: "sw_blob n s fdt \<Longrightarrow> fdt_sw_check_header fdt = 0"
  by (simp add: sw_blob_def fdt_sw_check_header_def)

lemma sw_end_range: "sw_blob n s fdt \<Longrightarrow> 48 \<le> sw_end s \<and> sw_end s + length (sw_strs s) \<le> n"
  by (auto simp: sw_blob_def sw_defs)

text \<open>The bytes behind the tag and the payload are 0 from the start.\<close>

lemma append_stored:
  assumes "sw_blob n s fdt" "sw_used s + length (enc t) \<le> n"
    and "moved 0 0 36 fdt fdt'" "fdt_size_dt_struct fdt' = of_nat (length (encs (sw_tags s)) + length (enc t))"
    and "moved 0 40 (int (sw_end s) - 40) fdt fdt'"
    and "moved 0 (int (sw_end s) + 4 + int (length (payload t))) (int n - (int (sw_end s) + 4 + int (length (payload t)))) fdt fdt'"
    and "holds fdt' (int (sw_end s)) (be_bytes (tag_of t) @ payload t)"
  shows "sw_blob n (s\<lparr>sw_tags := sw_tags s @ [t]\<rparr>) fdt'"
proof (rule append_token [OF assms(1-5)])
  have len: "4 + length (payload t) \<le> length (enc t)" unfolding length_enc by simp
  show "moved 0 (int (sw_end s + length (enc t))) (int n - int (sw_end s + length (enc t))) fdt fdt'"
    using len by (intro moved_sub [OF assms(6)]) auto
  show "holds fdt' (int (sw_end s)) (enc t)"
  proof (rule holds_enc [OF assms(7)])
    fix q assume "int (sw_end s) + 4 + int (length (payload t)) \<le> q" "q < int (sw_end s) + int (length (enc t))"
    then have "fdt' q = fdt q" "int (sw_end s) \<le> q" "q < int n - int (length (sw_strs s))"
      using assms(2,6) by (auto simp: moved_def sw_used_def)
    then show "fdt' q = 0" using assms(1) by (auto simp: sw_blob_def)
  qed
qed

lemma begin_node_blob:
  assumes "sw_blob n s fdt" "length name < 2 ^ 31 - 1"
  shows "if sw_used s + length (enc (BeginNode name)) \<le> n
    then \<exists>fdt'. fdt_begin_node fdt name = (0, fdt') \<and> sw_blob n (s\<lparr>sw_tags := sw_tags s @ [BeginNode name]\<rparr>) fdt' \<and>
      changed 0 (int n) fdt fdt'
    else fdt_begin_node fdt name = (- FDT_ERR_NOSPACE, fdt)"
proof -
  let ?t = "BeginNode name" and ?p = "int (sw_end s)"
  have len: "length (enc ?t) = 4 + (length name + 1 + 3) div 4 * 4" by (simp add: length_enc)
  have c: "c_int (int (length name) + 1) = int (length name + 1)"
    using assms(2) c_int_nat [of "length name + 1"] by (simp add: add.commute)
  have size: "4 + tagalign_size (int (length name + 1)) = of_nat (length (enc ?t))"
    using assms(2) by (subst tagalign_size_nat) (simp_all add: len)
  have "length (enc ?t) < 2 ^ 32" using assms(2) by (simp add: len)
  note g = grab [OF assms(1) this]
  note range = sw_end_range [OF assms(1)]
  show ?thesis
  proof (cases "sw_used s + length (enc ?t) \<le> n")
    case True
    let ?f = "fdt_set_size_dt_struct fdt (of_nat (length (encs (sw_tags s)) + length (enc ?t)))"
    let ?f' = "store_bytes (put32 ?f ?p FDT_BEGIN_NODE) (?p + 4) (name @ [0])"
    have "4 + length (payload ?t) \<le> length (enc ?t)" unfolding length_enc by simp
    then have room: "?p + 4 + int (length name) + 1 \<le> int n" using True by (simp add: sw_used_def)
    have "fdt_begin_node fdt name = (0, ?f')"
      using True by (simp only: fdt_begin_node_def sw_header [OF assms(1)] Let_def c size g) simp
    moreover have "sw_blob n (s\<lparr>sw_tags := sw_tags s @ [?t]\<rparr>) ?f'"
      by (rule append_stored [OF assms(1) True])
        (use range room in \<open>auto simp: fdt_set_defs fdt_get_defs holds_be_append intro!: moved_steps\<close>)
    moreover have "changed 0 (int n) fdt ?f'"
      using range room by (auto simp: fdt_set_defs intro!: changed_steps)
    ultimately show ?thesis using True by auto
  next
    case False
    then show ?thesis by (simp only: fdt_begin_node_def sw_header [OF assms(1)] Let_def c size g) simp
  qed
qed

lemma end_node_blob:
  assumes "sw_blob n s fdt"
  shows "if sw_used s + 4 \<le> n
    then \<exists>fdt'. fdt_end_node fdt = (0, fdt') \<and> sw_blob n (s\<lparr>sw_tags := sw_tags s @ [EndNode]\<rparr>) fdt' \<and> changed 0 (int n) fdt fdt'
    else fdt_end_node fdt = (- FDT_ERR_NOSPACE, fdt)"
proof -
  let ?p = "int (sw_end s)" and ?f = "fdt_set_size_dt_struct fdt (of_nat (length (encs (sw_tags s)) + 4))"
  have len: "length (enc EndNode) = 4" by (simp add: length_enc)
  have size: "word_of_int FDT_TAGSIZE = (of_nat 4 :: u64)" by (simp add: FDT_TAGSIZE_def)
  note g = grab [OF assms, of 4]
  note range = sw_end_range [OF assms]
  show ?thesis
  proof (cases "sw_used s + 4 \<le> n")
    case True
    then have room: "?p + 4 \<le> int n" by (simp add: sw_used_def)
    have "fdt_end_node fdt = (0, put32 ?f ?p FDT_END_NODE)"
      using True g by (simp add: fdt_end_node_def sw_header [OF assms] size)
    moreover have "sw_blob n (s\<lparr>sw_tags := sw_tags s @ [EndNode]\<rparr>) (put32 ?f ?p FDT_END_NODE)"
      by (rule append_stored [OF assms])
        (use True range room in \<open>auto simp: len fdt_set_defs fdt_get_defs intro!: moved_steps\<close>)
    moreover have "changed 0 (int n) fdt (put32 ?f ?p FDT_END_NODE)"
      using range room by (auto simp: fdt_set_defs intro!: changed_steps)
    ultimately show ?thesis using True by auto
  next
    case False
    then show ?thesis using g by (simp add: fdt_end_node_def sw_header [OF assms] size)
  qed
qed

section \<open>Strings\<close>

text \<open>A string ends \<open>d\<close> bytes in front of the end of the table.\<close>

definition string_from_end :: "u8 list \<Rightarrow> nat \<Rightarrow> u8 list \<Rightarrow> bool" where
  "string_from_end strs d k \<longleftrightarrow> d \<le> length strs \<and> take (length k + 1) (drop (length strs - d) strs) = k @ [0]"

lemma string_from_end_append: "string_from_end strs d k \<Longrightarrow> string_from_end (xs @ strs) d k"
  by (auto simp: string_from_end_def)

lemma find_string_loop_Some:
  "find_string_loop strtab p n s = Some q \<Longrightarrow> q < p + n \<and> take (length s + 1) (drop q strtab) = s @ [0]"
  by (induction strtab p n s rule: find_string_loop.induct) (auto split: if_splits)

lemma find_string_Some:
  assumes "fdt_find_string strs k = Some p"
  shows "p < length strs \<and> string_from_end strs (length strs - p) k"
proof -
  let ?m = "if length k + 1 \<le> length strs then length strs - (length k + 1) + 1 else 0"
  have "find_string_loop strs 0 ?m k = Some p" using assms by (simp only: fdt_find_string_def Let_def)
  from find_string_loop_Some [OF this] show ?thesis by (auto simp: string_from_end_def split: if_splits)
qed

definition sw_intern :: "u8 list \<Rightarrow> sw_state \<Rightarrow> nat \<times> sw_state" where
  "sw_intern k s =
     (case fdt_find_string (sw_strs s) k of
        Some p \<Rightarrow> (length (sw_strs s) - p, s)
      | None \<Rightarrow> (length (sw_strs s) + length k + 1, s\<lparr>sw_strs := k @ [0] @ sw_strs s\<rparr>))"

lemma sw_intern_string:
  "sw_intern k s = (d, s') \<Longrightarrow> 0 < d \<and> string_from_end (sw_strs s') d k \<and> sw_rsv s' = sw_rsv s \<and> sw_tags s' = sw_tags s \<and>
    (\<exists>xs. sw_strs s' = xs @ sw_strs s)"
  using find_string_Some [of "sw_strs s" k]
  by (auto simp: sw_intern_def string_from_end_def split: option.splits)

lemma find_add_string_blob:
  assumes "sw_blob n s fdt" "length (sw_strs s) + length k + 1 \<le> n" "sw_intern k s = (d, s')"
  shows "if sw_used s' \<le> n
    then \<exists>fdt'. sw_find_add_string fdt k = (- int d, fdt') \<and> sw_blob n s' fdt' \<and> changed 0 (int n) fdt fdt'
    else sw_find_add_string fdt k = (0, fdt)"
proof -
  let ?l = "length (sw_strs s)" and ?top = "sw_end s"
  have n: "n < 2 ^ 31" "?top + ?l \<le> n" using assms(1) by (auto simp: sw_blob_def sw_used_def)
  have tot: "uint (fdt_totalsize fdt) = int n" "c_int (uint (fdt_size_dt_strings fdt)) = int ?l"
    using assms(1) n by (auto simp: sw_blob_def uint_nat32 c_int_nat)
  have len: "c_int (int (length k) + 1) = int (length k) + 1"
    using assms(2) n c_int_nat [of "length k + 1"] by (simp add: add.commute)
  have tab: "load_bytes fdt (int n - int ?l) ?l = sw_strs s"
    using assms(1) by (intro load_holds) (simp add: sw_blob_def)
  show ?thesis
  proof (cases "fdt_find_string (sw_strs s) k")
    case (Some p)
    then have "s' = s" "d = ?l - p" "p < ?l" using assms(3) find_string_Some by (auto simp: sw_intern_def)
    then show ?thesis using assms(1) n Some
      by (simp add: sw_find_add_string_def tot len tab sw_used_def Let_def)
  next
    case None
    then have s': "s' = s\<lparr>sw_strs := k @ [0] @ sw_strs s\<rparr>" "d = ?l + length k + 1"
      using assms(3) by (auto simp: sw_intern_def)
    have off: "c_int (- int ?l - (int (length k) + 1)) = - int d"
      using s'(2) assms(2) n by (subst c_int_id) auto
    have "fdt_off_dt_struct fdt + fdt_size_dt_struct fdt = of_nat ?top"
      using assms(1) by (simp add: sw_blob_def sw_end_def)
    then have endw: "c_int (uint (fdt_off_dt_struct fdt + fdt_size_dt_struct fdt)) = int ?top"
      using n by (simp add: uint_nat32 c_int_nat)
    have "fdt_totalsize fdt - of_nat d = of_nat (n - d)"
      using assms(1,2) s'(2) by (simp add: sw_blob_def of_nat_diff)
    then have test: "fdt_totalsize fdt - of_nat d < of_nat ?top \<longleftrightarrow> n - d < ?top"
      using n by (simp add: word_less_def uint_nat32 del: of_nat_diff)
    have used: "sw_used s' \<le> n \<longleftrightarrow> \<not> n - d < ?top" and fits: "sw_used s' \<le> n \<Longrightarrow> ?top + d \<le> n"
      using s' assms(2) n by (auto simp: sw_defs)
    show ?thesis
    proof (cases "sw_used s' \<le> n")
      case True
      let ?f = "store_bytes fdt (int n - int d) (k @ [0])"
      let ?f' = "fdt_set_size_dt_strings ?f (word_of_int (int ?l + (int (length k) + 1)))"
      have room: "int ?top \<le> int n - int d" "40 \<le> int n - int d" using fits [OF True] sw_end_range [OF assms(1)] by auto
      have add: "sw_find_add_string fdt k = (- int d, ?f')"
        using None True used by (simp add: sw_find_add_string_def tot len tab off endw test Let_def)
      moreover have "sw_blob n s' ?f'"
      proof -
        have m: "moved 0 40 (int n - int d - 40) fdt ?f'"
          using room by (auto simp: fdt_set_defs intro!: moved_steps)
        have strs: "holds ?f' (int n - int d) (k @ [0])" "holds ?f' (int n - int ?l) (sw_strs s)"
          using room assms(1) s'(2) by (auto simp: fdt_set_defs sw_blob_def)
        have "holds ?f' 48 (rsv_bytes (sw_rsv s))" "holds ?f' (int (sw_struct s)) (encs (sw_tags s))"
          using moved_holds [OF moved_sub [OF m, of 48 "int (16 * length (sw_rsv s))"], of "rsv_bytes (sw_rsv s)"]
            moved_holds [OF moved_sub [OF m, of "int (sw_struct s)" "int (length (encs (sw_tags s)))"], of "encs (sw_tags s)"]
            assms(1) room by (simp_all add: sw_blob_def sw_defs)
        moreover have "?f' q = 0" if "int ?top \<le> q" "q < int n - int d" for q
        proof -
          have "?f' (q + 0) = fdt q"
            using m [unfolded moved_def, rule_format, of q] that sw_end_range [OF assms(1)] by simp
          moreover have "fdt q = 0" using that assms(1) s'(2) by (auto simp: sw_blob_def)
          ultimately show ?thesis by simp
        qed
        moreover have "sw_struct s' = sw_struct s" "sw_end s' = ?top" by (simp_all add: s'(1) sw_defs)
        moreover have "holds ?f' (int n - int (length (k @ [0] @ sw_strs s))) (k @ [0] @ sw_strs s)"
          using strs s'(2) by (simp add: holds_append [of _ _ "k @ [0]" "sw_strs s", simplified] algebra_simps)
        ultimately show ?thesis using assms(1) True s' room(2)
          by (simp add: sw_blob_def fdt_get_defs fdt_set_defs)
      qed
      moreover have "changed 0 (int n) fdt ?f'"
        using room s'(2) by (auto simp: fdt_set_defs intro!: changed_steps)
      ultimately show ?thesis using True by auto
    next
      case False
      then show ?thesis using None used by (simp add: sw_find_add_string_def tot len tab off endw test Let_def)
    qed
  qed
qed

section \<open>Properties and reservations\<close>

lemma property_blob:
  assumes "sw_blob n s fdt" "length (sw_strs s) + length k + 1 \<le> n" "sw_intern k s = (d, s')" "length v < 2 ^ 31"
  shows "if sw_used s' + length (enc (Prop (word_of_int (- int d)) v)) \<le> n
    then \<exists>fdt'. fdt_property fdt k v = (0, fdt') \<and>
      sw_blob n (s'\<lparr>sw_tags := sw_tags s @ [Prop (word_of_int (- int d)) v]\<rparr>) fdt' \<and> changed 0 (int n) fdt fdt'
    else \<exists>fdt' s''. fdt_property fdt k v = (- FDT_ERR_NOSPACE, fdt') \<and> sw_blob n s'' fdt' \<and> s'' \<in> {s, s'} \<and> changed 0 (int n) fdt fdt'"
proof -
  let ?t = "Prop (word_of_int (- int d)) v" and ?p = "int (sw_end s')"
  have len: "length (enc (Prop x v)) = 12 + (length v + 3) div 4 * 4" for x by (simp add: length_enc) presburger
  have size: "12 + tagalign_size (int (length v)) = of_nat (length (enc ?t))"
    using assms(4) by (subst tagalign_size_nat) (simp_all add: len)
  have small: "length (enc ?t) < 2 ^ 32" using assms(4) by (simp add: len)
  have d: "0 < d" "sw_tags s' = sw_tags s" using sw_intern_string [OF assms(3)] by auto
  show ?thesis
  proof (cases "sw_used s' \<le> n")
    case False
    then have "sw_find_add_string fdt k = (0, fdt)" using find_add_string_blob [OF assms(1-3)] by simp
    then have "fdt_property fdt k v = (- FDT_ERR_NOSPACE, fdt)"
      by (simp add: fdt_property_def sw_header [OF assms(1)])
    with False assms(1) show ?thesis by auto
  next
    case True
    then obtain fdt1 where find: "sw_find_add_string fdt k = (- int d, fdt1)" and 1: "sw_blob n s' fdt1" "changed 0 (int n) fdt fdt1"
      using find_add_string_blob [OF assms(1-3)] by auto
    note g = grab [OF 1(1) small]
    note range = sw_end_range [OF 1(1)]
    show ?thesis
    proof (cases "sw_used s' + length (enc ?t) \<le> n")
      case True
      let ?f = "fdt_set_size_dt_struct fdt1 (of_nat (length (encs (sw_tags s')) + length (enc ?t)))"
      let ?f' = "store_bytes (put32 (put32 (put32 ?f ?p FDT_PROP) (?p + 8) (word_of_int (- int d))) (?p + 4) (of_nat (length v)))
        (?p + 12) v"
      have room: "?p + 12 + int (length v) \<le> int n" using True by (simp add: sw_used_def len)
      have "fdt_property fdt k v = (0, ?f')"
        using True d by (simp only: fdt_property_def sw_header [OF assms(1)] find Let_def prod.case size g) simp
      moreover have "sw_blob n (s'\<lparr>sw_tags := sw_tags s' @ [?t]\<rparr>) ?f'"
        by (rule append_stored [OF 1(1) True])
          (use range room in \<open>auto simp: fdt_set_defs fdt_get_defs holds_be_prop intro!: moved_steps\<close>)
      moreover have "changed 0 (int n) fdt ?f'"
        using range room 1(2) by (auto simp: fdt_set_defs intro!: changed_steps)
      ultimately show ?thesis using True d(2) by auto
    next
      case False
      have "fdt_property fdt k v = (- FDT_ERR_NOSPACE, fdt1)"
        using False d by (simp only: fdt_property_def sw_header [OF assms(1)] find Let_def prod.case size g) simp
      with False 1 show ?thesis by auto
    qed
  qed
qed

lemma rsv_bytes_append: "rsv_bytes (rs @ [(a, b)]) = rsv_bytes rs @ be64_bytes a @ be64_bytes b"
  by (simp add: rsv_bytes_def)

lemma reservemap_blob:
  assumes "sw_blob n s fdt" "sw_tags s = []"
  shows "if sw_struct s + 16 \<le> n
    then fdt_add_reservemap_entry fdt a b = (0, fdt_set_off_dt_struct
        (store_bytes (store_bytes fdt (int (sw_struct s)) (be64_bytes a)) (int (sw_struct s) + 8) (be64_bytes b))
        (of_nat (sw_struct s + 16)))
    else fdt_add_reservemap_entry fdt a b = (- FDT_ERR_NOSPACE, fdt)"
proof -
  have n: "n < 2 ^ 31" "sw_struct s \<le> n" using assms by (auto simp: sw_blob_def sw_defs)
  have off: "c_int (uint (fdt_off_dt_struct fdt)) = int (sw_struct s)"
    using assms(1) n by (simp add: sw_blob_def uint_nat32 c_int_nat)
  have "(word_of_int (int (sw_struct s)) :: u64) + 16 = of_nat (sw_struct s + 16)" by simp
  moreover have "ucast (fdt_totalsize fdt) = (of_nat n :: u64)"
  proof -
    have "fdt_totalsize fdt = of_nat n" using assms(1) by (simp add: sw_blob_def)
    then show ?thesis using n by (simp add: unsigned_of_nat take_bit_nat_eq_self)
  qed
  ultimately have "(word_of_int (int (sw_struct s)) :: u64) + 16 > ucast (fdt_totalsize fdt) \<longleftrightarrow> n < sw_struct s + 16"
    using n by (simp only: word_less_def) (simp add: uint_nat64 del: of_nat_add)
  then show ?thesis
    using assms off by (simp add: fdt_add_reservemap_entry_def sw_header [OF assms(1)] sw_blob_def Let_def)
qed

lemma reservemap_added:
  assumes "sw_blob n s fdt" "sw_tags s = []" "sw_used s + 16 \<le> n"
  shows "\<exists>fdt'. fdt_add_reservemap_entry fdt a b = (0, fdt') \<and> sw_blob n (s\<lparr>sw_rsv := sw_rsv s @ [(a, b)]\<rparr>) fdt' \<and>
    changed 0 (int n) fdt fdt'"
proof -
  let ?p = "int (sw_struct s)" and ?s = "s\<lparr>sw_rsv := sw_rsv s @ [(a, b)]\<rparr>"
  let ?f = "fdt_set_off_dt_struct (store_bytes (store_bytes fdt ?p (be64_bytes a)) (?p + 8) (be64_bytes b)) (of_nat (sw_struct s + 16))"
  have room: "48 \<le> ?p" "?p + 16 \<le> int n - int (length (sw_strs s))" using assms(2,3) by (auto simp: sw_defs)
  have e: "sw_struct ?s = sw_struct s + 16" "sw_end ?s = sw_end s + 16" "sw_end s = sw_struct s" "sw_used ?s = sw_used s + 16"
    using assms(2) by (simp_all add: sw_defs)
  have "fdt_add_reservemap_entry fdt a b = (0, ?f)" using reservemap_blob [OF assms(1,2), of a b] room by simp
  moreover have "sw_blob n ?s ?f"
  proof -
    have "holds ?f 48 (rsv_bytes (sw_rsv s))" "holds ?f ?p (be64_bytes a)" "holds ?f (?p + 8) (be64_bytes b)"
      using room assms(1) by (auto simp: fdt_set_defs sw_blob_def sw_struct_def)
    then have "holds ?f 48 (rsv_bytes (sw_rsv ?s))" by (simp add: rsv_bytes_append holds_append sw_struct_def add.commute)
    moreover have "holds ?f (int n - int (length (sw_strs s))) (sw_strs s)"
      using room assms(1) by (auto simp: fdt_set_defs sw_blob_def)
    moreover have "?f q = 0" if "?p + 16 \<le> q" "q < int n - int (length (sw_strs s))" for q
    proof -
      have "?f q = fdt q" using that room by (simp add: fdt_set_defs)
      then show ?thesis using that assms(1) e(3) by (auto simp: sw_blob_def)
    qed
    ultimately show ?thesis using assms room e by (simp add: sw_blob_def fdt_get_defs fdt_set_defs)
  qed
  moreover have "changed 0 (int n) fdt ?f"
    using room by (auto simp: fdt_set_defs intro!: changed_steps)
  ultimately show ?thesis by blast
qed

end
