(* ===== verification/Fdt_Rw.thy ===== *)
theory Fdt_Rw
  imports Fdt_Sw
begin

text \<open>
  Changing a blob: \<open>libfdt/fdt_wip.c\<close>, which keeps its size, \<open>fdt_rw.c\<close>, which makes or closes gaps in it,
  and \<open>fdt_empty_tree.c\<close>. A function returns its code and the memory. Names and values are lists of bytes;
  a \<open>len\<close> or \<open>namelen\<close> beside them is the length of the list. \<open>None\<close> is a loop that does not end or a
  store or a copy outside the defined behaviour of C (a \<open>NULL\<close> pointer, a negative length).
\<close>

section \<open>Changes in place\<close>

definition fdt_setprop_inplace :: "blob \<Rightarrow> int \<Rightarrow> u8 list \<Rightarrow> u8 list \<Rightarrow> (int \<times> blob) option" where
  "fdt_setprop_inplace fdt nodeoffset name val = do {
     (propval, proplen) \<leftarrow> fdt_getprop fdt nodeoffset name;
     case propval of
       None \<Rightarrow> Some (proplen, fdt)
     | Some p \<Rightarrow> Some (if proplen \<noteq> int (length val) then (- FDT_ERR_NOSPACE, fdt) else (0, store_bytes fdt p val))
   }"

function nop_region_loop :: "blob \<Rightarrow> int \<Rightarrow> int \<Rightarrow> blob" where
  "nop_region_loop fdt p e = (if p < e then nop_region_loop (put32 fdt p FDT_NOP) (p + 4) e else fdt)"
  by pat_completeness auto
termination
  by (relation "measure (\<lambda>(fdt, p, e). nat (e - p))") auto

declare nop_region_loop.simps [simp del]

definition fdt_nop_region :: "blob \<Rightarrow> int \<Rightarrow> int \<Rightarrow> blob" where
  "fdt_nop_region fdt start len = nop_region_loop fdt start (start + len)"

definition fdt_nop_property :: "blob \<Rightarrow> int \<Rightarrow> u8 list \<Rightarrow> (int \<times> blob) option" where
  "fdt_nop_property fdt nodeoffset name = do {
     (prop, len) \<leftarrow> fdt_get_property fdt nodeoffset name;
     Some (case prop of
         None \<Rightarrow> (len, fdt)
       | Some p \<Rightarrow> (0, fdt_nop_region fdt p (c_int (len + 12))))
   }"

partial_function (option) node_end_loop :: "blob \<Rightarrow> int \<Rightarrow> int \<Rightarrow> int option" where
  [code]: "node_end_loop fdt offset depth =
    (if 0 \<le> offset \<and> 0 \<le> depth then do {
       (offset, d) \<leftarrow> fdt_next_node fdt offset (Some depth);
       node_end_loop fdt offset (the d)
     }
     else Some offset)"

definition fdt_node_end_offset :: "blob \<Rightarrow> int \<Rightarrow> int option" where
  "fdt_node_end_offset fdt offset = node_end_loop fdt offset 0"

definition fdt_nop_node :: "blob \<Rightarrow> int \<Rightarrow> (int \<times> blob) option" where
  "fdt_nop_node fdt nodeoffset = do {
     endoffset \<leftarrow> fdt_node_end_offset fdt nodeoffset;
     if endoffset < 0 then Some (endoffset, fdt)
     else case fdt_offset_ptr fdt nodeoffset 0 of
         None \<Rightarrow> None
       | Some p \<Rightarrow> Some (0, fdt_nop_region fdt p (endoffset - nodeoffset))
   }"

section \<open>Gaps\<close>

definition FDT_ERR_EXISTS :: int where [const_defs]: "FDT_ERR_EXISTS = 2"
definition FDT_ERR_BADLAYOUT :: int where [const_defs]: "FDT_ERR_BADLAYOUT = 12"

definition fdt_blocks_misordered :: "blob \<Rightarrow> int \<Rightarrow> int \<Rightarrow> bool" where
  "fdt_blocks_misordered fdt mem_rsv_size struct_sz \<longleftrightarrow>
     fdt_off_mem_rsvmap fdt < (40 + 8 - 1) AND NOT (8 - 1) \<or>
     fdt_off_dt_struct fdt < fdt_off_mem_rsvmap fdt + word_of_int mem_rsv_size \<or>
     fdt_off_dt_strings fdt < fdt_off_dt_struct fdt + word_of_int struct_sz \<or>
     fdt_totalsize fdt < fdt_off_dt_strings fdt + fdt_size_dt_strings fdt"

definition fdt_rw_check_header :: "blob \<Rightarrow> int \<times> blob" where
  "fdt_rw_check_header fdt =
     (if fdt_check_header fdt \<noteq> 0 then (fdt_check_header fdt, fdt)
      else if fdt_version fdt < 17 then (- FDT_ERR_BADVERSION, fdt)
      else if fdt_blocks_misordered fdt 16 (c_int (uint (fdt_size_dt_struct fdt))) then (- FDT_ERR_BADLAYOUT, fdt)
      else (0, if fdt_version fdt > 17 then fdt_set_version fdt 17 else fdt))"

definition fdt_data_size :: "blob \<Rightarrow> int" where
  "fdt_data_size fdt = c_int (uint (fdt_off_dt_strings fdt + fdt_size_dt_strings fdt))"

definition fdt_splice :: "blob \<Rightarrow> int \<Rightarrow> int \<Rightarrow> int \<Rightarrow> int \<times> blob" where
  "fdt_splice fdt p oldlen newlen =
     (let e = fdt_data_size fdt in
      if p + oldlen < p \<or> p + oldlen > e then (- FDT_ERR_BADOFFSET, fdt)
      else if e - oldlen + newlen > uint (fdt_totalsize fdt) then (- FDT_ERR_NOSPACE, fdt)
      else (0, memmove fdt (p + newlen) (p + oldlen) (nat (e - p - oldlen))))"

definition fdt_splice_mem_rsv :: "blob \<Rightarrow> int \<Rightarrow> int \<Rightarrow> int \<Rightarrow> int \<times> blob" where
  "fdt_splice_mem_rsv fdt p oldn newn =
     (let delta = c_int ((newn - oldn) * 16);
          (err, fdt) = fdt_splice fdt p (c_int (oldn * 16)) (c_int (newn * 16))
      in if err \<noteq> 0 then (err, fdt)
         else let fdt = fdt_set_off_dt_struct fdt (fdt_off_dt_struct fdt + word_of_int delta);
                  fdt = fdt_set_off_dt_strings fdt (fdt_off_dt_strings fdt + word_of_int delta)
              in (0, fdt))"

definition fdt_splice_struct :: "blob \<Rightarrow> int \<Rightarrow> int \<Rightarrow> int \<Rightarrow> int \<times> blob" where
  "fdt_splice_struct fdt p oldlen newlen =
     (let delta = c_int (newlen - oldlen);
          (err, fdt) = fdt_splice fdt p oldlen newlen
      in if err \<noteq> 0 then (err, fdt)
         else let fdt = fdt_set_size_dt_struct fdt (fdt_size_dt_struct fdt + word_of_int delta);
                  fdt = fdt_set_off_dt_strings fdt (fdt_off_dt_strings fdt + word_of_int delta)
              in (0, fdt))"

definition fdt_splice_string :: "blob \<Rightarrow> int \<Rightarrow> int \<times> blob" where
  "fdt_splice_string fdt newlen =
     (let p = uint (fdt_off_dt_strings fdt) + uint (fdt_size_dt_strings fdt);
          (err, fdt) = fdt_splice fdt p 0 newlen
      in if err \<noteq> 0 then (err, fdt)
         else (0, fdt_set_size_dt_strings fdt (fdt_size_dt_strings fdt + word_of_int newlen)))"

definition fdt_find_add_string :: "blob \<Rightarrow> u8 list \<Rightarrow> int \<times> blob" where
  "fdt_find_add_string fdt s =
     (let strtab = uint (fdt_off_dt_strings fdt);
          len = c_int (int (length s) + 1)
      in case fdt_find_string (load_bytes fdt strtab (nat (c_int (uint (fdt_size_dt_strings fdt))))) s of
           Some p \<Rightarrow> (int p, fdt)
         | None \<Rightarrow>
             let new = strtab + uint (fdt_size_dt_strings fdt);
                 (err, fdt) = fdt_splice_string fdt len
             in if err \<noteq> 0 then (err, fdt) else (c_int (new - strtab), store_bytes fdt new (s @ [0])))"

section \<open>Reservations\<close>

definition fdt_add_mem_rsv :: "blob \<Rightarrow> u64 \<Rightarrow> u64 \<Rightarrow> (int \<times> blob) option" where
  "fdt_add_mem_rsv fdt address sz =
     (let (err, fdt) = fdt_rw_check_header fdt in
      if err \<noteq> 0 then Some (err, fdt)
      else do {
        n \<leftarrow> fdt_num_mem_rsv fdt;
        let re = fdt_mem_rsv fdt n;
        let (err, fdt) = fdt_splice_mem_rsv fdt re 0 1;
        if err \<noteq> 0 then Some (err, fdt)
        else Some (0, store_bytes (store_bytes fdt re (be64_bytes address)) (re + 8) (be64_bytes sz))
      })"

definition fdt_del_mem_rsv :: "blob \<Rightarrow> int \<Rightarrow> (int \<times> blob) option" where
  "fdt_del_mem_rsv fdt n =
     (let re = fdt_mem_rsv fdt n;
          (err, fdt) = fdt_rw_check_header fdt
      in if err \<noteq> 0 then Some (err, fdt)
         else do {
           num \<leftarrow> fdt_num_mem_rsv fdt;
           Some (if n \<ge> num then (- FDT_ERR_NOTFOUND, fdt) else fdt_splice_mem_rsv fdt re 1 0)
         })"

section \<open>Properties and nodes\<close>

text \<open>The code, the pointer stored in \<open>*prop\<close> when the code is 0, and the memory.\<close>

definition fdt_resize_property :: "blob \<Rightarrow> int \<Rightarrow> u8 list \<Rightarrow> int \<Rightarrow> (int \<times> int \<times> blob) option" where
  "fdt_resize_property fdt nodeoffset name len = do {
     (prop, oldlen) \<leftarrow> fdt_get_property fdt nodeoffset name;
     Some (case prop of
         None \<Rightarrow> (oldlen, 0, fdt)
       | Some p \<Rightarrow>
           let (err, fdt) = fdt_splice_struct fdt (p + 12) (FDT_TAGALIGN oldlen) (FDT_TAGALIGN len)
           in if err \<noteq> 0 then (err, p, fdt) else (0, p, put32 fdt (p + 4) (word_of_int len)))
   }"

definition fdt_add_property :: "blob \<Rightarrow> int \<Rightarrow> u8 list \<Rightarrow> int \<Rightarrow> (int \<times> int \<times> blob) option" where
  "fdt_add_property fdt nodeoffset name len = do {
     nextoffset \<leftarrow> fdt_check_node_offset fdt nodeoffset;
     Some (if nextoffset < 0 then (nextoffset, 0, fdt)
       else let (namestroff, fdt) = fdt_find_add_string fdt name
         in if namestroff < 0 then (namestroff, 0, fdt)
           else let p = raw_fdt_offset_ptr fdt nextoffset;
                    proplen = c_int (12 + FDT_TAGALIGN len);
                    (err, fdt) = fdt_splice_struct fdt p 0 proplen
             in if err \<noteq> 0 then (err, p, fdt)
               else let fdt = put32 fdt p FDT_PROP;
                        fdt = put32 fdt (p + 8) (word_of_int namestroff);
                        fdt = put32 fdt (p + 4) (word_of_int len)
                 in (0, p, fdt))
   }"

definition fdt_set_name :: "blob \<Rightarrow> int \<Rightarrow> u8 list \<Rightarrow> (int \<times> blob) option" where
  "fdt_set_name fdt nodeoffset name =
     (let (err, fdt) = fdt_rw_check_header fdt in
      if err \<noteq> 0 then Some (err, fdt)
      else do {
        (namep, oldlen) \<leftarrow> fdt_get_name fdt nodeoffset;
        Some (case namep of
            None \<Rightarrow> (oldlen, fdt)
          | Some p \<Rightarrow>
              let newlen = c_int (int (length name));
                  (err, fdt) = fdt_splice_struct fdt p (FDT_TAGALIGN (c_int (oldlen + 1))) (FDT_TAGALIGN (c_int (newlen + 1)))
              in if err \<noteq> 0 then (err, fdt) else (0, store_bytes fdt p (name @ [0])))
      })"

definition fdt_setprop :: "blob \<Rightarrow> int \<Rightarrow> u8 list \<Rightarrow> u8 list \<Rightarrow> (int \<times> blob) option" where
  "fdt_setprop fdt nodeoffset name val =
     (let (err, fdt) = fdt_rw_check_header fdt in
      if err \<noteq> 0 then Some (err, fdt)
      else do {
        (err, prop, fdt) \<leftarrow> fdt_resize_property fdt nodeoffset name (int (length val));
        (err, prop, fdt) \<leftarrow>
          (if err = - FDT_ERR_NOTFOUND then fdt_add_property fdt nodeoffset name (int (length val))
           else Some (err, prop, fdt));
        Some (if err \<noteq> 0 then (err, fdt) else (0, store_bytes fdt (prop + 12) val))
      })"

definition fdt_appendprop :: "blob \<Rightarrow> int \<Rightarrow> u8 list \<Rightarrow> u8 list \<Rightarrow> (int \<times> blob) option" where
  "fdt_appendprop fdt nodeoffset name val =
     (let (err, fdt) = fdt_rw_check_header fdt in
      if err \<noteq> 0 then Some (err, fdt)
      else do {
        (prop, oldlen) \<leftarrow> fdt_get_property fdt nodeoffset name;
        case prop of
          Some p \<Rightarrow>
            Some (let newlen = c_int (int (length val) + oldlen);
                      (err, fdt) = fdt_splice_struct fdt (p + 12) (FDT_TAGALIGN oldlen) (FDT_TAGALIGN newlen)
                  in if err \<noteq> 0 then (err, fdt)
                     else (0, store_bytes (put32 fdt (p + 4) (word_of_int newlen)) (p + 12 + oldlen) val))
        | None \<Rightarrow> do {
            (err, p, fdt) \<leftarrow> fdt_add_property fdt nodeoffset name (int (length val));
            Some (if err \<noteq> 0 then (err, fdt) else (0, store_bytes fdt (p + 12) val))
          }
      })"

definition fdt_delprop :: "blob \<Rightarrow> int \<Rightarrow> u8 list \<Rightarrow> (int \<times> blob) option" where
  "fdt_delprop fdt nodeoffset name =
     (let (err, fdt) = fdt_rw_check_header fdt in
      if err \<noteq> 0 then Some (err, fdt)
      else do {
        (prop, len) \<leftarrow> fdt_get_property fdt nodeoffset name;
        Some (case prop of
            None \<Rightarrow> (len, fdt)
          | Some p \<Rightarrow> fdt_splice_struct fdt p (c_int (12 + FDT_TAGALIGN len)) 0)
      })"

text \<open>The loop over the properties of the parent: the offset of the first other tag.\<close>

partial_function (option) add_subnode_loop :: "blob \<Rightarrow> int \<Rightarrow> int option" where
  [code]: "add_subnode_loop fdt offset = do {
     (tag, nextoffset) \<leftarrow> fdt_next_tag fdt offset;
     if tag = FDT_PROP \<or> tag = FDT_NOP then add_subnode_loop fdt nextoffset else Some offset
   }"

definition fdt_add_subnode_namelen :: "blob \<Rightarrow> int \<Rightarrow> u8 list \<Rightarrow> (int \<times> blob) option" where
  "fdt_add_subnode_namelen fdt parentoffset name =
     (let (err, fdt) = fdt_rw_check_header fdt in
      if err \<noteq> 0 then Some (err, fdt)
      else do {
        offset \<leftarrow> fdt_subnode_offset_namelen fdt parentoffset name;
        if offset \<ge> 0 then Some (- FDT_ERR_EXISTS, fdt)
        else if offset \<noteq> - FDT_ERR_NOTFOUND then Some (offset, fdt)
        else do {
          (_, nextoffset) \<leftarrow> fdt_next_tag fdt parentoffset;
          offset \<leftarrow> add_subnode_loop fdt nextoffset;
          let nh = raw_fdt_offset_ptr fdt offset;
          let namesize = FDT_TAGALIGN (c_int (int (length name) + 1));
          let nodelen = c_int (4 + namesize + FDT_TAGSIZE);
          let (err, fdt) = fdt_splice_struct fdt nh 0 nodelen;
          if err \<noteq> 0 then Some (err, fdt)
          else
            let fdt = put32 fdt nh FDT_BEGIN_NODE;
                fdt = store_bytes fdt (nh + 4) (replicate (nat namesize) 0);
                fdt = store_bytes fdt (nh + 4) name;
                fdt = put32 fdt (nh + nodelen - FDT_TAGSIZE) FDT_END_NODE
            in Some (offset, fdt)
        }
      })"

definition fdt_add_subnode :: "blob \<Rightarrow> int \<Rightarrow> u8 list \<Rightarrow> (int \<times> blob) option" where
  "fdt_add_subnode fdt parentoffset name = fdt_add_subnode_namelen fdt parentoffset name"

definition fdt_del_node :: "blob \<Rightarrow> int \<Rightarrow> (int \<times> blob) option" where
  "fdt_del_node fdt nodeoffset =
     (let (err, fdt) = fdt_rw_check_header fdt in
      if err \<noteq> 0 then Some (err, fdt)
      else do {
        endoffset \<leftarrow> fdt_node_end_offset fdt nodeoffset;
        Some (if endoffset < 0 then (endoffset, fdt)
              else fdt_splice_struct fdt (raw_fdt_offset_ptr fdt nodeoffset) (endoffset - nodeoffset) 0)
      })"

section \<open>Moving a blob\<close>

text \<open>
  The functions with two pointers act on one memory, because the areas may overlap: \<open>view m a\<close> is the memory
  as it is seen from a pointer \<open>a\<close>, and \<open>through a g m\<close> changes it through that pointer.
\<close>

definition view :: "blob \<Rightarrow> int \<Rightarrow> blob" where
  "view m a = (\<lambda>p. m (a + p))"

definition through :: "int \<Rightarrow> (blob \<Rightarrow> blob) \<Rightarrow> blob \<Rightarrow> blob" where
  "through a g m = (\<lambda>q. g (view m a) (q - a))"

definition memmove_int :: "blob \<Rightarrow> int \<Rightarrow> int \<Rightarrow> int \<Rightarrow> blob option" where
  "memmove_int m dst src n = (if n < 0 then None else Some (memmove m dst src (nat n)))"

definition fdt_packblocks :: "blob \<Rightarrow> int \<Rightarrow> int \<Rightarrow> int \<Rightarrow> int \<Rightarrow> blob option" where
  "fdt_packblocks m old new mem_rsv_size struct_sz = do {
     let mem_rsv_off = (40 + 8 - 1) AND NOT (8 - 1);
     let struct_off = c_int (mem_rsv_off + mem_rsv_size);
     let strings_off = c_int (struct_off + struct_sz);
     m \<leftarrow> memmove_int m (new + mem_rsv_off) (old + uint (fdt_off_mem_rsvmap (view m old))) mem_rsv_size;
     let m = through new (\<lambda>fdt. fdt_set_off_mem_rsvmap fdt (word_of_int mem_rsv_off)) m;
     m \<leftarrow> memmove_int m (new + struct_off) (old + uint (fdt_off_dt_struct (view m old))) struct_sz;
     let m = through new (\<lambda>fdt. fdt_set_off_dt_struct fdt (word_of_int struct_off)) m;
     let m = through new (\<lambda>fdt. fdt_set_size_dt_struct fdt (word_of_int struct_sz)) m;
     let m = memmove m (new + strings_off) (old + uint (fdt_off_dt_strings (view m old))) (unat (fdt_size_dt_strings (view m old)));
     let m = through new (\<lambda>fdt. fdt_set_off_dt_strings fdt (word_of_int strings_off)) m;
     let strings_size = fdt_size_dt_strings (view m old);
     Some (through new (\<lambda>fdt. fdt_set_size_dt_strings fdt strings_size) m)
   }"

text \<open>The size of the structure block of an older version: up to the end tag.\<close>

partial_function (option) struct_size_loop :: "blob \<Rightarrow> int \<Rightarrow> int option" where
  [code]: "struct_size_loop fdt struct_sz = do {
     (tag, struct_sz) \<leftarrow> fdt_next_tag fdt struct_sz;
     if tag \<noteq> FDT_END then struct_size_loop fdt struct_sz else Some struct_sz
   }"

definition fdt_open_into :: "blob \<Rightarrow> int \<Rightarrow> int \<Rightarrow> int \<Rightarrow> (int \<times> blob) option" where
  "fdt_open_into m fdt buf bufsize =
     (let fdtstart = fdt;
          fdtend = fdtstart + uint (fdt_totalsize (view m fdt))
      in if fdt_check_header (view m fdt) \<noteq> 0 then Some (fdt_check_header (view m fdt), m)
      else do {
        num \<leftarrow> fdt_num_mem_rsv (view m fdt);
        let mem_rsv_size = c_int ((num + 1) * 16);
        struct_sz \<leftarrow> (if fdt_version (view m fdt) \<ge> 17 then Some (c_int (uint (fdt_size_dt_struct (view m fdt))))
          else struct_size_loop (view m fdt) 0);
        if fdt_version (view m fdt) < 17 \<and> struct_sz < 0 then Some (struct_sz, m)
        else if \<not> fdt_blocks_misordered (view m fdt) mem_rsv_size struct_sz then
          (let (err, b) = fdt_move (view m fdt) (view m buf) bufsize;
               m = through buf (\<lambda>_. b) m
           in if err \<noteq> 0 then Some (err, m)
              else let m = through buf (\<lambda>fdt. fdt_set_version fdt 17) m;
                       m = through buf (\<lambda>fdt. fdt_set_size_dt_struct fdt (word_of_int struct_sz)) m;
                       m = through buf (\<lambda>fdt. fdt_set_totalsize fdt (word_of_int bufsize)) m
                   in Some (0, m))
        else
          (let newsize = c_int (((40 + 8 - 1) AND NOT (8 - 1)) + mem_rsv_size + struct_sz + uint (fdt_size_dt_strings (view m fdt)))
           in if bufsize < newsize then Some (- FDT_ERR_NOSPACE, m)
           else let overlap = buf + newsize > fdtstart \<and> buf < fdtend;
                    tmp = (if overlap then fdtend else buf)
             in if overlap \<and> tmp + newsize > buf + bufsize then Some (- FDT_ERR_NOSPACE, m)
             else do {
               m \<leftarrow> fdt_packblocks m fdt tmp mem_rsv_size struct_sz;
               m \<leftarrow> memmove_int m buf tmp newsize;
               let m = through buf (\<lambda>fdt. fdt_set_magic fdt FDT_MAGIC) m;
               let m = through buf (\<lambda>fdt. fdt_set_totalsize fdt (word_of_int bufsize)) m;
               let m = through buf (\<lambda>fdt. fdt_set_version fdt 17) m;
               let m = through buf (\<lambda>fdt. fdt_set_last_comp_version fdt 16) m;
               let cpu = fdt_boot_cpuid_phys (view m fdt);
               Some (0, through buf (\<lambda>fdt. fdt_set_boot_cpuid_phys fdt cpu) m)
             })
      })"

definition fdt_pack :: "blob \<Rightarrow> (int \<times> blob) option" where
  "fdt_pack fdt =
     (let (err, fdt) = fdt_rw_check_header fdt in
      if err \<noteq> 0 then Some (err, fdt)
      else do {
        num \<leftarrow> fdt_num_mem_rsv fdt;
        let mem_rsv_size = c_int ((num + 1) * 16);
        fdt \<leftarrow> fdt_packblocks fdt 0 0 mem_rsv_size (c_int (uint (fdt_size_dt_struct fdt)));
        Some (0, fdt_set_totalsize fdt (word_of_int (fdt_data_size fdt)))
      })"

section \<open>The empty tree\<close>

definition fdt_create_empty_tree :: "blob \<Rightarrow> int \<Rightarrow> (int \<times> blob) option" where
  "fdt_create_empty_tree buf bufsize = do {
     (err, buf) \<leftarrow> fdt_create buf bufsize;
     if err \<noteq> 0 then Some (err, buf)
     else let (err, buf) = fdt_finish_reservemap buf in
       if err \<noteq> 0 then Some (err, buf)
       else let (err, buf) = fdt_begin_node buf [] in
         if err \<noteq> 0 then Some (err, buf)
         else let (err, buf) = fdt_end_node buf in
           if err \<noteq> 0 then Some (err, buf)
           else do {
             (err, buf) \<leftarrow> fdt_finish buf;
             if err \<noteq> 0 then Some (err, buf) else fdt_open_into buf 0 0 bufsize
           }
   }"

end
