(* ===== verification/Fdt_Sw_Build.thy ===== *)
theory Fdt_Sw_Build
  imports Fdt_Sw
begin

text \<open>
  A client of \<open>fdt_sw.c\<close> that writes a tree, call by call, and what the reading functions then find in the
  finished blob.
\<close>

section \<open>Sequences of calls\<close>

datatype sw_call = Begin_node "u8 list" | End_node | Property "u8 list" "u8 list"

fun do_call :: "sw_call \<Rightarrow> blob \<Rightarrow> int \<times> blob" where
  "do_call (Begin_node s) fdt = fdt_begin_node fdt s"
| "do_call End_node fdt = fdt_end_node fdt"
| "do_call (Property k v) fdt = fdt_property fdt k v"

text \<open>The client stops at the first error.\<close>

fun do_calls :: "sw_call list \<Rightarrow> blob \<Rightarrow> int \<times> blob" where
  "do_calls [] fdt = (0, fdt)"
| "do_calls (c # cs) fdt = (let (e, fdt) = do_call c fdt in if e \<noteq> 0 then (e, fdt) else do_calls cs fdt)"

fun call_size :: "sw_call \<Rightarrow> nat" where
  "call_size (Begin_node s) = length (enc (BeginNode s))"
| "call_size End_node = 4"
| "call_size (Property k v) = length (enc (Prop 0 v)) + length k + 1"

fun wf_call :: "sw_call \<Rightarrow> bool" where
  "wf_call (Begin_node s) \<longleftrightarrow> 0 \<notin> set s"
| "wf_call End_node \<longleftrightarrow> True"
| "wf_call (Property k v) \<longleftrightarrow> 0 \<notin> set k"

text \<open>The token that a call appends, with the name of a property counted from the end of the strings.\<close>

fun token_of :: "u8 list \<Rightarrow> sw_call \<Rightarrow> fdt_token \<Rightarrow> bool" where
  "token_of strs (Begin_node s) t \<longleftrightarrow> t = BeginNode s"
| "token_of strs End_node t \<longleftrightarrow> t = EndNode"
| "token_of strs (Property k v) t \<longleftrightarrow> (\<exists>d. t = Prop (word_of_int (- int d)) v \<and> string_from_end strs d k)"

lemma token_of_append: "token_of strs c t \<Longrightarrow> token_of (xs @ strs) c t"
  by (cases c) (auto intro: string_from_end_append)

lemma length_enc_Prop: "length (enc (Prop x v)) = length (enc (Prop y v))"
  by (simp add: length_enc)

lemma sw_used_tags: "sw_used (s\<lparr>sw_tags := sw_tags s @ [t]\<rparr>) = sw_used s + length (enc t)"
  by (simp add: sw_defs)

lemma sw_intern_used: "sw_intern k s = (d, s') \<Longrightarrow> sw_used s' \<le> sw_used s + length k + 1"
  by (auto simp: sw_intern_def sw_defs split: option.splits)

lemma call_blob:
  assumes "sw_blob n s fdt" "sw_used s + call_size c \<le> n" "wf_call c"
  shows "\<exists>fdt' s' t. do_call c fdt = (0, fdt') \<and> sw_blob n s' fdt' \<and> changed 0 (int n) fdt fdt' \<and> sw_rsv s' = sw_rsv s \<and>
    sw_tags s' = sw_tags s @ [t] \<and> token_of (sw_strs s') c t \<and> (\<exists>xs. sw_strs s' = xs @ sw_strs s) \<and>
    sw_used s' \<le> sw_used s + call_size c"
proof (cases c)
  case (Begin_node name)
  have "length name < 2 ^ 31 - 1"
    using assms(1,2) Begin_node payload_fits [of "BeginNode name"] by (simp add: sw_blob_def)
  from begin_node_blob [OF assms(1) this] obtain fdt' where "fdt_begin_node fdt name = (0, fdt')"
    "sw_blob n (s\<lparr>sw_tags := sw_tags s @ [BeginNode name]\<rparr>) fdt'" "changed 0 (int n) fdt fdt'"
    using assms(2) Begin_node by auto
  then show ?thesis using Begin_node
    by (intro exI [of _ fdt'] exI [of _ "s\<lparr>sw_tags := sw_tags s @ [BeginNode name]\<rparr>"] exI [of _ "BeginNode name"])
      (simp add: sw_used_tags)
next
  case End_node
  from end_node_blob [OF assms(1)] obtain fdt' where "fdt_end_node fdt = (0, fdt')"
    "sw_blob n (s\<lparr>sw_tags := sw_tags s @ [EndNode]\<rparr>) fdt'" "changed 0 (int n) fdt fdt'"
    using assms(2) End_node by auto
  then show ?thesis using End_node
    by (intro exI [of _ fdt'] exI [of _ "s\<lparr>sw_tags := sw_tags s @ [EndNode]\<rparr>"] exI [of _ EndNode])
      (simp add: sw_used_tags length_enc)
next
  case (Property k v)
  obtain d s' where i: "sw_intern k s = (d, s')" by force
  let ?t = "Prop (word_of_int (- int d)) v"
  note used = sw_intern_used [OF i] and str = sw_intern_string [OF i]
  have len: "length (sw_strs s) + length k + 1 \<le> n" and v: "length v < 2 ^ 31" and fits: "sw_used s' + length (enc ?t) \<le> n"
    using assms(1,2) Property used length_enc_Prop [of "word_of_int (- int d)" v 0] payload_fits [of "Prop 0 v"]
    by (auto simp: sw_used_def sw_blob_def)
  from property_blob [OF assms(1) len i v] obtain fdt' where "fdt_property fdt k v = (0, fdt')"
    "sw_blob n (s'\<lparr>sw_tags := sw_tags s @ [?t]\<rparr>) fdt'" "changed 0 (int n) fdt fdt'" by (simp only: fits if_True) blast
  moreover have "sw_used (s'\<lparr>sw_tags := sw_tags s @ [?t]\<rparr>) = sw_used s' + length (enc ?t)"
    using str sw_used_tags [of s' ?t] by simp
  ultimately show ?thesis using Property str used length_enc_Prop [of "word_of_int (- int d)" v 0]
    by (intro exI [of _ fdt'] exI [of _ "s'\<lparr>sw_tags := sw_tags s @ [?t]\<rparr>"] exI [of _ ?t]) (auto simp: sw_used_tags)
qed

lemma calls_blob:
  assumes "sw_blob n s fdt" "sw_used s + sum_list (map call_size cs) \<le> n" "list_all wf_call cs"
  shows "\<exists>fdt' s' ts. do_calls cs fdt = (0, fdt') \<and> sw_blob n s' fdt' \<and> changed 0 (int n) fdt fdt' \<and> sw_rsv s' = sw_rsv s \<and>
    sw_tags s' = sw_tags s @ ts \<and> list_all2 (token_of (sw_strs s')) cs ts \<and> (\<exists>xs. sw_strs s' = xs @ sw_strs s) \<and>
    sw_used s' \<le> sw_used s + sum_list (map call_size cs)"
  using assms
proof (induction cs arbitrary: s fdt)
  case Nil
  then show ?case by (intro exI [of _ fdt] exI [of _ s]) auto
next
  case (Cons c cs)
  obtain fdt1 s1 t where 1: "do_call c fdt = (0, fdt1)" "sw_blob n s1 fdt1" "changed 0 (int n) fdt fdt1" "sw_rsv s1 = sw_rsv s"
    "sw_tags s1 = sw_tags s @ [t]" "token_of (sw_strs s1) c t" "\<exists>xs. sw_strs s1 = xs @ sw_strs s"
    "sw_used s1 \<le> sw_used s + call_size c"
    using call_blob [OF Cons.prems(1), of c] Cons.prems(2,3) by auto
  obtain fdt2 s2 ts where 2: "do_calls cs fdt1 = (0, fdt2)" "sw_blob n s2 fdt2" "changed 0 (int n) fdt1 fdt2" "sw_rsv s2 = sw_rsv s1"
    "sw_tags s2 = sw_tags s1 @ ts" "list_all2 (token_of (sw_strs s2)) cs ts" "\<exists>xs. sw_strs s2 = xs @ sw_strs s1"
    "sw_used s2 \<le> sw_used s1 + sum_list (map call_size cs)"
    using Cons.IH [OF 1(2)] Cons.prems(2,3) 1(8) by auto
  have "list_all2 (token_of (sw_strs s2)) (c # cs) (t # ts)" using 1(6) 2(6,7) token_of_append by auto
  then show ?case using 1 2 changed_trans [OF 1(3) 2(3)]
    by (intro exI [of _ fdt2] exI [of _ s2] exI [of _ "t # ts"]) auto
qed

section \<open>Finishing\<close>

fun reloc :: "u32 \<Rightarrow> fdt_token \<Rightarrow> fdt_token" where
  "reloc m (Prop x v) = Prop (x + m) v"
| "reloc m t = t"

lemma length_enc_reloc [simp]: "length (enc (reloc m t)) = length (enc t)"
  by (cases t) (simp_all add: length_enc)

lemma length_encs_reloc [simp]: "length (encs (map (reloc m) ts)) = length (encs ts)"
  by (induction ts) auto

lemma length_concat_reloc [simp]: "length (concat (map (enc \<circ> reloc m) ts)) = length (encs ts)"
  by (induction ts) auto

lemma wf_reloc [simp]: "wf_token (reloc m t) = wf_token t"
  by (cases t) simp_all

lemma moved_head: "moved 0 0 40 fdt fdt' \<Longrightarrow> 0 \<le> k \<Longrightarrow> k + 4 \<le> 40 \<Longrightarrow> be32 fdt' k = be32 fdt k"
  using moved_be32 [OF moved_sub [of 0 0 40 fdt fdt' k 4]] by simp

lemma tokens_at_moved:
  assumes "tokens_at fdt k ts" "moved 0 0 40 fdt fdt'" "moved 0 (raw_fdt_offset_ptr fdt k) (int (length (encs ts))) fdt fdt'"
  shows "tokens_at fdt' k ts"
  using assms(1) moved_tokens [OF assms(3), of ts]
  by (simp add: tokens_at_def raw_fdt_offset_ptr_def fdt_get_defs moved_head [OF assms(2)])

lemma finish_loop_reloc:
  assumes "tokens_at fdt off (ts @ [End])" "End \<notin> set ts" "40 \<le> raw_fdt_offset_ptr fdt off"
  shows "\<exists>fdt' k. finish_loop fdt off = Some (k, fdt') \<and> 0 \<le> k \<and>
    changed (raw_fdt_offset_ptr fdt off) (raw_fdt_offset_ptr fdt off + int (length (encs ts))) fdt fdt' \<and>
    holds_tokens fdt' (raw_fdt_offset_ptr fdt off) (map (reloc (fdt_size_dt_strings fdt)) ts)"
  using assms
proof (induction ts arbitrary: fdt off)
  case Nil
  then have "fdt_next_tag fdt off = Some (FDT_END, off + 4)" "0 \<le> off"
    using next_tag_token [of fdt off End "[]"] by (auto simp: length_enc tokens_at_def)
  then show ?case by (intro exI [of _ fdt] exI [of _ "off + 4"]) (subst finish_loop.simps, auto)
next
  case (Cons t ts)
  let ?p = "raw_fdt_offset_ptr fdt off" and ?k = "off + int (length (enc t))" and ?m = "fdt_size_dt_strings fdt"
  note tag = next_tag_token [of fdt off t "ts @ [End]"] and tl = tokens_at_tl [of fdt off t "ts @ [End]"]
  have at: "tokens_at fdt off (t # ts @ [End])" using Cons.prems(1) by simp
  have k: "raw_fdt_offset_ptr fdt ?k = ?p + int (length (enc t))" by (rule raw_add)
  show ?case
  proof (cases "\<exists>x v. t = Prop x v")
    case True
    then obtain x v where t: "t = Prop x v" by blast
    let ?f = "put32 fdt (?p + 8) (x + ?m)"
    have x: "be32 fdt (?p + 8) = x" using property_by_offset_token(2) [of fdt off x v] at t by simp
    have len: "12 + int (length v) \<le> int (length (enc t))" unfolding length_enc t by simp
    have m: "moved 0 0 40 fdt ?f" "moved 0 (?p + int (length (enc t))) j fdt ?f" for j
      using Cons.prems(3) len by (auto intro!: moved_steps)
    have "raw_fdt_offset_ptr ?f j = raw_fdt_offset_ptr fdt j" for j
      using Cons.prems(3) by (simp add: raw_fdt_offset_ptr_def fdt_get_defs)
    moreover have "fdt_size_dt_strings ?f = ?m" using Cons.prems(3) by (simp add: fdt_get_defs)
    moreover have "tokens_at ?f ?k (ts @ [End])" using tokens_at_moved [OF tl [OF at] m(1)] m(2) by (simp add: k)
    ultimately obtain fdt' j where IH: "finish_loop ?f ?k = Some (j, fdt')" "0 \<le> j"
      "changed (?p + int (length (enc t))) (?p + int (length (enc t)) + int (length (encs ts))) ?f fdt'"
      "holds_tokens fdt' (?p + int (length (enc t))) (map (reloc ?m) ts)"
      using Cons.IH [of ?f ?k] Cons.prems(2,3) k by auto
    have "holds ?f ?p (be_bytes (tag_of (reloc ?m t)) @ payload (reloc ?m t))"
      using at by (auto simp: t tokens_at_def holds_be_prop)
    then have head: "holds fdt' ?p (be_bytes (tag_of (reloc ?m t)) @ payload (reloc ?m t))"
      using moved_holds [OF changed_moved [OF IH(3), of ?p "int (length (enc t))"]] len by (simp add: t)
    have "finish_loop fdt off = Some (j, fdt')"
      using tag [OF at] IH(1) by (subst finish_loop.simps) (simp add: t x tag_neqs)
    moreover have "changed ?p (?p + int (length (encs (t # ts)))) fdt fdt'"
    proof (rule changed_trans)
      show "changed ?p (?p + int (length (encs (t # ts)))) fdt ?f"
        by (rule changed_put32 [OF changed_refl]) (use len in simp_all)
      show "changed ?p (?p + int (length (encs (t # ts)))) ?f fdt'"
        by (rule changed_wider [OF IH(3)]) simp_all
    qed
    ultimately show ?thesis using IH(2,4) head by auto
  next
    case False
    then have t: "reloc ?m t = t" "tag_of t \<noteq> FDT_PROP" "tag_of t \<noteq> FDT_END"
      using Cons.prems(2) by (cases t; auto simp: tag_neqs)+
    obtain fdt' j where IH: "finish_loop fdt ?k = Some (j, fdt')" "0 \<le> j"
      "changed (?p + int (length (enc t))) (?p + int (length (enc t)) + int (length (encs ts))) fdt fdt'"
      "holds_tokens fdt' (?p + int (length (enc t))) (map (reloc ?m) ts)"
      using Cons.IH [OF tl [OF at]] Cons.prems(2,3) k by auto
    have len: "length (be_bytes (tag_of t) @ payload t) \<le> length (enc t)" unfolding length_enc by simp
    have "holds fdt' ?p (be_bytes (tag_of t) @ payload t)"
      using moved_holds [OF changed_moved [OF IH(3), of ?p "int (length (enc t))"]] at len
      by (auto simp: tokens_at_def)
    moreover have "finish_loop fdt off = Some (j, fdt')"
      using tag [OF at] IH(1) t by (subst finish_loop.simps) simp
    ultimately show ?thesis using IH changed_wider [OF IH(3), of ?p] t by (auto simp: add.assoc)
  qed
qed

lemma finish_blob:
  assumes "sw_blob n s fdt" "sw_used s + 4 \<le> n" "list_all wf_token (sw_tags s)" "End \<notin> set (sw_tags s)"
  shows "\<exists>fdt'. fdt_finish fdt = Some (0, fdt') \<and> changed 0 (int n) fdt fdt' \<and> fdt_check_header fdt' = 0 \<and>
    fdt_magic fdt' = FDT_MAGIC \<and> fdt_version fdt' = 17 \<and> fdt_last_comp_version fdt' = 16 \<and>
    fdt_totalsize fdt' = of_nat (sw_used s + 4) \<and> fdt_off_mem_rsvmap fdt' = 48 \<and> fdt_off_dt_struct fdt' = of_nat (sw_struct s) \<and>
    fdt_off_dt_strings fdt' = of_nat (sw_end s + 4) \<and> fdt_size_dt_strings fdt' = of_nat (length (sw_strs s)) \<and>
    fdt_size_dt_struct fdt' = of_nat (length (encs (sw_tags s)) + 4) \<and>
    holds fdt' 48 (rsv_bytes (sw_rsv s)) \<and> holds fdt' (int (sw_end s) + 4) (sw_strs s) \<and>
    tokens_at fdt' 0 (map (reloc (of_nat (length (sw_strs s)))) (sw_tags s) @ [End])"
proof -
  let ?l = "length (sw_strs s)" and ?p = "int (sw_end s)" and ?ts = "sw_tags s"
  have n: "n < 2 ^ 31" "sw_end s + 4 + ?l \<le> n" "48 \<le> sw_struct s" "sw_end s = sw_struct s + length (encs ?ts)"
    using assms(1,2) by (auto simp: sw_blob_def sw_used_def sw_end_def sw_struct_def)
  let ?f1 = "fdt_set_size_dt_struct fdt (of_nat (length (encs ?ts) + 4))"
  obtain f2 where f2: "f2 = put32 ?f1 ?p FDT_END" by blast
  obtain f4 where f4: "f4 = fdt_set_off_dt_strings (memmove f2 (?p + 4) (int n - int ?l) ?l) (word_of_int (?p + 4))" by blast
  have h: "be32 f4 36 = of_nat (length (encs ?ts) + 4)" "be32 f4 0 = FDT_SW_MAGIC" "be32 f4 4 = of_nat n"
    "be32 f4 8 = of_nat (sw_struct s)" "be32 f4 16 = 48" "be32 f4 20 = 17" "be32 f4 24 = 16" "be32 f4 32 = of_nat ?l"
    "be32 f4 12 = of_nat (sw_end s + 4)"
    using assms(1) n(1-3) by (simp_all add: f4 f2 fdt_set_defs fdt_get_defs memmove_def sw_blob_def sw_end_def)
  have size: "struct_size f4 = int (length (encs ?ts) + 4)" "raw_fdt_offset_ptr f4 0 = int (sw_struct s)"
    using n uint_nat32 [of "length (encs ?ts) + 4"] uint_nat32 [of "sw_struct s"]
    by (simp_all only: fdt_get_defs h raw_fdt_offset_ptr_def)
  have "holds f4 (int (sw_struct s)) (encs ?ts)" "holds f4 ?p (be_bytes FDT_END)" "holds f4 48 (rsv_bytes (sw_rsv s))"
    using assms(1) n by (auto simp: f4 f2 fdt_set_defs memmove_def sw_blob_def sw_struct_def)
  then have at: "tokens_at f4 0 (?ts @ [End])" and rsv: "holds f4 48 (rsv_bytes (sw_rsv s))"
    using n assms(3) holds_encs by (auto simp: tokens_at_def size holds_tokens_append length_enc)
  have strs: "holds f4 (?p + 4) (sw_strs s)"
  proof -
    have "holds f2 (int n - int ?l) (sw_strs s)" using assms(1) n by (simp add: f2 fdt_set_defs sw_blob_def)
    from moved_holds [OF moved_memmove [of "?p + 4" "int n - int ?l" ?l f2] _ this]
    have "holds (memmove f2 (?p + 4) (int n - int ?l) ?l) (?p + 4) (sw_strs s)" by simp
    moreover have "48 \<le> sw_end s" using n by simp
    ultimately show ?thesis by (simp add: f4 fdt_set_defs)
  qed
  obtain fdt' k where loop: "finish_loop f4 0 = Some (k, fdt')" "0 \<le> k" and c: "changed (int (sw_struct s)) ?p f4 fdt'"
    and toks: "holds_tokens fdt' (int (sw_struct s)) (map (reloc (of_nat ?l)) ?ts)"
    using finish_loop_reloc [OF at assms(4)] size n h(8) by (auto simp: fdt_get_defs)
  obtain g where g_def: "g = fdt_set_magic (fdt_set_totalsize fdt' (of_nat (sw_used s + 4))) FDT_MAGIC" by blast
  have h': "be32 fdt' j = be32 f4 j" if "0 \<le> j" "j + 4 \<le> 40" for j
    using moved_be32 [OF changed_moved [OF c, of j 4]] that n by simp
  have fin: "fdt_finish fdt = Some (0, g)"
  proof -
    have w: "fdt_totalsize f2 - fdt_size_dt_strings f2 = of_nat (n - ?l)" "fdt_off_dt_struct f2 + fdt_size_dt_struct f2 = of_nat (sw_end s + 4)"
      using assms(1) n by (simp_all add: f2 fdt_set_defs fdt_get_defs sw_blob_def of_nat_diff)
    have c: "c_int (uint (fdt_totalsize f2 - fdt_size_dt_strings f2)) = int n - int ?l"
      "c_int (uint (fdt_off_dt_struct f2 + fdt_size_dt_struct f2)) = ?p + 4"
      unfolding w using c_int_uint [of "n - ?l"] c_int_uint [of "sw_end s + 4"] n by simp_all
    have l: "unat (fdt_size_dt_strings f2) = ?l"
      using assms(1) n by (simp add: f2 fdt_set_defs fdt_get_defs sw_blob_def unat_nat32)
    have grabbed: "fdt_grab_space fdt 4 = (Some ?p, ?f1)" using grab [OF assms(1), of 4] assms(2) by simp
    have t: "word_of_int (?p + 4) + fdt_size_dt_strings fdt' = of_nat (sw_used s + 4)"
      using h' [of 32] h(8) n by (simp add: fdt_get_defs sw_used_def)
    have "fdt_finish fdt = do { (nextoffset, fdt) \<leftarrow> finish_loop f4 0;
        if nextoffset < 0 then Some (nextoffset, fdt)
        else Some (0, fdt_set_magic (fdt_set_totalsize fdt (word_of_int (?p + 4) + fdt_size_dt_strings fdt)) FDT_MAGIC) }"
      by (simp only: fdt_finish_def sw_header [OF assms(1)] Let_def grabbed prod.case option.case f2 [symmetric] c l f4 [symmetric]) simp
    then show ?thesis using loop(2) by (simp only: loop(1) bind.bind_lunit prod.case t g_def not_less [symmetric] if_False)
  qed
  have c': "changed 0 (int n) fdt g"
    using n by (auto simp: g_def f4 f2 fdt_set_defs intro!: changed_steps changed_trans [OF _ changed_wider [OF c]])
  have keep: "holds g q bs" if "holds f4 q bs" "q + int (length bs) \<le> int (sw_struct s) \<or> ?p \<le> q" "40 \<le> q" for q bs
    using moved_holds [OF changed_moved [OF c that(2)] _ that(1)] that(3) by (simp add: g_def fdt_set_defs)
  have same: "be32 g j = be32 f4 j" if "8 \<le> j" "j + 4 \<le> 40" for j
    using h' [of j] that by (simp add: g_def fdt_set_defs)
  have head: "be32 g 0 = FDT_MAGIC" "be32 g 4 = of_nat (sw_used s + 4)" "be32 g 8 = of_nat (sw_struct s)"
    "be32 g 12 = of_nat (sw_end s + 4)" "be32 g 16 = 48" "be32 g 20 = 17" "be32 g 24 = 16" "be32 g 32 = of_nat ?l"
    "be32 g 36 = of_nat (length (encs ?ts) + 4)"
    by (simp add: g_def fdt_set_defs, simp add: g_def fdt_set_defs, (subst same, simp, simp, rule h)+)
  have "fdt_check_header g = 0"
    by (simp add: fdt_check_header_def fdt_get_defs head FDT_FIRST_SUPPORTED_VERSION_def FDT_LAST_SUPPORTED_VERSION_def)
  moreover have "tokens_at g 0 (map (reloc (of_nat ?l)) ?ts @ [End])"
  proof -
    have "moved 0 (int (sw_struct s)) (int (length (encs ?ts))) fdt' g"
      using n by (auto simp: g_def fdt_set_defs intro!: moved_steps)
    from moved_tokens [OF this _ toks] have "holds_tokens g (int (sw_struct s)) (map (reloc (of_nat ?l)) ?ts)"
      by (simp only: length_encs_reloc order_refl add_0_right)
    moreover have "holds g ?p (be_bytes FDT_END)"
      using n by (intro keep) (auto simp: f4 f2 fdt_set_defs memmove_def)
    moreover have "struct_size g = int (length (encs ?ts) + 4)" "raw_fdt_offset_ptr g 0 = int (sw_struct s)"
      using n uint_nat32 [of "length (encs ?ts) + 4"] uint_nat32 [of "sw_struct s"]
      by (simp_all only: fdt_get_defs head raw_fdt_offset_ptr_def)
    ultimately show ?thesis using n assms(3) by (auto simp: tokens_at_def holds_tokens_append length_enc list_all_iff)
  qed
  moreover have "holds g 48 (rsv_bytes (sw_rsv s))" "holds g (?p + 4) (sw_strs s)"
    using n rsv strs by (auto intro!: keep simp: sw_struct_def)
  ultimately show ?thesis using fin c' head n by (intro exI [of _ g]) (simp add: fdt_get_defs)
qed

section \<open>Reading what was written\<close>

text \<open>The tokens of a blob that stand for a sequence of calls.\<close>

fun named_token :: "blob \<Rightarrow> sw_call \<Rightarrow> fdt_token \<Rightarrow> bool" where
  "named_token fdt (Begin_node s) t \<longleftrightarrow> t = BeginNode s"
| "named_token fdt End_node t \<longleftrightarrow> t = EndNode"
| "named_token fdt (Property k v) t \<longleftrightarrow> (\<exists>x. t = Prop x v \<and> name_at fdt x k)"

fun call_props :: "sw_call list \<Rightarrow> (u8 list \<times> u8 list) list" where
  "call_props (Property k v # cs) = (k, v) # call_props cs"
| "call_props _ = []"

fun call_visits :: "sw_call list \<Rightarrow> (u8 list \<times> (u8 list \<times> u8 list) list) list" where
  "call_visits (Begin_node s # cs) = (s, call_props cs) # call_visits cs"
| "call_visits (c # cs) = call_visits cs"
| "call_visits [] = []"

fun calls_of :: "dt_node \<Rightarrow> sw_call list" where
  "calls_of (DtNode s ps kids) =
     Begin_node s # map (\<lambda>(k, v). Property k v) ps @ concat (map calls_of kids) @ [End_node]"

lemma call_props_props: "call_props (map (\<lambda>(k, v). Property k v) ps @ concat (map calls_of kids) @ End_node # cs) = ps"
proof (induction ps)
  case Nil
  show ?case by (cases kids rule: list.exhaust; cases "hd kids") auto
qed auto

lemma call_visits_props [simp]: "call_visits (map (\<lambda>(k, v). Property k v) ps @ cs) = call_visits cs"
  by (induction ps) auto

lemma call_visits_calls: "call_visits (calls_of t @ cs) = preorder t @ call_visits cs"
proof (induction t arbitrary: cs)
  case (DtNode s ps kids)
  have "call_visits (concat (map calls_of ks) @ cs) = concat (map preorder ks) @ call_visits cs" if "set ks \<subseteq> set kids" for ks cs
    using that DtNode by (induction ks) auto
  then show ?case by (simp add: call_props_props)
qed

lemma named_props:
  "list_all2 (named_token fdt) cs ts \<Longrightarrow> props_of (blob_name fdt) (ts @ [End]) = call_props cs"
proof (induction cs arbitrary: ts rule: call_props.induct)
  case (1 k v cs)
  then show ?case by (auto simp: list_all2_Cons1 name_at_blob_name)
qed (auto simp: list_all2_Cons1)

lemma named_visits:
  "list_all2 (named_token fdt) cs ts \<Longrightarrow> map snd (visits (blob_name fdt) off (ts @ [End])) = call_visits cs"
proof (induction cs arbitrary: ts off rule: call_visits.induct)
  case (1 s cs)
  then show ?case by (auto simp: list_all2_Cons1 named_props)
qed (auto simp: list_all2_Cons1)

lemma named_names: "list_all2 (named_token fdt) cs ts \<Longrightarrow> names_at fdt (blob_name fdt) (ts @ [End])"
proof (induction cs arbitrary: ts)
  case (Cons c cs)
  then show ?case by (cases c) (auto simp: list_all2_Cons1 name_at_blob_name)
qed simp

text \<open>Every node of a tree ends.\<close>

fun call_stops :: "sw_call list \<Rightarrow> bool" where
  "call_stops (Property k v # cs) \<longleftrightarrow> call_stops cs"
| "call_stops (c # cs) \<longleftrightarrow> True"
| "call_stops [] \<longleftrightarrow> False"

fun calls_stop :: "sw_call list \<Rightarrow> bool" where
  "calls_stop (Begin_node s # cs) \<longleftrightarrow> call_stops cs \<and> calls_stop cs"
| "calls_stop (c # cs) \<longleftrightarrow> calls_stop cs"
| "calls_stop [] \<longleftrightarrow> True"

lemma named_stops: "list_all2 (named_token fdt) cs ts \<Longrightarrow> call_stops cs \<Longrightarrow> stops_at_node (ts @ us)"
  by (induction cs arbitrary: ts rule: call_stops.induct) (auto simp: list_all2_Cons1)

lemma named_stop: "list_all2 (named_token fdt) cs ts \<Longrightarrow> calls_stop cs \<Longrightarrow> nodes_stop (ts @ [End])"
proof (induction cs arbitrary: ts rule: calls_stop.induct)
  case (1 s cs)
  then show ?case using named_stops by (auto simp: list_all2_Cons1)
qed (auto simp: list_all2_Cons1)

lemma call_stops_props: "call_stops (map (\<lambda>(k, v). Property k v) ps @ concat (map calls_of kids) @ End_node # cs)"
proof (induction ps)
  case Nil
  show ?case by (cases kids rule: list.exhaust; cases "hd kids") auto
qed auto

lemma calls_stop_props [simp]: "calls_stop (map (\<lambda>(k, v). Property k v) ps @ cs) \<longleftrightarrow> calls_stop cs"
  by (induction ps) auto

lemma calls_stop_calls [simp]: "calls_stop (calls_of t @ cs) \<longleftrightarrow> calls_stop cs"
proof (induction t arbitrary: cs)
  case (DtNode s ps kids)
  have "calls_stop (concat (map calls_of ks) @ cs) \<longleftrightarrow> calls_stop cs" if "set ks \<subseteq> set kids" for ks cs
    using that DtNode by (induction ks) auto
  then show ?case by (simp add: call_stops_props)
qed

lemma visit_reads:
  assumes "fdt_check_header fdt = 0" "tokens_at fdt 0 us" "End \<in> set us" "names_at fdt nm us" "nodes_stop us"
    and "i < length (visits nm 0 us)" "visits nm 0 us ! i = (k, s, ps)"
  shows "fdt_next_node fdt k None =
      Some (if Suc i < length (visits nm 0 us) then fst (visits nm 0 us ! Suc i) else - FDT_ERR_NOTFOUND, None)"
    and "\<exists>p. fdt_get_name fdt k = Some (Some p, int (length s)) \<and> holds fdt p (s @ [0])"
    and "\<exists>r. fdt_getprop fdt k name = Some r \<and> found fdt (map_of ps name) r"
proof -
  obtain ts where t: "ps = props_of nm ts" "tokens_at fdt k (BeginNode s # ts)" "End \<in> set ts" "names_at fdt nm ts" "stops_at_node ts"
    and rest: "drop (Suc i) (visits nm 0 us) = visits nm (k + int (length (enc (BeginNode s)))) ts"
    using visits_nth [OF assms(2-4,6,5)] assms(7) by auto
  show "fdt_next_node fdt k None =
      Some (if Suc i < length (visits nm 0 us) then fst (visits nm 0 us ! Suc i) else - FDT_ERR_NOTFOUND, None)"
    using next_node_token [OF t(2,3)] seek_visits [OF t(3), of "k + int (length (enc (BeginNode s)))" nm] rest [symmetric]
    by (cases "Suc i < length (visits nm 0 us)") (simp_all add: Cons_nth_drop_Suc [symmetric])
  show "\<exists>p. fdt_get_name fdt k = Some (Some p, int (length s)) \<and> holds fdt p (s @ [0])"
  proof -
    have "holds fdt (raw_fdt_offset_ptr fdt k + 4) (s @ [0])" "0 \<notin> set s" using t(2) by (auto simp: tokens_at_def holds_append)
    then show ?thesis using check_node_token [OF t(2)] tokens_at_off [OF tokens_at_tl [OF t(2)]] assms(1)
      by (auto simp: fdt_get_name_def strlen_holds not_less Let_def)
  qed
  show "\<exists>r. fdt_getprop fdt k name = Some r \<and> found fdt (map_of ps name) r"
    using getprop_token [OF t(2-5)] t(1) by simp
qed

section \<open>Depth\<close>

text \<open>\<open>levels m ts\<close>: from depth \<open>m\<close> the tags never close more nodes than are open, and end at depth 0.\<close>

fun levels :: "nat \<Rightarrow> fdt_token list \<Rightarrow> bool" where
  "levels m [] \<longleftrightarrow> m = 0"
| "levels m (BeginNode s # ts) \<longleftrightarrow> levels (Suc m) ts"
| "levels m (EndNode # ts) \<longleftrightarrow> m \<noteq> 0 \<and> levels (m - 1) ts"
| "levels m (End # ts) \<longleftrightarrow> False"
| "levels m (t # ts) \<longleftrightarrow> levels m ts"

fun call_levels :: "nat \<Rightarrow> sw_call list \<Rightarrow> bool" where
  "call_levels m [] \<longleftrightarrow> m = 0"
| "call_levels m (Begin_node s # cs) \<longleftrightarrow> call_levels (Suc m) cs"
| "call_levels m (End_node # cs) \<longleftrightarrow> m \<noteq> 0 \<and> call_levels (m - 1) cs"
| "call_levels m (Property k v # cs) \<longleftrightarrow> call_levels m cs"

lemma call_levels_props [simp]: "call_levels m (map (\<lambda>(k, v). Property k v) ps @ cs) \<longleftrightarrow> call_levels m cs"
  by (induction ps) auto

lemma call_levels_calls [simp]: "call_levels m (calls_of t @ cs) \<longleftrightarrow> call_levels m cs"
proof (induction t arbitrary: m cs)
  case (DtNode s ps kids)
  have "call_levels m (concat (map calls_of ks) @ cs) \<longleftrightarrow> call_levels m cs" if "set ks \<subseteq> set kids" for ks m cs
    using that DtNode by (induction ks) auto
  then show ?case by simp
qed

lemma call_levels_forest [simp]: "call_levels m (concat (map calls_of ts) @ cs) \<longleftrightarrow> call_levels m cs"
  by (induction ts) auto

fun tok_depths :: "int \<Rightarrow> fdt_token list \<Rightarrow> int list" where
  "tok_depths d (BeginNode s # ts) = (d + 1) # tok_depths (d + 1) ts"
| "tok_depths d (EndNode # ts) = tok_depths (d - 1) ts"
| "tok_depths d (End # ts) = []"
| "tok_depths d (t # ts) = tok_depths d ts"
| "tok_depths d [] = []"

fun call_depths :: "int \<Rightarrow> sw_call list \<Rightarrow> int list" where
  "call_depths d (Begin_node s # cs) = (d + 1) # call_depths (d + 1) cs"
| "call_depths d (End_node # cs) = call_depths (d - 1) cs"
| "call_depths d (Property k v # cs) = call_depths d cs"
| "call_depths d [] = []"

text \<open>The depth of every node of a forest, in preorder.\<close>

fun depths :: "int \<Rightarrow> dt_node \<Rightarrow> int list" where
  "depths d (DtNode s ps kids) = d # concat (map (depths (d + 1)) kids)"

lemma call_depths_props [simp]: "call_depths d (map (\<lambda>(k, v). Property k v) ps @ cs) = call_depths d cs"
  by (induction ps) auto

lemma call_depths_calls: "call_depths d (calls_of t @ cs) = depths (d + 1) t @ call_depths d cs"
proof (induction t arbitrary: d cs)
  case (DtNode s ps kids)
  have "call_depths d (concat (map calls_of ks) @ cs) = concat (map (depths (d + 1)) ks) @ call_depths d cs" if "set ks \<subseteq> set kids" for ks d cs
    using that DtNode by (induction ks) auto
  then show ?case by simp
qed

lemma call_depths_forest: "call_depths d (concat (map calls_of ts)) = concat (map (depths (d + 1)) ts)"
  by (induction ts) (simp_all add: call_depths_calls)

text \<open>The loop of \<open>fdt_next_node\<close> with a depth.\<close>

fun stays :: "int \<Rightarrow> fdt_token list \<Rightarrow> bool" where
  "stays d (BeginNode s # ts) \<longleftrightarrow> stays (d + 1) ts"
| "stays d (EndNode # ts) \<longleftrightarrow> 0 < d \<and> stays (d - 1) ts"
| "stays d (End # ts) \<longleftrightarrow> True"
| "stays d (t # ts) \<longleftrightarrow> stays d ts"
| "stays d [] \<longleftrightarrow> True"

lemma levels_stays: "levels m ts \<Longrightarrow> stays (int m) (ts @ [End])"
proof (induction m ts rule: levels.induct)
  case (2 m s ts)
  then show ?case by (simp add: add.commute)
next
  case (3 m ts)
  then show ?case by (simp add: of_nat_diff)
qed auto

lemma next_node_loop_depth:
  assumes "tokens_at fdt off ts" "End \<in> set ts" "0 \<le> d" "d \<le> off" "stays d ts"
  shows "case visits nm off ts of
      [] \<Rightarrow> (\<exists>e. next_node_loop fdt off (Some d) = Some (- FDT_ERR_NOTFOUND, e))
    | v # _ \<Rightarrow> next_node_loop fdt off (Some d) = Some (fst v, Some (hd (tok_depths d ts)))"
  using assms
proof (induction nm off ts arbitrary: d rule: visits.induct [case_names node stop leave valued nop nil])
  case (node nm off s ts)
  have "d + 1 < 2 ^ 31" using node.prems(4) tokens_at_small [OF node.prems(1)] by simp
  then have "c_int (d + 1) = d + 1" using node.prems(3) by (intro c_int_id) auto
  then show ?case by (subst next_node_loop.simps) (use node.prems in \<open>simp add: next_tag_token tag_neqs\<close>)
next
  case (stop nm off ts)
  then show ?case by (subst next_node_loop.simps) (use tokens_at_off [of fdt off] in \<open>auto simp: next_tag_token tag_neqs\<close>)
next
  case (leave nm off ts)
  have d: "0 < d" "stays (d - 1) ts" using leave.prems(5) by auto
  have "c_int (d - 1) = d - 1" using d leave.prems(4) tokens_at_small [OF leave.prems(1)] by (intro c_int_id) auto
  then have "next_node_loop fdt off (Some d) = next_node_loop fdt (off + int (length (enc EndNode))) (Some (d - 1))"
    using d(1) by (subst next_node_loop.simps) (simp add: next_tag_token [OF leave.prems(1)] tag_neqs)
  then show ?case using leave.IH [of "d - 1"] leave.prems d tokens_at_tl [OF leave.prems(1)] by (auto split: list.splits)
next
  case (valued nm off n v ts)
  have "next_node_loop fdt off (Some d) = next_node_loop fdt (off + int (length (enc (Prop n v)))) (Some d)"
    by (subst next_node_loop.simps) (simp add: next_tag_token [OF valued.prems(1)] tag_neqs)
  then show ?case using valued.IH [of d] valued.prems tokens_at_tl [OF valued.prems(1)] by (auto split: list.splits)
next
  case (nop nm off ts)
  have "next_node_loop fdt off (Some d) = next_node_loop fdt (off + int (length (enc Nop))) (Some d)"
    by (subst next_node_loop.simps) (simp add: next_tag_token [OF nop.prems(1)] tag_neqs)
  then show ?case using nop.IH [of d] nop.prems tokens_at_tl [OF nop.prems(1)] by (auto split: list.splits)
qed simp

lemma length_tok_depths: "length (tok_depths d ts) = length (visits nm off ts)"
  by (induction nm off ts arbitrary: d rule: visits.induct) auto

lemma visits_depth:
  assumes "tokens_at fdt off ts" "End \<in> set ts" "d \<le> off" "0 \<le> d" "stays d ts" "i < length (visits nm off ts)"
  shows "\<exists>k s us. fst (visits nm off ts ! i) = k \<and> tokens_at fdt k (BeginNode s # us) \<and> End \<in> set us \<and>
    drop (Suc i) (visits nm off ts) = visits nm (k + int (length (enc (BeginNode s)))) us \<and>
    drop (Suc i) (tok_depths d ts) = tok_depths (tok_depths d ts ! i) us \<and>
    stays (tok_depths d ts ! i) us \<and> 0 \<le> tok_depths d ts ! i \<and> tok_depths d ts ! i \<le> k + int (length (enc (BeginNode s)))"
  using assms
proof (induction nm off ts arbitrary: i d rule: visits.induct [case_names node stop leave valued nop nil])
  case (node nm off s ts)
  have len: "8 \<le> int (length (enc (BeginNode s)))" by (simp add: length_enc)
  show ?case
  proof (cases i)
    case 0
    then show ?thesis using node.prems len by (intro exI [of _ off] exI [of _ s] exI [of _ ts]) auto
  next
    case (Suc j)
    then show ?thesis using node.prems len node.IH [of "d + 1" j] tokens_at_tl [OF node.prems(1)] by auto
  qed
next
  case (leave nm off ts)
  then show ?case using tokens_at_tl [OF leave.prems(1)] leave.IH [of "d - 1" i] by auto
next
  case (valued nm off n v ts)
  then show ?case using tokens_at_tl [OF valued.prems(1)] valued.IH [of d i] by auto
next
  case (nop nm off ts)
  then show ?case using tokens_at_tl [OF nop.prems(1)] nop.IH [of d i] by auto
qed auto

section \<open>What is read\<close>

text \<open>
  The walk with \<open>fdt_next_node\<close> and a depth over all nodes, from the offset \<open>- 1\<close>: the nodes of the forest in
  preorder, each with its depth, its name and its properties. The depths determine the trees.
\<close>

definition reads_forest :: "blob \<Rightarrow> dt_node list \<Rightarrow> bool" where
  "reads_forest fdt ts \<longleftrightarrow> (\<exists>offs.
     let vs = concat (map preorder ts); ds = concat (map (depths 1) ts) in
     length offs = length vs \<and> length ds = length vs \<and>
     (if vs = [] then \<exists>e. fdt_next_node fdt (- 1) (Some 0) = Some (- FDT_ERR_NOTFOUND, e)
      else fdt_next_node fdt (- 1) (Some 0) = Some (offs ! 0, Some (ds ! 0))) \<and>
     (\<forall>i<length vs.
        (if Suc i < length vs then fdt_next_node fdt (offs ! i) (Some (ds ! i)) = Some (offs ! Suc i, Some (ds ! Suc i))
         else \<exists>e. fdt_next_node fdt (offs ! i) (Some (ds ! i)) = Some (- FDT_ERR_NOTFOUND, e)) \<and>
        (\<exists>p. fdt_get_name fdt (offs ! i) = Some (Some p, int (length (fst (vs ! i)))) \<and> holds fdt p (fst (vs ! i) @ [0])) \<and>
        (\<forall>name. \<exists>r. fdt_getprop fdt (offs ! i) name = Some r \<and> found fdt (map_of (snd (vs ! i)) name) r)))"

lemma forest_visits: "call_visits (concat (map calls_of ts)) = concat (map preorder ts)"
  by (induction ts) (simp_all add: call_visits_calls)

lemma forest_stop: "calls_stop (concat (map calls_of ts))"
  by (induction ts) simp_all

lemma visit_next_depth:
  assumes "tokens_at fdt 0 us" "End \<in> set us" "stays 0 us" "i < length (visits nm 0 us)"
  shows "if Suc i < length (visits nm 0 us)
    then fdt_next_node fdt (fst (visits nm 0 us ! i)) (Some (tok_depths 0 us ! i)) = Some (fst (visits nm 0 us ! Suc i), Some (tok_depths 0 us ! Suc i))
    else \<exists>e. fdt_next_node fdt (fst (visits nm 0 us ! i)) (Some (tok_depths 0 us ! i)) = Some (- FDT_ERR_NOTFOUND, e)"
proof -
  let ?d = "tok_depths 0 us ! i"
  obtain k s ts where k: "fst (visits nm 0 us ! i) = k" "tokens_at fdt k (BeginNode s # ts)" "End \<in> set ts"
    and rest: "drop (Suc i) (visits nm 0 us) = visits nm (k + int (length (enc (BeginNode s)))) ts"
      "drop (Suc i) (tok_depths 0 us) = tok_depths ?d ts"
    and d: "stays ?d ts" "0 \<le> ?d" "?d \<le> k + int (length (enc (BeginNode s)))"
    using visits_depth [OF assms(1,2) _ _ assms(3,4)] by auto
  have "fdt_next_node fdt k (Some ?d) = next_node_loop fdt (k + int (length (enc (BeginNode s)))) (Some ?d)"
    using check_node_token [OF k(2)] tokens_at_off [OF k(2)] tokens_at_off [OF tokens_at_tl [OF k(2)]]
    by (simp add: fdt_next_node_def not_less)
  moreover note next_node_loop_depth [OF tokens_at_tl [OF k(2)] k(3) d(2,3,1), of nm] rest [symmetric]
  moreover have "length (tok_depths 0 us) = length (visits nm 0 us)" by (rule length_tok_depths)
  ultimately show ?thesis using k(1)
    by (cases "Suc i < length (visits nm 0 us)")
      (simp_all add: Cons_nth_drop_Suc [symmetric])
qed

lemma tokens_read_forest:
  assumes hdr: "fdt_check_header fdt = 0" and at: "tokens_at fdt 0 us" and e: "End \<in> set us"
    and names: "names_at fdt nm us" and stop: "nodes_stop us" and st: "stays 0 us"
    and vs: "map snd (visits nm 0 us) = concat (map preorder ts)"
    and ds: "tok_depths 0 us = concat (map (depths 1) ts)"
  shows "reads_forest fdt ts"
proof -
  let ?vs = "visits nm 0 us" and ?ds = "tok_depths 0 us"
  have len: "length ?vs = length (concat (map preorder ts))" using arg_cong [OF vs, of length] by simp
  have nth: "?vs ! i = (fst (?vs ! i), fst (concat (map preorder ts) ! i), snd (concat (map preorder ts) ! i))" if "i < length ?vs" for i
    using nth_map [OF that, of snd] unfolding vs by simp
  have lds: "length ?ds = length ?vs" by (rule length_tok_depths)
  note r = visit_reads [OF hdr at e names stop _ nth]
  have first: "fdt_next_node fdt (- 1) (Some 0) = next_node_loop fdt 0 (Some 0)" by (simp add: fdt_next_node_def)
  note loop = next_node_loop_depth [OF at e order_refl order_refl st, of nm]
  show ?thesis
    unfolding reads_forest_def Let_def ds [symmetric]
  proof (intro exI [of _ "map fst ?vs"] conjI allI impI)
    show "length (map fst ?vs) = length (concat (map preorder ts))" "length ?ds = length (concat (map preorder ts))"
      using len lds by simp_all
    show "if concat (map preorder ts) = [] then \<exists>e. fdt_next_node fdt (- 1) (Some 0) = Some (- FDT_ERR_NOTFOUND, e)
      else fdt_next_node fdt (- 1) (Some 0) = Some (map fst ?vs ! 0, Some (?ds ! 0))"
    proof (cases ?vs)
      case Nil
      then have "length (concat (map preorder ts)) = 0" using len by (simp only: list.size)
      then have none: "concat (map preorder ts) = []" by (simp only: length_0_conv)
      show ?thesis unfolding if_P [OF none] first using loop unfolding Nil by (simp only: list.case)
    next
      case (Cons v vs')
      then have "length (concat (map preorder ts)) \<noteq> 0" "length ?ds \<noteq> 0" using len lds by (simp_all only: list.size)
      then have some: "concat (map preorder ts) \<noteq> []" "?ds \<noteq> []" by (simp_all only: length_0_conv not_False_eq_True)
      show ?thesis unfolding if_not_P [OF some(1)] using loop first Cons some(2) by (cases ?ds) auto
    qed
  next
    fix i assume "i < length (concat (map preorder ts))"
    then have i: "i < length ?vs" using len by simp
    show "if Suc i < length (concat (map preorder ts))
      then fdt_next_node fdt (map fst ?vs ! i) (Some (?ds ! i)) = Some (map fst ?vs ! Suc i, Some (?ds ! Suc i))
      else \<exists>e. fdt_next_node fdt (map fst ?vs ! i) (Some (?ds ! i)) = Some (- FDT_ERR_NOTFOUND, e)"
      using visit_next_depth [OF at e st i] i len by (simp split: if_splits)
    show "\<exists>p. fdt_get_name fdt (map fst ?vs ! i) = Some (Some p, int (length (fst (concat (map preorder ts) ! i)))) \<and>
        holds fdt p (fst (concat (map preorder ts) ! i) @ [0])" using r(2) [OF i i] i by simp
    show "\<exists>r. fdt_getprop fdt (map fst ?vs ! i) name = Some r \<and> found fdt (map_of (snd (concat (map preorder ts) ! i)) name) r" for name
      using r(3) [OF i i] i by simp
  qed
qed

text \<open>The nodes in preorder and their depths determine the trees.\<close>

abbreviation levels_of :: "int \<Rightarrow> dt_node list \<Rightarrow> int list" where
  "levels_of d ts \<equiv> concat (map (depths d) ts)"

abbreviation nodes_of :: "dt_node list \<Rightarrow> (u8 list \<times> (u8 list \<times> u8 list) list) list" where
  "nodes_of ts \<equiv> concat (map preorder ts)"

lemma length_depths: "length (depths d t) = length (preorder t)"
proof (induction t arbitrary: d)
  case (DtNode s ps kids)
  have "length (levels_of (d + 1) ks) = length (nodes_of ks)" if "set ks \<subseteq> set kids" for ks
    using that DtNode by (induction ks) auto
  then show ?case by simp
qed

lemma length_levels: "length (levels_of d ts) = length (nodes_of ts)"
  by (induction ts) (simp_all add: length_depths)

lemma depths_ge: "x \<in> set (depths d t) \<Longrightarrow> d \<le> x"
proof (induction t arbitrary: d)
  case (DtNode s ps kids)
  show ?case
  proof (cases "x = d")
    case False
    then obtain k where "k \<in> set kids" "x \<in> set (depths (d + 1) k)" using DtNode.prems by auto
    then show ?thesis using DtNode.IH [of k "d + 1"] by simp
  qed simp
qed

lemma takeWhile_levels: "takeWhile (\<lambda>x. d < x) (levels_of (d + 1) ks @ levels_of d ts) = levels_of (d + 1) ks"
proof -
  have "takeWhile (\<lambda>x. d < x) (levels_of d ts) = []"
  proof (cases ts)
    case (Cons t ts')
    then show ?thesis by (cases t) simp
  qed simp
  moreover have "\<forall>x \<in> set (levels_of (d + 1) ks). d < x" using depths_ge [of _ "d + 1"] by fastforce
  then have "takeWhile (\<lambda>x. d < x) (levels_of (d + 1) ks @ levels_of d ts) =
      levels_of (d + 1) ks @ takeWhile (\<lambda>x. d < x) (levels_of d ts)" by (intro takeWhile_append2) blast
  ultimately show ?thesis by simp
qed

lemma forest_unique:
  "levels_of d ts = levels_of d us \<Longrightarrow> nodes_of ts = nodes_of us \<Longrightarrow> ts = us"
proof (induction "length (nodes_of ts)" arbitrary: d ts us rule: less_induct)
  case less
  show ?case
  proof (cases ts)
    case Nil
    then show ?thesis using less.prems(2) by (cases us) (auto elim: preorder.elims)
  next
    case t: (Cons t ts')
    obtain s ps kids where n: "t = DtNode s ps kids" by (cases t)
    obtain u us' where u: "us = u # us'" using less.prems(2) t n by (cases us) auto
    obtain s' ps' kids' where n': "u = DtNode s' ps' kids'" by (cases u)
    have d: "levels_of (d + 1) kids @ levels_of d ts' = levels_of (d + 1) kids' @ levels_of d us'"
      using less.prems(1) by (simp add: t u n n')
    have v: "s' = s" "ps' = ps" "nodes_of kids @ nodes_of ts' = nodes_of kids' @ nodes_of us'"
      using less.prems(2) by (simp_all add: t u n n')
    have k: "levels_of (d + 1) kids = levels_of (d + 1) kids'"
      using arg_cong [OF d, of "takeWhile (\<lambda>x. d < x)"] unfolding takeWhile_levels .
    then have "length (nodes_of kids) = length (nodes_of kids')" using length_levels by metis
    then have "nodes_of kids = nodes_of kids'" "nodes_of ts' = nodes_of us'" using v(3) by simp_all
    moreover have "levels_of d ts' = levels_of d us'" using d k by simp
    ultimately have "kids = kids'" "ts' = us'" using k
        less.hyps [of kids "d + 1" kids'] less.hyps [of ts' d us'] by (simp_all add: t n)
    then show ?thesis by (simp add: t u n n' v)
  qed
qed

lemma named_levels: "list_all2 (named_token fdt) cs ts \<Longrightarrow> levels m ts \<longleftrightarrow> call_levels m cs"
proof (induction cs arbitrary: ts m)
  case (Cons c cs)
  then show ?case by (cases c) (auto simp: list_all2_Cons1)
qed simp

lemma named_depths: "list_all2 (named_token fdt) cs ts \<Longrightarrow> tok_depths d (ts @ [End]) = call_depths d cs"
proof (induction cs arbitrary: ts d)
  case (Cons c cs)
  then show ?case by (cases c) (auto simp: list_all2_Cons1)
qed simp

lemma reads_forest_calls:
  assumes "fdt_check_header fdt = 0" "tokens_at fdt 0 (us @ [End])" "list_all2 (named_token fdt) (concat (map calls_of ts)) us"
  shows "reads_forest fdt ts"
proof (rule tokens_read_forest [where us = "us @ [End]" and nm = "blob_name fdt"])
  show "stays 0 (us @ [End])"
    using named_levels [OF assms(3), of 0] call_levels_forest [of 0 ts "[]"] levels_stays [of 0 us] by simp
qed (use assms named_names [OF assms(3)] named_stop [OF assms(3) forest_stop] named_visits [OF assms(3)] forest_visits
    named_depths [OF assms(3)] in \<open>simp_all add: call_depths_forest\<close>)

end
