(* ===== verification/Fdt_Sw_Round.thy ===== *)
theory Fdt_Sw_Round
  imports Fdt_Sw_Build
begin

text \<open>
  Writing a tree with \<open>fdt_sw.c\<close> and reading it back, and the case in which a long name is written in front
  of the buffer.
\<close>

section \<open>Names and reservations of a finished blob\<close>

lemma string_holds:
  assumes "holds fdt p strs" "string_from_end strs d k"
  shows "holds fdt (p + int (length strs - d)) (k @ [0])"
proof -
  let ?i = "length strs - d"
  have "?i \<le> length strs" by simp
  have "strs = take ?i strs @ (k @ [0]) @ drop (length k + 1) (drop ?i strs)"
    using assms(2) by (metis append_take_drop_id string_from_end_def)
  with assms(1) have "holds fdt p (take ?i strs @ (k @ [0]) @ drop (length k + 1) (drop ?i strs))" by simp
  then show ?thesis by (simp add: holds_append)
qed

lemma token_named:
  assumes "token_of strs c t" "wf_call c" "holds fdt (uint (fdt_off_dt_strings fdt)) strs" "length strs < 2 ^ 31"
  shows "named_token fdt c (reloc (of_nat (length strs)) t)"
proof (cases c)
  case (Property k v)
  then obtain d where d: "t = Prop (word_of_int (- int d)) v" "string_from_end strs d k" using assms(1) by auto
  then have "word_of_int (- int d) + of_nat (length strs) = (of_nat (length strs - d) :: u32)"
    by (simp add: string_from_end_def of_nat_diff)
  moreover have "name_at fdt (of_nat (length strs - d)) k"
    using string_holds [OF assms(3) d(2)] assms(2,4) Property c_int_uint [of "length strs - d"]
    by (simp add: name_at_def fdt_string_def del: of_nat_diff)
  ultimately show ?thesis using Property d(1) by (simp del: of_nat_diff)
qed (use assms in auto)

lemma tokens_named:
  assumes "list_all2 (token_of strs) cs ts" "list_all wf_call cs" "holds fdt (uint (fdt_off_dt_strings fdt)) strs" "length strs < 2 ^ 31"
  shows "list_all2 (named_token fdt) cs (map (reloc (of_nat (length strs))) ts)"
  using assms(1,2)
proof (induction rule: list_all2_induct)
  case (Cons c cs t ts)
  then show ?case using token_named [OF _ _ assms(3,4)] by simp
qed simp

lemma tokens_wf:
  assumes "list_all2 (token_of strs) cs ts" "list_all wf_call cs"
  shows "list_all wf_token ts \<and> End \<notin> set ts"
  using assms
proof (induction rule: list_all2_induct)
  case (Cons c cs t ts)
  then show ?case by (cases c) auto
qed simp

lemma rsv_nth:
  "holds fdt p (rsv_bytes rs) \<Longrightarrow> i < length rs \<Longrightarrow>
   be64 fdt (p + 16 * int i) = fst (rs ! i) \<and> be64 fdt (p + 16 * int i + 8) = snd (rs ! i)"
proof (induction rs arbitrary: p i)
  case (Cons r rs)
  obtain a b where r: "r = (a, b)" by force
  have h: "holds fdt p (be64_bytes a)" "holds fdt (p + 8) (be64_bytes b)" "holds fdt (p + 16) (rsv_bytes rs)"
    using Cons.prems(1) by (simp_all add: r rsv_bytes_def holds_append add.assoc)
  show ?case
  proof (cases i)
    case 0
    then show ?thesis using be64_holds [OF h(1)] be64_holds [OF h(2)] by (simp add: r)
  next
    case (Suc j)
    then show ?thesis using Cons.IH [OF h(3), of j] Cons.prems(2) by (simp add: algebra_simps)
  qed
qed simp

text \<open>The reservations up to the first one of size 0.\<close>

lemma num_mem_rsv_holds:
  assumes "fdt_off_mem_rsvmap fdt = off" "holds fdt (uint off) (rsv_bytes (rs @ [(a, 0)]))" "list_all (\<lambda>(a, s). s \<noteq> 0) rs"
  shows "fdt_num_mem_rsv fdt = Some (int (length rs))"
proof -
  have at: "be64 fdt (fdt_mem_rsv fdt (int i) + 8) = snd ((rs @ [(a, 0)]) ! i)" if "i \<le> length rs" for i
    using rsv_nth [OF assms(2), of i] that assms(1) by (simp add: fdt_mem_rsv_def)
  have "num_mem_rsv_loop fdt (int i) = Some (int (length rs))" if "i \<le> length rs" for i
    using that
  proof (induction rule: inc_induct)
    case base
    then show ?case using at [of "length rs"] by (subst num_mem_rsv_loop.simps) simp
  next
    case (step i)
    have "rs ! i \<in> set rs" using step.hyps by simp
    then have "snd (rs ! i) \<noteq> 0" using assms(3) by (auto simp: list_all_iff split_beta)
    then show ?case using at [of i] step by (subst num_mem_rsv_loop.simps) (simp add: nth_append add.commute)
  qed
  from this [of 0] show ?thesis by (simp add: fdt_num_mem_rsv_def)
qed

section \<open>The round trip\<close>

text \<open>A client that writes reservations and a tree into a buffer.\<close>

fun add_rsvs :: "(u64 \<times> u64) list \<Rightarrow> blob \<Rightarrow> int \<times> blob" where
  "add_rsvs [] fdt = fdt_finish_reservemap fdt"
| "add_rsvs ((a, s) # rs) fdt = (let (e, fdt) = fdt_add_reservemap_entry fdt a s in if e \<noteq> 0 then (e, fdt) else add_rsvs rs fdt)"

definition write_tree :: "(u64 \<times> u64) list \<Rightarrow> dt_node \<Rightarrow> int \<Rightarrow> blob \<Rightarrow> (int \<times> blob) option" where
  "write_tree rs t bufsize buf = do {
     (e, fdt) \<leftarrow> fdt_create buf bufsize;
     if e \<noteq> 0 then Some (e, fdt)
     else let (e, fdt) = add_rsvs rs fdt in
       if e \<noteq> 0 then Some (e, fdt)
       else let (e, fdt) = do_calls (calls_of t) fdt in if e \<noteq> 0 then Some (e, fdt) else fdt_finish fdt
   }"

text \<open>The size of a blob in which no two properties share a name.\<close>

definition tree_size :: "(u64 \<times> u64) list \<Rightarrow> dt_node \<Rightarrow> nat" where
  "tree_size rs t = 48 + 16 * (length rs + 1) + sum_list (map call_size (calls_of t)) + 4"

lemma add_rsvs_blob:
  assumes "sw_blob n s fdt" "sw_tags s = []" "sw_used s + 16 * (length rs + 1) \<le> n"
  shows "\<exists>fdt'. add_rsvs rs fdt = (0, fdt') \<and> sw_blob n (s\<lparr>sw_rsv := sw_rsv s @ rs @ [(0, 0)]\<rparr>) fdt' \<and> changed 0 (int n) fdt fdt'"
  using assms
proof (induction rs arbitrary: s fdt)
  case Nil
  then show ?case using reservemap_added [OF Nil(1,2), of 0 0] by (simp add: fdt_finish_reservemap_def)
next
  case (Cons r rs)
  obtain a b where r: "r = (a, b)" by force
  let ?s = "s\<lparr>sw_rsv := sw_rsv s @ [(a, b)]\<rparr>"
  obtain fdt1 where 1: "fdt_add_reservemap_entry fdt a b = (0, fdt1)" "sw_blob n ?s fdt1" "changed 0 (int n) fdt fdt1"
    using reservemap_added [OF Cons.prems(1,2), of a b] Cons.prems(3) by auto
  have "sw_used ?s + 16 * (length rs + 1) \<le> n" using Cons.prems(3) by (simp add: sw_defs)
  with Cons.IH [OF 1(2)] Cons.prems(2) obtain fdt2 where "add_rsvs rs fdt1 = (0, fdt2)"
    "sw_blob n (s\<lparr>sw_rsv := sw_rsv s @ (a, b) # rs @ [(0, 0)]\<rparr>) fdt2" "changed 0 (int n) fdt1 fdt2" by auto
  then show ?case using 1 changed_trans [OF 1(3)] by (auto simp: r)
qed

text \<open>The blob before \<open>fdt_finish\<close>.\<close>

lemma write_tree_steps:
  assumes "list_all wf_call (calls_of t)" "tree_size rs t \<le> n" "n < 2 ^ 31"
  obtains fdt' s where "write_tree rs t (int n) fdt = fdt_finish fdt'" "sw_blob n s fdt'" "changed 0 (int n) fdt fdt'"
    "sw_rsv s = rs @ [(0, 0)]" "list_all2 (token_of (sw_strs s)) (calls_of t) (sw_tags s)" "sw_used s + 4 \<le> tree_size rs t"
proof -
  obtain fdt1 where 1: "fdt_create fdt (int n) = Some (0, fdt1)" "sw_blob n \<lparr>sw_rsv = [], sw_tags = [], sw_strs = []\<rparr> fdt1"
    "changed 0 (int n) fdt fdt1" using create_blob [of n fdt] assms(2,3) by (auto simp: tree_size_def)
  obtain fdt2 where 2: "add_rsvs rs fdt1 = (0, fdt2)" "sw_blob n \<lparr>sw_rsv = rs @ [(0, 0)], sw_tags = [], sw_strs = []\<rparr> fdt2"
    "changed 0 (int n) fdt1 fdt2" using add_rsvs_blob [OF 1(2), of rs] assms(2) by (auto simp: sw_defs tree_size_def)
  have used: "sw_used \<lparr>sw_rsv = rs @ [(0, 0)], sw_tags = [], sw_strs = []\<rparr> = 48 + 16 * (length rs + 1)" by (simp add: sw_defs)
  obtain fdt3 s ts where 3: "do_calls (calls_of t) fdt2 = (0, fdt3)" "sw_blob n s fdt3" "changed 0 (int n) fdt2 fdt3"
    "sw_rsv s = rs @ [(0, 0)]" "sw_tags s = ts" "list_all2 (token_of (sw_strs s)) (calls_of t) ts"
    "sw_used s \<le> 48 + 16 * (length rs + 1) + sum_list (map call_size (calls_of t))"
    using calls_blob [OF 2(2) _ assms(1)] assms(2) unfolding used tree_size_def by auto
  have "changed 0 (int n) fdt fdt3" using 1(3) 2(3) 3(3) changed_trans by blast
  moreover have "write_tree rs t (int n) fdt = fdt_finish fdt3" using 1(1) 2(1) 3(1) by (simp add: write_tree_def)
  ultimately show thesis using that [of fdt3 s] 3 by (simp add: tree_size_def)
qed

lemma write_tree_blob:
  assumes "list_all wf_call (calls_of t)" "list_all (\<lambda>(a, s). s \<noteq> 0) rs" "tree_size rs t \<le> n" "n < 2 ^ 31"
  shows "\<exists>fdt'. write_tree rs t (int n) fdt = Some (0, fdt') \<and> changed 0 (int n) fdt fdt' \<and> fdt_check_header fdt' = 0 \<and>
    uint (fdt_totalsize fdt') \<le> int (tree_size rs t) \<and> reads_forest fdt' [t] \<and> fdt_num_mem_rsv fdt' = Some (int (length rs)) \<and>
    (\<forall>i<length rs. fdt_get_mem_rsv fdt' (int i) = (0, Some (rs ! i)))"
proof -
  obtain fdt3 s where 3: "write_tree rs t (int n) fdt = fdt_finish fdt3" "sw_blob n s fdt3" "changed 0 (int n) fdt fdt3"
    "sw_rsv s = rs @ [(0, 0)]" "list_all2 (token_of (sw_strs s)) (calls_of t) (sw_tags s)" "sw_used s + 4 \<le> tree_size rs t"
    using write_tree_steps [OF assms(1,3,4)] by blast
  obtain fdt4 where 4: "fdt_finish fdt3 = Some (0, fdt4)" "changed 0 (int n) fdt3 fdt4" "fdt_check_header fdt4 = 0"
    "fdt_totalsize fdt4 = of_nat (sw_used s + 4)" "fdt_off_mem_rsvmap fdt4 = 48" "fdt_off_dt_strings fdt4 = of_nat (sw_end s + 4)"
    "holds fdt4 48 (rsv_bytes (rs @ [(0, 0)]))" "holds fdt4 (int (sw_end s) + 4) (sw_strs s)"
    "tokens_at fdt4 0 (map (reloc (of_nat (length (sw_strs s)))) (sw_tags s) @ [End])"
    using finish_blob [OF 3(2)] tokens_wf [OF 3(5) assms(1)] 3(4,6) assms(3) by auto
  have small: "sw_used s + 4 < 2 ^ 31" "sw_end s + 4 < 2 ^ 31" "length (sw_strs s) < 2 ^ 31"
    using 3(6) assms(3,4) by (auto simp: sw_used_def)
  have "holds fdt4 (uint (fdt_off_dt_strings fdt4)) (sw_strs s)"
    unfolding 4(6) using 4(8) uint_nat32 [OF small(2)] by simp
  from tokens_named [OF 3(5) assms(1) this small(3)] have "reads_forest fdt4 [t]"
    using reads_forest_calls [OF 4(3,9), of "[t]"] by simp
  moreover have "fdt_num_mem_rsv fdt4 = Some (int (length rs))"
    using num_mem_rsv_holds [OF 4(5) _ assms(2)] 4(7) by simp
  moreover have "fdt_get_mem_rsv fdt4 (int i) = (0, Some (rs ! i))" if "i < length rs" for i
    using rsv_nth [OF 4(7), of i] that 4(3,5) by (simp add: fdt_get_mem_rsv_def fdt_mem_rsv_def nth_append)
  moreover have "uint (fdt_totalsize fdt4) \<le> int (tree_size rs t)" using 4(4) uint_nat32 [OF small(1)] 3(6) by simp
  moreover have "changed 0 (int n) fdt fdt4" using 3(3) 4(2) changed_trans by blast
  ultimately show ?thesis using 3(1) 4(1,3) by (intro exI [of _ fdt4]) simp
qed

section \<open>Properties\<close>

text \<open>
  C22. Writing a device tree and reading it back. When the names have no zero byte and the buffer has room for
  the tree, the calls of a client (\<open>fdt_create\<close>, the reservations, \<open>fdt_begin_node\<close>, \<open>fdt_property\<close> and
  \<open>fdt_end_node\<close> in the order of the tree, \<open>fdt_finish\<close>) all succeed. Nothing outside the buffer is
  written. In the result, which has an accepted header, the walk with \<open>fdt_next_node\<close> and a depth visits the nodes
  of the tree in preorder, each at its depth in the tree and with its name, \<open>fdt_getprop\<close> finds the first property of
  every name and no other, and the reservations are read. Preorder and depths together determine how the
  nodes are nested (\<open>forest_unique\<close>).
\<close>

theorem fdt_sw_round_trip:
  assumes "list_all wf_call (calls_of t)" "list_all (\<lambda>(a, s). s \<noteq> 0) rs" "tree_size rs t \<le> n" "n < 2 ^ 31"
  shows "\<exists>fdt. write_tree rs t (int n) buf = Some (0, fdt) \<and> (\<forall>p. p < 0 \<or> int n \<le> p \<longrightarrow> fdt p = buf p) \<and>
    fdt_check_header fdt = 0 \<and> reads_forest fdt [t] \<and> fdt_num_mem_rsv fdt = Some (int (length rs)) \<and>
    (\<forall>i<length rs. fdt_get_mem_rsv fdt (int i) = (0, Some (rs ! i)))"
  using write_tree_blob [OF assms, of buf] by (auto simp: changed_def)

theorem fdt_sw_round_trip_witness:
  "\<exists>fdt. write_tree [(0x1000, 0x2000)] demo_tree 512 (\<lambda>_. 0xff) = Some (0, fdt) \<and> reads_forest fdt [demo_tree] \<and>
    fdt_get_mem_rsv fdt 0 = (0, Some (0x1000, 0x2000))"
proof -
  have "list_all wf_call (calls_of demo_tree)" by (simp add: demo_tree_def bytes_def)
  moreover have "tree_size [(0x1000, 0x2000)] demo_tree \<le> 512"
    by (simp add: tree_size_def demo_tree_def bytes_def length_enc)
  ultimately show ?thesis using fdt_sw_round_trip [of demo_tree "[(0x1000, 0x2000)]" 512 "\<lambda>_. 0xff"] by auto
qed

text \<open>
  C23. A name that does not fit. \<open>_fdt_find_add_string\<close> compares the start of the new string with the end of
  the structure block in \<open>unsigned int\<close>. Let \<open>d\<close> be the length of the string table with the new name and its
  terminator, too long for the room between the structure block and the end of the buffer. When \<open>d\<close> is at
  most the size of the whole buffer, the result is 0 and nothing changes. When it is larger, the start of the string
  is negative, the comparison takes it for a large number, and the front of the name is written in front of the buffer.
\<close>

theorem sw_long_name_in_front:
  assumes "sw_blob n s fdt" "fdt_find_string (sw_strs s) k = None"
    and "length (sw_strs s) + length k + 1 = d" "n < sw_end s + d" "d < 2 ^ 31"
  shows "if d \<le> n then sw_find_add_string fdt k = (0, fdt)
    else \<exists>fdt'. sw_find_add_string fdt k = (- int d, fdt') \<and>
      (\<forall>i < d - n. fdt' (int n - int d + int i) = (k @ [0]) ! i)"
proof (cases "d \<le> n")
  case True
  have "sw_intern k s = (d, s\<lparr>sw_strs := k @ [0] @ sw_strs s\<rparr>)" using assms(2,3) by (simp add: sw_intern_def)
  from find_add_string_blob [OF assms(1) _ this] show ?thesis using True assms(3,4) by (auto simp: sw_defs)
next
  case False
  let ?l = "length (sw_strs s)" and ?top = "sw_end s"
  have n: "n < 2 ^ 31" "?top + ?l \<le> n" using assms(1) by (auto simp: sw_blob_def sw_used_def)
  have tot: "uint (fdt_totalsize fdt) = int n" "c_int (uint (fdt_size_dt_strings fdt)) = int ?l"
    using assms(1) n by (auto simp: sw_blob_def uint_nat32 c_int_nat)
  have len: "c_int (int (length k) + 1) = int (length k) + 1"
    using assms(3,5) c_int_nat [of "length k + 1"] by (simp add: add.commute)
  have tab: "load_bytes fdt (int n - int ?l) ?l = sw_strs s"
    using assms(1) by (intro load_holds) (simp add: sw_blob_def)
  have off: "c_int (- int ?l - (int (length k) + 1)) = - int d"
    using assms(3,5) by (subst c_int_id) auto
  have "fdt_off_dt_struct fdt + fdt_size_dt_struct fdt = of_nat ?top"
    using assms(1) by (simp add: sw_blob_def sw_end_def)
  then have endw: "c_int (uint (fdt_off_dt_struct fdt + fdt_size_dt_struct fdt)) = int ?top"
    using n by (simp add: uint_nat32 c_int_nat)
  have "uint (of_nat n - of_nat d :: u32) = int n - int d + 2 ^ 32"
  proof -
    have "(of_nat n - of_nat d :: u32) = word_of_int (int n - int d + 2 ^ 32)" by simp
    also have "uint \<dots> = int n - int d + 2 ^ 32" using False assms(5) by (simp only: uint_word_of_int) (rule mod_pos_pos_trivial; simp)
    finally show ?thesis .
  qed
  then have test: "\<not> (of_nat n - of_nat d :: u32) < of_nat ?top"
    using n assms(5) by (simp add: word_less_def uint_nat32)
  have total: "fdt_totalsize fdt = of_nat n" using assms(1) by (simp add: sw_blob_def)
  let ?f = "fdt_set_size_dt_strings (store_bytes fdt (int n - int d) (k @ [0])) (word_of_int (int ?l + (int (length k) + 1)))"
  have "sw_find_add_string fdt k = (- int d, ?f)"
    using assms(2) tot test by (simp add: sw_find_add_string_def tot len tab off endw total Let_def)
  moreover have "?f (int n - int d + int i) = (k @ [0]) ! i" if "i < d - n" for i
  proof -
    have "i < length (k @ [0])" using that n assms(3) by simp
    moreover have "int n - int d + int i < 32" using that by simp
    ultimately show ?thesis using store_bytes_in [of i "k @ [0]" fdt "int n - int d"] by (simp add: fdt_set_defs put32_def)
  qed
  ultimately show ?thesis using False by auto
qed

theorem sw_long_name_in_front_witness:
  "\<exists>fdt fdt'. fdt_create (\<lambda>_. 0) 64 = Some (0, fdt) \<and> sw_find_add_string fdt (replicate 79 97) = (- 80, fdt') \<and> fdt' (- 16) = 97"
proof -
  obtain fdt where c: "fdt_create (\<lambda>_. 0) (int 64) = Some (0, fdt)" and b: "sw_blob 64 \<lparr>sw_rsv = [], sw_tags = [], sw_strs = []\<rparr> fdt"
    using create_blob [of 64 "\<lambda>_. 0"] by auto
  have "fdt_find_string [] (replicate 79 97) = None" by (simp add: fdt_find_string_def)
  moreover have "(replicate 79 97 @ [0]) ! 0 = (97 :: u8)" by (subst nth_append) simp
  ultimately show ?thesis
    using sw_long_name_in_front [OF b, of "replicate 79 97" 80] c by (auto simp: sw_defs dest!: spec [of _ 0])
qed

end
