(* ===== verification/Fdt_Rw_Blob.thy ===== *)
theory Fdt_Rw_Blob
  imports Fdt_Rw Fdt_Sw_Round
begin

text \<open>
  Blobs that can be changed: reservations, structure block and strings in this order, with or without gaps,
  in a buffer of \<open>n\<close> bytes. Replacing tags, reservations and strings by others, as far as the buffer has room.
\<close>

section \<open>The layout\<close>

record rw_state =
  rw_rsv_off :: nat
  rw_struct_off :: nat
  rw_strings_off :: nat
  rw_struct_size :: nat
  rw_rsv :: "(u64 \<times> u64) list"
  rw_end_addr :: u64
  rw_tags :: "fdt_token list"
  rw_strs :: "u8 list"

abbreviation rw_data :: "rw_state \<Rightarrow> nat" where
  "rw_data s \<equiv> rw_strings_off s + length (rw_strs s)"

definition rw_layout :: "nat \<Rightarrow> rw_state \<Rightarrow> bool" where
  "rw_layout n s \<longleftrightarrow>
     n < 2 ^ 31 \<and> 40 \<le> rw_rsv_off s \<and> rw_rsv_off s + 16 * (length (rw_rsv s) + 1) \<le> rw_struct_off s \<and>
     rw_struct_off s + rw_struct_size s \<le> rw_strings_off s \<and> rw_data s \<le> n \<and>
     length (encs (rw_tags s)) + 4 \<le> rw_struct_size s \<and>
     list_all wf_token (rw_tags s) \<and> End \<notin> set (rw_tags s) \<and> list_all (\<lambda>(a, s). s \<noteq> 0) (rw_rsv s)"

definition rw_blob :: "nat \<Rightarrow> rw_state \<Rightarrow> blob \<Rightarrow> bool" where
  "rw_blob n s fdt \<longleftrightarrow>
     rw_layout n s \<and>
     fdt_magic fdt = FDT_MAGIC \<and> fdt_version fdt = 17 \<and> fdt_last_comp_version fdt \<le> 17 \<and>
     fdt_totalsize fdt = of_nat n \<and> fdt_off_mem_rsvmap fdt = of_nat (rw_rsv_off s) \<and>
     fdt_off_dt_struct fdt = of_nat (rw_struct_off s) \<and> fdt_size_dt_struct fdt = of_nat (rw_struct_size s) \<and>
     fdt_off_dt_strings fdt = of_nat (rw_strings_off s) \<and> fdt_size_dt_strings fdt = of_nat (length (rw_strs s)) \<and>
     holds fdt (int (rw_rsv_off s)) (rsv_bytes (rw_rsv s @ [(rw_end_addr s, 0)])) \<and>
     holds_tokens fdt (int (rw_struct_off s)) (rw_tags s @ [End]) \<and>
     holds fdt (int (rw_strings_off s)) (rw_strs s)"

lemma rw_blob_layout: "rw_blob n s fdt \<Longrightarrow> rw_layout n s"
  by (simp add: rw_blob_def)

lemma rw_layout_small:
  assumes "rw_layout n s"
  shows "n < 2 ^ 31" "rw_rsv_off s < 2 ^ 31" "rw_struct_off s < 2 ^ 31" "rw_strings_off s < 2 ^ 31"
    "rw_struct_size s < 2 ^ 31 - 4" "length (rw_strs s) < 2 ^ 31" "length (rw_rsv s) < 2 ^ 27"
  using assms by (auto simp: rw_layout_def)

lemma rw_fields:
  assumes "rw_blob n s fdt"
  shows "uint (fdt_totalsize fdt) = int n" "uint (fdt_off_mem_rsvmap fdt) = int (rw_rsv_off s)"
    "uint (fdt_off_dt_struct fdt) = int (rw_struct_off s)" "uint (fdt_size_dt_struct fdt) = int (rw_struct_size s)"
    "uint (fdt_off_dt_strings fdt) = int (rw_strings_off s)" "uint (fdt_size_dt_strings fdt) = int (length (rw_strs s))"
  using assms rw_layout_small [OF rw_blob_layout [OF assms]] by (simp_all add: rw_blob_def uint_nat32)

lemma rw_data_size:
  assumes "rw_blob n s fdt"
  shows "fdt_data_size fdt = int (rw_data s)"
proof -
  have "fdt_off_dt_strings fdt + fdt_size_dt_strings fdt = of_nat (rw_data s)" using assms by (simp add: rw_blob_def)
  moreover have "rw_data s < 2 ^ 31" using rw_blob_layout [OF assms] by (simp add: rw_layout_def)
  ultimately show ?thesis by (simp only: fdt_data_size_def c_int_uint)
qed

lemma rw_check: "rw_blob n s fdt \<Longrightarrow> fdt_check_header fdt = 0"
  by (simp add: rw_blob_def fdt_check_header_def const_defs not_less [symmetric])

lemma rw_header:
  assumes "rw_blob n s fdt"
  shows "fdt_rw_check_header fdt = (0, fdt)"
proof -
  note n = rw_layout_small [OF rw_blob_layout [OF assms]]
  have lay: "40 \<le> rw_rsv_off s" "rw_rsv_off s + 16 \<le> rw_struct_off s" "rw_struct_off s + rw_struct_size s \<le> rw_strings_off s" "rw_data s \<le> n"
    using rw_blob_layout [OF assms] by (auto simp: rw_layout_def)
  have "c_int (uint (fdt_size_dt_struct fdt)) = int (rw_struct_size s)"
    using rw_fields(4) [OF assms] n by (simp add: c_int_nat)
  moreover have "fdt_off_mem_rsvmap fdt + 16 = of_nat (rw_rsv_off s + 16)"
    "fdt_off_dt_struct fdt + of_nat (rw_struct_size s) = of_nat (rw_struct_off s + rw_struct_size s)"
    "fdt_off_dt_strings fdt + fdt_size_dt_strings fdt = of_nat (rw_data s)"
    using assms by (simp_all add: rw_blob_def)
  moreover have "((40 :: u32) + 8 - 1) AND NOT (8 - 1) = 40" by code_simp
  ultimately have "\<not> fdt_blocks_misordered fdt 16 (c_int (uint (fdt_size_dt_struct fdt)))"
    using lay n rw_fields [OF assms] by (simp add: fdt_blocks_misordered_def word_less_def uint_nat32 del: of_nat_add)
  then show ?thesis using rw_check [OF assms] assms by (simp add: fdt_rw_check_header_def rw_blob_def)
qed

lemma rw_tokens:
  assumes "rw_blob n s fdt"
  shows "tokens_at fdt 0 (rw_tags s @ [End])"
  using assms rw_fields [OF assms] rw_layout_small [OF rw_blob_layout [OF assms]]
  by (auto simp: tokens_at_def raw_fdt_offset_ptr_def rw_blob_def rw_layout_def length_enc list_all_iff)

lemma rw_ptr: "rw_blob n s fdt \<Longrightarrow> raw_fdt_offset_ptr fdt off = int (rw_struct_off s) + off"
  by (simp add: raw_fdt_offset_ptr_def rw_fields)

section \<open>Splicing\<close>

lemma c_int_diff: "a < 2 ^ 31 \<Longrightarrow> b < 2 ^ 31 \<Longrightarrow> c_int (int a - int b) = int a - int b"
  by (simp add: c_int_id)

lemma word_shift: "old \<le> k \<Longrightarrow> (of_nat k :: u32) + word_of_int (int new - int old) = of_nat (k - old + new)"
  by (simp add: of_nat_diff)

lemma rw_splice:
  assumes "rw_blob n s fdt" "p + int old \<le> int (rw_data s)"
  shows "fdt_splice fdt p (int old) (int new) =
    (if rw_data s + new \<le> n + old
     then (0, memmove fdt (p + int new) (p + int old) (nat (int (rw_data s) - p - int old)))
     else (- FDT_ERR_NOSPACE, fdt))"
  using assms rw_fields [OF assms(1)] rw_data_size [OF assms(1)] by (auto simp: fdt_splice_def)

text \<open>What a splice of the structure block leaves: the blocks in front of the gap, and those behind it, moved.\<close>

definition spliced :: "rw_state \<Rightarrow> int \<Rightarrow> nat \<Rightarrow> nat \<Rightarrow> blob \<Rightarrow> blob \<Rightarrow> bool" where
  "spliced s p old new fdt fdt' \<longleftrightarrow>
     moved 0 0 12 fdt fdt' \<and> moved 0 16 20 fdt fdt' \<and>
     fdt_size_dt_struct fdt' = of_nat (rw_struct_size s - old + new) \<and>
     fdt_off_dt_strings fdt' = of_nat (rw_strings_off s - old + new) \<and>
     moved 0 40 (p - 40) fdt fdt' \<and>
     moved (int new - int old) (p + int old) (int (rw_data s) - p - int old) fdt fdt'"

lemma moved_step_0: "moved d p n f g \<Longrightarrow> moved 0 (p + d) n g h \<Longrightarrow> moved d p n f h"
  using moved_trans [of d p n f g 0 h] by simp

lemma rw_splice_struct:
  assumes "rw_blob n s fdt" "p = int (rw_struct_off s) + int off" "off + old \<le> rw_struct_size s" "old < 2 ^ 31" "new < 2 ^ 31"
  shows "if rw_data s + new \<le> n + old
    then \<exists>fdt'. fdt_splice_struct fdt p (int old) (int new) = (0, fdt') \<and> spliced s p old new fdt fdt' \<and> changed 0 (int n) fdt fdt' \<and>
      moved 0 40 (p + int new - 40) fdt fdt'
    else fdt_splice_struct fdt p (int old) (int new) = (- FDT_ERR_NOSPACE, fdt)"
proof -
  have lay: "56 \<le> rw_struct_off s" "rw_struct_off s + rw_struct_size s \<le> rw_strings_off s"
    using rw_blob_layout [OF assms(1)] by (auto simp: rw_layout_def)
  have p: "p + int old \<le> int (rw_strings_off s)" "56 \<le> p" using assms(2,3) lay by auto
  show ?thesis
  proof (cases "rw_data s + new \<le> n + old")
    case True
    define k where "k = nat (int (rw_data s) - p - int old)"
    have k: "int k = int (rw_data s) - p - int old" using p by (simp add: k_def)
    define f where "f = memmove fdt (p + int new) (p + int old) k"
    let ?f1 = "fdt_set_size_dt_struct f (of_nat (rw_struct_size s - old + new))"
    let ?f2 = "fdt_set_off_dt_strings ?f1 (of_nat (rw_strings_off s - old + new))"
    have head: "moved 0 0 40 fdt f" using p by (auto simp: f_def)
    have low: "moved 0 40 (p - 40) fdt f" using p by (auto simp: f_def)
    have high: "moved (int new - int old) (p + int old) (int (rw_data s) - p - int old) fdt f"
      using moved_memmove [of "p + int new" "p + int old" k fdt] k by (simp add: f_def)
    have be: "be32 f q = be32 fdt q" if "0 \<le> q" "q + 4 \<le> 40" for q
      using moved_be32 [OF moved_sub [OF head that(1), of 4]] that(2) by simp
    have "fdt_splice fdt p (int old) (int new) = (0, f)"
      using True p rw_splice [OF assms(1), of p old new] by (simp add: f_def k_def)
    moreover have "fdt_size_dt_struct f = of_nat (rw_struct_size s)" "fdt_off_dt_strings ?f1 = of_nat (rw_strings_off s)"
      using assms(1) by (simp_all add: fdt_get_defs fdt_set_defs be rw_blob_def)
    moreover have "old \<le> rw_struct_size s" "old \<le> rw_strings_off s" using assms(3) lay by auto
    ultimately have "fdt_splice_struct fdt p (int old) (int new) = (0, ?f2)"
      by (simp only: fdt_splice_struct_def Let_def prod.case c_int_diff [OF assms(5,4)] word_shift) simp
    moreover have "spliced s p old new fdt ?f2"
      using p head low high
      by (auto simp: spliced_def fdt_get_defs fdt_set_defs
          intro!: moved_put32_step intro: moved_sub moved_step_0)
    moreover have "changed 0 (int n) fdt ?f2"
      using p True k unfolding f_def fdt_set_defs by (auto intro!: changed_steps)
    moreover have "moved 0 40 (p + int new - 40) fdt ?f2"
    proof -
      have "moved 0 40 (p + int new - 40) fdt f" unfolding f_def by simp
      then show ?thesis unfolding fdt_set_defs by (intro moved_put32_step) simp_all
    qed
    ultimately show ?thesis using True by auto
  next
    case False
    then show ?thesis using p rw_splice [OF assms(1), of p old new] by (simp add: fdt_splice_struct_def FDT_ERR_NOSPACE_def)
  qed
qed

lemma spliced_refl:
  assumes "rw_blob n s fdt" "p + int k \<le> int (rw_data s)" "k \<le> rw_struct_size s" "k \<le> rw_strings_off s"
  shows "spliced s p k k fdt fdt"
  using assms by (simp add: spliced_def rw_blob_def)

lemma spliced_widen:
  assumes "spliced s (p + int h) old new fdt g" "h + old \<le> rw_struct_size s" "h + old \<le> rw_strings_off s"
  shows "spliced s p (h + old) (h + new) fdt g"
proof -
  have e: "int (h + new) - int (h + old) = int new - int old" "p + int (h + old) = p + int h + int old"
    "int (rw_data s) - p - int (h + old) = int (rw_data s) - (p + int h) - int old"
    "rw_struct_size s - (h + old) + (h + new) = rw_struct_size s - old + new"
    "rw_strings_off s - (h + old) + (h + new) = rw_strings_off s - old + new" using assms(2,3) by auto
  have "moved 0 40 (p + int h - 40) fdt g" using assms(1) by (simp add: spliced_def)
  then have "moved 0 40 (p - 40) fdt g" by (rule moved_sub) auto
  then show ?thesis using assms(1) unfolding spliced_def e by simp
qed

lemma spliced_store:
  assumes "spliced s p old new fdt g" "40 \<le> p" "p \<le> q" "q + int (length bs) \<le> p + int new"
  shows "spliced s p old new fdt (store_bytes g q bs)"
proof -
  have "moved 0 (p + int old + (int new - int old)) (int (rw_data s) - p - int old) g (store_bytes g q bs)"
    using assms(2-4) by (intro moved_store disjI2) simp
  then have "moved (int new - int old) (p + int old) (int (rw_data s) - p - int old) fdt (store_bytes g q bs)"
    by (rule moved_step_0 [rotated]) (use assms(1) in \<open>simp only: spliced_def\<close>)
  moreover have "moved 0 0 12 fdt (store_bytes g q bs)" "moved 0 16 20 fdt (store_bytes g q bs)"
    "moved 0 40 (p - 40) fdt (store_bytes g q bs)"
    using assms by (auto simp: spliced_def intro: moved_store_step)
  moreover have "be32 (store_bytes g q bs) 36 = be32 g 36" "be32 (store_bytes g q bs) 12 = be32 g 12"
    using assms(2,3) by simp_all
  ultimately show ?thesis using assms(1) by (simp add: spliced_def fdt_get_defs)
qed

lemma spliced_put32:
  "spliced s p old new fdt g \<Longrightarrow> 40 \<le> p \<Longrightarrow> p \<le> q \<Longrightarrow> q + 4 \<le> p + int new \<Longrightarrow> spliced s p old new fdt (put32 g q v)"
  unfolding put32_def by (rule spliced_store) auto

lemmas spliced_steps = spliced_store spliced_put32

section \<open>Other tags\<close>

definition rw_retag :: "fdt_token list \<Rightarrow> rw_state \<Rightarrow> rw_state" where
  "rw_retag ts s = s\<lparr>rw_tags := ts,
     rw_strings_off := rw_strings_off s + length (encs ts) - length (encs (rw_tags s)),
     rw_struct_size := rw_struct_size s + length (encs ts) - length (encs (rw_tags s))\<rparr>"

lemma rw_retag_simps [simp]:
  "rw_tags (rw_retag ts s) = ts" "rw_strs (rw_retag ts s) = rw_strs s" "rw_rsv (rw_retag ts s) = rw_rsv s"
  by (simp_all add: rw_retag_def)

lemma rw_retag_layout:
  assumes "rw_layout n s" "rw_data s + length (encs ts) \<le> n + length (encs (rw_tags s))" "list_all wf_token ts" "End \<notin> set ts"
  shows "rw_layout n (rw_retag ts s)" and "rw_data (rw_retag ts s) + length (encs (rw_tags s)) = rw_data s + length (encs ts)"
proof -
  have "length (encs (rw_tags s)) \<le> rw_struct_size s" "rw_struct_size s \<le> rw_strings_off s" using assms(1) by (auto simp: rw_layout_def)
  then show "rw_layout n (rw_retag ts s)" "rw_data (rw_retag ts s) + length (encs (rw_tags s)) = rw_data s + length (encs ts)"
    using assms by (auto simp: rw_layout_def rw_retag_def)
qed

lemma moved_be32_at: "moved 0 p n fdt g \<Longrightarrow> p \<le> q \<Longrightarrow> q + 4 \<le> p + n \<Longrightarrow> be32 g q = be32 fdt q"
  using moved_be32 [OF moved_sub [of 0 p n fdt g q 4]] by simp

lemma rw_replace:
  assumes "rw_blob n s fdt" "rw_tags s = pre @ mid @ post" "p = int (rw_struct_off s) + int (length (encs pre))"
    and "rw_data s + length (encs mid') \<le> n + length (encs mid)" "list_all wf_token mid'" "End \<notin> set mid'"
    and "spliced s p (length (encs mid)) (length (encs mid')) fdt g" "holds_tokens g p mid'"
  shows "rw_blob n (rw_retag (pre @ mid' @ post) s) g"
proof -
  let ?o = "length (encs mid)" and ?w = "length (encs mid')" and ?s = "rw_retag (pre @ mid' @ post) s"
  note lay = rw_blob_layout [OF assms(1)]
  have lay': "rw_layout n ?s"
    using assms(2,4-6) lay by (intro rw_retag_layout) (auto simp: rw_layout_def)
  have b: "40 \<le> rw_rsv_off s" "rw_rsv_off s + 16 * (length (rw_rsv s) + 1) \<le> rw_struct_off s"
    "length (encs pre) + ?o + length (encs post) + 4 \<le> rw_struct_size s"
    "rw_struct_off s + rw_struct_size s \<le> rw_strings_off s"
    using lay assms(2) by (auto simp: rw_layout_def)
  have s: "rw_struct_size ?s = rw_struct_size s - ?o + ?w" "rw_strings_off ?s = rw_strings_off s - ?o + ?w"
    using b assms(2) by (auto simp: rw_retag_def)
  have low: "moved 0 40 (p - 40) fdt g" and up: "moved (int ?w - int ?o) (p + int ?o) (int (rw_data s) - p - int ?o) fdt g"
    and h1: "moved 0 0 12 fdt g" and h2: "moved 0 16 20 fdt g"
    using assms(7) by (simp_all add: spliced_def)
  have head: "be32 g 0 = be32 fdt 0" "be32 g 4 = be32 fdt 4" "be32 g 8 = be32 fdt 8"
    "be32 g 16 = be32 fdt 16" "be32 g 20 = be32 fdt 20" "be32 g 24 = be32 fdt 24" "be32 g 32 = be32 fdt 32"
    using moved_be32_at [OF h1] moved_be32_at [OF h2] by simp_all
  have old: "holds fdt (int (rw_rsv_off s)) (rsv_bytes (rw_rsv s @ [(rw_end_addr s, 0)]))"
    "holds_tokens fdt (int (rw_struct_off s)) pre" "holds_tokens fdt (p + int ?o) (post @ [End])" "holds fdt (int (rw_strings_off s)) (rw_strs s)"
    using assms(1-3) by (simp_all add: rw_blob_def holds_tokens_append add.assoc)
  have "holds g (int (rw_rsv_off s)) (rsv_bytes (rw_rsv s @ [(rw_end_addr s, 0)]))"
    using moved_holds [OF moved_sub [OF low, of "int (rw_rsv_off s)" "int (16 * (length (rw_rsv s) + 1))"] _ old(1)] b assms(3)
    by (simp add: add.commute)
  moreover have "holds_tokens g (int (rw_struct_off s)) pre"
    using moved_tokens [OF moved_sub [OF low, of "int (rw_struct_off s)" "int (length (encs pre))"] _ old(2)] b assms(3) by simp
  moreover have "holds_tokens g (p + int ?w) (post @ [End])"
    using moved_tokens [OF moved_sub [OF up, of "p + int ?o" "int (length (encs (post @ [End])))"] _ old(3)] b assms(3)
    by (simp add: length_enc add.assoc)
  moreover have "holds g (int (rw_strings_off s - ?o + ?w)) (rw_strs s)"
  proof -
    have "holds g (int (rw_strings_off s) + (int ?w - int ?o)) (rw_strs s)"
      using b assms(3) by (intro moved_holds [OF moved_sub [OF up, of "int (rw_strings_off s)" "int (length (rw_strs s))"] _ old(4)]) auto
    moreover have "int (rw_strings_off s) + (int ?w - int ?o) = int (rw_strings_off s - ?o + ?w)" using b by simp
    ultimately show ?thesis by simp
  qed
  moreover have "p + int ?w = int (rw_struct_off s) + int (length (encs pre)) + int ?w" by (simp add: assms(3))
  ultimately show ?thesis
    using assms(1,7,8) lay' unfolding rw_blob_def s spliced_def
    by (simp add: fdt_get_defs head holds_tokens_append assms(3) rw_retag_def)
qed

section \<open>Strings\<close>

definition string_in :: "u8 list \<Rightarrow> nat \<Rightarrow> u8 list \<Rightarrow> bool" where
  "string_in strs x k \<longleftrightarrow> take (length k + 1) (drop x strs) = k @ [0]"

lemma string_in_length: "string_in strs x k \<Longrightarrow> x + length k + 1 \<le> length strs"
  unfolding string_in_def by (drule arg_cong [of _ _ length]) (simp add: min_def split: if_splits)

lemma string_in_append: "string_in strs x k \<Longrightarrow> string_in (strs @ ys) x k"
  using string_in_length [of strs x k] by (simp add: string_in_def)

lemma string_in_end: "string_in (strs @ k @ [0]) (length strs) k"
  by (simp add: string_in_def)

lemma string_in_find: "fdt_find_string strs k = Some x \<Longrightarrow> string_in strs x k"
  using find_string_Some [of strs k x] by (auto simp: string_from_end_def string_in_def)

definition rw_intern :: "u8 list \<Rightarrow> rw_state \<Rightarrow> nat \<times> rw_state" where
  "rw_intern k s =
     (case fdt_find_string (rw_strs s) k of
        Some x \<Rightarrow> (x, s)
      | None \<Rightarrow> (length (rw_strs s), s\<lparr>rw_strs := rw_strs s @ k @ [0]\<rparr>))"

lemma rw_intern_string: "rw_intern k s = (x, s') \<Longrightarrow> string_in (rw_strs s') x k"
  by (auto simp: rw_intern_def string_in_find string_in_end split: option.splits)

lemma rw_intern_simps:
  "rw_intern k s = (x, s') \<Longrightarrow> rw_tags s' = rw_tags s \<and> rw_rsv s' = rw_rsv s \<and> rw_struct_off s' = rw_struct_off s \<and>
    (\<exists>ys. rw_strs s' = rw_strs s @ ys) \<and> rw_data s' \<le> rw_data s + length k + 1"
  by (auto simp: rw_intern_def split: option.splits)

lemma rw_find_add_string:
  assumes "rw_blob n s fdt" "length k < 2 ^ 31 - 1" "rw_intern k s = (x, s')"
  shows "if rw_data s' \<le> n
    then \<exists>fdt'. fdt_find_add_string fdt k = (int x, fdt') \<and> rw_blob n s' fdt' \<and> changed 0 (int n) fdt fdt'
    else fdt_find_add_string fdt k = (- FDT_ERR_NOSPACE, fdt)"
proof -
  let ?l = "length (rw_strs s)" and ?T = "rw_strings_off s"
  note n = rw_layout_small [OF rw_blob_layout [OF assms(1)]]
  note f = rw_fields [OF assms(1)]
  have lay: "56 \<le> ?T" "?T + ?l \<le> n" using rw_blob_layout [OF assms(1)] by (auto simp: rw_layout_def)
  have len: "c_int (int (length k) + 1) = int (length k + 1)"
    using assms(2) c_int_nat [of "length k + 1"] by (simp add: add.commute)
  have l: "c_int (int ?l) = int ?l" using n by (simp add: c_int_nat)
  have tab: "load_bytes fdt (int ?T) ?l = rw_strs s"
    using assms(1) by (intro load_holds) (simp add: rw_blob_def)
  show ?thesis
  proof (cases "fdt_find_string (rw_strs s) k")
    case (Some p)
    then have "s' = s" "x = p" using assms(3) by (auto simp: rw_intern_def)
    then show ?thesis using assms(1) lay Some by (simp add: fdt_find_add_string_def f l tab)
  next
    case None
    then have s': "s' = s\<lparr>rw_strs := rw_strs s @ k @ [0]\<rparr>" "x = ?l" using assms(3) by (auto simp: rw_intern_def)
    have sp: "fdt_splice fdt (int ?T + int ?l) 0 (int (length k + 1)) =
      (if rw_data s + (length k + 1) \<le> n then (0, memmove fdt (int ?T + int ?l + int (length k + 1)) (int ?T + int ?l) 0) else (- FDT_ERR_NOSPACE, fdt))"
      using rw_splice [OF assms(1), of "int ?T + int ?l" 0 "length k + 1"] by simp
    have nop: "memmove fdt q r 0 = fdt" for q r by (simp add: memmove_def load_bytes_def)
    show ?thesis
    proof (cases "rw_data s' \<le> n")
      case True
      let ?f = "fdt_set_size_dt_strings fdt (of_nat (?l + (length k + 1)))"
      let ?g = "store_bytes ?f (int ?T + int ?l) (k @ [0])"
      have room: "?T + ?l + length k + 1 \<le> n" using True s' by simp
      have "fdt_splice_string fdt (int (length k + 1)) = (0, ?f)"
        using sp room by (simp add: fdt_splice_string_def f nop) (use assms(1) in \<open>simp add: rw_blob_def add_ac\<close>)
      then have "fdt_find_add_string fdt k = (int x, ?g)"
        using None s' l by (simp add: fdt_find_add_string_def f l tab len)
      moreover have "rw_blob n s' ?g"
      proof -
        have m: "moved 0 40 (int ?T + int ?l - 40) fdt ?g" using lay by (auto simp: fdt_set_defs intro!: moved_steps)
        have b: "40 \<le> rw_rsv_off s" "rw_rsv_off s + 16 * (length (rw_rsv s) + 1) \<le> rw_struct_off s"
          "rw_struct_off s + rw_struct_size s \<le> ?T" "length (encs (rw_tags s)) + 4 \<le> rw_struct_size s"
          using rw_blob_layout [OF assms(1)] by (auto simp: rw_layout_def)
        have h: "holds fdt (int (rw_rsv_off s)) (rsv_bytes (rw_rsv s @ [(rw_end_addr s, 0)]))"
          "holds_tokens fdt (int (rw_struct_off s)) (rw_tags s @ [End])" "holds fdt (int ?T) (rw_strs s)"
          using assms(1) by (simp_all add: rw_blob_def)
        have "holds ?g (int (rw_rsv_off s)) (rsv_bytes (rw_rsv s @ [(rw_end_addr s, 0)]))"
          using moved_holds [OF moved_sub [OF m, of "int (rw_rsv_off s)" "int (16 * (length (rw_rsv s) + 1))"] _ h(1)] b by (simp add: add.commute)
        moreover have "holds_tokens ?g (int (rw_struct_off s)) (rw_tags s @ [End])"
          using moved_tokens [OF moved_sub [OF m, of "int (rw_struct_off s)" "int (rw_struct_size s)"] _ h(2)] b by (simp add: length_enc)
        moreover have "holds ?g (int ?T) (rw_strs s @ k @ [0])"
          by (subst holds_append) (use moved_holds [OF moved_sub [OF m, of "int ?T" "int ?l"] _ h(3)] lay in simp)
        moreover have "rw_layout n s'" using rw_blob_layout [OF assms(1)] room s' by (simp add: rw_layout_def)
        ultimately show ?thesis using assms(1) lay s'
          by (simp add: rw_blob_def fdt_get_defs fdt_set_defs)
      qed
      moreover have "changed 0 (int n) fdt ?g" using room lay by (auto simp: fdt_set_defs intro!: changed_steps)
      ultimately show ?thesis using True by auto
    next
      case False
      then have "fdt_splice_string fdt (int (length k + 1)) = (- FDT_ERR_NOSPACE, fdt)"
        using sp s' by (simp add: fdt_splice_string_def f FDT_ERR_NOSPACE_def)
      then show ?thesis using False None by (simp add: fdt_find_add_string_def f l tab len FDT_ERR_NOSPACE_def)
    qed
  qed
qed

section \<open>Reservations\<close>

lemma rsv_bytes_app: "rsv_bytes (as @ bs) = rsv_bytes as @ rsv_bytes bs"
  by (simp add: rsv_bytes_def)

lemma rw_splice_rsv:
  assumes "rw_blob n s fdt" "p = int (rw_rsv_off s) + 16 * int i" "i + old \<le> length (rw_rsv s) + 1" "new \<le> 1"
  shows "if rw_data s + 16 * new \<le> n + 16 * old
    then \<exists>fdt'. fdt_splice_mem_rsv fdt p (int old) (int new) = (0, fdt') \<and> changed 0 (int n) fdt fdt' \<and>
      moved 0 0 8 fdt fdt' \<and> moved 0 16 24 fdt fdt' \<and> moved 0 40 (p - 40) fdt fdt' \<and>
      fdt_off_dt_struct fdt' = of_nat (rw_struct_off s - 16 * old + 16 * new) \<and>
      fdt_off_dt_strings fdt' = of_nat (rw_strings_off s - 16 * old + 16 * new) \<and>
      moved (16 * int new - 16 * int old) (p + 16 * int old) (int (rw_data s) - p - 16 * int old) fdt fdt'
    else fdt_splice_mem_rsv fdt p (int old) (int new) = (- FDT_ERR_NOSPACE, fdt)"
proof -
  have lay: "40 \<le> rw_rsv_off s" "rw_rsv_off s + 16 * (length (rw_rsv s) + 1) \<le> rw_struct_off s"
    "rw_struct_off s \<le> rw_strings_off s" "rw_strings_off s < 2 ^ 31"
    using rw_blob_layout [OF assms(1)] by (auto simp: rw_layout_def)
  have p: "p + int (16 * old) \<le> int (rw_struct_off s)" "40 \<le> p" using assms(2,3) lay by auto
  have small: "16 * old < 2 ^ 31" "16 * new < 2 ^ 31" using p(1) lay assms(2,4) by auto
  have c: "c_int ((int new - int old) * 16) = int (16 * new) - int (16 * old)"
    "c_int (int old * 16) = int (16 * old)" "c_int (int new * 16) = int (16 * new)"
    using c_int_diff [OF small(2,1)] c_int_nat [OF small(1)] c_int_nat [OF small(2)] by (simp_all add: algebra_simps)
  have "p + int (16 * old) \<le> int (rw_data s)" using p lay by simp
  note sp = rw_splice [OF assms(1) this, of "16 * new"]
  show ?thesis
  proof (cases "rw_data s + 16 * new \<le> n + 16 * old")
    case True
    define k where "k = nat (int (rw_data s) - p - int (16 * old))"
    have k: "int k = int (rw_data s) - p - int (16 * old)" using p lay by (simp add: k_def)
    define f where "f = memmove fdt (p + int (16 * new)) (p + int (16 * old)) k"
    let ?f1 = "fdt_set_off_dt_struct f (of_nat (rw_struct_off s - 16 * old + 16 * new))"
    let ?f2 = "fdt_set_off_dt_strings ?f1 (of_nat (rw_strings_off s - 16 * old + 16 * new))"
    have head: "moved 0 0 40 fdt f" using p by (auto simp: f_def)
    have low: "moved 0 40 (p - 40) fdt f" using p by (auto simp: f_def)
    have high: "moved (int (16 * new) - int (16 * old)) (p + int (16 * old)) (int (rw_data s) - p - int (16 * old)) fdt f"
      using moved_memmove [of "p + int (16 * new)" "p + int (16 * old)" k fdt] k by (simp add: f_def)
    have be: "be32 f q = be32 fdt q" if "0 \<le> q" "q + 4 \<le> 40" for q
      using moved_be32 [OF moved_sub [OF head that(1), of 4]] that(2) by simp
    have "fdt_splice fdt p (int (16 * old)) (int (16 * new)) = (0, f)"
      using True sp by (simp add: f_def k_def)
    moreover have "fdt_off_dt_struct f = of_nat (rw_struct_off s)" "fdt_off_dt_strings ?f1 = of_nat (rw_strings_off s)"
      using assms(1) by (simp_all add: fdt_get_defs fdt_set_defs be rw_blob_def)
    moreover have "16 * old \<le> rw_struct_off s" "16 * old \<le> rw_strings_off s" using p lay by auto
    ultimately have eq: "fdt_splice_mem_rsv fdt p (int old) (int new) = (0, ?f2)"
      by (simp only: fdt_splice_mem_rsv_def Let_def prod.case c word_shift) simp
    have "moved 0 0 8 fdt ?f2" "moved 0 16 24 fdt ?f2" "moved 0 40 (p - 40) fdt ?f2"
      unfolding fdt_set_defs using p low moved_sub [OF head, of 0 8] moved_sub [OF head, of 16 24] by (auto intro!: moved_put32_step)
    moreover have "moved (int (16 * new) - int (16 * old)) (p + int (16 * old)) (int (rw_data s) - p - int (16 * old)) fdt ?f2"
      by (rule moved_step_0 [OF high]) (use p in \<open>auto simp: fdt_set_defs intro!: moved_put32_step\<close>)
    moreover have "fdt_off_dt_struct ?f2 = of_nat (rw_struct_off s - 16 * old + 16 * new)"
      "fdt_off_dt_strings ?f2 = of_nat (rw_strings_off s - 16 * old + 16 * new)" by (simp_all add: fdt_get_defs fdt_set_defs)
    moreover have "changed 0 (int n) fdt ?f2"
    proof -
      have "p + int (16 * new) + int k \<le> int n" using k True by simp
      then show ?thesis using p lay rw_layout_small [OF rw_blob_layout [OF assms(1)]] rw_blob_layout [OF assms(1)]
        unfolding f_def fdt_set_defs by (auto simp: rw_layout_def intro!: changed_steps)
    qed
    ultimately show ?thesis unfolding if_P [OF True] using eq by (intro exI [of _ ?f2]) simp
  next
    case False
    then have "fdt_splice fdt p (int (16 * old)) (int (16 * new)) = (- FDT_ERR_NOSPACE, fdt)" using sp by simp
    then show ?thesis unfolding if_not_P [OF False] by (simp only: fdt_splice_mem_rsv_def c Let_def prod.case) (simp add: FDT_ERR_NOSPACE_def)
  qed
qed

text \<open>The blob with other reservations: the structure block and the strings move with the end of the map.\<close>

definition rw_rersv :: "(u64 \<times> u64) list \<Rightarrow> u64 \<Rightarrow> nat \<Rightarrow> nat \<Rightarrow> rw_state \<Rightarrow> rw_state" where
  "rw_rersv rs a old new s = s\<lparr>rw_rsv := rs, rw_end_addr := a,
     rw_struct_off := rw_struct_off s - 16 * old + 16 * new, rw_strings_off := rw_strings_off s - 16 * old + 16 * new\<rparr>"

lemma rw_rersv_simps [simp]:
  "rw_tags (rw_rersv rs a old new s) = rw_tags s" "rw_strs (rw_rersv rs a old new s) = rw_strs s" "rw_rsv (rw_rersv rs a old new s) = rs"
  by (simp_all add: rw_rersv_def)

lemma rw_replace_rsv:
  assumes "rw_blob n s fdt" "16 * (length rs + 1) + 16 * old \<le> 16 * (length (rw_rsv s) + 1) + 16 * new" "old \<le> length (rw_rsv s) + 1"
    and "rw_data s + 16 * new \<le> n + 16 * old" "list_all (\<lambda>(a, s). s \<noteq> 0) rs"
    and "moved 0 0 8 fdt g" "moved 0 16 24 fdt g"
      "fdt_off_dt_struct g = of_nat (rw_struct_off s - 16 * old + 16 * new)"
      "fdt_off_dt_strings g = of_nat (rw_strings_off s - 16 * old + 16 * new)"
      "moved (16 * int new - 16 * int old) (int (rw_struct_off s)) (int (rw_data s) - int (rw_struct_off s)) fdt g"
      "holds g (int (rw_rsv_off s)) (rsv_bytes (rs @ [(a, 0)]))"
  shows "rw_blob n (rw_rersv rs a old new s) g"
proof -
  have lay: "40 \<le> rw_rsv_off s" "rw_rsv_off s + 16 * (length (rw_rsv s) + 1) \<le> rw_struct_off s"
    "rw_struct_off s + rw_struct_size s \<le> rw_strings_off s" "length (encs (rw_tags s)) + 4 \<le> rw_struct_size s"
    using rw_blob_layout [OF assms(1)] by (auto simp: rw_layout_def)
  have s: "rw_struct_off (rw_rersv rs a old new s) = rw_struct_off s - 16 * old + 16 * new"
    "rw_strings_off (rw_rersv rs a old new s) = rw_strings_off s - 16 * old + 16 * new"
    "rw_rsv_off (rw_rersv rs a old new s) = rw_rsv_off s" "rw_struct_size (rw_rersv rs a old new s) = rw_struct_size s"
    by (simp_all add: rw_rersv_def)
  have lay': "rw_layout n (rw_rersv rs a old new s)"
    using rw_blob_layout [OF assms(1)] assms(2-5) by (auto simp: rw_layout_def s)
  have head: "be32 g 0 = be32 fdt 0" "be32 g 4 = be32 fdt 4" "be32 g 16 = be32 fdt 16" "be32 g 20 = be32 fdt 20"
    "be32 g 24 = be32 fdt 24" "be32 g 32 = be32 fdt 32" "be32 g 36 = be32 fdt 36"
    using moved_be32_at [OF assms(6)] moved_be32_at [OF assms(7)] by simp_all
  have sh: "int (rw_struct_off s) + (16 * int new - 16 * int old) = int (rw_struct_off s - 16 * old + 16 * new)"
    "int (rw_strings_off s) + (16 * int new - 16 * int old) = int (rw_strings_off s - 16 * old + 16 * new)"
    using assms(3) lay by auto
  have old: "holds_tokens fdt (int (rw_struct_off s)) (rw_tags s @ [End])" "holds fdt (int (rw_strings_off s)) (rw_strs s)"
    using assms(1) by (simp_all add: rw_blob_def)
  have "holds_tokens g (int (rw_struct_off s - 16 * old + 16 * new)) (rw_tags s @ [End])"
    unfolding sh(1) [symmetric]
    by (rule moved_tokens [OF moved_sub [OF assms(10), of _ "int (rw_struct_size s)"] _ old(1)]) (use lay in \<open>auto simp: length_enc\<close>)
  moreover have "holds g (int (rw_strings_off s - 16 * old + 16 * new)) (rw_strs s)"
    unfolding sh(2) [symmetric]
    by (rule moved_holds [OF moved_sub [OF assms(10), of _ "int (length (rw_strs s))"] _ old(2)]) (use lay in auto)
  ultimately show ?thesis using assms(1,8,9,11) lay' unfolding rw_blob_def s
    by (simp add: fdt_get_defs head) (simp add: rw_rersv_def)
qed

lemma rw_num_mem_rsv:
  assumes "rw_blob n s fdt"
  shows "fdt_num_mem_rsv fdt = Some (int (length (rw_rsv s)))"
  using assms rw_fields(2) [OF assms] by (intro num_mem_rsv_holds [OF refl]) (auto simp: rw_blob_def rw_layout_def)

lemma rw_get_mem_rsv:
  assumes "rw_blob n s fdt" "i < length (rw_rsv s)"
  shows "fdt_get_mem_rsv fdt (int i) = (0, Some (rw_rsv s ! i))"
proof -
  have "holds fdt (uint (fdt_off_mem_rsvmap fdt)) (rsv_bytes (rw_rsv s @ [(rw_end_addr s, 0)]))"
    using assms(1) rw_fields(2) [OF assms(1)] by (simp add: rw_blob_def)
  from rsv_nth [OF this, of i] show ?thesis
    using assms(2) rw_check [OF assms(1)] by (simp add: fdt_get_mem_rsv_def fdt_mem_rsv_def nth_append)
qed

lemma rw_mem_rsv: "rw_blob n s fdt \<Longrightarrow> fdt_mem_rsv fdt i = int (rw_rsv_off s) + 16 * i"
  using rw_fields(2) by (simp add: fdt_mem_rsv_def)

lemma rw_add_mem_rsv:
  assumes "rw_blob n s fdt"
    and "s' = (if b = 0 then rw_rersv (rw_rsv s) a 0 1 s else rw_rersv (rw_rsv s @ [(a, b)]) (rw_end_addr s) 0 1 s)"
  shows "if rw_data s + 16 \<le> n then \<exists>g. fdt_add_mem_rsv fdt a b = Some (0, g) \<and> rw_blob n s' g \<and> changed 0 (int n) fdt g
    else fdt_add_mem_rsv fdt a b = Some (- FDT_ERR_NOSPACE, fdt)"
proof -
  let ?rs = "rw_rsv s" let ?p = "int (rw_rsv_off s) + 16 * int (length ?rs)"
  have lay: "40 \<le> rw_rsv_off s" "rw_rsv_off s + 16 * (length ?rs + 1) \<le> rw_struct_off s" "rw_struct_off s \<le> rw_strings_off s"
    "rw_data s \<le> n" "list_all (\<lambda>(a, s). s \<noteq> 0) ?rs"
    using rw_blob_layout [OF assms(1)] by (auto simp: rw_layout_def)
  note sp = rw_splice_rsv [OF assms(1) refl, of "length ?rs" 0 1]
  note add = fdt_add_mem_rsv_def rw_header [OF assms(1)] rw_num_mem_rsv [OF assms(1)] rw_mem_rsv [OF assms(1)]
  show ?thesis
  proof (cases "rw_data s + 16 \<le> n")
    case True
    then obtain f where f: "fdt_splice_mem_rsv fdt ?p 0 1 = (0, f)" "changed 0 (int n) fdt f" "moved 0 0 8 fdt f" "moved 0 16 24 fdt f"
      "moved 0 40 (?p - 40) fdt f" "fdt_off_dt_struct f = of_nat (rw_struct_off s - 16 * 0 + 16 * 1)"
      "fdt_off_dt_strings f = of_nat (rw_strings_off s - 16 * 0 + 16 * 1)" "moved 16 ?p (int (rw_data s) - ?p) fdt f"
      using sp by auto
    define g where "g = store_bytes (store_bytes f ?p (be64_bytes a)) (?p + 8) (be64_bytes b)"
    have "fdt_add_mem_rsv fdt a b = Some (0, g)" using f(1) by (simp add: add g_def Let_def)
    moreover have ch: "changed 0 (int n) fdt g" unfolding g_def using f(2) lay True by (auto intro!: changed_steps)
    moreover have "rw_blob n s' g"
    proof -
      have old: "holds fdt (int (rw_rsv_off s)) (rsv_bytes ?rs)" "holds fdt ?p (rsv_bytes [(rw_end_addr s, 0)])"
        using assms(1) by (simp_all add: rw_blob_def rsv_bytes_app holds_append)
      have m: "moved 0 40 (?p - 40) fdt g" "moved 0 0 8 fdt g" "moved 0 16 24 fdt g"
        unfolding g_def using f(3-5) lay by (auto intro!: moved_store_step)
      have up: "moved 16 ?p (int (rw_data s) - ?p) fdt g"
        by (rule moved_step_0 [OF f(8)]) (auto simp: g_def intro!: moved_store_step)
      have "holds g (int (rw_rsv_off s)) (rsv_bytes ?rs)"
        using moved_holds [OF moved_sub [OF m(1), of "int (rw_rsv_off s)" "int (16 * length ?rs)"] _ old(1)] lay by simp
      moreover have "holds g ?p (rsv_bytes [(a, b)])" by (simp add: g_def rsv_bytes_def holds_append)
      moreover have "holds g (?p + 16) (rsv_bytes [(rw_end_addr s, 0)])"
        using moved_holds [OF moved_sub [OF up, of ?p 16] _ old(2)] lay by simp
      ultimately have rsv: "holds g (int (rw_rsv_off s)) (rsv_bytes (?rs @ [(a, b)] @ [(rw_end_addr s, 0)]))"
        by (simp only: rsv_bytes_app holds_append) (simp add: add.assoc)
      have offs: "fdt_off_dt_struct g = of_nat (rw_struct_off s - 16 * 0 + 16 * 1)" "fdt_off_dt_strings g = of_nat (rw_strings_off s - 16 * 0 + 16 * 1)"
        using f(6,7) lay by (simp_all add: g_def fdt_get_defs)
      have s: "moved (16 * int 1 - 16 * int 0) (int (rw_struct_off s)) (int (rw_data s) - int (rw_struct_off s)) fdt g"
        using lay moved_sub [OF up, of "int (rw_struct_off s)" "int (rw_data s) - int (rw_struct_off s)"] by simp
      show ?thesis
      proof (cases "b = 0")
        case b: True
        have "rsv_bytes (?rs @ [(a, 0)] @ [(rw_end_addr s, 0)]) = rsv_bytes (?rs @ [(a, 0)]) @ rsv_bytes [(rw_end_addr s, 0)]" by (simp add: rsv_bytes_def)
        then have "holds g (int (rw_rsv_off s)) (rsv_bytes (?rs @ [(a, 0)]))" using rsv unfolding b by (simp only: holds_append)
        then have "rw_blob n (rw_rersv ?rs a 0 1 s) g"
          using True lay(5) by (intro rw_replace_rsv [OF assms(1) _ _ _ _ m(2,3) offs s]) simp_all
        then show ?thesis using b assms(2) by simp
      next
        case b: False
        have "rw_blob n (rw_rersv (?rs @ [(a, b)]) (rw_end_addr s) 0 1 s) g"
          using True lay(5) b rsv by (intro rw_replace_rsv [OF assms(1) _ _ _ _ m(2,3) offs s]) simp_all
        then show ?thesis using b assms(2) by simp
      qed
    qed
    ultimately show ?thesis using True by auto
  next
    case False
    then show ?thesis using sp by (simp add: add FDT_ERR_NOSPACE_def)
  qed
qed

lemma rw_del_mem_rsv:
  assumes "rw_blob n s fdt" "i < length (rw_rsv s)"
  shows "\<exists>g. fdt_del_mem_rsv fdt (int i) = Some (0, g) \<and> changed 0 (int n) fdt g \<and>
    rw_blob n (rw_rersv (take i (rw_rsv s) @ drop (Suc i) (rw_rsv s)) (rw_end_addr s) 1 0 s) g"
proof -
  let ?rs = "rw_rsv s" let ?p = "int (rw_rsv_off s) + 16 * int i" let ?as = "take i ?rs" and ?bs = "drop (Suc i) ?rs"
  have lay: "40 \<le> rw_rsv_off s" "rw_rsv_off s + 16 * (length ?rs + 1) \<le> rw_struct_off s" "rw_struct_off s \<le> rw_strings_off s"
    "rw_data s \<le> n" "list_all (\<lambda>(a, s). s \<noteq> 0) ?rs"
    using rw_blob_layout [OF assms(1)] by (auto simp: rw_layout_def)
  have split: "?rs = ?as @ [?rs ! i] @ ?bs" using assms(2) id_take_nth_drop by force
  obtain f where f: "fdt_splice_mem_rsv fdt ?p 1 0 = (0, f)" "changed 0 (int n) fdt f" "moved 0 0 8 fdt f" "moved 0 16 24 fdt f"
    "moved 0 40 (?p - 40) fdt f" "fdt_off_dt_struct f = of_nat (rw_struct_off s - 16 * 1 + 16 * 0)"
    "fdt_off_dt_strings f = of_nat (rw_strings_off s - 16 * 1 + 16 * 0)" "moved (- 16) (?p + 16) (int (rw_data s) - ?p - 16) fdt f"
    using rw_splice_rsv [OF assms(1) refl, of i 1 0] assms(2) lay by auto
  have del: "fdt_del_mem_rsv fdt (int i) = Some (0, f)"
    using f(1) assms(2) by (simp add: fdt_del_mem_rsv_def rw_header [OF assms(1)] rw_num_mem_rsv [OF assms(1)] rw_mem_rsv [OF assms(1)])
  have "?rs @ [(rw_end_addr s, 0)] = ?as @ [?rs ! i] @ ?bs @ [(rw_end_addr s, 0)]" by (subst split) simp
  moreover have "holds fdt (int (rw_rsv_off s)) (rsv_bytes (?rs @ [(rw_end_addr s, 0)]))" using assms(1) by (simp add: rw_blob_def)
  ultimately have "holds fdt (int (rw_rsv_off s)) (rsv_bytes (?as @ [?rs ! i] @ ?bs @ [(rw_end_addr s, 0)]))" by (simp only:)
  then have old: "holds fdt (int (rw_rsv_off s)) (rsv_bytes ?as)" "holds fdt (?p + 16) (rsv_bytes (?bs @ [(rw_end_addr s, 0)]))"
    using assms(2) unfolding rsv_bytes_app [of ?as] rsv_bytes_app [of "[?rs ! i]"] holds_append by simp_all
  have "holds f (int (rw_rsv_off s)) (rsv_bytes ?as)"
    using moved_holds [OF moved_sub [OF f(5), of "int (rw_rsv_off s)" "int (16 * i)"] _ old(1)] lay assms(2) by simp
  moreover have "holds f ?p (rsv_bytes (?bs @ [(rw_end_addr s, 0)]))"
    using moved_holds [OF moved_sub [OF f(8), of "?p + 16" "int (16 * (length ?bs + 1))"] _ old(2)] lay assms(2)
    by (simp add: of_nat_diff)
  ultimately have rsv: "holds f (int (rw_rsv_off s)) (rsv_bytes ((?as @ ?bs) @ [(rw_end_addr s, 0)]))"
    using assms(2) by (simp add: rsv_bytes_app [of ?as] holds_append)
  have "list_all (\<lambda>(a, s). s \<noteq> 0) (?as @ ?bs)" using lay(5) by (auto simp: list_all_iff dest: in_set_takeD in_set_dropD)
  moreover have "moved (16 * int 0 - 16 * int 1) (int (rw_struct_off s)) (int (rw_data s) - int (rw_struct_off s)) fdt f"
    using lay assms(2) moved_sub [OF f(8), of "int (rw_struct_off s)" "int (rw_data s) - int (rw_struct_off s)"] by simp
  ultimately have "rw_blob n (rw_rersv (?as @ ?bs) (rw_end_addr s) 1 0 s) f"
    using lay assms(2) rsv f by (intro rw_replace_rsv [OF assms(1)]) simp_all
  then show ?thesis using del f(2) by blast
qed

lemma rw_del_mem_rsv_none:
  "rw_blob n s fdt \<Longrightarrow> int (length (rw_rsv s)) \<le> j \<Longrightarrow> fdt_del_mem_rsv fdt j = Some (- FDT_ERR_NOTFOUND, fdt)"
  by (simp add: fdt_del_mem_rsv_def rw_header rw_num_mem_rsv)

end
