(* ===== verification/Fdt_Rw_Tags.thy ===== *)
theory Fdt_Rw_Tags
  imports Fdt_Rw_Blob
begin

text \<open>
  The operations of \<open>fdt_rw.c\<close> and \<open>fdt_wip.c\<close> on the tags of a blob: which tags they replace by which.
\<close>

section \<open>Replacing tags\<close>

text \<open>A splice in the middle of the tags \<open>mid\<close>, behind their first \<open>h\<close> bytes, which stay.\<close>

lemma rw_splice_tokens:
  assumes "rw_blob n s fdt" "rw_tags s = pre @ mid @ post" "p = int (rw_struct_off s) + int (length (encs pre))"
    and "length (encs mid) = h + old" "length (encs mid') = h + new" "new < 2 ^ 31"
  shows "if rw_data s + new \<le> n + old
    then \<exists>f. fdt_splice_struct fdt (p + int h) (int old) (int new) = (0, f) \<and>
      spliced s p (length (encs mid)) (length (encs mid')) fdt f \<and> changed 0 (int n) fdt f \<and> moved 0 p (int h + int new) fdt f
    else fdt_splice_struct fdt (p + int h) (int old) (int new) = (- FDT_ERR_NOSPACE, fdt)"
proof -
  have lay: "length (encs pre) + h + old + 4 \<le> rw_struct_size s" "rw_struct_off s + rw_struct_size s \<le> rw_strings_off s"
    "56 \<le> rw_struct_off s" "rw_struct_size s < 2 ^ 31"
    using rw_blob_layout [OF assms(1)] assms(2,4) by (auto simp: rw_layout_def)
  have q: "p + int h = int (rw_struct_off s) + int (length (encs pre) + h)" using assms(3) by simp
  note sp = rw_splice_struct [OF assms(1) q, of old new]
  show ?thesis
  proof (cases "rw_data s + new \<le> n + old")
    case True
    then obtain f where f: "fdt_splice_struct fdt (p + int h) (int old) (int new) = (0, f)"
      "spliced s (p + int h) old new fdt f" "changed 0 (int n) fdt f" "moved 0 40 (p + int h + int new - 40) fdt f"
      using sp lay assms(6) by auto
    have "spliced s p (h + old) (h + new) fdt f" using lay by (intro spliced_widen [OF f(2)]) auto
    moreover have "moved 0 p (int h + int new) fdt f" by (rule moved_sub [OF f(4)]) (use lay assms(3) in simp_all)
    ultimately show ?thesis unfolding assms(4,5) if_P [OF True] using f(1,3) by blast
  next
    case False
    then show ?thesis using sp lay assms(6) by simp
  qed
qed

text \<open>The result of an operation that gives the blob the tags \<open>ts\<close> if there is room.\<close>

definition retagged :: "nat \<Rightarrow> rw_state \<Rightarrow> blob \<Rightarrow> fdt_token list \<Rightarrow> int \<times> blob \<Rightarrow> bool" where
  "retagged n s fdt ts r \<longleftrightarrow>
     (if rw_data s + length (encs ts) \<le> n + length (encs (rw_tags s))
      then fst r = 0 \<and> rw_blob n (rw_retag ts s) (snd r)
      else fst r = - FDT_ERR_NOSPACE \<and> snd r = fdt) \<and>
     changed 0 (int n) fdt (snd r)"

lemma retagged_nospace:
  "n + length (encs (rw_tags s)) < rw_data s + length (encs ts) \<Longrightarrow> retagged n s fdt ts (- FDT_ERR_NOSPACE, fdt)"
  by (simp add: retagged_def)

lemma retagged_replace:
  assumes "rw_blob n s fdt" "rw_tags s = pre @ mid @ post" "p = int (rw_struct_off s) + int (length (encs pre))"
    and "rw_data s + length (encs mid') \<le> n + length (encs mid)" "list_all wf_token mid'" "End \<notin> set mid'"
    and "spliced s p (length (encs mid)) (length (encs mid')) fdt g" "holds_tokens g p mid'" "changed 0 (int n) fdt g"
  shows "retagged n s fdt (pre @ mid' @ post) (0, g)"
  using rw_replace [OF assms(1-8)] assms(2,4,9) by (simp add: retagged_def)

lemma FDT_TAGALIGN_nat: "k < 2 ^ 31 - 4 \<Longrightarrow> FDT_TAGALIGN (int k) = int ((k + 3) div 4 * 4)"
  by (subst FDT_TAGALIGN_eq) (auto simp: zdiv_int minus_mod_eq_div_mult)

lemma length_enc_prop: "length (enc (Prop x v)) = 12 + (length v + 3) div 4 * 4"
  by (simp add: length_enc) presburger

lemma length_enc_begin: "length (enc (BeginNode s)) = 4 + (length s + 1 + 3) div 4 * 4"
  by (simp add: length_enc)

lemma holds_prop:
  "holds fdt p (be_bytes FDT_PROP @ be_bytes (of_nat (length v)) @ be_bytes x @ v) \<longleftrightarrow>
   holds fdt p (be_bytes FDT_PROP) \<and> holds fdt (p + 4) (be_bytes (of_nat (length v))) \<and> holds fdt (p + 8) (be_bytes x) \<and> holds fdt (p + 12) v"
  by (simp add: holds_append add.assoc)

section \<open>Properties\<close>

lemma rw_delete_property:
  assumes "rw_blob n s fdt" "rw_tags s = pre @ [Prop x w] @ post" "p = int (rw_struct_off s) + int (length (encs pre))"
  shows "retagged n s fdt (pre @ post) (fdt_splice_struct fdt p (c_int (12 + FDT_TAGALIGN (int (length w)))) 0)"
proof -
  let ?k = "length (enc (Prop x w))"
  have k: "?k \<le> rw_struct_size s" "rw_struct_size s < 2 ^ 31 - 4" "length w + 12 \<le> ?k"
    using rw_blob_layout [OF assms(1)] assms(2) payload_fits [of "Prop x w"] by (auto simp: rw_layout_def)
  have "12 + FDT_TAGALIGN (int (length w)) = int ?k"
    using k by (subst FDT_TAGALIGN_nat) (auto simp: length_enc_prop)
  then have c: "c_int (12 + FDT_TAGALIGN (int (length w))) = int ?k" using k by (simp only:) (rule c_int_nat, simp)
  have "rw_data s \<le> n" using rw_blob_layout [OF assms(1)] by (simp add: rw_layout_def)
  then obtain f where f: "fdt_splice_struct fdt p (int ?k) 0 = (0, f)" "spliced s p ?k 0 fdt f" "changed 0 (int n) fdt f"
    using rw_splice_tokens [OF assms, of 0 ?k "[]" 0] by auto
  then show ?thesis unfolding c f(1)
    using retagged_replace [OF assms, of "[]" f] \<open>rw_data s \<le> n\<close> by simp
qed

lemma rw_resize_property:
  assumes "rw_blob n s fdt" "rw_tags s = pre @ [Prop x w] @ post" "p = int (rw_struct_off s) + int (length (encs pre))"
    and "length v < 2 ^ 31 - 16"
  shows "if rw_data s + length (enc (Prop x v)) \<le> n + length (enc (Prop x w))
    then \<exists>f. fdt_splice_struct fdt (p + 12) (FDT_TAGALIGN (int (length w))) (FDT_TAGALIGN (int (length v))) = (0, f) \<and>
      spliced s p (length (encs [Prop x w])) (length (encs [Prop x v])) fdt f \<and> changed 0 (int n) fdt f \<and>
      moved 0 p (12 + int ((length v + 3) div 4 * 4)) fdt f
    else fdt_splice_struct fdt (p + 12) (FDT_TAGALIGN (int (length w))) (FDT_TAGALIGN (int (length v))) = (- FDT_ERR_NOSPACE, fdt)"
proof -
  have "length (enc (Prop x w)) \<le> rw_struct_size s" "rw_struct_size s < 2 ^ 31 - 4"
    using rw_blob_layout [OF assms(1)] assms(2) by (auto simp: rw_layout_def)
  then have "length w < 2 ^ 31 - 4" using payload_fits [of "Prop x w"] by simp
  then have t: "FDT_TAGALIGN (int (length w)) = int ((length w + 3) div 4 * 4)" "FDT_TAGALIGN (int (length v)) = int ((length v + 3) div 4 * 4)"
    using assms(4) by (simp_all only: FDT_TAGALIGN_nat)
  have e: "rw_data s + length (enc (Prop x v)) \<le> n + length (enc (Prop x w)) \<longleftrightarrow>
      rw_data s + (length v + 3) div 4 * 4 \<le> n + (length w + 3) div 4 * 4" unfolding length_enc_prop by linarith
  have "(length v + 3) div 4 * 4 < 2 ^ 31" using assms(4) by presburger
  then show ?thesis unfolding t e
    using rw_splice_tokens [OF assms(1-3), of 12 "(length w + 3) div 4 * 4" "[Prop x v]" "(length v + 3) div 4 * 4"]
    by (simp only: of_nat_numeral) (simp only: length_enc_prop list.map concat.simps append_Nil2 refl simp_thms True_implies_equals)
qed

text \<open>The tag, the offset of the name and a first part of the value stay.\<close>

lemma rw_resized_property:
  assumes "rw_blob n s fdt" "rw_tags s = pre @ [Prop x w] @ post" "p = int (rw_struct_off s) + int (length (encs pre))"
    and "spliced s p (length (encs [Prop x w])) (length (encs [Prop x (u @ v)])) fdt f" "moved 0 p (12 + int (length u)) fdt f"
    and "rw_data s + length (enc (Prop x (u @ v))) \<le> n + length (enc (Prop x w))" "changed 0 (int n) fdt f"
    and "holds fdt (p + 12) u"
  shows "retagged n s fdt (pre @ [Prop x (u @ v)] @ post)
    (0, store_bytes (put32 f (p + 4) (of_nat (length (u @ v)))) (p + 12 + int (length u)) v)"
proof -
  let ?g = "store_bytes (put32 f (p + 4) (of_nat (length (u @ v)))) (p + 12 + int (length u)) v"
  have p: "56 \<le> p" using assms(3) rw_blob_layout [OF assms(1)] by (auto simp: rw_layout_def)
  have fits: "12 + length u + length v \<le> length (encs [Prop x (u @ v)])" using payload_fits [of "Prop x (u @ v)"] by simp
  have at: "holds fdt p (be_bytes FDT_PROP)" "holds fdt (p + 8) (be_bytes x)"
    using assms(1-3) by (auto simp: rw_blob_def holds_tokens_append holds_append add.assoc)
  have keep: "holds f q bs" if "holds fdt q bs" "p \<le> q" "q + int (length bs) \<le> p + (12 + int (length u))" for q bs
    using moved_holds [OF moved_sub [OF assms(5) that(2,3)] order_refl that(1)] by simp
  have "holds f p (be_bytes FDT_PROP)" "holds f (p + 8) (be_bytes x)" "holds f (p + 12) u"
    using keep [OF at(1)] keep [OF at(2)] keep [OF assms(8)] by simp_all
  then have "holds_tokens ?g p [Prop x (u @ v)]" by (simp add: holds_append add.assoc)
  moreover have "spliced s p (length (encs [Prop x w])) (length (encs [Prop x (u @ v)])) fdt ?g"
    using p fits by (intro spliced_steps [OF spliced_put32 [OF assms(4)]]) auto
  moreover have "changed 0 (int n) fdt ?g"
  proof -
    have "p + int (length (enc (Prop x w))) + (int n - int (rw_data s)) \<le> int n"
      using assms(2,3) rw_blob_layout [OF assms(1)] by (auto simp: rw_layout_def)
    then have "p + 12 + int (length u) + int (length v) \<le> int n" using assms(6) fits by simp
    then show ?thesis using p assms(7) by (auto intro!: changed_steps)
  qed
  ultimately show ?thesis using assms(6) by (intro retagged_replace [OF assms(1-3)]) auto
qed

lemma rw_insert_property:
  assumes "rw_blob n s fdt" "rw_tags s = pre @ post" "p = int (rw_struct_off s) + int (length (encs pre))"
    and "length v < 2 ^ 31 - 16"
  shows "retagged n s fdt (pre @ [Prop x v] @ post)
    (let (err, f) = fdt_splice_struct fdt p 0 (c_int (12 + FDT_TAGALIGN (int (length v))))
     in if err \<noteq> 0 then (err, f)
        else (0, store_bytes (put32 (put32 (put32 f p FDT_PROP) (p + 8) x) (p + 4) (of_nat (length v))) (p + 12) v))"
    (is "retagged _ _ _ _ ?r")
proof -
  let ?k = "length (enc (Prop x v))"
  have k: "?k < 2 ^ 31" unfolding length_enc_prop using assms(4) by presburger
  have "12 + FDT_TAGALIGN (int (length v)) = int ?k"
    using assms(4) by (subst FDT_TAGALIGN_nat) (auto simp: length_enc_prop)
  then have c: "c_int (12 + FDT_TAGALIGN (int (length v))) = int ?k" using k by (simp only:) (rule c_int_nat, simp)
  have tags: "rw_tags s = pre @ [] @ post" using assms(2) by simp
  note sp = rw_splice_tokens [OF assms(1) tags assms(3), of 0 0 "[Prop x v]" ?k]
  have fits: "12 + length v \<le> ?k" using payload_fits [of "Prop x v"] by simp
  show ?thesis
  proof (cases "rw_data s + ?k \<le> n")
    case True
    then obtain f where f: "fdt_splice_struct fdt p 0 (int ?k) = (0, f)" "spliced s p 0 (length (encs [Prop x v])) fdt f" "changed 0 (int n) fdt f"
      using sp k by auto
    let ?g = "store_bytes (put32 (put32 (put32 f p FDT_PROP) (p + 8) x) (p + 4) (of_nat (length v))) (p + 12) v"
    have p: "56 \<le> p" "p + int ?k \<le> int n"
      using assms(2,3) rw_blob_layout [OF assms(1)] True by (auto simp: rw_layout_def)
    have "holds_tokens ?g p [Prop x v]" by (simp add: holds_prop)
    moreover have "spliced s p (length (encs [])) (length (encs [Prop x v])) fdt ?g"
      using p(1) fits f(2) by (intro spliced_steps) auto
    moreover have "changed 0 (int n) fdt ?g" using p f(3) fits by (auto intro!: changed_steps)
    moreover have "?r = (0, ?g)" using f(1) by (simp add: c)
    ultimately show ?thesis using True by (simp only: retagged_replace [OF assms(1) tags assms(3)]) (intro retagged_replace [OF assms(1) tags assms(3)]; simp)
  next
    case False
    then have "?r = (- FDT_ERR_NOSPACE, fdt)" using sp k by (simp add: c FDT_ERR_NOSPACE_def)
    then show ?thesis using False assms(2) by (simp add: retagged_nospace)
  qed
qed

section \<open>Nodes\<close>

lemma rw_rename:
  assumes "rw_blob n s fdt" "rw_tags s = pre @ [BeginNode om] @ post" "p = int (rw_struct_off s) + int (length (encs pre))"
    and "length nm < 2 ^ 31 - 16" "0 \<notin> set nm"
  shows "retagged n s fdt (pre @ [BeginNode nm] @ post)
    (let (err, f) = fdt_splice_struct fdt (p + 4) (FDT_TAGALIGN (int (length om + 1))) (FDT_TAGALIGN (int (length nm + 1)))
     in if err \<noteq> 0 then (err, f) else (0, store_bytes f (p + 4) (nm @ [0])))" (is "retagged _ _ _ _ ?r")
proof -
  let ?k = "length (enc (BeginNode om))" and ?k' = "length (enc (BeginNode nm))"
  let ?a = "(length om + 1 + 3) div 4 * 4" and ?b = "(length nm + 1 + 3) div 4 * 4"
  have "?k \<le> rw_struct_size s" "rw_struct_size s < 2 ^ 31 - 4"
    using rw_blob_layout [OF assms(1)] assms(2) by (auto simp: rw_layout_def)
  then have "length om + 1 < 2 ^ 31 - 4" using payload_fits [of "BeginNode om"] by simp
  then have t: "FDT_TAGALIGN (int (length om + 1)) = int ?a" "FDT_TAGALIGN (int (length nm + 1)) = int ?b"
    using assms(4) by (simp_all only: FDT_TAGALIGN_nat)
  have b: "?b < 2 ^ 31" using assms(4) by presburger
  have e: "rw_data s + ?k' \<le> n + ?k \<longleftrightarrow> rw_data s + ?b \<le> n + ?a" unfolding length_enc_begin by linarith
  have kb: "length (encs [BeginNode om]) = 4 + ?a" "length (encs [BeginNode nm]) = 4 + ?b" by (simp_all add: length_enc_begin)
  note sp = rw_splice_tokens [OF assms(1-3) kb b]
  have fits: "5 + length nm \<le> ?k'" using payload_fits [of "BeginNode nm"] by simp
  show ?thesis
  proof (cases "rw_data s + ?k' \<le> n + ?k")
    case True
    then have "rw_data s + ?b \<le> n + ?a" by (simp only: e)
    from sp [unfolded if_P [OF this]] obtain f where f: "fdt_splice_struct fdt (p + 4) (int ?a) (int ?b) = (0, f)"
      "spliced s p (length (encs [BeginNode om])) (length (encs [BeginNode nm])) fdt f" "changed 0 (int n) fdt f" "moved 0 p (4 + int ?b) fdt f"
      unfolding of_nat_numeral by blast
    let ?g = "store_bytes f (p + 4) (nm @ [0])"
    have p: "56 \<le> p" "p + int ?k + (int n - int (rw_data s)) \<le> int n"
      using assms(2,3) rw_blob_layout [OF assms(1)] by (auto simp: rw_layout_def)
    have "holds fdt p (be_bytes FDT_BEGIN_NODE)"
      using assms(1-3) by (auto simp: rw_blob_def holds_tokens_append holds_append add.assoc)
    then have "holds f p (be_bytes FDT_BEGIN_NODE)" using moved_holds [OF f(4), of "be_bytes FDT_BEGIN_NODE"] by simp
    then have "holds_tokens ?g p [BeginNode nm]" by (simp add: holds_be_append)
    moreover have "spliced s p (length (encs [BeginNode om])) (length (encs [BeginNode nm])) fdt ?g"
      using p(1) fits f(2) by (intro spliced_steps) auto
    moreover have "changed 0 (int n) fdt ?g" using p f(3) fits True by (auto intro!: changed_steps)
    moreover have "?r = (0, ?g)" unfolding t f(1) by simp
    ultimately show ?thesis using True assms(5)
      by (simp only:) (intro retagged_replace [OF assms(1-3)]; simp)
  next
    case False
    with e have "\<not> rw_data s + ?b \<le> n + ?a" by blast
    from sp [unfolded if_not_P [OF this]] have "?r = (- FDT_ERR_NOSPACE, fdt)" unfolding t by (simp add: FDT_ERR_NOSPACE_def)
    then show ?thesis using False assms(2) by (simp add: retagged_nospace)
  qed
qed

lemma rw_delete_tokens:
  assumes "rw_blob n s fdt" "rw_tags s = pre @ mid @ post" "p = int (rw_struct_off s) + int (length (encs pre))"
  shows "retagged n s fdt (pre @ post) (fdt_splice_struct fdt p (int (length (encs mid))) 0)"
proof -
  have "rw_data s \<le> n" using rw_blob_layout [OF assms(1)] by (simp add: rw_layout_def)
  then obtain f where f: "fdt_splice_struct fdt p (int (length (encs mid))) 0 = (0, f)" "spliced s p (length (encs mid)) 0 fdt f" "changed 0 (int n) fdt f"
    using rw_splice_tokens [OF assms, of 0 "length (encs mid)" "[]" 0] by auto
  then show ?thesis using retagged_replace [OF assms, of "[]" f] \<open>rw_data s \<le> n\<close> by simp
qed

lemma rw_insert_node:
  assumes "rw_blob n s fdt" "rw_tags s = pre @ post" "p = int (rw_struct_off s) + int (length (encs pre))"
    and "length nm < 2 ^ 31 - 16" "0 \<notin> set nm"
    and "m = FDT_TAGALIGN (int (length nm + 1))" "k = c_int (4 + m + FDT_TAGSIZE)"
  shows "retagged n s fdt (pre @ [BeginNode nm, EndNode] @ post)
    (let (err, f) = fdt_splice_struct fdt p 0 k
     in if err \<noteq> 0 then (err, f)
        else (0, put32 (store_bytes (store_bytes (put32 f p FDT_BEGIN_NODE) (p + 4) (replicate (nat m) 0)) (p + 4) nm)
          (p + k - FDT_TAGSIZE) FDT_END_NODE))" (is "retagged _ _ _ _ ?r")
proof -
  let ?b = "(length nm + 1 + 3) div 4 * 4" and ?k = "length (encs [BeginNode nm, EndNode])"
  have m: "m = int ?b" unfolding assms(6) using assms(4) by (simp only: FDT_TAGALIGN_nat)
  have len: "?k = 8 + ?b" by (simp add: length_enc_begin length_enc [of EndNode])
  have b: "8 + ?b < 2 ^ 31" "length nm < ?b" using assms(4) by presburger+
  have "4 + m + FDT_TAGSIZE = int ?k" unfolding m len FDT_TAGSIZE_def by simp
  then have k: "k = int ?k" unfolding assms(7) using b len by (simp only:) (rule c_int_nat, simp)
  have tags: "rw_tags s = pre @ [] @ post" using assms(2) by simp
  note sp = rw_splice_tokens [OF assms(1) tags assms(3), of 0 0 "[BeginNode nm, EndNode]" ?k]
  have kb: "?k < 2 ^ 31" using b len by simp
  show ?thesis
  proof (cases "rw_data s + ?k \<le> n")
    case True
    then obtain f where f: "fdt_splice_struct fdt p 0 (int ?k) = (0, f)" "spliced s p 0 ?k fdt f" "changed 0 (int n) fdt f"
      using sp b len by auto
    let ?g = "put32 (store_bytes (store_bytes (put32 f p FDT_BEGIN_NODE) (p + 4) (replicate ?b 0)) (p + 4) nm) (p + 4 + int ?b) FDT_END_NODE"
    have p: "56 \<le> p" "p + int ?k \<le> int n"
      using assms(2,3) rw_blob_layout [OF assms(1)] True by (auto simp: rw_layout_def)
    have "?g (p + 4 + int (length nm)) = 0"
      using b(2) store_bytes_in [of "length nm" "replicate ?b 0" "put32 f p FDT_BEGIN_NODE" "p + 4"] by simp
    moreover have "holds ?g p (be_bytes FDT_BEGIN_NODE)" "holds ?g (p + 4) nm" using b(2) by simp_all
    moreover have "holds ?g (p + 4 + int ?b) (be_bytes FDT_END_NODE)" by simp
    moreover have "int (length (enc (BeginNode nm))) = 4 + int ?b" by (simp add: length_enc_begin)
    ultimately have "holds_tokens ?g p [BeginNode nm, EndNode]"
      by (simp only: holds_tokens.simps tag_of.simps payload.simps holds_append holds_Cons holds_Nil length_be_bytes append_Nil2)
        (simp add: add.assoc)
    moreover have "spliced s p (length (encs [])) ?k fdt ?g"
      using p(1) b(2) len f(2) by (intro spliced_steps) auto
    moreover have "changed 0 (int n) fdt ?g" using p f(3) len b(2) by (auto intro!: changed_steps)
    moreover have "?r = (0, ?g)"
    proof -
      have e: "p + int ?k - FDT_TAGSIZE = p + 4 + int ?b" unfolding len FDT_TAGSIZE_def by simp
      show ?thesis unfolding k m by (simp only: f(1) Let_def prod.case e nat_int) simp
    qed
    ultimately show ?thesis using True assms(5)
      by (simp only:) (intro retagged_replace [OF assms(1) tags assms(3)]; simp)
  next
    case False
    then have "fdt_splice_struct fdt p 0 k = (- FDT_ERR_NOSPACE, fdt)" unfolding k using sp kb by simp
    then have "?r = (- FDT_ERR_NOSPACE, fdt)" by (simp add: FDT_ERR_NOSPACE_def)
    then show ?thesis using False assms(2) by (simp add: retagged_nospace)
  qed
qed

section \<open>Changes in place\<close>

lemma rw_in_place:
  assumes "rw_blob n s fdt" "rw_tags s = pre @ mid @ post" "p = int (rw_struct_off s) + int (length (encs pre))"
    and "length (encs mid') = length (encs mid)" "list_all wf_token mid'" "End \<notin> set mid'"
    and "p \<le> q" "q + int (length bs) \<le> p + int (length (encs mid))" "holds_tokens (store_bytes fdt q bs) p mid'"
  shows "retagged n s fdt (pre @ mid' @ post) (0, store_bytes fdt q bs)"
proof -
  have lay: "length (encs pre) + length (encs mid) + 4 \<le> rw_struct_size s" "rw_struct_off s + rw_struct_size s \<le> rw_strings_off s"
    "56 \<le> rw_struct_off s" "rw_data s \<le> n"
    using rw_blob_layout [OF assms(1)] assms(2) by (auto simp: rw_layout_def)
  then have "spliced s p (length (encs mid)) (length (encs mid')) fdt (store_bytes fdt q bs)"
    unfolding assms(4) using assms(3,7,8) by (intro spliced_store spliced_refl [OF assms(1)]) auto
  moreover have "changed 0 (int n) fdt (store_bytes fdt q bs)"
    using lay assms(3,7,8) by (intro changed_store) auto
  ultimately show ?thesis using assms(4-6,9) lay(4) by (intro retagged_replace [OF assms(1-3)]) auto
qed

lemma store_store: "store_bytes (store_bytes fdt p as) (p + int (length as)) bs = store_bytes fdt p (as @ bs)"
  by (rule ext) (auto simp: store_bytes_def nth_append intro!: arg_cong [of _ _ "nth bs"])

lemma nop_region_store:
  "e \<le> p + 4 * int m \<Longrightarrow> p + 4 * int m < e + 4 \<Longrightarrow> nop_region_loop fdt p e = store_bytes fdt p (encs (replicate m Nop))"
proof (induction m arbitrary: fdt p)
  case 0
  then show ?case by (subst nop_region_loop.simps) simp
next
  case (Suc m)
  have "p < e" using Suc.prems by simp
  then have "nop_region_loop fdt p e = store_bytes (put32 fdt p FDT_NOP) (p + 4) (encs (replicate m Nop))"
    using Suc.IH [of "p + 4" "put32 fdt p FDT_NOP"] Suc.prems by (subst nop_region_loop.simps) simp
  moreover have "enc Nop = be_bytes FDT_NOP" by (simp add: enc_def pad4_def)
  ultimately show ?case using store_store [of fdt p "be_bytes FDT_NOP"] by (simp add: put32_def)
qed

lemma rw_nops:
  assumes "rw_blob n s fdt" "rw_tags s = pre @ mid @ post" "p = int (rw_struct_off s) + int (length (encs pre))"
    and "len \<le> int (length (encs mid))" "int (length (encs mid)) < len + 4"
  shows "retagged n s fdt (pre @ replicate (length (encs mid) div 4) Nop @ post) (0, fdt_nop_region fdt p len)"
proof -
  let ?m = "length (encs mid) div 4"
  have "length (encs mid) mod 4 = 0" by (induction mid) (simp_all add: mod_add_eq [symmetric])
  then have m: "length (encs mid) = 4 * ?m" by (metis add_0_right mult_div_mod_eq)
  have k: "length (encs (replicate ?m Nop)) = length (encs mid)"
    by (subst m) (simp add: length_concat comp_def length_enc sum_list_replicate)
  have "fdt_nop_region fdt p len = store_bytes fdt p (encs (replicate ?m Nop))"
    unfolding fdt_nop_region_def using assms(4,5) m by (intro nop_region_store) auto
  then show ?thesis using k by (simp only:) (intro rw_in_place [OF assms(1-3)] holds_encs; simp add: list_all_iff)
qed

end
