(* ===== verification/Fdt_Rw_Tree.thy ===== *)
theory Fdt_Rw_Tree
  imports Fdt_Rw_Tags Fdt_Sw_Round Fdt_Anc
begin

text \<open>
  The trees that stand in a blob that can be changed, with tags \<open>Nop\<close> anywhere between: what the reading
  functions find, and where a change has to be made.
\<close>

section \<open>Tags and calls\<close>

abbreviation solid :: "fdt_token list \<Rightarrow> fdt_token list" where
  "solid ts \<equiv> filter (\<lambda>t. t \<noteq> Nop) ts"

fun call_token :: "u8 list \<Rightarrow> sw_call \<Rightarrow> fdt_token \<Rightarrow> bool" where
  "call_token strs (Begin_node s) t \<longleftrightarrow> t = BeginNode s"
| "call_token strs End_node t \<longleftrightarrow> t = EndNode"
| "call_token strs (Property k v) t \<longleftrightarrow> (\<exists>x. t = Prop x v \<and> 0 \<notin> set k \<and> string_in strs (unat x) k)"

definition stands_for :: "u8 list \<Rightarrow> fdt_token list \<Rightarrow> sw_call list \<Rightarrow> bool" where
  "stands_for strs ts cs \<longleftrightarrow> list_all2 (call_token strs) cs (solid ts)"

lemma call_token_solid: "call_token strs c t \<Longrightarrow> t \<noteq> Nop \<and> t \<noteq> End"
  by (cases c) auto

lemma stands_Nil [simp]: "stands_for strs [] cs \<longleftrightarrow> cs = []"
  by (simp add: stands_for_def)

lemma stands_Nop [simp]: "stands_for strs (Nop # ts) cs \<longleftrightarrow> stands_for strs ts cs"
  by (simp add: stands_for_def)

lemma stands_End [simp]: "\<not> stands_for strs (End # ts) cs"
  by (auto simp: stands_for_def list_all2_Cons2 dest: call_token_solid)

lemma stands_Begin: "stands_for strs (BeginNode s # ts) cs \<longleftrightarrow> (\<exists>cs'. cs = Begin_node s # cs' \<and> stands_for strs ts cs')"
proof -
  have "call_token strs c (BeginNode s) \<longleftrightarrow> c = Begin_node s" for c by (cases c) auto
  then show ?thesis by (auto simp: stands_for_def list_all2_Cons2)
qed

lemma stands_EndNode: "stands_for strs (EndNode # ts) cs \<longleftrightarrow> (\<exists>cs'. cs = End_node # cs' \<and> stands_for strs ts cs')"
proof -
  have "call_token strs c EndNode \<longleftrightarrow> c = End_node" for c by (cases c) auto
  then show ?thesis by (auto simp: stands_for_def list_all2_Cons2)
qed

lemma stands_Prop:
  "stands_for strs (Prop x v # ts) cs \<longleftrightarrow>
   (\<exists>k cs'. cs = Property k v # cs' \<and> 0 \<notin> set k \<and> string_in strs (unat x) k \<and> stands_for strs ts cs')"
proof -
  have "call_token strs c (Prop x v) \<longleftrightarrow> (\<exists>k. c = Property k v \<and> 0 \<notin> set k \<and> string_in strs (unat x) k)" for c by (cases c) auto
  then show ?thesis by (fastforce simp: stands_for_def list_all2_Cons2)
qed

lemmas stands_simps = stands_Begin stands_EndNode stands_Prop

lemma stands_append: "stands_for strs ts cs \<Longrightarrow> stands_for strs us ds \<Longrightarrow> stands_for strs (ts @ us) (cs @ ds)"
  by (simp add: stands_for_def list_all2_appendI)

lemma stands_nops: "stands_for strs (replicate m Nop @ ts) cs \<longleftrightarrow> stands_for strs ts cs"
  by (induction m) auto

lemma stands_no_End: "stands_for strs ts cs \<Longrightarrow> End \<notin> set ts"
  by (induction ts arbitrary: cs rule: list.induct) (auto simp: stands_for_def list_all2_Cons2 dest: call_token_solid split: if_splits)

lemma stands_more: "stands_for strs ts cs \<Longrightarrow> stands_for (strs @ ys) ts cs"
  unfolding stands_for_def
proof (erule list_all2_mono)
  fix c t assume "call_token strs c t"
  then show "call_token (strs @ ys) c t" by (cases c) (auto intro: string_in_append)
qed

lemma filter_append_split: "filter P xs = as @ bs \<Longrightarrow> \<exists>us vs. xs = us @ vs \<and> filter P us = as \<and> filter P vs = bs"
proof (induction xs arbitrary: as)
  case (Cons x xs)
  show ?case
  proof (cases "P x \<and> as \<noteq> []")
    case True
    then obtain as' where "as = x # as'" "filter P xs = as' @ bs" using Cons.prems by (cases as) auto
    with Cons.IH [of as'] True show ?thesis by (metis append_Cons filter.simps(2))
  next
    case False
    show ?thesis
    proof (cases "P x")
      case True
      with False Cons.prems show ?thesis by (intro exI [of _ "[]"] exI [of _ "x # xs"]) auto
    next
      case f: False
      then obtain us vs where "xs = us @ vs" "filter P us = as" "filter P vs = bs" using Cons by auto
      with f show ?thesis by (intro exI [of _ "x # us"] exI [of _ vs]) auto
    qed
  qed
qed simp

lemma stands_split: "stands_for strs ts (cs @ ds) \<Longrightarrow> \<exists>us vs. ts = us @ vs \<and> stands_for strs us cs \<and> stands_for strs vs ds"
  unfolding stands_for_def by (auto simp: list_all2_append1 dest!: filter_append_split)

lemma stands_Cons: "stands_for strs ts (c # cs) \<Longrightarrow> \<exists>m t vs. ts = replicate m Nop @ t # vs \<and> call_token strs c t \<and> stands_for strs vs cs"
proof (induction ts)
  case (Cons t ts)
  show ?case
  proof (cases "t = Nop")
    case True
    with Cons obtain m t' vs where "ts = replicate m Nop @ t' # vs" "call_token strs c t'" "stands_for strs vs cs" by auto
    with True show ?thesis by (intro exI [of _ "Suc m"]) auto
  next
    case False
    with Cons.prems show ?thesis by (intro exI [of _ 0]) (auto simp: stands_for_def)
  qed
qed simp

text \<open>The node with the calls \<open>Begin_node s # cs\<close> behind the calls \<open>ds\<close>.\<close>

lemma stands_node:
  assumes "stands_for strs ts (ds @ Begin_node s # cs)"
  obtains pre post where "ts = pre @ BeginNode s # post" "stands_for strs pre ds" "stands_for strs post cs"
proof -
  obtain us vs where "ts = us @ vs" "stands_for strs us ds" "stands_for strs vs (Begin_node s # cs)" using stands_split [OF assms] by blast
  moreover from stands_Cons [OF this(3)] obtain m t ws where "vs = replicate m Nop @ t # ws" "call_token strs (Begin_node s) t" "stands_for strs ws cs" by blast
  ultimately show thesis using that [of "us @ replicate m Nop" ws] stands_append [of strs us ds "replicate m Nop" "[]"] stands_nops [of strs m "[]"] by simp
qed

section \<open>Names\<close>

definition tok_name :: "u8 list \<Rightarrow> u32 \<Rightarrow> u8 list" where
  "tok_name strs x = takeWhile (\<lambda>c. c \<noteq> 0) (drop (unat x) strs)"

lemma tok_name_string: "string_in strs (unat x) k \<Longrightarrow> 0 \<notin> set k \<Longrightarrow> tok_name strs x = k"
proof -
  assume k: "string_in strs (unat x) k" "0 \<notin> set k"
  then have "drop (unat x) strs = k @ 0 # drop (length k + 1) (drop (unat x) strs)"
    unfolding string_in_def by (metis append_Cons append_assoc append_take_drop_id self_append_conv2)
  moreover have "takeWhile (\<lambda>c. c \<noteq> 0) (k @ 0 # zs) = k" for zs using k(2) by (induction k) auto
  ultimately show ?thesis unfolding tok_name_def by metis
qed

lemma rw_name_at:
  assumes "rw_blob n s fdt" "string_in (rw_strs s) (unat x) k" "0 \<notin> set k"
  shows "name_at fdt x k"
proof -
  let ?x = "unat x"
  have x: "?x + length k + 1 \<le> length (rw_strs s)" "length (rw_strs s) < 2 ^ 31"
    using string_in_length [OF assms(2)] rw_layout_small [OF rw_blob_layout [OF assms(1)]] by auto
  have "rw_strs s = take ?x (rw_strs s) @ (k @ [0]) @ drop (length k + 1) (drop ?x (rw_strs s))"
    using assms(2) unfolding string_in_def by (metis append_take_drop_id)
  moreover have "holds fdt (int (rw_strings_off s)) (rw_strs s)" using assms(1) by (simp add: rw_blob_def)
  ultimately have "holds fdt (int (rw_strings_off s)) (take ?x (rw_strs s) @ (k @ [0]) @ drop (length k + 1) (drop ?x (rw_strs s)))" by simp
  then have "holds fdt (int (rw_strings_off s) + int (length (take ?x (rw_strs s)))) (k @ [0])" by (simp add: holds_append del: length_take)
  then have "holds fdt (int (rw_strings_off s) + int ?x) (k @ [0])" using x by simp
  moreover have "c_int (uint x) = int ?x"
  proof -
    have "?x < 2 ^ 31" using x by linarith
    from c_int_nat [OF this] show ?thesis by simp
  qed
  ultimately show ?thesis using assms(3) rw_fields(5) [OF assms(1)] by (simp add: name_at_def fdt_string_def)
qed

lemma rw_names_at:
  assumes "rw_blob n s fdt" "stands_for (rw_strs s) ts cs"
  shows "names_at fdt (tok_name (rw_strs s)) (ts @ [End])"
  using assms(2)
proof (induction ts arbitrary: cs)
  case (Cons t ts)
  then show ?case by (cases t) (auto simp: stands_simps tok_name_string intro: rw_name_at [OF assms(1)])
qed simp

section \<open>Reading\<close>

lemma stands_props: "stands_for strs ts cs \<Longrightarrow> props_of (tok_name strs) (ts @ [End]) = call_props cs"
proof (induction ts arbitrary: cs)
  case (Cons t ts)
  then show ?case by (cases t) (auto simp: stands_simps tok_name_string)
qed simp

lemma stands_visits: "stands_for strs ts cs \<Longrightarrow> map snd (visits (tok_name strs) off (ts @ [End])) = call_visits cs"
proof (induction ts arbitrary: cs off)
  case (Cons t ts)
  then show ?case by (cases t) (auto simp: stands_simps stands_props)
qed simp

lemma stands_stops: "stands_for strs ts cs \<Longrightarrow> call_stops cs \<Longrightarrow> stops_at_node (ts @ us)"
proof (induction ts arbitrary: cs)
  case (Cons t ts)
  then show ?case by (cases t) (auto simp: stands_simps)
qed simp

lemma stands_stop: "stands_for strs ts cs \<Longrightarrow> calls_stop cs \<Longrightarrow> nodes_stop (ts @ [End])"
proof (induction ts arbitrary: cs)
  case (Cons t ts)
  then show ?case by (cases t) (auto simp: stands_simps intro: stands_stops)
qed simp

section \<open>Depth\<close>

lemma stands_levels: "stands_for strs ts cs \<Longrightarrow> levels m ts \<longleftrightarrow> call_levels m cs"
proof (induction ts arbitrary: cs m)
  case (Cons t ts)
  then show ?case by (cases t) (auto simp: stands_simps)
qed simp

lemma stands_depths: "stands_for strs ts cs \<Longrightarrow> tok_depths d (ts @ [End]) = call_depths d cs"
proof (induction ts arbitrary: cs d)
  case (Cons t ts)
  then show ?case by (cases t) (auto simp: stands_simps)
qed simp

section \<open>What is read\<close>

lemma rw_tags_End: "rw_blob n s fdt \<Longrightarrow> stands_for (rw_strs s) (rw_tags s) cs \<Longrightarrow> End \<in> set (rw_tags s @ [End])"
  by simp

lemma rw_reads:
  assumes "rw_blob n s fdt" "stands_for (rw_strs s) (rw_tags s) (concat (map calls_of ts))"
  shows "reads_forest fdt ts"
proof (rule tokens_read_forest [where us = "rw_tags s @ [End]" and nm = "tok_name (rw_strs s)"])
  show "stays 0 (rw_tags s @ [End])"
    using stands_levels [OF assms(2)] call_levels_forest [of 0 ts "[]"] levels_stays [of 0] by simp
qed (use rw_check [OF assms(1)] rw_tokens [OF assms(1)] rw_names_at [OF assms] stands_stop [OF assms(2) forest_stop]
    stands_visits [OF assms(2)] forest_visits stands_depths [OF assms(2)] in \<open>simp_all add: call_depths_forest\<close>)

section \<open>Finding a node by its number\<close>

text \<open>A client that steps to node number \<open>i\<close>.\<close>

fun nth_node :: "blob \<Rightarrow> nat \<Rightarrow> int option" where
  "nth_node fdt 0 = map_option fst (fdt_next_node fdt (- 1) None)"
| "nth_node fdt (Suc i) = do {
     off \<leftarrow> nth_node fdt i;
     if off < 0 then Some off else map_option fst (fdt_next_node fdt off None)
   }"

lemma visits_at:
  "End \<notin> set pre \<Longrightarrow> i = length (visits nm off pre) \<Longrightarrow>
   visits nm off (pre @ BeginNode s # post) ! i = (off + int (length (encs pre)), s, props_of nm post) \<and>
   i < length (visits nm off (pre @ BeginNode s # post))"
  by (induction nm off pre arbitrary: i rule: visits.induct) (auto simp: add.assoc)

lemma stands_begins: "stands_for strs ts cs \<Longrightarrow> length (visits nm off ts) = length (call_visits cs)"
proof (induction ts arbitrary: cs off)
  case (Cons t ts)
  then show ?case by (cases t) (auto simp: stands_simps)
qed simp

lemma rw_nth_node:
  assumes "rw_blob n s fdt" "stands_for (rw_strs s) (rw_tags s) (concat (map calls_of ts))"
  shows "nth_node fdt i = Some (if i < length (concat (map preorder ts))
    then fst (visits (tok_name (rw_strs s)) 0 (rw_tags s @ [End]) ! i) else - FDT_ERR_NOTFOUND)"
proof -
  let ?nm = "tok_name (rw_strs s)" and ?us = "rw_tags s @ [End]"
  let ?vs = "visits ?nm 0 ?us"
  have at: "tokens_at fdt 0 ?us" and e: "End \<in> set ?us" using rw_tokens [OF assms(1)] by auto
  have "map snd ?vs = concat (map preorder ts)" using stands_visits [OF assms(2)] forest_visits by simp
  then have len: "length ?vs = length (concat (map preorder ts))" by (metis length_map)
  have stop: "nodes_stop ?us" using stands_stop [OF assms(2) forest_stop] .
  note r = visit_reads(1) [OF rw_check [OF assms(1)] at e rw_names_at [OF assms(1,2)] stop]
  have first: "fdt_next_node fdt (- 1) None = Some (seek 0 ?us, None)"
    using next_node_loop_seek [OF at e] by (simp add: fdt_next_node_def)
  show ?thesis unfolding len [symmetric]
  proof (induction i)
    case 0
    then show ?case using first seek_visits [OF e, of 0 ?nm] by (cases ?vs) auto
  next
    case (Suc i)
    show ?case
    proof (cases "i < length ?vs")
      case True
      have "0 \<le> fst (?vs ! i)"
        using visits_nth [OF at e rw_names_at [OF assms(1,2)] True stop] by (auto dest: tokens_at_nonneg)
      moreover have "fdt_next_node fdt (fst (?vs ! i)) None = Some (if Suc i < length ?vs then fst (?vs ! Suc i) else - FDT_ERR_NOTFOUND, None)"
        using r [OF True, of "fst (?vs ! i)" "fst (snd (?vs ! i))" "snd (snd (?vs ! i))"] by simp
      ultimately show ?thesis using Suc True by (simp add: not_less)
    next
      case False
      then show ?thesis using Suc by (simp add: FDT_ERR_NOTFOUND_def)
    qed
  qed
qed

end
