(* ===== verification/Fdt_Rw_Ops.thy ===== *)
theory Fdt_Rw_Ops
  imports Fdt_Rw_Tree
begin

text \<open>
  The operations of \<open>fdt_rw.c\<close> and \<open>fdt_wip.c\<close> at a node of a tree: what they make of the properties, the
  name and the subnodes of the node.
\<close>

section \<open>Outcomes\<close>

text \<open>
  The result of an operation that may take \<open>k\<close> bytes: the calls \<open>cs\<close> become \<open>cs'\<close>, or there is no room.
\<close>

definition goes_to :: "nat \<Rightarrow> rw_state \<Rightarrow> blob \<Rightarrow> nat \<Rightarrow> sw_call list \<Rightarrow> sw_call list \<Rightarrow> int \<times> blob \<Rightarrow> bool" where
  "goes_to n s fdt k cs cs' r \<longleftrightarrow> changed 0 (int n) fdt (snd r) \<and>
     (\<exists>s'. rw_blob n s' (snd r) \<and> rw_rsv s' = rw_rsv s \<and> rw_data s' \<le> rw_data s + k \<and>
       (0 \<le> fst r \<and> stands_for (rw_strs s') (rw_tags s') cs' \<or>
        fst r = - FDT_ERR_NOSPACE \<and> n < rw_data s + k \<and> stands_for (rw_strs s') (rw_tags s') cs))"

lemma goes_to_same:
  assumes "rw_blob n s fdt" "stands_for (rw_strs s) (rw_tags s) cs"
  shows "0 \<le> c \<Longrightarrow> goes_to n s fdt k cs cs (c, fdt)" and "n < rw_data s + k \<Longrightarrow> goes_to n s fdt k cs cs' (- FDT_ERR_NOSPACE, fdt)"
  using assms by (auto simp: goes_to_def intro!: exI [of _ s])

lemma goes_to_retagged:
  assumes "rw_blob n s fdt" "stands_for (rw_strs s) (rw_tags s) cs" "retagged n s fdt ts r" "stands_for (rw_strs s) ts cs'"
    and "length (encs ts) \<le> length (encs (rw_tags s)) + k"
  shows "goes_to n s fdt k cs cs' r"
proof (cases "rw_data s + length (encs ts) \<le> n + length (encs (rw_tags s))")
  case True
  then have r: "fst r = 0" "rw_blob n (rw_retag ts s) (snd r)" "changed 0 (int n) fdt (snd r)" using assms(3) by (auto simp: retagged_def)
  have "length (encs (rw_tags s)) \<le> rw_strings_off s" using rw_blob_layout [OF assms(1)] by (auto simp: rw_layout_def)
  then have "rw_data (rw_retag ts s) \<le> rw_data s + k" using assms(5) by (auto simp: rw_retag_def)
  then show ?thesis using r assms(4) by (auto simp: goes_to_def intro!: exI [of _ "rw_retag ts s"])
next
  case False
  then have "r = (- FDT_ERR_NOSPACE, fdt)" using assms(3) by (cases r) (simp add: retagged_def)
  then show ?thesis using goes_to_same(2) [OF assms(1,2)] False assms(5) by auto
qed

lemma goes_to_code: "goes_to n s fdt k cs cs' (0, g) \<Longrightarrow> 0 \<le> c \<Longrightarrow> goes_to n s fdt k cs cs' (c, g)"
  by (auto simp: goes_to_def FDT_ERR_NOSPACE_def)

lemma goes_to_after:
  assumes "changed 0 (int n) fdt f" "rw_rsv s' = rw_rsv s" "rw_data s' \<le> rw_data s + j" "goes_to n s' f k cs cs' r"
  shows "goes_to n s fdt (j + k) cs cs' r"
proof -
  obtain s'' where "rw_blob n s'' (snd r)" "rw_rsv s'' = rw_rsv s'" "rw_data s'' \<le> rw_data s' + k" "changed 0 (int n) f (snd r)"
    "0 \<le> fst r \<and> stands_for (rw_strs s'') (rw_tags s'') cs' \<or>
      fst r = - FDT_ERR_NOSPACE \<and> n < rw_data s' + k \<and> stands_for (rw_strs s'') (rw_tags s'') cs"
    using assms(4) by (auto simp: goes_to_def)
  then show ?thesis using assms(1-3) changed_trans [OF assms(1)] unfolding goes_to_def by (intro conjI exI [of _ s'']) auto
qed

lemma goes_to_more: "goes_to n s fdt k cs cs' r \<Longrightarrow> k \<le> k' \<Longrightarrow> goes_to n s fdt k' cs cs' r"
  by (auto simp: goes_to_def)

section \<open>Looking up a property\<close>

fun no_prop :: "sw_call list \<Rightarrow> bool" where
  "no_prop (Property k v # cs) \<longleftrightarrow> False"
| "no_prop (c # cs) \<longleftrightarrow> True"
| "no_prop [] \<longleftrightarrow> False"

abbreviation props_calls :: "(u8 list \<times> u8 list) list \<Rightarrow> sw_call list" where
  "props_calls ps \<equiv> map (\<lambda>(k, v). Property k v) ps"

definition prop_place :: "u8 list \<Rightarrow> u8 list \<Rightarrow> fdt_token list \<Rightarrow> (u8 list \<times> u8 list) list \<Rightarrow> sw_call list \<Rightarrow>
    (u8 list \<times> u8 list) list \<Rightarrow> u8 list \<Rightarrow> (u8 list \<times> u8 list) list \<Rightarrow> fdt_token list \<Rightarrow> u32 \<Rightarrow> fdt_token list \<Rightarrow> bool" where
  "prop_place strs k ts ps cs ps1 w ps2 qs x post \<longleftrightarrow>
     ps = ps1 @ (k, w) # ps2 \<and> k \<notin> fst ` set ps1 \<and> ts = qs @ Prop x w # post \<and> 0 \<notin> set k \<and> string_in strs (unat x) k \<and>
     stands_for strs qs (props_calls ps1) \<and> stands_for strs post (props_calls ps2 @ cs)"

lemma find_in_node:
  assumes "stands_for strs ts (props_calls ps @ cs)" "no_prop cs"
  shows "if k \<in> fst ` set ps
    then \<exists>ps1 w ps2 qs x post. prop_place strs k ts ps cs ps1 w ps2 qs x post \<and>
      find_prop (tok_name strs) k off (ts @ [End]) = (Some (off + int (length (encs qs))), int (length w))
    else find_prop (tok_name strs) k off (ts @ [End]) = (None, - FDT_ERR_NOTFOUND)"
  using assms
proof (induction ts arbitrary: ps off)
  case Nil
  then show ?case by (cases ps) auto
next
  case (Cons t ts)
  show ?case
  proof (cases t)
    case (BeginNode s)
    then have "ps = []" using Cons.prems(1) by (cases ps) (auto simp: stands_simps)
    then show ?thesis using BeginNode by simp
  next
    case EndNode
    then have "ps = []" using Cons.prems(1) by (cases ps) (auto simp: stands_simps)
    then show ?thesis using EndNode by simp
  next
    case (Prop x v)
    then have "ps \<noteq> []" using Cons.prems by (cases ps; cases cs) (auto simp: stands_simps)
    then obtain k' ps' where ps: "ps = (k', v) # ps'" and k': "0 \<notin> set k'" "string_in strs (unat x) k'" "stands_for strs ts (props_calls ps' @ cs)"
      using Cons.prems(1) Prop by (cases ps) (auto simp: stands_simps)
    note nm = tok_name_string [OF k'(2,1)]
    show ?thesis
    proof (cases "k' = k")
      case True
      have "prop_place strs k (t # ts) ps cs [] v ps' [] x ts" using True Prop ps k' by (simp add: prop_place_def)
      moreover have "find_prop (tok_name strs) k off ((t # ts) @ [End]) = (Some (off + int (length (encs []))), int (length v))"
        using True Prop nm by simp
      ultimately show ?thesis using True ps by fastforce
    next
      case False
      let ?off = "off + int (length (enc (Prop x v)))"
      have step: "find_prop (tok_name strs) k off ((t # ts) @ [End]) = find_prop (tok_name strs) k ?off (ts @ [End])"
        using False Prop nm by simp
      note IH = Cons.IH [OF k'(3) Cons.prems(2), of ?off]
      show ?thesis
      proof (cases "k \<in> fst ` set ps'")
        case True
        then obtain ps1 w ps2 qs y post where p: "prop_place strs k ts ps' cs ps1 w ps2 qs y post"
          and f: "find_prop (tok_name strs) k ?off (ts @ [End]) = (Some (?off + int (length (encs qs))), int (length w))" using IH by auto
        have "prop_place strs k (t # ts) ps cs ((k', v) # ps1) w ps2 (Prop x v # qs) y post"
          using p False ps Prop k' by (auto simp: prop_place_def stands_simps)
        moreover have "find_prop (tok_name strs) k off ((t # ts) @ [End]) = (Some (off + int (length (encs (Prop x v # qs)))), int (length w))"
          using step f by simp
        moreover have "k \<in> fst ` set ps" using True ps by simp
        ultimately show ?thesis by metis
      next
        case f: False
        then show ?thesis using IH step ps False by simp
      qed
    qed
  next
    case Nop
    have step: "find_prop (tok_name strs) k off ((t # ts) @ [End]) = find_prop (tok_name strs) k (off + int (length (enc Nop))) (ts @ [End])"
      using Nop by simp
    note IH = Cons.IH [of ps "off + int (length (enc Nop))"]
    have st: "stands_for strs ts (props_calls ps @ cs)" using Cons.prems(1) Nop by simp
    show ?thesis
    proof (cases "k \<in> fst ` set ps")
      case True
      then obtain ps1 w ps2 qs y post where p: "prop_place strs k ts ps cs ps1 w ps2 qs y post"
        and f: "find_prop (tok_name strs) k (off + int (length (enc Nop))) (ts @ [End]) =
          (Some (off + int (length (enc Nop)) + int (length (encs qs))), int (length w))" using IH [OF st Cons.prems(2)] by auto
      have "prop_place strs k (t # ts) ps cs ps1 w ps2 (Nop # qs) y post" using p Nop by (simp add: prop_place_def)
      moreover have "find_prop (tok_name strs) k off ((t # ts) @ [End]) = (Some (off + int (length (encs (Nop # qs)))), int (length w))"
        using step f by simp
      ultimately show ?thesis using True by metis
    next
      case False
      then show ?thesis using IH [OF st Cons.prems(2)] step by simp
    qed
  next
    case End
    then show ?thesis using Cons.prems by simp
  qed
qed

text \<open>A node in a blob: its name, its properties, and the calls around it.\<close>

definition node_here :: "nat \<Rightarrow> rw_state \<Rightarrow> blob \<Rightarrow> fdt_token list \<Rightarrow> u8 list \<Rightarrow> fdt_token list \<Rightarrow>
    sw_call list \<Rightarrow> (u8 list \<times> u8 list) list \<Rightarrow> sw_call list \<Rightarrow> bool" where
  "node_here n s fdt pre nm body ds ps cs \<longleftrightarrow>
     rw_blob n s fdt \<and> rw_tags s = pre @ BeginNode nm # body \<and> stands_for (rw_strs s) pre ds \<and>
     stands_for (rw_strs s) body (props_calls ps @ cs) \<and> no_prop cs"

abbreviation node_calls :: "sw_call list \<Rightarrow> u8 list \<Rightarrow> (u8 list \<times> u8 list) list \<Rightarrow> sw_call list \<Rightarrow> sw_call list" where
  "node_calls ds nm ps cs \<equiv> ds @ Begin_node nm # props_calls ps @ cs"

lemma node_here_stands: "node_here n s fdt pre nm body ds ps cs \<Longrightarrow> stands_for (rw_strs s) (rw_tags s) (node_calls ds nm ps cs)"
  by (auto simp: node_here_def stands_simps intro!: stands_append)

lemma node_here_token:
  assumes "node_here n s fdt pre nm body ds ps cs"
  shows "tokens_at fdt (int (length (encs pre))) (BeginNode nm # body @ [End])"
  using assms rw_tokens [of n s fdt] tokens_at_append [of fdt 0 pre "BeginNode nm # body @ [End]"] by (simp add: node_here_def)

lemma rw_get_property:
  assumes "node_here n s fdt pre nm body ds ps cs" "off = int (length (encs pre))"
  shows "if k \<in> fst ` set ps
    then \<exists>ps1 w ps2 qs x post. prop_place (rw_strs s) k body ps cs ps1 w ps2 qs x post \<and>
      fdt_get_property fdt off k =
        Some (Some (int (rw_struct_off s) + int (length (encs (pre @ BeginNode nm # qs)))), int (length w))
    else fdt_get_property fdt off k = Some (None, - FDT_ERR_NOTFOUND)"
proof -
  have b: "rw_blob n s fdt" "rw_tags s = pre @ BeginNode nm # body" "stands_for (rw_strs s) body (props_calls ps @ cs)" "no_prop cs"
    using assms(1) by (simp_all add: node_here_def)
  let ?off = "off + int (length (enc (BeginNode nm)))"
  have at: "tokens_at fdt off (BeginNode nm # body @ [End])" using node_here_token [OF assms(1)] by (simp only: assms(2))
  note tl = tokens_at_tl [OF at]
  have "fdt_get_property fdt off k = do { o' \<leftarrow> nextprop fdt ?off; property_loop fdt o' k }"
    using check_node_token [OF at] tokens_at_off [OF tl]
    by (simp add: fdt_get_property_def fdt_get_property_namelen_def fdt_first_property_offset_def not_less)
  then have g: "fdt_get_property fdt off k =
      Some (map_prod (map_option (raw_fdt_offset_ptr fdt)) (\<lambda>l. l) (find_prop (tok_name (rw_strs s)) k ?off (body @ [End])))"
    using property_search [OF tl _ rw_names_at [OF b(1,3)]] by simp
  note f = find_in_node [OF b(3,4), of k ?off]
  show ?thesis
  proof (cases "k \<in> fst ` set ps")
    case True
    then obtain ps1 w ps2 qs x post where "prop_place (rw_strs s) k body ps cs ps1 w ps2 qs x post"
      "find_prop (tok_name (rw_strs s)) k ?off (body @ [End]) = (Some (?off + int (length (encs qs))), int (length w))" using f by auto
    then show ?thesis unfolding if_P [OF True] using g rw_ptr [OF b(1)]
      by (intro exI [of _ ps1] exI [of _ w] exI [of _ ps2] exI [of _ qs] exI [of _ x] exI [of _ post]) (simp add: assms(2) add.assoc)
  next
    case False
    then show ?thesis using f g by simp
  qed
qed

section \<open>Changing a property\<close>

text \<open>The first property with a name is replaced by the properties that \<open>f\<close> makes of its value.\<close>

fun change_prop :: "u8 list \<Rightarrow> (u8 list \<Rightarrow> (u8 list \<times> u8 list) list) \<Rightarrow> (u8 list \<times> u8 list) list \<Rightarrow> (u8 list \<times> u8 list) list" where
  "change_prop k f [] = []"
| "change_prop k f ((k', w) # ps) = (if k' = k then f w @ ps else (k', w) # change_prop k f ps)"

definition put_prop :: "u8 list \<Rightarrow> u8 list \<Rightarrow> (u8 list \<times> u8 list) list \<Rightarrow> (u8 list \<times> u8 list) list" where
  "put_prop k v ps = (if k \<in> fst ` set ps then change_prop k (\<lambda>w. [(k, v)]) ps else (k, v) # ps)"

definition append_prop :: "u8 list \<Rightarrow> u8 list \<Rightarrow> (u8 list \<times> u8 list) list \<Rightarrow> (u8 list \<times> u8 list) list" where
  "append_prop k v ps = (if k \<in> fst ` set ps then change_prop k (\<lambda>w. [(k, w @ v)]) ps else (k, v) # ps)"

lemma change_prop_at: "k \<notin> fst ` set ps1 \<Longrightarrow> change_prop k f (ps1 @ (k, w) # ps2) = ps1 @ f w @ ps2"
  by (induction ps1) auto

lemma prop_place_tags:
  assumes "node_here n s fdt pre nm body ds ps cs" "prop_place (rw_strs s) k body ps cs ps1 w ps2 qs x post"
  shows "rw_tags s = (pre @ BeginNode nm # qs) @ [Prop x w] @ post"
    and "stands_for (rw_strs s) ((pre @ BeginNode nm # qs) @ [Prop x v] @ post) (node_calls ds nm (change_prop k (\<lambda>w. [(k, v)]) ps) cs)"
    and "stands_for (rw_strs s) ((pre @ BeginNode nm # qs) @ post) (node_calls ds nm (change_prop k (\<lambda>w. []) ps) cs)"
    and "stands_for (rw_strs s) ((pre @ BeginNode nm # qs) @ replicate m Nop @ post) (node_calls ds nm (change_prop k (\<lambda>w. []) ps) cs)"
    and "change_prop k (\<lambda>w. [(k, g w)]) ps = change_prop k (\<lambda>w'. [(k, g w)]) ps"
proof -
  have h: "rw_tags s = pre @ BeginNode nm # body" "stands_for (rw_strs s) pre ds" using assms(1) by (simp_all add: node_here_def)
  have p: "ps = ps1 @ (k, w) # ps2" "k \<notin> fst ` set ps1" "body = qs @ Prop x w # post" "0 \<notin> set k" "string_in (rw_strs s) (unat x) k"
    "stands_for (rw_strs s) qs (props_calls ps1)" "stands_for (rw_strs s) post (props_calls ps2 @ cs)"
    using assms(2) by (simp_all add: prop_place_def)
  show "rw_tags s = (pre @ BeginNode nm # qs) @ [Prop x w] @ post" using h(1) p(3) by simp
  have front: "stands_for (rw_strs s) (pre @ BeginNode nm # qs) (ds @ Begin_node nm # props_calls ps1)"
    using h(2) p(6) by (intro stands_append) (auto simp: stands_simps)
  have "stands_for (rw_strs s) ([Prop x v] @ post) (Property k v # props_calls ps2 @ cs)" using p by (simp add: stands_simps)
  from stands_append [OF front this]
  show "stands_for (rw_strs s) ((pre @ BeginNode nm # qs) @ [Prop x v] @ post) (node_calls ds nm (change_prop k (\<lambda>w. [(k, v)]) ps) cs)"
    by (simp add: p(1) change_prop_at [OF p(2)])
  from stands_append [OF front p(7)]
  show "stands_for (rw_strs s) ((pre @ BeginNode nm # qs) @ post) (node_calls ds nm (change_prop k (\<lambda>w. []) ps) cs)"
    by (simp add: p(1) change_prop_at [OF p(2)])
  have "stands_for (rw_strs s) (replicate m Nop @ post) (props_calls ps2 @ cs)" using p(7) by (simp only: stands_nops)
  from stands_append [OF front this]
  show "stands_for (rw_strs s) ((pre @ BeginNode nm # qs) @ replicate m Nop @ post) (node_calls ds nm (change_prop k (\<lambda>w. []) ps) cs)"
    by (simp add: p(1) change_prop_at [OF p(2)])
  show "change_prop k (\<lambda>w. [(k, g w)]) ps = change_prop k (\<lambda>w'. [(k, g w)]) ps"
    by (simp add: p(1) change_prop_at [OF p(2)])
qed

lemma call_size_enc: "length (enc (Prop x v)) \<le> call_size (Property k v)"
  by (simp add: length_enc_prop)

lemma rw_add_property:
  assumes "node_here n s fdt pre nm body ds ps cs" "off = int (length (encs pre))"
    and "length v < 2 ^ 31 - 16" "length k < 2 ^ 31 - 1" "0 \<notin> set k"
  shows "\<exists>e p f. fdt_add_property fdt off k (int (length v)) = Some (e, p, f) \<and>
    goes_to n s fdt (call_size (Property k v)) (node_calls ds nm ps cs) (node_calls ds nm ((k, v) # ps) cs)
      (if e \<noteq> 0 then (e, f) else (0, store_bytes f (p + 12) v))"
proof -
  have b: "rw_blob n s fdt" using assms(1) by (simp add: node_here_def)
  let ?off = "off + int (length (enc (BeginNode nm)))"
  have at: "tokens_at fdt off (BeginNode nm # body @ [End])" using node_here_token [OF assms(1)] by (simp only: assms(2))
  have check: "fdt_check_node_offset fdt off = Some ?off" "0 \<le> ?off"
    using check_node_token [OF at] tokens_at_off [OF tokens_at_tl [OF at]] by simp_all
  obtain x s1 where int: "rw_intern k s = (x, s1)" by force
  note st = node_here_stands [OF assms(1)]
  note find = rw_find_add_string [OF b assms(4) int]
  obtain ys where s1: "rw_tags s1 = rw_tags s" "rw_rsv s1 = rw_rsv s" "rw_struct_off s1 = rw_struct_off s" "rw_strs s1 = rw_strs s @ ys"
    "rw_data s1 \<le> rw_data s + (length k + 1)" using rw_intern_simps [OF int] by auto
  show ?thesis
  proof (cases "rw_data s1 \<le> n")
    case False
    then have "fdt_find_add_string fdt k = (- FDT_ERR_NOSPACE, fdt)" using find by simp
    then have "fdt_add_property fdt off k (int (length v)) = Some (- FDT_ERR_NOSPACE, 0, fdt)"
      using check by (simp add: fdt_add_property_def FDT_ERR_NOSPACE_def)
    moreover have "n < rw_data s + call_size (Property k v)" using False s1(5) by simp
    ultimately show ?thesis using goes_to_same(2) [OF b st] by (auto simp: FDT_ERR_NOSPACE_def)
  next
    case True
    then obtain f1 where f1: "fdt_find_add_string fdt k = (int x, f1)" "rw_blob n s1 f1" "changed 0 (int n) fdt f1" using find by auto
    have str: "string_in (rw_strs s1) x k" by (rule rw_intern_string [OF int])
    have "x < 2 ^ 31" using string_in_length [OF str] rw_layout_small(6) [OF rw_blob_layout [OF f1(2)]] by linarith
    then have ux: "unat (word_of_int (int x) :: u32) = x" by (simp add: unat_nat32)
    let ?p = "int (rw_struct_off s1) + int (length (encs (pre @ [BeginNode nm])))"
    have here: "node_here n s1 f1 pre nm body ds ps cs" using assms(1) f1(2) s1 stands_more by (auto simp: node_here_def)
    have tags: "rw_tags s1 = (pre @ [BeginNode nm]) @ body" using here by (simp add: node_here_def)
    note st1 = node_here_stands [OF here]
    let ?r = "let (err, f) = fdt_splice_struct f1 ?p 0 (c_int (12 + FDT_TAGALIGN (int (length v))))
       in if err \<noteq> 0 then (err, f)
          else (0, store_bytes (put32 (put32 (put32 f ?p FDT_PROP) (?p + 8) (word_of_int (int x))) (?p + 4) (of_nat (length v))) (?p + 12) v)"
    have "goes_to n s1 f1 (length (enc (Prop 0 v))) (node_calls ds nm ps cs) (node_calls ds nm ((k, v) # ps) cs) ?r"
    proof (rule goes_to_retagged [OF f1(2) st1 rw_insert_property [OF f1(2) tags refl assms(3)]])
      have "stands_for (rw_strs s1) (pre @ [BeginNode nm] @ Prop (word_of_int (int x)) v # body) (ds @ [Begin_node nm] @ Property k v # props_calls ps @ cs)"
        using here str ux assms(5) by (intro stands_append) (auto simp: node_here_def stands_simps)
      then show "stands_for (rw_strs s1) ((pre @ [BeginNode nm]) @ [Prop (word_of_int (int x)) v] @ body) (node_calls ds nm ((k, v) # ps) cs)" by simp
      show "length (encs ((pre @ [BeginNode nm]) @ [Prop (word_of_int (int x)) v] @ body)) \<le> length (encs (rw_tags s1)) + length (enc (Prop 0 v))"
        unfolding tags by (simp add: length_enc_prop)
    qed
    from goes_to_after [OF f1(3) s1(2,5) this]
    have g: "goes_to n s fdt (call_size (Property k v)) (node_calls ds nm ps cs) (node_calls ds nm ((k, v) # ps) cs) ?r"
      by (rule goes_to_more) simp
    obtain e f where ef: "fdt_splice_struct f1 ?p 0 (c_int (12 + FDT_TAGALIGN (int (length v)))) = (e, f)" by force
    have ptr: "raw_fdt_offset_ptr f1 ?off = ?p" using rw_ptr [OF f1(2)] assms(2) by (simp add: s1(3))
    have "\<not> int x < 0" "\<not> ?off < 0" using check(2) by auto
    then have "fdt_add_property fdt off k (int (length v)) =
        Some (if e \<noteq> 0 then (e, ?p, f) else (0, ?p, put32 (put32 (put32 f ?p FDT_PROP) (?p + 8) (word_of_int (int x))) (?p + 4) (of_nat (length v))))"
      by (simp only: fdt_add_property_def check(1) f1(1) Let_def prod.case ptr ef if_False bind.bind_lunit)
        (simp add: of_int_of_nat_eq)
    then show ?thesis using g ef by (cases "e = 0") auto
  qed
qed

lemma rw_struct_off_at: "p = int (rw_struct_off s) + int (length (encs pre)) \<Longrightarrow> rw_blob n s fdt \<Longrightarrow> 56 \<le> p"
  using rw_blob_layout [of n s fdt] by (simp add: rw_layout_def)

lemma rw_setprop:
  assumes "node_here n s fdt pre nm body ds ps cs" "off = int (length (encs pre))"
    and "length v < 2 ^ 31 - 16" "length k < 2 ^ 31 - 1" "0 \<notin> set k"
  shows "\<exists>r. fdt_setprop fdt off k v = Some r \<and>
    goes_to n s fdt (call_size (Property k v)) (node_calls ds nm ps cs) (node_calls ds nm (put_prop k v ps) cs) r"
proof -
  have b: "rw_blob n s fdt" using assms(1) by (simp add: node_here_def)
  note st = node_here_stands [OF assms(1)]
  note get = rw_get_property [OF assms(1,2), of k]
  note op = fdt_setprop_def rw_header [OF b] fdt_resize_property_def
  show ?thesis
  proof (cases "k \<in> fst ` set ps")
    case True
    then obtain ps1 w ps2 qs x post where pl: "prop_place (rw_strs s) k body ps cs ps1 w ps2 qs x post"
      and g: "fdt_get_property fdt off k = Some (Some (int (rw_struct_off s) + int (length (encs (pre @ BeginNode nm # qs)))), int (length w))"
      using get by auto
    let ?pre = "pre @ BeginNode nm # qs" let ?p = "int (rw_struct_off s) + int (length (encs ?pre))"
    note tags = prop_place_tags(1) [OF assms(1) pl]
    note st' = prop_place_tags(2) [OF assms(1) pl, of v]
    have put: "put_prop k v ps = change_prop k (\<lambda>w. [(k, v)]) ps" using True by (simp add: put_prop_def)
    note rs = rw_resize_property [OF b tags refl assms(3)]
    show ?thesis
    proof (cases "rw_data s + length (enc (Prop x v)) \<le> n + length (enc (Prop x w))")
      case room: True
      then obtain f where f: "fdt_splice_struct fdt (?p + 12) (FDT_TAGALIGN (int (length w))) (FDT_TAGALIGN (int (length v))) = (0, f)"
        "spliced s ?p (length (encs [Prop x w])) (length (encs [Prop x v])) fdt f" "changed 0 (int n) fdt f"
        "moved 0 ?p (12 + int ((length v + 3) div 4 * 4)) fdt f" using rs by auto
      let ?g = "store_bytes (put32 f (?p + 4) (of_nat (length v))) (?p + 12) v"
      have "moved 0 ?p 12 fdt f" by (rule moved_sub [OF f(4)]) simp_all
      then have "retagged n s fdt (?pre @ [Prop x v] @ post) (0, ?g)"
        using rw_resized_property [OF b tags refl, of "[]" v f] f room by simp
      then have "goes_to n s fdt (call_size (Property k v)) (node_calls ds nm ps cs) (node_calls ds nm (put_prop k v ps) cs) (0, ?g)"
        unfolding put by (rule goes_to_retagged [OF b st _ st']) (simp add: tags length_enc_prop)
      moreover have "fdt_setprop fdt off k v = Some (0, ?g)"
        by (simp only: op g Let_def prod.case bind.bind_lunit option.case f(1)) (simp add: FDT_ERR_NOTFOUND_def)
      ultimately show ?thesis by blast
    next
      case False
      then have "fdt_setprop fdt off k v = Some (- FDT_ERR_NOSPACE, fdt)"
        using rs by (simp add: op g FDT_ERR_NOTFOUND_def FDT_ERR_NOSPACE_def)
      moreover have "n < rw_data s + call_size (Property k v)"
        using False call_size_enc [of x v k] by linarith
      ultimately show ?thesis using goes_to_same(2) [OF b st] by blast
    qed
  next
    case False
    then have g: "fdt_get_property fdt off k = Some (None, - FDT_ERR_NOTFOUND)" using get by simp
    obtain e p f where add: "fdt_add_property fdt off k (int (length v)) = Some (e, p, f)"
      "goes_to n s fdt (call_size (Property k v)) (node_calls ds nm ps cs) (node_calls ds nm ((k, v) # ps) cs)
        (if e \<noteq> 0 then (e, f) else (0, store_bytes f (p + 12) v))" using rw_add_property [OF assms] by blast
    have "fdt_setprop fdt off k v = Some (if e \<noteq> 0 then (e, f) else (0, store_bytes f (p + 12) v))"
      by (simp add: op g add(1))
    then show ?thesis using add(2) False by (simp add: put_prop_def)
  qed
qed

lemma rw_appendprop:
  assumes "node_here n s fdt pre nm body ds ps cs" "off = int (length (encs pre))"
    and "n + length v < 2 ^ 31 - 16" "length k < 2 ^ 31 - 1" "0 \<notin> set k"
  shows "\<exists>r. fdt_appendprop fdt off k v = Some r \<and>
    goes_to n s fdt (call_size (Property k v)) (node_calls ds nm ps cs) (node_calls ds nm (append_prop k v ps) cs) r"
proof -
  have b: "rw_blob n s fdt" using assms(1) by (simp add: node_here_def)
  note st = node_here_stands [OF assms(1)]
  note get = rw_get_property [OF assms(1,2), of k]
  note op = fdt_appendprop_def rw_header [OF b]
  show ?thesis
  proof (cases "k \<in> fst ` set ps")
    case True
    then obtain ps1 w ps2 qs x post where pl: "prop_place (rw_strs s) k body ps cs ps1 w ps2 qs x post"
      and g: "fdt_get_property fdt off k = Some (Some (int (rw_struct_off s) + int (length (encs (pre @ BeginNode nm # qs)))), int (length w))"
      using get by auto
    let ?pre = "pre @ BeginNode nm # qs" let ?p = "int (rw_struct_off s) + int (length (encs ?pre))"
    note tags = prop_place_tags(1) [OF assms(1) pl]
    note st' = prop_place_tags(2) [OF assms(1) pl, of "w @ v"]
    have put: "append_prop k v ps = change_prop k (\<lambda>w'. [(k, w @ v)]) ps"
      using True pl by (simp add: append_prop_def prop_place_def change_prop_at)
    have "length (enc (Prop x w)) \<le> n" using rw_blob_layout [OF b] tags by (auto simp: rw_layout_def)
    then have wn: "length w \<le> n" using payload_fits [of "Prop x w"] by simp
    then have small: "length (w @ v) < 2 ^ 31 - 16" using assms(3) by simp
    note rs = rw_resize_property [OF b tags refl small]
    have c: "c_int (int (length v) + int (length w)) = int (length (w @ v))" using c_int_nat [of "length (w @ v)"] small by (simp add: add.commute)
    have k: "length (enc (Prop x (w @ v))) \<le> length (enc (Prop x w)) + call_size (Property k v)" by (simp add: length_enc_prop)
    show ?thesis
    proof (cases "rw_data s + length (enc (Prop x (w @ v))) \<le> n + length (enc (Prop x w))")
      case room: True
      then obtain f where f: "fdt_splice_struct fdt (?p + 12) (FDT_TAGALIGN (int (length w))) (FDT_TAGALIGN (int (length (w @ v)))) = (0, f)"
        "spliced s ?p (length (encs [Prop x w])) (length (encs [Prop x (w @ v)])) fdt f" "changed 0 (int n) fdt f"
        "moved 0 ?p (12 + int ((length (w @ v) + 3) div 4 * 4)) fdt f" using rs by auto
      let ?g = "store_bytes (put32 f (?p + 4) (of_nat (length (w @ v)))) (?p + 12 + int (length w)) v"
      have "length w \<le> (length (w @ v) + 3) div 4 * 4" by simp
      then have m: "moved 0 ?p (12 + int (length w)) fdt f" by (intro moved_sub [OF f(4)]) simp_all
      have h: "holds fdt (?p + 12) w" using b tags by (auto simp: rw_blob_def holds_tokens_append holds_append add.assoc)
      have "retagged n s fdt (?pre @ [Prop x (w @ v)] @ post) (0, ?g)"
        by (rule rw_resized_property [OF b tags refl f(2) m room f(3) h])
      then have "goes_to n s fdt (call_size (Property k v)) (node_calls ds nm ps cs) (node_calls ds nm (append_prop k v ps) cs) (0, ?g)"
        unfolding put by (rule goes_to_retagged [OF b st _ st']) (use k in \<open>simp add: tags\<close>)
      moreover have "fdt_appendprop fdt off k v = Some (0, ?g)"
        by (simp only: op g Let_def prod.case bind.bind_lunit option.case c f(1)) simp
      ultimately show ?thesis by blast
    next
      case False
      then have "fdt_appendprop fdt off k v = Some (- FDT_ERR_NOSPACE, fdt)"
        using rs by (simp only: op g Let_def prod.case bind.bind_lunit option.case c) (simp add: FDT_ERR_NOSPACE_def)
      moreover have "n < rw_data s + call_size (Property k v)" using False k by linarith
      ultimately show ?thesis using goes_to_same(2) [OF b st] by blast
    qed
  next
    case False
    then have g: "fdt_get_property fdt off k = Some (None, - FDT_ERR_NOTFOUND)" using get by simp
    have v: "length v < 2 ^ 31 - 16" using assms(3) by simp
    obtain e p f where add: "fdt_add_property fdt off k (int (length v)) = Some (e, p, f)"
      "goes_to n s fdt (call_size (Property k v)) (node_calls ds nm ps cs) (node_calls ds nm ((k, v) # ps) cs)
        (if e \<noteq> 0 then (e, f) else (0, store_bytes f (p + 12) v))" using rw_add_property [OF assms(1,2) v assms(4,5)] by blast
    have "fdt_appendprop fdt off k v = Some (if e \<noteq> 0 then (e, f) else (0, store_bytes f (p + 12) v))"
      by (simp add: op g add(1))
    then show ?thesis using add(2) False by (simp add: append_prop_def)
  qed
qed

text \<open>Operations that need the property to be there.\<close>

lemma rw_delprop:
  assumes "node_here n s fdt pre nm body ds ps cs" "off = int (length (encs pre))"
  shows "if k \<in> fst ` set ps
    then \<exists>r. fdt_delprop fdt off k = Some r \<and>
      goes_to n s fdt 0 (node_calls ds nm ps cs) (node_calls ds nm (change_prop k (\<lambda>w. []) ps) cs) r
    else fdt_delprop fdt off k = Some (- FDT_ERR_NOTFOUND, fdt)"
proof -
  have b: "rw_blob n s fdt" using assms(1) by (simp add: node_here_def)
  note get = rw_get_property [OF assms, of k]
  note op = fdt_delprop_def rw_header [OF b]
  show ?thesis
  proof (cases "k \<in> fst ` set ps")
    case True
    then obtain ps1 w ps2 qs x post where pl: "prop_place (rw_strs s) k body ps cs ps1 w ps2 qs x post"
      and g: "fdt_get_property fdt off k = Some (Some (int (rw_struct_off s) + int (length (encs (pre @ BeginNode nm # qs)))), int (length w))"
      using get by auto
    note tags = prop_place_tags(1) [OF assms(1) pl]
    have "length (encs ((pre @ BeginNode nm # qs) @ post)) \<le> length (encs (rw_tags s)) + 0" unfolding tags by simp
    from goes_to_retagged [OF b node_here_stands [OF assms(1)] rw_delete_property [OF b tags refl] prop_place_tags(3) [OF assms(1) pl] this]
    show ?thesis unfolding if_P [OF True] by (simp add: op g)
  next
    case False
    then show ?thesis using get by (simp add: op)
  qed
qed

lemma rw_nop_property:
  assumes "node_here n s fdt pre nm body ds ps cs" "off = int (length (encs pre))"
  shows "if k \<in> fst ` set ps
    then \<exists>r. fdt_nop_property fdt off k = Some r \<and>
      goes_to n s fdt 0 (node_calls ds nm ps cs) (node_calls ds nm (change_prop k (\<lambda>w. []) ps) cs) r
    else fdt_nop_property fdt off k = Some (- FDT_ERR_NOTFOUND, fdt)"
proof -
  have b: "rw_blob n s fdt" using assms(1) by (simp add: node_here_def)
  note get = rw_get_property [OF assms, of k]
  show ?thesis
  proof (cases "k \<in> fst ` set ps")
    case True
    then obtain ps1 w ps2 qs x post where pl: "prop_place (rw_strs s) k body ps cs ps1 w ps2 qs x post"
      and g: "fdt_get_property fdt off k = Some (Some (int (rw_struct_off s) + int (length (encs (pre @ BeginNode nm # qs)))), int (length w))"
      using get by auto
    let ?k = "length (encs [Prop x w])"
    note tags = prop_place_tags(1) [OF assms(1) pl]
    have "length (enc (Prop x w)) < 2 ^ 31" using rw_blob_layout [OF b] tags by (auto simp: rw_layout_def)
    then have "c_int (int (length w) + 12) = int (length w + 12)"
      using payload_fits [of "Prop x w"] c_int_nat [of "length w + 12"] by simp
    moreover have "int (length w + 12) \<le> int ?k" "int ?k < int (length w + 12) + 4" by (simp_all add: length_enc_prop)
    moreover have len: "length (encs ((pre @ BeginNode nm # qs) @ replicate (?k div 4) Nop @ post)) \<le> length (encs (rw_tags s)) + 0"
      unfolding tags by (simp add: length_concat comp_def length_enc sum_list_replicate)
    ultimately show ?thesis unfolding if_P [OF True]
      using goes_to_retagged [OF b node_here_stands [OF assms(1)] rw_nops [OF b tags refl] prop_place_tags(4) [OF assms(1) pl] len]
      by (simp add: fdt_nop_property_def g)
  next
    case False
    then show ?thesis using get by (simp add: fdt_nop_property_def)
  qed
qed

lemma rw_setprop_inplace:
  assumes "node_here n s fdt pre nm body ds ps cs" "off = int (length (encs pre))"
  shows "case map_of ps k of
      None \<Rightarrow> fdt_setprop_inplace fdt off k v = Some (- FDT_ERR_NOTFOUND, fdt)
    | Some w \<Rightarrow> if length w \<noteq> length v then fdt_setprop_inplace fdt off k v = Some (- FDT_ERR_NOSPACE, fdt)
        else \<exists>r. fdt_setprop_inplace fdt off k v = Some r \<and>
          goes_to n s fdt 0 (node_calls ds nm ps cs) (node_calls ds nm (change_prop k (\<lambda>w. [(k, v)]) ps) cs) r"
proof -
  have b: "rw_blob n s fdt" using assms(1) by (simp add: node_here_def)
  note get = rw_get_property [OF assms, of k]
  note op = fdt_setprop_inplace_def fdt_getprop_def fdt_getprop_namelen_def fdt_get_property_def [symmetric]
  show ?thesis
  proof (cases "k \<in> fst ` set ps")
    case True
    then obtain ps1 w ps2 qs x post where pl: "prop_place (rw_strs s) k body ps cs ps1 w ps2 qs x post"
      and g: "fdt_get_property fdt off k = Some (Some (int (rw_struct_off s) + int (length (encs (pre @ BeginNode nm # qs)))), int (length w))"
      using get by auto
    let ?pre = "pre @ BeginNode nm # qs" let ?p = "int (rw_struct_off s) + int (length (encs ?pre))"
    note tags = prop_place_tags(1) [OF assms(1) pl]
    have w: "map_of ps k = Some w" using pl by (auto simp: prop_place_def map_add_def map_of_eq_None_iff [symmetric])
    show ?thesis
    proof (cases "length w = length v")
      case len: True
      have h: "holds fdt ?p (be_bytes FDT_PROP)" "holds fdt (?p + 4) (be_bytes (of_nat (length w)))" "holds fdt (?p + 8) (be_bytes x)"
        using b tags by (auto simp: rw_blob_def holds_tokens_append holds_append add.assoc)
      then have "holds_tokens (store_bytes fdt (?p + 12) v) ?p [Prop x v]" using len by (simp add: holds_prop)
      moreover have "length (encs [Prop x v]) = length (encs [Prop x w])" using len by (simp add: length_enc_prop)
      moreover have "?p + 12 + int (length v) \<le> ?p + int (length (encs [Prop x w]))" using len payload_fits [of "Prop x w"] by simp
      ultimately have "retagged n s fdt (?pre @ [Prop x v] @ post) (0, store_bytes fdt (?p + 12) v)"
        by (intro rw_in_place [OF b tags refl]) simp_all
      moreover have "length (encs (?pre @ [Prop x v] @ post)) \<le> length (encs (rw_tags s)) + 0"
        unfolding tags using len by (simp add: length_enc_prop)
      ultimately show ?thesis
        using goes_to_retagged [OF b node_here_stands [OF assms(1)] _ prop_place_tags(2) [OF assms(1) pl]] len by (simp add: w op g)
    next
      case False
      then show ?thesis by (simp add: w op g)
    qed
  next
    case False
    then have "map_of ps k = None" by (simp add: map_of_eq_None_iff)
    then show ?thesis using get False by (simp add: op)
  qed
qed

section \<open>Changing a node\<close>

lemma rw_set_name:
  assumes "node_here n s fdt pre nm body ds ps cs" "off = int (length (encs pre))"
    and "length nm' < 2 ^ 31 - 16" "0 \<notin> set nm'"
  shows "\<exists>r. fdt_set_name fdt off nm' = Some r \<and>
    goes_to n s fdt (call_size (Begin_node nm')) (node_calls ds nm ps cs) (node_calls ds nm' ps cs) r"
proof -
  have b: "rw_blob n s fdt" "rw_tags s = pre @ [BeginNode nm] @ body" using assms(1) by (simp_all add: node_here_def)
  have at: "tokens_at fdt off (BeginNode nm # body @ [End])" using node_here_token [OF assms(1)] by (simp only: assms(2))
  let ?p = "int (rw_struct_off s) + int (length (encs pre))"
  have "holds fdt (?p + 4) (nm @ [0])" "0 \<notin> set nm"
    using b rw_blob_layout [OF b(1)] by (auto simp: rw_blob_def holds_tokens_append holds_append add.assoc rw_layout_def)
  then have g: "fdt_get_name fdt off = Some (Some (?p + 4), int (length nm))"
    using check_node_token [OF at] tokens_at_off [OF tokens_at_tl [OF at]] rw_check [OF b(1)] rw_ptr [OF b(1), of off] assms(2)
    by (simp add: fdt_get_name_def strlen_holds not_less Let_def)
  have "length (enc (BeginNode nm)) < 2 ^ 31" using rw_blob_layout [OF b(1)] b(2) by (auto simp: rw_layout_def)
  then have "c_int (int (length nm) + 1) = int (length nm + 1)"
    using payload_fits [of "BeginNode nm"] c_int_nat [of "length nm + 1"] by (simp add: add.commute)
  moreover have "c_int (int (length nm')) = int (length nm')" "c_int (int (length nm') + 1) = int (length nm' + 1)"
    using assms(3) c_int_nat [of "length nm'"] c_int_nat [of "length nm' + 1"] by (simp_all add: add.commute)
  ultimately have "fdt_set_name fdt off nm' = Some
    (let (err, f) = fdt_splice_struct fdt (?p + 4) (FDT_TAGALIGN (int (length nm + 1))) (FDT_TAGALIGN (int (length nm' + 1)))
     in if err \<noteq> 0 then (err, f) else (0, store_bytes f (?p + 4) (nm' @ [0])))"
    by (simp only: fdt_set_name_def rw_header [OF b(1)] Let_def prod.case g bind.bind_lunit option.case) simp
  moreover have "stands_for (rw_strs s) (pre @ [BeginNode nm'] @ body) (node_calls ds nm' ps cs)"
    using assms(1) by (auto simp: node_here_def stands_simps intro!: stands_append)
  moreover have "length (encs (pre @ [BeginNode nm'] @ body)) \<le> length (encs (rw_tags s)) + call_size (Begin_node nm')"
    unfolding b(2) by simp
  ultimately show ?thesis
    using goes_to_retagged [OF b(1) node_here_stands [OF assms(1)] rw_rename [OF b refl assms(3,4)]] by blast
qed

text \<open>The end of a node.\<close>

fun tok_end :: "int \<Rightarrow> nat \<Rightarrow> fdt_token list \<Rightarrow> int" where
  "tok_end off d (BeginNode s # ts) = tok_end (off + int (length (enc (BeginNode s)))) (Suc d) ts"
| "tok_end off d (EndNode # ts) = (if d = 0 then off + int (length (enc EndNode)) else tok_end (off + int (length (enc EndNode))) (d - 1) ts)"
| "tok_end off d (End # ts) = - FDT_ERR_NOTFOUND"
| "tok_end off d (t # ts) = tok_end (off + int (length (enc t))) d ts"
| "tok_end off d [] = - FDT_ERR_NOTFOUND"

lemma tok_end_levels: "levels m ts \<Longrightarrow> tok_end off (d + m) (ts @ us) = tok_end (off + int (length (encs ts))) d us"
  by (induction m ts arbitrary: off rule: levels.induct) (auto simp: add.assoc)

lemma next_tag_depth:
  assumes "tokens_at fdt off (t # ts)" "0 \<le> d" "d \<le> off"
  shows "next_node_loop fdt off (Some d) =
    (case t of
       BeginNode s \<Rightarrow> Some (off, Some (d + 1))
     | EndNode \<Rightarrow> if d = 0 then Some (off + int (length (enc t)), Some (- 1)) else next_node_loop fdt (off + int (length (enc t))) (Some (d - 1))
     | End \<Rightarrow> Some (- FDT_ERR_NOTFOUND, Some d)
     | _ \<Rightarrow> next_node_loop fdt (off + int (length (enc t))) (Some d))"
proof -
  have "c_int (d + 1) = d + 1" "c_int (d - 1) = d - 1"
    using assms(2,3) tokens_at_small [OF assms(1)] by (auto intro!: c_int_id)
  then show ?thesis using assms(2) tokens_at_nonneg [OF assms(1)]
    by (subst next_node_loop.simps) (cases t; simp add: next_tag_token [OF assms(1)] tag_neqs)
qed

lemma node_end_tokens:
  assumes "tokens_at fdt off ts" "End \<in> set ts" "int d \<le> off"
  shows "do { (o', e) \<leftarrow> next_node_loop fdt off (Some (int d)); node_end_loop fdt o' (the e) } = Some (tok_end off d ts)"
  using assms
proof (induction off d ts rule: tok_end.induct [case_names node leave stop valued nop nil])
  case (node off d s ts)
  let ?off = "off + int (length (enc (BeginNode s)))"
  note tl = tokens_at_tl [OF node.prems(1)]
  have "node_end_loop fdt off (int d + 1) = do { (o', e) \<leftarrow> next_node_loop fdt ?off (Some (int d + 1)); node_end_loop fdt o' (the e) }"
    using check_node_token [OF node.prems(1)] tokens_at_nonneg [OF node.prems(1)] tokens_at_nonneg [OF tl]
    by (subst node_end_loop.simps) (simp add: fdt_next_node_def not_less)
  moreover have "int (Suc d) \<le> ?off" using node.prems(3) by (simp add: length_enc)
  ultimately show ?case using node.IH tl node.prems by (simp add: next_tag_depth [OF node.prems(1)] add.commute)
next
  case (leave off d ts)
  note tl = tokens_at_tl [OF leave.prems(1)]
  have "node_end_loop fdt (off + int (length (enc EndNode))) (- 1) = Some (off + int (length (enc EndNode)))"
    by (subst node_end_loop.simps) simp
  then show ?case using leave.IH tl leave.prems by (simp add: next_tag_depth [OF leave.prems(1)] of_nat_diff)
next
  case (stop off d ts)
  then show ?case by (simp add: next_tag_depth [OF stop.prems(1)]) (subst node_end_loop.simps, simp add: FDT_ERR_NOTFOUND_def)
next
  case (valued off d x v ts)
  then show ?case using tokens_at_tl [OF valued.prems(1)] by (simp add: next_tag_depth [OF valued.prems(1)])
next
  case (nop off d ts)
  then show ?case using tokens_at_tl [OF nop.prems(1)] by (simp add: next_tag_depth [OF nop.prems(1)])
qed simp

abbreviation kid_calls :: "dt_node list \<Rightarrow> sw_call list" where
  "kid_calls ks \<equiv> concat (map calls_of ks)"

lemma rw_node_end:
  assumes "node_here n s fdt pre nm body ds ps (kid_calls ks @ End_node # cs)" "off = int (length (encs pre))"
  obtains mid tail where "body = mid @ EndNode # tail" "stands_for (rw_strs s) tail cs"
    "fdt_node_end_offset fdt off = Some (off + int (length (encs (BeginNode nm # mid @ [EndNode]))))"
proof -
  have h: "stands_for (rw_strs s) body ((props_calls ps @ kid_calls ks) @ End_node # cs)" using assms(1) by (simp add: node_here_def)
  then obtain mid vs where v: "body = mid @ vs" "stands_for (rw_strs s) mid (props_calls ps @ kid_calls ks)" "stands_for (rw_strs s) vs (End_node # cs)"
    using stands_split by blast
  then obtain m t tail where t: "vs = replicate m Nop @ t # tail" "call_token (rw_strs s) End_node t" "stands_for (rw_strs s) tail cs"
    using stands_Cons by blast
  let ?mid = "mid @ replicate m Nop"
  have body: "body = ?mid @ EndNode # tail" using v(1) t(1,2) by simp
  have "stands_for (rw_strs s) ?mid (props_calls ps @ kid_calls ks)"
    using stands_append [OF v(2), of "replicate m Nop" "[]"] stands_nops [of "rw_strs s" m "[]" "[]"] by simp
  then have lev: "levels 0 ?mid" using stands_levels [of "rw_strs s" ?mid] call_levels_forest [of 0 ks "[]"] by simp
  have at: "tokens_at fdt off (BeginNode nm # body @ [End])" using node_here_token [OF assms(1)] by (simp only: assms(2))
  note tl = tokens_at_tl [OF at]
  let ?off = "off + int (length (enc (BeginNode nm)))"
  have "fdt_node_end_offset fdt off = do { (o', e) \<leftarrow> next_node_loop fdt ?off (Some 0); node_end_loop fdt o' (the e) }"
    using check_node_token [OF at] tokens_at_nonneg [OF at] tokens_at_nonneg [OF tl]
    by (simp add: fdt_node_end_offset_def, subst node_end_loop.simps) (simp add: fdt_next_node_def not_less)
  also have "\<dots> = Some (tok_end ?off 0 (body @ [End]))"
    using node_end_tokens [OF tl, of 0] tokens_at_nonneg [OF tl] by simp
  also have "tok_end ?off 0 (body @ [End]) = ?off + int (length (encs ?mid)) + int (length (enc EndNode))"
    using tok_end_levels [OF lev, of ?off 0 "EndNode # tail @ [End]"] body by simp
  finally have "fdt_node_end_offset fdt off = Some (off + int (length (encs (BeginNode nm # ?mid @ [EndNode]))))" by simp
  from that [OF body t(3) this] show thesis .
qed

lemma rw_remove_node:
  assumes "node_here n s fdt pre nm body ds ps (kid_calls ks @ End_node # cs)" "off = int (length (encs pre))"
  shows "(\<exists>r. fdt_del_node fdt off = Some r \<and> goes_to n s fdt 0 (node_calls ds nm ps (kid_calls ks @ End_node # cs)) (ds @ cs) r) \<and>
    (\<exists>r. fdt_nop_node fdt off = Some r \<and> goes_to n s fdt 0 (node_calls ds nm ps (kid_calls ks @ End_node # cs)) (ds @ cs) r)"
proof -
  obtain mid tail where m: "body = mid @ EndNode # tail" "stands_for (rw_strs s) tail cs"
    and e: "fdt_node_end_offset fdt off = Some (off + int (length (encs (BeginNode nm # mid @ [EndNode]))))" by (rule rw_node_end [OF assms])
  let ?mid = "BeginNode nm # mid @ [EndNode]"
  let ?p = "int (rw_struct_off s) + int (length (encs pre))" and ?k = "length (encs (BeginNode nm # mid @ [EndNode]))"
  have b: "rw_blob n s fdt" "rw_tags s = pre @ ?mid @ tail" "stands_for (rw_strs s) pre ds"
    using assms(1) m(1) by (simp_all add: node_here_def)
  note st = node_here_stands [OF assms(1)]
  have ptr: "raw_fdt_offset_ptr fdt off = ?p" using rw_ptr [OF b(1)] assms(2) by simp
  have nonneg: "\<not> off + int ?k < 0" using assms(2) by simp
  have "stands_for (rw_strs s) (pre @ tail) (ds @ cs)" by (rule stands_append [OF b(3) m(2)])
  moreover have "length (encs (pre @ tail)) \<le> length (encs (rw_tags s)) + 0" unfolding b(2) by simp
  ultimately have "goes_to n s fdt 0 (node_calls ds nm ps (kid_calls ks @ End_node # cs)) (ds @ cs) (fdt_splice_struct fdt ?p (int ?k) 0)"
    by (rule goes_to_retagged [OF b(1) st rw_delete_tokens [OF b(1,2) refl]])
  moreover have "fdt_del_node fdt off = Some (fdt_splice_struct fdt ?p (int ?k) 0)"
    unfolding fdt_del_node_def rw_header [OF b(1)] e Let_def prod.case bind.bind_lunit if_not_P [OF nonneg] ptr by simp
  ultimately have del: "\<exists>r. fdt_del_node fdt off = Some r \<and> goes_to n s fdt 0 (node_calls ds nm ps (kid_calls ks @ End_node # cs)) (ds @ cs) r" by blast
  have "stands_for (rw_strs s) (replicate (?k div 4) Nop @ tail) cs" using m(2) by (simp only: stands_nops)
  from stands_append [OF b(3) this] have "stands_for (rw_strs s) (pre @ replicate (?k div 4) Nop @ tail) (ds @ cs)" .
  moreover have "length (encs (pre @ replicate (?k div 4) Nop @ tail)) \<le> length (encs (rw_tags s)) + 0"
  proof -
    have "length (encs (replicate (?k div 4) Nop)) = ?k div 4 * 4" by (simp add: length_concat comp_def length_enc sum_list_replicate)
    then have "length (encs (replicate (?k div 4) Nop)) \<le> ?k" by (simp only: div_times_less_eq_dividend)
    then show ?thesis unfolding b(2) by simp
  qed
  moreover have "int ?k \<le> int ?k" "int ?k < int ?k + 4" by simp_all
  ultimately have "goes_to n s fdt 0 (node_calls ds nm ps (kid_calls ks @ End_node # cs)) (ds @ cs) (0, fdt_nop_region fdt ?p (int ?k))"
    by (intro goes_to_retagged [OF b(1) st rw_nops [OF b(1,2) refl]])
  moreover have "fdt_nop_node fdt off = Some (0, fdt_nop_region fdt ?p (int ?k))"
  proof -
    have "off \<le> struct_size fdt" "0 \<le> off"
      using rw_blob_layout [OF b(1)] b(2) assms(2) rw_fields(4) [OF b(1)] by (auto simp: rw_layout_def)
    then have "fdt_offset_ptr fdt off 0 = Some ?p"
      using fdt_offset_ptr_in [of off 0 fdt] ptr by simp
    then show ?thesis unfolding fdt_nop_node_def e bind.bind_lunit if_not_P [OF nonneg] by simp
  qed
  ultimately show ?thesis using del by blast
qed

section \<open>Adding a subnode\<close>

fun tok_sub :: "u8 list \<Rightarrow> int \<Rightarrow> nat \<Rightarrow> fdt_token list \<Rightarrow> int" where
  "tok_sub name off d (BeginNode s # ts) =
     (if d = 0 \<and> node_matches name s then off else tok_sub name (off + int (length (enc (BeginNode s)))) (Suc d) ts)"
| "tok_sub name off d (EndNode # ts) = (if d = 0 then - FDT_ERR_NOTFOUND else tok_sub name (off + int (length (enc EndNode))) (d - 1) ts)"
| "tok_sub name off d (End # ts) = - FDT_ERR_NOTFOUND"
| "tok_sub name off d (t # ts) = tok_sub name (off + int (length (enc t))) d ts"
| "tok_sub name off d [] = - FDT_ERR_NOTFOUND"

fun call_sub :: "u8 list \<Rightarrow> nat \<Rightarrow> sw_call list \<Rightarrow> bool" where
  "call_sub name d (Begin_node s # cs) \<longleftrightarrow> d = 0 \<and> node_matches name s \<or> call_sub name (Suc d) cs"
| "call_sub name d (End_node # cs) \<longleftrightarrow> d \<noteq> 0 \<and> call_sub name (d - 1) cs"
| "call_sub name d (Property k v # cs) \<longleftrightarrow> call_sub name d cs"
| "call_sub name d [] \<longleftrightarrow> False"

lemma stands_sub:
  "stands_for strs ts cs \<Longrightarrow> 0 \<le> off \<Longrightarrow>
   if call_sub name d cs then 0 \<le> tok_sub name off d (ts @ [End]) else tok_sub name off d (ts @ [End]) = - FDT_ERR_NOTFOUND"
proof (induction ts arbitrary: cs off d)
  case (Cons t ts)
  show ?case
  proof (cases t)
    case (BeginNode s)
    then obtain cs' where "cs = Begin_node s # cs'" "stands_for strs ts cs'" using Cons.prems(1) by (auto simp: stands_simps)
    then show ?thesis using Cons.IH [of cs' "off + int (length (enc (BeginNode s)))" "Suc d"] Cons.prems(2) BeginNode by auto
  next
    case EndNode
    then obtain cs' where "cs = End_node # cs'" "stands_for strs ts cs'" using Cons.prems(1) by (auto simp: stands_simps)
    then show ?thesis using Cons.IH [of cs' "off + int (length (enc EndNode))" "d - 1"] Cons.prems(2) EndNode by auto
  next
    case (Prop x v)
    then obtain k cs' where "cs = Property k v # cs'" "stands_for strs ts cs'" using Cons.prems(1) by (auto simp: stands_simps)
    then show ?thesis using Cons.IH [of cs' "off + int (length (enc (Prop x v)))" d] Cons.prems(2) Prop by auto
  next
    case Nop
    then show ?thesis using Cons.IH [of cs "off + int (length (enc Nop))" d] Cons.prems by auto
  next
    case End
    then show ?thesis using Cons.prems by simp
  qed
qed simp

lemma call_sub_props [simp]: "call_sub name d (props_calls ps @ cs) \<longleftrightarrow> call_sub name d cs"
  by (induction ps) auto

lemma call_sub_deep: "call_sub name (Suc d) (calls_of t @ cs) \<longleftrightarrow> call_sub name (Suc d) cs"
proof (induction t arbitrary: d cs)
  case (DtNode s ps kids)
  have "call_sub name (Suc d) (kid_calls ks @ cs) \<longleftrightarrow> call_sub name (Suc d) cs" if "set ks \<subseteq> set kids" for ks d cs
    using that DtNode by (induction ks) auto
  then show ?case by simp
qed

lemma call_sub_kids: "call_sub name 0 (kid_calls ks @ End_node # cs) \<longleftrightarrow> (\<exists>k\<in>set ks. node_matches name (node_name k))"
proof (induction ks)
  case (Cons k ks)
  have deep: "call_sub name (Suc 0) (kid_calls js @ us) \<longleftrightarrow> call_sub name (Suc 0) us" for js us
    by (induction js) (auto simp: call_sub_deep)
  show ?case using Cons deep by (cases k) simp
qed simp

lemma subnode_tokens:
  assumes "tokens_at fdt off ts" "End \<in> set ts" "int d \<le> off" "0 \<notin> set name" "length name < 2 ^ 31 - 1"
  shows "do { (o', e) \<leftarrow> next_node_loop fdt off (Some (int d)); subnode_loop fdt o' (the e) name } = Some (tok_sub name off d ts)"
  using assms
proof (induction name off d ts rule: tok_sub.induct [case_names node leave stop valued nop nil])
  case (node nam off d s ts)
  let ?off = "off + int (length (enc (BeginNode s)))"
  note tl = tokens_at_tl [OF node.prems(1)]
  have "subnode_loop fdt off (int d + 1) nam =
      (if d = 0 \<and> node_matches nam s then Some off
       else do { (o', e) \<leftarrow> next_node_loop fdt ?off (Some (int d + 1)); subnode_loop fdt o' (the e) nam })"
    using check_node_token [OF node.prems(1)] tokens_at_nonneg [OF node.prems(1)] tokens_at_nonneg [OF tl]
      nodename_eq_token [OF node.prems(1) node.prems(4,5)]
    by (subst subnode_loop.simps) (simp add: fdt_next_node_def not_less)
  moreover have "int (Suc d) \<le> ?off" using node.prems(3) by (simp add: length_enc)
  ultimately show ?case using node.IH tl node.prems by (simp add: next_tag_depth [OF node.prems(1)] add.commute)
next
  case (leave nam off d ts)
  note tl = tokens_at_tl [OF leave.prems(1)]
  have "subnode_loop fdt (off + int (length (enc EndNode))) (- 1) nam = Some (- FDT_ERR_NOTFOUND)"
    by (subst subnode_loop.simps) simp
  then show ?case using leave.IH tl leave.prems by (simp add: next_tag_depth [OF leave.prems(1)] of_nat_diff)
next
  case (stop nam off d ts)
  then show ?case by (simp add: next_tag_depth [OF stop.prems(1)]) (subst subnode_loop.simps, simp add: FDT_ERR_NOTFOUND_def)
next
  case (valued nam off d x v ts)
  then show ?case using tokens_at_tl [OF valued.prems(1)] by (simp add: next_tag_depth [OF valued.prems(1)])
next
  case (nop nam off d ts)
  then show ?case using tokens_at_tl [OF nop.prems(1)] by (simp add: next_tag_depth [OF nop.prems(1)])
qed simp

lemma rw_subnode_offset:
  assumes "node_here n s fdt pre nm body ds ps (kid_calls ks @ End_node # cs)" "off = int (length (encs pre))"
    and "0 \<notin> set name" "length name < 2 ^ 31 - 1"
  shows "\<exists>r. fdt_subnode_offset_namelen fdt off name = Some r \<and>
    (if \<exists>k\<in>set ks. node_matches name (node_name k) then 0 \<le> r else r = - FDT_ERR_NOTFOUND)"
proof -
  have b: "rw_blob n s fdt" "stands_for (rw_strs s) body (props_calls ps @ kid_calls ks @ End_node # cs)"
    using assms(1) by (simp_all add: node_here_def)
  have at: "tokens_at fdt off (BeginNode nm # body @ [End])" using node_here_token [OF assms(1)] by (simp only: assms(2))
  note tl = tokens_at_tl [OF at]
  let ?off = "off + int (length (enc (BeginNode nm)))"
  have "fdt_subnode_offset_namelen fdt off name = do { (o', e) \<leftarrow> next_node_loop fdt ?off (Some 0); subnode_loop fdt o' (the e) name }"
    using check_node_token [OF at] tokens_at_nonneg [OF at] tokens_at_nonneg [OF tl] rw_check [OF b(1)]
    by (simp add: fdt_subnode_offset_namelen_def, subst subnode_loop.simps) (simp add: fdt_next_node_def not_less)
  also have "\<dots> = Some (tok_sub name ?off 0 (body @ [End]))"
    using subnode_tokens [OF tl _ _ assms(3,4), of 0] tokens_at_nonneg [OF tl] by simp
  finally show ?thesis
    using stands_sub [OF b(2) tokens_at_nonneg [OF tl], of name 0] by (simp add: call_sub_kids)
qed

text \<open>The place behind the properties.\<close>

lemma behind_props:
  assumes "stands_for strs ts (props_calls ps @ cs)" "no_prop cs" "tokens_at fdt off (ts @ [End])"
  shows "\<exists>qs post. ts = qs @ post \<and> stands_for strs qs (props_calls ps) \<and> stands_for strs post cs \<and>
    add_subnode_loop fdt off = Some (off + int (length (encs qs)))"
  using assms
proof (induction ts arbitrary: ps off)
  case Nil
  then show ?case by (cases ps) auto
next
  case (Cons t ts)
  have next_tag: "fdt_next_tag fdt off = Some (tag_of t, off + int (length (enc t)))" using Cons.prems(3) by (simp add: next_tag_token)
  have tl: "tokens_at fdt (off + int (length (enc t))) (ts @ [End])" using tokens_at_tl Cons.prems(3) by simp
  show ?case
  proof (cases "tag_of t = FDT_PROP \<or> tag_of t = FDT_NOP")
    case False
    then have "ps = []" using Cons.prems(1) by (cases ps; cases t) (auto simp: stands_simps)
    moreover have "add_subnode_loop fdt off = Some off" using False by (subst add_subnode_loop.simps) (simp add: next_tag)
    ultimately show ?thesis using Cons.prems(1) by (intro exI [of _ "[]"] exI [of _ "t # ts"]) simp
  next
    case True
    have step: "add_subnode_loop fdt off = add_subnode_loop fdt (off + int (length (enc t)))"
      using True by (subst add_subnode_loop.simps) (auto simp: next_tag)
    show ?thesis
    proof (cases t)
      case (Prop x v)
      then have "ps \<noteq> []" using Cons.prems by (cases ps; cases cs) (auto simp: stands_simps)
      then obtain k' ps' where ps: "ps = (k', v) # ps'" and k': "0 \<notin> set k'" "string_in strs (unat x) k'" "stands_for strs ts (props_calls ps' @ cs)"
        using Cons.prems(1) Prop by (cases ps) (auto simp: stands_simps)
      obtain qs post where "ts = qs @ post" "stands_for strs qs (props_calls ps')" "stands_for strs post cs"
        "add_subnode_loop fdt (off + int (length (enc t))) = Some (off + int (length (enc t)) + int (length (encs qs)))"
        using Cons.IH [OF k'(3) Cons.prems(2) tl] by blast
      then show ?thesis using step Prop ps k' by (intro exI [of _ "t # qs"] exI [of _ post]) (simp add: stands_simps)
    next
      case Nop
      then have "stands_for strs ts (props_calls ps @ cs)" using Cons.prems(1) by simp
      then obtain qs post where "ts = qs @ post" "stands_for strs qs (props_calls ps)" "stands_for strs post cs"
        "add_subnode_loop fdt (off + int (length (enc t))) = Some (off + int (length (enc t)) + int (length (encs qs)))"
        using Cons.IH Cons.prems(2) tl by blast
      then show ?thesis using step Nop by (intro exI [of _ "t # qs"] exI [of _ post]) simp
    qed (use True in \<open>simp_all add: tag_neqs\<close>)
  qed
qed

lemma rw_add_subnode:
  assumes "node_here n s fdt pre nm body ds ps (kid_calls ks @ End_node # cs)" "off = int (length (encs pre))"
    and "0 \<notin> set name" "length name < 2 ^ 31 - 16"
  shows "if \<exists>k\<in>set ks. node_matches name (node_name k) then fdt_add_subnode fdt off name = Some (- FDT_ERR_EXISTS, fdt)
    else \<exists>r. fdt_add_subnode fdt off name = Some r \<and>
      goes_to n s fdt (call_size (Begin_node name) + 4) (node_calls ds nm ps (kid_calls ks @ End_node # cs))
        (node_calls ds nm ps (kid_calls (DtNode name [] [] # ks) @ End_node # cs)) r"
proof -
  have b: "rw_blob n s fdt" "stands_for (rw_strs s) body (props_calls ps @ kid_calls ks @ End_node # cs)" "no_prop (kid_calls ks @ End_node # cs)"
    "stands_for (rw_strs s) pre ds" "rw_tags s = pre @ BeginNode nm # body"
    using assms(1) by (simp_all add: node_here_def)
  have len: "length name < 2 ^ 31 - 1" using assms(4) by simp
  obtain r where sub: "fdt_subnode_offset_namelen fdt off name = Some r"
    "if \<exists>k\<in>set ks. node_matches name (node_name k) then 0 \<le> r else r = - FDT_ERR_NOTFOUND"
    using rw_subnode_offset [OF assms(1-3) len] by blast
  note op = fdt_add_subnode_def fdt_add_subnode_namelen_def rw_header [OF b(1)] sub(1)
  show ?thesis
  proof (cases "\<exists>k\<in>set ks. node_matches name (node_name k)")
    case True
    then show ?thesis using sub(2) by (simp add: op)
  next
    case False
    then have r: "r = - FDT_ERR_NOTFOUND" using sub(2) by simp
    have at: "tokens_at fdt off (BeginNode nm # body @ [End])" using node_here_token [OF assms(1)] by (simp only: assms(2))
    note tl = tokens_at_tl [OF at]
    let ?off = "off + int (length (enc (BeginNode nm)))"
    obtain qs post where q: "body = qs @ post" "stands_for (rw_strs s) qs (props_calls ps)" "stands_for (rw_strs s) post (kid_calls ks @ End_node # cs)"
      "add_subnode_loop fdt ?off = Some (?off + int (length (encs qs)))" using behind_props [OF b(2,3) tl] by blast
    let ?pre = "pre @ BeginNode nm # qs" and ?o = "?off + int (length (encs qs))"
    let ?p = "int (rw_struct_off s) + int (length (encs ?pre))"
    have ptr: "raw_fdt_offset_ptr fdt ?o = ?p" using rw_ptr [OF b(1)] assms(2) by simp
    have tags: "rw_tags s = ?pre @ post" using b(5) q(1) by simp
    have c: "c_int (int (length name) + 1) = int (length name + 1)"
      using assms(4) c_int_nat [of "length name + 1"] by (simp add: add.commute)
    define m where "m = FDT_TAGALIGN (int (length name + 1))"
    define k where "k = c_int (4 + m + FDT_TAGSIZE)"
    let ?r = "let (err, f) = fdt_splice_struct fdt ?p 0 k
      in if err \<noteq> 0 then (err, f)
         else (0, put32 (store_bytes (store_bytes (put32 f ?p FDT_BEGIN_NODE) (?p + 4) (replicate (nat m) 0)) (?p + 4) name)
           (?p + k - FDT_TAGSIZE) FDT_END_NODE)"
    let ?cs = "node_calls ds nm ps (kid_calls ks @ End_node # cs)" and ?cs' = "node_calls ds nm ps (kid_calls (DtNode name [] [] # ks) @ End_node # cs)"
    have "stands_for (rw_strs s) (pre @ [BeginNode nm] @ qs @ [BeginNode name, EndNode] @ post)
      (ds @ [Begin_node nm] @ props_calls ps @ [Begin_node name, End_node] @ kid_calls ks @ End_node # cs)"
      using b(4) q(2,3) by (intro stands_append) (auto simp: stands_simps)
    then have st: "stands_for (rw_strs s) (?pre @ [BeginNode name, EndNode] @ post) ?cs'" by simp
    have sz: "length (encs (?pre @ [BeginNode name, EndNode] @ post)) \<le> length (encs (rw_tags s)) + (call_size (Begin_node name) + 4)"
      unfolding tags by (simp add: length_enc [of EndNode])
    have g: "goes_to n s fdt (call_size (Begin_node name) + 4) ?cs ?cs' ?r"
      by (rule goes_to_retagged [OF b(1) node_here_stands [OF assms(1)] rw_insert_node [OF b(1) tags refl assms(4,3) m_def k_def] st sz])
    obtain e f where ef: "fdt_splice_struct fdt ?p 0 k = (e, f)" by force
    let ?g = "put32 (store_bytes (store_bytes (put32 f ?p FDT_BEGIN_NODE) (?p + 4) (replicate (nat m) 0)) (?p + 4) name) (?p + k - FDT_TAGSIZE) FDT_END_NODE"
    have "fdt_add_subnode fdt off name = Some (if e \<noteq> 0 then (e, f) else (?o, ?g))"
    proof -
      have neg: "(0 \<le> r) = False" "(r \<noteq> - FDT_ERR_NOTFOUND) = False" unfolding r by (simp_all add: FDT_ERR_NOTFOUND_def)
      show ?thesis
        by (simp only: op bind.bind_lunit Let_def prod.case if_False neg next_tag_token [OF at] q(4) c m_def [symmetric]
            k_def [symmetric] ptr ef) simp
    qed
    moreover have "0 \<le> ?o" using assms(2) by simp
    ultimately show ?thesis unfolding if_not_P [OF False] using g ef goes_to_code [of n s fdt _ ?cs ?cs' ?g ?o] by (cases "e = 0") auto
  qed
qed

end
