(* ===== verification/Fdt_Rw_Edit.thy ===== *)
theory Fdt_Rw_Edit
  imports Fdt_Rw_Ops
begin

text \<open>
  A client that edits a blob, and the trees and reservations it makes: every edit does on the blob what a
  function on trees does.
\<close>

section \<open>Parts of a forest\<close>

text \<open>The node with number \<open>i\<close> in preorder, and the forest with other trees in its place.\<close>

fun subtree :: "nat \<Rightarrow> dt_node list \<Rightarrow> dt_node" where
  "subtree i [] = DtNode [] [] []"
| "subtree i (DtNode s ps ks # ts) =
     (if i = 0 then DtNode s ps ks
      else if i \<le> length (concat (map preorder ks)) then subtree (i - 1) ks
      else subtree (i - 1 - length (concat (map preorder ks))) ts)"

fun graft :: "dt_node list \<Rightarrow> nat \<Rightarrow> dt_node list \<Rightarrow> dt_node list" where
  "graft us i [] = []"
| "graft us i (DtNode s ps ks # ts) =
     (if i = 0 then us @ ts
      else if i \<le> length (concat (map preorder ks)) then DtNode s ps (graft us (i - 1) ks) # ts
      else DtNode s ps ks # graft us (i - 1 - length (concat (map preorder ks))) ts)"

lemma length_call_visits: "length (call_visits (cs @ ds)) = length (call_visits cs) + length (call_visits ds)"
  by (induction cs rule: call_visits.induct) auto

lemma graft_split:
  "i < length (concat (map preorder ts)) \<Longrightarrow>
   \<exists>ds cs. kid_calls ts = ds @ calls_of (subtree i ts) @ cs \<and> length (call_visits ds) = i \<and>
     (\<forall>us. kid_calls (graft us i ts) = ds @ kid_calls us @ cs)"
proof (induction i ts rule: subtree.induct)
  case (2 i s ps ks ts)
  let ?k = "length (concat (map preorder ks))"
  consider "i = 0" | "i \<noteq> 0" "i \<le> ?k" | "i \<noteq> 0" "\<not> i \<le> ?k" by blast
  then show ?case
  proof cases
    case 1
    then show ?thesis by (intro exI [of _ "[]"] exI [of _ "kid_calls ts"]) simp
  next
    case inside: 2
    then have "i - 1 < ?k" by simp
    from "2.IH"(1) [OF inside this] obtain ds cs where d: "kid_calls ks = ds @ calls_of (subtree (i - 1) ks) @ cs" "length (call_visits ds) = i - 1"
      "\<And>us. kid_calls (graft us (i - 1) ks) = ds @ kid_calls us @ cs" by blast
    have "length (call_visits (Begin_node s # props_calls ps @ ds)) = i" using d(2) inside(1) by simp
    then show ?thesis using inside d(1,3)
      by (intro exI [of _ "Begin_node s # props_calls ps @ ds"] exI [of _ "cs @ End_node # kid_calls ts"]) simp
  next
    case behind: 3
    then have "i - 1 - ?k < length (concat (map preorder ts))" using "2.prems" by simp
    from "2.IH"(2) [OF behind this] obtain ds cs where d: "kid_calls ts = ds @ calls_of (subtree (i - 1 - ?k) ts) @ cs" "length (call_visits ds) = i - 1 - ?k"
      "\<And>us. kid_calls (graft us (i - 1 - ?k) ts) = ds @ kid_calls us @ cs" by blast
    have "length (call_visits (calls_of (DtNode s ps ks) @ ds)) = i"
      using d(2) behind call_visits_calls [of "DtNode s ps ks" ds] by simp
    then show ?thesis using behind d(1,3)
      by (intro exI [of _ "calls_of (DtNode s ps ks) @ ds"] exI [of _ cs]) simp
  qed
qed simp

lemma no_prop_kids: "no_prop (kid_calls ks @ End_node # cs)"
proof (cases ks)
  case (Cons k ks')
  then show ?thesis by (cases k) simp
qed simp

lemma rw_locate:
  assumes "rw_blob n s fdt" "stands_for (rw_strs s) (rw_tags s) (kid_calls ts)" "i < length (concat (map preorder ts))"
    and "subtree i ts = DtNode nm ps ks"
  obtains off pre body ds cs where "nth_node fdt i = Some off" "off = int (length (encs pre))"
    "node_here n s fdt pre nm body ds ps (kid_calls ks @ End_node # cs)"
    "kid_calls ts = node_calls ds nm ps (kid_calls ks @ End_node # cs)" "\<And>us. kid_calls (graft us i ts) = ds @ kid_calls us @ cs"
proof -
  obtain ds cs where d: "kid_calls ts = ds @ calls_of (subtree i ts) @ cs" "length (call_visits ds) = i"
    "\<And>us. kid_calls (graft us i ts) = ds @ kid_calls us @ cs" using graft_split [OF assms(3)] by blast
  have calls: "kid_calls ts = node_calls ds nm ps (kid_calls ks @ End_node # cs)" using d(1) assms(4) by simp
  then obtain pre body where t: "rw_tags s = pre @ BeginNode nm # body" "stands_for (rw_strs s) pre ds"
    "stands_for (rw_strs s) body (props_calls ps @ kid_calls ks @ End_node # cs)"
    using assms(2) stands_node [of "rw_strs s" "rw_tags s" ds nm] by metis
  have "i = length (visits (tok_name (rw_strs s)) 0 pre)" using stands_begins [OF t(2)] d(2) by simp
  then have "fst (visits (tok_name (rw_strs s)) 0 (rw_tags s @ [End]) ! i) = int (length (encs pre))"
    using visits_at [OF stands_no_End [OF t(2)], of i "tok_name (rw_strs s)" 0 nm "body @ [End]"] t(1) by simp
  then have "nth_node fdt i = Some (int (length (encs pre)))" using rw_nth_node [OF assms(1,2), of i] assms(3) by simp
  moreover have "node_here n s fdt pre nm body ds ps (kid_calls ks @ End_node # cs)"
    using assms(1) t no_prop_kids by (simp add: node_here_def)
  ultimately show thesis using that calls d(3) by blast
qed

section \<open>Edits\<close>

datatype node_edit =
    Set_prop "u8 list" "u8 list"
  | Append_prop "u8 list" "u8 list"
  | Set_in_place "u8 list" "u8 list"
  | Del_prop "u8 list"
  | Nop_prop "u8 list"
  | Set_name "u8 list"
  | Add_subnode "u8 list"
  | Del_node
  | Nop_node

datatype fdt_edit =
    At nat node_edit
  | Add_rsv u64 u64
  | Del_rsv nat

fun run_node_edit :: "node_edit \<Rightarrow> int \<Rightarrow> blob \<Rightarrow> (int \<times> blob) option" where
  "run_node_edit (Set_prop k v) off fdt = fdt_setprop fdt off k v"
| "run_node_edit (Append_prop k v) off fdt = fdt_appendprop fdt off k v"
| "run_node_edit (Set_in_place k v) off fdt = fdt_setprop_inplace fdt off k v"
| "run_node_edit (Del_prop k) off fdt = fdt_delprop fdt off k"
| "run_node_edit (Nop_prop k) off fdt = fdt_nop_property fdt off k"
| "run_node_edit (Set_name s) off fdt = fdt_set_name fdt off s"
| "run_node_edit (Add_subnode s) off fdt = fdt_add_subnode fdt off s"
| "run_node_edit Del_node off fdt = fdt_del_node fdt off"
| "run_node_edit Nop_node off fdt = fdt_nop_node fdt off"

text \<open>The client looks for the node by its number and does nothing when there is none.\<close>

fun run_edit :: "fdt_edit \<Rightarrow> blob \<Rightarrow> (int \<times> blob) option" where
  "run_edit (At i e) fdt = do {
     off \<leftarrow> nth_node fdt i;
     if off < 0 then Some (off, fdt) else run_node_edit e off fdt
   }"
| "run_edit (Add_rsv a b) fdt = fdt_add_mem_rsv fdt a b"
| "run_edit (Del_rsv i) fdt = fdt_del_mem_rsv fdt (int i)"

fun run_edits :: "fdt_edit list \<Rightarrow> blob \<Rightarrow> (int \<times> blob) option" where
  "run_edits [] fdt = Some (0, fdt)"
| "run_edits (e # es) fdt = do {
     (r, fdt) \<leftarrow> run_edit e fdt;
     if r < 0 then Some (r, fdt) else run_edits es fdt
   }"

text \<open>What the edits make of a tree: the code and the trees in its place.\<close>

fun edit_node :: "node_edit \<Rightarrow> dt_node \<Rightarrow> int \<times> dt_node list" where
  "edit_node (Set_prop k v) (DtNode s ps ks) = (0, [DtNode s (put_prop k v ps) ks])"
| "edit_node (Append_prop k v) (DtNode s ps ks) = (0, [DtNode s (append_prop k v ps) ks])"
| "edit_node (Set_in_place k v) (DtNode s ps ks) =
     (case map_of ps k of
        None \<Rightarrow> (- FDT_ERR_NOTFOUND, [])
      | Some w \<Rightarrow> if length w \<noteq> length v then (- FDT_ERR_NOSPACE, []) else (0, [DtNode s (change_prop k (\<lambda>w. [(k, v)]) ps) ks]))"
| "edit_node (Del_prop k) (DtNode s ps ks) =
     (if k \<in> fst ` set ps then (0, [DtNode s (change_prop k (\<lambda>w. []) ps) ks]) else (- FDT_ERR_NOTFOUND, []))"
| "edit_node (Nop_prop k) (DtNode s ps ks) =
     (if k \<in> fst ` set ps then (0, [DtNode s (change_prop k (\<lambda>w. []) ps) ks]) else (- FDT_ERR_NOTFOUND, []))"
| "edit_node (Set_name s') (DtNode s ps ks) = (0, [DtNode s' ps ks])"
| "edit_node (Add_subnode s') (DtNode s ps ks) =
     (if \<exists>k\<in>set ks. node_matches s' (node_name k) then (- FDT_ERR_EXISTS, []) else (0, [DtNode s ps (DtNode s' [] [] # ks)]))"
| "edit_node Del_node t = (0, [])"
| "edit_node Nop_node t = (0, [])"

type_synonym dt_state = "(u64 \<times> u64) list \<times> dt_node list"

fun apply_edit :: "fdt_edit \<Rightarrow> dt_state \<Rightarrow> int \<times> dt_state" where
  "apply_edit (At i e) (rs, ts) =
     (if i < length (concat (map preorder ts)) then
        (case edit_node e (subtree i ts) of (c, us) \<Rightarrow> if c = 0 then (0, (rs, graft us i ts)) else (c, (rs, ts)))
      else (- FDT_ERR_NOTFOUND, (rs, ts)))"
| "apply_edit (Add_rsv a b) (rs, ts) = (0, (if b = 0 then rs else rs @ [(a, b)], ts))"
| "apply_edit (Del_rsv i) (rs, ts) =
     (if i < length rs then (0, (take i rs @ drop (Suc i) rs, ts)) else (- FDT_ERR_NOTFOUND, (rs, ts)))"

fun apply_edits :: "fdt_edit list \<Rightarrow> dt_state \<Rightarrow> int \<times> dt_state" where
  "apply_edits [] st = (0, st)"
| "apply_edits (e # es) st = (case apply_edit e st of (c, st') \<Rightarrow> if c < 0 then (c, st') else apply_edits es st')"

text \<open>The bytes an edit may take, and the edits whose names and lengths the functions can handle.\<close>

fun node_edit_size :: "node_edit \<Rightarrow> nat" where
  "node_edit_size (Set_prop k v) = call_size (Property k v)"
| "node_edit_size (Append_prop k v) = call_size (Property k v)"
| "node_edit_size (Set_name s) = call_size (Begin_node s)"
| "node_edit_size (Add_subnode s) = call_size (Begin_node s) + 4"
| "node_edit_size _ = 0"

fun edit_size :: "fdt_edit \<Rightarrow> nat" where
  "edit_size (At i e) = node_edit_size e"
| "edit_size (Add_rsv a b) = 16"
| "edit_size (Del_rsv i) = 0"

fun wf_node_edit :: "nat \<Rightarrow> node_edit \<Rightarrow> bool" where
  "wf_node_edit n (Set_prop k v) \<longleftrightarrow> 0 \<notin> set k \<and> length k < 2 ^ 31 - 1 \<and> length v < 2 ^ 31 - 16"
| "wf_node_edit n (Append_prop k v) \<longleftrightarrow> 0 \<notin> set k \<and> length k < 2 ^ 31 - 1 \<and> n + length v < 2 ^ 31 - 16"
| "wf_node_edit n (Set_name s) \<longleftrightarrow> 0 \<notin> set s \<and> length s < 2 ^ 31 - 16"
| "wf_node_edit n (Add_subnode s) \<longleftrightarrow> 0 \<notin> set s \<and> length s < 2 ^ 31 - 16"
| "wf_node_edit n _ \<longleftrightarrow> True"

fun wf_edit :: "nat \<Rightarrow> fdt_edit \<Rightarrow> bool" where
  "wf_edit n (At i e) \<longleftrightarrow> wf_node_edit n e"
| "wf_edit n _ \<longleftrightarrow> True"

section \<open>Refinement\<close>

text \<open>A blob in a buffer of \<open>n\<close> bytes that can be edited, with its reservations and trees.\<close>

definition editable :: "nat \<Rightarrow> blob \<Rightarrow> dt_state \<Rightarrow> bool" where
  "editable n fdt st \<longleftrightarrow> (\<exists>s. rw_blob n s fdt \<and> rw_rsv s = fst st \<and> stands_for (rw_strs s) (rw_tags s) (kid_calls (snd st)))"

lemma run_node_edit_goes:
  assumes "node_here n s fdt pre nm body ds ps (kid_calls ks @ End_node # cs)" "off = int (length (encs pre))" "wf_node_edit n e"
    and "edit_node e (DtNode nm ps ks) = (c, us)"
  shows "\<exists>r. run_node_edit e off fdt = Some r \<and>
    (if c = 0 then goes_to n s fdt (node_edit_size e) (node_calls ds nm ps (kid_calls ks @ End_node # cs)) (ds @ kid_calls us @ cs) r
     else r = (c, fdt) \<and> c < 0)"
proof (cases e)
  case (Set_prop k v)
  then show ?thesis using rw_setprop [OF assms(1,2), of v k] assms(3,4) by auto
next
  case (Append_prop k v)
  then show ?thesis using rw_appendprop [OF assms(1,2), of v k] assms(3,4) by auto
next
  case (Set_in_place k v)
  then show ?thesis using rw_setprop_inplace [OF assms(1,2), of k v] assms(4)
    by (auto simp: FDT_ERR_NOTFOUND_def FDT_ERR_NOSPACE_def split: option.splits if_splits)
next
  case (Del_prop k)
  then show ?thesis using rw_delprop [OF assms(1,2), of k] assms(4) by (auto simp: FDT_ERR_NOTFOUND_def split: if_splits)
next
  case (Nop_prop k)
  then show ?thesis using rw_nop_property [OF assms(1,2), of k] assms(4) by (auto simp: FDT_ERR_NOTFOUND_def split: if_splits)
next
  case (Set_name s')
  then show ?thesis using rw_set_name [OF assms(1,2), of s'] assms(3,4) by auto
next
  case (Add_subnode s')
  then show ?thesis using rw_add_subnode [OF assms(1,2), of s'] assms(3,4) by (auto simp: FDT_ERR_EXISTS_def split: if_splits)
next
  case Del_node
  then show ?thesis using rw_remove_node [OF assms(1,2)] assms(4) by auto
next
  case Nop_node
  then show ?thesis using rw_remove_node [OF assms(1,2)] assms(4) by auto
qed

lemma run_edit_step:
  assumes "editable n fdt st" "wf_edit n e" "apply_edit e st = (c, st')"
  shows "\<exists>r g. run_edit e fdt = Some (r, g) \<and> changed 0 (int n) fdt g \<and> fdt_data_size g \<le> fdt_data_size fdt + int (edit_size e) \<and>
    (0 \<le> r \<and> c = 0 \<and> editable n g st' \<or> r = c \<and> c < 0 \<and> g = fdt \<and> st' = st \<or>
     r = - FDT_ERR_NOSPACE \<and> int n < fdt_data_size fdt + int (edit_size e) \<and> editable n g st)"
proof -
  obtain rs ts where st: "st = (rs, ts)" by force
  obtain s where s: "rw_blob n s fdt" "rw_rsv s = rs" "stands_for (rw_strs s) (rw_tags s) (kid_calls ts)"
    using assms(1) by (auto simp: editable_def st)
  note size = rw_data_size [OF s(1)]
  show ?thesis
  proof (cases e)
    case (At i ne)
    show ?thesis
    proof (cases "i < length (concat (map preorder ts))")
      case False
      then have "run_edit e fdt = Some (- FDT_ERR_NOTFOUND, fdt)" "c = - FDT_ERR_NOTFOUND" "st' = st"
        using rw_nth_node [OF s(1,3), of i] assms(3) At by (auto simp: st FDT_ERR_NOTFOUND_def)
      then show ?thesis by (simp add: FDT_ERR_NOTFOUND_def)
    next
      case True
      obtain nm ps ks where u: "subtree i ts = DtNode nm ps ks" by (cases "subtree i ts")
      obtain off pre body ds cs where l: "nth_node fdt i = Some off" "off = int (length (encs pre))"
        "node_here n s fdt pre nm body ds ps (kid_calls ks @ End_node # cs)"
        "kid_calls ts = node_calls ds nm ps (kid_calls ks @ End_node # cs)" "\<And>us. kid_calls (graft us i ts) = ds @ kid_calls us @ cs"
        using rw_locate [OF s(1,3) True u] by blast
      obtain c' us where en: "edit_node ne (DtNode nm ps ks) = (c', us)" by force
      have wf: "wf_node_edit n ne" using assms(2) At by simp
      have run: "run_edit e fdt = run_node_edit ne off fdt" using At l(1,2) by simp
      obtain r g where r: "run_node_edit ne off fdt = Some (r, g)"
        "if c' = 0 then goes_to n s fdt (node_edit_size ne) (kid_calls ts) (ds @ kid_calls us @ cs) (r, g) else (r, g) = (c', fdt) \<and> c' < 0"
        using run_node_edit_goes [OF l(3,2) wf en] l(4) by auto
      show ?thesis
      proof (cases "c' = 0")
        case c: True
        then have st': "c = 0" "st' = (rs, graft us i ts)" using assms(3) At True u en by (auto simp: st)
        from r(2) c have g: "goes_to n s fdt (node_edit_size ne) (kid_calls ts) (kid_calls (graft us i ts)) (r, g)" by (simp add: l(5))
        then obtain s' where s': "rw_blob n s' g" "rw_rsv s' = rw_rsv s" "rw_data s' \<le> rw_data s + node_edit_size ne"
          "0 \<le> r \<and> stands_for (rw_strs s') (rw_tags s') (kid_calls (graft us i ts)) \<or>
           r = - FDT_ERR_NOSPACE \<and> n < rw_data s + node_edit_size ne \<and> stands_for (rw_strs s') (rw_tags s') (kid_calls ts)"
          and ch: "changed 0 (int n) fdt g" by (auto simp: goes_to_def)
        have "fdt_data_size g \<le> fdt_data_size fdt + int (edit_size e)" using s'(3) size rw_data_size [OF s'(1)] At by simp
        moreover have "0 \<le> r \<and> editable n g st' \<or> r = - FDT_ERR_NOSPACE \<and> int n < fdt_data_size fdt + int (edit_size e) \<and> editable n g st"
          using s' s(2) size At unfolding editable_def st st'(2) by auto
        ultimately show ?thesis using run r(1) ch st'(1) by (intro exI [of _ r] exI [of _ g]) auto
      next
        case False
        then have "r = c'" "g = fdt" "c' < 0" "c = c'" "st' = st" using r(2) assms(3) At True u en by (auto simp: st)
        then show ?thesis using run r(1) by (intro exI [of _ r] exI [of _ g]) auto
      qed
    qed
  next
    case (Add_rsv a b)
    let ?s = "if b = 0 then rw_rersv (rw_rsv s) a 0 1 s else rw_rersv (rw_rsv s @ [(a, b)]) (rw_end_addr s) 0 1 s"
    have st': "c = 0" "st' = (if b = 0 then rs else rs @ [(a, b)], ts)" using assms(3) Add_rsv by (auto simp: st)
    note add = rw_add_mem_rsv [OF s(1) refl, of a b]
    show ?thesis
    proof (cases "rw_data s + 16 \<le> n")
      case True
      then obtain g where g: "fdt_add_mem_rsv fdt a b = Some (0, g)" "rw_blob n ?s g" "changed 0 (int n) fdt g" using add by auto
      have "editable n g st'" unfolding editable_def st'(2) using g(2) s(2,3) by (intro exI [of _ ?s]) simp
      moreover have "rw_data ?s \<le> rw_data s + 16" by (simp add: rw_rersv_def)
      ultimately show ?thesis using g size rw_data_size [OF g(2)] Add_rsv st'(1) by (intro exI [of _ 0] exI [of _ g]) simp
    next
      case False
      then have "fdt_add_mem_rsv fdt a b = Some (- FDT_ERR_NOSPACE, fdt)" using add by simp
      then show ?thesis using False size Add_rsv assms(1) by (intro exI [of _ "- FDT_ERR_NOSPACE"] exI [of _ fdt]) simp
    qed
  next
    case (Del_rsv i)
    show ?thesis
    proof (cases "i < length rs")
      case True
      then have st': "c = 0" "st' = (take i rs @ drop (Suc i) rs, ts)" using assms(3) Del_rsv by (auto simp: st)
      let ?s = "rw_rersv (take i (rw_rsv s) @ drop (Suc i) (rw_rsv s)) (rw_end_addr s) 1 0 s"
      obtain g where g: "fdt_del_mem_rsv fdt (int i) = Some (0, g)" "changed 0 (int n) fdt g" "rw_blob n ?s g"
        using rw_del_mem_rsv [OF s(1), of i] True s(2) by auto
      have "editable n g st'" unfolding editable_def st'(2) using g(3) s(2,3) by (intro exI [of _ ?s]) simp
      moreover have "rw_data ?s \<le> rw_data s" by (simp add: rw_rersv_def)
      ultimately show ?thesis using g size rw_data_size [OF g(3)] Del_rsv st'(1) by (intro exI [of _ 0] exI [of _ g]) simp
    next
      case False
      then show ?thesis using rw_del_mem_rsv_none [OF s(1), of "int i"] s(2) Del_rsv assms(3)
        by (simp add: st FDT_ERR_NOTFOUND_def)
    qed
  qed
qed

text \<open>With room for all of them, a sequence of edits ends with the code and the state of the edits on trees.\<close>

lemma apply_edit_code: "apply_edit e st = (c, st') \<Longrightarrow> c \<noteq> 0 \<Longrightarrow> c < 0"
proof (cases e)
  case (At i ne)
  assume a: "apply_edit e st = (c, st')" "c \<noteq> 0"
  obtain rs ts where st: "st = (rs, ts)" by force
  obtain nm ps ks where u: "subtree i ts = DtNode nm ps ks" by (cases "subtree i ts")
  show ?thesis using a unfolding At st apply_edit.simps u
    by (cases ne) (auto simp: FDT_ERR_NOTFOUND_def FDT_ERR_NOSPACE_def FDT_ERR_EXISTS_def split: if_splits option.splits)
qed (cases st; auto simp: FDT_ERR_NOTFOUND_def split: if_splits)+

lemma run_edits_steps:
  assumes "editable n fdt st" "list_all (wf_edit n) es" "fdt_data_size fdt + int (sum_list (map edit_size es)) \<le> int n"
    and "apply_edits es st = (c, st')"
  shows "\<exists>g. run_edits es fdt = Some (c, g) \<and> changed 0 (int n) fdt g \<and> editable n g st' \<and>
    fdt_data_size g \<le> fdt_data_size fdt + int (sum_list (map edit_size es))"
  using assms
proof (induction es arbitrary: fdt st)
  case (Cons e es)
  obtain c1 st1 where a: "apply_edit e st = (c1, st1)" by (cases "apply_edit e st")
  obtain r g where g: "run_edit e fdt = Some (r, g)" "changed 0 (int n) fdt g" "fdt_data_size g \<le> fdt_data_size fdt + int (edit_size e)"
    "0 \<le> r \<and> c1 = 0 \<and> editable n g st1 \<or> r = c1 \<and> c1 < 0 \<and> g = fdt \<and> st1 = st \<or>
     r = - FDT_ERR_NOSPACE \<and> int n < fdt_data_size fdt + int (edit_size e) \<and> editable n g st"
    using run_edit_step [OF Cons.prems(1) _ a] Cons.prems(2) by auto
  then consider "0 \<le> r" "c1 = 0" "editable n g st1" | "r = c1" "c1 < 0" "g = fdt" "st1 = st" using Cons.prems(3) by auto
  then show ?case
  proof cases
    case 1
    then have "apply_edits es st1 = (c, st')" using Cons.prems(4) a by simp
    with Cons.IH [OF 1(3)] Cons.prems(2,3) g(3) obtain h where "run_edits es g = Some (c, h)" "changed 0 (int n) g h" "editable n h st'"
      "fdt_data_size h \<le> fdt_data_size g + int (sum_list (map edit_size es))" by auto
    then show ?thesis using g(1,3) 1(1) changed_trans [OF g(2)] by (intro exI [of _ h]) (auto simp: not_less)
  next
    case 2
    then show ?thesis using g(1) Cons.prems(1,4) a by simp
  qed
qed simp

end
