(* ===== verification/Fdt_Rw_Open.thy ===== *)
theory Fdt_Rw_Open
  imports Fdt_Rw_Edit
begin

text \<open>
  Where blobs that can be changed come from, and how they are put together again: \<open>fdt_open_into\<close> and
  \<open>fdt_create_empty_tree\<close>, \<open>fdt_pack\<close>, and the copying of the blocks one behind the other.
\<close>

section \<open>Memory seen from a pointer\<close>

lemma be32_view: "be32 (view m a) p = be32 m (a + p)"
  by (simp add: be32_def view_def add.assoc)

lemma holds_view: "holds (view m a) p bs \<longleftrightarrow> holds m (a + p) bs"
  by (simp add: holds_def view_def add.assoc)

lemma tokens_view: "holds_tokens (view m a) p ts \<longleftrightarrow> holds_tokens m (a + p) ts"
  by (induction ts arbitrary: p) (simp_all add: holds_view add.assoc)

lemma view_0 [simp]: "view m 0 = m"
  by (simp add: view_def)

lemma view_through [simp]: "view (through a g m) a = g (view m a)"
  by (simp add: view_def through_def)

lemma through_0 [simp]: "through 0 g m = g m"
  by (simp add: through_def)

lemma through_put32: "through a (\<lambda>f. put32 f p v) m = put32 m (a + p) v"
  by (auto simp: through_def view_def put32_def store_bytes_def fun_eq_iff algebra_simps)

lemma through_view: "through a (\<lambda>_. view m a) m = m"
  by (simp add: through_def view_def)

lemma moved_memmove_step:
  "moved 0 p n f g \<Longrightarrow> p + n \<le> dst \<or> dst + int k \<le> p \<Longrightarrow> moved 0 p n f (memmove g dst src k)"
  by (erule moved_trans [where d = 0 and e = 0, simplified]) simp

lemma be32_memmove_out: "q + 4 \<le> dst \<or> dst + int k \<le> q \<Longrightarrow> be32 (memmove m dst src k) q = be32 m q"
  using moved_be32 [OF moved_memmove_out [of q 4 dst k m src]] by simp

lemma moved_then_put32: "moved d p n f g \<Longrightarrow> q + 4 \<le> p + d \<Longrightarrow> moved d p n f (put32 g q v)"
  by (erule moved_step_0) simp

section \<open>Packing the blocks\<close>

text \<open>
  The sources are at \<open>A\<close>, \<open>B\<close> and \<open>C\<close> in the old blob; a block must not be overwritten before it is copied. The
  old blob is the new one, or they are disjoint.
\<close>

lemma packblocks:
  assumes "uint (be32 m (old + 16)) = A" "uint (be32 m (old + 8)) = B" "uint (be32 m (old + 12)) = C" "be32 m (old + 32) = of_nat T"
    and "40 + int R + int S + int T < 2 ^ 31"
    and "old = new \<or> old + 40 \<le> new \<or> new + (40 + int R + int S + int T) \<le> old"
    and "old + B + int S \<le> new \<or> new + 40 + int R \<le> old + B" "old + C + int T \<le> new \<or> new + 40 + int R + int S \<le> old + C"
  obtains m' where "fdt_packblocks m old new (int R) (int S) = Some m'"
    "changed new (new + (40 + int R + int S + int T)) m m'" "moved 0 new 8 m m'" "moved 0 (new + 20) 12 m m'"
    "be32 m' (new + 16) = 40" "be32 m' (new + 8) = of_nat (40 + R)" "be32 m' (new + 36) = of_nat S"
    "be32 m' (new + 12) = of_nat (40 + R + S)" "be32 m' (new + 32) = of_nat T"
    "moved (new + 40 - (old + A)) (old + A) (int R) m m'"
    "moved (new + 40 + int R - (old + B)) (old + B) (int S) m m'"
    "moved (new + 40 + int R + int S - (old + C)) (old + C) (int T) m m'"
proof -
  define m1 where "m1 = memmove m (new + 40) (old + A) R"
  define m2 where "m2 = put32 m1 (new + 16) 40"
  define m3 where "m3 = memmove m2 (new + 40 + int R) (old + B) S"
  define m5 where "m5 = put32 (put32 m3 (new + 8) (of_nat (40 + R))) (new + 36) (of_nat S)"
  define m6 where "m6 = memmove m5 (new + 40 + int R + int S) (old + C) T"
  define m7 where "m7 = put32 m6 (new + 12) (of_nat (40 + R + S))"
  define m8 where "m8 = put32 m7 (new + 32) (of_nat T)"
  note up = m1_def m2_def m3_def m5_def m6_def m7_def m8_def
  have keep: "moved 0 (old + 8) 4 m m2" "moved 0 (old + 12) 4 m m5" "moved 0 (old + 32) 4 m m5" "moved 0 (old + 32) 4 m m7"
    using assms(6) unfolding m1_def m2_def m3_def m5_def m6_def m7_def
    by (auto simp: moved_def memmove_def)
  have rd: "uint (be32 m2 (old + 8)) = B" "uint (be32 m5 (old + 12)) = C" "be32 m5 (old + 32) = of_nat T" "be32 m7 (old + 32) = of_nat T"
    using keep [THEN moved_be32] assms(2-4) by simp_all
  have "unat (of_nat T :: u32) = T" using assms(5) by (intro unat_nat32) simp
  moreover have "c_int (40 + int R) = 40 + int R" "c_int (40 + int R + int S) = 40 + int R + int S"
    using assms(5) by (auto simp: c_int_id)
  moreover have "((40 :: int) + 8 - 1) AND NOT (8 - 1) = 40" by code_simp
  ultimately have run: "fdt_packblocks m old new (int R) (int S) = Some m8"
    using assms(1) rd
    by (simp add: fdt_packblocks_def memmove_int_def fdt_get_defs fdt_set_defs be32_view through_put32 add.assoc
        m1_def [symmetric] m2_def [symmetric]) (simp add: up add.assoc)
  have copied: "moved (dst - src) src (int k) m m8"
    if "moved 0 src (int k) m f" "g = memmove f dst src k" "moved 0 dst (int k) g m8" for f g dst src k
    using moved_trans [of 0 src "int k" m f "dst - src" g] moved_memmove [of dst src k f]
      moved_step_0 [of "dst - src" src "int k" m g m8] that by simp
  show thesis
  proof (rule that [OF run])
    show "moved (new + 40 - (old + A)) (old + A) (int R) m m8"
      by (rule copied [OF moved_refl m1_def]) (auto simp: up intro!: moved_steps moved_memmove_step)
    show "moved (new + 40 + int R - (old + B)) (old + B) (int S) m m8"
      using assms(7) by (intro copied [OF _ m3_def]) (auto simp: up intro!: moved_steps moved_memmove_step)
    show "moved (new + 40 + int R + int S - (old + C)) (old + C) (int T) m m8"
      using assms(8) by (intro copied [OF _ m6_def]) (auto simp: up intro!: moved_steps moved_memmove_step)
    show "changed new (new + (40 + int R + int S + int T)) m m8" unfolding up by (auto intro!: changed_steps)
    show "moved 0 new 8 m m8" "moved 0 (new + 20) 12 m m8" unfolding up by (auto intro!: moved_steps moved_memmove_step)
  qed (simp_all add: up be32_memmove_out)
qed

text \<open>The blocks of a blob of version 17, in any order.\<close>

definition loose_blob :: "nat \<Rightarrow> rw_state \<Rightarrow> blob \<Rightarrow> bool" where
  "loose_blob n s fdt \<longleftrightarrow>
     40 \<le> n \<and> n < 2 ^ 31 \<and> rw_rsv_off s + 16 * (length (rw_rsv s) + 1) \<le> n \<and> rw_struct_off s + rw_struct_size s \<le> n \<and> rw_data s \<le> n \<and>
     length (encs (rw_tags s)) + 4 \<le> rw_struct_size s \<and> rw_struct_size s < 2 ^ 31 - 4 \<and>
     list_all wf_token (rw_tags s) \<and> End \<notin> set (rw_tags s) \<and> list_all (\<lambda>(a, s). s \<noteq> 0) (rw_rsv s) \<and>
     fdt_magic fdt = FDT_MAGIC \<and> fdt_version fdt = 17 \<and> fdt_last_comp_version fdt \<le> 17 \<and>
     fdt_totalsize fdt = of_nat n \<and> fdt_off_mem_rsvmap fdt = of_nat (rw_rsv_off s) \<and>
     fdt_off_dt_struct fdt = of_nat (rw_struct_off s) \<and> fdt_size_dt_struct fdt = of_nat (rw_struct_size s) \<and>
     fdt_off_dt_strings fdt = of_nat (rw_strings_off s) \<and> fdt_size_dt_strings fdt = of_nat (length (rw_strs s)) \<and>
     holds fdt (int (rw_rsv_off s)) (rsv_bytes (rw_rsv s @ [(rw_end_addr s, 0)])) \<and>
     holds_tokens fdt (int (rw_struct_off s)) (rw_tags s @ [End]) \<and>
     holds fdt (int (rw_strings_off s)) (rw_strs s)"

lemma rw_blob_loose: "rw_blob n s fdt \<Longrightarrow> loose_blob n s fdt"
  using rw_layout_small(5) [of n s] by (auto simp: rw_blob_def rw_layout_def loose_blob_def)

lemma loose_rw_blob: "loose_blob n s fdt \<Longrightarrow> rw_layout n s \<Longrightarrow> rw_blob n s fdt"
  by (simp add: loose_blob_def rw_blob_def)

text \<open>The same blocks behind the header without gaps.\<close>

definition packed :: "rw_state \<Rightarrow> rw_state" where
  "packed s = s\<lparr>rw_rsv_off := 40, rw_struct_off := 40 + 16 * (length (rw_rsv s) + 1),
     rw_strings_off := 40 + 16 * (length (rw_rsv s) + 1) + rw_struct_size s\<rparr>"

lemma packed_simps [simp]:
  "rw_tags (packed s) = rw_tags s" "rw_strs (packed s) = rw_strs s" "rw_rsv (packed s) = rw_rsv s"
  "rw_struct_size (packed s) = rw_struct_size s" "rw_end_addr (packed s) = rw_end_addr s" "rw_rsv_off (packed s) = 40"
  "rw_struct_off (packed s) = 40 + 16 * (length (rw_rsv s) + 1)"
  "rw_strings_off (packed s) = 40 + 16 * (length (rw_rsv s) + 1) + rw_struct_size s"
  by (simp_all add: packed_def)

lemma packed_data: "rw_layout n s \<Longrightarrow> rw_data (packed s) \<le> rw_data s"
  by (auto simp: rw_layout_def)

lemma packed_layout: "loose_blob k s fdt \<Longrightarrow> rw_data (packed s) \<le> n \<Longrightarrow> n < 2 ^ 31 \<Longrightarrow> rw_layout n (packed s)"
  by (simp add: loose_blob_def rw_layout_def)

lemma packed_blob:
  assumes "loose_blob k s (view m old)" "rw_data (packed s) \<le> n" "n < 2 ^ 31"
    and "fdt_magic g = FDT_MAGIC" "fdt_version g = 17" "fdt_last_comp_version g \<le> 17" "fdt_totalsize g = of_nat n"
    and "be32 g 16 = 40" "be32 g 8 = of_nat (40 + 16 * (length (rw_rsv s) + 1))" "be32 g 36 = of_nat (rw_struct_size s)"
    and "be32 g 12 = of_nat (40 + 16 * (length (rw_rsv s) + 1) + rw_struct_size s)" "be32 g 32 = of_nat (length (rw_strs s))"
    and "moved (40 - (old + int (rw_rsv_off s))) (old + int (rw_rsv_off s)) (int (16 * (length (rw_rsv s) + 1))) m g"
    and "moved (40 + int (16 * (length (rw_rsv s) + 1)) - (old + int (rw_struct_off s))) (old + int (rw_struct_off s)) (int (rw_struct_size s)) m g"
    and "moved (40 + int (16 * (length (rw_rsv s) + 1)) + int (rw_struct_size s) - (old + int (rw_strings_off s)))
      (old + int (rw_strings_off s)) (int (length (rw_strs s))) m g"
  shows "rw_blob n (packed s) g"
proof -
  let ?R = "16 * (length (rw_rsv s) + 1)"
  have h: "holds m (old + int (rw_rsv_off s)) (rsv_bytes (rw_rsv s @ [(rw_end_addr s, 0)]))"
    "holds_tokens m (old + int (rw_struct_off s)) (rw_tags s @ [End])" "holds m (old + int (rw_strings_off s)) (rw_strs s)"
    and b: "length (encs (rw_tags s)) + 4 \<le> rw_struct_size s"
    using assms(1) by (simp_all add: loose_blob_def holds_view tokens_view)
  have "holds g 40 (rsv_bytes (rw_rsv s @ [(rw_end_addr s, 0)]))" using moved_holds [OF assms(13) _ h(1)] by simp
  moreover have "holds_tokens g (40 + int ?R) (rw_tags s @ [End])" using moved_tokens [OF assms(14) _ h(2)] b by (simp add: length_enc)
  moreover have "holds g (40 + int ?R + int (rw_struct_size s)) (rw_strs s)" using moved_holds [OF assms(15) _ h(3)] by (simp add: add.assoc)
  ultimately show ?thesis using assms(4-12) packed_layout [OF assms(1-3)] by (simp add: rw_blob_def fdt_get_defs)
qed

lemma loose_fields:
  assumes "loose_blob n s fdt"
  shows "uint (fdt_totalsize fdt) = int n" "uint (fdt_off_mem_rsvmap fdt) = int (rw_rsv_off s)"
    "uint (fdt_off_dt_struct fdt) = int (rw_struct_off s)" "uint (fdt_size_dt_struct fdt) = int (rw_struct_size s)"
    "uint (fdt_off_dt_strings fdt) = int (rw_strings_off s)" "uint (fdt_size_dt_strings fdt) = int (length (rw_strs s))"
    "fdt_check_header fdt = 0" "fdt_num_mem_rsv fdt = Some (int (length (rw_rsv s)))"
proof -
  show "uint (fdt_totalsize fdt) = int n" "uint (fdt_off_mem_rsvmap fdt) = int (rw_rsv_off s)"
    "uint (fdt_off_dt_struct fdt) = int (rw_struct_off s)" "uint (fdt_size_dt_struct fdt) = int (rw_struct_size s)"
    "uint (fdt_off_dt_strings fdt) = int (rw_strings_off s)" "uint (fdt_size_dt_strings fdt) = int (length (rw_strs s))"
    using assms by (simp_all add: loose_blob_def uint_nat32)
  then show "fdt_num_mem_rsv fdt = Some (int (length (rw_rsv s)))"
    using assms by (intro num_mem_rsv_holds [OF refl]) (auto simp: loose_blob_def)
  show "fdt_check_header fdt = 0" using assms by (simp add: loose_blob_def fdt_check_header_def const_defs not_less [symmetric])
qed

section \<open>Packing in place\<close>

lemma rw_pack:
  assumes "rw_blob n s fdt"
  shows "\<exists>g. fdt_pack fdt = Some (0, g) \<and> changed 0 (int n) fdt g \<and> rw_blob (rw_data (packed s)) (packed s) g"
proof -
  let ?R = "16 * (length (rw_rsv s) + 1)" and ?S = "rw_struct_size s" and ?T = "length (rw_strs s)"
  note l = rw_blob_loose [OF assms]
  have lay: "n < 2 ^ 31" "40 \<le> rw_rsv_off s" "rw_rsv_off s + ?R \<le> rw_struct_off s" "rw_struct_off s + ?S \<le> rw_strings_off s" "rw_data s \<le> n"
    using rw_blob_layout [OF assms] by (auto simp: rw_layout_def)
  note f = rw_fields [OF assms]
  have fb: "uint (be32 fdt 16) = int (rw_rsv_off s)" "uint (be32 fdt 8) = int (rw_struct_off s)"
    "uint (be32 fdt 12) = int (rw_strings_off s)" "be32 fdt 32 = of_nat ?T"
    using f assms by (simp_all add: fdt_get_defs rw_blob_def)
  have small: "40 + int ?R + int ?S + int ?T < 2 ^ 31"
    and order: "int (rw_struct_off s) + int ?S \<le> 0 \<or> 40 + int ?R \<le> int (rw_struct_off s)"
      "int (rw_strings_off s) + int ?T \<le> 0 \<or> 40 + int ?R + int ?S \<le> int (rw_strings_off s)" using lay by simp_all
  obtain g where g: "fdt_packblocks fdt 0 0 (int ?R) (int ?S) = Some g" "changed 0 (40 + int ?R + int ?S + int ?T) fdt g"
    "moved 0 0 8 fdt g" "moved 0 20 12 fdt g" "be32 g 16 = 40" "be32 g 8 = of_nat (40 + ?R)" "be32 g 36 = of_nat ?S"
    "be32 g 12 = of_nat (40 + ?R + ?S)" "be32 g 32 = of_nat ?T"
    "moved (40 - int (rw_rsv_off s)) (int (rw_rsv_off s)) (int ?R) fdt g"
    "moved (40 + int ?R - int (rw_struct_off s)) (int (rw_struct_off s)) (int ?S) fdt g"
    "moved (40 + int ?R + int ?S - int (rw_strings_off s)) (int (rw_strings_off s)) (int ?T) fdt g"
    by (rule packblocks [where old = 0 and new = 0, unfolded add_0_left, OF fb small disjI1 [OF refl] order])
  have c: "c_int ((int (length (rw_rsv s)) + 1) * 16) = int ?R" "c_int (uint (fdt_size_dt_struct fdt)) = int ?S"
    using lay f by (simp_all add: c_int_id)
  let ?n = "rw_data (packed s)"
  let ?h = "fdt_set_totalsize g (of_nat ?n)"
  have "fdt_off_dt_strings g + fdt_size_dt_strings g = of_nat ?n" using g(8,9) by (simp add: fdt_get_defs)
  moreover have n: "?n < 2 ^ 31" using lay by simp
  ultimately have "fdt_data_size g = int ?n" by (simp only: fdt_data_size_def c_int_uint)
  then have "fdt_pack fdt = Some (0, ?h)"
    using g(1) c by (simp add: fdt_pack_def rw_header [OF assms] rw_num_mem_rsv [OF assms] del: packed_simps)
  moreover have "changed 0 (int n) fdt ?h"
    using lay unfolding fdt_set_defs by (intro changed_put32 changed_wider [OF g(2)]) simp_all
  moreover have "rw_blob ?n (packed s) ?h"
  proof (rule packed_blob [where m = fdt and old = 0, unfolded view_0 add_0_left, OF l order_refl n])
    show "moved (40 - int (rw_rsv_off s)) (int (rw_rsv_off s)) (int ?R) fdt ?h"
      unfolding fdt_set_defs by (rule moved_then_put32 [OF g(10)]) simp
    show "moved (40 + int ?R - int (rw_struct_off s)) (int (rw_struct_off s)) (int ?S) fdt ?h"
      unfolding fdt_set_defs by (rule moved_then_put32 [OF g(11)]) simp
    show "moved (40 + int ?R + int ?S - int (rw_strings_off s)) (int (rw_strings_off s)) (int ?T) fdt ?h"
      unfolding fdt_set_defs by (rule moved_then_put32 [OF g(12)]) simp
  qed (use assms in \<open>simp_all add: rw_blob_def fdt_get_defs fdt_set_defs g(5-9) moved_be32_at [OF g(3)] moved_be32_at [OF g(4)]\<close>)
  ultimately show ?thesis by blast
qed

section \<open>Opening\<close>

lemma loose_misordered:
  assumes "loose_blob k s fdt"
  shows "fdt_blocks_misordered fdt (int (16 * (length (rw_rsv s) + 1))) (int (rw_struct_size s)) \<longleftrightarrow> \<not> rw_layout k s"
proof -
  let ?R = "16 * (length (rw_rsv s) + 1)"
  have b: "k < 2 ^ 31" "rw_rsv_off s + ?R \<le> k" "rw_struct_off s + rw_struct_size s \<le> k" "rw_data s \<le> k"
    using assms by (simp_all add: loose_blob_def)
  have "fdt_off_mem_rsvmap fdt + word_of_int (int ?R) = of_nat (rw_rsv_off s + ?R)"
    "fdt_off_dt_struct fdt + word_of_int (int (rw_struct_size s)) = of_nat (rw_struct_off s + rw_struct_size s)"
    "fdt_off_dt_strings fdt + fdt_size_dt_strings fdt = of_nat (rw_data s)"
    using assms by (simp_all add: loose_blob_def)
  moreover have "((40 :: u32) + 8 - 1) AND NOT (8 - 1) = 40" by code_simp
  ultimately have "fdt_blocks_misordered fdt (int ?R) (int (rw_struct_size s)) \<longleftrightarrow>
      rw_rsv_off s < 40 \<or> rw_struct_off s < rw_rsv_off s + ?R \<or> rw_strings_off s < rw_struct_off s + rw_struct_size s \<or> k < rw_data s"
    using b loose_fields [OF assms]
    by (simp only: fdt_blocks_misordered_def word_less_def) (simp add: uint_nat32 del: of_nat_add of_nat_mult)
  then show ?thesis using assms by (auto simp: loose_blob_def rw_layout_def)
qed

lemma changed_through:
  assumes "\<And>p. p < 0 \<or> k \<le> p \<Longrightarrow> g (view m a) p = view m a p"
  shows "changed a (a + k) m (through a g m)"
  unfolding changed_def
proof (intro allI impI)
  fix q assume "q < a \<or> a + k \<le> q"
  then show "through a g m q = m q" using assms [of "q - a"] by (auto simp: through_def view_def)
qed

lemma open_in_order:
  assumes "loose_blob k s (view m fdt)" "rw_layout k s" "n < 2 ^ 31"
  shows "if k \<le> n
    then \<exists>m'. fdt_open_into m fdt buf (int n) = Some (0, m') \<and> rw_blob n s (view m' buf) \<and> changed buf (buf + int n) m m'
    else fdt_open_into m fdt buf (int n) = Some (- FDT_ERR_NOSPACE, m)"
proof -
  let ?f = "view m fdt"
  note lf = loose_fields [OF assms(1)]
  have b: "k < 2 ^ 31" "16 * (length (rw_rsv s) + 1) \<le> k" "56 \<le> k" "rw_struct_size s < 2 ^ 31"
    using assms(2) by (auto simp: rw_layout_def)
  have c: "c_int ((int (length (rw_rsv s)) + 1) * 16) = int (16 * (length (rw_rsv s) + 1))" "c_int (int (rw_struct_size s)) = int (rw_struct_size s)"
    using b by (simp_all add: c_int_id)
  have v: "fdt_version ?f = 17" using assms(1) by (simp add: loose_blob_def)
  have "fdt_totalsize ?f > word_of_int (int n) \<longleftrightarrow> n < k"
    using lf(1) assms(3) by (simp add: word_less_def uint_nat32)
  then have move: "fdt_move ?f (view m buf) (int n) =
      (if k \<le> n then (0, \<lambda>p. if 0 \<le> p \<and> p < int k then ?f p else view m buf p) else (- FDT_ERR_NOSPACE, view m buf))"
    using lf(1,7) by (simp add: fdt_move_def)
  have ord: "\<not> fdt_blocks_misordered ?f (int (16 * (length (rw_rsv s) + 1))) (int (rw_struct_size s))"
    using loose_misordered [OF assms(1)] assms(2) by simp
  show ?thesis
  proof (cases "k \<le> n")
    case False
    then show ?thesis using move ord lf v c through_view by (simp add: fdt_open_into_def FDT_ERR_NOSPACE_def del: of_nat_mult of_nat_add)
  next
    case True
    let ?raw = "\<lambda>p. if 0 \<le> p \<and> p < int k then ?f p else view m buf p"
    let ?g = "fdt_set_totalsize (fdt_set_size_dt_struct (fdt_set_version ?raw 17) (of_nat (rw_struct_size s))) (of_nat n)"
    have run: "fdt_open_into m fdt buf (int n) = Some (0, through buf (\<lambda>_. ?g) m)"
      using True move ord lf v c
      by (simp add: fdt_open_into_def through_def view_def fdt_set_defs del: of_nat_mult of_nat_add)
    have same: "moved 0 0 (int k) ?f ?raw" by (simp add: moved_def)
    have be: "be32 ?raw q = be32 ?f q" if "0 \<le> q" "q + 4 \<le> 40" for q
      using moved_be32_at [OF same that(1)] that(2) b by simp
    have up: "moved 0 40 (int k - 40) ?f ?g" unfolding fdt_set_defs
      by (intro moved_put32_step moved_sub [OF same]) simp_all
    have lay: "40 \<le> rw_rsv_off s" "rw_rsv_off s + 16 * (length (rw_rsv s) + 1) \<le> rw_struct_off s"
      "rw_struct_off s + rw_struct_size s \<le> rw_strings_off s" "rw_data s \<le> k" "length (encs (rw_tags s)) + 4 \<le> rw_struct_size s"
      using assms(2) by (auto simp: rw_layout_def)
    have old: "holds ?f (int (rw_rsv_off s)) (rsv_bytes (rw_rsv s @ [(rw_end_addr s, 0)]))"
      "holds_tokens ?f (int (rw_struct_off s)) (rw_tags s @ [End])" "holds ?f (int (rw_strings_off s)) (rw_strs s)"
      using assms(1) by (simp_all add: loose_blob_def)
    have "holds ?g (int (rw_rsv_off s)) (rsv_bytes (rw_rsv s @ [(rw_end_addr s, 0)]))"
      using moved_holds [OF moved_sub [OF up, of "int (rw_rsv_off s)" "int (16 * (length (rw_rsv s) + 1))"] _ old(1)] lay by simp
    moreover have "holds_tokens ?g (int (rw_struct_off s)) (rw_tags s @ [End])"
      using moved_tokens [OF moved_sub [OF up, of "int (rw_struct_off s)" "int (rw_struct_size s)"] _ old(2)] lay by (simp add: length_enc)
    moreover have "holds ?g (int (rw_strings_off s)) (rw_strs s)"
      using moved_holds [OF moved_sub [OF up, of "int (rw_strings_off s)" "int (length (rw_strs s))"] _ old(3)] lay by simp
    moreover have "rw_layout n s" using assms(2,3) True by (simp add: rw_layout_def)
    ultimately have "rw_blob n s ?g"
      using assms(1) unfolding rw_blob_def loose_blob_def by (simp add: fdt_get_defs fdt_set_defs be)
    moreover have "changed buf (buf + int n) m (through buf (\<lambda>_. ?g) m)"
      using True b(3) by (intro changed_through) (auto simp: fdt_set_defs)
    ultimately show ?thesis using True run by simp
  qed
qed

lemma moved_view: "moved (- a) p n m (view m a)"
  by (simp add: moved_def view_def)

text \<open>
  Blocks in another order are packed at \<open>tmp\<close>, behind the old blob when the buffer overlaps it, and then copied
  to the start of the buffer. The old \<open>boot_cpuid_phys\<close> is read after that.
\<close>

definition open_place :: "int \<Rightarrow> nat \<Rightarrow> int \<Rightarrow> nat \<Rightarrow> int" where
  "open_place fdt k buf z = (if fdt < buf + int z \<and> buf < fdt + int k then fdt + int k else buf)"

lemma open_reordered:
  assumes "loose_blob k s (view m fdt)" "\<not> rw_layout k s" "n < 2 ^ 31" "rw_data (packed s) = z" "z < 2 ^ 31" "tmp = open_place fdt k buf z"
  shows "if tmp + int z \<le> buf + int n
    then \<exists>m'. fdt_open_into m fdt buf (int n) = Some (0, m') \<and> rw_blob n (packed s) (view m' buf) \<and> changed buf (buf + int n) m m' \<and>
      (tmp = buf \<longrightarrow> fdt_boot_cpuid_phys (view m' buf) = fdt_boot_cpuid_phys (view m fdt)) \<and>
      (buf = fdt \<longrightarrow> fdt_boot_cpuid_phys (view m' buf) = be32 m (fdt + int k + 28))
    else fdt_open_into m fdt buf (int n) = Some (- FDT_ERR_NOSPACE, m)"
proof -
  let ?f = "view m fdt" and ?R = "16 * (length (rw_rsv s) + 1)" and ?S = "rw_struct_size s" and ?T = "length (rw_strs s)"
  note lf = loose_fields [OF assms(1)]
  have z: "int z = 40 + int ?R + int ?S + int ?T" using assms(4) by simp
  have k: "rw_rsv_off s + ?R \<le> k" "rw_struct_off s + ?S \<le> k" "rw_data s \<le> k" "40 \<le> k"
    using assms(1) by (auto simp: loose_blob_def)
  have c: "c_int ((int (length (rw_rsv s)) + 1) * 16) = int ?R" "c_int (int ?S) = int ?S"
    "c_int (((40 + 8 - 1) AND NOT (8 - 1)) + int ?R + int ?S + int ?T) = int z"
  proof -
    show "c_int ((int (length (rw_rsv s)) + 1) * 16) = int ?R" "c_int (int ?S) = int ?S"
      using z assms(5) by (auto simp: c_int_id)
    have "((40 :: int) + 8 - 1) AND NOT (8 - 1) = 40" by code_simp
    then have "((40 + 8 - 1) AND NOT (8 - 1)) + int ?R + int ?S + int ?T = int z" by (simp only: z)
    then show "c_int (((40 + 8 - 1) AND NOT (8 - 1)) + int ?R + int ?S + int ?T) = int z" using assms(5) by (simp only: c_int_nat)
  qed
  have v: "fdt_version ?f = 17" using assms(1) by (simp add: loose_blob_def)
  have mis: "fdt_blocks_misordered ?f (int ?R) (int ?S)" using loose_misordered [OF assms(1)] assms(2) by simp
  have head: "fdt_open_into m fdt buf (int n) =
      (if int n < int z then Some (- FDT_ERR_NOSPACE, m)
       else if (buf + int z > fdt \<and> buf < fdt + int k) \<and> tmp + int z > buf + int n then Some (- FDT_ERR_NOSPACE, m)
       else do {
         m \<leftarrow> fdt_packblocks m fdt tmp (int ?R) (int ?S);
         m \<leftarrow> memmove_int m buf tmp (int z);
         let m = through buf (\<lambda>fdt. fdt_set_magic fdt FDT_MAGIC) m;
         let m = through buf (\<lambda>fdt. fdt_set_totalsize fdt (word_of_int (int n))) m;
         let m = through buf (\<lambda>fdt. fdt_set_version fdt 17) m;
         let m = through buf (\<lambda>fdt. fdt_set_last_comp_version fdt 16) m;
         let cpu = fdt_boot_cpuid_phys (view m fdt);
         Some (0, through buf (\<lambda>fdt. fdt_set_boot_cpuid_phys fdt cpu) m)
       })"
    unfolding assms(6) open_place_def
    by (simp only: fdt_open_into_def Let_def lf v c Option.bind.simps order_refl less_irrefl simp_thms if_True if_False mis)
  show ?thesis
  proof (cases "tmp + int z \<le> buf + int n")
    case False
    then show ?thesis unfolding head using assms(6) by (auto simp: open_place_def)
  next
    case fits: True
    have tmp: "buf \<le> tmp" "int z \<le> int n" using fits assms(6) by (auto simp: open_place_def split: if_splits)
    have fb: "uint (be32 m (fdt + 16)) = int (rw_rsv_off s)" "uint (be32 m (fdt + 8)) = int (rw_struct_off s)"
      "uint (be32 m (fdt + 12)) = int (rw_strings_off s)" "be32 m (fdt + 32) = of_nat ?T"
      using lf assms(1) by (simp_all add: fdt_get_defs be32_view loose_blob_def)
    have apart: "fdt + int k \<le> tmp \<or> tmp + int z \<le> fdt" using assms(6) by (auto simp: open_place_def)
    have small: "40 + int ?R + int ?S + int ?T < 2 ^ 31" using z assms(5) by simp
    have free: "fdt = tmp \<or> fdt + 40 \<le> tmp \<or> tmp + (40 + int ?R + int ?S + int ?T) \<le> fdt"
      "fdt + int (rw_struct_off s) + int ?S \<le> tmp \<or> tmp + 40 + int ?R \<le> fdt + int (rw_struct_off s)"
      "fdt + int (rw_strings_off s) + int ?T \<le> tmp \<or> tmp + 40 + int ?R + int ?S \<le> fdt + int (rw_strings_off s)"
      using apart k z by auto
    obtain m1 where p: "fdt_packblocks m fdt tmp (int ?R) (int ?S) = Some m1"
      "changed tmp (tmp + (40 + int ?R + int ?S + int ?T)) m m1" "moved 0 tmp 8 m m1" "moved 0 (tmp + 20) 12 m m1"
      "be32 m1 (tmp + 16) = 40" "be32 m1 (tmp + 8) = of_nat (40 + ?R)" "be32 m1 (tmp + 36) = of_nat ?S"
      "be32 m1 (tmp + 12) = of_nat (40 + ?R + ?S)" "be32 m1 (tmp + 32) = of_nat ?T"
      "moved (tmp + 40 - (fdt + int (rw_rsv_off s))) (fdt + int (rw_rsv_off s)) (int ?R) m m1"
      "moved (tmp + 40 + int ?R - (fdt + int (rw_struct_off s))) (fdt + int (rw_struct_off s)) (int ?S) m m1"
      "moved (tmp + 40 + int ?R + int ?S - (fdt + int (rw_strings_off s))) (fdt + int (rw_strings_off s)) (int ?T) m m1"
      by (rule packblocks [OF fb small free])
    define m2 where "m2 = memmove m1 buf tmp z"
    define m6 where "m6 = put32 (put32 (put32 (put32 m2 buf FDT_MAGIC) (buf + 4) (of_nat n)) (buf + 20) 17) (buf + 24) 16"
    define m7 where "m7 = put32 m6 (buf + 28) (be32 m6 (fdt + 28))"
    have run: "fdt_open_into m fdt buf (int n) = Some (0, m7)"
      unfolding head using fits tmp p(1)
      by (simp add: memmove_int_def fdt_set_defs fdt_get_defs through_put32 be32_view m2_def m6_def m7_def fdt_boot_cpuid_phys_def Let_def)
    have moved2: "moved (buf - tmp) tmp (int z) m1 m2" by (simp add: m2_def moved_memmove)
    have hd: "be32 m7 (buf + q) = be32 m1 (tmp + q)" if "8 \<le> q \<and> q + 4 \<le> 20 \<or> 32 \<le> q \<and> q + 4 \<le> 40" for q
    proof -
      have "moved (buf - tmp) (tmp + q) 4 m1 m2" using that z by (intro moved_sub [OF moved2]) auto
      from moved_be32 [OF this] have "be32 m2 (buf + q) = be32 m1 (tmp + q)" by (simp add: algebra_simps)
      then show ?thesis using that by (auto simp: m6_def m7_def)
    qed
    have blk: "moved (dst - src) src (int l) m (view m7 buf)"
      if "moved (tmp + dst - src) src (int l) m m1" "40 \<le> dst" "dst + int l \<le> int z" for src dst l
    proof -
      have "moved (buf - tmp) (src + (tmp + dst - src)) (int l) m1 m2" using that(2,3) by (intro moved_sub [OF moved2]) auto
      from moved_trans [OF that(1) this] have "moved (buf + dst - src) src (int l) m m2" by (simp add: algebra_simps)
      then have "moved (buf + dst - src) src (int l) m m7"
        unfolding m6_def m7_def using that(2) by (intro moved_then_put32) auto
      from moved_trans [OF this moved_view [of buf]] show ?thesis by simp
    qed
    have blob: "rw_blob n (packed s) (view m7 buf)"
    proof (rule packed_blob [OF assms(1) _ assms(3)])
      show "moved (40 - (fdt + int (rw_rsv_off s))) (fdt + int (rw_rsv_off s)) (int ?R) m (view m7 buf)"
        using blk [of 40 "fdt + int (rw_rsv_off s)" ?R] p(10) z by simp
      show "moved (40 + int ?R - (fdt + int (rw_struct_off s))) (fdt + int (rw_struct_off s)) (int ?S) m (view m7 buf)"
        using blk [of "40 + int ?R" "fdt + int (rw_struct_off s)" ?S] p(11) z by (simp add: add.assoc)
      show "moved (40 + int ?R + int ?S - (fdt + int (rw_strings_off s))) (fdt + int (rw_strings_off s)) (int ?T) m (view m7 buf)"
        using blk [of "40 + int ?R + int ?S" "fdt + int (rw_strings_off s)" ?T] p(12) z by (simp add: add.assoc)
      show "rw_data (packed s) \<le> n" using tmp(2) assms(4) by simp
    qed (simp_all add: be32_view hd p fdt_get_defs, simp_all add: m7_def m6_def)
    have ch: "changed buf (buf + int n) m m7"
    proof -
      have "40 \<le> int n" using tmp(2) z by simp
      moreover have "changed buf (buf + int n) m m1" using changed_wider [OF p(2), of buf "buf + int n"] tmp fits z by simp
      ultimately show ?thesis unfolding m7_def m6_def m2_def using tmp(2) by (intro changed_steps) auto
    qed
    have cpu: "be32 m7 (buf + 28) = be32 m6 (fdt + 28)" by (simp add: m7_def)
    have "be32 m7 (buf + 28) = be32 m (fdt + 28)" if "tmp = buf"
    proof -
      have "moved 0 (fdt + 28) 4 m m1" using apart z k by (intro changed_moved [OF p(2)]) auto
      moreover have "moved 0 (fdt + 28) 4 m1 m6"
        using apart z k that unfolding m6_def m2_def by (intro moved_put32_step moved_memmove_step moved_refl) auto
      ultimately have "moved 0 (fdt + 28) 4 m m6" by (rule moved_step_0 [where d = 0, simplified])
      then show ?thesis unfolding cpu using moved_be32 [of 0 "fdt + 28" m m6] by simp
    qed
    moreover have "be32 m7 (buf + 28) = be32 m (fdt + int k + 28)" if "buf = fdt"
    proof -
      have t: "tmp = fdt + int k" using that assms(6) z k(4) by (simp add: open_place_def)
      have "moved 0 (tmp + 28) 4 m m1" by (rule moved_sub [OF p(4)]) simp_all
      from moved_be32 [OF this] have "be32 m1 (tmp + 28) = be32 m (tmp + 28)" by simp
      moreover have "be32 m6 (buf + 28) = be32 m2 (buf + 28)" by (simp add: m6_def)
      moreover have "moved (buf - tmp) (tmp + 28) 4 m1 m2" using z by (intro moved_sub [OF moved2]) auto
      from moved_be32 [OF this] have "be32 m2 (buf + 28) = be32 m1 (tmp + 28)" by (simp add: algebra_simps)
      ultimately show ?thesis using cpu that t by simp
    qed
    ultimately show ?thesis using fits run blob ch by (simp add: fdt_boot_cpuid_phys_def be32_view)
  qed
qed

section \<open>Written blobs\<close>

lemma token_call:
  assumes "token_of strs c t" "wf_call c" "length strs < 2 ^ 31"
  shows "call_token strs c (reloc (of_nat (length strs)) t)"
proof (cases c)
  case (Property k v)
  then obtain d where d: "t = Prop (word_of_int (- int d)) v" "string_from_end strs d k" using assms(1) by auto
  then have "word_of_int (- int d) + of_nat (length strs) = (of_nat (length strs - d) :: u32)"
    by (simp add: string_from_end_def of_nat_diff)
  moreover have "unat (of_nat (length strs - d) :: u32) = length strs - d" using assms(3) by (intro unat_nat32) simp
  ultimately show ?thesis using d assms(2) Property by (simp add: string_from_end_def string_in_def del: of_nat_diff)
qed (use assms in auto)

lemma tokens_stand:
  assumes "list_all2 (token_of strs) cs ts" "list_all wf_call cs" "length strs < 2 ^ 31"
  shows "stands_for strs (map (reloc (of_nat (length strs))) ts) cs"
  using assms(1,2)
proof (induction rule: list_all2_induct)
  case (Cons c cs t ts)
  then show ?case using token_call [of strs c t] call_token_solid [of strs c "reloc (of_nat (length strs)) t"] assms(3)
    by (simp add: stands_for_def)
qed simp

lemma finished_blob:
  assumes "sw_blob n s fdt" "sw_used s + 4 \<le> n" "list_all2 (token_of (sw_strs s)) cs (sw_tags s)" "list_all wf_call cs"
    and "sw_rsv s = rs @ [(0, 0)]" "list_all (\<lambda>(a, s). s \<noteq> 0) rs"
  shows "\<exists>g t. fdt_finish fdt = Some (0, g) \<and> changed 0 (int n) fdt g \<and> rw_blob (sw_used s + 4) t g \<and>
    rw_rsv t = rs \<and> stands_for (rw_strs t) (rw_tags t) cs"
proof -
  let ?l = "length (sw_strs s)"
  let ?ts = "map (reloc (of_nat ?l)) (sw_tags s)"
  let ?t = "\<lparr>rw_rsv_off = 48, rw_struct_off = sw_struct s, rw_strings_off = sw_end s + 4, rw_struct_size = length (encs (sw_tags s)) + 4,
    rw_rsv = rs, rw_end_addr = 0, rw_tags = ?ts, rw_strs = sw_strs s\<rparr>"
  have w: "list_all wf_token (sw_tags s)" "End \<notin> set (sw_tags s)" using tokens_wf [OF assms(3,4)] by auto
  obtain g where g: "fdt_finish fdt = Some (0, g)" "changed 0 (int n) fdt g"
    "fdt_magic g = FDT_MAGIC" "fdt_version g = 17" "fdt_last_comp_version g = 16"
    "fdt_totalsize g = of_nat (sw_used s + 4)" "fdt_off_mem_rsvmap g = 48" "fdt_off_dt_struct g = of_nat (sw_struct s)"
    "fdt_off_dt_strings g = of_nat (sw_end s + 4)" "fdt_size_dt_strings g = of_nat ?l"
    "fdt_size_dt_struct g = of_nat (length (encs (sw_tags s)) + 4)"
    "holds g 48 (rsv_bytes (sw_rsv s))" "holds g (int (sw_end s) + 4) (sw_strs s)" "tokens_at g 0 (?ts @ [End])"
    using finish_blob [OF assms(1,2) w] by blast
  have n: "sw_used s + 4 < 2 ^ 31" "?l < 2 ^ 31" "sw_struct s < 2 ^ 31" using assms(1,2) by (auto simp: sw_blob_def sw_used_def sw_end_def)
  have toks: "holds_tokens g (int (sw_struct s)) (?ts @ [End])"
    using g(14) uint_nat32 [OF n(3)] by (simp add: tokens_at_def raw_fdt_offset_ptr_def g(8))
  have wt: "list_all wf_token ?ts" "End \<notin> set ?ts"
  proof -
    show "list_all wf_token ?ts" using w(1) by (simp add: list_all_iff)
    have "End = reloc m t \<longleftrightarrow> t = End" for m t by (cases t) auto
    then show "End \<notin> set ?ts" using w(2) by auto
  qed
  have lay: "rw_layout (sw_used s + 4) ?t"
    using n(1) wt assms(5,6) unfolding rw_layout_def by (simp add: sw_used_def sw_end_def sw_struct_def del: length_concat)
  have lcv: "fdt_last_comp_version g \<le> 17" by (simp add: g(5))
  have "rw_blob (sw_used s + 4) ?t g"
    unfolding rw_blob_def using lay g(3,4,6-13) lcv toks assms(5) by (simp add: add.commute)
  moreover have "stands_for (sw_strs s) ?ts cs" by (rule tokens_stand [OF assms(3,4) n(2)])
  ultimately show ?thesis using g(1,2) by (intro exI [of _ g] exI [of _ ?t]) simp
qed

lemma write_tree_rw:
  assumes "list_all wf_call (calls_of t)" "list_all (\<lambda>(a, s). s \<noteq> 0) rs" "tree_size rs t \<le> n" "n < 2 ^ 31"
  shows "\<exists>g k. write_tree rs t (int n) buf = Some (0, g) \<and> changed 0 (int n) buf g \<and> editable k g (rs, [t]) \<and> k \<le> tree_size rs t"
proof -
  obtain f s where f: "write_tree rs t (int n) buf = fdt_finish f" "sw_blob n s f" "changed 0 (int n) buf f"
    "sw_rsv s = rs @ [(0, 0)]" "list_all2 (token_of (sw_strs s)) (calls_of t) (sw_tags s)" "sw_used s + 4 \<le> tree_size rs t"
    using write_tree_steps [OF assms(1,3,4)] by blast
  have "sw_used s + 4 \<le> n" using f(6) assms(3) by simp
  from finished_blob [OF f(2) this f(5) assms(1) f(4) assms(2)] obtain g s' where g: "fdt_finish f = Some (0, g)" "changed 0 (int n) f g"
    "rw_blob (sw_used s + 4) s' g" "rw_rsv s' = rs" "stands_for (rw_strs s') (rw_tags s') (calls_of t)" by blast
  have "editable (sw_used s + 4) g (rs, [t])" unfolding editable_def using g(3-5) by (intro exI [of _ s']) simp
  then show ?thesis using f(1,6) g(1) changed_trans [OF f(3) g(2)] by (intro exI [of _ g] exI [of _ "sw_used s + 4"]) simp
qed

lemma editable_open:
  assumes "editable k (view m fdt) st" "n < 2 ^ 31"
  shows "if k \<le> n
    then \<exists>m'. fdt_open_into m fdt buf (int n) = Some (0, m') \<and> editable n (view m' buf) st \<and> changed buf (buf + int n) m m' \<and>
      fdt_data_size (view m' buf) = fdt_data_size (view m fdt)
    else fdt_open_into m fdt buf (int n) = Some (- FDT_ERR_NOSPACE, m)"
proof -
  obtain s where s: "rw_blob k s (view m fdt)" "rw_rsv s = fst st" "stands_for (rw_strs s) (rw_tags s) (kid_calls (snd st))"
    using assms(1) by (auto simp: editable_def)
  from open_in_order [OF rw_blob_loose [OF s(1)] rw_blob_layout [OF s(1)] assms(2), of buf] show ?thesis
    using s rw_data_size by (auto simp: editable_def split: if_splits)
qed

lemma editable_size: "editable n fdt st \<Longrightarrow> fdt_data_size fdt \<le> int n"
  unfolding editable_def using rw_data_size rw_blob_layout by (fastforce simp: rw_layout_def)

lemma empty_tree_editable:
  assumes "80 \<le> n" "n < 2 ^ 31"
  shows "\<exists>g. fdt_create_empty_tree buf (int n) = Some (0, g) \<and> changed 0 (int n) buf g \<and> editable n g ([], [DtNode [] [] []]) \<and>
    fdt_data_size g \<le> 80"
proof -
  have size: "tree_size [] (DtNode [] [] []) = 80" by (simp add: tree_size_def length_enc)
  obtain g k where g: "write_tree [] (DtNode [] [] []) (int n) buf = Some (0, g)" "changed 0 (int n) buf g" "editable k g ([], [DtNode [] [] []])" "k \<le> 80"
    using write_tree_rw [of "DtNode [] [] []" "[]" n buf] assms unfolding size by auto
  have "fdt_create_empty_tree buf (int n) =
      Option.bind (write_tree [] (DtNode [] [] []) (int n) buf) (\<lambda>(e, b). if e \<noteq> 0 then Some (e, b) else fdt_open_into b 0 0 (int n))"
    by (auto simp: fdt_create_empty_tree_def write_tree_def Let_def split: prod.splits Option.bind_splits)
  then have "fdt_create_empty_tree buf (int n) = fdt_open_into g 0 0 (int n)" using g(1) by simp
  moreover obtain h where "fdt_open_into g 0 0 (int n) = Some (0, h)" "editable n h ([], [DtNode [] [] []])" "changed 0 (int n) g h"
    "fdt_data_size h = fdt_data_size g"
    using editable_open [of k g 0 "([], [DtNode [] [] []])" n 0] g(3,4) assms by auto
  ultimately show ?thesis using changed_trans [OF g(2)] editable_size [OF g(3)] g(4) by auto
qed

end
