(* ===== verification/Fdt_Rw_Round.thy ===== *)
theory Fdt_Rw_Round
  imports Fdt_Rw_Open
begin

text \<open>
  The life of a blob that is changed: made, edited, packed and read back; edits without room; and three calls
  that damage a blob.
\<close>

section \<open>Reading an edited blob\<close>

definition reads_state :: "blob \<Rightarrow> dt_state \<Rightarrow> bool" where
  "reads_state fdt st \<longleftrightarrow> fdt_rw_check_header fdt = (0, fdt) \<and> reads_forest fdt (snd st) \<and>
     fdt_num_mem_rsv fdt = Some (int (length (fst st))) \<and> (\<forall>i<length (fst st). fdt_get_mem_rsv fdt (int i) = (0, Some (fst st ! i)))"

lemma editable_reads: "editable n fdt st \<Longrightarrow> reads_state fdt st"
  using rw_reads rw_header rw_num_mem_rsv rw_get_mem_rsv by (fastforce simp: editable_def reads_state_def)

lemma editable_pack:
  assumes "editable n fdt st"
  shows "\<exists>g. fdt_pack fdt = Some (0, g) \<and> changed 0 (int n) fdt g \<and> reads_state g st \<and>
    uint (fdt_totalsize g) = fdt_data_size g \<and> fdt_data_size g \<le> fdt_data_size fdt"
proof -
  obtain s where s: "rw_blob n s fdt" "rw_rsv s = fst st" "stands_for (rw_strs s) (rw_tags s) (kid_calls (snd st))"
    using assms by (auto simp: editable_def)
  obtain g where g: "fdt_pack fdt = Some (0, g)" "changed 0 (int n) fdt g" "rw_blob (rw_data (packed s)) (packed s) g"
    using rw_pack [OF s(1)] by blast
  have "editable (rw_data (packed s)) g st" unfolding editable_def using g(3) s(2,3) by (intro exI [of _ "packed s"]) simp
  moreover have "uint (fdt_totalsize g) = fdt_data_size g" using rw_fields(1) [OF g(3)] rw_data_size [OF g(3)] by simp
  moreover have "fdt_data_size g \<le> fdt_data_size fdt"
    using rw_data_size [OF g(3)] rw_data_size [OF s(1)] packed_data [OF rw_blob_layout [OF s(1)]] by simp
  ultimately show ?thesis using g(1,2) editable_reads by blast
qed

lemma changed_0: "changed 0 b f g \<longleftrightarrow> (\<forall>p. p < 0 \<or> b \<le> p \<longrightarrow> g p = f p)"
  by (simp add: changed_def)

section \<open>Properties\<close>

text \<open>
  C24. Building a tree from the empty one. In a buffer with room for the edits, \<open>fdt_create_empty_tree\<close> succeeds,
  and a client that makes any sequence of edits (setting, appending, overwriting, deleting and erasing
  properties, naming, adding, deleting and erasing nodes, adding and deleting reservations) gets the code
  of the same edits on trees, and the reading functions find the edited tree and reservations in the result.
  Nothing outside the buffer is written.
\<close>

theorem fdt_edit_empty_tree:
  assumes "list_all (wf_edit n) es" "80 + sum_list (map edit_size es) \<le> n" "n < 2 ^ 31"
    and "apply_edits es ([], [DtNode [] [] []]) = (c, st)"
  shows "\<exists>fdt g. fdt_create_empty_tree buf (int n) = Some (0, fdt) \<and> run_edits es fdt = Some (c, g) \<and>
    reads_state g st \<and> (\<forall>p. p < 0 \<or> int n \<le> p \<longrightarrow> g p = buf p)"
proof -
  obtain fdt where fdt: "fdt_create_empty_tree buf (int n) = Some (0, fdt)" "changed 0 (int n) buf fdt"
    "editable n fdt ([], [DtNode [] [] []])" "fdt_data_size fdt \<le> 80" using empty_tree_editable [of n buf] assms(2,3) by auto
  have "fdt_data_size fdt + int (sum_list (map edit_size es)) \<le> int n" using fdt(4) assms(2) by simp
  from run_edits_steps [OF fdt(3) assms(1) this assms(4)] show ?thesis
    using fdt(1) changed_trans [OF fdt(2)] editable_reads unfolding changed_0 [symmetric] by blast
qed

theorem fdt_edit_empty_tree_witness:
  "\<exists>fdt g. fdt_create_empty_tree (\<lambda>_. 0xff) 256 = Some (0, fdt) \<and>
    run_edits [At 0 (Add_subnode [99]), At 1 (Set_prop [114] [1, 2, 3]), At 1 (Append_prop [114] [4]), At 0 (Set_prop [120] []),
      At 1 (Set_name [100, 101]), Add_rsv 0x1000 0x2000, At 0 (Nop_prop [120]), At 2 Del_node] fdt = Some (- FDT_ERR_NOTFOUND, g) \<and>
    reads_state g ([(0x1000, 0x2000)], [DtNode [] [] [DtNode [100, 101] [([114], [1, 2, 3, 4])] []]])"
  using fdt_edit_empty_tree [of 256 "[At 0 (Add_subnode [99]), At 1 (Set_prop [114] [1, 2, 3]), At 1 (Append_prop [114] [4]), At 0 (Set_prop [120] []),
      At 1 (Set_name [100, 101]), Add_rsv 0x1000 0x2000, At 0 (Nop_prop [120]), At 2 Del_node]" "- FDT_ERR_NOTFOUND"
      "([(0x1000, 0x2000)], [DtNode [] [] [DtNode [100, 101] [([114], [1, 2, 3, 4])] []]])" "\<lambda>_. 0xff"]
  by (simp add: length_enc node_matches_def put_prop_def append_prop_def FDT_ERR_NOTFOUND_def) blast

text \<open>
  C25. From one program to another. A tree written with the sequential functions, moved by \<open>fdt_open_into\<close> to any
  place of the memory (the two areas may overlap), edited there and packed: every call succeeds, the edits give
  the code of the edits on trees, the packed blob holds the edited tree and reservations, and it is no larger than
  the written one and the sizes of the edits.
\<close>

theorem fdt_open_edit_pack:
  assumes "list_all wf_call (calls_of t)" "list_all (\<lambda>(a, s). s \<noteq> 0) rs" "tree_size rs t \<le> k" "k < 2 ^ 31"
    and "list_all (wf_edit n) es" "tree_size rs t + sum_list (map edit_size es) \<le> n" "n < 2 ^ 31"
    and "apply_edits es (rs, [t]) = (c, st)"
  shows "\<exists>m1 m2 g h. write_tree rs t (int k) m = Some (0, m1) \<and> fdt_open_into m1 0 b (int n) = Some (0, m2) \<and>
    (\<forall>p. p < b \<or> b + int n \<le> p \<longrightarrow> m2 p = m1 p) \<and>
    run_edits es (view m2 b) = Some (c, g) \<and> reads_state g st \<and> fdt_pack g = Some (0, h) \<and> reads_state h st \<and>
    uint (fdt_totalsize h) \<le> int (tree_size rs t + sum_list (map edit_size es))"
proof -
  obtain m1 j where 1: "write_tree rs t (int k) m = Some (0, m1)" "editable j m1 (rs, [t])" "j \<le> tree_size rs t"
    using write_tree_rw [OF assms(1-4)] by blast
  have "editable j (view m1 0) (rs, [t])" using 1(2) by simp
  from editable_open [OF this assms(7), of b] 1(3) assms(6)
  obtain m2 where 2: "fdt_open_into m1 0 b (int n) = Some (0, m2)" "editable n (view m2 b) (rs, [t])"
    "changed b (b + int n) m1 m2" "fdt_data_size (view m2 b) = fdt_data_size m1" by auto
  have size: "fdt_data_size (view m2 b) \<le> int (tree_size rs t)" using 2(4) editable_size [OF 1(2)] 1(3) by simp
  then have "fdt_data_size (view m2 b) + int (sum_list (map edit_size es)) \<le> int n" using assms(6) by simp
  from run_edits_steps [OF 2(2) assms(5) this assms(8)] obtain g where g: "run_edits es (view m2 b) = Some (c, g)" "editable n g st"
    "fdt_data_size g \<le> fdt_data_size (view m2 b) + int (sum_list (map edit_size es))" by blast
  obtain h where h: "fdt_pack g = Some (0, h)" "reads_state h st" "uint (fdt_totalsize h) \<le> fdt_data_size g"
    using editable_pack [OF g(2)] by auto
  have "uint (fdt_totalsize h) \<le> int (tree_size rs t + sum_list (map edit_size es))" using h(3) g(3) size by simp
  moreover have "\<forall>p. p < b \<or> b + int n \<le> p \<longrightarrow> m2 p = m1 p" using 2(3) by (simp add: changed_def)
  moreover note editable_reads [OF g(2)]
  ultimately show ?thesis using 1(1) 2(1) g(1) h(1,2) by (intro exI conjI)
qed

theorem fdt_open_edit_pack_witness:
  "\<exists>m1 m2 g h. write_tree [(0x1000, 0x2000)] demo_tree 512 (\<lambda>_. 0xff) = Some (0, m1) \<and> fdt_open_into m1 0 100 600 = Some (0, m2) \<and>
    run_edits [At 0 (Set_name [97]), Del_rsv 0] (view m2 100) = Some (0, g) \<and> fdt_pack g = Some (0, h) \<and>
    fdt_num_mem_rsv h = Some 0"
proof -
  obtain s ps ks where t: "demo_tree = DtNode s ps ks" by (cases demo_tree)
  have "list_all wf_call (calls_of demo_tree)" by (simp add: demo_tree_def bytes_def)
  moreover have "tree_size [(0x1000, 0x2000)] demo_tree \<le> 512" by (simp add: tree_size_def demo_tree_def bytes_def length_enc)
  moreover have "apply_edits [At 0 (Set_name [97]), Del_rsv 0] ([(0x1000, 0x2000)], [demo_tree]) = (0, ([], [DtNode [97] ps ks]))"
    by (simp add: t)
  ultimately show ?thesis
    using fdt_open_edit_pack [of demo_tree "[(0x1000, 0x2000)]" 512 600 "[At 0 (Set_name [97]), Del_rsv 0]" 0 "([], [DtNode [97] ps ks])" "\<lambda>_. 0xff" 100]
    by (fastforce simp: length_enc reads_state_def)
qed

text \<open>
  C26. An edit with or without room. Every edit of a blob that can be edited ends: with success and the edited tree
  and reservations in the blob, with the error of the edit on trees and the memory as it was, or with
  \<open>FDT_ERR_NOSPACE\<close>, only if the size of the edit does not fit behind the data of the blob, and then the blob holds
  the tree and the reservations as before. Nothing outside the buffer is written.
\<close>

theorem fdt_edit_all_or_nothing:
  assumes "editable n fdt st" "wf_edit n e" "apply_edit e st = (c, st')"
  shows "\<exists>r g. run_edit e fdt = Some (r, g) \<and> (\<forall>p. p < 0 \<or> int n \<le> p \<longrightarrow> g p = fdt p) \<and>
    (0 \<le> r \<and> c = 0 \<and> editable n g st' \<and> reads_state g st' \<or>
     r = c \<and> c < 0 \<and> g = fdt \<or>
     r = - FDT_ERR_NOSPACE \<and> int n < fdt_data_size fdt + int (edit_size e) \<and> editable n g st \<and> reads_state g st)"
  using run_edit_step [OF assms] editable_reads unfolding changed_0 by blast

theorem fdt_edit_all_or_nothing_witness:
  "\<exists>fdt r g. fdt_create_empty_tree (\<lambda>_. 0) 256 = Some (0, fdt) \<and>
    run_edit (At 0 (Set_prop [97] [1])) fdt = Some (r, g) \<and> 0 \<le> r \<and> reads_state g ([], [DtNode [] [([97], [1])] []])"
proof -
  obtain fdt where f: "fdt_create_empty_tree (\<lambda>_. 0) 256 = Some (0, fdt)" "editable 256 fdt ([], [DtNode [] [] []])" "fdt_data_size fdt \<le> 80"
    using empty_tree_editable [of 256 "\<lambda>_. 0"] by auto
  have "apply_edit (At 0 (Set_prop [97] [1])) ([], [DtNode [] [] []]) = (0, ([], [DtNode [] [([97], [1])] []]))"
    by (simp add: put_prop_def)
  from fdt_edit_all_or_nothing [OF f(2) _ this] show ?thesis using f(1,3) by (auto simp: length_enc)
qed

text \<open>
  C27. Putting blocks in order. A blob of version 17 whose blocks are not in the order of the read-write functions
  is put in order by \<open>fdt_open_into\<close> when the buffer has room, also behind the old blob where it overlaps the
  buffer: the result can be edited and holds the same tree and reservations. But \<open>boot_cpuid_phys\<close> is read from
  the old blob after the buffer has been overwritten: opened in place, the blob gets the bytes that happened to
  lie behind it.
\<close>

theorem fdt_open_into_reorders:
  assumes "loose_blob k s (view m fdt)" "\<not> rw_layout k s" "stands_for (rw_strs s) (rw_tags s) (kid_calls ts)"
    and "rw_data (packed s) = z" "open_place fdt k buf z + int z \<le> buf + int n" "n < 2 ^ 31"
  shows "\<exists>m'. fdt_open_into m fdt buf (int n) = Some (0, m') \<and> (\<forall>p. p < buf \<or> buf + int n \<le> p \<longrightarrow> m' p = m p) \<and>
    editable n (view m' buf) (rw_rsv s, ts) \<and> reads_state (view m' buf) (rw_rsv s, ts) \<and>
    (buf = fdt \<longrightarrow> fdt_boot_cpuid_phys (view m' buf) = be32 m (fdt + int k + 28))"
proof -
  have "int z \<le> int n" using assms(5) by (auto simp: open_place_def split: if_splits)
  then have "z < 2 ^ 31" using assms(6) by simp
  from open_reordered [OF assms(1,2,6,4) this refl, of buf] assms(5) obtain m' where
    m': "fdt_open_into m fdt buf (int n) = Some (0, m')" "rw_blob n (packed s) (view m' buf)" "changed buf (buf + int n) m m'"
      "buf = fdt \<longrightarrow> fdt_boot_cpuid_phys (view m' buf) = be32 m (fdt + int k + 28)" by auto
  have "editable n (view m' buf) (rw_rsv s, ts)" unfolding editable_def using m'(2) assms(3) by (intro exI [of _ "packed s"]) simp
  then show ?thesis using m'(1,3,4) editable_reads unfolding changed_def by blast
qed

text \<open>A tree with one node, its reservations behind it, for the processor with the number 1.\<close>

definition unordered_fdt :: blob where
  "unordered_fdt = store_bytes (\<lambda>_. 0xff) 0 (be_bytes FDT_MAGIC @ be_bytes 72 @ be_bytes 40 @ be_bytes 40 @ be_bytes 56 @
     be_bytes 17 @ be_bytes 16 @ be_bytes 1 @ be_bytes 0 @ be_bytes 16 @ encs [BeginNode [], EndNode, End] @ rsv_bytes [(0, 0)])"

lemma unordered_words:
  "be32 unordered_fdt 0 = FDT_MAGIC" "be32 unordered_fdt 4 = 72" "be32 unordered_fdt 8 = 40" "be32 unordered_fdt 12 = 40"
  "be32 unordered_fdt 16 = 56" "be32 unordered_fdt 20 = 17" "be32 unordered_fdt 24 = 16" "be32 unordered_fdt 28 = 1"
  "be32 unordered_fdt 32 = 0" "be32 unordered_fdt 36 = 16"
  and unordered_blocks: "holds_tokens unordered_fdt 40 [BeginNode [], EndNode, End]" "holds unordered_fdt 56 (rsv_bytes [(0, 0)])"
proof -
  let ?bs = "be_bytes FDT_MAGIC @ be_bytes 72 @ be_bytes 40 @ be_bytes 40 @ be_bytes 56 @
     be_bytes 17 @ be_bytes 16 @ be_bytes 1 @ be_bytes 0 @ be_bytes 16 @ encs [BeginNode [], EndNode, End] @ rsv_bytes [(0, 0)]"
  have "holds unordered_fdt 0 ?bs" by (simp only: unordered_fdt_def holds_store)
  then have h: "holds unordered_fdt 0 (be_bytes FDT_MAGIC)" "holds unordered_fdt 4 (be_bytes 72)" "holds unordered_fdt 8 (be_bytes 40)"
    "holds unordered_fdt 12 (be_bytes 40)" "holds unordered_fdt 16 (be_bytes 56)" "holds unordered_fdt 20 (be_bytes 17)"
    "holds unordered_fdt 24 (be_bytes 16)" "holds unordered_fdt 28 (be_bytes 1)" "holds unordered_fdt 32 (be_bytes 0)"
    "holds unordered_fdt 36 (be_bytes 16)" "holds unordered_fdt 40 (encs [BeginNode [], EndNode, End])"
    and r: "holds unordered_fdt (40 + int (length (encs [BeginNode [], EndNode, End]))) (rsv_bytes [(0, 0)])"
    unfolding holds_be_append holds_append [of _ _ "encs [BeginNode [], EndNode, End]"] by simp_all
  show "be32 unordered_fdt 0 = FDT_MAGIC" "be32 unordered_fdt 4 = 72" "be32 unordered_fdt 8 = 40" "be32 unordered_fdt 12 = 40"
    "be32 unordered_fdt 16 = 56" "be32 unordered_fdt 20 = 17" "be32 unordered_fdt 24 = 16" "be32 unordered_fdt 28 = 1"
    "be32 unordered_fdt 32 = 0" "be32 unordered_fdt 36 = 16" using h by (simp_all only: holds_be32)
  show "holds_tokens unordered_fdt 40 [BeginNode [], EndNode, End]" by (rule holds_encs [OF h(11)])
  have "int (length (encs [BeginNode [], EndNode, End])) = 16" by (simp add: length_enc)
  then show "holds unordered_fdt 56 (rsv_bytes [(0, 0)])" using r by (simp only:) simp
qed

theorem fdt_open_into_reorders_witness:
  "fdt_boot_cpuid_phys unordered_fdt = 1 \<and> (\<exists>m'. fdt_open_into unordered_fdt 0 0 160 = Some (0, m') \<and>
    reads_state m' ([], [DtNode [] [] []]) \<and> fdt_boot_cpuid_phys m' = 0xffffffff)"
proof -
  let ?s = "\<lparr>rw_rsv_off = 56, rw_struct_off = 40, rw_strings_off = 40, rw_struct_size = 16, rw_rsv = [], rw_end_addr = 0,
    rw_tags = [BeginNode [], EndNode], rw_strs = []\<rparr>"
  have "loose_blob 72 ?s (view unordered_fdt 0)"
    using unordered_blocks by (simp add: loose_blob_def fdt_get_defs unordered_words length_enc)
  moreover have "\<not> rw_layout 72 ?s" by (simp add: rw_layout_def)
  moreover have "stands_for [] [BeginNode [], EndNode] (kid_calls [DtNode [] [] []])" by (simp add: stands_for_def)
  moreover have "be32 unordered_fdt 100 = 0xffffffff"
  proof -
    have "unordered_fdt p = 0xff" if "72 \<le> p" for p
      unfolding unordered_fdt_def by (rule store_bytes_out) (use that in \<open>simp add: length_enc\<close>)
    then show ?thesis by (simp add: be32_def) code_simp
  qed
  ultimately show ?thesis
    using fdt_open_into_reorders [of 72 ?s unordered_fdt 0 "[DtNode [] [] []]" 72 0 160]
    by (auto simp: open_place_def fdt_boot_cpuid_phys_def unordered_words)
qed

section \<open>Calls that damage a blob\<close>

text \<open>
  \<open>fdt_add_subnode_namelen\<close> takes \<open>- FDT_ERR_NOTFOUND\<close> as the answer that the name is free. Given that value as the
  offset of the parent, as by a client that does not check a failed search, the search returns it, and the new
  node is written over the reservations, in front of the structure block; the call returns another error.
\<close>

lemma add_subnode_to_not_found:
  assumes "editable n fdt st" "0 \<notin> set name" "length name < 2 ^ 31 - 16"
    and "fdt_data_size fdt + int (call_size (Begin_node name) + 4) \<le> int n"
  shows "\<exists>g. fdt_add_subnode fdt (- FDT_ERR_NOTFOUND) name = Some (- FDT_ERR_TRUNCATED, g) \<and>
    be32 g (uint (fdt_off_dt_struct fdt) - 8) = FDT_BEGIN_NODE \<and>
    fdt_size_dt_struct g = fdt_size_dt_struct fdt + of_nat (call_size (Begin_node name) + 4)"
proof -
  obtain s where s: "rw_blob n s fdt" using assms(1) by (auto simp: editable_def)
  note n = rw_layout_small [OF rw_blob_layout [OF s]]
  have lay: "56 \<le> rw_struct_off s" "rw_struct_off s \<le> rw_data s" using rw_blob_layout [OF s] by (auto simp: rw_layout_def)
  let ?b = "(length name + 1 + 3) div 4 * 4" and ?k = "call_size (Begin_node name) + 4"
  have k: "?k = 8 + ?b" by (simp add: length_enc_begin)
  have b: "8 + ?b < 2 ^ 31" "length name < ?b" using assms(3) by presburger+
  have c: "c_int (int (length name) + 1) = int (length name + 1)"
    using assms(3) c_int_nat [of "length name + 1"] by (simp add: add.commute)
  have m: "FDT_TAGALIGN (int (length name + 1)) = int ?b" using assms(3) by (simp only: FDT_TAGALIGN_nat)
  have ck: "c_int (4 + int ?b + FDT_TAGSIZE) = int ?k"
  proof -
    have "4 + int ?b + FDT_TAGSIZE = int ?k" unfolding k FDT_TAGSIZE_def by simp
    then show ?thesis using b k by (simp only:) (rule c_int_nat, simp)
  qed
  have v: "fdt_version fdt = 17" "uint (fdt_size_dt_struct fdt) = int (rw_struct_size s)" using s rw_fields(4) [OF s] by (simp_all add: rw_blob_def)
  have "fdt_offset_ptr fdt (- 1) 4 = None"
  proof -
    have "(3 :: u32) < - 1" by code_simp
    then show ?thesis by (simp add: fdt_offset_ptr_def v(1))
  qed
  then have n1: "fdt_next_tag fdt (- 1) = Some (FDT_END, - 8)" by (simp add: fdt_next_tag_def FDT_TAGSIZE_def FDT_ERR_TRUNCATED_def)
  have "fdt_offset_ptr fdt (- 8) 4 = None" using n(5) by (simp add: fdt_offset_ptr_def v word_less_def)
  then have n8: "fdt_next_tag fdt (- 8) = Some (FDT_END, - 8)" by (simp add: fdt_next_tag_def FDT_TAGSIZE_def FDT_ERR_TRUNCATED_def)
  have loop: "add_subnode_loop fdt (- 8) = Some (- 8)"
    by (subst add_subnode_loop.simps) (simp add: n8 FDT_END_def FDT_PROP_def FDT_NOP_def)
  have sub: "fdt_subnode_offset_namelen fdt (- 1) name = Some (- 1)"
    by (simp add: fdt_subnode_offset_namelen_def rw_check [OF s] subnode_loop.simps)
  let ?p = "int (rw_struct_off s) - 8"
  have ptr: "raw_fdt_offset_ptr fdt (- 8) = ?p" by (simp add: rw_ptr [OF s])
  let ?f = "memmove fdt (?p + int ?k) ?p (nat (int (rw_data s) - ?p))"
  let ?f1 = "fdt_set_size_dt_struct ?f (fdt_size_dt_struct ?f + word_of_int (int ?k))"
  let ?f2 = "fdt_set_off_dt_strings ?f1 (fdt_off_dt_strings ?f1 + word_of_int (int ?k))"
  let ?g = "put32 (store_bytes (store_bytes (put32 ?f2 ?p FDT_BEGIN_NODE) (?p + 4) (replicate (nat (int ?b)) 0)) (?p + 4) name)
    (?p + int ?k - FDT_TAGSIZE) FDT_END_NODE"
  have "rw_data s + ?k \<le> n" using assms(4) rw_data_size [OF s] by simp
  then have "fdt_splice fdt ?p 0 (int ?k) = (0, ?f)" using rw_splice [OF s, of ?p 0 ?k] lay by simp
  moreover have "c_int (int ?k - 0) = int ?k" using c_int_nat [of ?k] b k by simp
  ultimately have sp: "fdt_splice_struct fdt ?p 0 (int ?k) = (0, ?f2)" by (simp only: fdt_splice_struct_def Let_def prod.case) simp
  have "fdt_add_subnode fdt (- FDT_ERR_NOTFOUND) name = Some (- FDT_ERR_TRUNCATED, ?g)"
    by (simp only: fdt_add_subnode_def fdt_add_subnode_namelen_def rw_header [OF s] sub FDT_ERR_NOTFOUND_def FDT_ERR_TRUNCATED_def
        n1 loop c m ck ptr sp Let_def prod.case Option.bind.simps) simp
  moreover have "be32 ?g (uint (fdt_off_dt_struct fdt) - 8) = FDT_BEGIN_NODE"
    using rw_fields(3) [OF s] k b by (simp add: FDT_TAGSIZE_def)
  moreover have "fdt_size_dt_struct ?g = fdt_size_dt_struct fdt + of_nat ?k"
    using lay k b by (simp add: fdt_get_defs fdt_set_defs be32_memmove_out FDT_TAGSIZE_def)
  ultimately show ?thesis by blast
qed

text \<open>\<open>fdt_del_mem_rsv\<close> compares a signed number with the number of reservations: \<open>- 1\<close> deletes a part of the header.\<close>

lemma del_mem_rsv_negative:
  assumes "editable n fdt st"
  shows "\<exists>g. fdt_del_mem_rsv fdt (- 1) = Some (0, g) \<and> fdt_off_mem_rsvmap g = fdt_off_mem_rsvmap fdt \<and>
    (\<forall>p. uint (fdt_off_mem_rsvmap fdt) - 16 \<le> p \<and> p < fdt_data_size fdt - 16 \<longrightarrow> g p = fdt (p + 16))"
proof -
  obtain s where s: "rw_blob n s fdt" using assms by (auto simp: editable_def)
  have lay: "40 \<le> rw_rsv_off s" "rw_rsv_off s + 16 \<le> rw_data s" "rw_data s \<le> n" using rw_blob_layout [OF s] by (auto simp: rw_layout_def)
  let ?p = "int (rw_rsv_off s) - 16"
  let ?f = "memmove fdt ?p (?p + 16) (nat (int (rw_data s) - ?p - 16))"
  let ?f1 = "fdt_set_off_dt_struct ?f (fdt_off_dt_struct ?f + word_of_int (- 16))"
  let ?f2 = "fdt_set_off_dt_strings ?f1 (fdt_off_dt_strings ?f1 + word_of_int (- 16))"
  have sp: "fdt_splice fdt ?p 16 0 = (0, ?f)" using rw_splice [OF s, of ?p 16 0] lay by simp
  have c: "c_int ((0 - 1) * 16) = - 16" "c_int (1 * 16) = 16" "c_int (0 * 16) = 0" by (simp_all add: c_int_id)
  have "fdt_splice_mem_rsv fdt ?p 1 0 = (0, ?f2)" by (simp only: fdt_splice_mem_rsv_def c sp Let_def prod.case) simp
  then have "fdt_del_mem_rsv fdt (- 1) = Some (0, ?f2)"
    by (simp add: fdt_del_mem_rsv_def rw_header [OF s] rw_num_mem_rsv [OF s] rw_mem_rsv [OF s])
  moreover have "fdt_off_mem_rsvmap ?f2 = fdt_off_mem_rsvmap fdt" using lay by (simp add: fdt_get_defs fdt_set_defs be32_memmove_out)
  moreover have "?f2 p = fdt (p + 16)" if "uint (fdt_off_mem_rsvmap fdt) - 16 \<le> p \<and> p < fdt_data_size fdt - 16" for p
  proof -
    have p: "?p \<le> p" "p < int (rw_data s) - 16" using that rw_fields(2) [OF s] rw_data_size [OF s] by simp_all
    then have "?f p = fdt (p + 16)" by (simp add: memmove_def store_bytes_def)
    then show ?thesis using p lay by (simp add: fdt_set_defs)
  qed
  ultimately show ?thesis by blast
qed

end
