(* ===== verification/Legacy_Pcie.thy ===== *)
theory Legacy_Pcie
  imports Fdt_Tree Pcie_Driver Pcie_Probe Pr_Ip_Legacy
begin

text \<open>
  The PCIe driver of the older stack, \<open>software/drivers/fpga/fpga-pcie.c\<close>. User programs drive it through
  the debugfs file \<open>state\<close>; the drivers of the IP cores on the card are found in a device tree, which
  lies in a ROM of the card or is written to the debugfs file \<open>base_dtb\<close>.

  The functions on the error mask and on link training have the same text as those of the newer
  driver, so the definitions of \<open>Pci_Config\<close> are used. The kernel functions are parameters, and
  taking and giving back a resource is logged as in \<open>Pcie_Probe\<close>.
\<close>

section \<open>State\<close>

datatype pcie_state = LST_IDLE | LST_AER_DISABLED | LST_BASE_PROBED

fun state_text :: "pcie_state \<Rightarrow> string" where
  "state_text LST_IDLE = ''Idle'' @ [CHR 0x0A]"
| "state_text LST_AER_DISABLED = ''Upstream AER disabled'' @ [CHR 0x0A]"
| "state_text LST_BASE_PROBED = ''Base probed'' @ [CHR 0x0A]"

text \<open>A subdriver gets a device and works on the kernel's state and on the registers.\<close>

record ('k, 'h) fpga_drv_entry =
  drv_id :: "u8 list"
  drv_prefix :: string
  drv_probe :: "nat \<Rightarrow> u64 \<Rightarrow> 'k kbase \<Rightarrow> 'h world \<Rightarrow> int \<times> 'k kbase \<times> 'h world"
  drv_remove :: "nat \<Rightarrow> 'k kbase \<Rightarrow> 'h world \<Rightarrow> (int \<times> 'k kbase \<times> 'h world) option"

record ('k, 'h) fdev =
  fdev_remove :: "nat \<Rightarrow> 'k kbase \<Rightarrow> 'h world \<Rightarrow> (int \<times> 'k kbase \<times> 'h world) option"
  fdev_dev :: nat

record ('k, 'h) legacy_priv =
  lg_bar_addrs :: "nat \<Rightarrow> u64"
  lg_debugfs_root :: nat
  lg_pci_dev :: pci_dev
  lg_pci_upstream_dev :: "pci_dev option"
  lg_aer_uerr_mask_reg :: u32
  lg_state :: pcie_state
  lg_uio_size :: u64
  lg_fdev_list :: "('k, 'h) fdev list"

text \<open>
  The functions of the kernel. An allocation gives an address, 0 for \<open>NULL\<close>; so does the creation of
  a debugfs directory.
\<close>

record 'k legacy_api = "'k kernel_api" +
  api_kzalloc :: "'k \<Rightarrow> nat \<times> 'k"
  api_kfree :: "nat \<Rightarrow> 'k \<Rightarrow> 'k"
  api_set_name :: "nat \<Rightarrow> string \<Rightarrow> 'k \<Rightarrow> int \<times> 'k"
  api_device_add :: "nat \<Rightarrow> 'k \<Rightarrow> int \<times> 'k"
  api_device_del :: "nat \<Rightarrow> 'k \<Rightarrow> 'k"
  api_resource_end :: "pci_dev \<Rightarrow> nat \<Rightarrow> 'k \<Rightarrow> u64"
  api_uio_register :: "pci_dev \<Rightarrow> 'k \<Rightarrow> int \<times> 'k"
  api_uio_unregister :: "pci_dev \<Rightarrow> 'k \<Rightarrow> 'k"
  api_debugfs_dir :: "'k \<Rightarrow> nat \<times> 'k"
  api_debugfs_file :: "string \<Rightarrow> nat \<Rightarrow> 'k \<Rightarrow> bool \<times> 'k"

section \<open>Subdrivers\<close>

definition fpga_drv_lookup ::
  "('k, 'h) fpga_drv_entry list \<Rightarrow> blob \<Rightarrow> int \<Rightarrow> ('k, 'h) fpga_drv_entry option" where
  "fpga_drv_lookup tab fdt cmpt = find (\<lambda>p. memcmp_eq fdt cmpt (drv_id p @ [0])) tab"

text \<open>
  The table has one entry, for the PR IP core; \<open>probe\<close> is the \<open>alt_pr_probe\<close> of the Arria 10 or of the
  Stratix 10 driver, whichever the module is linked with. The kernel's state is that of the FPGA
  manager framework, and the rest \<open>'r\<close>, which decides what allocations and registrations give.
\<close>

definition fpga_drv_tab ::
  "('r \<Rightarrow> nat \<Rightarrow> u64 \<Rightarrow> (u64, 'h world) mgr_world \<Rightarrow> 'h world \<Rightarrow> int \<times> (u64, 'h world) mgr_world \<times> 'h world) \<Rightarrow>
   ((u64, 'h world) mgr_world \<times> 'r, 'h) fpga_drv_entry list" where
  "fpga_drv_tab probe =
     [\<lparr>drv_id = bytes ''altr,pr-ip-core'', drv_prefix = [],
       drv_probe = (\<lambda>a base k w.
         let (r, W, w) = probe (snd (kern k)) a base (fst (kern k)) w
         in (r, k\<lparr>kern := (W, snd (kern k))\<rparr>, w)),
       drv_remove = (\<lambda>a k w. do {
         (r, W, w) \<leftarrow> alt_pr_remove a (fst (kern k)) w;
         Some (r, k\<lparr>kern := (W, snd (kern k))\<rparr>, w)
       })\<rparr>]"

definition legacy_probe_one ::
  "'k legacy_api \<Rightarrow> ('k, 'h) fpga_drv_entry \<Rightarrow> u64 \<Rightarrow> ('k, 'h) legacy_priv \<Rightarrow> 'k kbase \<Rightarrow> 'h world \<Rightarrow>
   int \<times> ('k, 'h) legacy_priv \<times> 'k kbase \<times> 'h world" where
  "legacy_probe_one api drv regs priv k w =
     (let (a, s) = api_kzalloc api (kern k);
          k = acquire (Memory a) (a \<noteq> 0) s k
      in if a = 0 then (- ENOMEM, priv, k, w)
         else let (err, s) = api_set_name api a (drv_prefix drv) (kern k);
                  k = k\<lparr>kern := s\<rparr>
              in if err \<noteq> 0 then (err, priv, give_back (Memory a) (api_kfree api a) k, w)
                 else let (err, s) = api_device_add api a (kern k);
                          k = acquire (SubDevice a) (err = 0) s k
                      in if err \<noteq> 0 then (err, priv, give_back (Memory a) (api_kfree api a) k, w)
                         else let (err, k, w) = drv_probe drv a regs k w
                              in if err \<noteq> 0
                                 then let k = give_back (SubDevice a) (api_device_del api a) k
                                      in (err, priv, give_back (Memory a) (api_kfree api a) k, w)
                                 else let k = acquire (Bound a) True (kern k) k;
                                          f = \<lparr>fdev_remove = drv_remove drv, fdev_dev = a\<rparr>
                                      in (0, priv\<lparr>lg_fdev_list := f # lg_fdev_list priv\<rparr>, k, w))"

text \<open>The registers of a node, the three words of its property \<open>reg\<close>.\<close>

definition NUM_REGS :: nat where [const_defs]: "NUM_REGS = 3"

definition reg_words :: "blob \<Rightarrow> int \<Rightarrow> u32 list" where
  "reg_words fdt reg = map (\<lambda>i. be32 fdt (reg + 4 * int i)) [0..<NUM_REGS]"

text \<open>
  The body of the loop over the nodes, up to the call of \<open>fpga_pcie_probe_one\<close>: the driver and the
  address for the node at \<open>offset\<close>, \<open>Some None\<close> where the source continues with the next node.
\<close>

definition node_driver ::
  "('k, 'h) fpga_drv_entry list \<Rightarrow> (nat \<Rightarrow> u64) \<Rightarrow> blob \<Rightarrow> int \<Rightarrow>
   (('k, 'h) fpga_drv_entry \<times> u64) option option" where
  "node_driver tab baddr fdt offset = do {
     (name, len) \<leftarrow> fdt_get_name fdt offset;
     if name = None then Some None
     else do {
       (cmpt, len) \<leftarrow> fdt_getprop fdt offset (bytes ''compatible'');
       case cmpt of None \<Rightarrow> Some None
       | Some cmpt \<Rightarrow>
          (case fpga_drv_lookup tab fdt cmpt of None \<Rightarrow> Some None
           | Some drv \<Rightarrow> do {
               (reg, len) \<leftarrow> fdt_getprop fdt offset (bytes ''reg'');
               case reg of None \<Rightarrow> Some None
               | Some reg \<Rightarrow>
                  if len \<noteq> int NUM_REGS * 4 then Some None
                  else
                    let regs = reg_words fdt reg in
                    if unat (regs ! 0) < ALTR_PCI_CVP_NUM_BARS \<and> baddr (unat (regs ! 0)) \<noteq> 0
                    then Some (Some (drv, baddr (unat (regs ! 0)) + ucast (regs ! 1)))
                    else Some None
             })
     }
   }"

partial_function (option) probe_loop ::
    "'k legacy_api \<Rightarrow> ('k, 'h) fpga_drv_entry list \<Rightarrow> blob \<Rightarrow> int \<Rightarrow> ('k, 'h) legacy_priv \<Rightarrow> 'k kbase \<Rightarrow>
     'h world \<Rightarrow> (('k, 'h) legacy_priv \<times> 'k kbase \<times> 'h world) option" where
  [code]: "probe_loop api tab fdt offset priv k w =
    (if offset < 0 then Some (priv, k, w)
     else do {
       r \<leftarrow> node_driver tab (lg_bar_addrs priv) fdt offset;
       let (priv, k, w) = (case r of
           None \<Rightarrow> (priv, k, w)
         | Some (drv, p) \<Rightarrow> snd (legacy_probe_one api drv p priv k w));
       (offset, _) \<leftarrow> fdt_next_node fdt offset None;
       probe_loop api tab fdt offset priv k w
     })"

definition legacy_probe_all_subdrivers ::
  "'k legacy_api \<Rightarrow> ('k, 'h) fpga_drv_entry list \<Rightarrow> blob \<Rightarrow> ('k, 'h) legacy_priv \<Rightarrow> 'k kbase \<Rightarrow> 'h world \<Rightarrow>
   (int \<times> ('k, 'h) legacy_priv \<times> 'k kbase \<times> 'h world) option" where
  "legacy_probe_all_subdrivers api tab fdt priv k w =
     (if fdt_check_header fdt \<noteq> 0 then Some (fdt_check_header fdt, priv, k, w)
      else do {
        (offset, _) \<leftarrow> fdt_next_node fdt 0 None;
        (priv, k, w) \<leftarrow> probe_loop api tab fdt offset priv k w;
        Some (0, priv\<lparr>lg_state := LST_BASE_PROBED\<rparr>, k, w)
      })"

definition legacy_remove_one ::
  "'k legacy_api \<Rightarrow> ('k, 'h) fdev \<Rightarrow> 'k kbase \<Rightarrow> 'h world \<Rightarrow> ('k kbase \<times> 'h world) option" where
  "legacy_remove_one api f k w = do {
     (_, k, w) \<leftarrow> fdev_remove f (fdev_dev f) k w;
     let k = give_back (Bound (fdev_dev f)) (\<lambda>s. s) k;
     let k = give_back (SubDevice (fdev_dev f)) (api_device_del api (fdev_dev f)) k;
     Some (give_back (Memory (fdev_dev f)) (api_kfree api (fdev_dev f)) k, w)
   }"

fun remove_loop ::
  "'k legacy_api \<Rightarrow> ('k, 'h) fdev list \<Rightarrow> 'k kbase \<Rightarrow> 'h world \<Rightarrow> ('k kbase \<times> 'h world) option" where
  "remove_loop api [] k w = Some (k, w)"
| "remove_loop api (f # fs) k w = do { (k, w) \<leftarrow> legacy_remove_one api f k w; remove_loop api fs k w }"

definition legacy_remove_all_subdrivers ::
  "'k legacy_api \<Rightarrow> ('k, 'h) legacy_priv \<Rightarrow> 'k kbase \<Rightarrow> 'h world \<Rightarrow>
   (('k, 'h) legacy_priv \<times> 'k kbase \<times> 'h world) option" where
  "legacy_remove_all_subdrivers api priv k w = do {
     (k, w) \<leftarrow> remove_loop api (lg_fdev_list priv) k w;
     Some (priv\<lparr>lg_fdev_list := [], lg_state := LST_IDLE\<rparr>, k, w)
   }"

section \<open>Printing the ROM\<close>

text \<open>The lines that \<open>dump_dtb\<close> prints about nodes: the pointers to name and compatible, and the registers.\<close>

definition dump_node :: "blob \<Rightarrow> int \<Rightarrow> (int \<times> int \<times> u32 list) list option" where
  "dump_node fdt offset = do {
     (name, len) \<leftarrow> fdt_get_name fdt offset;
     case name of None \<Rightarrow> Some []
     | Some name \<Rightarrow> do {
         (cmpt, len) \<leftarrow> fdt_getprop fdt offset (bytes ''compatible'');
         case cmpt of None \<Rightarrow> Some []
         | Some cmpt \<Rightarrow> do {
             (reg, len) \<leftarrow> fdt_getprop fdt offset (bytes ''reg'');
             case reg of None \<Rightarrow> Some []
             | Some reg \<Rightarrow> Some (if len \<noteq> int NUM_REGS * 4 then [] else [(name, cmpt, reg_words fdt reg)])
           }
       }
   }"

partial_function (option) dump_loop :: "blob \<Rightarrow> int \<Rightarrow> (int \<times> int \<times> u32 list) list option" where
  [code]: "dump_loop fdt offset =
    (if offset < 0 then Some []
     else do {
       line \<leftarrow> dump_node fdt offset;
       (offset, _) \<leftarrow> fdt_next_node fdt offset None;
       lines \<leftarrow> dump_loop fdt offset;
       Some (line @ lines)
     })"

definition dump_dtb :: "blob \<Rightarrow> (int \<times> int \<times> u32 list) list option" where
  "dump_dtb fdt = do { (offset, _) \<leftarrow> fdt_next_node fdt 0 None; dump_loop fdt offset }"

definition legacy_print_rom ::
  "('h, 'z) bus_scheme \<Rightarrow> blob \<Rightarrow> ('k, 'h) legacy_priv \<Rightarrow> 'h world \<Rightarrow> 'h world option" where
  "legacy_print_rom b rom priv w = do {
     _ \<leftarrow> (if fdt_check_header rom \<noteq> 0 then Some [] else dump_dtb rom);
     Some (print_rom_loop b (lg_bar_addrs priv ALTR_PCI_CVP_CONFIG_BAR + ALTR_PCI_CONFIG_ROM_OFFSET) 0
       (ALTR_PCI_CONFIG_ROM_LEN div 4) w)
   }"

section \<open>The files of debugfs\<close>

text \<open>
  What the first character of a write to \<open>state\<close> makes the driver do. The result is the return code,
  the count unless it is an error; \<open>rom\<close> is the memory of the card behind the address of the ROM.
\<close>

definition state_command ::
  "'k legacy_api \<Rightarrow> ('k, 'h) fpga_drv_entry list \<Rightarrow> ('h, 'z) pci_bus_scheme \<Rightarrow> blob \<Rightarrow> u8 \<Rightarrow> int \<Rightarrow>
   ('k, 'h) legacy_priv \<Rightarrow> 'k kbase \<Rightarrow> 'h world \<Rightarrow>
   (int \<times> ('k, 'h) legacy_priv \<times> 'k kbase \<times> 'h world) option" where
  "state_command api tab b rom c cnt priv k w =
     (if c = of_char (CHR ''1'') then
        (if lg_state priv = LST_AER_DISABLED then Some (cnt, priv, k, w)
         else do {
           (priv, k, w) \<leftarrow> legacy_remove_all_subdrivers api priv k w;
           let (reg, w) = disable_upstream_aer b (Some (lg_pci_dev priv)) (lg_pci_upstream_dev priv) w;
           let priv = priv\<lparr>lg_aer_uerr_mask_reg := reg\<rparr>;
           let w = pci_save_state b (lg_pci_dev priv) w;
           Some (cnt, priv\<lparr>lg_state := LST_AER_DISABLED\<rparr>, k, w)
         })
      else if c = of_char (CHR ''0'') then
        (if lg_state priv = LST_AER_DISABLED then do {
           let w = pci_restore_state b (lg_pci_dev priv) w;
           up \<leftarrow> lg_pci_upstream_dev priv;
           let w = set_aer_uerr_mask_reg b up (lg_aer_uerr_mask_reg priv) w;
           let w = retrain_device_speed b (lg_pci_dev priv) up w;
           Some (cnt, priv\<lparr>lg_state := LST_IDLE\<rparr>, k, w)
         }
         else if lg_state priv = LST_IDLE then Some (cnt, priv, k, w)
         else Some (- EINVAL, priv, k, w))
      else if c = of_char (CHR ''3'') then
        (if lg_state priv = LST_IDLE then do {
           (_, priv, k, w) \<leftarrow> legacy_probe_all_subdrivers api tab rom priv k w;
           Some (cnt, priv, k, w)
         }
         else if lg_state priv = LST_BASE_PROBED then Some (cnt, priv, k, w)
         else Some (- EINVAL, priv, k, w))
      else if c = of_char (CHR ''4'') then
        (if lg_state priv = LST_BASE_PROBED then do {
           (priv, k, w) \<leftarrow> legacy_remove_all_subdrivers api priv k w;
           Some (cnt, priv, k, w)
         }
         else if lg_state priv = LST_IDLE then Some (cnt, priv, k, w)
         else Some (- EINVAL, priv, k, w))
      else if c = of_char (CHR ''5'') then do {
        w \<leftarrow> legacy_print_rom b rom priv w;
        Some (cnt, priv, k, w)
      }
      else Some (- EINVAL, priv, k, w))"

text \<open>
  A write to a file: the number of bytes, and the bytes themselves unless the copy from user space
  fails. With no byte written the driver looks at what lies behind its empty buffer, the
  parameter \<open>stray\<close>.
\<close>

definition legacy_state_write_file ::
  "'k legacy_api \<Rightarrow> ('k, 'h) fpga_drv_entry list \<Rightarrow> ('h, 'z) pci_bus_scheme \<Rightarrow> blob \<Rightarrow> u8 \<Rightarrow>
   nat \<Rightarrow> u8 list option \<Rightarrow> ('k, 'h) legacy_priv \<Rightarrow> 'k kbase \<Rightarrow> 'h world \<Rightarrow>
   (int \<times> ('k, 'h) legacy_priv \<times> 'k kbase \<times> 'h world) option" where
  "legacy_state_write_file api tab b rom stray cnt user_buf priv k w =
     (let (a, s) = api_kzalloc api (kern k);
          k = acquire (Memory a) (a \<noteq> 0) s k
      in if a = 0 then Some (- ENOMEM, priv, k, w)
         else do {
           (ret, priv, k, w) \<leftarrow> (case user_buf of
               None \<Rightarrow> Some (- EFAULT, priv, k, w)
             | Some bs \<Rightarrow>
                 state_command api tab b rom (if cnt = 0 then stray else hd bs) (int cnt) priv k w);
           Some (ret, priv, give_back (Memory a) (api_kfree api a) k, w)
         })"

text \<open>A read of \<open>state\<close>: return code, new position, and the bytes for the user.\<close>

definition legacy_state_read_file ::
  "('k, 'h) legacy_priv \<Rightarrow> bool \<Rightarrow> nat \<Rightarrow> nat \<Rightarrow> int \<times> nat \<times> string" where
  "legacy_state_read_file priv copy_ok cnt ppos =
     (let len = length (state_text (lg_state priv)) in
      if ppos = 0 then
        (if len < cnt then
           (if copy_ok then (int len, len, state_text (lg_state priv)) else (0, ppos, []))
         else (- EINVAL, ppos, []))
      else (0, ppos, []))"

definition legacy_base_dtb_write_file ::
  "'k legacy_api \<Rightarrow> ('k, 'h) fpga_drv_entry list \<Rightarrow> (u8 list \<Rightarrow> blob) \<Rightarrow>
   nat \<Rightarrow> u8 list option \<Rightarrow> ('k, 'h) legacy_priv \<Rightarrow> 'k kbase \<Rightarrow> 'h world \<Rightarrow>
   (int \<times> ('k, 'h) legacy_priv \<times> 'k kbase \<times> 'h world) option" where
  "legacy_base_dtb_write_file api tab mem cnt user_buf priv k w =
     (let (a, s) = api_kzalloc api (kern k);
          k = acquire (Memory a) (a \<noteq> 0) s k
      in if a = 0 then Some (- ENOMEM, priv, k, w)
         else do {
           (ret, priv, k, w) \<leftarrow> (case user_buf of
               None \<Rightarrow> Some (- EFAULT, priv, k, w)
             | Some bs \<Rightarrow> do {
                 (priv, k, w) \<leftarrow> legacy_remove_all_subdrivers api priv k w;
                 (_, priv, k, w) \<leftarrow> legacy_probe_all_subdrivers api tab (mem bs) priv k w;
                 Some (int cnt, priv, k, w)
               });
           Some (ret, priv, give_back (Memory a) (api_kfree api a) k, w)
         })"

section \<open>Bringing a card up and down\<close>

fun legacy_unmap_bars :: "'k legacy_api \<Rightarrow> (nat \<Rightarrow> u64) \<Rightarrow> nat list \<Rightarrow> 'k kbase \<Rightarrow> 'k kbase" where
  "legacy_unmap_bars api baddr [] k = k"
| "legacy_unmap_bars api baddr (i # is) k =
     legacy_unmap_bars api baddr is
       (if baddr i \<noteq> 0 then give_back (Mapping (baddr i)) (api_iounmap api (baddr i)) k else k)"

definition legacy_shutdown_pci ::
  "'k legacy_api \<Rightarrow> pci_dev \<Rightarrow> ('k, 'h) legacy_priv \<Rightarrow> 'k kbase \<Rightarrow> ('k, 'h) legacy_priv \<times> 'k kbase" where
  "legacy_shutdown_pci api d priv k =
     (let (priv, k) =
            (if lg_uio_size priv > 0
             then (priv\<lparr>lg_uio_size := 0\<rparr>, give_back (UioDevice d) (api_uio_unregister api d) k)
             else (priv, k));
          k = legacy_unmap_bars api (lg_bar_addrs priv) [0..<ALTR_PCI_CVP_NUM_BARS] k;
          k = give_back (Regions d) (api_release_regions api d) k
      in (priv, give_back (DevEnabled d) (api_disable_device api d) k))"

text \<open>The loop over the BARs: the region of the PR logic is also given to user space through UIO.\<close>

fun legacy_map_bars ::
  "'k legacy_api \<Rightarrow> pci_dev \<Rightarrow> nat list \<Rightarrow> ('k, 'h) legacy_priv \<Rightarrow> 'k kbase \<Rightarrow>
   bool \<times> ('k, 'h) legacy_priv \<times> 'k kbase" where
  "legacy_map_bars api d [] priv k = (True, priv, k)"
| "legacy_map_bars api d (i # is) priv k =
     (let bar_start = api_resource_start api d i (kern k) in
      if bar_start \<noteq> 0
      then let bar_end = api_resource_end api d i (kern k);
               (a, s) = api_ioremap_bar api d i (kern k);
               k = acquire (Mapping a) (a \<noteq> 0) s k;
               priv = priv\<lparr>lg_bar_addrs := (lg_bar_addrs priv)(i := a)\<rparr>
           in if a = 0 then (False, priv, k)
              else if i = ALTR_PCI_CVP_PR_BAR
              then let priv = priv\<lparr>lg_uio_size := bar_end - bar_start + 1\<rparr>;
                       (ret, s) = api_uio_register api d (kern k);
                       k = acquire (UioDevice d) (ret = 0) s k
                   in if ret \<noteq> 0 then (False, priv\<lparr>lg_uio_size := 0\<rparr>, k)
                      else legacy_map_bars api d is priv k
              else legacy_map_bars api d is priv k
      else legacy_map_bars api d is priv k)"

definition legacy_setup_pci ::
  "'k legacy_api \<Rightarrow> pci_dev \<Rightarrow> ('k, 'h) legacy_priv \<Rightarrow> 'k kbase \<Rightarrow> int \<times> ('k, 'h) legacy_priv \<times> 'k kbase" where
  "legacy_setup_pci api d priv k =
     (let priv = priv\<lparr>lg_pci_dev := d, lg_pci_upstream_dev := api_upstream_bridge api d (kern k)\<rparr>
      in if lg_pci_upstream_dev priv = None then (- EINVAL, priv, k)
         else let (ret, s) = api_enable_device api d (kern k);
                  k = acquire (DevEnabled d) (ret = 0) s k
              in if ret \<noteq> 0 then (- EIO, priv, k)
                 else let k = k\<lparr>kern := api_set_master api d (kern k)\<rparr>;
                          (ret, s) = api_request_regions api d (kern k);
                          k = acquire (Regions d) (ret = 0) s k
                      in if ret \<noteq> 0
                         then (- EIO, priv, give_back (DevEnabled d) (api_disable_device api d) k)
                         else let (ok, priv, k) = legacy_map_bars api d [0..<ALTR_PCI_CVP_NUM_BARS] priv k
                              in if ok then (0, priv, k)
                                 else let (priv, k) = legacy_shutdown_pci api d priv k
                                      in (- EIO, priv, k))"

definition legacy_zero_priv :: "('k, 'h) legacy_priv" where
  "legacy_zero_priv = \<lparr>lg_bar_addrs = (\<lambda>_. 0), lg_debugfs_root = 0, lg_pci_dev = 0, lg_pci_upstream_dev = None,
     lg_aer_uerr_mask_reg = 0, lg_state = LST_IDLE, lg_uio_size = 0, lg_fdev_list = []\<rparr>"

text \<open>
  The probe of a card. The result has the driver data of the device, \<open>None\<close> while no pointer has been
  stored. The return code of \<open>pcie_capability_read_word\<close> is all that is used of it.
\<close>

definition legacy_probe ::
  "'k legacy_api \<Rightarrow> pci_dev \<Rightarrow> 'k kbase \<Rightarrow> int \<times> ('k, 'h) legacy_priv option \<times> 'k kbase" where
  "legacy_probe api d k =
     (if api_read_devctl api d (kern k) \<noteq> 0 then (- EINVAL, None, k)
      else let (ok, s) = api_devm_kzalloc api (kern k);
               k = k\<lparr>kern := s\<rparr>
           in if \<not> ok then (- ENOMEM, None, k)
              else let priv = legacy_zero_priv;
                       (root, s) = api_debugfs_dir api (kern k);
                       k = acquire (DebugfsDir root) (root \<noteq> 0) s k;
                       priv = priv\<lparr>lg_debugfs_root := root\<rparr>
                   in if root = 0 then (- EIO, None, k)
                      else let (ok, s) = api_debugfs_file api ''state'' root (kern k);
                               k = k\<lparr>kern := s\<rparr>
                           in if \<not> ok
                              then (- EIO, None, give_back (DebugfsDir root) (api_debugfs_remove api root) k)
                              else let (ok, s) = api_debugfs_file api ''base_dtb'' root (kern k);
                                       k = k\<lparr>kern := s\<rparr>
                                   in if \<not> ok
                                      then (- EIO, None, give_back (DebugfsDir root) (api_debugfs_remove api root) k)
                                      else let (err, priv, k) = legacy_setup_pci api d priv k
                                           in (err, Some priv, k))"

definition legacy_remove ::
  "'k legacy_api \<Rightarrow> pci_dev \<Rightarrow> ('k, 'h) legacy_priv option \<Rightarrow> 'k kbase \<Rightarrow> 'h world \<Rightarrow> ('k kbase \<times> 'h world) option" where
  "legacy_remove api d data k w = do {
     priv \<leftarrow> data;
     (priv, k, w) \<leftarrow> legacy_remove_all_subdrivers api priv k w;
     let (priv, k) = legacy_shutdown_pci api d priv k;
     Some (if lg_debugfs_root priv \<noteq> 0
           then give_back (DebugfsDir (lg_debugfs_root priv)) (api_debugfs_remove api (lg_debugfs_root priv)) k
           else k, w)
   }"

section \<open>The module\<close>

definition legacy_register_driver :: "'k legacy_api \<Rightarrow> 'k kbase \<Rightarrow> int \<times> 'k kbase" where
  "legacy_register_driver api k =
     (let (ret, s) = api_register_driver api (kern k) in (ret, acquire PciDriver (ret \<ge> 0) s k))"

definition legacy_unregister_driver :: "'k legacy_api \<Rightarrow> 'k kbase \<Rightarrow> 'k kbase" where
  "legacy_unregister_driver api k = give_back PciDriver (api_unregister_driver api) k"

text \<open>The result has the global \<open>fpga_pcie_debugfs_root\<close>; a failed creation is only reported.\<close>

definition legacy_init :: "'k legacy_api \<Rightarrow> 'k kbase \<Rightarrow> int \<times> nat \<times> 'k kbase" where
  "legacy_init api k =
     (let (root, s) = api_debugfs_dir api (kern k);
          k = acquire (DebugfsDir root) (root \<noteq> 0) s k;
          (err, k) = legacy_register_driver api k
      in if err < 0 then (err, root, legacy_unregister_driver api k) else (0, root, k))"

definition legacy_exit :: "'k legacy_api \<Rightarrow> nat \<Rightarrow> 'k kbase \<Rightarrow> 'k kbase" where
  "legacy_exit api root k =
     legacy_unregister_driver api (give_back (DebugfsDir root) (api_debugfs_remove api root) k)"

end
