(* ===== verification/Legacy_Run.thy ===== *)
theory Legacy_Run
  imports Legacy_Pcie
begin

text \<open>
  Properties of the older PCIe driver: which subdrivers it binds for a device tree, that none is
  bound unless its state says so, how it handles the error mask, and that every resource is given back.
\<close>

section \<open>What a subdriver promises\<close>

text \<open>
  A subdriver takes no resource of the PCIe driver, and of the hardware it touches only the
  registers in the memory of the card. It may rely on an invariant \<open>ok\<close> of the kernel's state, which the
  kernel functions that the PCIe driver calls in between keep.
\<close>

definition api_keeps :: "('k \<Rightarrow> bool) \<Rightarrow> 'k legacy_api \<Rightarrow> bool" where
  "api_keeps ok api \<longleftrightarrow>
     (\<forall>s. ok s \<longrightarrow> ok (snd (api_kzalloc api s)) \<and>
        (\<forall>a. ok (api_kfree api a s) \<and> ok (api_device_del api a s) \<and> ok (snd (api_device_add api a s)) \<and>
           (\<forall>n. ok (snd (api_set_name api a n s)))))"

lemma api_keepsD:
  assumes "api_keeps ok api" "ok s"
  shows "api_kzalloc api s = (a, s') \<Longrightarrow> ok s'" "ok (api_kfree api a s)" "ok (api_device_del api a s)"
    "api_device_add api a s = (e, s') \<Longrightarrow> ok s'" "api_set_name api a n s = (e, s') \<Longrightarrow> ok s'"
  using assms by (auto simp: api_keeps_def dest!: spec [of _ s]) (metis snd_conv)+

locale subdrivers =
  fixes tab :: "('k, 'h) fpga_drv_entry list" and ok :: "'k \<Rightarrow> bool"
  assumes probe_quiet: "drv \<in> set tab \<Longrightarrow> ok (kern k) \<Longrightarrow> drv_probe drv a p k w = (r, k', w') \<Longrightarrow>
      klog k' = klog k \<and> mmio_step w w' \<and> ok (kern k')"
    and remove_quiet: "drv \<in> set tab \<Longrightarrow> ok (kern k) \<Longrightarrow> drv_remove drv a k w = Some (r, k', w') \<Longrightarrow>
      klog k' = klog k \<and> mmio_step w w' \<and> ok (kern k')"

definition fdev_resources :: "('k, 'h) fdev list \<Rightarrow> resource list" where
  "fdev_resources fs = concat (map (\<lambda>f. [Bound (fdev_dev f), SubDevice (fdev_dev f), Memory (fdev_dev f)]) fs)"

lemma fdev_resources_simps [simp]:
  "fdev_resources [] = []" "fdev_resources (fs @ gs) = fdev_resources fs @ fdev_resources gs"
  "fdev_resources (f # fs) = [Bound (fdev_dev f), SubDevice (fdev_dev f), Memory (fdev_dev f)] @ fdev_resources fs"
  by (simp_all add: fdev_resources_def)

text \<open>A log that gives back only what is held, and ends with \<open>rs\<close> in addition.\<close>

definition gains :: "kevent list \<Rightarrow> resource list \<Rightarrow> bool" where
  "gains t rs \<longleftrightarrow> (\<forall>M. puts_ok M t \<and> held M t = M + mset rs)"

lemma gains_Nil [simp]: "gains [] []"
  by (simp add: gains_def)

lemma gains_append: "gains t rs \<Longrightarrow> gains t' rs' \<Longrightarrow> gains (t @ t') (rs' @ rs)"
  by (auto simp: gains_def ac_simps)

text \<open>A log that turns the held resources \<open>rs\<close> into \<open>rs'\<close> and leaves all others alone.\<close>

definition trades :: "kevent list \<Rightarrow> resource list \<Rightarrow> resource list \<Rightarrow> bool" where
  "trades t rs rs' \<longleftrightarrow> (\<forall>M. puts_ok (M + mset rs) t \<and> held (M + mset rs) t = M + mset rs')"

lemma trades_Nil [simp]: "trades [] rs rs"
  by (simp add: trades_def)

lemma trades_append: "trades t rs rs' \<Longrightarrow> trades t' rs' rs'' \<Longrightarrow> trades (t @ t') rs rs''"
  by (auto simp: trades_def)

lemma trades_gains: "gains t rs \<Longrightarrow> trades t rs0 (rs @ rs0)"
  by (auto simp: gains_def trades_def ac_simps)

lemma trades_puts: "trades (map Put rs) rs []"
  by (simp add: trades_def)

lemma trades_between:
  assumes "trades t rs rs'"
  shows "trades (Get r # t @ [Put r]) rs rs'"
proof -
  have "puts_ok (add_mset r M + mset rs) t \<and> held (add_mset r M + mset rs) t = add_mset r M + mset rs'" for M
    using assms unfolding trades_def by blast
  then show ?thesis by (simp add: trades_def)
qed

definition from_table :: "('k, 'h) fpga_drv_entry list \<Rightarrow> ('k, 'h) fdev list \<Rightarrow> bool" where
  "from_table tab fs \<longleftrightarrow> (\<forall>f\<in>set fs. \<exists>drv\<in>set tab. fdev_remove f = drv_remove drv)"

lemma from_table_simps [simp]:
  "from_table tab []" "from_table tab (fs @ gs) \<longleftrightarrow> from_table tab fs \<and> from_table tab gs"
  by (auto simp: from_table_def)

definition probe_effect ::
  "('k, 'h) fpga_drv_entry list \<Rightarrow> ('k \<Rightarrow> bool) \<Rightarrow> ('k, 'h) legacy_priv \<Rightarrow> 'k kbase \<Rightarrow> 'h world \<Rightarrow>
   ('k, 'h) legacy_priv \<times> 'k kbase \<times> 'h world \<Rightarrow> bool" where
  "probe_effect tab ok priv k w r \<longleftrightarrow>
    (case r of (priv', k', w') \<Rightarrow> mmio_step w w' \<and> ok (kern k') \<and>
      (\<exists>fs t. priv' = priv\<lparr>lg_fdev_list := fs @ lg_fdev_list priv\<rparr> \<and>
         from_table tab fs \<and> klog k' = klog k @ t \<and> gains t (fdev_resources fs)))"

lemma probe_effect_trans:
  assumes "probe_effect tab ok priv k w (priv1, k1, w1)" "probe_effect tab ok priv1 k1 w1 r"
  shows "probe_effect tab ok priv k w r"
proof -
  obtain priv' k' w' where r: "r = (priv', k', w')" by (metis prod_cases3)
  from assms obtain fs t fs' t' where
    "priv1 = priv\<lparr>lg_fdev_list := fs @ lg_fdev_list priv\<rparr>" "from_table tab fs" "klog k1 = klog k @ t"
    "gains t (fdev_resources fs)"
    "priv' = priv1\<lparr>lg_fdev_list := fs' @ lg_fdev_list priv1\<rparr>" "from_table tab fs'" "klog k' = klog k1 @ t'"
    "gains t' (fdev_resources fs')"
    unfolding probe_effect_def r by auto
  then have "priv' = priv\<lparr>lg_fdev_list := (fs' @ fs) @ lg_fdev_list priv\<rparr> \<and> from_table tab (fs' @ fs) \<and>
      klog k' = klog k @ (t @ t') \<and> gains (t @ t') (fdev_resources (fs' @ fs))"
    by (auto intro: gains_append)
  moreover have "mmio_step w w'" using assms unfolding probe_effect_def r by (auto intro: mmio_step_trans)
  moreover have "ok (kern k')" using assms(2) unfolding probe_effect_def r by simp
  ultimately show ?thesis unfolding probe_effect_def r by blast
qed

context subdrivers
begin

lemma probe_one_spec:
  assumes "drv \<in> set tab" "legacy_probe_one api drv p priv k w = (r, priv', k', w')"
    and keeps: "api_keeps ok api" "ok (kern k)"
  shows "probe_effect tab ok priv k w (priv', k', w')"
proof -
  obtain a s where a: "api_kzalloc api (kern k) = (a, s)" by fastforce
  let ?k = "acquire (Memory a) (a \<noteq> 0) s k"
  obtain e1 s1 where 1: "api_set_name api a (drv_prefix drv) s = (e1, s1)" by fastforce
  obtain e2 s2 where 2: "api_device_add api a s1 = (e2, s2)" by fastforce
  let ?k2 = "acquire (SubDevice a) (e2 = 0) s2 (?k\<lparr>kern := s1\<rparr>)"
  obtain e3 k3 w3 where 3: "drv_probe drv a p ?k2 w = (e3, k3, w3)" by (metis prod_cases3)
  note keep = api_keepsD [OF keeps(1)]
  have oks: "ok s" "ok s1" "ok s2" using keep(1) [OF keeps(2) a] keep(5) [OF _ 1] keep(4) [OF _ 2] by auto
  then have k3: "klog k3 = klog ?k2" "mmio_step w w3" "ok (kern k3)"
    using probe_quiet [OF assms(1) _ 3] by auto
  have same: "priv = priv\<lparr>lg_fdev_list := [] @ lg_fdev_list priv\<rparr>" by simp
  note run = assms(2) [unfolded legacy_probe_one_def, simplified a 1 2 3 Let_def]
  consider (null) "a = 0" | (name) "a \<noteq> 0" "e1 \<noteq> 0" | (add) "a \<noteq> 0" "e1 = 0" "e2 \<noteq> 0"
    | (probe) "a \<noteq> 0" "e1 = 0" "e2 = 0" "e3 \<noteq> 0" | (ok) "a \<noteq> 0" "e1 = 0" "e2 = 0" "e3 = 0" by blast
  then show ?thesis
  proof cases
    case null
    then show ?thesis using run same oks by (auto simp: probe_effect_def intro!: exI [of _ "[]"])
  next
    case name
    then show ?thesis using run 1 oks keep(2)
      by (auto intro!: exI [of _ "[]"] exI [of _ "[Get (Memory a), Put (Memory a)]"] simp: gains_def probe_effect_def)
  next
    case add
    then show ?thesis using run 1 2 oks keep(2)
      by (auto intro!: exI [of _ "[]"] exI [of _ "[Get (Memory a), Put (Memory a)]"] simp: gains_def probe_effect_def)
  next
    case probe
    then show ?thesis using run 1 2 3 k3 keep(2,3)
      by (auto simp: gains_def probe_effect_def intro!: exI [of _ "[]"]
          exI [of _ "[Get (Memory a), Get (SubDevice a), Put (SubDevice a), Put (Memory a)]"])
  next
    case ok
    then show ?thesis using run 1 2 3 k3 assms(1)
      by (auto intro!: exI [of _ "[\<lparr>fdev_remove = drv_remove drv, fdev_dev = a\<rparr>]"]
          exI [of _ "[Get (Memory a), Get (SubDevice a), Get (Bound a)]"] simp: gains_def from_table_def probe_effect_def)
  qed
qed

lemma node_driver_table: "node_driver tab baddr fdt off = Some (Some (drv, p)) \<Longrightarrow> drv \<in> set tab"
  unfolding node_driver_def Let_def fpga_drv_lookup_def
  by (auto split: option.split_asm if_split_asm Option.bind_split_asm prod.split_asm dest: find_in)

lemma node_step_spec:
  assumes "node_driver tab (lg_bar_addrs priv) fdt off = Some x"
    and "(case x of None \<Rightarrow> (priv, k, w) | Some (drv, p) \<Rightarrow> snd (legacy_probe_one api drv p priv k w)) = (priv', k', w')"
    and "api_keeps ok api" "ok (kern k)"
  shows "probe_effect tab ok priv k w (priv', k', w')"
proof (cases x)
  case None
  then have "priv' = priv\<lparr>lg_fdev_list := [] @ lg_fdev_list priv\<rparr>" "k' = k" "w' = w" using assms(2) by auto
  then show ?thesis using assms(4) by (auto simp: probe_effect_def intro!: exI [of _ "[]"])
next
  case (Some y)
  obtain drv p where y: "y = (drv, p)" by force
  obtain r where "legacy_probe_one api drv p priv k w = (r, priv', k', w')"
    using assms(2) Some y by (cases "legacy_probe_one api drv p priv k w") auto
  then show ?thesis using probe_one_spec node_driver_table assms(1,3,4) Some y by blast
qed

lemma probe_loop_effect:
  assumes ret: "probe_loop api tab fdt off priv k w = Some r" and "api_keeps ok api" "ok (kern k)"
  shows "probe_effect tab ok priv k w r"
proof -
  let ?P = "\<lambda>api tab' fdt off priv k w r. tab' = tab \<and> api_keeps ok api \<and> ok (kern k) \<longrightarrow> probe_effect tab ok priv k w r"
  have "?P api tab fdt off priv k w r"
  proof (rule probe_loop.raw_induct [where P = ?P, OF _ ret], intro impI)
    fix loop api tab' fdt off priv k w r
    assume IH: "\<And>api tab' fdt off priv k w r. loop api tab' fdt off priv k w = Some r \<Longrightarrow> ?P api tab' fdt off priv k w r"
      and eq: "(if off < 0 then Some (priv, k, w)
         else do {
           x \<leftarrow> node_driver tab' (lg_bar_addrs priv) fdt off;
           let (priv, k, w) = (case x of
               None \<Rightarrow> (priv, k, w)
             | Some (drv, p) \<Rightarrow> snd (legacy_probe_one api drv p priv k w));
           (off, _) \<leftarrow> fdt_next_node fdt off None;
           loop api tab' fdt off priv k w
         }) = Some r" and pre: "tab' = tab \<and> api_keeps ok api \<and> ok (kern k)"
    then have tab: "tab' = tab" and keeps: "api_keeps ok api" "ok (kern k)" by auto
    show "probe_effect tab ok priv k w r"
    proof (cases "off < 0")
      case True
      then show ?thesis using eq keeps by (auto simp: probe_effect_def intro!: exI [of _ "[]"])
    next
      case False
      with eq obtain x where x: "node_driver tab (lg_bar_addrs priv) fdt off = Some x"
        by (auto simp: bind_eq_Some_conv tab)
      obtain priv1 k1 w1 where 1: "(case x of None \<Rightarrow> (priv, k, w)
          | Some (drv, p) \<Rightarrow> snd (legacy_probe_one api drv p priv k w)) = (priv1, k1, w1)" by (metis prod_cases3)
      obtain off' d where "loop api tab fdt off' priv1 k1 w1 = Some r"
        using eq False by (auto simp: bind_eq_Some_conv tab x 1)
      moreover have "probe_effect tab ok priv k w (priv1, k1, w1)" by (rule node_step_spec [OF x 1 keeps])
      moreover from this have "ok (kern k1)" by (simp add: probe_effect_def)
      ultimately have "probe_effect tab ok priv1 k1 w1 r" using IH keeps(1) by blast
      with \<open>probe_effect tab ok priv k w (priv1, k1, w1)\<close> show ?thesis using probe_effect_trans by blast
    qed
  qed
  then show ?thesis using assms(2,3) by simp
qed

lemma probe_all_spec:
  assumes "legacy_probe_all_subdrivers api tab fdt priv k w = Some (r, priv', k', w')"
    and "api_keeps ok api" "ok (kern k)"
  shows "mmio_step w w' \<and> ok (kern k') \<and> (\<exists>fs t. from_table tab fs \<and> klog k' = klog k @ t \<and> gains t (fdev_resources fs) \<and>
    (r = 0 \<and> priv' = priv\<lparr>lg_fdev_list := fs @ lg_fdev_list priv, lg_state := LST_BASE_PROBED\<rparr> \<or>
     r \<noteq> 0 \<and> fs = [] \<and> priv' = priv))"
proof (cases "fdt_check_header fdt = 0")
  case True
  then show ?thesis using assms
    by (fastforce simp: legacy_probe_all_subdrivers_def bind_eq_Some_conv probe_effect_def dest!: probe_loop_effect)
next
  case False
  then show ?thesis using assms by (auto simp: legacy_probe_all_subdrivers_def intro!: exI [of _ "[]"])
qed

lemma remove_loop_spec:
  assumes "remove_loop api fs k w = Some (k', w')" "from_table tab fs" "api_keeps ok api" "ok (kern k)"
  shows "mmio_step w w' \<and> ok (kern k') \<and> klog k' = klog k @ map Put (fdev_resources fs)"
  using assms
proof (induction fs arbitrary: k w)
  case (Cons f fs)
  then obtain drv where drv: "drv \<in> set tab" "fdev_remove f = drv_remove drv" by (auto simp: from_table_def)
  from Cons.prems obtain k2 w1 where one: "legacy_remove_one api f k w = Some (k2, w1)"
    and 3: "remove_loop api fs k2 w1 = Some (k', w')"
      by (auto simp: bind_eq_Some_conv)
  from one obtain r k1 where 1: "drv_remove drv (fdev_dev f) k w = Some (r, k1, w1)"
    and 2: "klog k2 = klog k1 @ map Put [Bound (fdev_dev f), SubDevice (fdev_dev f), Memory (fdev_dev f)]"
    and k2: "kern k2 = api_kfree api (fdev_dev f) (api_device_del api (fdev_dev f) (kern k1))"
    by (auto simp: legacy_remove_one_def bind_eq_Some_conv Let_def drv)
  note q = remove_quiet [OF drv(1) Cons.prems(4) 1]
  then have "ok (kern k2)" unfolding k2 using api_keepsD(2,3) [OF Cons.prems(3)] by blast
  have "from_table tab fs" using Cons.prems by (auto simp: from_table_def)
  with \<open>ok (kern k2)\<close> Cons.IH [OF 3 _ Cons.prems(3)] q 2 show ?case by (auto intro: mmio_step_trans)
qed auto

lemma remove_all_spec:
  assumes "legacy_remove_all_subdrivers api priv k w = Some (priv', k', w')" "from_table tab (lg_fdev_list priv)"
    and "api_keeps ok api" "ok (kern k)"
  shows "mmio_step w w' \<and> ok (kern k') \<and> klog k' = klog k @ map Put (fdev_resources (lg_fdev_list priv)) \<and>
    priv' = priv\<lparr>lg_fdev_list := [], lg_state := LST_IDLE\<rparr>"
  using assms remove_loop_spec by (fastforce simp: legacy_remove_all_subdrivers_def bind_eq_Some_conv)

end

section \<open>Sequences of accesses to the files\<close>

text \<open>
  The two files of debugfs: \<open>state\<close> is written and read, \<open>base_dtb\<close> is written only. A read has the outcome of the
  copy to user space, the size of the buffer and the position in the file.
\<close>

datatype debugfs_op =
    WriteState nat "u8 list option"
  | WriteDtb nat "u8 list option"
  | ReadState bool nat nat

text \<open>The environment of the files: the kernel, the drivers, the bus, the ROM and the memory of buffers.\<close>

record ('k, 'h, 'z) legacy_env =
  env_api :: "'k legacy_api"
  env_tab :: "('k, 'h) fpga_drv_entry list"
  env_bus :: "('h, 'z) pci_bus_scheme"
  env_rom :: blob
  env_mem :: "u8 list \<Rightarrow> blob"
  env_stray :: u8

fun debugfs_step ::
  "('k, 'h, 'z) legacy_env \<Rightarrow> debugfs_op \<Rightarrow> ('k, 'h) legacy_priv \<Rightarrow> 'k kbase \<Rightarrow> 'h world \<Rightarrow>
   (int \<times> ('k, 'h) legacy_priv \<times> 'k kbase \<times> 'h world) option" where
  "debugfs_step e (WriteState cnt buf) priv k w =
     legacy_state_write_file (env_api e) (env_tab e) (env_bus e) (env_rom e) (env_stray e) cnt buf priv k w"
| "debugfs_step e (WriteDtb cnt buf) priv k w =
     legacy_base_dtb_write_file (env_api e) (env_tab e) (env_mem e) cnt buf priv k w"
| "debugfs_step e (ReadState copy_ok cnt ppos) priv k w =
     Some (fst (legacy_state_read_file priv copy_ok cnt ppos), priv, k, w)"

inductive debugfs_run ::
  "('k, 'h, 'z) legacy_env \<Rightarrow> ('k, 'h) legacy_priv \<times> 'k kbase \<times> 'h world \<Rightarrow> debugfs_op list \<Rightarrow>
   ('k, 'h) legacy_priv \<times> 'k kbase \<times> 'h world \<Rightarrow> bool"
  for e s where
  start: "debugfs_run e s [] s"
| step: "debugfs_run e s ops (priv, k, w) \<Longrightarrow> debugfs_step e op priv k w = Some (r, priv', k', w') \<Longrightarrow>
    debugfs_run e s (ops @ [op]) (priv', k', w')"


text \<open>What one write keeps: the list of bound devices is known to the log, and empty unless probed.\<close>

definition quiet_priv ::
  "('k, 'h) fpga_drv_entry list \<Rightarrow> ('k \<Rightarrow> bool) \<Rightarrow> ('k, 'h) legacy_priv \<Rightarrow> 'k kbase \<Rightarrow> bool" where
  "quiet_priv tab ok priv k \<longleftrightarrow> ok (kern k) \<and>
     from_table tab (lg_fdev_list priv) \<and> (lg_state priv \<noteq> LST_BASE_PROBED \<longrightarrow> lg_fdev_list priv = [])"

definition same_card :: "('k, 'h) legacy_priv \<Rightarrow> ('k, 'h) legacy_priv \<Rightarrow> bool" where
  "same_card p q \<longleftrightarrow> lg_bar_addrs p = lg_bar_addrs q \<and> lg_debugfs_root p = lg_debugfs_root q \<and>
     lg_pci_dev p = lg_pci_dev q \<and> lg_pci_upstream_dev p = lg_pci_upstream_dev q \<and> lg_uio_size p = lg_uio_size q"

definition kept ::
  "('k, 'h) fpga_drv_entry list \<Rightarrow> ('k \<Rightarrow> bool) \<Rightarrow> ('k, 'h) legacy_priv \<Rightarrow> 'k kbase \<Rightarrow>
   ('k, 'h) legacy_priv \<Rightarrow> 'k kbase \<Rightarrow> bool" where
  "kept tab ok priv k priv' k' \<longleftrightarrow> quiet_priv tab ok priv' k' \<and> same_card priv priv' \<and>
     (\<exists>t. klog k' = klog k @ t \<and> trades t (fdev_resources (lg_fdev_list priv)) (fdev_resources (lg_fdev_list priv')))"

lemma kept_refl [simp]: "quiet_priv tab ok priv k \<Longrightarrow> kept tab ok priv k priv k"
  by (auto simp: kept_def same_card_def)

lemma kept_update: "lg_fdev_list q = lg_fdev_list priv \<Longrightarrow> quiet_priv tab ok q k \<Longrightarrow>
    same_card priv q \<Longrightarrow> kept tab ok priv k q k"
  by (auto simp: kept_def)

lemma kept_trans: "kept tab ok p k q l \<Longrightarrow> kept tab ok q l r m \<Longrightarrow> kept tab ok p k r m"
  unfolding kept_def same_card_def by (auto intro: trades_append)

lemma kept_between:
  assumes "kept tab ok priv (acquire (Memory a) True s k) priv' k'" "api_keeps ok api"
  shows "kept tab ok priv k priv' (give_back (Memory a) (api_kfree api a) k')"
proof -
  obtain t where t: "klog k' = klog (acquire (Memory a) True s k) @ t"
    "trades t (fdev_resources (lg_fdev_list priv)) (fdev_resources (lg_fdev_list priv'))"
    using assms unfolding kept_def by blast
  then show ?thesis using assms trades_between [OF t(2), of "Memory a"]
    by (auto simp: kept_def quiet_priv_def intro: api_keepsD)
qed

lemma legacy_print_rom_mmio: "legacy_print_rom b rom priv w = Some w' \<Longrightarrow> mmio_step w w'"
  by (auto simp: legacy_print_rom_def bind_eq_Some_conv print_rom_loop_mmio)

text \<open>What a character written to \<open>state\<close> can lead to.\<close>

lemma state_command_cases:
  assumes "state_command api tab b rom c cnt priv k w = Some (r, priv', k', w')"
  obtains (same) "priv' = priv" "k' = k" "mmio_step w w'"
  | (disable) q v D where "lg_state priv \<noteq> LST_AER_DISABLED"
      "legacy_remove_all_subdrivers api priv k w = Some (q, k', v)"
      "D = disable_upstream_aer b (Some (lg_pci_dev q)) (lg_pci_upstream_dev q) v"
      "priv' = q\<lparr>lg_aer_uerr_mask_reg := fst D, lg_state := LST_AER_DISABLED\<rparr>"
      "w' = pci_save_state b (lg_pci_dev q) (snd D)"
  | (enable) up where "lg_state priv = LST_AER_DISABLED" "lg_pci_upstream_dev priv = Some up"
      "priv' = priv\<lparr>lg_state := LST_IDLE\<rparr>" "k' = k"
      "w' = retrain_device_speed b (lg_pci_dev priv) up
         (set_aer_uerr_mask_reg b up (lg_aer_uerr_mask_reg priv) (pci_restore_state b (lg_pci_dev priv) w))"
  | (probe) x where "lg_state priv = LST_IDLE"
      "legacy_probe_all_subdrivers api tab rom priv k w = Some (x, priv', k', w')"
  | (remove) "lg_state priv = LST_BASE_PROBED" "legacy_remove_all_subdrivers api priv k w = Some (priv', k', w')"
proof -
  consider "c = of_char (CHR ''1'')" | "c = of_char (CHR ''0'')" | "c = of_char (CHR ''3'')"
    | "c = of_char (CHR ''4'')" | "c = of_char (CHR ''5'')"
    | "c \<notin> {of_char (CHR ''1''), of_char (CHR ''0''), of_char (CHR ''3''), of_char (CHR ''4''), of_char (CHR ''5'')}"
    by blast
  then show thesis
    using assms
    by cases (auto simp: state_command_def bind_eq_Some_conv case_prod_unfold Let_def split: if_splits
        intro: same disable enable probe remove dest: legacy_print_rom_mmio)
qed

context subdrivers
begin

lemma remove_all_kept:
  assumes "legacy_remove_all_subdrivers api priv k w = Some (priv', k', w')" "quiet_priv tab ok priv k" "api_keeps ok api"
  shows "mmio_step w w' \<and> kept tab ok priv k priv' k' \<and> lg_fdev_list priv' = [] \<and> lg_state priv' = LST_IDLE"
  using remove_all_spec [OF assms(1) _ assms(3)] assms(2)
  by (auto simp: quiet_priv_def kept_def same_card_def intro!: trades_puts)

lemma probe_all_kept:
  assumes "legacy_probe_all_subdrivers api tab fdt priv k w = Some (r, priv', k', w')" "quiet_priv tab ok priv k" "api_keeps ok api"
  shows "mmio_step w w' \<and> kept tab ok priv k priv' k' \<and> lg_state priv' \<in> {lg_state priv, LST_BASE_PROBED}"
  using probe_all_spec [OF assms(1,3)] assms(2)
  by (auto simp: quiet_priv_def kept_def same_card_def dest: trades_gains [where ?rs0.0 = "[]"]
      trades_gains [where ?rs0.0 = "fdev_resources (lg_fdev_list priv)"])

lemma state_command_kept:
  assumes "state_command api tab b rom c cnt priv k w = Some (r, priv', k', w')" "quiet_priv tab ok priv k" "api_keeps ok api"
  shows "kept tab ok priv k priv' k'"
proof -
  have upd: "kept tab ok priv k (priv\<lparr>lg_state := LST_IDLE\<rparr>) k" if "lg_state priv = LST_AER_DISABLED"
    using assms(2) that by (intro kept_update) (auto simp: quiet_priv_def same_card_def)
  have dis: "kept tab ok priv k (q\<lparr>lg_aer_uerr_mask_reg := m, lg_state := LST_AER_DISABLED\<rparr>) l"
    if "legacy_remove_all_subdrivers api priv k w = Some (q, l, v)" for q l v m
  proof -
    have "kept tab ok priv k q l" "lg_fdev_list q = []" using remove_all_kept [OF that assms(2,3)] by auto
    moreover from this have "kept tab ok q l (q\<lparr>lg_aer_uerr_mask_reg := m, lg_state := LST_AER_DISABLED\<rparr>) l"
      by (intro kept_update) (auto simp: kept_def quiet_priv_def same_card_def)
    ultimately show ?thesis by (rule_tac kept_trans)
  qed
  from assms(1) show ?thesis
    by (cases rule: state_command_cases)
      (use assms(2,3) upd dis in \<open>auto dest: remove_all_kept probe_all_kept\<close>)
qed

lemma debugfs_step_kept:
  assumes "env_tab e = tab" "debugfs_step e op priv k w = Some (r, priv', k', w')" "quiet_priv tab ok priv k"
    and keeps: "api_keeps ok (env_api e)"
  shows "kept tab ok priv k priv' k'"
proof -
  let ?api = "env_api e"
  obtain a s where a: "api_kzalloc ?api (kern k) = (a, s)" by force
  let ?k = "acquire (Memory a) True s k"
  have "ok s" using assms(3) api_keepsD(1) [OF keeps _ a] by (simp add: quiet_priv_def)
  then have q: "quiet_priv tab ok priv (acquire (Memory a) c s k)" for c
    using assms(3) by (simp add: quiet_priv_def)
  have null: ?thesis if "priv' = priv" "k' = acquire (Memory a) False s k"
    using that q by (auto simp: kept_def same_card_def)
  have fault: "kept tab ok priv k priv (give_back (Memory a) (api_kfree ?api a) ?k)"
    using q keeps by (intro kept_between [of _ _ _ _ s]) simp_all
  show ?thesis
  proof (cases op)
    case (WriteState cnt buf)
    show ?thesis using assms(2) keeps q a null fault unfolding WriteState debugfs_step.simps assms(1)
      by (auto simp: legacy_state_write_file_def bind_eq_Some_conv Let_def split: if_splits option.splits
          intro!: kept_between [of _ _ _ _ s] dest!: state_command_kept)
  next
    case (WriteDtb cnt buf)
    have "kept tab ok priv ?k q l" if "legacy_remove_all_subdrivers ?api priv ?k w = Some (q0, l0, v0)"
      "legacy_probe_all_subdrivers ?api tab fdt q0 l0 v0 = Some (x, q, l, v)" for q0 l0 v0 fdt x q l v
    proof -
      have "kept tab ok priv ?k q0 l0" using remove_all_kept [OF that(1) q keeps] by blast
      moreover from this have "kept tab ok q0 l0 q l"
        using probe_all_kept [OF that(2) _ keeps] by (auto simp: kept_def)
      ultimately show ?thesis by (rule kept_trans)
    qed
    then show ?thesis using assms(2) keeps q a null fault unfolding WriteDtb debugfs_step.simps assms(1)
      by (auto simp: legacy_base_dtb_write_file_def bind_eq_Some_conv Let_def split: if_splits option.splits
          intro!: kept_between [of _ _ _ _ s])
  next
    case (ReadState copy_ok cnt ppos)
    then show ?thesis using assms(2,3) by simp
  qed
qed

lemma debugfs_run_kept:
  assumes "debugfs_run e s0 ops s" "env_tab e = tab" "quiet_priv tab ok (fst s0) (fst (snd s0))"
    and keeps: "api_keeps ok (env_api e)"
  shows "kept tab ok (fst s0) (fst (snd s0)) (fst s) (fst (snd s))"
  using assms(1)
proof (induction rule: debugfs_run.induct)
  case start
  show ?case using assms(3) by simp
next
  case (step ops priv k w op r priv' k' w')
  then have "kept tab ok (fst s0) (fst (snd s0)) priv k" by simp
  moreover from this have "kept tab ok priv k priv' k'"
    using debugfs_step_kept [OF assms(2) step.hyps(2) _ keeps] by (auto simp: kept_def)
  ultimately show ?case using kept_trans by fastforce
qed

end

section \<open>The error mask\<close>

definition lg_open_mask :: "('k, 'h) legacy_priv \<Rightarrow> u32 option" where
  "lg_open_mask priv = (if lg_state priv = LST_AER_DISABLED then Some (lg_aer_uerr_mask_reg priv) else None)"

fun on_state :: "debugfs_op \<Rightarrow> bool" where
  "on_state (WriteState cnt buf) = True"
| "on_state (WriteDtb cnt buf) = False"
| "on_state (ReadState copy_ok cnt ppos) = True"

text \<open>The log of the mask register is a sequence of pairs, the last one open while AER is disabled.\<close>

definition paired :: "pci_dev \<Rightarrow> int \<Rightarrow> ('k, 'h) legacy_priv \<Rightarrow> 'h world \<Rightarrow> bool" where
  "paired up p priv w \<longleftrightarrow> (\<exists>ms. reg_log up p (trace w) = aer_history up p ms (lg_open_mask priv))"

lemma paired_mmio:
  "paired up p priv w \<Longrightarrow> mmio_step w w' \<Longrightarrow> lg_open_mask priv' = lg_open_mask priv \<Longrightarrow> paired up p priv' w'"
  by (auto simp: paired_def reg_log_mmio_step)

context subdrivers
begin

lemma state_command_paired:
  assumes cmd: "state_command api tab b rom c cnt priv k w = Some (r, priv', k', w')"
    and "quiet_priv tab ok priv k" "api_keeps ok api"
    and br: "aer_bridge b up pos" "lg_pci_upstream_dev priv = Some up" and hist: "paired up (pos + 8) priv w"
  shows "paired up (pos + 8) priv' w'"
  using cmd
proof (cases rule: state_command_cases)
  case same
  then show ?thesis using hist paired_mmio by blast
next
  case (disable q v D)
  have q: "mmio_step w v" "same_card priv q" "lg_state q = LST_IDLE"
    using remove_all_kept [OF disable(2) assms(2,3)] by (auto simp: kept_def)
  then have "paired up (pos + 8) q v"
    using hist disable(1) by (intro paired_mmio [OF hist]) (auto simp: lg_open_mask_def)
  moreover obtain m v1 where "D = (m, v1)"
    "reg_log up (pos + 8) (trace v1) = reg_log up (pos + 8) (trace v) @ mask_on up (pos + 8) m"
    using widen_mask_log [OF br(1), of "lg_pci_dev q" v] disable(3) q(2) br(2) by (auto simp: same_card_def)
  ultimately show ?thesis using disable(4,5) q(3)
    by (auto simp: paired_def lg_open_mask_def trace_cfg_simps aer_history_disable)
next
  case (enable up')
  then show ?thesis using hist restore_mask_log [OF br(1)] br(2)
    by (auto simp: paired_def lg_open_mask_def aer_history_enable)
next
  case (probe x)
  then have "mmio_step w w'" "lg_state priv' \<noteq> LST_AER_DISABLED"
    using probe_all_kept [OF probe(2) assms(2,3)] by auto
  then show ?thesis using probe(1) by (intro paired_mmio [OF hist]) (auto simp: lg_open_mask_def)
next
  case remove
  then have "mmio_step w w'" "lg_state priv' = LST_IDLE"
    using remove_all_kept [OF remove(2) assms(2,3)] by auto
  then show ?thesis using remove(1) by (intro paired_mmio [OF hist]) (auto simp: lg_open_mask_def)
qed

lemma state_access_paired:
  assumes "env_tab e = tab" "debugfs_step e op priv k w = Some (r, priv', k', w')" "on_state op"
    and q: "quiet_priv tab ok priv k" and keeps: "api_keeps ok (env_api e)"
    and br: "aer_bridge (env_bus e) up pos" "lg_pci_upstream_dev priv = Some up"
    and hist: "paired up (pos + 8) priv w"
  shows "paired up (pos + 8) priv' w'"
proof -
  obtain a s where a: "api_kzalloc (env_api e) (kern k) = (a, s)" by force
  have "quiet_priv tab ok priv (acquire (Memory a) c s k)" for c
    using q api_keepsD(1) [OF keeps _ a] by (auto simp: quiet_priv_def)
  note cmd = state_command_paired [OF _ this keeps br hist]
  show ?thesis
  proof (cases op)
    case (WriteState cnt buf)
    show ?thesis using assms(2) hist a unfolding WriteState debugfs_step.simps assms(1)
      by (auto simp: legacy_state_write_file_def bind_eq_Some_conv Let_def split: if_splits option.splits
          dest: cmd)
  next
    case (WriteDtb cnt buf)
    then show ?thesis using assms(3) by simp
  next
    case (ReadState copy_ok cnt ppos)
    then show ?thesis using assms(2) hist by simp
  qed
qed

lemma state_accesses_paired:
  assumes "debugfs_run e s0 ops s" "env_tab e = tab" "\<forall>op\<in>set ops. on_state op"
    and "quiet_priv tab ok (fst s0) (fst (snd s0))" and keeps: "api_keeps ok (env_api e)"
    and br: "aer_bridge (env_bus e) up pos" "lg_pci_upstream_dev (fst s0) = Some up"
    and "paired up (pos + 8) (fst s0) (snd (snd s0))"
  shows "paired up (pos + 8) (fst s) (snd (snd s))"
  using assms(1,3)
proof (induction rule: debugfs_run.induct)
  case start
  show ?case using assms(8) by simp
next
  case (step ops priv k w op r priv' k' w')
  have "kept tab ok (fst s0) (fst (snd s0)) priv k"
    using debugfs_run_kept [OF step.hyps(1) assms(2,4) keeps] by simp
  then have "quiet_priv tab ok priv k" "lg_pci_upstream_dev priv = Some up"
    using br(2) by (auto simp: kept_def same_card_def)
  then show ?case
    using state_access_paired [OF assms(2) step.hyps(2) _ _ keeps br(1)] step.IH step.prems by auto
qed

end

section \<open>The PR IP core as a subdriver\<close>

definition alt_tab_a10 ::
  "('h, 'z) bus_scheme \<Rightarrow> ('r \<Rightarrow> bool) \<Rightarrow> ('r \<Rightarrow> reg_answers) \<Rightarrow> (nat \<Rightarrow> nat) \<Rightarrow> (nat \<Rightarrow> string option) \<Rightarrow>
   ((u64, 'h world) mgr_world \<times> 'r, 'h) fpga_drv_entry list" where
  "alt_tab_a10 b devm_ok ans of_node name =
     fpga_drv_tab (\<lambda>r a. alt_pr_probe_a10 b (devm_ok r) (ans r) of_node a (name a))"

definition alt_tab_s10 ::
  "bool \<Rightarrow> nat \<Rightarrow> ('h, 'z) bus_scheme \<Rightarrow> ('r \<Rightarrow> bool) \<Rightarrow> ('r \<Rightarrow> reg_answers) \<Rightarrow> (nat \<Rightarrow> nat) \<Rightarrow>
   (nat \<Rightarrow> string option) \<Rightarrow> ((u64, 'h world) mgr_world \<times> 'r, 'h) fpga_drv_entry list" where
  "alt_tab_s10 verbose wait_time b devm_ok ans of_node name =
     fpga_drv_tab (\<lambda>r a. alt_pr_probe_s10 verbose wait_time b (devm_ok r) (ans r) of_node a (name a))"

text \<open>The managers on the heap have no \<open>fpga_remove\<close>, as those of the PR IP core.\<close>

definition no_hooks :: "(u64, 'h world) mgr_world \<Rightarrow> bool" where
  "no_hooks W \<longleftrightarrow> (\<forall>a mgr. heap W a = Some mgr \<longrightarrow> op_fpga_remove (mops mgr) = None)"

lemma register_quiet:
  assumes "fpga_mgr_register ans of_node pdev name (Some ops) base W w = (r, W', w')" "no_hooks W"
    and "op_fpga_remove ops = None" "op_state ops = Some st" "\<And>x v. mmio_step v (snd (st x v))"
  shows "mmio_step w w' \<and> no_hooks W'"
  using assms
  by (auto simp: fpga_mgr_register_def no_hooks_def Let_def split: option.splits sum.splits if_splits prod.splits)
    (metis snd_conv)+

lemma probe_a10_quiet:
  assumes "alt_pr_probe_a10 b devm_ok ans of_node pdev name base W w = (r, W', w')" "no_hooks W"
  shows "mmio_step w w' \<and> no_hooks W'"
proof (cases devm_ok)
  case True
  obtain v1 w1 where 1: "readl b (base + ALT_PR_CSR_OFST) w = (v1, w1)" by force
  obtain v2 w2 where 2: "readl b (base + ALT_PR_VER_OFST) w1 = (v2, w2)" by force
  obtain v3 w3 where 3: "readl b (base + ALT_PR_POF_ID_OFST) w2 = (v3, w3)" by force
  have "mmio_step w w3" using mmio_step_readl [OF 1] mmio_step_readl [OF 2] mmio_step_readl [OF 3]
    by (blast intro: mmio_step_trans)
  moreover have "mmio_step w3 w' \<and> no_hooks W'"
    using assms True 1 2 3
    by (intro register_quiet [of ans of_node pdev name "alt_pr_ops_a10 b" base W w3 r W' w'])
      (auto simp: alt_pr_probe_a10_def alt_pr_ops_a10_def alt_pr_fpga_state_a10_def split: prod.splits
        dest: mmio_step_readl)
  ultimately show ?thesis by (blast intro: mmio_step_trans)
qed (use assms in \<open>auto simp: alt_pr_probe_a10_def\<close>)

lemma probe_s10_quiet:
  assumes "alt_pr_probe_s10 vb wt b devm_ok ans of_node pdev name base W w = (r, W', w')" "no_hooks W"
  shows "mmio_step w w' \<and> no_hooks W'"
proof (cases devm_ok)
  case True
  obtain v1 w1 where 1: "readl b (base + ALT_PR_CSR_OFST) w = (v1, w1)" by force
  obtain v2 w2 where 2: "readl b (base + ALT_PR_VER_OFST) w1 = (v2, w2)" by force
  have "mmio_step w w2" using mmio_step_readl [OF 1] mmio_step_readl [OF 2] by (blast intro: mmio_step_trans)
  moreover have "mmio_step w2 w' \<and> no_hooks W'"
    using assms True 1 2
    by (intro register_quiet [of ans of_node pdev name "alt_pr_ops_s10 vb wt b" base W w2 r W' w'])
      (auto simp: alt_pr_probe_s10_def alt_pr_ops_s10_def alt_pr_fpga_state_s10_def split: prod.splits
        dest: mmio_step_readl)
  ultimately show ?thesis by (blast intro: mmio_step_trans)
qed (use assms in \<open>auto simp: alt_pr_probe_s10_def\<close>)

lemma alt_pr_remove_quiet:
  assumes "alt_pr_remove pdev W w = Some (r, W', w')" "no_hooks W"
  shows "mmio_step w w' \<and> no_hooks W'"
  using assms
  by (auto simp: alt_pr_remove_def fpga_mgr_unregister_def put_device_def no_hooks_def bind_eq_Some_conv Let_def
      split: option.splits if_splits)

interpretation a10_tab: subdrivers "alt_tab_a10 b devm_ok ans of_node name" "\<lambda>s. no_hooks (fst s)"
  for b devm_ok ans of_node name
  by unfold_locales
    (auto simp: alt_tab_a10_def fpga_drv_tab_def bind_eq_Some_conv split: prod.splits
      dest: probe_a10_quiet alt_pr_remove_quiet)

interpretation s10_tab: subdrivers "alt_tab_s10 vb wt b devm_ok ans of_node name" "\<lambda>s. no_hooks (fst s)"
  for vb wt b devm_ok ans of_node name
  by unfold_locales
    (auto simp: alt_tab_s10_def fpga_drv_tab_def bind_eq_Some_conv split: prod.splits
      dest: probe_s10_quiet alt_pr_remove_quiet)

text \<open>The tables the module is linked with.\<close>

definition module_tab :: "((u64, 'h world) mgr_world \<times> 'r, 'h) fpga_drv_entry list \<Rightarrow> ('h, 'z) bus_scheme \<Rightarrow> bool" where
  "module_tab tab b \<longleftrightarrow>
     (\<exists>devm_ok ans of_node name. tab = alt_tab_a10 b devm_ok ans of_node name \<or>
        (\<exists>vb wt. tab = alt_tab_s10 vb wt b devm_ok ans of_node name))"

lemma module_tab_subdrivers: "module_tab tab b \<Longrightarrow> subdrivers tab (\<lambda>s. no_hooks (fst s))"
  using a10_tab.subdrivers_axioms s10_tab.subdrivers_axioms by (auto simp: module_tab_def)

section \<open>Probing a tree\<close>

definition be_word :: "u8 list \<Rightarrow> nat \<Rightarrow> u32" where
  "be_word bs i = le32 (bs ! (i + 3)) (bs ! (i + 2)) (bs ! (i + 1)) (bs ! i)"

text \<open>The driver and the address that a node of a device tree asks for.\<close>

definition wants ::
  "('k, 'h) fpga_drv_entry list \<Rightarrow> (nat \<Rightarrow> u64) \<Rightarrow> u8 list \<times> (u8 list \<times> u8 list) list \<Rightarrow>
   (('k, 'h) fpga_drv_entry \<times> u64) option" where
  "wants tab baddr node = do {
     c \<leftarrow> map_of (snd node) (bytes ''compatible'');
     drv \<leftarrow> find (\<lambda>d. drv_id d = takeWhile (\<lambda>x. x \<noteq> 0) c) tab;
     rg \<leftarrow> map_of (snd node) (bytes ''reg'');
     if length rg = 12 \<and> unat (be_word rg 0) < 6 \<and> baddr (unat (be_word rg 0)) \<noteq> 0
     then Some (drv, baddr (unat (be_word rg 0)) + ucast (be_word rg 4))
     else None
   }"

fun probe_nodes ::
  "'k legacy_api \<Rightarrow> ('k, 'h) fpga_drv_entry list \<Rightarrow> (u8 list \<times> (u8 list \<times> u8 list) list) list \<Rightarrow>
   ('k, 'h) legacy_priv \<times> 'k kbase \<times> 'h world \<Rightarrow> ('k, 'h) legacy_priv \<times> 'k kbase \<times> 'h world" where
  "probe_nodes api tab [] s = s"
| "probe_nodes api tab (n # ns) (priv, k, w) =
     probe_nodes api tab ns
       (case wants tab (lg_bar_addrs priv) n of
          None \<Rightarrow> (priv, k, w)
        | Some (drv, p) \<Rightarrow> snd (legacy_probe_one api drv p priv k w))"

text \<open>Every \<open>compatible\<close> of the tree is a terminated string, and the identifiers of the drivers are strings.\<close>

definition compatible_strings :: "dt_node \<Rightarrow> bool" where
  "compatible_strings t \<longleftrightarrow> (\<forall>n\<in>set (preorder t). \<forall>c. map_of (snd n) (bytes ''compatible'') = Some c \<longrightarrow> 0 \<in> set c)"

lemma holds_id:
  assumes "holds fdt p c" "0 \<in> set c" "0 \<notin> set s"
  shows "memcmp_eq fdt p (s @ [0]) \<longleftrightarrow> s = takeWhile (\<lambda>x. x \<noteq> 0) c"
proof -
  obtain ys zs where c: "c = ys @ 0 # zs" "0 \<notin> set ys" using split_list_first [OF assms(2)] by blast
  then have "takeWhile (\<lambda>x. x \<noteq> 0) c = ys" by (subst c(1), subst takeWhile_append2) auto
  moreover have "holds fdt p (ys @ [0])" using assms(1) unfolding c(1) by (simp add: holds_append)
  ultimately show ?thesis using holds_string_unique [of fdt p ys s] assms(3) c(2)
    by (auto simp: memcmp_eq_holds)
qed

lemma be32_holds:
  assumes "holds fdt p bs" "i + 4 \<le> length bs"
  shows "be32 fdt (p + int i) = be_word bs i"
proof -
  have "fdt (p + int j) = bs ! j" if "j < length bs" for j using assms(1) that by (simp add: holds_def)
  from this [of i] this [of "i + 1"] this [of "i + 2"] this [of "i + 3"] assms(2)
  show ?thesis by (simp add: be32_def be_word_def add.assoc add.commute add.left_commute)
qed

lemma node_driver_tree:
  assumes rep: "represents fdt noff t" and i: "i < length (preorder t)"
    and cs: "compatible_strings t" and ids: "\<forall>d\<in>set tab. 0 \<notin> set (drv_id d)"
  shows "node_driver tab baddr fdt (fst (tree_visits fdt noff t ! i)) = Some (wants tab baddr (preorder t ! i))"
proof -
  let ?off = "fst (tree_visits fdt noff t ! i)" and ?ps = "snd (preorder t ! i)"
  obtain nm where nm: "fdt_get_name fdt ?off = Some (Some nm, int (length (fst (preorder t ! i))))"
    using get_name_tree [OF rep i] by blast
  obtain c lc where c: "fdt_getprop fdt ?off (bytes ''compatible'') = Some (c, lc)"
    "found fdt (map_of ?ps (bytes ''compatible'')) (c, lc)" using getprop_tree [OF rep i] by fast
  obtain g lg where g: "fdt_getprop fdt ?off (bytes ''reg'') = Some (g, lg)"
    "found fdt (map_of ?ps (bytes ''reg'')) (g, lg)" using getprop_tree [OF rep i] by fast
  have regs: "reg_words fdt q ! 0 = be_word rg 0" "reg_words fdt q ! 1 = be_word rg 4"
    if "holds fdt q rg" "length rg = 12" for q rg
    using be32_holds [OF that(1), of 0] be32_holds [OF that(1), of 4] that(2)
    by (simp_all add: reg_words_def NUM_REGS_def upt_rec)
  have look: "fpga_drv_lookup tab fdt q = find (\<lambda>d. drv_id d = takeWhile (\<lambda>x. x \<noteq> 0) v) tab"
    if "map_of ?ps (bytes ''compatible'') = Some v" "holds fdt q v" for q v
  proof -
    have "0 \<in> set v" using cs i that(1) by (auto simp: compatible_strings_def)
    then show ?thesis unfolding fpga_drv_lookup_def
      using holds_id [OF that(2)] ids by (intro find_cong) auto
  qed
  show ?thesis
  proof (cases "map_of ?ps (bytes ''compatible'')")
    case None
    then show ?thesis using nm c by (simp add: node_driver_def wants_def found_def)
  next
    case (Some v)
    then obtain q where q: "c = Some q" "holds fdt q v" using c(2) by (auto simp: found_def)
    show ?thesis
    proof (cases "map_of ?ps (bytes ''reg'')")
      case None
      then show ?thesis using nm c g Some q look [OF Some q(2)]
        by (auto simp: node_driver_def wants_def found_def split: option.splits)
    next
      case (Some rg)
      then show ?thesis using nm c g \<open>map_of ?ps (bytes ''compatible'') = Some v\<close> q
          look [OF \<open>map_of ?ps (bytes ''compatible'') = Some v\<close> q(2)] regs
        by (auto simp: node_driver_def wants_def found_def NUM_REGS_def ALTR_PCI_CVP_NUM_BARS_def Let_def
            split: option.splits)
    qed
  qed
qed

lemma probe_loop_tree:
  assumes rep: "represents fdt noff t" and cs: "compatible_strings t"
    and ids: "\<forall>d\<in>set tab. 0 \<notin> set (drv_id d)" and i: "i \<le> length (preorder t)"
  shows "probe_loop api tab fdt
      (if i < length (preorder t) then fst (tree_visits fdt noff t ! i) else - FDT_ERR_NOTFOUND) priv k w =
    Some (probe_nodes api tab (drop i (preorder t)) (priv, k, w))"
  using i
proof (induction "length (preorder t) - i" arbitrary: i priv k w)
  case 0
  then show ?case by (subst probe_loop.simps) (simp add: const_defs)
next
  case (Suc n)
  then have i: "i < length (preorder t)" by simp
  let ?off = "fst (tree_visits fdt noff t ! i)"
  obtain us x where "tree_visits fdt noff t ! i = (?off, x)"
    "tokens_at fdt ?off (BeginNode (fst (preorder t ! i)) # us)" using tree_visit [OF rep i] by (metis fst_conv)
  then have off: "0 \<le> ?off" using tokens_at_off by blast
  let ?r = "wants tab (lg_bar_addrs priv) (preorder t ! i)"
  obtain priv1 k1 w1 where 1: "(case ?r of None \<Rightarrow> (priv, k, w)
      | Some (drv, p) \<Rightarrow> snd (legacy_probe_one api drv p priv k w)) = (priv1, k1, w1)" by (metis prod_cases3)
  have "probe_loop api tab fdt ?off priv k w = probe_loop api tab fdt
      (if Suc i < length (preorder t) then fst (tree_visits fdt noff t ! Suc i) else - FDT_ERR_NOTFOUND) priv1 k1 w1"
    using off node_driver_tree [OF rep i cs ids, of "lg_bar_addrs priv"] next_node_tree [OF rep i] 1
    by (subst probe_loop.simps) simp
  also have "\<dots> = Some (probe_nodes api tab (drop (Suc i) (preorder t)) (priv1, k1, w1))"
    using Suc by (intro Suc.hyps) auto
  also have "probe_nodes api tab (drop (Suc i) (preorder t)) (priv1, k1, w1) =
      probe_nodes api tab (drop i (preorder t)) (priv, k, w)"
    using i 1 by (simp add: Cons_nth_drop_Suc [symmetric])
  finally show ?case using i by simp
qed

section \<open>A card to run the theorems on\<close>

definition demo_lapi :: "('m \<times> nat) legacy_api" where
  "demo_lapi =
     \<lparr>api_upstream_bridge = (\<lambda>d k. Some 1), api_enable_device = (\<lambda>d k. (0, k)), api_set_master = (\<lambda>d k. k),
      api_request_regions = (\<lambda>d k. (0, k)), api_resource_start = (\<lambda>d i k. if i = 2 \<or> i = 4 then 1 else 0),
      api_ioremap_bar = (\<lambda>d i k. (of_nat (i * 0x10000), k)), api_iounmap = (\<lambda>a k. k),
      api_release_regions = (\<lambda>d k. k), api_disable_device = (\<lambda>d k. k),
      api_alloc_chrdev_region = (\<lambda>k. (0, 0, k)), api_unregister_chrdev_region = (\<lambda>t k. k),
      api_cdev_add = (\<lambda>d t k. (0, k)), api_cdev_del = (\<lambda>d k. k),
      api_class_create = (\<lambda>k. (Inr 0, k)), api_class_destroy = (\<lambda>c k. k),
      api_device_create = (\<lambda>c t k. (0, k)), api_device_destroy = (\<lambda>c t k. k),
      api_read_devctl = (\<lambda>d k. 0), api_devm_kzalloc = (\<lambda>k. (True, k)),
      api_register_driver = (\<lambda>k. (0, k)), api_unregister_driver = (\<lambda>k. k),
      api_debugfs_remove = (\<lambda>r k. k), api_kzalloc = (\<lambda>k. (Suc (snd k), (fst k, Suc (snd k)))), api_kfree = (\<lambda>a k. k),
      api_set_name = (\<lambda>a n k. (0, k)), api_device_add = (\<lambda>a k. (0, k)), api_device_del = (\<lambda>a k. k),
      api_resource_end = (\<lambda>d i k. 0x1000), api_uio_register = (\<lambda>d k. (0, k)), api_uio_unregister = (\<lambda>d k. k),
      api_debugfs_dir = (\<lambda>k. (Suc (snd k), (fst k, Suc (snd k)))), api_debugfs_file = (\<lambda>f r k. (True, k))\<rparr>"

definition demo_tab :: "((u64, u32 world) mgr_world \<times> nat, u32) fpga_drv_entry list" where
  "demo_tab = alt_tab_a10 demo_pci (\<lambda>_. True)
     (\<lambda>n. \<lparr>ans_kzalloc = Some n, ans_ida = Inr n, ans_set_name = 0, ans_device_add = 0\<rparr>) id (\<lambda>_. Some ''pr'')"

definition demo_lkern :: "((u64, u32 world) mgr_world \<times> nat) kbase" where
  "demo_lkern = \<lparr>kern = (\<lparr>heap = (\<lambda>_. None), ida = {}, class_devs = [], mgr_drvdata = (\<lambda>_. None),
     dev_refs = (\<lambda>_. 0), mod_refs = (\<lambda>_. 0)\<rparr>, 0), klog = []\<rparr>"

definition demo_lpriv :: "((u64, u32 world) mgr_world \<times> nat, u32) legacy_priv" where
  "demo_lpriv = legacy_zero_priv\<lparr>lg_bar_addrs := (\<lambda>_. 0)(2 := 0x20000, 4 := 0x40000), lg_pci_upstream_dev := Some 1\<rparr>"

definition demo_lenv :: "((u64, u32 world) mgr_world \<times> nat, u32, unit) legacy_env" where
  "demo_lenv = \<lparr>env_api = demo_lapi, env_tab = demo_tab, env_bus = demo_pci, env_rom = demo_fdt,
     env_mem = blob_of, env_stray = 0\<rparr>"

lemma demo_lapi_keeps: "api_keeps (\<lambda>s. no_hooks (fst s)) demo_lapi"
  by (simp add: api_keeps_def demo_lapi_def)

lemma demo_tab_module: "module_tab demo_tab demo_pci"
  unfolding demo_tab_def module_tab_def by blast

lemma demo_lkern_ok: "no_hooks (fst (kern demo_lkern))"
  by (simp add: no_hooks_def demo_lkern_def)

lemma demo_lpriv_idle: "lg_state demo_lpriv = LST_IDLE" "lg_fdev_list demo_lpriv = []"
    "lg_pci_upstream_dev demo_lpriv = Some 1"
  by (simp_all add: demo_lpriv_def legacy_zero_priv_def)

text \<open>Masking the error reporting on an idle card.\<close>

lemma demo_aer_disable:
  "\<exists>priv k w. debugfs_run demo_lenv (demo_lpriv, demo_lkern, demo_world)
     [WriteState 1 (Some [of_char (CHR ''1'')])] (priv, k, w) \<and> lg_state priv = LST_AER_DISABLED \<and>
     lg_fdev_list priv = [] \<and> no_hooks (fst (kern k))"
proof -
  let ?D = "disable_upstream_aer demo_pci (Some 0) (Some 1) demo_world"
  let ?p = "demo_lpriv\<lparr>lg_fdev_list := [], lg_aer_uerr_mask_reg := fst ?D, lg_state := LST_AER_DISABLED\<rparr>"
  have "\<exists>k. debugfs_step demo_lenv (WriteState 1 (Some [of_char (CHR ''1'')])) demo_lpriv demo_lkern demo_world =
      Some (1, ?p, k, pci_save_state demo_pci 0 (snd ?D)) \<and> no_hooks (fst (kern k))"
    by (simp add: demo_lenv_def legacy_state_write_file_def state_command_def legacy_remove_all_subdrivers_def
        demo_lapi_def demo_lpriv_def legacy_zero_priv_def case_prod_unfold Let_def demo_lkern_def no_hooks_def)
  then obtain k where "debugfs_step demo_lenv (WriteState 1 (Some [of_char (CHR ''1'')])) demo_lpriv demo_lkern demo_world =
      Some (1, ?p, k, pci_save_state demo_pci 0 (snd ?D))" "no_hooks (fst (kern k))" by blast
  then show ?thesis
    using debugfs_run.step [OF debugfs_run.start, of demo_lenv _ demo_lpriv demo_lkern demo_world]
    by (intro exI [of _ ?p] exI [of _ k] exI [of _ "pci_save_state demo_pci 0 (snd ?D)"]) auto
qed

section \<open>Properties\<close>

text \<open>
  C28. Deploying the subdrivers from a device tree. When the blob holds the tree \<open>t\<close>, the driver returns,
  and what it does is the walk over the nodes below the root in preorder: for each that names a
  known driver and a mapped BAR it calls \<open>fpga_pcie_probe_one\<close> with that driver and the address in
  the BAR, and for no other. Then it is in the state \<open>ST_BASE_PROBED\<close>.
\<close>

theorem legacy_probe_all_refines:
  assumes "represents fdt noff t" and "compatible_strings t" and "\<forall>d\<in>set tab. 0 \<notin> set (drv_id d)"
    and "probe_nodes api tab (tl (preorder t)) (priv, k, w) = (priv', k', w')"
  shows "legacy_probe_all_subdrivers api tab fdt priv k w =
    Some (0, priv'\<lparr>lg_state := LST_BASE_PROBED\<rparr>, k', w')"
proof -
  have pos: "0 < length (preorder t)" by (cases t) simp
  have "fdt_next_node fdt 0 None =
      Some (if 1 < length (preorder t) then fst (tree_visits fdt noff t ! 1) else - FDT_ERR_NOTFOUND, None)"
    using next_node_tree [OF assms(1) pos] tree_visits_0 [of fdt noff t] by simp
  then show ?thesis
    using probe_loop_tree [OF assms(1-3), of 1 api priv k w] pos assms(1,4)
    by (auto simp: legacy_probe_all_subdrivers_def represents_def drop_Suc split: if_splits)
qed

lemma demo_probe:
  "\<exists>p k w. probe_nodes demo_lapi demo_tab (tl (preorder demo_tree)) (demo_lpriv, demo_lkern, demo_world) = (p, k, w) \<and>
     length (lg_fdev_list p) = 1 \<and> reads_of (trace w) = [(0x4000c, 0), (0x40010, 0), (0x40014, 0), (0x4000c, 0)]"
proof -
  have drv: "wants demo_tab (lg_bar_addrs demo_lpriv) (preorder demo_tree ! 1) = Some (hd demo_tab, 0x40008)"
  proof -
    have "be_word [0, 0, 0, 4, 0, 0, 0, 8, 0, 0, 0, 16] 0 = 4" "be_word [0, 0, 0, 4, 0, 0, 0, 8, 0, 0, 0, 16] 4 = 8"
      by code_simp+
    then show ?thesis
      by (simp add: wants_def demo_tree_def demo_tab_def alt_tab_a10_def fpga_drv_tab_def bytes_def demo_lpriv_def
          legacy_zero_priv_def)
  qed
  have "tl (preorder demo_tree) = [preorder demo_tree ! 1]" by (simp add: demo_tree_def)
  then have "probe_nodes demo_lapi demo_tab (tl (preorder demo_tree)) (demo_lpriv, demo_lkern, demo_world) =
      snd (legacy_probe_one demo_lapi (hd demo_tab) 0x40008 demo_lpriv demo_lkern demo_world)"
    using drv by simp
  then show ?thesis
    by (simp add: legacy_probe_one_def demo_lapi_def demo_tab_def alt_tab_a10_def fpga_drv_tab_def
        alt_pr_probe_a10_def fpga_mgr_register_def alt_pr_ops_a10_def alt_pr_fpga_state_a10_def readl_def demo_pci_def
        demo_lkern_def demo_world_def demo_lpriv_def legacy_zero_priv_def const_defs csr_state_mgr_a10_def)
qed

theorem legacy_probe_all_refines_witness:
  "\<exists>p k w. legacy_probe_all_subdrivers demo_lapi demo_tab demo_fdt demo_lpriv demo_lkern demo_world =
      Some (0, p\<lparr>lg_state := LST_BASE_PROBED\<rparr>, k, w) \<and> length (lg_fdev_list p) = 1"
proof -
  obtain p k w where 1: "probe_nodes demo_lapi demo_tab (tl (preorder demo_tree)) (demo_lpriv, demo_lkern, demo_world) = (p, k, w)"
    "length (lg_fdev_list p) = 1" using demo_probe by blast
  have "compatible_strings demo_tree" "\<forall>d\<in>set demo_tab. 0 \<notin> set (drv_id d)"
    by (auto simp: compatible_strings_def demo_tree_def demo_tab_def alt_tab_a10_def fpga_drv_tab_def bytes_def
        split: if_splits)
  with 1 show ?thesis using legacy_probe_all_refines [OF demo_represents _ _ 1(1)] by blast
qed

text \<open>
  C29. The list of bound devices and the driver's state. After any sequence of accesses to the two files, writes and
  reads, the list is empty unless the state is \<open>ST_BASE_PROBED\<close>; the driver has given back only what it held; and
  what it holds are exactly the memory, the device and the binding of each device on its list. The state variable is
  not the mask of the bridge: a write to \<open>base_dtb\<close> while error reporting is disabled binds devices and leaves the
  mask widened (\<open>base_dtb_forgets_mask\<close>).
\<close>

theorem legacy_subdrivers_quiesced:
  assumes "debugfs_run e (priv0, k0, w0) ops (priv, k, w)"
    and "module_tab (env_tab e) b"
    and "api_keeps (\<lambda>s. no_hooks (fst s)) (env_api e)" and "no_hooks (fst (kern k0))"
    and "lg_state priv0 = LST_IDLE" and "lg_fdev_list priv0 = []"
  shows "(lg_state priv \<noteq> LST_BASE_PROBED \<longrightarrow> lg_fdev_list priv = []) \<and>
    (\<exists>t. klog k = klog k0 @ t \<and> (\<forall>M. puts_ok M t \<and> held M t = M + mset (fdev_resources (lg_fdev_list priv))))"
proof -
  have q: "quiet_priv tab (\<lambda>s. no_hooks (fst s)) priv0 k0" for tab
    using assms(4-6) by (simp add: quiet_priv_def)
  have "kept (env_tab e) (\<lambda>s. no_hooks (fst s)) priv0 k0 priv k"
    using subdrivers.debugfs_run_kept [OF module_tab_subdrivers [OF assms(2)] assms(1) refl _ assms(3)] q
    by simp
  then show ?thesis using assms(6) by (auto simp: kept_def quiet_priv_def trades_def)
qed

theorem legacy_subdrivers_quiesced_witness:
  "\<exists>priv k w. debugfs_run demo_lenv (demo_lpriv, demo_lkern, demo_world)
     [WriteState 1 (Some [of_char (CHR ''1'')])] (priv, k, w) \<and> lg_state priv = LST_AER_DISABLED \<and>
     lg_fdev_list priv = [] \<and> (\<exists>t. klog k = klog demo_lkern @ t \<and> puts_ok {#} t \<and> held {#} t = {#})"
proof -
  obtain priv k w where 1: "debugfs_run demo_lenv (demo_lpriv, demo_lkern, demo_world)
     [WriteState 1 (Some [of_char (CHR ''1'')])] (priv, k, w)" "lg_state priv = LST_AER_DISABLED" using demo_aer_disable by blast
  have "module_tab (env_tab demo_lenv) demo_pci" "api_keeps (\<lambda>s. no_hooks (fst s)) (env_api demo_lenv)"
    using demo_tab_module demo_lapi_keeps by (simp_all add: demo_lenv_def)
  from legacy_subdrivers_quiesced [OF 1(1) this demo_lkern_ok demo_lpriv_idle(1,2)] 1 show ?thesis
    by (metis (no_types, lifting) add.right_neutral fdev_resources_simps(1) mset.simps(1) pcie_state.distinct(5))
qed

text \<open>
  C30. The older driver handles the error mask of the upstream bridge in pairs as well, as long as user
  programs only write and read \<open>state\<close>: whatever they write, the mask is read, widened, and later written
  back as it was.
\<close>

theorem legacy_mask_restored:
  assumes "debugfs_run e (priv0, k0, w0) ops (priv, k, w)" and "\<forall>op\<in>set ops. on_state op"
    and "module_tab (env_tab e) b"
    and "api_keeps (\<lambda>s. no_hooks (fst s)) (env_api e)" and "no_hooks (fst (kern k0))"
    and "lg_state priv0 = LST_IDLE" and "lg_fdev_list priv0 = []"
    and "aer_bridge (env_bus e) up pos" and "lg_pci_upstream_dev priv0 = Some up"
    and "reg_log up (pos + 8) (trace w0) = []"
  shows "\<exists>ms. reg_log up (pos + 8) (trace w) = aer_history up (pos + 8) ms (lg_open_mask priv)"
proof -
  have q: "quiet_priv tab (\<lambda>s. no_hooks (fst s)) priv0 k0" for tab
    using assms(5-7) by (simp add: quiet_priv_def)
  have "paired up (pos + 8) priv0 w0"
    using assms(6,10) by (auto simp: paired_def lg_open_mask_def aer_history_def intro: exI [of _ "[]"])
  then have "paired up (pos + 8) priv w"
    using subdrivers.state_accesses_paired [OF module_tab_subdrivers [OF assms(3)] assms(1) refl assms(2) _ assms(4,8)]
      q assms(9) by simp
  then show ?thesis by (simp add: paired_def)
qed

theorem legacy_mask_restored_witness:
  "\<exists>priv k w ms. debugfs_run demo_lenv (demo_lpriv, demo_lkern, demo_world)
     [WriteState 1 (Some [of_char (CHR ''1'')])] (priv, k, w) \<and>
     reg_log 1 0x108 (trace w) = aer_history 1 0x108 ms (Some (lg_aer_uerr_mask_reg priv))"
proof -
  obtain priv k w where 1: "debugfs_run demo_lenv (demo_lpriv, demo_lkern, demo_world)
     [WriteState 1 (Some [of_char (CHR ''1'')])] (priv, k, w)" "lg_state priv = LST_AER_DISABLED" using demo_aer_disable by blast
  have "module_tab (env_tab demo_lenv) demo_pci" "api_keeps (\<lambda>s. no_hooks (fst s)) (env_api demo_lenv)"
    "aer_bridge (env_bus demo_lenv) 1 0x100"
    using demo_tab_module demo_lapi_keeps demo_pci_bridge by (simp_all add: demo_lenv_def)
  from legacy_mask_restored [OF 1(1) _ this(1,2) demo_lkern_ok demo_lpriv_idle(1,2) this(3) demo_lpriv_idle(3)] 1
  show ?thesis by (fastforce simp: demo_world_def lg_open_mask_def)
qed

text \<open>
  A write to \<open>base_dtb\<close> breaks the pairing. Made while the error reporting is masked, it leaves the
  state \<open>ST_AER_DISABLED\<close> without touching the mask, and a write of 0 to \<open>state\<close>, which should restore
  the mask, does nothing afterwards.
\<close>

theorem base_dtb_forgets_mask:
  assumes "legacy_base_dtb_write_file api tab mem cnt (Some bs) priv k w = Some (r, priv', k', w')" and "0 \<le> r"
    and "module_tab tab b" and "api_keeps (\<lambda>s. no_hooks (fst s)) api" and "no_hooks (fst (kern k))"
    and "lg_state priv = LST_AER_DISABLED" and "lg_fdev_list priv = []"
  shows "lg_state priv' \<noteq> LST_AER_DISABLED \<and> reg_log up p (trace w') = reg_log up p (trace w) \<and>
    (\<exists>n'. state_command api tab b' rom (of_char (CHR ''0'')) n priv' k' w' = Some (n', priv', k', w'))"
proof -
  obtain a s where a: "api_kzalloc api (kern k) = (a, s)" by (cases "api_kzalloc api (kern k)")
  obtain q l v x l' where rem: "legacy_remove_all_subdrivers api priv (acquire (Memory a) True s k) w = Some (q, l, v)"
    and probe: "legacy_probe_all_subdrivers api tab (mem bs) q l v = Some (x, priv', l', w')"
    using assms(1,2) a by (auto simp: legacy_base_dtb_write_file_def Let_def const_defs bind_eq_Some_conv split: if_splits)
  note sub = module_tab_subdrivers [OF assms(3)]
  have "quiet_priv tab (\<lambda>s. no_hooks (fst s)) priv (acquire (Memory a) True s k)"
    using assms(4-7) api_keepsD(1) [OF assms(4) _ a] by (simp add: quiet_priv_def from_table_def)
  from subdrivers.remove_all_kept [OF sub rem this assms(4)]
  have 1: "mmio_step w v" "quiet_priv tab (\<lambda>s. no_hooks (fst s)) q l" "lg_state q = LST_IDLE" by (auto simp: kept_def)
  from subdrivers.probe_all_kept [OF sub probe 1(2) assms(4)]
  have 2: "mmio_step v w'" "lg_state priv' \<in> {LST_IDLE, LST_BASE_PROBED}" using 1(3) by auto
  have "mmio_step w w'" using 1(1) 2(1) by (rule mmio_step_trans)
  then show ?thesis using 2(2) by (auto simp: reg_log_mmio_step state_command_def)
qed

theorem base_dtb_forgets_mask_witness:
  "\<exists>priv' k' w'. legacy_base_dtb_write_file demo_lapi demo_tab blob_of 4 (Some [0, 0, 0, 0])
      (demo_lpriv\<lparr>lg_state := LST_AER_DISABLED\<rparr>) demo_lkern demo_world = Some (4, priv', k', w') \<and>
    lg_state priv' \<noteq> LST_AER_DISABLED \<and> reg_log 1 0x108 (trace w') = []"
proof -
  let ?p = "demo_lpriv\<lparr>lg_state := LST_AER_DISABLED\<rparr>"
  have "fdt_check_header (blob_of [0, 0, 0, 0]) \<noteq> 0" by code_simp
  then have "\<exists>priv' k' w'. legacy_base_dtb_write_file demo_lapi demo_tab blob_of 4 (Some [0, 0, 0, 0]) ?p demo_lkern
      demo_world = Some (4, priv', k', w')"
    by (simp add: legacy_base_dtb_write_file_def legacy_remove_all_subdrivers_def legacy_probe_all_subdrivers_def
        demo_lapi_def demo_lpriv_idle)
  then obtain priv' k' w' where 1: "legacy_base_dtb_write_file demo_lapi demo_tab blob_of 4 (Some [0, 0, 0, 0]) ?p demo_lkern
      demo_world = Some (4, priv', k', w')" by blast
  from base_dtb_forgets_mask [OF this _ demo_tab_module demo_lapi_keeps demo_lkern_ok, of 1 "0x108" demo_pci demo_fdt 1] 1
  show ?thesis by (simp add: demo_lpriv_idle demo_world_def)
qed

end
