(* ===== verification/Legacy_Probe.thy ===== *)
theory Legacy_Probe
  imports Legacy_Run
begin

text \<open>
  The life of a card under the older driver: probe, any sequence of writes to its files, removal.
  Everything that was taken is given back. A failed set up leaves the debugfs directory behind.
\<close>

section \<open>What the set up holds\<close>

definition lg_bars :: "(nat \<Rightarrow> u64) \<Rightarrow> nat list \<Rightarrow> resource list" where
  "lg_bars baddr is = map Mapping (filter (\<lambda>a. a \<noteq> 0) (map baddr is))"

definition lg_uio :: "pci_dev \<Rightarrow> ('k, 'h) legacy_priv \<Rightarrow> resource list" where
  "lg_uio d priv = (if lg_uio_size priv > 0 then [UioDevice d] else [])"

definition lg_pci_resources :: "pci_dev \<Rightarrow> ('k, 'h) legacy_priv \<Rightarrow> resource list" where
  "lg_pci_resources d priv =
     lg_uio d priv @ lg_bars (lg_bar_addrs priv) [0..<ALTR_PCI_CVP_NUM_BARS] @ [Regions d, DevEnabled d]"

text \<open>A BAR is not the whole address space, so its size does not wrap around to 0.\<close>

definition sane_bars :: "'k legacy_api \<Rightarrow> bool" where
  "sane_bars api \<longleftrightarrow> (\<forall>d i s. api_resource_end api d i s - api_resource_start api d i s + 1 \<noteq> 0)"

lemma lg_bars_simps [simp]:
  "lg_bars baddr [] = []"
  "lg_bars baddr (i # is) = (if baddr i \<noteq> 0 then [Mapping (baddr i)] else []) @ lg_bars baddr is"
  by (simp_all add: lg_bars_def)

lemma lg_bars_cong: "(\<And>i. i \<in> set is \<Longrightarrow> f i = g i) \<Longrightarrow> lg_bars f is = lg_bars g is"
  by (induction "is") auto

lemma lg_bars_zero: "(\<And>i. i \<in> set is \<Longrightarrow> f i = 0) \<Longrightarrow> lg_bars f is = []"
  by (induction "is") auto

lemma legacy_unmap_bars_log: "klog (legacy_unmap_bars api baddr is k) = klog k @ map Put (lg_bars baddr is)"
  by (induction "is" arbitrary: k) auto

lemma legacy_shutdown_log:
  assumes "legacy_shutdown_pci api d priv k = (priv', k')"
  shows "klog k' = klog k @ map Put (lg_pci_resources d priv) \<and> lg_debugfs_root priv' = lg_debugfs_root priv"
  using assms
  by (auto simp: legacy_shutdown_pci_def lg_pci_resources_def lg_uio_def legacy_unmap_bars_log Let_def split: if_splits)

lemma trades_gain: "gains t rs \<Longrightarrow> mset rs' = mset rs + mset rs0 \<Longrightarrow> trades t rs0 rs'"
  by (auto simp: gains_def trades_def ac_simps)

lemma trades_mset: "trades t rs rs' \<Longrightarrow> mset rs = mset qs \<Longrightarrow> mset rs' = mset qs' \<Longrightarrow> trades t qs qs'"
  by (simp add: trades_def)

lemma trades_frame:
  assumes "trades t rs rs'"
  shows "trades t (rs @ qs) (rs' @ qs)"
proof -
  have "puts_ok ((M + mset qs) + mset rs) t \<and> held ((M + mset qs) + mset rs) t = (M + mset qs) + mset rs'" for M
    using assms unfolding trades_def by blast
  then show ?thesis by (simp add: trades_def ac_simps)
qed

lemma gains_Get: "gains [Get r] [r]"
  by (simp add: gains_def)

definition same_rest :: "('k, 'h) legacy_priv \<Rightarrow> ('k, 'h) legacy_priv \<Rightarrow> bool" where
  "same_rest p q \<longleftrightarrow> lg_state q = lg_state p \<and> lg_fdev_list q = lg_fdev_list p \<and>
     lg_debugfs_root q = lg_debugfs_root p"

lemma legacy_map_bars_spec:
  assumes "legacy_map_bars api d is priv k = (ok, priv', k')" and "distinct is" and "sane_bars api"
    and "\<And>i. i \<in> set is \<Longrightarrow> lg_bar_addrs priv i = 0"
    and "ALTR_PCI_CVP_PR_BAR \<in> set is \<Longrightarrow> lg_uio_size priv = 0"
  shows "(\<exists>t. klog k' = klog k @ t \<and>
      trades t (lg_uio d priv) (lg_bars (lg_bar_addrs priv') is @ lg_uio d priv')) \<and>
    (\<forall>j. j \<notin> set is \<longrightarrow> lg_bar_addrs priv' j = lg_bar_addrs priv j) \<and>
    same_rest priv priv'"
  using assms(1,2,4,5)
proof (induction "is" arbitrary: priv k)
  case Nil
  then show ?case by (auto simp: same_rest_def)
next
  case (Cons i "is")
  let ?s = "api_resource_start api d i (kern k)"
  obtain a s where a: "api_ioremap_bar api d i (kern k) = (a, s)" by (cases "api_ioremap_bar api d i (kern k)")
  let ?p = "priv\<lparr>lg_bar_addrs := (lg_bar_addrs priv)(i := a)\<rparr>"
  let ?size = "api_resource_end api d i (kern k) - ?s + 1"
  obtain ret s' where u: "api_uio_register api d s = (ret, s')" by (cases "api_uio_register api d s")
  have size: "?size \<noteq> 0" using assms(3) by (simp add: sane_bars_def)
  have uio0: "i = ALTR_PCI_CVP_PR_BAR \<Longrightarrow> lg_uio d priv = []" using Cons.prems(4) by (simp add: lg_uio_def)
  note run = Cons.prems(1) [simplified legacy_map_bars.simps a Let_def]
  consider (unused) "?s = 0" | (failed) "?s \<noteq> 0" "a = 0" | (plain) "?s \<noteq> 0" "a \<noteq> 0" "i \<noteq> ALTR_PCI_CVP_PR_BAR"
    | (no_uio) "?s \<noteq> 0" "a \<noteq> 0" "i = ALTR_PCI_CVP_PR_BAR" "ret \<noteq> 0"
    | (uio) "?s \<noteq> 0" "a \<noteq> 0" "i = ALTR_PCI_CVP_PR_BAR" "ret = 0" by blast
  then show ?case
  proof cases
    case unused
    with run Cons.prems Cons.IH [of priv k] show ?thesis by auto
  next
    case failed
    then have r: "priv' = ?p" "klog k' = klog k @ []" using run by auto
    have "lg_bars (lg_bar_addrs ?p) (i # is) = []" using failed Cons.prems(3) by (intro lg_bars_zero) auto
    then have "trades [] (lg_uio d priv) (lg_bars (lg_bar_addrs priv') (i # is) @ lg_uio d priv')"
      unfolding r(1) by (simp add: lg_uio_def)
    moreover have "same_rest priv priv'"
      "\<forall>j. j \<notin> set (i # is) \<longrightarrow> lg_bar_addrs priv' j = lg_bar_addrs priv j" unfolding r(1) by (simp_all add: same_rest_def)
    ultimately show ?thesis using r(2) by blast
  next
    case plain
    let ?k = "acquire (Mapping a) True s k"
    have zero: "\<And>j. j \<in> set is \<Longrightarrow> lg_bar_addrs ?p j = 0" using Cons.prems(2,3) by auto
    have rec: "legacy_map_bars api d is ?p ?k = (ok, priv', k')" using run plain by simp
    obtain t where t: "klog k' = klog ?k @ t" "trades t (lg_uio d ?p) (lg_bars (lg_bar_addrs priv') is @ lg_uio d priv')"
      "\<forall>j. j \<notin> set is \<longrightarrow> lg_bar_addrs priv' j = lg_bar_addrs ?p j"
      "same_rest ?p priv'"
      using Cons.IH [OF rec _ zero] Cons.prems(2,4) plain by auto
    have "trades [Get (Mapping a)] (lg_uio d priv) (lg_uio d ?p @ [Mapping a])"
      by (rule trades_gain [OF gains_Get]) (simp add: lg_uio_def)
    from trades_append [OF this trades_frame [OF t(2)]]
    have "trades ([Get (Mapping a)] @ t) (lg_uio d priv) (lg_bars (lg_bar_addrs priv') (i # is) @ lg_uio d priv')"
      using t(3) Cons.prems(2) plain by (elim trades_mset) auto
    then show ?thesis using t Cons.prems(2) by (auto simp: same_rest_def)
  next
    case no_uio
    then have r: "priv' = ?p\<lparr>lg_uio_size := 0\<rparr>" "klog k' = klog k @ [Get (Mapping a)]" using run u by auto
    have "lg_bars (lg_bar_addrs priv') (i # is) = Mapping a # lg_bars (lg_bar_addrs priv) is"
      using r no_uio Cons.prems(2) by (auto intro: lg_bars_cong)
    also have "lg_bars (lg_bar_addrs priv) is = []" using Cons.prems(3) by (intro lg_bars_zero) auto
    finally have b: "lg_bars (lg_bar_addrs priv') (i # is) = [Mapping a]" .
    have "lg_uio d priv' = []" "lg_uio d priv = []" using uio0 no_uio r by (simp_all add: lg_uio_def)
    then have "trades [Get (Mapping a)] (lg_uio d priv) (lg_bars (lg_bar_addrs priv') (i # is) @ lg_uio d priv')"
      unfolding b by (intro trades_gain [OF gains_Get]) simp
    moreover have "same_rest priv priv'"
      "\<forall>j. j \<notin> set (i # is) \<longrightarrow> lg_bar_addrs priv' j = lg_bar_addrs priv j" unfolding r(1) by (simp_all add: same_rest_def)
    ultimately show ?thesis using r(2) by blast
  next
    case uio
    let ?k = "acquire (UioDevice d) True s' (acquire (Mapping a) True s k)" and ?q = "?p\<lparr>lg_uio_size := ?size\<rparr>"
    have zero: "\<And>j. j \<in> set is \<Longrightarrow> lg_bar_addrs ?q j = 0" using Cons.prems(2,3) by auto
    have rec: "legacy_map_bars api d is ?q ?k = (ok, priv', k')" using run uio u by simp
    obtain t where t: "klog k' = klog ?k @ t" "trades t (lg_uio d ?q) (lg_bars (lg_bar_addrs priv') is @ lg_uio d priv')"
      "\<forall>j. j \<notin> set is \<longrightarrow> lg_bar_addrs priv' j = lg_bar_addrs ?q j"
      "same_rest ?q priv'"
      using Cons.IH [OF rec _ zero] Cons.prems(2,4) uio by auto
    have "lg_uio d ?q = [UioDevice d]" using size by (simp add: lg_uio_def word_gt_0)
    then have "trades [Get (Mapping a), Get (UioDevice d)] (lg_uio d priv) (lg_uio d ?q @ [Mapping a])"
      using uio0 uio by (simp add: trades_def)
    from trades_append [OF this trades_frame [OF t(2)]]
    have "trades ([Get (Mapping a), Get (UioDevice d)] @ t) (lg_uio d priv)
        (lg_bars (lg_bar_addrs priv') (i # is) @ lg_uio d priv')"
      using t(3) Cons.prems(2) uio by (elim trades_mset) auto
    then show ?thesis using t Cons.prems(2) by (auto simp: same_rest_def)
  qed
qed

lemma legacy_setup_spec:
  assumes "legacy_setup_pci api d priv k = (r, priv', k')" and "sane_bars api"
    and "\<And>i. lg_bar_addrs priv i = 0" and "lg_uio_size priv = 0"
  shows "\<exists>t. klog k' = klog k @ t \<and> gains t (if r = 0 then lg_pci_resources d priv' else []) \<and>
    lg_state priv' = lg_state priv \<and> lg_fdev_list priv' = lg_fdev_list priv \<and>
    lg_debugfs_root priv' = lg_debugfs_root priv"
proof -
  define up where "up = api_upstream_bridge api d (kern k)"
  define p where "p = priv\<lparr>lg_pci_dev := d, lg_pci_upstream_dev := up\<rparr>"
  obtain r1 s1 where 1: "api_enable_device api d (kern k) = (r1, s1)" by (cases "api_enable_device api d (kern k)")
  obtain r2 s2 where 2: "api_request_regions api d (api_set_master api d s1) = (r2, s2)"
    by (cases "api_request_regions api d (api_set_master api d s1)")
  let ?k2 = "acquire (Regions d) (r2 = 0) s2 (acquire (DevEnabled d) (r1 = 0) s1 k\<lparr>kern := api_set_master api d s1\<rparr>)"
  obtain ok q k3 where 3: "legacy_map_bars api d [0..<ALTR_PCI_CVP_NUM_BARS] p ?k2 = (ok, q, k3)" by (metis prod_cases3)
  have "(\<exists>t. klog k3 = klog ?k2 @ t \<and>
      trades t (lg_uio d p) (lg_bars (lg_bar_addrs q) [0..<ALTR_PCI_CVP_NUM_BARS] @ lg_uio d q)) \<and>
      same_rest p q"
    using legacy_map_bars_spec [OF 3 _ assms(2)] assms(3,4) by (simp add: p_def)
  then obtain t where t: "klog k3 = klog ?k2 @ t"
    "trades t [] (lg_bars (lg_bar_addrs q) [0..<ALTR_PCI_CVP_NUM_BARS] @ lg_uio d q)"
    and q: "lg_state q = lg_state priv" "lg_fdev_list q = lg_fdev_list priv" "lg_debugfs_root q = lg_debugfs_root priv"
    using assms(4) by (auto simp: lg_uio_def p_def same_rest_def)
  let ?t = "[Get (DevEnabled d), Get (Regions d)] @ t"
  have "trades [Get (DevEnabled d), Get (Regions d)] [] [Regions d, DevEnabled d]" by (simp add: trades_def ac_simps)
  from trades_append [OF this trades_frame [OF t(2), simplified]]
  have full: "trades ?t [] (lg_pci_resources d q)" by (elim trades_mset) (simp_all add: lg_pci_resources_def)
  then have gain: "gains ?t (lg_pci_resources d q)" "gains (?t @ map Put (lg_pci_resources d q)) []"
    using trades_append [OF full trades_puts] by (simp_all add: trades_def gains_def)
  obtain q' k4 where 4: "legacy_shutdown_pci api d q k3 = (q', k4)" by (cases "legacy_shutdown_pci api d q k3")
  have q': "lg_state q' = lg_state q" "lg_fdev_list q' = lg_fdev_list q" "lg_debugfs_root q' = lg_debugfs_root q"
    using 4 by (auto simp: legacy_shutdown_pci_def Let_def split: if_splits)
  note run = assms(1) [unfolded legacy_setup_pci_def Let_def up_def [symmetric] p_def [symmetric]]
  consider (no_bridge) "up = None" | (no_enable) "up \<noteq> None" "r1 \<noteq> 0"
    | (no_regions) "up \<noteq> None" "r1 = 0" "r2 \<noteq> 0" | (no_map) "up \<noteq> None" "r1 = 0" "r2 = 0" "\<not> ok"
    | (fine) "up \<noteq> None" "r1 = 0" "r2 = 0" ok by blast
  then show ?thesis
  proof cases
    case no_map
    then have "r = - EIO" "priv' = q'" "k' = k4" "klog k3 = klog k @ ?t"
      using run 3 4 t(1) by (auto simp: 1 2 p_def)
    moreover have "klog k4 = klog k3 @ map Put (lg_pci_resources d q)" using legacy_shutdown_log [OF 4] by simp
    ultimately show ?thesis using gain(2) q q' by (intro exI [of _ "?t @ map Put (lg_pci_resources d q)"]) (simp add: EIO_def)
  next
    case fine
    then have "r = 0" "priv' = q" "k' = k3" "klog k3 = klog k @ ?t" using run 3 t(1) by (auto simp: 1 2 p_def)
    then show ?thesis using gain(1) q by (intro exI [of _ ?t]) simp
  qed (use run in \<open>auto simp: 1 2 p_def EIO_def EINVAL_def gains_def\<close>)
qed

lemma legacy_probe_spec:
  fixes data :: "('k, 'h) legacy_priv option"
  assumes "legacy_probe api d k = (r, data, k')" and "sane_bars api"
  shows "\<exists>t. klog k' = klog k @ t \<and>
    (case data of
       None \<Rightarrow> r \<noteq> 0 \<and> gains t []
     | Some priv \<Rightarrow> lg_debugfs_root priv \<noteq> 0 \<and> lg_state priv = LST_IDLE \<and> lg_fdev_list priv = [] \<and>
         gains t (DebugfsDir (lg_debugfs_root priv) # (if r = 0 then lg_pci_resources d priv else [])))"
proof -
  obtain ok s where 1: "api_devm_kzalloc api (kern k) = (ok, s)" by (cases "api_devm_kzalloc api (kern k)")
  obtain root s2 where 2: "api_debugfs_dir api s = (root, s2)" by (cases "api_debugfs_dir api s")
  obtain ok3 s3 where 3: "api_debugfs_file api ''state'' root s2 = (ok3, s3)"
    by (cases "api_debugfs_file api ''state'' root s2")
  obtain ok4 s4 where 4: "api_debugfs_file api ''base_dtb'' root s3 = (ok4, s4)"
    by (cases "api_debugfs_file api ''base_dtb'' root s3")
  let ?k4 = "acquire (DebugfsDir root) True s2 (k\<lparr>kern := s\<rparr>)\<lparr>kern := s4\<rparr>"
  let ?p = "legacy_zero_priv\<lparr>lg_debugfs_root := root\<rparr> :: ('k, 'h) legacy_priv"
  obtain e q k5 where 5: "legacy_setup_pci api d ?p ?k4 = (e, q, k5)" by (metis prod_cases3)
  obtain t where t: "klog k5 = klog ?k4 @ t" "gains t (if e = 0 then lg_pci_resources d q else [])"
    "lg_state q = LST_IDLE" "lg_fdev_list q = []" "lg_debugfs_root q = root"
    using legacy_setup_spec [OF 5 assms(2)] by (auto simp: legacy_zero_priv_def)
  have "data = None \<and> r \<noteq> 0 \<and>
      (klog k' = klog k \<or> klog k' = klog k @ [Get (DebugfsDir root), Put (DebugfsDir root)]) \<or>
      root \<noteq> 0 \<and> data = Some q \<and> r = e \<and> k' = k5"
    using assms(1) unfolding legacy_probe_def
    by (auto simp: 1 2 3 4 5 Let_def const_defs split: if_split_asm)
  then consider (early) "data = None" "r \<noteq> 0" "klog k' = klog k \<or> klog k' = klog k @ [Get (DebugfsDir root), Put (DebugfsDir root)]"
    | (late) "root \<noteq> 0" "data = Some q" "r = e" "k' = k5"
    by blast
  then show ?thesis
  proof cases
    case early
    have g: "gains [Get (DebugfsDir root), Put (DebugfsDir root)] []" by (simp add: gains_def)
    from early(3) show ?thesis
    proof
      assume "klog k' = klog k"
      then show ?thesis using early by (intro exI [of _ "[]"]) simp
    next
      assume "klog k' = klog k @ [Get (DebugfsDir root), Put (DebugfsDir root)]"
      then show ?thesis using early g by (intro exI [of _ "[Get (DebugfsDir root), Put (DebugfsDir root)]"]) simp
    qed
  next
    case late
    have "gains (Get (DebugfsDir root) # t) (DebugfsDir root # (if e = 0 then lg_pci_resources d q else []))"
      using t(2) by (auto simp: gains_def)
    with late t show ?thesis by (intro exI [of _ "Get (DebugfsDir root) # t"]) simp
  qed
qed

lemma legacy_remove_log:
  assumes "legacy_remove api d (Some priv) k w = Some (k', w')" and "module_tab tab b"
    and "api_keeps (\<lambda>s. no_hooks (fst s)) api" and "quiet_priv tab (\<lambda>s. no_hooks (fst s)) priv k"
    and "lg_debugfs_root priv \<noteq> 0"
  shows "klog k' = klog k @ map Put (fdev_resources (lg_fdev_list priv) @ lg_pci_resources d priv @
    [DebugfsDir (lg_debugfs_root priv)])"
proof -
  obtain q l v where 1: "legacy_remove_all_subdrivers api priv k w = Some (q, l, v)"
    using assms(1) by (auto simp: legacy_remove_def bind_eq_Some_conv)
  obtain q' l' where 2: "legacy_shutdown_pci api d q l = (q', l')" by (cases "legacy_shutdown_pci api d q l")
  have q: "klog l = klog k @ map Put (fdev_resources (lg_fdev_list priv))"
    "q = priv\<lparr>lg_fdev_list := [], lg_state := LST_IDLE\<rparr>"
    using subdrivers.remove_all_spec [OF module_tab_subdrivers [OF assms(2)] 1 _ assms(3)] assms(4)
    by (auto simp: quiet_priv_def)
  have "lg_pci_resources d q = lg_pci_resources d priv" by (simp add: q(2) lg_pci_resources_def lg_uio_def)
  then show ?thesis using assms(1,5) 1 2 q legacy_shutdown_log [OF 2]
    by (auto simp: legacy_remove_def)
qed

section \<open>Properties\<close>


lemma demo_lprobe:
  "\<exists>priv k. legacy_probe demo_lapi 0 demo_lkern = (0, Some (priv :: ((u64, u32 world) mgr_world \<times> nat, u32) legacy_priv), k) \<and>
     lg_state priv = LST_IDLE \<and> lg_fdev_list priv = [] \<and> no_hooks (fst (kern k))"
  by (simp add: legacy_probe_def legacy_setup_pci_def demo_lapi_def demo_lkern_def legacy_zero_priv_def acquire_def
      ALTR_PCI_CVP_NUM_BARS_def ALTR_PCI_CVP_PR_BAR_def upt_rec no_hooks_def)

lemma demo_sane: "sane_bars demo_lapi"
proof -
  have "(0x1000 :: u64) - 1 + 1 \<noteq> 0" "(0x1000 :: u64) + 1 \<noteq> 0" by simp_all
  then show ?thesis by (simp add: sane_bars_def demo_lapi_def)
qed


text \<open>
  A probe that fails in \<open>fpga_pcie_setup_pci\<close> gives back everything but the debugfs directory of the
  card: its files stay although the private data they refer to are released with the failed probe.
\<close>

theorem legacy_probe_leaves_debugfs:
  assumes "legacy_probe api d k = (r, Some priv, k')" and "r \<noteq> 0" and "sane_bars api"
  shows "\<exists>t. klog k' = klog k @ t \<and> puts_ok M t \<and> held M t = add_mset (DebugfsDir (lg_debugfs_root priv)) M"
  using legacy_probe_spec [OF assms(1,3)] assms(2) by (auto simp: gains_def)

theorem legacy_probe_leaves_debugfs_witness:
  "\<exists>priv k t. legacy_probe (demo_lapi\<lparr>api_enable_device := (\<lambda>d k. (- 1, k))\<rparr>) 0 demo_lkern =
      (- EIO, Some (priv :: ((u64, u32 world) mgr_world \<times> nat, u32) legacy_priv), k) \<and>
     klog k = klog demo_lkern @ t \<and> held {#} t = {#DebugfsDir 1#}"
proof -
  let ?api = "demo_lapi\<lparr>api_enable_device := (\<lambda>d k. (- 1, k))\<rparr>"
  have "\<exists>priv k. legacy_probe ?api 0 demo_lkern = (- EIO, Some (priv :: ((u64, u32 world) mgr_world \<times> nat, u32) legacy_priv), k) \<and>
      lg_debugfs_root priv = 1"
    by (simp add: legacy_probe_def legacy_setup_pci_def demo_lapi_def demo_lkern_def legacy_zero_priv_def acquire_def)
  then obtain priv :: "((u64, u32 world) mgr_world \<times> nat, u32) legacy_priv" and k
    where 1: "legacy_probe ?api 0 demo_lkern = (- EIO, Some priv, k)" "lg_debugfs_root priv = 1" by blast
  have "sane_bars ?api" using demo_sane by (simp add: sane_bars_def demo_lapi_def)
  from legacy_probe_leaves_debugfs [OF 1(1) _ this, of "{#}"] 1 show ?thesis by (auto simp: EIO_def)
qed

end
