(* ===== verification/Mgr_Debugfs.thy ===== *)
theory Mgr_Debugfs
  imports Legacy_Probe
begin

text \<open>
  The debugfs files of an FPGA manager, \<open>fpga-mgr-debugfs.c\<close>: user programs write the name of a
  firmware file to \<open>firmware_name\<close>, or an image to \<open>image\<close>, and set the flags and the timeouts in four
  more files. The kernel functions are parameters, allocations are logged.

  A pointer to the data of the files is an option. \<open>None\<close> as a result is a pointer that the kernel
  must not follow (NULL, or the pointer to an allocation of size 0), or a read behind the end of a page.
\<close>

section \<open>The files\<close>

record mgr_debugfs =
  dbg_addr :: nat
  debugfs_dir :: nat
  firmware_name :: "(nat \<times> string) option"
  dbg_info :: fpga_image_info

definition PAGE_SIZE :: nat where [const_defs]: "PAGE_SIZE = 4096"

definition kfree_name :: "'k legacy_api \<Rightarrow> mgr_debugfs \<Rightarrow> 'k kbase \<Rightarrow> 'k kbase" where
  "kfree_name api dbg k = (case firmware_name dbg of None \<Rightarrow> k | Some (a, _) \<Rightarrow> give_back (Memory a) (api_kfree api a) k)"

text \<open>
  The text of the buffer after a newline at its end has been replaced by a terminator. The terminator
  behind the text, which the source writes one byte past the end of the allocation, is taken to stay.
\<close>

definition written_name :: "u8 list \<Rightarrow> string" where
  "written_name bs =
     (let bs = (if bs \<noteq> [] \<and> last bs = 10 then butlast bs else bs)
      in map (\<lambda>b. char_of (unat b)) (takeWhile (\<lambda>b. b \<noteq> 0) bs))"

text \<open>
  \<open>copy_from_user\<close> takes \<open>cnt\<close> bytes from the memory of the user, of which \<open>user_buf\<close> are readable.
\<close>

definition copy_from_user :: "nat \<Rightarrow> u8 list \<Rightarrow> u8 list option" where
  "copy_from_user cnt user_buf = (if cnt \<le> length user_buf then Some (take cnt user_buf) else None)"

definition fpga_mgr_firmware_write_file ::
  "'k legacy_api \<Rightarrow> (string \<Rightarrow> int + u8 list) \<Rightarrow> cbuf \<Rightarrow> u8 list \<Rightarrow> nat \<Rightarrow>
   mgr_debugfs \<Rightarrow> ('p, 'w) fpga_manager \<Rightarrow> 'k kbase \<Rightarrow> 'w \<Rightarrow>
   (int \<times> mgr_debugfs \<times> ('p, 'w) fpga_manager \<times> 'k kbase \<times> 'w) option" where
  "fpga_mgr_firmware_write_file api request_firmware beyond user_buf cnt dbg mgr k w =
     (let (a, s) = api_kzalloc api (kern k);
          k = acquire (Memory a) (a \<noteq> 0) s k
      in if a = 0 then Some (- ENOMEM, dbg, mgr, k, w)
         else (case copy_from_user cnt user_buf of
             None \<Rightarrow> Some (- EFAULT, dbg, mgr, k, w)
           | Some buf \<Rightarrow>
               if cnt = 0 then None
               else do {
                 let name = written_name buf;
                 let k = kfree_name api dbg k;
                 let dbg = dbg\<lparr>firmware_name := Some (a, name)\<rparr>;
                 (ret, mgr, w) \<leftarrow> fpga_mgr_firmware_load request_firmware beyond mgr (dbg_info dbg) name w;
                 Some (if ret \<noteq> 0 then ret else int cnt, dbg, mgr, k, w)
               }))"

text \<open>
  \<open>snprintf\<close> prints into a page and gives the length of the whole text, which is then taken for the
  length of the buffer. \<open>uncopied\<close> says how many bytes \<open>copy_to_user\<close> cannot store. The result is the
  code, the new position and the bytes the user gets.
\<close>

definition simple_read_from_buffer ::
  "nat \<Rightarrow> nat \<Rightarrow> nat \<Rightarrow> string \<Rightarrow> nat \<Rightarrow> (int \<times> nat \<times> string) option" where
  "simple_read_from_buffer uncopied cnt ppos page available =
     (let n = min cnt (available - ppos); m = n - uncopied
      in if n = 0 then Some (0, ppos, [])
         else if ppos + n > length page then None
         else if m = 0 then Some (- EFAULT, ppos, [])
         else Some (int m, ppos + m, take m (drop ppos page)))"

definition page_of :: "string \<Rightarrow> string" where
  "page_of txt = (let t = take (PAGE_SIZE - 1) txt in t @ replicate (PAGE_SIZE - length t) (CHR 0x00))"

definition fpga_mgr_firmware_read_file ::
  "'k legacy_api \<Rightarrow> nat \<Rightarrow> nat \<Rightarrow> nat \<Rightarrow> mgr_debugfs \<Rightarrow> 'k kbase \<Rightarrow> (int \<times> nat \<times> string \<times> 'k kbase) option" where
  "fpga_mgr_firmware_read_file api uncopied cnt ppos dbg k =
     (case firmware_name dbg of
        None \<Rightarrow> Some (0, ppos, [], k)
      | Some (_, name) \<Rightarrow>
          let (a, s) = api_kzalloc api (kern k);
              k = acquire (Memory a) (a \<noteq> 0) s k
          in if a = 0 then Some (- ENOMEM, ppos, [], k)
             else do {
               let buf = name @ [CHR 0x0A];
               (ret, ppos, out) \<leftarrow> simple_read_from_buffer uncopied cnt ppos (page_of buf) (length buf);
               Some (ret, ppos, out, give_back (Memory a) (api_kfree api a) k)
             })"

text \<open>An allocation of no bytes gives an address that is not \<open>NULL\<close> and stands for no memory.\<close>

definition fpga_mgr_image_write_file ::
  "'k legacy_api \<Rightarrow> cbuf \<Rightarrow> u8 list \<Rightarrow> nat \<Rightarrow>
   mgr_debugfs \<Rightarrow> ('p, 'w) fpga_manager \<Rightarrow> 'k kbase \<Rightarrow> 'w \<Rightarrow>
   (int \<times> mgr_debugfs \<times> ('p, 'w) fpga_manager \<times> 'k kbase \<times> 'w) option" where
  "fpga_mgr_image_write_file api beyond user_buf cnt dbg mgr k w =
     (let (a, s) = api_kzalloc api (kern k);
          k = acquire (Memory a) (a \<noteq> 0 \<and> 0 < cnt) s k
      in if a = 0 then Some (- ENOMEM, dbg, mgr, k, w)
         else (case copy_from_user cnt user_buf of
             None \<Rightarrow> Some (- EFAULT, dbg, mgr, k, w)
           | Some buf \<Rightarrow> do {
               let k = kfree_name api dbg k;
               let dbg = dbg\<lparr>firmware_name := None\<rparr>;
               (ret, mgr, w) \<leftarrow> fpga_mgr_buf_load mgr (dbg_info dbg) (image_buf buf beyond) cnt w;
               Some (int cnt, dbg, mgr, k, w)
             }))"

section \<open>Creation and removal\<close>

text \<open>
  \<open>root\<close> is the directory of the framework, 0 when it could not be created. Failures to create the
  files are ignored.
\<close>

definition create_files :: "'k legacy_api \<Rightarrow> nat \<Rightarrow> 'k kbase \<Rightarrow> 'k kbase" where
  "create_files api dir k =
     fold (\<lambda>name k. k\<lparr>kern := snd (api_debugfs_file api name dir (kern k))\<rparr>)
       [''firmware_name'', ''image'', ''flags'', ''enable_to'', ''disable_to'', ''config_to''] k"

definition fpga_mgr_debugfs_add :: "'k legacy_api \<Rightarrow> nat \<Rightarrow> 'k kbase \<Rightarrow> mgr_debugfs option \<times> 'k kbase" where
  "fpga_mgr_debugfs_add api root k =
     (if root = 0 then (None, k)
      else let (a, s) = api_kzalloc api (kern k);
               k = acquire (Memory a) (a \<noteq> 0) s k
           in if a = 0 then (None, k)
              else let (dir, s) = api_debugfs_dir api (kern k);
                       k = acquire (DebugfsDir dir) (dir \<noteq> 0) s k;
                       k = create_files api dir k
                   in (Some \<lparr>dbg_addr = a, debugfs_dir = dir, firmware_name = None,
                        dbg_info = \<lparr>flags = 0, enable_timeout_us = 0, disable_timeout_us = 0,
                          config_complete_timeout_us = 0\<rparr>\<rparr>, k))"

text \<open>\<open>debugfs_remove_recursive\<close> does nothing for a directory that is not there.\<close>

definition remove_dir :: "'k legacy_api \<Rightarrow> nat \<Rightarrow> 'k kbase \<Rightarrow> 'k kbase" where
  "remove_dir api dir k = (if dir = 0 then k else give_back (DebugfsDir dir) (api_debugfs_remove api dir) k)"

definition fpga_mgr_debugfs_remove :: "'k legacy_api \<Rightarrow> nat \<Rightarrow> mgr_debugfs option \<Rightarrow> 'k kbase \<Rightarrow> 'k kbase option" where
  "fpga_mgr_debugfs_remove api root debugfs k =
     (if root = 0 then Some k
      else do {
        dbg \<leftarrow> debugfs;
        let k = remove_dir api (debugfs_dir dbg) k;
        let k = kfree_name api dbg k;
        Some (give_back (Memory (dbg_addr dbg)) (api_kfree api (dbg_addr dbg)) k)
      })"

definition fpga_mgr_debugfs_init :: "'k legacy_api \<Rightarrow> 'k kbase \<Rightarrow> nat \<times> 'k kbase" where
  "fpga_mgr_debugfs_init api k =
     (let (root, s) = api_debugfs_dir api (kern k) in (root, acquire (DebugfsDir root) (root \<noteq> 0) s k))"

definition fpga_mgr_debugfs_uninit :: "'k legacy_api \<Rightarrow> nat \<Rightarrow> 'k kbase \<Rightarrow> 'k kbase" where
  "fpga_mgr_debugfs_uninit api root k = remove_dir api root k"

text \<open>
  The module of the framework: \<open>fpga_mgr_class\<close> is a class or an error pointer (\<open>Inl\<close>), and the
  result carries it together with the root of the debugfs files.
\<close>

definition fpga_mgr_class_init :: "'k legacy_api \<Rightarrow> 'k kbase \<Rightarrow> int \<times> (int + nat) \<times> nat \<times> 'k kbase" where
  "fpga_mgr_class_init api k =
     (let (c, s) = api_class_create api (kern k)
      in (case c of
            Inl e \<Rightarrow> (e, c, 0, k\<lparr>kern := s\<rparr>)
          | Inr _ \<Rightarrow> let (root, k) = fpga_mgr_debugfs_init api (acquire (ClassObj c) True s k) in (0, c, root, k)))"

definition fpga_mgr_class_exit :: "'k legacy_api \<Rightarrow> int + nat \<Rightarrow> nat \<Rightarrow> 'k kbase \<Rightarrow> 'k kbase" where
  "fpga_mgr_class_exit api c root k =
     give_back (ClassObj c) (api_class_destroy api c) (fpga_mgr_debugfs_uninit api root k)"

section \<open>Sequences of accesses\<close>

text \<open>The accesses to the files of one manager with the code each returns.\<close>

datatype file_op =
    FirmwareWrite "u8 list" nat int
  | FirmwareRead nat nat int
  | ImageWrite "u8 list" nat int
  | SetInfo fpga_image_info

type_synonym ('k, 'p, 'w) files_state = "mgr_debugfs \<times> ('p, 'w) fpga_manager \<times> 'k kbase \<times> 'w"

inductive files_run ::
  "'k legacy_api \<Rightarrow> (string \<Rightarrow> int + u8 list) \<Rightarrow> cbuf \<Rightarrow> ('k, 'p, 'w) files_state \<Rightarrow> file_op list \<Rightarrow>
   ('k, 'p, 'w) files_state \<Rightarrow> bool"
  for api req beyond s where
  start: "files_run api req beyond s [] s"
| firmware_write: "files_run api req beyond s ops (dbg, mgr, k, w) \<Longrightarrow>
    fpga_mgr_firmware_write_file api req beyond buf n dbg mgr k w = Some (r, dbg', mgr', k', w') \<Longrightarrow>
    files_run api req beyond s (ops @ [FirmwareWrite buf n r]) (dbg', mgr', k', w')"
| firmware_read: "files_run api req beyond s ops (dbg, mgr, k, w) \<Longrightarrow>
    fpga_mgr_firmware_read_file api uncopied n pos dbg k = Some (r, pos', txt, k') \<Longrightarrow>
    files_run api req beyond s (ops @ [FirmwareRead n pos r]) (dbg, mgr, k', w)"
| image_write: "files_run api req beyond s ops (dbg, mgr, k, w) \<Longrightarrow>
    fpga_mgr_image_write_file api beyond buf n dbg mgr k w = Some (r, dbg', mgr', k', w') \<Longrightarrow>
    files_run api req beyond s (ops @ [ImageWrite buf n r]) (dbg', mgr', k', w')"
| set_info: "files_run api req beyond s ops (dbg, mgr, k, w) \<Longrightarrow>
    files_run api req beyond s (ops @ [SetInfo info]) (dbg\<lparr>dbg_info := info\<rparr>, mgr, k, w)"

text \<open>The accesses that lose the buffer they allocated.\<close>

fun leaking :: "file_op \<Rightarrow> bool" where
  "leaking (FirmwareWrite buf n r) \<longleftrightarrow> length buf < n \<and> r \<noteq> - ENOMEM"
| "leaking (ImageWrite buf n r) \<longleftrightarrow> 0 < n \<and> r \<noteq> - ENOMEM"
| "leaking _ \<longleftrightarrow> False"

definition name_resources :: "mgr_debugfs \<Rightarrow> resource list" where
  "name_resources dbg = (case firmware_name dbg of None \<Rightarrow> [] | Some (a, _) \<Rightarrow> [Memory a])"

lemma kfree_name_log [simp]: "klog (kfree_name api dbg k) = klog k @ map Put (name_resources dbg)"
  by (simp add: kfree_name_def name_resources_def split: option.split)


lemma remove_dir_log [simp]: "klog (remove_dir api d k) = klog k @ (if d = 0 then [] else [Put (DebugfsDir d)])"
  by (simp add: remove_dir_def)

lemma create_files_log [simp]: "klog (create_files api d k) = klog k"
  by (simp add: create_files_def)

text \<open>From \<open>dbg\<close> to \<open>dbg'\<close> the log accounts for the name that is stored, with \<open>n\<close> buffers lost.\<close>

definition accounts :: "mgr_debugfs \<Rightarrow> 'k kbase \<Rightarrow> mgr_debugfs \<Rightarrow> 'k kbase \<Rightarrow> nat \<Rightarrow> bool" where
  "accounts dbg k dbg' k' n \<longleftrightarrow> dbg_addr dbg' = dbg_addr dbg \<and> debugfs_dir dbg' = debugfs_dir dbg \<and>
     (\<exists>t ls. klog k' = klog k @ t \<and> trades t (name_resources dbg) (name_resources dbg' @ map Memory ls) \<and> length ls = n)"

lemma accountsI:
  "dbg_addr dbg' = dbg_addr dbg \<Longrightarrow> debugfs_dir dbg' = debugfs_dir dbg \<Longrightarrow> klog k' = klog k @ t \<Longrightarrow>
   trades t (name_resources dbg) (name_resources dbg' @ map Memory ls) \<Longrightarrow> length ls = n \<Longrightarrow> accounts dbg k dbg' k' n"
  unfolding accounts_def by blast

lemma accounts_refl: "klog k' = klog k \<Longrightarrow> accounts dbg k dbg k' 0"
  by (rule accountsI [where t = "[]" and ls = "[]"]) simp_all

lemma accounts_trans:
  assumes "accounts dbg k dbg1 k1 n" and "accounts dbg1 k1 dbg2 k2 m"
  shows "accounts dbg k dbg2 k2 (n + m)"
proof -
  obtain t ls where t: "klog k1 = klog k @ t" "trades t (name_resources dbg) (name_resources dbg1 @ map Memory ls)" "length ls = n"
    using assms(1) by (auto simp: accounts_def)
  obtain u ms where u: "klog k2 = klog k1 @ u" "trades u (name_resources dbg1) (name_resources dbg2 @ map Memory ms)" "length ms = m"
    using assms(2) by (auto simp: accounts_def)
  from trades_append [OF t(2) trades_frame [OF u(2)]] t u assms show ?thesis
    by (intro accountsI [where t = "t @ u" and ls = "ms @ ls"]) (simp_all add: accounts_def)
qed

text \<open>A buffer that is allocated is lost, freed, or becomes the new name in place of the old one.\<close>

lemma trades_lost: "trades [Get r] rs (rs @ [r])"
  by (simp add: trades_def)

lemma trades_dropped: "trades (Get r # map Put rs) rs [r]"
proof -
  have "puts_ok ((M + {#r#}) + mset rs) (map Put rs) \<and> held ((M + {#r#}) + mset rs) (map Put rs) = M + {#r#}" for M
    by (simp only: held_puts simp_thms)
  then show ?thesis by (simp add: trades_def ac_simps)
qed

lemma accounts_lost:
  "klog k' = klog k @ [Get (Memory a)] \<Longrightarrow> accounts dbg k dbg k' (Suc 0)"
  using trades_lost [of "Memory a"] by (intro accountsI [where t = "[Get (Memory a)]" and ls = "[a]"]) simp_all

lemma accounts_name:
  assumes "klog k' = klog k @ Get (Memory a) # map Put (name_resources dbg)"
  shows "accounts dbg k (dbg\<lparr>firmware_name := Some (a, name)\<rparr>) k' 0" "accounts dbg k (dbg\<lparr>firmware_name := None\<rparr>) k' (Suc 0)"
  using trades_dropped [of "Memory a" "name_resources dbg"] assms
    accountsI [of "dbg\<lparr>firmware_name := Some (a, name)\<rparr>" dbg k' k "Get (Memory a) # map Put (name_resources dbg)" "[]" 0]
    accountsI [of "dbg\<lparr>firmware_name := None\<rparr>" dbg k' k "Get (Memory a) # map Put (name_resources dbg)" "[a]" "Suc 0"]
  by (simp_all add: name_resources_def)

lemma copy_from_user_None [simp]: "copy_from_user n buf = None \<longleftrightarrow> length buf < n"
  by (auto simp: copy_from_user_def)

lemma firmware_write_accounts:
  assumes "fpga_mgr_firmware_write_file api req beyond buf n dbg mgr k w = Some (r, dbg', mgr', k', w')"
  shows "accounts dbg k dbg' k' (if leaking (FirmwareWrite buf n r) then 1 else 0)"
proof -
  obtain a s where a: "api_kzalloc api (kern k) = (a, s)" by (cases "api_kzalloc api (kern k)")
  consider (no_mem) "a = 0" | (fault) "a \<noteq> 0" "length buf < n" | (named) "a \<noteq> 0" "n \<le> length buf" by linarith
  then show ?thesis
  proof cases
    case no_mem
    then show ?thesis using assms a by (auto simp: fpga_mgr_firmware_write_file_def intro!: accounts_refl)
  next
    case fault
    then show ?thesis using assms a
      by (auto simp: fpga_mgr_firmware_write_file_def copy_from_user_def EFAULT_def ENOMEM_def intro!: accounts_lost)
  next
    case named
    let ?k = "kfree_name api dbg (acquire (Memory a) True s k)"
    have "k' = ?k \<and> (\<exists>name. dbg' = dbg\<lparr>firmware_name := Some (a, name)\<rparr>)" using assms a named
      by (auto simp: fpga_mgr_firmware_write_file_def copy_from_user_def Let_def
          split: if_splits bind_splits)
    then show ?thesis using named by (auto intro!: accounts_name(1))
  qed
qed

lemma firmware_read_accounts:
  assumes "fpga_mgr_firmware_read_file api uncopied n pos dbg k = Some (r, pos', txt, k')"
  shows "accounts dbg k dbg k' 0"
proof -
  obtain a s where a: "api_kzalloc api (kern k) = (a, s)" by (cases "api_kzalloc api (kern k)")
  have "klog k' = klog k \<or> klog k' = klog k @ [Get (Memory a), Put (Memory a)]"
    using assms a by (auto simp: fpga_mgr_firmware_read_file_def Let_def split: option.splits if_splits bind_splits)
  then show ?thesis
    using trades_between [OF trades_Nil, of "Memory a" "name_resources dbg"]
    by (auto intro: accounts_refl accountsI [where t = "[Get (Memory a), Put (Memory a)]" and ls = "[]"])
qed

lemma image_write_accounts:
  assumes "fpga_mgr_image_write_file api beyond buf n dbg mgr k w = Some (r, dbg', mgr', k', w')"
  shows "accounts dbg k dbg' k' (if leaking (ImageWrite buf n r) then 1 else 0)"
proof -
  obtain a s where a: "api_kzalloc api (kern k) = (a, s)" by (cases "api_kzalloc api (kern k)")
  consider (no_mem) "a = 0" | (fault) "a \<noteq> 0" "length buf < n" | (loaded) "a \<noteq> 0" "n \<le> length buf" by linarith
  then show ?thesis
  proof cases
    case no_mem
    then show ?thesis using assms a by (auto simp: fpga_mgr_image_write_file_def intro!: accounts_refl)
  next
    case fault
    then show ?thesis using assms a
      by (auto simp: fpga_mgr_image_write_file_def copy_from_user_def EFAULT_def ENOMEM_def intro!: accounts_lost)
  next
    case loaded
    let ?k = "kfree_name api dbg (acquire (Memory a) (0 < n) s k)"
    have 1: "k' = ?k \<and> dbg' = dbg\<lparr>firmware_name := None\<rparr> \<and> r = int n" using assms a loaded
      by (auto simp: fpga_mgr_image_write_file_def copy_from_user_def Let_def split: bind_splits)
    show ?thesis
    proof (cases "n = 0")
      case True
      have "accounts dbg k (dbg\<lparr>firmware_name := None\<rparr>) ?k 0"
        using True trades_puts [of "name_resources dbg"]
        by (intro accountsI [where t = "map Put (name_resources dbg)" and ls = "[]"]) (simp_all add: name_resources_def)
      then show ?thesis using 1 True by simp
    next
      case False
      then show ?thesis using 1 by (auto simp: ENOMEM_def intro!: accounts_name(2))
    qed
  qed
qed

lemma files_run_accounts:
  assumes "files_run api req beyond (dbg, mgr, k, w) ops (dbg', mgr', k', w')"
  shows "accounts dbg k dbg' k' (length (filter leaking ops))"
  using assms
proof (induction ops "(dbg', mgr', k', w')" arbitrary: dbg' mgr' k' w' rule: files_run.induct)
  case start
  then show ?case by (simp add: accounts_refl)
next
  case (firmware_write ops dbg1 mgr1 k1 w1 buf n r)
  from accounts_trans [OF firmware_write.hyps(2) firmware_write_accounts [OF firmware_write.hyps(3)]] show ?case by (auto split: if_splits)
next
  case (firmware_read ops k1 uncopied n pos r pos1 out)
  from accounts_trans [OF firmware_read.hyps(2) firmware_read_accounts [OF firmware_read.hyps(3)]] show ?case by simp
next
  case (image_write ops dbg1 mgr1 k1 w1 buf n r)
  from accounts_trans [OF image_write.hyps(2) image_write_accounts [OF image_write.hyps(3)]] show ?case by (auto split: if_splits)
next
  case (set_info ops dbg1 info)
  then show ?case by (simp add: accounts_def name_resources_def)
qed

text \<open>Loading and unloading the module of the framework gives back the class and the directory.\<close>

lemma class_init_exit_balanced:
  assumes "fpga_mgr_class_init api k = (0, c, root, k')" and "\<And>s e s'. api_class_create api s = (Inl e, s') \<Longrightarrow> e < 0"
  shows "\<exists>t. klog (fpga_mgr_class_exit api c root k') = klog k @ t \<and> trades t [] []"
  using assms
  by (auto simp: fpga_mgr_class_init_def fpga_mgr_class_exit_def fpga_mgr_debugfs_init_def fpga_mgr_debugfs_uninit_def
      trades_def Let_def split: prod.splits sum.splits)

section \<open>The name of the firmware\<close>

lemma unat_of_char [simp]: "unat (of_char c :: u8) = of_char c"
proof -
  have "unat (of_nat (of_char c) :: u8) = of_char c" by (simp only: unat_of_nat) simp
  then show ?thesis by (metis of_nat_of_char)
qed

lemma of_char_byte_eq: "(of_char c :: u8) = of_char d \<longleftrightarrow> c = d"
  by (metis unat_of_char char_of_char)

lemma of_char_byte_const: "(of_char c :: u8) = 0 \<longleftrightarrow> c = CHR 0x00" "(of_char c :: u8) = 10 \<longleftrightarrow> c = CHR 0x0A"
  using of_char_byte_eq [of c "CHR 0x00"] of_char_byte_eq [of c "CHR 0x0A"] by (simp_all add: of_char_def)

lemma written_name_bytes:
  assumes "name \<noteq> []" and "CHR 0x00 \<notin> set name" and "last name \<noteq> CHR 0x0A"
  shows "written_name (bytes name) = name" "written_name (bytes name @ [10]) = name"
proof -
  have tw: "takeWhile (\<lambda>b. b \<noteq> 0) (bytes name) = bytes name"
    using assms(2) by (auto simp: takeWhile_eq_all_conv bytes_def of_char_byte_const)
  have "map (\<lambda>b. char_of (unat b)) (bytes name) = name" by (simp add: bytes_def comp_def)
  moreover have "last (bytes name) \<noteq> 10" using assms by (simp add: bytes_def last_map of_char_byte_const)
  ultimately show "written_name (bytes name) = name" "written_name (bytes name @ [10]) = name"
    by (simp_all add: written_name_def tw)
qed

section \<open>Properties\<close>

text \<open>
  C32. From the creation of the files of a manager over any sequence of reads and writes to their
  removal, nothing is freed that is not held, and exactly one buffer is lost for each image of at least one
  byte that is written and for each name that cannot be copied from the user; all other memory and the directory
  are given back.
\<close>

theorem debugfs_memory_accounted:
  assumes "fpga_mgr_debugfs_add api root k = (Some dbg, k1)"
    and "files_run api req beyond (dbg, mgr, k1, w) ops (dbg', mgr', k2, w')"
  shows "\<exists>k3 t ls. fpga_mgr_debugfs_remove api root (Some dbg') k2 = Some k3 \<and> klog k3 = klog k @ t \<and>
    puts_ok M t \<and> held M t = M + mset (map Memory ls) \<and> length ls = length (filter leaking ops)"
proof -
  obtain a d where add: "root \<noteq> 0" "dbg_addr dbg = a" "debugfs_dir dbg = d" "name_resources dbg = []"
    "klog k1 = klog k @ [Get (Memory a)] @ (if d = 0 then [] else [Get (DebugfsDir d)])"
    using assms(1) by (auto simp: fpga_mgr_debugfs_add_def name_resources_def Let_def split: if_splits prod.splits)
  obtain t ls where t: "klog k2 = klog k1 @ t" "trades t [] (name_resources dbg' @ map Memory ls)"
    "length ls = length (filter leaking ops)" and same: "dbg_addr dbg' = a" "debugfs_dir dbg' = d"
    using files_run_accounts [OF assms(2)] add by (auto simp: accounts_def)
  let ?rs = "(if d = 0 then [] else [DebugfsDir d]) @ name_resources dbg' @ [Memory a]"
  let ?qs = "(if d = 0 then [] else [DebugfsDir d]) @ [Memory a]"
  let ?t = "map Get (rev ?qs) @ t @ map Put ?rs"
  have rm: "\<exists>k3. fpga_mgr_debugfs_remove api root (Some dbg') k2 = Some k3 \<and> klog k3 = klog k @ ?t"
    using add(1,5) t(1) same by (auto simp: fpga_mgr_debugfs_remove_def)
  have "trades (map Get (rev ?qs)) [] ?qs" by (simp add: trades_def)
  from trades_append [OF this trades_frame [OF t(2), of ?qs, simplified append_Nil]]
  have "trades (map Get (rev ?qs) @ t) [] (?rs @ map Memory ls)" by (elim trades_mset) simp_all
  from trades_append [OF this trades_frame [OF trades_puts]] have "trades ?t [] (map Memory ls)" by simp
  then have "puts_ok (M + mset []) ?t \<and> held (M + mset []) ?t = M + mset (map Memory ls)"
    unfolding trades_def by blast
  then show ?thesis using rm t(3) by auto
qed


definition demo_ops :: "(unit, nat) fpga_manager_ops" where
  "demo_ops = \<lparr>op_state = Some (\<lambda>p w. (FPGA_MGR_STATE_UNKNOWN, w)), op_write_init = Some (\<lambda>p i b n w. (0, w)),
     op_write = Some (\<lambda>p b n w. (0, w + n)), op_write_complete = Some (\<lambda>p i w. (0, w)), op_fpga_remove = None\<rparr>"

definition demo_named_mgr :: "(unit, nat) fpga_manager" where
  "demo_named_mgr = \<lparr>mgr_name = ''pr'', ref_mutex = False, mgr_state = FPGA_MGR_STATE_UNKNOWN, mops = demo_ops,
     mgr_priv = (), mgr_id = 0, mgr_parent = 1, mgr_of_node = 7\<rparr>"

definition demo_dbg :: mgr_debugfs where
  "demo_dbg = \<lparr>dbg_addr = 1, debugfs_dir = 2, firmware_name = None,
     dbg_info = \<lparr>flags = 1, enable_timeout_us = 0, disable_timeout_us = 0, config_complete_timeout_us = 10\<rparr>\<rparr>"

definition demo_kbase :: "(unit \<times> nat) kbase" where
  "demo_kbase = \<lparr>kern = ((), 0), klog = []\<rparr>"

lemmas demo_files = demo_named_mgr_def demo_ops_def demo_kbase_def demo_lapi_def

theorem debugfs_memory_accounted_witness:
  "\<exists>dbg k1 r dbg' mgr' k2 w' k3 ls.
     fpga_mgr_debugfs_add demo_lapi 1 demo_kbase = (Some dbg, k1) \<and>
     fpga_mgr_image_write_file demo_lapi (\<lambda>_. 0) [1, 2, 3] 3 dbg demo_named_mgr k1 0 = Some (r, dbg', mgr', k2, w') \<and>
     fpga_mgr_debugfs_remove demo_lapi 1 (Some dbg') k2 = Some k3 \<and>
     held {#} (klog k3) = mset (map Memory ls) \<and> length ls = 1"
proof -
  have "\<exists>dbg k1. fpga_mgr_debugfs_add demo_lapi 1 demo_kbase = (Some dbg, k1)"
    by (simp add: fpga_mgr_debugfs_add_def demo_files Let_def)
  then obtain dbg k1 where add: "fpga_mgr_debugfs_add demo_lapi 1 demo_kbase = (Some dbg, k1)" by blast
  have "\<exists>dbg' mgr' k2 w'. fpga_mgr_image_write_file demo_lapi (\<lambda>_. 0) [1, 2, 3] 3 dbg demo_named_mgr k1 0 =
      Some (3, dbg', mgr', k2, w')"
    by (simp add: fpga_mgr_image_write_file_def fpga_mgr_buf_load_def copy_from_user_def demo_files Let_def)
  then obtain dbg' mgr' k2 w' where wr: "fpga_mgr_image_write_file demo_lapi (\<lambda>_. 0) [1, 2, 3] 3 dbg demo_named_mgr k1 0 =
      Some (3, dbg', mgr', k2, w')" by blast
  have run: "files_run demo_lapi (\<lambda>_. Inl 0) (\<lambda>_. 0) (dbg, demo_named_mgr, k1, 0) ([] @ [ImageWrite [1, 2, 3] 3 3])
      (dbg', mgr', k2, w')"
    by (rule files_run.image_write [OF files_run.start wr])
  show ?thesis using debugfs_memory_accounted [OF add run, of "{#}"] add wr
    by (auto simp: demo_kbase_def ENOMEM_def)
qed



end
