(* ===== verification/Libc.thy ===== *)
theory Libc
  imports Prelude
begin

text \<open>
  What the user programs of the repository use of the C library: the conversion of numbers
  (\<open>strtoul\<close> in base 16 and \<open>strtol\<close> in base 10, both of 64 bits), the comparison of the first
  characters of two strings, and the return value of \<open>ioctl\<close>. A string is the list of its characters
  up to the terminator.
\<close>

section \<open>Numbers\<close>

definition isspace :: "char \<Rightarrow> bool" where
  "isspace c \<longleftrightarrow> of_char c \<in> {9, 10, 11, 12, 13, 32 :: nat}"

definition digit :: "nat \<Rightarrow> char \<Rightarrow> nat option" where
  "digit base c =
     (let n = of_char c :: nat;
          d = (if 48 \<le> n \<and> n \<le> 57 then n - 48
               else if 97 \<le> n \<and> n \<le> 122 then n - 87
               else if 65 \<le> n \<and> n \<le> 90 then n - 55
               else base)
      in if d < base then Some d else None)"

fun digits :: "nat \<Rightarrow> string \<Rightarrow> nat list" where
  "digits base [] = []"
| "digits base (c # s) = (case digit base c of None \<Rightarrow> [] | Some d \<Rightarrow> d # digits base s)"

definition number :: "nat \<Rightarrow> string \<Rightarrow> int" where
  "number base s = fold (\<lambda>d n. int base * n + int d) (digits base s) 0"

text \<open>The sign and the rest of a number behind its white space.\<close>

definition signed_part :: "string \<Rightarrow> bool \<times> string" where
  "signed_part s =
     (let s = dropWhile isspace s in
      if take 1 s = ''-'' then (True, drop 1 s) else if take 1 s = ''+'' then (False, drop 1 s) else (False, s))"

text \<open>The prefix \<open>0x\<close> counts as such only in front of a digit.\<close>

definition hex_part :: "string \<Rightarrow> string" where
  "hex_part s = (if (take 2 s = ''0x'' \<or> take 2 s = ''0X'') \<and> digits 16 (drop 2 s) \<noteq> [] then drop 2 s else s)"

definition strtoul16 :: "string \<Rightarrow> u64" where
  "strtoul16 s =
     (let (neg, s) = signed_part s;
          n = number 16 (hex_part s)
      in if n \<ge> 2 ^ 64 then - 1 else if neg then - of_int n else of_int n)"

definition strtol10 :: "string \<Rightarrow> int" where
  "strtol10 s =
     (let (neg, s) = signed_part s;
          n = number 10 s
      in if neg then max (- n) (- (2 ^ 63)) else min n (2 ^ 63 - 1))"

section \<open>Strings\<close>

text \<open>Whether \<open>strncmp\<close> finds the first \<open>n\<close> characters of two strings equal.\<close>

definition strncmp_eq :: "string \<Rightarrow> string \<Rightarrow> nat \<Rightarrow> bool" where
  "strncmp_eq s t n \<longleftrightarrow> take n s = take n t"

section \<open>System calls\<close>

text \<open>A negative code of the kernel is reported as -1.\<close>

definition syscall_result :: "int \<Rightarrow> int" where
  "syscall_result r = (if - 4095 \<le> r \<and> r < 0 then - 1 else r)"

end
