(* ===== verification/Configure.thy ===== *)
theory Configure
  imports Pcie_Driver Libc
begin

text \<open>
  The program \<open>fpga-configure\<close>, which asks the driver for a partial reconfiguration or for one of
  the other services, through ioctls on the character device. The driver is an argument; the
  properties are about the program on top of \<open>my_ioctl\<close>. \<open>None\<close> is a run that does not end, or one
  that leaves the defined behaviour of C: a missing argument, or a path that does not fit in its array.
\<close>

section \<open>The program\<close>

type_synonym 'h driver = "ioctl_cmd \<Rightarrow> fpga_pcie_priv \<Rightarrow> 'h world \<Rightarrow>
  (int \<times> rw_arg_t option \<times> fpga_pcie_priv \<times> 'h world) option"

definition ioctl :: "'h driver \<Rightarrow> ioctl_cmd \<Rightarrow> fpga_pcie_priv \<Rightarrow> 'h world \<Rightarrow>
    (int \<times> fpga_pcie_priv \<times> 'h world) option" where
  "ioctl drv cmd priv w = do { (r, _, priv, w) \<leftarrow> drv cmd priv w; Some (syscall_result r, priv, w) }"

definition partial_reconfig ::
  "'h driver \<Rightarrow> string \<Rightarrow> u32 \<Rightarrow> fpga_pcie_priv \<Rightarrow> 'h world \<Rightarrow> (int \<times> fpga_pcie_priv \<times> 'h world) option" where
  "partial_reconfig drv rbf_path region_controller_addr priv w =
     (if length rbf_path \<ge> 1024 then None
      else do {
        let pr_args = \<lparr>rbf_name = rbf_path, config_timeout = 10\<rparr>;
        (r, priv, w) \<leftarrow> ioctl drv (FPGA_PR_REGION_CONTROLLER_FREEZE_ENABLE (Some region_controller_addr)) priv w;
        if r = - 1 then Some (- 1, priv, w)
        else do {
          (r, priv, w) \<leftarrow> ioctl drv (FPGA_INITIATE_PR (Some pr_args)) priv w;
          if r = - 1 then Some (- 1, priv, w)
          else do {
            (r, priv, w) \<leftarrow> ioctl drv (FPGA_PR_REGION_CONTROLLER_FREEZE_DISABLE (Some region_controller_addr)) priv w;
            if r = - 1 then Some (- 1, priv, w) else Some (0, priv, w)
          }
        }
      })"

definition disable_aer :: "'h driver \<Rightarrow> fpga_pcie_priv \<Rightarrow> 'h world \<Rightarrow> (int \<times> fpga_pcie_priv \<times> 'h world) option" where
  "disable_aer drv priv w = do {
     (r, priv, w) \<leftarrow> ioctl drv FPGA_DISABLE_UPSTREAM_AER priv w;
     Some (if r = - 1 then - 1 else 0, priv, w)
   }"

definition enable_aer :: "'h driver \<Rightarrow> fpga_pcie_priv \<Rightarrow> 'h world \<Rightarrow> (int \<times> fpga_pcie_priv \<times> 'h world) option" where
  "enable_aer drv priv w = do {
     (r, priv, w) \<leftarrow> ioctl drv FPGA_ENABLE_UPSTREAM_AER priv w;
     Some (if r = - 1 then - 1 else 0, priv, w)
   }"

definition print_rom :: "'h driver \<Rightarrow> fpga_pcie_priv \<Rightarrow> 'h world \<Rightarrow> (int \<times> fpga_pcie_priv \<times> 'h world) option" where
  "print_rom drv priv w = do {
     (r, priv, w) \<leftarrow> ioctl drv FPGA_DEBUG_PRINT_ROM priv w;
     Some (if r = - 1 then - 1 else 0, priv, w)
   }"

datatype configure_option = E_partial_reconfig string u32 | E_disable_aer | E_enable_aer | E_print_rom

text \<open>The command line: \<open>None\<close> when an argument is missing, \<open>Some None\<close> for the usage message.\<close>

definition configure_arguments :: "string list \<Rightarrow> configure_option option option" where
  "configure_arguments argv =
     (if length argv < 2 then None
      else if argv ! 1 = ''-p'' then
        (if length argv < 4 then None
         else Some (Some (E_partial_reconfig (argv ! 2) (ucast (strtoul16 (argv ! 3))))))
      else if argv ! 1 = ''-d'' then Some (Some E_disable_aer)
      else if argv ! 1 = ''-e'' then Some (Some E_enable_aer)
      else if argv ! 1 = ''-r'' then Some (Some E_print_rom)
      else Some None)"

definition configure_main ::
  "'h driver \<Rightarrow> bool \<Rightarrow> string list \<Rightarrow> fpga_pcie_priv \<Rightarrow> 'h world \<Rightarrow> (int \<times> fpga_pcie_priv \<times> 'h world) option" where
  "configure_main drv open_ok argv priv w = do {
     opt \<leftarrow> configure_arguments argv;
     case opt of
       None \<Rightarrow> Some (1, priv, w)
     | Some opt \<Rightarrow>
         if \<not> open_ok then Some (2, priv, w)
         else (case opt of
             E_partial_reconfig rbf_path region_controller_addr \<Rightarrow>
               partial_reconfig drv rbf_path region_controller_addr priv w
           | E_disable_aer \<Rightarrow> disable_aer drv priv w
           | E_enable_aer \<Rightarrow> enable_aer drv priv w
           | E_print_rom \<Rightarrow> print_rom drv priv w)
   }"

section \<open>On top of the driver\<close>

abbreviation card_driver where
  "card_driver b ops fs buf0 \<equiv> \<lambda>cmd priv w. my_ioctl b ops fs buf0 priv cmd w"

abbreviation ctl_status where
  "ctl_status priv addr \<equiv> pr_bar priv (addr + FREEZE_STATUS_OFFSET)"
abbreviation ctl_ctrl where
  "ctl_ctrl priv addr \<equiv> pr_bar priv (addr + FREEZE_CTRL_OFFSET)"
abbreviation ctl_version where
  "ctl_version priv addr \<equiv> pr_bar priv (addr + FREEZE_VERSION_OFFSET)"

lemma enable_spec_code: "enable_spec S C V r t \<Longrightarrow> r = 0 \<or> r = - EINVAL"
  and disable_spec_code: "disable_spec S C V r t \<Longrightarrow> r = 0 \<or> r = - EINVAL"
  by (auto elim: enable_specE disable_specE)

lemma enable_spec_writes: "enable_spec S C V r t \<Longrightarrow> a \<noteq> C \<Longrightarrow> writes_to a t = []"
  and disable_spec_writes: "disable_spec S C V r t \<Longrightarrow> a \<noteq> C \<Longrightarrow> writes_to a t = []"
  by (auto elim!: enable_specE disable_specE simp: writes_to_def dest!: acked_poll_no_writes)

lemma ioctl_freeze:
  assumes "ioctl (card_driver b ops fs buf0) (FPGA_PR_REGION_CONTROLLER_FREEZE_ENABLE (Some addr)) priv w = Some (r, priv', w')"
    and "r \<noteq> - 1"
  shows "r = 0 \<and> priv' = priv \<and>
    (\<exists>t. trace w' = trace w @ t \<and> enable_spec (ctl_status priv addr) (ctl_ctrl priv addr) (ctl_version priv addr) 0 t)"
proof -
  obtain x where x: "fpga_pr_region_controller_freeze_enable b priv addr w = Some (x, w')"
    "priv' = priv" "r = syscall_result x"
    using assms(1) by (auto simp: ioctl_def my_ioctl_def bind_eq_Some_conv)
  from kernel_access.enable_refines [OF x(1) [unfolded freeze_enable_kernel]] obtain t where
    t: "trace w' = trace w @ t" "enable_spec (ctl_status priv addr) (ctl_ctrl priv addr) (ctl_version priv addr) x t"
    by auto
  with enable_spec_code [OF t(2)] x assms(2) show ?thesis
    by (auto simp: syscall_result_def EINVAL_def)
qed

lemma ioctl_unfreeze:
  assumes "ioctl (card_driver b ops fs buf0) (FPGA_PR_REGION_CONTROLLER_FREEZE_DISABLE (Some addr)) priv w = Some (r, priv', w')"
    and "r \<noteq> - 1"
  shows "r = 0 \<and> priv' = priv \<and>
    (\<exists>t. trace w' = trace w @ t \<and> disable_spec (ctl_status priv addr) (ctl_ctrl priv addr) (ctl_version priv addr) 0 t)"
proof -
  obtain x where x: "fpga_pr_region_controller_freeze_disable b priv addr w = Some (x, w')"
    "priv' = priv" "r = syscall_result x"
    using assms(1) by (auto simp: ioctl_def my_ioctl_def bind_eq_Some_conv)
  from kernel_access.disable_refines [OF x(1) [unfolded freeze_disable_kernel]] obtain t where
    t: "trace w' = trace w @ t" "disable_spec (ctl_status priv addr) (ctl_ctrl priv addr) (ctl_version priv addr) x t"
    by auto
  with disable_spec_code [OF t(2)] x assms(2) show ?thesis
    by (auto simp: syscall_result_def EINVAL_def)
qed

text \<open>A core whose driver delivers images and stays at its registers.\<close>

locale loading_core = protocol_core ops operating protocol + card_core b ops
  for b :: "('h, 'z) pci_bus_scheme" and ops :: "'h world pr_ip_ops" and operating protocol
begin

lemma ioctl_load:
  assumes run: "ioctl (card_driver b ops fs buf0) (FPGA_INITIATE_PR (Some a)) priv w = Some (r, priv', w')"
    and fs: "fs (rbf_name a) = Some fp" "file_has fp bs" and len: "1024 \<le> length bs" "length bs < 2 ^ 31"
  shows "r = 0 \<and> (\<exists>x st t. priv' = priv\<lparr>config_state := st\<rparr> \<and> trace w' = trace w @ t \<and>
    load_run (protocol (reg_base priv)) ((!) bs) 1024 bs (nat (config_timeout a mod 2 ^ 32)) x st t \<and>
    prefix (writes_to (reg_base priv) t) (le_words bs) \<and>
    (x \<noteq> 0 \<or> take (length bs) (concat (map word_bytes (writes_to (reg_base priv) t))) = bs))"
proof -
  obtain x st t v where load: "fpga_config_buf_load ops priv (config_timeout a) buf0 fp w =
      Some (x, priv\<lparr>config_state := st\<rparr>, v)" "trace v = trace w @ t"
    "load_run (protocol (reg_base priv)) ((!) bs) 1024 bs (nat (config_timeout a mod 2 ^ 32)) x st t"
    "prefix (writes_to (reg_base priv) t) (le_words bs)"
    "x \<noteq> 0 \<or> take (length bs) (concat (map word_bytes (writes_to (reg_base priv) t))) = bs"
    using load_protocol [OF fs(2) len] by blast
  then have "r = 0" "priv' = priv\<lparr>config_state := st\<rparr>" "w' = v"
    using run fs(1) by (auto simp: ioctl_def my_ioctl_def syscall_result_def)
  then show ?thesis using load(2-5) by blast
qed

lemma reconfig_isolated:
  assumes run: "partial_reconfig (card_driver b ops fs buf0) path addr priv w = Some (0, priv', w')"
    and fs: "fs path = Some fp" "file_has fp bs" and len: "1024 \<le> length bs" "length bs < 2 ^ 31"
  shows "\<exists>t1 t2 t3 r st. trace w' = trace w @ t1 @ t2 @ t3 \<and>
    enable_spec (ctl_status priv addr) (ctl_ctrl priv addr) (ctl_version priv addr) 0 t1 \<and>
    load_run (protocol (reg_base priv)) ((!) bs) 1024 bs 10 r st t2 \<and>
    prefix (writes_to (reg_base priv) t2) (le_words bs) \<and>
    (r \<noteq> 0 \<or> take (length bs) (concat (map word_bytes (writes_to (reg_base priv) t2))) = bs) \<and>
    disable_spec (ctl_status priv addr) (ctl_ctrl priv addr) (ctl_version priv addr) 0 t3 \<and>
    priv' = priv\<lparr>config_state := st\<rparr>"
proof -
  let ?d = "card_driver b ops fs buf0"
  from run obtain r1 p1 w1 r2 p2 w2 r3 where
    1: "ioctl ?d (FPGA_PR_REGION_CONTROLLER_FREEZE_ENABLE (Some addr)) priv w = Some (r1, p1, w1)" "r1 \<noteq> - 1"
    and 2: "ioctl ?d (FPGA_INITIATE_PR (Some \<lparr>rbf_name = path, config_timeout = 10\<rparr>)) p1 w1 = Some (r2, p2, w2)"
    and 3: "ioctl ?d (FPGA_PR_REGION_CONTROLLER_FREEZE_DISABLE (Some addr)) p2 w2 = Some (r3, priv', w')" "r3 \<noteq> - 1"
    by (auto simp: partial_reconfig_def bind_eq_Some_conv split: if_splits)
  from ioctl_freeze [OF 1] obtain t1 where t1: "p1 = priv" "trace w1 = trace w @ t1"
    "enable_spec (ctl_status priv addr) (ctl_ctrl priv addr) (ctl_version priv addr) 0 t1" by blast
  from ioctl_load [OF 2, of fp bs] fs len t1(1) obtain r st t2 where t2: "p2 = priv\<lparr>config_state := st\<rparr>"
    "trace w2 = trace w1 @ t2" "load_run (protocol (reg_base priv)) ((!) bs) 1024 bs 10 r st t2"
    "prefix (writes_to (reg_base priv) t2) (le_words bs)"
    "r \<noteq> 0 \<or> take (length bs) (concat (map word_bytes (writes_to (reg_base priv) t2))) = bs" by auto
  from ioctl_unfreeze [OF 3] obtain t3 where t3: "priv' = p2" "trace w' = trace w2 @ t3"
    "disable_spec (ctl_status priv addr) (ctl_ctrl priv addr) (ctl_version priv addr) 0 t3"
    using t2(1) by auto
  show ?thesis using t1 t2 t3
    by (intro exI [of _ t1] exI [of _ t2] exI [of _ t3] exI [of _ r] exI [of _ st]) simp
qed

end

interpretation a10_load: loading_core b "a10_ops b buf1" operating_a10 a10_protocol for b buf1
  by (intro loading_core.intro a10p.protocol_core_axioms a10_card.card_core_axioms)

interpretation s10_load: loading_core b "s10_ops vb wt b buf1" operating_s10 "s10_protocol vb wt" for vb wt b buf1
  by (intro loading_core.intro s10p.protocol_core_axioms s10_card.card_core_axioms)

section \<open>A card for the witnesses\<close>

text \<open>The region controller of \<open>demo_ctlr\<close> in BAR 4; the PR IP core is busy and refuses the image.\<close>

definition demo_region :: "(u32 \<times> u32) pci_bus" where
  "demo_region = bus.extend (demo_ctlr 0x50800
       \<lparr>bus_read := (\<lambda>a h. if a = 0x31004 then (ALT_PR_CSR_PR_START, h) else bus_read (demo_ctlr 0x50800) a h)\<rparr>)
     \<lparr>hw_find_capability = (\<lambda>d c h. 0), hw_find_ext_capability = (\<lambda>d c h. 0),
      hw_cfg_read32 = (\<lambda>d p h. (0, h)), hw_cfg_write32 = (\<lambda>d p v h. h),
      hw_cfg_read16 = (\<lambda>d p h. (0, h)), hw_cfg_write16 = (\<lambda>d p v h. h),
      hw_save_state = (\<lambda>d h. h), hw_restore_state = (\<lambda>d h. h)\<rparr>"

definition demo_image :: "string \<Rightarrow> kfile option" where
  "demo_image name = (if name = ''persona.rbf'' then Some (file_of (replicate 1024 0)) else None)"

lemma demo_reconfig:
  "\<exists>priv w. partial_reconfig (card_driver demo_region (a10_ops demo_region (\<lambda>_. 0)) demo_image (\<lambda>_. 0))
     ''persona.rbf'' 0x800 demo_priv \<lparr>dev = (2, 0), trace = []\<rparr> = Some (0, priv, w)"
proof -
  obtain buf where buf: "kernel_read (file_of (replicate 1024 0)) 0 (\<lambda>_. 0) 1024 = (1024, buf)"
    using kernel_read_file [OF file_has_file_of [of "replicate 1024 0"], of 0 "\<lambda>_. 0" 1024] by simp
  show ?thesis
    by (simp add: partial_reconfig_def ioctl_def my_ioctl_def demo_image_def fpga_config_buf_load_def buf a10_ops_def
        alt_pr_ip_write_init_a10_def alt_pr_ip_fpga_state_a10_def csr_state_a10_def
        fpga_pr_region_controller_freeze_enable_def fpga_pr_region_controller_freeze_disable_def
        freeze_bridge_read_version_def freeze_bridge_req_ack_def do_while_unfold
        demo_region_def bus.defs demo_defs readl_def writel_def const_defs syscall_result_def)
qed

section \<open>Properties\<close>

text \<open>
  C39. The accesses of a reconfiguration to the PR IP core happen behind closed bridges. When \<open>fpga-configure\<close>
  reports success for an image of at least 1024 bytes and less than 2 GiB, on either core, the register accesses
  are those of a successful freeze of the region, then those of a load under the core's protocol with a timeout of
  10, then those of a successful unfreeze, where the controller's control register is not the data register
  of the core. No word goes to the data register outside the middle part, and the words that do are a prefix of the
  image, all of it when the load returned 0. The report of success does not say that it did: the core may have
  refused the image or failed, and the driver's configuration state is the only trace of that.
\<close>

theorem partial_reconfig_isolated:
  fixes b :: "('h, 'z) pci_bus_scheme"
  assumes "ops = a10_ops b buf1 \<and> protocol = a10_protocol (reg_base priv) \<or>
      ops = s10_ops vb wt b buf1 \<and> protocol = s10_protocol vb wt (reg_base priv)"
    and "partial_reconfig (\<lambda>cmd priv w. my_ioctl b ops fs buf0 priv cmd w) path addr priv w = Some (0, priv', w')"
    and "fs path = Some fp" and "file_has fp bs" and "1024 \<le> length bs" and "length bs < 2 ^ 31"
    and "reg_base priv \<noteq> pr_bar priv (addr + FREEZE_CTRL_OFFSET)"
  shows "\<exists>t1 t2 t3 r st. trace w' = trace w @ t1 @ t2 @ t3 \<and>
    enable_spec (pr_bar priv (addr + FREEZE_STATUS_OFFSET)) (pr_bar priv (addr + FREEZE_CTRL_OFFSET))
      (pr_bar priv (addr + FREEZE_VERSION_OFFSET)) 0 t1 \<and>
    load_run protocol ((!) bs) 1024 bs 10 r st t2 \<and> (r = 0 \<longleftrightarrow> st = FPGA_CONFIG_STATE_OPERATING) \<and>
    prefix (writes_to (reg_base priv) t2) (le_words bs) \<and>
    (r \<noteq> 0 \<or> take (length bs) (concat (map word_bytes (writes_to (reg_base priv) t2))) = bs) \<and>
    disable_spec (pr_bar priv (addr + FREEZE_STATUS_OFFSET)) (pr_bar priv (addr + FREEZE_CTRL_OFFSET))
      (pr_bar priv (addr + FREEZE_VERSION_OFFSET)) 0 t3 \<and>
    writes_to (reg_base priv) t1 = [] \<and> writes_to (reg_base priv) t3 = [] \<and>
    priv' = priv\<lparr>config_state := st\<rparr>"
proof -
  have "(loading_core b ops operating_a10 a10_protocol \<and> protocol = a10_protocol (reg_base priv)) \<or>
    (loading_core b ops operating_s10 (s10_protocol vb wt) \<and> protocol = s10_protocol vb wt (reg_base priv))"
    using assms(1) a10_load.loading_core_axioms s10_load.loading_core_axioms by blast
  then obtain oper P where core: "loading_core b ops oper P" and P: "protocol = P (reg_base priv)" by metis
  obtain t1 t2 t3 r st where "trace w' = trace w @ t1 @ t2 @ t3"
    "load_run protocol ((!) bs) 1024 bs 10 r st t2" "prefix (writes_to (reg_base priv) t2) (le_words bs)"
    "r \<noteq> 0 \<or> take (length bs) (concat (map word_bytes (writes_to (reg_base priv) t2))) = bs"
    "priv' = priv\<lparr>config_state := st\<rparr>"
    and 1: "enable_spec (ctl_status priv addr) (ctl_ctrl priv addr) (ctl_version priv addr) 0 t1"
    and 3: "disable_spec (ctl_status priv addr) (ctl_ctrl priv addr) (ctl_version priv addr) 0 t3"
    using loading_core.reconfig_isolated [OF core assms(2-6)] unfolding P by blast
  with load_run_result enable_spec_writes [OF 1 assms(7)] disable_spec_writes [OF 3 assms(7)] show ?thesis by blast
qed

theorem partial_reconfig_isolated_witness:
  "\<exists>priv w t1 t2 t3 r st. partial_reconfig (\<lambda>cmd priv w. my_ioctl demo_region (a10_ops demo_region (\<lambda>_. 0)) demo_image (\<lambda>_. 0) priv cmd w)
     ''persona.rbf'' 0x800 demo_priv \<lparr>dev = (2, 0), trace = []\<rparr> = Some (0, priv, w) \<and>
   trace w = t1 @ t2 @ t3 \<and> enable_spec 0x50800 0x50804 0x5080c 0 t1 \<and> disable_spec 0x50800 0x50804 0x5080c 0 t3 \<and>
   load_run (a10_protocol (reg_base demo_priv)) ((!) (replicate 1024 0)) 1024 (replicate 1024 0) 10 r st t2"
proof -
  obtain priv w where 1: "partial_reconfig (\<lambda>cmd priv w. my_ioctl demo_region (a10_ops demo_region (\<lambda>_. 0)) demo_image (\<lambda>_. 0) priv cmd w)
     ''persona.rbf'' 0x800 demo_priv \<lparr>dev = (2, 0), trace = []\<rparr> = Some (0, priv, w)" using demo_reconfig by blast
  have len: "1024 \<le> length (replicate 1024 (0 :: u8))" "length (replicate 1024 (0 :: u8)) < 2 ^ 31" by simp_all
  have at: "pr_bar demo_priv (0x800 + FREEZE_STATUS_OFFSET) = 0x50800" "pr_bar demo_priv (0x800 + FREEZE_CTRL_OFFSET) = 0x50804"
    "pr_bar demo_priv (0x800 + FREEZE_VERSION_OFFSET) = 0x5080c" by (simp_all add: demo_priv_def const_defs)
  then have ne: "reg_base demo_priv \<noteq> pr_bar demo_priv (0x800 + FREEZE_CTRL_OFFSET)" by (simp add: demo_priv_def)
  have img: "demo_image ''persona.rbf'' = Some (file_of (replicate 1024 0))" by (simp add: demo_image_def)
  obtain t1 t2 t3 r st where "trace w = [] @ t1 @ t2 @ t3"
    "enable_spec 0x50800 0x50804 0x5080c 0 t1" "disable_spec 0x50800 0x50804 0x5080c 0 t3"
    "load_run (a10_protocol (reg_base demo_priv)) ((!) (replicate 1024 0)) 1024 (replicate 1024 0) 10 r st t2"
    using partial_reconfig_isolated [OF disjI1 [OF conjI [OF refl refl]] 1 img file_has_file_of len ne]
    unfolding at world.simps by blast
  with 1 show ?thesis
    by (intro exI [of _ priv] exI [of _ w] exI [of _ t1] exI [of _ t2] exI [of _ t3] exI [of _ r] exI [of _ st]) simp
qed

text \<open>
  When the driver cannot open the image, the region stays frozen: the program gives up right after
  the freeze and does not ask for the region to be unfrozen.
\<close>

theorem failed_open_leaves_frozen:
  assumes "length path < 1024" and "fs path = None"
    and "fpga_pr_region_controller_freeze_enable b priv addr w = Some (0, w1)"
  shows "partial_reconfig (\<lambda>cmd priv w. my_ioctl b ops fs buf0 priv cmd w) path addr priv w = Some (- 1, priv, w1)"
  using assms by (simp add: partial_reconfig_def ioctl_def my_ioctl_def syscall_result_def)

theorem failed_open_leaves_frozen_witness:
  "partial_reconfig (\<lambda>cmd priv w. my_ioctl demo_region (a10_ops demo_region (\<lambda>_. 0)) demo_image (\<lambda>_. 0) priv cmd w)
     ''lost.rbf'' 0x800 demo_priv \<lparr>dev = (2, 0), trace = []\<rparr> =
   Some (- 1, demo_priv, \<lparr>dev = (1, 2), trace =
     [Read 0x5080c FREEZE_BRIDGE_SUPPORTED_VERSION, Read 0x50800 2, Write 0x50804 FREEZE_REQ,
      Read 0x50800 1, Write 0x50804 RESET_REQ]\<rparr>)"
  by (rule failed_open_leaves_frozen)
    (simp_all add: demo_image_def fpga_pr_region_controller_freeze_enable_def freeze_bridge_read_version_def
      freeze_bridge_req_ack_def do_while_unfold demo_region_def bus.defs demo_defs readl_def writel_def const_defs)

end
