(* ===== verification/Configure_Live.thy ===== *)
theory Configure_Live
  imports Configure
begin

text \<open>
  A reconfiguration comes to an end. The loops of the region controller's driver have no bound, so this rests on
  the device: a freeze controller that follows its register protocol and acknowledges each request after finitely
  many reads of its status. Then the program returns and the region is open again, however long the
  acknowledgements take and whatever the PR IP core answers to the image.
\<close>

section \<open>The protocol of the freeze controller\<close>

text \<open>
  Where the bridges of the region are. While a request is pending, the number bounds the reads of the status
  after which it is acknowledged.
\<close>

datatype bridges = Unfrozen | Freezing nat | Frozen | Unfreezing nat

text \<open>A read of the status: the bits it may show, and where the bridges may be afterwards.\<close>

fun status_shows :: "bridges \<Rightarrow> u32 \<Rightarrow> bridges \<Rightarrow> bool" where
  "status_shows Unfrozen v p \<longleftrightarrow> v AND FREEZE_REQ_DONE = 0 \<and> v AND UNFREEZE_REQ_DONE \<noteq> 0 \<and> p = Unfrozen"
| "status_shows Frozen v p \<longleftrightarrow> v AND FREEZE_REQ_DONE \<noteq> 0 \<and> v AND UNFREEZE_REQ_DONE = 0 \<and> p = Frozen"
| "status_shows (Freezing n) v p \<longleftrightarrow>
     (if v AND FREEZE_REQ_DONE = 0 then p \<in> Freezing ` {..<n} else p = Frozen)"
| "status_shows (Unfreezing n) v p \<longleftrightarrow>
     (if v AND UNFREEZE_REQ_DONE = 0 then p \<in> Unfreezing ` {..<n} else p = Unfrozen)"

text \<open>
  The registers of the controller are the status \<open>S\<close>, the control \<open>C\<close> and the version \<open>V\<close>; \<open>at\<close> reads off the
  state of the device where the bridges are. No unfreeze request is pending in the control register of a frozen
  region.
\<close>

definition freeze_controller ::
  "('h, 'z) bus_scheme \<Rightarrow> u64 \<Rightarrow> u64 \<Rightarrow> u64 \<Rightarrow> ('h \<Rightarrow> bridges) \<Rightarrow> bool" where
  "freeze_controller b S C V at \<longleftrightarrow> (\<forall>h.
     fst (bus_read b V h) = FREEZE_BRIDGE_SUPPORTED_VERSION \<and> at (snd (bus_read b V h)) = at h \<and>
     status_shows (at h) (fst (bus_read b S h)) (at (snd (bus_read b S h))) \<and>
     (at h = Unfrozen \<longrightarrow> (\<forall>v. at (bus_write b C v h) \<in>
        (if v AND FREEZE_REQ = 0 then {Unfrozen} else range Freezing))) \<and>
     (at h = Frozen \<longrightarrow> fst (bus_read b C h) AND UNFREEZE_REQ = 0 \<and> at (snd (bus_read b C h)) = Frozen \<and>
        (\<forall>v. at (bus_write b C v h) \<in> (if v AND UNFREEZE_REQ = 0 then {Frozen} else range Unfreezing))))"

lemma dev_readl: "readl b a w = (v, w') \<Longrightarrow> v = fst (bus_read b a (dev w)) \<and> dev w' = snd (bus_read b a (dev w))"
  by (auto simp: readl_def split: prod.splits)

lemma dev_writel [simp]: "dev (writel b v a w) = bus_write b a v (dev w)"
  by (simp add: writel_def)

lemma read_version_live:
  "freeze_controller b S C V at \<Longrightarrow> readl b V w = (v, w') \<Longrightarrow>
     v = FREEZE_BRIDGE_SUPPORTED_VERSION \<and> at (dev w') = at (dev w)"
  by (auto simp: freeze_controller_def dest!: dev_readl)

lemma read_status_live:
  "freeze_controller b S C V at \<Longrightarrow> readl b S w = (v, w') \<Longrightarrow> status_shows (at (dev w)) v (at (dev w'))"
  by (auto simp: freeze_controller_def dest!: dev_readl)

lemma read_ctrl_live:
  "freeze_controller b S C V at \<Longrightarrow> readl b C w = (v, w') \<Longrightarrow> at (dev w) = Frozen \<Longrightarrow>
     v AND UNFREEZE_REQ = 0 \<and> at (dev w') = Frozen"
  by (auto simp: freeze_controller_def dest!: dev_readl)

lemma write_unfrozen:
  "freeze_controller b S C V at \<Longrightarrow> at (dev w) = Unfrozen \<Longrightarrow>
     at (dev (writel b v C w)) \<in> (if v AND FREEZE_REQ = 0 then {Unfrozen} else range Freezing)"
  unfolding freeze_controller_def dev_writel by blast

lemma write_frozen:
  "freeze_controller b S C V at \<Longrightarrow> at (dev w) = Frozen \<Longrightarrow>
     at (dev (writel b v C w)) \<in> (if v AND UNFREEZE_REQ = 0 then {Frozen} else range Unfreezing)"
  unfolding freeze_controller_def dev_writel by blast

section \<open>The acknowledgements arrive\<close>

lemma poll_arrives:
  fixes pending :: "nat \<Rightarrow> bridges"
  assumes ctl: "freeze_controller b S C V at"
    and pending: "\<And>n v p. status_shows (pending n) v p \<longleftrightarrow> (if v AND req = 0 then p \<in> pending ` {..<n} else p = final)"
    and "at (dev w) = pending n"
  shows "\<exists>ack w'. do_while (\<lambda>(_, w). let (status, w) = readl b S w in (status AND req, w)) (\<lambda>(ack, _). ack = 0) (a, w)
    = Some (ack, w') \<and> at (dev w') = final"
  using assms(3)
proof (induction n arbitrary: a w rule: less_induct)
  case (less n)
  obtain v w1 where v: "readl b S w = (v, w1)" by fastforce
  have seen: "if v AND req = 0 then at (dev w1) \<in> pending ` {..<n} else at (dev w1) = final"
    using read_status_live [OF ctl v] less.prems pending by simp
  show ?case
  proof (cases "v AND req = 0")
    case True
    then obtain m where "m < n" "at (dev w1) = pending m" using seen by auto
    from less.IH [OF this, of 0] True v show ?thesis by (subst do_while_unfold) simp
  next
    case False
    with seen v show ?thesis by (subst do_while_unfold) simp
  qed
qed

lemma req_ack_arrives:
  fixes pending :: "nat \<Rightarrow> bridges"
  assumes "freeze_controller b (ctl_status priv addr) C V at"
    and "\<And>n v p. status_shows (pending n) v p \<longleftrightarrow> (if v AND req = 0 then p \<in> pending ` {..<n} else p = final)"
    and "at (dev w) \<in> range pending"
  shows "\<exists>w'. freeze_bridge_req_ack b priv addr req w = Some (0, w') \<and> at (dev w') = final"
proof -
  obtain n where "at (dev w) = pending n" using assms(3) by blast
  from poll_arrives [OF assms(1,2) this] obtain ack w' where
    "do_while (\<lambda>(_, w). let (status, w) = readl b (ctl_status priv addr) w in (status AND req, w))
      (\<lambda>(ack, _). ack = 0) (0, w) = Some (ack, w')" "at (dev w') = final" by blast
  then show ?thesis by (simp add: freeze_bridge_req_ack_def)
qed

lemma freeze_live:
  assumes ctl: "freeze_controller b (ctl_status priv addr) (ctl_ctrl priv addr) (ctl_version priv addr) at"
    and "at (dev w) = Unfrozen"
  shows "\<exists>w'. fpga_pr_region_controller_freeze_enable b priv addr w = Some (0, w') \<and> at (dev w') = Frozen"
proof -
  obtain v w1 where v: "readl b (ctl_version priv addr) w = (v, w1)" by fastforce
  obtain s w2 where s: "readl b (ctl_status priv addr) w1 = (s, w2)" by fastforce
  have 1: "v = FREEZE_BRIDGE_SUPPORTED_VERSION" "at (dev w1) = Unfrozen"
    using read_version_live [OF ctl v] assms(2) by simp_all
  have 2: "s AND FREEZE_REQ_DONE = 0" "s AND UNFREEZE_REQ_DONE \<noteq> 0" "at (dev w2) = Unfrozen"
    using read_status_live [OF ctl s] 1(2) by simp_all
  let ?w = "writel b FREEZE_REQ (ctl_ctrl priv addr) w2"
  have "at (dev ?w) \<in> range Freezing"
    using write_unfrozen [OF ctl 2(3), of FREEZE_REQ] by (simp add: FREEZE_REQ_def del: dev_writel)
  from req_ack_arrives [where pending = Freezing, OF ctl _ this] obtain w3 where
    3: "freeze_bridge_req_ack b priv addr FREEZE_REQ_DONE ?w = Some (0, w3)" "at (dev w3) = Frozen" by auto
  have "at (dev (writel b RESET_REQ (ctl_ctrl priv addr) w3)) = Frozen"
    using write_frozen [OF ctl 3(2), of RESET_REQ] by (simp add: RESET_REQ_def UNFREEZE_REQ_def del: dev_writel)
  with v s 1(1) 2(1,2) 3(1) show ?thesis
    by (simp add: fpga_pr_region_controller_freeze_enable_def freeze_bridge_read_version_def del: dev_writel)
qed

lemma reset_toggle_no_request: "s AND UNFREEZE_REQ = 0 \<Longrightarrow> (s XOR RESET_REQ) AND UNFREEZE_REQ = 0"
  by (simp add: RESET_REQ_def UNFREEZE_REQ_def bit.conj_xor_distrib2)

lemma unfreeze_live:
  assumes ctl: "freeze_controller b (ctl_status priv addr) (ctl_ctrl priv addr) (ctl_version priv addr) at"
    and "at (dev w) = Frozen"
  shows "\<exists>w'. fpga_pr_region_controller_freeze_disable b priv addr w = Some (0, w') \<and> at (dev w') = Unfrozen"
proof -
  obtain v w1 where v: "readl b (ctl_version priv addr) w = (v, w1)" by fastforce
  obtain s w2 where s: "readl b (ctl_status priv addr) w1 = (s, w2)" by fastforce
  obtain c w3 where c: "readl b (ctl_ctrl priv addr) w2 = (c, w3)" by fastforce
  have 1: "v = FREEZE_BRIDGE_SUPPORTED_VERSION" "at (dev w1) = Frozen"
    using read_version_live [OF ctl v] assms(2) by simp_all
  have 2: "s AND FREEZE_REQ_DONE \<noteq> 0" "s AND UNFREEZE_REQ_DONE = 0" "at (dev w2) = Frozen"
    using read_status_live [OF ctl s] 1(2) by simp_all
  have 3: "c AND UNFREEZE_REQ = 0" "at (dev w3) = Frozen" using read_ctrl_live [OF ctl c 2(3)] by simp_all
  let ?w = "writel b (c XOR RESET_REQ) (ctl_ctrl priv addr) w3"
  let ?w' = "writel b UNFREEZE_REQ (ctl_ctrl priv addr) ?w"
  have 4: "at (dev ?w) = Frozen"
    using write_frozen [OF ctl 3(2), of "c XOR RESET_REQ"] reset_toggle_no_request [OF 3(1)] by (simp del: dev_writel)
  have "at (dev ?w') \<in> range Unfreezing"
    using write_frozen [OF ctl 4, of UNFREEZE_REQ] by (simp add: UNFREEZE_REQ_def del: dev_writel)
  from req_ack_arrives [where pending = Unfreezing, OF ctl _ this] obtain w4 where
    5: "freeze_bridge_req_ack b priv addr UNFREEZE_REQ_DONE ?w' = Some (0, w4)" "at (dev w4) = Unfrozen" by auto
  have "at (dev (writel b 0 (ctl_ctrl priv addr) w4)) = Unfrozen"
    using write_unfrozen [OF ctl 5(2), of 0] by (simp del: dev_writel)
  with v s c 1(1) 2(1,2) 5(1) show ?thesis
    by (simp add: fpga_pr_region_controller_freeze_disable_def freeze_bridge_read_version_def del: dev_writel)
qed

section \<open>The program returns\<close>

context loading_core
begin

lemma load_live:
  assumes "file_has fp bs" and "length bs < 2 ^ 31"
    and "keeps b (core_regs priv) (\<lambda>h. at h = Frozen)" and "at (dev w) = Frozen"
  shows "\<exists>r st w'. fpga_config_buf_load ops priv tmo buf0 fp w = Some (r, priv\<lparr>config_state := st\<rparr>, w') \<and>
    at (dev w') = Frozen"
proof -
  obtain r priv' w' where load: "fpga_config_buf_load ops priv tmo buf0 fp w = Some (r, priv', w')"
  proof (cases "length bs < 1024")
    case True
    then show ?thesis using short_file [OF assms(1)] that by blast
  next
    case False
    then show ?thesis using load_file [OF assms(1) _ assms(2)] that by (meson not_less)
  qed
  moreover from load_touches [OF load] obtain st where "touches b (core_regs priv) w w'" "priv' = priv\<lparr>config_state := st\<rparr>"
    by blast
  ultimately show ?thesis using touches_keeps [OF _ assms(3,4)] by blast
qed

lemma reconfig_live:
  assumes ctl: "freeze_controller b (ctl_status priv addr) (ctl_ctrl priv addr) (ctl_version priv addr) at"
    and core: "keeps b (core_regs priv) (\<lambda>h. at h = Frozen)" and "at (dev w) = Unfrozen"
    and "length path < 1024" and "fs path = Some fp" and "file_has fp bs" and "length bs < 2 ^ 31"
  shows "\<exists>st w'. partial_reconfig (card_driver b ops fs buf0) path addr priv w =
    Some (0, priv\<lparr>config_state := st\<rparr>, w') \<and> at (dev w') = Unfrozen"
proof -
  obtain w1 where 1: "fpga_pr_region_controller_freeze_enable b priv addr w = Some (0, w1)" "at (dev w1) = Frozen"
    using freeze_live [OF ctl assms(3)] by blast
  obtain r st w2 where 2: "fpga_config_buf_load ops priv 10 buf0 fp w1 = Some (r, priv\<lparr>config_state := st\<rparr>, w2)"
    "at (dev w2) = Frozen" using load_live [OF assms(6,7) core 1(2)] by blast
  let ?priv = "priv\<lparr>config_state := st\<rparr>"
  have "freeze_controller b (ctl_status ?priv addr) (ctl_ctrl ?priv addr) (ctl_version ?priv addr) at" using ctl by simp
  from unfreeze_live [OF this 2(2)] obtain w3 where
    3: "fpga_pr_region_controller_freeze_disable b ?priv addr w2 = Some (0, w3)" "at (dev w3) = Unfrozen" by blast
  show ?thesis using 1 2 3 assms(4,5)
    by (intro exI [of _ st] exI [of _ w3]) (simp add: partial_reconfig_def ioctl_def my_ioctl_def syscall_result_def)
qed

end

section \<open>A slow controller\<close>

text \<open>The device state is where the bridges are; a freeze takes up to three reads of the status, an unfreeze two.\<close>

fun slow_status :: "bridges \<Rightarrow> u32 \<times> bridges" where
  "slow_status Unfrozen = (UNFREEZE_REQ_DONE, Unfrozen)"
| "slow_status Frozen = (FREEZE_REQ_DONE, Frozen)"
| "slow_status (Freezing 0) = (FREEZE_REQ_DONE, Frozen)"
| "slow_status (Freezing (Suc n)) = (0, Freezing n)"
| "slow_status (Unfreezing 0) = (UNFREEZE_REQ_DONE, Unfrozen)"
| "slow_status (Unfreezing (Suc n)) = (0, Unfreezing n)"

definition slow_write :: "u32 \<Rightarrow> bridges \<Rightarrow> bridges" where
  "slow_write v h =
     (if h = Unfrozen \<and> v AND FREEZE_REQ \<noteq> 0 then Freezing 2
      else if h = Frozen \<and> v AND UNFREEZE_REQ \<noteq> 0 then Unfreezing 1 else h)"

definition slow_region :: "bridges pci_bus" where
  "slow_region = bus.extend
     \<lparr>bus_read = (\<lambda>a h. if a = 0x50800 then slow_status h
        else (if a = 0x5080c then FREEZE_BRIDGE_SUPPORTED_VERSION else 0, h)),
      bus_write = (\<lambda>a v h. if a = 0x50804 then slow_write v h else h), bus_wait = (\<lambda>n h. h)\<rparr>
     \<lparr>hw_find_capability = (\<lambda>d c h. 0), hw_find_ext_capability = (\<lambda>d c h. 0),
      hw_cfg_read32 = (\<lambda>d p h. (0, h)), hw_cfg_write32 = (\<lambda>d p v h. h),
      hw_cfg_read16 = (\<lambda>d p h. (0, h)), hw_cfg_write16 = (\<lambda>d p v h. h),
      hw_save_state = (\<lambda>d h. h), hw_restore_state = (\<lambda>d h. h)\<rparr>"

lemma slow_status_shows: "status_shows h (fst (slow_status h)) (snd (slow_status h))"
  by (induction h rule: slow_status.induct) (simp_all add: const_defs)

lemma slow_region_controller: "freeze_controller slow_region 0x50800 0x50804 0x5080c (\<lambda>h. h)"
  by (simp add: freeze_controller_def slow_region_def bus.defs slow_write_def slow_status_shows)

lemma slow_region_core: "keeps slow_region (core_regs demo_priv) (\<lambda>h. h = Frozen)"
  by (simp add: keeps_def core_regs_def slow_region_def bus.defs demo_priv_def const_defs)

section \<open>Properties\<close>

text \<open>
  C4. A reconfiguration terminates and opens the region again, where these conditions hold. The freeze controller
  follows its protocol: it acknowledges a request after some number of reads of its status, of which nothing else is
  known. Accesses to the registers of the PR IP core do not move the bridges of a frozen region. The device file can
  be opened, and so can the image, which is shorter than 2 GiB and has a path that fits; the region is not frozen. Then
  \<open>fpga-configure -p\<close> ends, on either core: every loop of the driver and of the program has ended, and the region is
  unfrozen, also when the core refuses the image or the image is too short to be sent. An image of at least 1024
  bytes that the driver reports as OPERATING makes the program return 0. Of an image that is refused the return value
  is left open here: the comment at the program asks for -1, and the code does not give it.
\<close>

theorem reconfiguration_reopens:
  fixes b :: "('h, 'z) pci_bus_scheme"
  assumes "ops = a10_ops b buf1 \<or> ops = s10_ops vb wt b buf1"
    and "freeze_controller b (pr_bar priv (addr + FREEZE_STATUS_OFFSET)) (pr_bar priv (addr + FREEZE_CTRL_OFFSET))
      (pr_bar priv (addr + FREEZE_VERSION_OFFSET)) at"
    and "keeps b (core_regs priv) (\<lambda>h. at h = Frozen)" and "at (dev w) = Unfrozen"
    and "length path < 1024" and "fs path = Some fp" and "file_has fp bs" and "length bs < 2 ^ 31"
    and "addr = ucast (strtoul16 ctlr)"
  shows "\<exists>c st w'. configure_main (\<lambda>cmd priv w. my_ioctl b ops fs buf0 priv cmd w) True [prog, ''-p'', path, ctlr] priv w =
    Some (c, priv\<lparr>config_state := st\<rparr>, w') \<and> at (dev w') = Unfrozen \<and>
    (length bs < 1024 \<or> st \<noteq> FPGA_CONFIG_STATE_OPERATING \<or> c = 0)"
proof -
  have "\<exists>oper protocol. loading_core b ops oper protocol"
    using assms(1) a10_load.loading_core_axioms s10_load.loading_core_axioms by blast
  then obtain st w' where "partial_reconfig (card_driver b ops fs buf0) path addr priv w =
    Some (0, priv\<lparr>config_state := st\<rparr>, w')" "at (dev w') = Unfrozen"
    using loading_core.reconfig_live [where at = at and fs = fs and path = path, OF _ assms(2-8)] by blast
  then show ?thesis
    by (intro exI [of _ 0] exI [of _ st] exI [of _ w']) (simp add: configure_main_def configure_arguments_def assms(9))
qed

theorem reconfiguration_reopens_witness:
  "\<exists>c st w. configure_main (\<lambda>cmd priv w. my_ioctl slow_region (s10_ops True 5 slow_region (\<lambda>_. 0)) demo_image (\<lambda>_. 0) priv cmd w)
     True [''fpga-configure'', ''-p'', ''persona.rbf'', ''0x800''] demo_priv \<lparr>dev = Unfrozen, trace = []\<rparr> =
   Some (c, demo_priv\<lparr>config_state := st\<rparr>, w) \<and> dev w = Unfrozen"
proof -
  have addr: "0x800 = (ucast (strtoul16 ''0x800'') :: u32)" by code_simp
  have at: "pr_bar demo_priv (0x800 + FREEZE_STATUS_OFFSET) = 0x50800" "pr_bar demo_priv (0x800 + FREEZE_CTRL_OFFSET) = 0x50804"
    "pr_bar demo_priv (0x800 + FREEZE_VERSION_OFFSET) = 0x5080c" by (simp_all add: demo_priv_def const_defs)
  have img: "demo_image ''persona.rbf'' = Some (file_of (replicate 1024 0))" by (simp add: demo_image_def)
  have "freeze_controller slow_region (pr_bar demo_priv (0x800 + FREEZE_STATUS_OFFSET))
      (pr_bar demo_priv (0x800 + FREEZE_CTRL_OFFSET)) (pr_bar demo_priv (0x800 + FREEZE_VERSION_OFFSET)) (\<lambda>h. h)"
    unfolding at by (rule slow_region_controller)
  from reconfiguration_reopens [where at = "\<lambda>h. h" and fs = demo_image and path = "''persona.rbf''" and vb = True and wt = 5
      and w = "\<lparr>dev = Unfrozen, trace = []\<rparr>" and prog = "''fpga-configure''" and ?buf0.0 = "\<lambda>_. 0" and ?buf1.0 = "\<lambda>_. 0",
      OF disjI2 [OF refl] this slow_region_core _ _ img file_has_file_of _ addr]
  show ?thesis by (simp only: world.simps) (simp, blast)
qed

end
