(* ===== verification/Uio.thy ===== *)
theory Uio
  imports Region_Controller Libc
begin

text \<open>
  The rest of the user space program \<open>fpga_region_controller.c\<close>: how it finds the UIO device of a
  card, maps its registers, and runs the freeze protocol from the command line. The host program of
  the hierarchical Arria 10 design has the same functions.

  The operating system is a parameter. The names of the UIO devices are read from files in sysfs: of
  the file of device \<open>i\<close>, \<open>None\<close> is one that cannot be opened, \<open>Some None\<close> one that cannot be read. The
  tests on the length of the names of these files are left out: a C \<open>int\<close> has at most eleven
  characters, so that they fit. Heap blocks, file descriptors and mappings are logged when they are
  taken and given back.
\<close>

section \<open>Finding the device\<close>

definition ENOENT :: int where [const_defs]: "ENOENT = 2"

text \<open>The loop over the devices; \<open>fgets\<close> fills the array of 80 characters with at most 79.\<close>

partial_function (option) find_dev_loop :: "(nat \<Rightarrow> string option option) \<Rightarrow> string \<Rightarrow> nat \<Rightarrow> int option" where
  [code]: "find_dev_loop names uio_name i =
    (case names i of
       None \<Rightarrow> Some (- ENOENT)
     | Some None \<Rightarrow> Some (- ENOENT)
     | Some (Some line) \<Rightarrow>
         if strncmp_eq (take 79 line) uio_name (length uio_name) then Some (int i)
         else find_dev_loop names uio_name (Suc i))"

definition uio_find_dev_num :: "(nat \<Rightarrow> string option option) \<Rightarrow> string option \<Rightarrow> int option" where
  "uio_find_dev_num names uio_name =
     (case uio_name of
        None \<Rightarrow> Some (- EINVAL)
      | Some name \<Rightarrow> if length name \<ge> 80 then Some (- EINVAL) else find_dev_loop names name 0)"

section \<open>Opening and closing\<close>

datatype user_resource = Heap | Descriptor int | Region u64

datatype user_event = Take user_resource | Release user_resource

text \<open>
  What the system calls give for a device: whether there is memory; the result of \<open>fscanf\<close> on the
  file with the size, unless it cannot be opened, with the value it converts; the descriptor; and the
  address of the mapping, \<open>None\<close> when it fails. When \<open>fscanf\<close> finds no number it stores nothing, and
  the size is what the heap block held before.
\<close>

record uio_system =
  sys_malloc :: bool
  sys_junk :: int
  sys_size :: "int \<Rightarrow> (int \<times> int) option"
  sys_open :: "int \<Rightarrow> int"
  sys_mmap :: "int \<Rightarrow> int \<Rightarrow> u64 option"

definition uio_open :: "uio_system \<Rightarrow> int \<Rightarrow> user_event list \<Rightarrow> uio_handle option \<times> user_event list" where
  "uio_open sys uio_num log =
     (if \<not> sys_malloc sys then (None, log)
      else let log = log @ [Take Heap] in
        case sys_size sys uio_num of
          None \<Rightarrow> (None, log @ [Release Heap])
        | Some (ret, v) \<Rightarrow>
            let size = (if ret \<ge> 1 then v else sys_junk sys) in
            if ret < 0 then (None, log @ [Release Heap])
            else if size \<le> 0 then (None, log @ [Release Heap])
            else let fd = sys_open sys uio_num in
              if fd < 0 then (None, log @ [Release Heap])
              else let log = log @ [Take (Descriptor fd)] in
                case sys_mmap sys fd size of
                  None \<Rightarrow> (None, log @ [Release (Descriptor fd), Release Heap])
                | Some p \<Rightarrow> (Some \<lparr>uio_fd = fd, uio_size = size, uio_iomem = p\<rparr>, log @ [Take (Region p)]))"

definition uio_close :: "uio_handle \<Rightarrow> user_event list \<Rightarrow> user_event list" where
  "uio_close uioh log = log @ [Release (Region (uio_iomem uioh)), Release (Descriptor (uio_fd uioh)), Release Heap]"

section \<open>The program\<close>

text \<open>
  The command line is \<open>program card mode offset\<close>; the program leaves with 0 after its usage message. An
  argument that is missing is a NULL pointer, and \<open>strtoul\<close> of it is undefined: \<open>None\<close>, as is a freeze
  that is never acknowledged. The test for a negative offset cannot succeed, since the offset is
  unsigned.
\<close>

definition region_controller_main ::
  "('h, 'z) bus_scheme \<Rightarrow> (nat \<Rightarrow> string option option) \<Rightarrow> uio_system \<Rightarrow> string list \<Rightarrow> 'h world \<Rightarrow>
   (int \<times> 'h world \<times> user_event list) option" where
  "region_controller_main b names sys argv w =
     (if length argv < 3 \<or> argv ! 1 = ''-h'' \<or> argv ! 1 = ''--help'' then Some (0, w, [])
      else do {
        uio_num \<leftarrow> uio_find_dev_num names (Some (argv ! 1));
        let mode = argv ! 2;
        offset \<leftarrow> (if length argv < 4 then None else Some (strtoul16 (argv ! 3)));
        if uio_num < 0 then Some (2, w, [])
        else
          let (uioh, log) = uio_open sys uio_num [] in
          case uioh of
            None \<Rightarrow> Some (1, w, log)
          | Some h \<Rightarrow> do {
              (ret, w) \<leftarrow>
                (if mode = ''enable'' then freeze_bridge_enable (uio_device_handle b uioh) (ucast offset) w
                 else if mode = ''disable'' then freeze_bridge_disable (uio_device_handle b uioh) (ucast offset) w
                 else Some (- EINVAL, w));
              Some (ret, w, uio_close h log)
            }
      })"

section \<open>What is found and what is held\<close>

text \<open>
  The device that is found is the first one whose name starts with the given name, unless a file
  cannot be read before.
\<close>

lemma find_dev_loop_least:
  assumes "\<And>j. i \<le> j \<Longrightarrow> j < n \<Longrightarrow> \<exists>line. names j = Some (Some line) \<and> \<not> strncmp_eq (take 79 line) name (length name)"
    and "i \<le> n"
  shows "find_dev_loop names name i = find_dev_loop names name n"
  using assms(2,1)
proof (induction rule: inc_induct)
  case (step j)
  then obtain line where "names j = Some (Some line)" "\<not> strncmp_eq (take 79 line) name (length name)" by auto
  with step show ?case by (subst find_dev_loop.simps) simp
qed simp

lemma uio_find_dev_num_least:
  assumes "length name < 80"
    and "\<And>j. j < n \<Longrightarrow> \<exists>line. names j = Some (Some line) \<and> \<not> strncmp_eq (take 79 line) name (length name)"
  shows "names n = Some (Some line) \<Longrightarrow> strncmp_eq (take 79 line) name (length name) \<Longrightarrow>
      uio_find_dev_num names (Some name) = Some (int n)"
    and "names n = None \<or> names n = Some None \<Longrightarrow> uio_find_dev_num names (Some name) = Some (- ENOENT)"
  using find_dev_loop_least [of 0 n names name] assms
  by (auto simp: uio_find_dev_num_def find_dev_loop.simps [of names name n])

text \<open>What a log leaves in the hands of the program, in order; it is built like a stack.\<close>

fun in_hand :: "user_resource list \<Rightarrow> user_event list \<Rightarrow> user_resource list option" where
  "in_hand rs [] = Some rs"
| "in_hand rs (Take r # es) = in_hand (r # rs) es"
| "in_hand [] (Release r # es) = None"
| "in_hand (q # rs) (Release r # es) = (if q = r then in_hand rs es else None)"

lemma in_hand_append: "in_hand rs (es @ fs) = Option.bind (in_hand rs es) (\<lambda>qs. in_hand qs fs)"
  by (induction rs es rule: in_hand.induct) auto

lemma uio_open_holds:
  assumes "uio_open sys n log = (h, log')" "in_hand rs log = Some qs"
  shows "in_hand rs log' =
    Some (case h of None \<Rightarrow> qs | Some u \<Rightarrow> [Region (uio_iomem u), Descriptor (uio_fd u), Heap] @ qs)"
  using assms
  by (auto simp: uio_open_def in_hand_append Let_def split: if_splits option.splits prod.splits)

lemma uio_open_size: "uio_open sys n log = (Some h, log') \<Longrightarrow> 0 < uio_size h"
  by (auto simp: uio_open_def Let_def split: if_splits option.splits prod.splits)

text \<open>
  C40. The program gives back everything it takes: however its run ends, by a wrong argument, a device that
  is not there, a failed system call or the end of the protocol, no heap block, descriptor or mapping
  is left, and nothing is given back that was not held.
\<close>

theorem region_controller_balanced:
  assumes "region_controller_main b names sys argv w = Some (r, w', log)"
  shows "in_hand [] log = Some []"
proof -
  have "in_hand [] (snd (uio_open sys n [])) =
      Some (case fst (uio_open sys n []) of None \<Rightarrow> []
        | Some u \<Rightarrow> [Region (uio_iomem u), Descriptor (uio_fd u), Heap])" for n
    using uio_open_holds [of sys n "[]" "fst (uio_open sys n [])" "snd (uio_open sys n [])" "[]" "[]"]
    by (simp split: option.splits)
  then show ?thesis using assms
    by (auto simp: region_controller_main_def bind_eq_Some_conv uio_close_def in_hand_append case_prod_beta Let_def
        split: if_splits option.splits)
qed

definition demo_system :: uio_system where
  "demo_system = \<lparr>sys_malloc = True, sys_junk = 0, sys_size = (\<lambda>n. if n = 1 then Some (1, 0x10000) else None),
     sys_open = (\<lambda>_. 3), sys_mmap = (\<lambda>_ _. Some 0x50000)\<rparr>"

definition demo_uio_names :: "nat \<Rightarrow> string option option" where
  "demo_uio_names i = (if i = 0 then Some (Some ''0000:01:00.0'') else if i = 1 then Some (Some ''0000:03:00.0'') else None)"

theorem region_controller_balanced_witness:
  "\<exists>w log. region_controller_main (demo_ctlr 0x50800) demo_uio_names demo_system
     [''region'', ''0000:03:00.0'', ''enable'', ''800''] \<lparr>dev = (2, 0), trace = []\<rparr> = Some (0, w, log) \<and>
     trace w = [Read 0x5080c FREEZE_BRIDGE_SUPPORTED_VERSION, Read 0x50800 2, Write 0x50804 FREEZE_REQ,
        Read 0x50800 1, Write 0x50804 RESET_REQ] \<and> in_hand [] log = Some []"
proof -
  have "strtoul16 ''800'' = 0x800" by code_simp
  moreover have "uio_find_dev_num demo_uio_names (Some ''0000:03:00.0'') = Some 1" by code_simp
  ultimately obtain w log where 1: "region_controller_main (demo_ctlr 0x50800) demo_uio_names demo_system
     [''region'', ''0000:03:00.0'', ''enable'', ''800''] \<lparr>dev = (2, 0), trace = []\<rparr> = Some (0, w, log)"
     "trace w = [Read 0x5080c FREEZE_BRIDGE_SUPPORTED_VERSION, Read 0x50800 2, Write 0x50804 FREEZE_REQ,
        Read 0x50800 1, Write 0x50804 RESET_REQ]"
    by (simp add: region_controller_main_def uio_open_def demo_system_def uio_device_handle_def uio_read_u32_def
        uio_write_u32_def freeze_bridge_enable_def uio_freeze_bridge_read_version_def uio_freeze_bridge_req_ack_def
        do_while_unfold demo_ctlr_def readl_def writel_def const_defs)
  with region_controller_balanced [OF 1(1)] show ?thesis by blast
qed

end
