(* ===== verification/Gol.thy ===== *)
theory Gol
  imports Prelude "HOL-Library.Signed_Division" "HOL-Library.Multiset"
begin

text \<open>
  The Game of Life that the host programs of the reference designs compute to check the accelerator
  (\<open>ref_designs/*/software/util/example_host_uio.c\<close>). A board of 8 by 8 cells is a 64 bit integer, and
  the numbers of live neighbours are an array of 64 counters. The programs for the designs with
  hierarchical reconfiguration take the places of the cells from \<open>calculate_coord\<close>; the one for the
  Arria 10 design without it writes them out, with rows and columns exchanged.

  The reference is the Game of Life on sets of cells of a torus.
\<close>

section \<open>The host programs\<close>

definition GOL_ROWS :: int where [const_defs]: "GOL_ROWS = 8"
definition GOL_COLS :: int where [const_defs]: "GOL_COLS = 8"

definition getbit :: "u64 \<Rightarrow> u32 \<Rightarrow> u32" where
  "getbit value position = ucast (drop_bit (unat position) value AND 1)"

definition calculate_coord :: "int \<Rightarrow> int \<Rightarrow> u32" where
  "calculate_coord x y =
     word_of_int ((x + GOL_ROWS) smod GOL_ROWS + ((y + GOL_COLS) smod GOL_COLS) * GOL_ROWS)"

text \<open>One counter is set to 0 and then raised by the bits at eight places.\<close>

definition count_into :: "u64 \<Rightarrow> u32 \<Rightarrow> u32 list \<Rightarrow> u32 list \<Rightarrow> u32 list" where
  "count_into board c ps neighbors =
     fold (\<lambda>p ns. ns[unat c := ns ! unat c + getbit board p]) ps (neighbors[unat c := 0])"

definition calculate_neighbors :: "u64 \<Rightarrow> u32 list \<Rightarrow> u32 list" where
  "calculate_neighbors current_board neighbors =
     fold (\<lambda>i. fold (\<lambda>j. count_into current_board (calculate_coord i j)
         [calculate_coord (i + 1) (j + 1), calculate_coord (i + 1) j, calculate_coord (i + 1) (j - 1),
          calculate_coord i (j - 1), calculate_coord i (j + 1),
          calculate_coord (i - 1) (j + 1), calculate_coord (i - 1) j, calculate_coord (i - 1) (j - 1)])
       [0..GOL_COLS - 1]) [0..GOL_ROWS - 1] neighbors"

definition cvp_coord :: "int \<Rightarrow> int \<Rightarrow> u32" where
  "cvp_coord j i =
     word_of_int ((j + GOL_ROWS) smod GOL_ROWS + ((i + GOL_COLS) smod GOL_COLS) * GOL_COLS)"

definition cvp_calculate_neighbors :: "u64 \<Rightarrow> u32 list \<Rightarrow> u32 list" where
  "cvp_calculate_neighbors current_board neighbors =
     fold (\<lambda>i. fold (\<lambda>j. count_into current_board
         (word_of_int ((j + GOL_COLS) smod GOL_COLS + ((i + GOL_ROWS) smod GOL_ROWS) * GOL_COLS))
         [cvp_coord (j + 1) (i - 1), cvp_coord j (i - 1), cvp_coord (j - 1) (i - 1),
          cvp_coord (j + 1) i, cvp_coord (j - 1) i,
          cvp_coord (j + 1) (i + 1), cvp_coord j (i + 1), cvp_coord (j - 1) (i + 1)])
       [0..GOL_COLS - 1]) [0..GOL_ROWS - 1] neighbors"

text \<open>The new board, and the counters, which are set back to 0.\<close>

definition rule_step :: "u64 \<Rightarrow> nat \<Rightarrow> u64 \<times> u32 list \<Rightarrow> u64 \<times> u32 list" where
  "rule_step current_board i s =
     (let (return_board, neighbors) = s;
          return_board =
            (if getbit current_board (of_nat i) = 1
             then (if neighbors ! i = 2 \<or> neighbors ! i = 3 then return_board OR push_bit i 1 else return_board)
             else (if neighbors ! i = 3 then return_board OR push_bit i 1 else return_board))
      in (return_board, neighbors[i := 0]))"

definition apply_gol_rules :: "u64 \<Rightarrow> u32 list \<Rightarrow> u64 \<times> u32 list" where
  "apply_gol_rules current_board neighbors =
     fold (rule_step current_board) [0..<nat (GOL_ROWS * GOL_COLS)] (0, neighbors)"

text \<open>
  The rounds of \<open>run_gol_verify\<close>; \<open>None\<close> is the exit of the program when a counter is not 0. The
  allocation of the counters is taken to succeed; the source does not check it.
\<close>

fun gol_rounds :: "(u64 \<Rightarrow> u32 list \<Rightarrow> u32 list) \<Rightarrow> nat \<Rightarrow> u64 \<Rightarrow> u32 list \<Rightarrow> u64 option" where
  "gol_rounds count_all 0 current_board neighbors = Some current_board"
| "gol_rounds count_all (Suc n) current_board neighbors =
     (if list_ex (\<lambda>j. neighbors ! j \<noteq> 0) [0..<64] then None
      else let neighbors = count_all current_board neighbors;
               (next_board, neighbors) = apply_gol_rules current_board neighbors
           in gol_rounds count_all n next_board neighbors)"

definition run_gol_verify :: "u64 \<Rightarrow> u32 \<Rightarrow> u64 option" where
  "run_gol_verify board number_of_runs =
     gol_rounds calculate_neighbors (unat number_of_runs) board (replicate (nat (GOL_ROWS * GOL_COLS)) 0)"

definition cvp_run_gol_verify :: "u64 \<Rightarrow> u32 \<Rightarrow> u64 option" where
  "cvp_run_gol_verify board number_of_runs =
     gol_rounds cvp_calculate_neighbors (unat number_of_runs) board (replicate (nat (GOL_ROWS * GOL_COLS)) 0)"

section \<open>The Game of Life on a torus\<close>

type_synonym cell = "int \<times> int"

definition torus :: "cell set" where
  "torus = {0..7} \<times> {0..7}"

definition around :: "cell \<Rightarrow> cell set" where
  "around c = {((fst c + dx) mod 8, (snd c + dy) mod 8) | dx dy.
     (dx, dy) \<in> {-1, 0, 1} \<times> {-1, 0, 1} - {(0, 0)}}"

definition life :: "cell set \<Rightarrow> cell set" where
  "life S = {c \<in> torus. card (around c \<inter> S) = 3 \<or> c \<in> S \<and> card (around c \<inter> S) = 2}"

definition cells :: "u64 \<Rightarrow> cell set" where
  "cells board = {c \<in> torus. bit board (nat (fst c + 8 * snd c))}"

section \<open>Counting neighbours\<close>

lemma getbit_of_bool: "getbit board p = of_bool (bit board (unat p))"
proof -
  have "drop_bit n board AND 1 = of_bool (bit board n)" for n
    by (simp add: and_one_eq bit_iff_odd_drop_bit mod_2_eq_odd)
  then show ?thesis by (simp add: getbit_def)
qed

lemma count_into_nth:
  "length ns = 64 \<Longrightarrow> unat c < 64 \<Longrightarrow>
   count_into board c ps ns = ns[unat c := (\<Sum>p\<leftarrow>ps. getbit board p)]"
proof -
  have "fold (\<lambda>p ns. ns[unat c := ns ! unat c + getbit board p]) ps (ns[unat c := v]) =
      ns[unat c := v + (\<Sum>p\<leftarrow>ps. getbit board p)]" if "unat c < length ns" for v ns
    using that by (induction ps arbitrary: v) (simp_all add: add.assoc)
  then show "length ns = 64 \<Longrightarrow> unat c < 64 \<Longrightarrow> ?thesis" by (simp add: count_into_def)
qed

text \<open>The eight neighbours of a cell, in any order.\<close>

abbreviation ring :: "cell list" where
  "ring \<equiv> [(-1, -1), (-1, 0), (-1, 1), (0, -1), (0, 1), (1, -1), (1, 0), (1, 1)]"

definition shift :: "cell \<Rightarrow> cell \<Rightarrow> cell" where
  "shift c d = ((fst c + fst d) mod 8, (snd c + snd d) mod 8)"

lemma around_ring: "around c = set (map (shift c) ring)"
proof -
  have "{((fst c + dx) mod 8, (snd c + dy) mod 8) | dx dy. (dx, dy) \<in> X} = shift c ` X" for X
    by (force simp: shift_def)
  then have "around c = shift c ` ({-1, 0, 1} \<times> {-1, 0, 1} - {(0, 0)})" by (simp only: around_def)
  also have "{-1, 0, 1} \<times> {-1, 0, 1} - {(0, 0)} = set ring" by auto
  finally show ?thesis by simp
qed

lemma shift_inj: "inj_on (shift c) (set ring)"
proof (rule inj_onI)
  fix d e :: cell
  assume in_ring: "d \<in> set ring" "e \<in> set ring" and "shift c d = shift c e"
  then have "8 dvd (fst c + fst d) - (fst c + fst e)" "8 dvd (snd c + snd d) - (snd c + snd e)"
    by (auto simp: shift_def mod_eq_dvd_iff)
  then have "8 dvd fst d - fst e" "8 dvd snd d - snd e" by simp_all
  moreover have "\<bar>fst d - fst e\<bar> < 8" "\<bar>snd d - snd e\<bar> < 8" using in_ring by auto
  ultimately have "fst d - fst e = 0" "snd d - snd e = 0" by (metis dvd_imp_le_int abs_numeral leD)+
  then show "d = e" by (simp add: prod_eq_iff)
qed

lemma ring_distinct: "distinct (map (shift c) ring)"
  using shift_inj [of c] by (simp only: distinct_map) simp

lemma shift_torus: "shift c d \<in> torus"
  by (auto simp: shift_def torus_def)

definition place :: "cell \<Rightarrow> u32" where
  "place c = word_of_int (fst c + 8 * snd c)"

lemma unat_place: "c \<in> torus \<Longrightarrow> unat (place c) = nat (fst c + 8 * snd c)"
  by (auto simp: place_def torus_def unat_word_of_int_u32 simp del: of_int_add of_int_mult)

lemma place_less: "c \<in> torus \<Longrightarrow> unat (place c) < 64"
  by (auto simp: unat_place torus_def)

lemma getbit_place: "c \<in> torus \<Longrightarrow> getbit board (place c) = of_bool (c \<in> cells board)"
  by (simp add: getbit_of_bool unat_place cells_def)

lemma count_list:
  "(\<Sum>c\<leftarrow>cs. of_bool (c \<in> S)) = (of_nat (length (filter (\<lambda>c. c \<in> S) cs)) :: u32)"
  by (induction cs) auto

lemma count_card:
  assumes "mset ds = mset ring" "c \<in> torus"
  shows "(\<Sum>p\<leftarrow>map (place \<circ> shift c) ds. getbit board p) = of_nat (card (around c \<inter> cells board))"
proof -
  have "(\<Sum>p\<leftarrow>map (place \<circ> shift c) ds. getbit board p) =
      (\<Sum>x\<leftarrow>map (shift c) ds. of_bool (x \<in> cells board))"
    by (simp add: o_def getbit_place shift_torus)
  also have "\<dots> = of_nat (length (filter (\<lambda>x. x \<in> cells board) (map (shift c) ds)))" by (rule count_list)
  also have "length (filter (\<lambda>x. x \<in> cells board) (map (shift c) ds)) = card (around c \<inter> cells board)"
  proof -
    have m: "mset (map (shift c) ds) = mset (map (shift c) ring)" using assms(1) by (simp only: mset_map)
    then have "distinct (map (shift c) ds)" using ring_distinct [of c] mset_eq_imp_distinct_iff by blast
    moreover have "set (map (shift c) ds) = around c" using m by (metis around_ring set_mset_mset)
    ultimately show ?thesis by (metis distinct_card distinct_filter set_filter Collect_mem_eq Int_def)
  qed
  finally show ?thesis .
qed

lemma smod_place: "-1 \<le> k \<Longrightarrow> (k + 8) smod 8 = k mod (8 :: int)"
  by (simp add: smod_int_alt_def abs_if)

lemma coord_place:
  "-1 \<le> fst c + fst d \<Longrightarrow> -1 \<le> snd c + snd d \<Longrightarrow>
    calculate_coord (fst c + fst d) (snd c + snd d) = place (shift c d)"
  by (simp add: calculate_coord_def const_defs smod_place place_def shift_def mult.commute)

lemma coord_torus:
  "c \<in> torus \<Longrightarrow> -1 \<le> dx \<Longrightarrow> -1 \<le> dy \<Longrightarrow>
    calculate_coord (fst c + dx) (snd c + dy) = place (shift c (dx, dy))"
  using coord_place [of c "(dx, dy)"] by (auto simp: torus_def)

lemma coord_self: "c \<in> torus \<Longrightarrow> calculate_coord (fst c) (snd c) = place c"
  using coord_torus [of c 0 0] by (auto simp: torus_def shift_def)

lemma cvp_coord_eq: "cvp_coord = calculate_coord"
  by (simp add: cvp_coord_def calculate_coord_def const_defs fun_eq_iff)

lemma fold_nested: "fold (\<lambda>i. fold (f i) js) is s = fold (\<lambda>(i, j). f i j) (List.product is js) s"
  by (induction "is" arbitrary: s) (auto simp: fold_map o_def)

lemma fold_update:
  assumes "inj_on g (set cs)" "distinct cs" "c \<in> set cs" "\<And>c. c \<in> set cs \<Longrightarrow> g c < length ns"
  shows "fold (\<lambda>c ns. ns[g c := v c]) cs ns ! g c = v c"
  using assms
proof (induction cs arbitrary: ns)
  case (Cons x cs)
  have other: "fold (\<lambda>c ns. ns[g c := v c]) cs ns ! n = ns ! n" if "n \<notin> g ` set cs" for ns n
    using that by (induction cs arbitrary: ns) auto
  show ?case
  proof (cases "c = x")
    case True
    then have "g c \<notin> g ` set cs" using Cons.prems(1,2) by (auto simp: inj_on_def)
    then show ?thesis using True Cons.prems(4) [of x] other by simp
  next
    case False
    then show ?thesis using Cons by (auto simp: inj_on_def)
  qed
qed simp

lemma fold_update_length [simp]: "length (fold (\<lambda>c ns. ns[g c := v c]) cs ns) = length ns"
  by (induction cs arbitrary: ns) auto

text \<open>The cell of a counter, and what the counters should hold.\<close>

definition cell_at :: "nat \<Rightarrow> cell" where
  "cell_at k = (int k mod 8, int k div 8)"

abbreviation living :: "u64 \<Rightarrow> cell \<Rightarrow> nat" where
  "living board c \<equiv> card (around c \<inter> cells board)"

lemma cell_at_torus: "k < 64 \<Longrightarrow> cell_at k \<in> torus"
  by (auto simp: cell_at_def torus_def)

lemma place_cell_at: "k < 64 \<Longrightarrow> unat (place (cell_at k)) = k"
  by (simp add: unat_place cell_at_torus) (simp add: cell_at_def nat_eq_iff2)

lemma place_inj: "inj_on (\<lambda>c. unat (place c)) torus"
proof (rule inj_onI)
  fix c d
  assume "c \<in> torus" "d \<in> torus" "unat (place c) = unat (place d)"
  then have "fst c + 8 * snd c = fst d + 8 * snd d" "fst c \<in> {0..7}" "fst d \<in> {0..7}"
    by (auto simp: unat_place torus_def)
  then have "fst c = fst d \<and> snd c = snd d" by (simp only: atLeastAtMost_iff) presburger
  then show "c = d" by (simp add: prod_eq_iff)
qed

lemma fold_counters:
  assumes "length ns = 64" "set cs = torus" "distinct cs"
    and "\<And>c. c \<in> torus \<Longrightarrow> mset (ds c) = mset ring"
  shows "fold (\<lambda>c. count_into board (place c) (map (place \<circ> shift c) (ds c))) cs ns =
    map (\<lambda>k. of_nat (living board (cell_at k))) [0..<64]"
proof -
  let ?v = "\<lambda>c. of_nat (living board c) :: u32"
  let ?f = "fold (\<lambda>c ns. ns[unat (place c) := ?v c]) cs ns"
  have "fold (\<lambda>c. count_into board (place c) (map (place \<circ> shift c) (ds c))) ds' ns = fold (\<lambda>c ns. ns[unat (place c) := ?v c]) ds' ns"
    if "set ds' \<subseteq> torus" "length ns = 64" for ds' ns
    using that
    by (induction ds' arbitrary: ns) (simp_all add: count_into_nth place_less count_card assms(4) del: map_map)
  then have eq: "fold (\<lambda>c. count_into board (place c) (map (place \<circ> shift c) (ds c))) cs ns = ?f"
    using assms(1,2) by blast
  have "?f ! k = ?v (cell_at k)" if "k < 64" for k
    using fold_update [of "\<lambda>c. unat (place c)" cs "cell_at k" ns ?v] that assms place_inj
    by (simp add: place_cell_at cell_at_torus place_less)
  then show ?thesis using assms(1) by (intro nth_equalityI) (auto simp: eq)
qed

lemma torus_product: "set (List.product [0..7] [0..7]) = torus" "distinct (List.product [0..7] [0..7 :: int])"
  by (simp_all add: torus_def distinct_product)

text \<open>What \<open>run_gol_verify\<close> relies on: a way to fill the counters, whatever they hold.\<close>

locale neighbour_counter =
  fixes count_all :: "u64 \<Rightarrow> u32 list \<Rightarrow> u32 list"
  assumes counts: "length ns = 64 \<Longrightarrow> count_all board ns = map (\<lambda>k. of_nat (living board (cell_at k))) [0..<64]"

lemma calculate_neighbors_counts:
  assumes "length ns = 64"
  shows "calculate_neighbors board ns = map (\<lambda>k. of_nat (living board (cell_at k))) [0..<64]"
proof -
  let ?ds = "[(1, 1), (1, 0), (1, -1), (0, -1), (0, 1), (-1, 1), (-1, 0), (-1, -1)] :: cell list"
  have "calculate_neighbors board ns =
    fold (\<lambda>c. count_into board (place c) (map (place \<circ> shift c) ?ds)) (List.product [0..7] [0..7]) ns"
    unfolding calculate_neighbors_def fold_nested const_defs
  proof (rule fold_cong [OF refl])
    fix c assume "c \<in> set (List.product [0..8 - 1] [0..8 - 1 :: int])"
    then have c: "c \<in> torus" by (auto simp: torus_def)
    note places = coord_torus [OF c, of 1 1] coord_torus [OF c, of 1 0] coord_torus [OF c, of 1 "-1"]
      coord_torus [OF c, of 0 "-1"] coord_torus [OF c, of 0 1] coord_torus [OF c, of "-1" 1]
      coord_torus [OF c, of "-1" 0] coord_torus [OF c, of "-1" "-1"] coord_self [OF c]
    show "(case c of (i, j) \<Rightarrow> count_into board (calculate_coord i j)
         [calculate_coord (i + 1) (j + 1), calculate_coord (i + 1) j, calculate_coord (i + 1) (j - 1),
          calculate_coord i (j - 1), calculate_coord i (j + 1),
          calculate_coord (i - 1) (j + 1), calculate_coord (i - 1) j, calculate_coord (i - 1) (j - 1)]) =
       count_into board (place c) (map (place \<circ> shift c) ?ds)"
      using places by (simp add: case_prod_beta)
  qed simp
  then show ?thesis
    using fold_counters [OF assms torus_product, of "\<lambda>_. ?ds" board] by simp
qed

lemma cvp_calculate_neighbors_counts:
  assumes "length ns = 64"
  shows "cvp_calculate_neighbors board ns = map (\<lambda>k. of_nat (living board (cell_at k))) [0..<64]"
proof -
  let ?ds = "[(1, -1), (0, -1), (-1, -1), (1, 0), (-1, 0), (1, 1), (0, 1), (-1, 1)] :: cell list"
  let ?cs = "map prod.swap (List.product [0..7] [0..7])"
  have "cvp_calculate_neighbors board ns =
    fold (\<lambda>c. count_into board (place c) (map (place \<circ> shift c) ?ds)) ?cs ns"
    unfolding cvp_calculate_neighbors_def fold_nested const_defs fold_map
  proof (rule fold_cong [OF refl])
    fix p assume "p \<in> set (List.product [0..8 - 1] [0..8 - 1 :: int])"
    then have c: "prod.swap p \<in> torus" by (auto simp: torus_def)
    note places = coord_torus [OF c, of 1 1] coord_torus [OF c, of 1 0] coord_torus [OF c, of 1 "-1"]
      coord_torus [OF c, of 0 "-1"] coord_torus [OF c, of 0 1] coord_torus [OF c, of "-1" 1]
      coord_torus [OF c, of "-1" 0] coord_torus [OF c, of "-1" "-1"] coord_self [OF c]
    show "(case p of (i, j) \<Rightarrow> count_into board
         (word_of_int ((j + 8) smod 8 + ((i + 8) smod 8) * 8))
         [cvp_coord (j + 1) (i - 1), cvp_coord j (i - 1), cvp_coord (j - 1) (i - 1),
          cvp_coord (j + 1) i, cvp_coord (j - 1) i,
          cvp_coord (j + 1) (i + 1), cvp_coord j (i + 1), cvp_coord (j - 1) (i + 1)]) =
       ((\<lambda>c. count_into board (place c) (map (place \<circ> shift c) ?ds)) \<circ> prod.swap) p"
      using places unfolding cvp_coord_eq
      by (simp add: case_prod_beta) (simp add: calculate_coord_def const_defs)
  qed simp
  moreover have "set ?cs = torus" by (auto simp: torus_def)
  moreover have "distinct ?cs" by (simp only: distinct_map torus_product) simp
  ultimately show ?thesis
    using fold_counters [OF assms, of ?cs "\<lambda>_. ?ds" board] by simp
qed

section \<open>Applying the rules\<close>

definition lives_on :: "u64 \<Rightarrow> u32 list \<Rightarrow> nat \<Rightarrow> bool" where
  "lives_on board ns k \<longleftrightarrow> ns ! k = 3 \<or> bit board k \<and> ns ! k = 2"

lemma rules_prefix:
  assumes "length ns = 64" "m \<le> 64"
  shows "snd (fold (rule_step board) [0..<m] (0, ns)) = replicate m 0 @ drop m ns \<and>
    (\<forall>k. bit (fst (fold (rule_step board) [0..<m] (0, ns))) k \<longleftrightarrow> k < m \<and> lives_on board ns k)"
  using assms(2)
proof (induction m)
  case (Suc m)
  obtain rb us where s: "fold (rule_step board) [0..<m] (0, ns) = (rb, us)" by fastforce
  have us: "us = replicate m 0 @ drop m ns" and rb: "\<And>k. bit rb k \<longleftrightarrow> k < m \<and> lives_on board ns k"
    using Suc s by auto
  have m: "m < 64" using Suc.prems by simp
  then have nth: "us ! m = ns ! m" using us assms(1) by (simp add: nth_append)
  have bit: "getbit board (of_nat m) = 1 \<longleftrightarrow> bit board m"
    using m by (simp add: getbit_of_bool unat_of_nat)
  have "us[m := 0] = replicate (Suc m) 0 @ drop (Suc m) ns"
    using us assms(1) m by (simp add: list_update_append replicate_app_Cons_same flip: Cons_nth_drop_Suc)
  moreover have "bit (rb OR push_bit m 1) k \<longleftrightarrow> bit rb k \<or> k = m" for k
    using m by (auto simp: bit_or_iff bit_push_bit_iff bit_1_iff bit_exp_iff)
  moreover have "bit (fst (rule_step board m (rb, us))) k \<longleftrightarrow> k < Suc m \<and> lives_on board ns k" for k
    using calculation(2) by (auto simp: rule_step_def Let_def nth bit rb lives_on_def less_Suc_eq)
  ultimately show ?case by (simp add: s) (simp add: rule_step_def Let_def)
qed simp

context neighbour_counter
begin

lemma next_board:
  assumes "length ns = 64" "apply_gol_rules board (count_all board ns) = (board', ns')"
  shows "cells board' = life (cells board) \<and> ns' = replicate 64 0"
proof -
  let ?cs = "count_all board ns"
  have len: "length ?cs = 64" by (simp add: counts [OF assms(1)])
  have r: "apply_gol_rules board ?cs = fold (rule_step board) [0..<64] (0, ?cs)"
    by (simp add: apply_gol_rules_def const_defs)
  have bits: "bit board' k \<longleftrightarrow> k < 64 \<and> lives_on board ?cs k" and ns': "ns' = replicate 64 0" for k
    using rules_prefix [OF len, of 64 board] assms(2) len by (simp_all add: r)
  have eight: "living board c \<le> 8" for c
    using card_mono [of "around c" "around c \<inter> cells board"] card_length [of "map (shift c) ring"]
    by (simp add: around_ring del: list.map set_map)
  have rule: "lives_on board ?cs (unat (place c)) \<longleftrightarrow> c \<in> life (cells board)" if c: "c \<in> torus" for c
  proof -
    have "cell_at (unat (place c)) = c"
      using place_inj place_cell_at [OF place_less [OF c]] c place_less [OF c] cell_at_torus [OF place_less [OF c]]
      by (auto dest: inj_onD)
    then have "?cs ! unat (place c) = of_nat (living board c)"
      using place_less [OF c] by (simp add: counts [OF assms(1)])
    moreover have "(of_nat (living board c) :: u32) = 2 \<longleftrightarrow> living board c = 2"
      "(of_nat (living board c) :: u32) = 3 \<longleftrightarrow> living board c = 3"
      using eight [of c] by (simp_all add: word_unat_eq_iff unat_of_nat take_bit_nat_eq_self)
    ultimately show ?thesis
      using c by (auto simp: lives_on_def life_def cells_def unat_place)
  qed
  have "c \<in> cells board' \<longleftrightarrow> c \<in> life (cells board)" for c
    using rule [of c] place_less [of c] by (auto simp: cells_def bits unat_place life_def)
  with ns' show ?thesis by blast
qed

lemma rounds_life:
  "\<exists>board'. gol_rounds count_all n board (replicate 64 0) = Some board' \<and> cells board' = (life ^^ n) (cells board)"
proof (induction n arbitrary: board)
  case (Suc n)
  obtain b ns where 1: "apply_gol_rules board (count_all board (replicate 64 0)) = (b, ns)" by fastforce
  from next_board [OF _ this] have "cells b = life (cells board)" "ns = replicate 64 0" by simp_all
  with Suc.IH [of b] 1 show ?case
    by (auto simp: list_ex_iff funpow_Suc_right simp del: funpow.simps)
qed simp

end

interpretation hpr_counter: neighbour_counter calculate_neighbors
  by unfold_locales (rule calculate_neighbors_counts)

interpretation cvp_counter: neighbour_counter cvp_calculate_neighbors
  by unfold_locales (rule cvp_calculate_neighbors_counts)

text \<open>A board is determined by its cells.\<close>

lemma cells_inject: "cells a = cells b \<longleftrightarrow> a = b"
proof
  assume eq: "cells a = cells b"
  show "a = b"
  proof (rule bit_word_eqI)
    fix k assume "k < LENGTH(64)"
    then have k: "cell_at k \<in> torus" "nat (fst (cell_at k) + 8 * snd (cell_at k)) = k"
      using cell_at_torus [of k] place_cell_at [of k] by (simp_all add: unat_place)
    have "bit c k \<longleftrightarrow> cell_at k \<in> cells c" for c using k by (simp add: cells_def)
    then show "bit a k \<longleftrightarrow> bit b k" using eq by simp
  qed
qed simp

lemma verify_life:
  "\<exists>board'. run_gol_verify board n = Some board' \<and> cells board' = (life ^^ unat n) (cells board)"
  using hpr_counter.rounds_life [of "unat n" board] by (simp add: run_gol_verify_def const_defs)

lemma cvp_verify_life:
  "\<exists>board'. cvp_run_gol_verify board n = Some board' \<and> cells board' = (life ^^ unat n) (cells board)"
  using cvp_counter.rounds_life [of "unat n" board] by (simp add: cvp_run_gol_verify_def const_defs)

text \<open>
  C34. The check of the accelerator is the Game of Life. From any board and for any number of rounds, both
  programs end without leaving through the test of the counters, and the board they compute is the one
  whose live cells are those of the Game of Life on the torus after that many generations. So the two
  programs agree.
\<close>

theorem gol_verify_is_life:
  "\<exists>board'. run_gol_verify board n = Some board' \<and> cvp_run_gol_verify board n = Some board' \<and>
     cells board' = (life ^^ unat n) (cells board)"
proof -
  obtain x y where "run_gol_verify board n = Some x" "cells x = (life ^^ unat n) (cells board)"
    "cvp_run_gol_verify board n = Some y" "cells y = (life ^^ unat n) (cells board)"
    using verify_life cvp_verify_life by blast
  then show ?thesis using cells_inject [of x y] by simp
qed

end
