(* ===== verification/Host.thy ===== *)
theory Host
  imports Configure Uio Gol
begin

text \<open>
  The host program of the Stratix 10 reference designs,
  \<open>ref_designs/s10_pcie_devkit_hpr/software/util/example_host_uio.c\<close>, which finds out which persona is
  loaded into the reconfigurable region and tests it. It reaches the registers of the region through
  ioctls of the PCIe driver, with \<open>read_pr\<close> and \<open>write_pr\<close>. The personas are tested through a handle
  with two access functions, as in the program for the hierarchical Arria 10 design, which has the same
  tests over a UIO mapping; the handle for the ioctls is \<open>pr_handle\<close>.

  The random numbers come from a parameter \<open>rnd\<close>. A test returns, or leaves the program with an exit
  code; \<open>None\<close> is a test that never ends. What is printed is left out.
\<close>

section \<open>Access to the region\<close>

text \<open>
  The file descriptor is the function that an ioctl on it performs. When the ioctl fails, \<open>read_pr\<close>
  returns what its uninitialised structure held.
\<close>

type_synonym 'w fd = "ioctl_cmd \<Rightarrow> 'w \<Rightarrow> int \<times> rw_arg_t option \<times> 'w"

definition read_pr :: "'w fd \<Rightarrow> u32 \<Rightarrow> u32 \<Rightarrow> 'w \<Rightarrow> u32 \<times> 'w" where
  "read_pr fd junk offset w =
     (let rw_args = \<lparr>rw_offset = offset, rw_data = junk\<rparr>;
          (r, out, w) = fd (FPGA_PR_REGION_READ (Some rw_args) True) w;
          rw_args = (case out of None \<Rightarrow> rw_args | Some a \<Rightarrow> a)
      in (rw_data rw_args, w))"

definition write_pr :: "'w fd \<Rightarrow> u32 \<Rightarrow> u32 \<Rightarrow> 'w \<Rightarrow> u32 \<times> 'w" where
  "write_pr fd offset data w =
     (let rw_args = \<lparr>rw_offset = offset, rw_data = data\<rparr>;
          (r, out, w) = fd (FPGA_PR_REGION_WRITE (Some rw_args)) w
      in (offset, w))"

definition pr_handle :: "'w fd \<Rightarrow> u32 \<Rightarrow> 'w device_handle" where
  "pr_handle fd junk =
     \<lparr>read_u32 = (\<lambda>off d w. let (v, w) = read_pr fd junk off w in (0, v, w)),
      write_u32 = (\<lambda>off v w. let (_, w) = write_pr fd off v w in (0, w))\<rparr>"

text \<open>The device of a card. The requests for the region always return and keep the private data.\<close>

definition card_fd ::
  "('h, 'z) pci_bus_scheme \<Rightarrow> 'h world pr_ip_ops \<Rightarrow> (string \<Rightarrow> kfile option) \<Rightarrow> cbuf \<Rightarrow> fpga_pcie_priv \<Rightarrow> 'h world fd" where
  "card_fd b ops fs buf0 priv cmd w =
     (case my_ioctl b ops fs buf0 priv cmd w of Some (r, out, _, w) \<Rightarrow> (r, out, w) | None \<Rightarrow> (0, None, w))"

section \<open>Registers\<close>

definition PR_PERSONA_ID :: u32 where [const_defs]: "PR_PERSONA_ID = 0x00"
definition PR_CONTROL_REGISTER :: u32 where [const_defs]: "PR_CONTROL_REGISTER = 0x10"
definition PR_HOST_REGISTER_0 :: u32 where [const_defs]: "PR_HOST_REGISTER_0 = 0x20"
definition PR_HOST_REGISTER_1 :: u32 where [const_defs]: "PR_HOST_REGISTER_1 = 0x30"
definition PR_HOST_REGISTER_2 :: u32 where [const_defs]: "PR_HOST_REGISTER_2 = 0x40"
definition HOST_PR_REGISTER_0 :: u32 where [const_defs]: "HOST_PR_REGISTER_0 = 0xa0"
definition HOST_PR_REGISTER_1 :: u32 where [const_defs]: "HOST_PR_REGISTER_1 = 0xb0"
definition HOST_PR_REGISTER_2 :: u32 where [const_defs]: "HOST_PR_REGISTER_2 = 0xc0"

definition PERSONA_ID_BASIC_ARITHMETIC :: u32 where [const_defs]: "PERSONA_ID_BASIC_ARITHMETIC = 0xd2"
definition PERSONA_ID_BASIC_DSP :: u32 where [const_defs]: "PERSONA_ID_BASIC_DSP = 0xaeed"
definition PERSONA_ID_DDR4_ACCESS :: u32 where [const_defs]: "PERSONA_ID_DDR4_ACCESS = 0xef"
definition PERSONA_ID_GOL_ACCELERATOR :: u32 where [const_defs]: "PERSONA_ID_GOL_ACCELERATOR = 0x676f6c"
definition PERSONA_ID_HPR_PARENT_ALPHA :: u32 where [const_defs]: "PERSONA_ID_HPR_PARENT_ALPHA = 0x68707261"

definition PR_OPERAND :: u32 where [const_defs]: "PR_OPERAND = HOST_PR_REGISTER_0"
definition PR_INCR :: u32 where [const_defs]: "PR_INCR = HOST_PR_REGISTER_1"
definition PR_RESULT :: u32 where [const_defs]: "PR_RESULT = PR_HOST_REGISTER_0"
definition ADDER_INPUT_SIZE :: nat where [const_defs]: "ADDER_INPUT_SIZE = 32"
definition DSP_INPUT_SIZE :: nat where [const_defs]: "DSP_INPUT_SIZE = 27"

definition DDR4_MEM_ADDRESS :: u32 where [const_defs]: "DDR4_MEM_ADDRESS = HOST_PR_REGISTER_0"
definition DDR4_SEED_ADDRESS :: u32 where [const_defs]: "DDR4_SEED_ADDRESS = HOST_PR_REGISTER_1"
definition DDR4_FINAL_OFFSET :: u32 where [const_defs]: "DDR4_FINAL_OFFSET = HOST_PR_REGISTER_2"
definition PERFORMANCE_COUNTER :: u32 where [const_defs]: "PERFORMANCE_COUNTER = PR_HOST_REGISTER_0"
definition DDR4_BUSY_REGISTER :: u32 where [const_defs]: "DDR4_BUSY_REGISTER = PR_HOST_REGISTER_1"
definition DDR4_START_MASK :: nat where [const_defs]: "DDR4_START_MASK = 2"
definition DDR4_LOAD_SEED_MASK :: nat where [const_defs]: "DDR4_LOAD_SEED_MASK = 1"
definition DDR4_ADDRESS_MAX :: u32 where [const_defs]: "DDR4_ADDRESS_MAX = push_bit 25 1"
definition DDR4_CAL_MASK :: nat where [const_defs]: "DDR4_CAL_MASK = 3"
definition DDR4_CAL_OFFSET :: u32 where [const_defs]: "DDR4_CAL_OFFSET = 0x10010"

definition GOL_COUNTER_LIMIT_ADDRESS :: u32 where [const_defs]: "GOL_COUNTER_LIMIT_ADDRESS = HOST_PR_REGISTER_0"
definition GOL_TOP_HALF :: u32 where [const_defs]: "GOL_TOP_HALF = HOST_PR_REGISTER_1"
definition GOL_BOT_HALF :: u32 where [const_defs]: "GOL_BOT_HALF = HOST_PR_REGISTER_2"
definition GOL_BUSY_REG :: u32 where [const_defs]: "GOL_BUSY_REG = PR_HOST_REGISTER_0"
definition GOL_TOP_END :: u32 where [const_defs]: "GOL_TOP_END = PR_HOST_REGISTER_1"
definition GOL_BOT_END :: u32 where [const_defs]: "GOL_BOT_END = PR_HOST_REGISTER_2"
definition GOL_START_MASK :: nat where [const_defs]: "GOL_START_MASK = 1"

definition HPR_A_CHILD_0 :: u32 where [const_defs]: "HPR_A_CHILD_0 = 0x4000"
definition HPR_A_CHILD_1 :: u32 where [const_defs]: "HPR_A_CHILD_1 = 0x8000"

section \<open>The tests of the personas\<close>

datatype finish = Exit int | Return int

definition EXIT_FAILURE :: int where [const_defs]: "EXIT_FAILURE = 1"

definition reset_pr_logic :: "'w device_handle \<Rightarrow> u32 \<Rightarrow> 'w \<Rightarrow> 'w" where
  "reset_pr_logic th region_offset w =
     (let (_, w) = write_u32 th (PR_CONTROL_REGISTER + region_offset) 0 w;
          (_, w) = write_u32 th (PR_CONTROL_REGISTER + region_offset) 1 w;
          (_, w) = write_u32 th (PR_CONTROL_REGISTER + region_offset) 0 w
      in w)"

text \<open>With 32 bits the loop ends after one round; the shift by 32, which C does not define, has no effect.\<close>

partial_function (option) generate_random_number ::
    "('r \<Rightarrow> u32 \<times> 'r) \<Rightarrow> nat \<Rightarrow> 'r \<Rightarrow> (u32 \<times> u32 \<times> 'r) option" where
  [code]: "generate_random_number rnd bit_max r =
    (let (a, r) = rnd r;
         (b, r) = rnd r
     in if bit_max = 32 \<or> a < push_bit bit_max 1 - 1 \<and> b < push_bit bit_max 1 - 1 then Some (a, b, r)
        else generate_random_number rnd bit_max r)"

definition check_result_32 :: "u32 \<Rightarrow> u32 \<Rightarrow> int" where
  "check_result_32 expected_value returned_value = (if expected_value \<noteq> returned_value then 1 else 0)"

definition check_result_64 :: "u64 \<Rightarrow> u64 \<Rightarrow> int" where
  "check_result_64 expected_value returned_value = (if expected_value \<noteq> returned_value then 1 else 0)"

text \<open>The counter \<open>i\<close> of the loops over the runs is a 32 bit word and wraps.\<close>

partial_function (option) math_loop ::
    "'w device_handle \<Rightarrow> ('r \<Rightarrow> u32 \<times> 'r) \<Rightarrow> u32 \<Rightarrow> u32 \<Rightarrow> u32 \<Rightarrow> 'w \<Rightarrow> 'r \<Rightarrow> (finish \<times> 'w \<times> 'r) option" where
  [code]: "math_loop th rnd number_of_runs region_offset i w r =
    (if i > number_of_runs then Some (Return 0, w, r)
     else do {
       let w = reset_pr_logic th region_offset w;
       (operand, increment, r) \<leftarrow> generate_random_number rnd ADDER_INPUT_SIZE r;
       let (_, w) = write_u32 th (PR_OPERAND + region_offset) operand w;
       let (_, w) = write_u32 th (PR_INCR + region_offset) increment w;
       let (_, data, w) = read_u32 th (PR_RESULT + region_offset) 0 w;
       if check_result_32 (operand + increment) data \<noteq> 0 then Some (Exit EXIT_FAILURE, w, r)
       else math_loop th rnd number_of_runs region_offset (i + 1) w r
     })"

definition do_basic_math_persona ::
  "'w device_handle \<Rightarrow> ('r \<Rightarrow> u32 \<times> 'r) \<Rightarrow> u32 \<Rightarrow> u32 \<Rightarrow> 'w \<Rightarrow> 'r \<Rightarrow> (finish \<times> 'w \<times> 'r) option" where
  "do_basic_math_persona th rnd number_of_runs region_offset w r =
     math_loop th rnd number_of_runs region_offset 1 (reset_pr_logic th region_offset w) r"

partial_function (option) dsp_loop ::
    "'w device_handle \<Rightarrow> ('r \<Rightarrow> u32 \<times> 'r) \<Rightarrow> u32 \<Rightarrow> u32 \<Rightarrow> u32 \<Rightarrow> 'w \<Rightarrow> 'r \<Rightarrow> (finish \<times> 'w \<times> 'r) option" where
  [code]: "dsp_loop th rnd number_of_runs region_offset i w r =
    (if i > number_of_runs then Some (Return 0, w, r)
     else do {
       let w = reset_pr_logic th region_offset w;
       (arg_a, arg_b, r) \<leftarrow> generate_random_number rnd DSP_INPUT_SIZE r;
       let (_, w) = write_u32 th (PR_OPERAND + region_offset) arg_a w;
       let (_, w) = write_u32 th (PR_INCR + region_offset) arg_b w;
       let (_, data, w) = read_u32 th (PR_HOST_REGISTER_1 + region_offset) 0 w;
       let result = push_bit 32 (ucast data :: u64);
       let (_, data, w) = read_u32 th (PR_HOST_REGISTER_0 + region_offset) data w;
       let result = result + ucast data;
       if check_result_64 (ucast arg_a * ucast arg_b) result \<noteq> 0 then Some (Exit EXIT_FAILURE, w, r)
       else dsp_loop th rnd number_of_runs region_offset (i + 1) w r
     })"

definition do_basic_dsp_persona ::
  "'w device_handle \<Rightarrow> ('r \<Rightarrow> u32 \<times> 'r) \<Rightarrow> u32 \<Rightarrow> u32 \<Rightarrow> 'w \<Rightarrow> 'r \<Rightarrow> (finish \<times> 'w \<times> 'r) option" where
  "do_basic_dsp_persona th rnd number_of_runs region_offset w r =
     dsp_loop th rnd number_of_runs region_offset 1 (reset_pr_logic th region_offset w) r"

text \<open>Reading a register until it is 0, as the tests wait for a persona that is busy.\<close>

definition wait_while_busy :: "'w device_handle \<Rightarrow> u32 \<Rightarrow> 'w \<Rightarrow> 'w option" where
  "wait_while_busy th off w = do {
     (busy, w) \<leftarrow> do_while (\<lambda>(_, w). let (_, data, w) = read_u32 th off 0 w in (data, w)) (\<lambda>(busy, _). busy \<noteq> 0) (0, w);
     Some w
   }"

definition run_ddr4_address_sweep ::
  "'w device_handle \<Rightarrow> u32 \<Rightarrow> u32 \<Rightarrow> u32 \<Rightarrow> u32 \<Rightarrow> 'w \<Rightarrow> 'w option" where
  "run_ddr4_address_sweep th base_address final_offset calibration region_offset w =
     (let (_, w) = write_u32 th (DDR4_MEM_ADDRESS + region_offset) base_address w;
          (_, w) = write_u32 th (DDR4_FINAL_OFFSET + region_offset) final_offset w;
          (_, w) = write_u32 th (PR_CONTROL_REGISTER + region_offset)
            (push_bit DDR4_START_MASK 1 OR push_bit DDR4_CAL_MASK calibration) w;
          (_, w) = write_u32 th (PR_CONTROL_REGISTER + region_offset) (push_bit DDR4_CAL_MASK calibration) w
      in wait_while_busy th (DDR4_BUSY_REGISTER + region_offset) w)"

partial_function (option) ddr4_range :: "('r \<Rightarrow> u32 \<times> 'r) \<Rightarrow> 'r \<Rightarrow> (u32 \<times> u32 \<times> 'r) option" where
  [code]: "ddr4_range rnd r =
    (let (base_address, r) = rnd r;
         (final_offset, r) = rnd r
     in if base_address + final_offset < DDR4_ADDRESS_MAX then Some (base_address, final_offset, r)
        else ddr4_range rnd r)"

partial_function (option) ddr4_loop ::
    "'w device_handle \<Rightarrow> ('r \<Rightarrow> u32 \<times> 'r) \<Rightarrow> u32 \<Rightarrow> u32 \<Rightarrow> u32 \<Rightarrow> u32 \<Rightarrow> 'w \<Rightarrow> 'r \<Rightarrow> (finish \<times> 'w \<times> 'r) option" where
  [code]: "ddr4_loop th rnd seed number_of_runs region_offset i w r =
    (if i > number_of_runs then Some (Return 0, w, r)
     else do {
       let w = reset_pr_logic th region_offset w;
       let (_, w) = write_u32 th (DDR4_SEED_ADDRESS + region_offset) seed w;
       let (_, w) = write_u32 th (PR_CONTROL_REGISTER + region_offset) (push_bit DDR4_LOAD_SEED_MASK 1) w;
       let (_, data, w) = read_u32 th (DDR4_SEED_ADDRESS + region_offset) 0 w;
       if data \<noteq> seed then Some (Exit EXIT_FAILURE, w, r)
       else do {
         (base_address, final_offset, r) \<leftarrow> ddr4_range rnd r;
         w \<leftarrow> run_ddr4_address_sweep th base_address final_offset 1 region_offset w;
         let (_, data, w) = read_u32 th (PERFORMANCE_COUNTER + region_offset) 0 w;
         if data \<noteq> final_offset + 1 then Some (Exit EXIT_FAILURE, w, r)
         else ddr4_loop th rnd seed number_of_runs region_offset (i + 1) w r
       }
     })"

definition do_ddr4_access_persona ::
  "'w device_handle \<Rightarrow> ('r \<Rightarrow> u32 \<times> 'r) \<Rightarrow> u32 \<Rightarrow> u32 \<Rightarrow> u32 \<Rightarrow> 'w \<Rightarrow> 'r \<Rightarrow> (finish \<times> 'w \<times> 'r) option" where
  "do_ddr4_access_persona th rnd seed number_of_runs region_offset w r =
     (let w = reset_pr_logic th region_offset w;
          (_, data, w) = read_u32 th (DDR4_CAL_OFFSET + 0) 0 w
      in if data \<noteq> 2 then Some (Exit EXIT_FAILURE, w, r)
         else ddr4_loop th rnd seed number_of_runs region_offset 1 w r)"

definition run_gol_accelerated :: "'w device_handle \<Rightarrow> u32 \<Rightarrow> u32 \<Rightarrow> u32 \<Rightarrow> u32 \<Rightarrow> 'w \<Rightarrow> 'w option" where
  "run_gol_accelerated th top_half bottom_half number_of_runs region_offset w =
     (let (_, w) = write_u32 th (GOL_TOP_HALF + region_offset) top_half w;
          (_, w) = write_u32 th (GOL_BOT_HALF + region_offset) bottom_half w;
          (_, w) = write_u32 th (GOL_COUNTER_LIMIT_ADDRESS + region_offset) number_of_runs w;
          (_, w) = write_u32 th (PR_CONTROL_REGISTER + region_offset) (push_bit GOL_START_MASK 0) w;
          (_, w) = write_u32 th (PR_CONTROL_REGISTER + region_offset) (push_bit GOL_START_MASK 1) w;
          (_, w) = write_u32 th (PR_CONTROL_REGISTER + region_offset) (push_bit GOL_START_MASK 0) w
      in wait_while_busy th (GOL_BUSY_REG + region_offset) w)"

abbreviation board_of :: "u32 \<Rightarrow> u32 \<Rightarrow> u64" where
  "board_of top_half bottom_half \<equiv> push_bit 32 (ucast top_half) OR ucast bottom_half"

definition do_gol_persona ::
  "'w device_handle \<Rightarrow> ('r \<Rightarrow> u32 \<times> 'r) \<Rightarrow> u32 \<Rightarrow> u32 \<Rightarrow> 'w \<Rightarrow> 'r \<Rightarrow> (finish \<times> 'w \<times> 'r) option" where
  "do_gol_persona th rnd number_of_runs region_offset w r = do {
     let w = reset_pr_logic th region_offset w;
     (top_half, bottom_half, r) \<leftarrow> generate_random_number rnd 32 r;
     w \<leftarrow> run_gol_accelerated th top_half bottom_half number_of_runs region_offset w;
     let w = reset_pr_logic th region_offset w;
     let (_, top_half_final, w) = read_u32 th (GOL_TOP_END + region_offset) 0 w;
     let (_, bottom_half_final, w) = read_u32 th (GOL_BOT_END + region_offset) 0 w;
     let accelerated_result = board_of top_half_final bottom_half_final;
     case run_gol_verify (board_of top_half bottom_half) number_of_runs of
       None \<Rightarrow> Some (Exit EXIT_FAILURE, w, r)
     | Some host_generated_result \<Rightarrow>
         Some (if check_result_64 host_generated_result accelerated_result \<noteq> 0 then Exit EXIT_FAILURE else Return 0, w, r)
   }"

section \<open>Child regions and the program\<close>

text \<open>The \<open>switch\<close> over the identity of a persona, which the program has for each region.\<close>

definition run_persona ::
  "'w device_handle \<Rightarrow> ('r \<Rightarrow> u32 \<times> 'r) \<Rightarrow> u32 \<Rightarrow> u32 \<Rightarrow> u32 \<Rightarrow> u32 \<Rightarrow> 'w \<Rightarrow> 'r \<Rightarrow> (finish \<times> 'w \<times> 'r) option" where
  "run_persona th rnd seed number_of_runs region_offset persona w r =
     (if persona = PERSONA_ID_BASIC_ARITHMETIC then do_basic_math_persona th rnd number_of_runs region_offset w r
      else if persona = PERSONA_ID_BASIC_DSP then do_basic_dsp_persona th rnd number_of_runs region_offset w r
      else if persona = PERSONA_ID_DDR4_ACCESS then do_ddr4_access_persona th rnd seed number_of_runs region_offset w r
      else if persona = PERSONA_ID_GOL_ACCELERATOR then do_gol_persona th rnd number_of_runs region_offset w r
      else Some (Return (- EINVAL), w, r))"

definition do_hpr_config_a ::
  "'w device_handle \<Rightarrow> ('r \<Rightarrow> u32 \<times> 'r) \<Rightarrow> u32 \<Rightarrow> u32 \<Rightarrow> 'w \<Rightarrow> 'r \<Rightarrow> (finish \<times> 'w \<times> 'r) option" where
  "do_hpr_config_a th rnd seed number_of_runs w r = do {
     let (_, id_child_0, w) = read_u32 th (PR_PERSONA_ID + HPR_A_CHILD_0) 0 w;
     let (_, id_child_1, w) = read_u32 th (PR_PERSONA_ID + HPR_A_CHILD_1) 0 w;
     (f, w, r) \<leftarrow> run_persona th rnd seed number_of_runs HPR_A_CHILD_0 id_child_0 w r;
     case f of
       Exit c \<Rightarrow> Some (Exit c, w, r)
     | Return ret_0 \<Rightarrow> do {
         (f, w, r) \<leftarrow> run_persona th rnd seed number_of_runs HPR_A_CHILD_1 id_child_1 w r;
         case f of
           Exit c \<Rightarrow> Some (Exit c, w, r)
         | Return ret_1 \<Rightarrow> Some (Return (ret_0 AND ret_1), w, r)
       }
   }"

text \<open>
  The command line as \<open>getopt_long\<close> delivers it. The option \<open>-d\<close> is accepted by \<open>getopt_long\<close> but has no
  case in the \<open>switch\<close>, so it is treated as invalid.
\<close>

datatype host_option = Opt_v | Opt_h | Opt_n string | Opt_s string | Opt_d string | Opt_invalid

fun parse_options :: "host_option list \<Rightarrow> u32 \<times> u32 \<times> u32 \<Rightarrow> (u32 \<times> u32 \<times> u32) option" where
  "parse_options [] s = Some s"
| "parse_options (Opt_v # os) (verbose, runs, seed) = parse_options os (1, runs, seed)"
| "parse_options (Opt_h # os) s = None"
| "parse_options (Opt_n a # os) (verbose, runs, seed) = parse_options os (verbose, word_of_int (strtol10 a), seed)"
| "parse_options (Opt_s a # os) (verbose, runs, seed) = parse_options os (verbose, runs, word_of_int (strtol10 a))"
| "parse_options (Opt_d a # os) s = None"
| "parse_options (Opt_invalid # os) s = None"

text \<open>The exit status; \<open>srand\<close> gives the state of the random numbers from the seed.\<close>

definition host_main ::
  "'w device_handle \<Rightarrow> bool \<Rightarrow> (u32 \<Rightarrow> 'r) \<Rightarrow> ('r \<Rightarrow> u32 \<times> 'r) \<Rightarrow> host_option list \<Rightarrow> 'w \<Rightarrow> (int \<times> 'w) option" where
  "host_main th open_ok srand rnd opts w =
     (if \<not> open_ok then Some (2, w)
      else case parse_options opts (0, 3, 1) of
          None \<Rightarrow> Some (0, w)
        | Some (verbose, number_of_runs, seed) \<Rightarrow> do {
            let r = srand seed;
            let (_, persona_id, w) = read_u32 th PR_PERSONA_ID 0 w;
            (f, w, r) \<leftarrow>
              (if persona_id = PERSONA_ID_HPR_PARENT_ALPHA then do_hpr_config_a th rnd seed number_of_runs w r
               else run_persona th rnd seed number_of_runs 0 persona_id w r);
            Some (case f of Exit c \<Rightarrow> c | Return ret \<Rightarrow> ret, w)
          })"

end
