(* ===== verification/Host_Tests.thy ===== *)
theory Host_Tests
  imports Host
begin

text \<open>
  What the tests of the host program do to the registers of the region and what their verdicts mean,
  for every way of access that logs reads and writes: the ioctls of the PCIe driver, which read a
  register back after each write, and a UIO mapping.
\<close>

section \<open>The contract of register access\<close>

definition wrote :: "u64 \<Rightarrow> u32 \<Rightarrow> io_event list \<Rightarrow> bool" where
  "wrote a v t \<longleftrightarrow> (\<exists>xs. t = Write a v # map (Read a) xs)"

lemma wrote_once [intro]: "wrote a v [Write a v]" "wrote a v [Write a v, Read a x]"
  by (auto simp: wrote_def intro: exI [of _ "[]"] exI [of _ "[x]"])

locale register_port =
  fixes th :: "'w device_handle" and addr :: "u32 \<Rightarrow> u64" and ok :: "u32 \<Rightarrow> bool" and log :: "'w \<Rightarrow> io_event list"
  assumes port_read: "ok off \<Longrightarrow> read_u32 th off d w = (r, v, w') \<Longrightarrow> log w' = log w @ [Read (addr off) v]"
    and port_write: "ok off \<Longrightarrow> write_u32 th off v w = (r, w') \<Longrightarrow> \<exists>t. log w' = log w @ t \<and> wrote (addr off) v t"

sublocale device_access \<subseteq> register_port dh addr ok log
proof
  show "log w' = log w @ [Read (addr off) v]" if "ok off" "read_u32 dh off d w = (r, v, w')" for off d w r v w'
    using read_ok [OF that] by simp
  show "\<exists>t. log w' = log w @ t \<and> wrote (addr off) v t" if "ok off" "write_u32 dh off v w = (r, w')" for off v w r w'
    using write_ok [OF that] by auto
qed

interpretation pr_port: register_port "pr_handle (card_fd b ops fs buf0 priv) junk" "pr_region priv" "\<lambda>_. True" trace
  for b :: "('h, 'z) pci_bus_scheme" and ops fs buf0 priv junk
proof
  fix off d v r and w w' :: "'h world"
  show "trace w' = trace w @ [Read (pr_region priv off) v]"
    if "read_u32 (pr_handle (card_fd b ops fs buf0 priv) junk) off d w = (r, v, w')"
    using that by (auto simp: pr_handle_def read_pr_def card_fd_def my_ioctl_def Let_def split: prod.splits dest: trace_readlD)
  show "\<exists>t. trace w' = trace w @ t \<and> wrote (pr_region priv off) v t"
    if "write_u32 (pr_handle (card_fd b ops fs buf0 priv) junk) off v w = (r, w')"
    using that
    by (auto simp: pr_handle_def write_pr_def card_fd_def my_ioctl_def Let_def trace_writel
        split: prod.splits dest!: trace_readlD)
qed

section \<open>What the tests log\<close>

text \<open>Logs that follow one after the other.\<close>

fun stages :: "(io_event list \<Rightarrow> bool) list \<Rightarrow> io_event list \<Rightarrow> bool" where
  "stages [] t \<longleftrightarrow> t = []"
| "stages (P # Ps) t \<longleftrightarrow> (\<exists>t1 t2. t = t1 @ t2 \<and> P t1 \<and> stages Ps t2)"

lemma stages_append: "stages (Ps @ Qs) t \<longleftrightarrow> (\<exists>t1 t2. t = t1 @ t2 \<and> stages Ps t1 \<and> stages Qs t2)"
proof (induction Ps arbitrary: t)
  case (Cons P Ps)
  then show ?case by (simp, metis append.assoc)
qed simp

lemma stages_one: "stages [P] t \<longleftrightarrow> P t"
  by simp

abbreviation read_as :: "u64 \<Rightarrow> u32 \<Rightarrow> io_event list \<Rightarrow> bool" where
  "read_as a v t \<equiv> t = [Read a v]"

definition reset_log :: "u64 \<Rightarrow> (io_event list \<Rightarrow> bool) list" where
  "reset_log ctl = [wrote ctl 0, wrote ctl 1, wrote ctl 0]"

text \<open>Reads of a register of which exactly the last gives 0.\<close>

definition busy_poll :: "u64 \<Rightarrow> io_event list \<Rightarrow> bool" where
  "busy_poll a t \<longleftrightarrow> (\<exists>vs. t = map (Read a) (vs @ [0]) \<and> 0 \<notin> set vs)"

definition follows :: "('w \<Rightarrow> io_event list) \<Rightarrow> 'w \<Rightarrow> (io_event list \<Rightarrow> bool) list \<Rightarrow> 'w \<Rightarrow> bool" where
  "follows log w Ps w' \<longleftrightarrow> (\<exists>t. log w' = log w @ t \<and> stages Ps t)"

lemma followsI: "log w' = log w @ t \<Longrightarrow> P t \<Longrightarrow> follows log w [P] w'"
  by (auto simp: follows_def)

lemma follows_Nil: "follows log w [] w"
  by (simp add: follows_def)

lemma follows_trans: "follows log w Ps w' \<Longrightarrow> follows log w' Qs w'' \<Longrightarrow> follows log w (Ps @ Qs) w''"
  unfolding follows_def stages_append by (metis append.assoc)

text \<open>One run of the adder, with its operands and the value read.\<close>

definition math_log :: "(u32 \<Rightarrow> u64) \<Rightarrow> u32 \<Rightarrow> u32 \<times> u32 \<times> u32 \<Rightarrow> (io_event list \<Rightarrow> bool) list" where
  "math_log addr off = (\<lambda>(a, b, v). reset_log (addr (PR_CONTROL_REGISTER + off)) @
     [wrote (addr (PR_OPERAND + off)) a, wrote (addr (PR_INCR + off)) b, read_as (addr (PR_RESULT + off)) v])"

text \<open>A run of the accelerator, with the board before and the board after.\<close>

definition gol_log ::
  "(u32 \<Rightarrow> u64) \<Rightarrow> u32 \<Rightarrow> u32 \<Rightarrow> u32 \<Rightarrow> u32 \<Rightarrow> u32 \<Rightarrow> u32 \<Rightarrow> (io_event list \<Rightarrow> bool) list" where
  "gol_log addr off n hi lo hi' lo' = (let ctl = addr (PR_CONTROL_REGISTER + off) in
     reset_log ctl @
     [wrote (addr (GOL_TOP_HALF + off)) hi, wrote (addr (GOL_BOT_HALF + off)) lo,
      wrote (addr (GOL_COUNTER_LIMIT_ADDRESS + off)) n, wrote ctl 0, wrote ctl 2, wrote ctl 0,
      busy_poll (addr (GOL_BUSY_REG + off))] @
     reset_log ctl @ [read_as (addr (GOL_TOP_END + off)) hi', read_as (addr (GOL_BOT_END + off)) lo'])"

text \<open>
  The verdict over the runs of a test: it passes when all \<open>n\<close> runs are good, and leaves the program at
  the first run that is not.
\<close>

definition test_verdict :: "('a \<Rightarrow> bool) \<Rightarrow> nat \<Rightarrow> 'a list \<Rightarrow> finish \<Rightarrow> bool" where
  "test_verdict good n runs f \<longleftrightarrow>
     f = Return 0 \<and> length runs = n \<and> list_all good runs \<or>
     f = Exit EXIT_FAILURE \<and> length runs \<le> n \<and> (\<exists>gs x. runs = gs @ [x] \<and> list_all good gs \<and> \<not> good x)"

lemma test_verdict_Cons: "good x \<Longrightarrow> test_verdict good n runs f \<Longrightarrow> test_verdict good (Suc n) (x # runs) f"
  unfolding test_verdict_def by (metis append_Cons length_Cons Suc_le_mono list.pred_inject(2))

lemma test_verdict_bad: "\<not> good x \<Longrightarrow> test_verdict good (Suc n) [x] (Exit EXIT_FAILURE)"
  by (simp add: test_verdict_def)

context register_port
begin

lemma follows_write:
  assumes "follows log w Ps w'" "write_u32 th off v w' = (r, w'')" "ok off"
  shows "follows log w (Ps @ [wrote (addr off) v]) w''"
proof -
  obtain t where "log w'' = log w' @ t" "wrote (addr off) v t" using port_write [OF assms(3,2)] by blast
  then show ?thesis using follows_trans [OF assms(1) followsI] by blast
qed

lemma follows_read:
  assumes "follows log w Ps w'" "read_u32 th off d w' = (r, v, w'')" "ok off"
  shows "follows log w (Ps @ [read_as (addr off) v]) w''"
  by (rule follows_trans [OF assms(1)]) (rule followsI, rule port_read [OF assms(3,2)], simp)

lemma follows_reset:
  assumes "ok (PR_CONTROL_REGISTER + off)"
  shows "follows log w (reset_log (addr (PR_CONTROL_REGISTER + off))) (reset_pr_logic th off w)"
proof -
  obtain r1 w1 where 1: "write_u32 th (PR_CONTROL_REGISTER + off) 0 w = (r1, w1)" by fastforce
  obtain r2 w2 where 2: "write_u32 th (PR_CONTROL_REGISTER + off) 1 w1 = (r2, w2)" by fastforce
  obtain r3 w3 where 3: "write_u32 th (PR_CONTROL_REGISTER + off) 0 w2 = (r3, w3)" by fastforce
  show ?thesis
    using follows_write [OF follows_write [OF follows_write [OF follows_Nil 1 assms] 2 assms] 3 assms]
    by (simp add: reset_pr_logic_def reset_log_def 1 2 3)
qed

lemma follows_busy:
  assumes "wait_while_busy th off w = Some w'" "ok off"
  shows "follows log w [busy_poll (addr off)] w'"
proof -
  obtain v where "do_while (\<lambda>(_, w). let (_, data, w) = read_u32 th off 0 w in (data, w)) (\<lambda>(busy, _). busy \<noteq> 0) (0, w) = Some (v, w')"
    using assms(1) by (auto simp: wait_while_busy_def bind_eq_Some_conv)
  then have "\<exists>vs. log (snd (v, w')) = log (snd (0 :: u32, w)) @ map (Read (addr off)) (vs @ [0]) \<and> 0 \<notin> set vs"
  proof (induction rule: do_while_induct)
    case (stop s)
    obtain r v w1 where "read_u32 th off 0 (snd s) = (r, v, w1)" by (metis prod_cases3)
    with stop port_read [OF assms(2) this] show ?case by (intro exI [of _ "[]"]) (simp add: case_prod_beta)
  next
    case (step s t)
    obtain r v w1 where r: "read_u32 th off 0 (snd s) = (r, v, w1)" by (metis prod_cases3)
    from step obtain vs where "log (snd t) = log w1 @ map (Read (addr off)) (vs @ [0])" "0 \<notin> set vs"
      by (auto simp: r case_prod_beta)
    with step.hyps port_read [OF assms(2) r] show ?case
      by (intro exI [of _ "v # vs"]) (simp add: r case_prod_beta)
  qed
  then show ?thesis by (auto simp: follows_def busy_poll_def)
qed

lemma math_round:
  assumes "ok (PR_CONTROL_REGISTER + off)" "ok (PR_OPERAND + off)" "ok (PR_INCR + off)" "ok (PR_RESULT + off)"
  shows "\<exists>a b v w' r'. follows log w (math_log addr off (a, b, v)) w' \<and>
    (\<forall>n i. math_loop th rnd n off i w r =
      (if i > n then Some (Return 0, w, r)
       else if v \<noteq> a + b then Some (Exit EXIT_FAILURE, w', r')
       else math_loop th rnd n off (i + 1) w' r'))"
proof -
  let ?w = "reset_pr_logic th off w"
  obtain a b r' where g: "generate_random_number rnd ADDER_INPUT_SIZE r = Some (a, b, r')"
    by (cases "rnd (snd (rnd r))", subst (asm) generate_random_number.simps)
      (simp add: ADDER_INPUT_SIZE_def case_prod_beta)
  obtain r1 w1 where 1: "write_u32 th (PR_OPERAND + off) a ?w = (r1, w1)" by fastforce
  obtain r2 w2 where 2: "write_u32 th (PR_INCR + off) b w1 = (r2, w2)" by fastforce
  obtain r3 v w3 where 3: "read_u32 th (PR_RESULT + off) 0 w2 = (r3, v, w3)" by (metis prod_cases3)
  have "follows log w (math_log addr off (a, b, v)) w3"
    using follows_read [OF follows_write [OF follows_write [OF follows_reset [OF assms(1)] 1 assms(2)] 2 assms(3)] 3 assms(4)]
    by (simp add: math_log_def)
  moreover have "math_loop th rnd n off i w r =
      (if i > n then Some (Return 0, w, r) else if v \<noteq> a + b then Some (Exit EXIT_FAILURE, w3, r')
       else math_loop th rnd n off (i + 1) w3 r')" for n i
    by (subst math_loop.simps) (auto simp: Let_def g 1 2 3 check_result_32_def)
  ultimately show ?thesis by blast
qed

lemma math_rounds:
  assumes "ok (PR_CONTROL_REGISTER + off)" "ok (PR_OPERAND + off)" "ok (PR_INCR + off)" "ok (PR_RESULT + off)"
    and "unat n + 1 < 2 ^ 32" "unat i + m = unat n + 1"
  shows "\<exists>f w' r' runs. math_loop th rnd n off i w r = Some (f, w', r') \<and>
    follows log w (concat (map (math_log addr off) runs)) w' \<and>
    test_verdict (\<lambda>(a, b, v). v = a + b) m runs f"
  using assms(6)
proof (induction m arbitrary: i w r)
  case 0
  then have "math_loop th rnd n off i w r = Some (Return 0, w, r)"
    by (subst math_loop.simps) (simp add: word_less_nat_alt)
  then show ?case by (intro exI [of _ "Return 0"] exI [of _ w] exI [of _ r] exI [of _ "[]"])
      (simp add: follows_Nil test_verdict_def)
next
  case (Suc m)
  obtain a b v w' r' where log: "follows log w (math_log addr off (a, b, v)) w'"
    and "\<forall>n i. math_loop th rnd n off i w r =
      (if i > n then Some (Return 0, w, r) else if v \<noteq> a + b then Some (Exit EXIT_FAILURE, w', r')
       else math_loop th rnd n off (i + 1) w' r')"
    using math_round [OF assms(1-4), where rnd = rnd and w = w and r = r] by (elim exE conjE)
  then have step: "math_loop th rnd n off i w r =
      (if v \<noteq> a + b then Some (Exit EXIT_FAILURE, w', r') else math_loop th rnd n off (i + 1) w' r')"
    using Suc.prems by (simp add: word_less_nat_alt)
  show ?case
  proof (cases "v = a + b")
    case True
    have "unat (i + 1) + m = unat n + 1" using Suc.prems assms(5) by (simp add: unat_word_ariths)
    from Suc.IH [OF this] obtain f w2 r2 runs where
      "math_loop th rnd n off (i + 1) w' r' = Some (f, w2, r2)"
      "follows log w' (concat (map (math_log addr off) runs)) w2" "test_verdict (\<lambda>(a, b, v). v = a + b) m runs f"
      by blast
    then show ?thesis
      using True step follows_trans [OF log] test_verdict_Cons [of "\<lambda>(a, b, v). v = a + b" "(a, b, v)" m runs f]
      by (intro exI [of _ f] exI [of _ w2] exI [of _ r2] exI [of _ "(a, b, v) # runs"]) simp
  next
    case False
    then show ?thesis
      using step log test_verdict_bad [of "\<lambda>(a, b, v). v = a + b" "(a, b, v)" m]
      by (intro exI [of _ "Exit EXIT_FAILURE"] exI [of _ w'] exI [of _ r'] exI [of _ "[(a, b, v)]"]) simp
  qed
qed

lemma math_persona:
  assumes "ok (PR_CONTROL_REGISTER + off)" "ok (PR_OPERAND + off)" "ok (PR_INCR + off)" "ok (PR_RESULT + off)"
    and "n \<noteq> - 1"
  shows "\<exists>f w' r' runs. do_basic_math_persona th rnd n off w r = Some (f, w', r') \<and>
    follows log w (reset_log (addr (PR_CONTROL_REGISTER + off)) @ concat (map (math_log addr off) runs)) w' \<and>
    test_verdict (\<lambda>(a, b, v). v = a + b) (unat n) runs f"
proof -
  have "unat (- 1 :: u32) = 2 ^ 32 - 1" by (simp add: unsigned_minus_1_eq_mask mask_eq_exp_minus_1)
  moreover have "unat n < 2 ^ 32" by (rule order_less_le_trans [OF unsigned_less]) simp
  ultimately have "unat n < 2 ^ 32 - 1" using assms(5) by (simp add: word_unat_eq_iff)
  then have "unat n + 1 < 2 ^ 32" by simp
  from math_rounds [OF assms(1-4) this, of 1 "unat n" rnd "reset_pr_logic th off w" r] show ?thesis
    using follows_trans [OF follows_reset [OF assms(1)]] unfolding do_basic_math_persona_def by fastforce
qed

lemma gol_persona:
  assumes run: "do_gol_persona th rnd n off w r = Some (f, w', r')"
    and ok: "ok (PR_CONTROL_REGISTER + off)" "ok (GOL_TOP_HALF + off)" "ok (GOL_BOT_HALF + off)"
      "ok (GOL_COUNTER_LIMIT_ADDRESS + off)" "ok (GOL_BUSY_REG + off)" "ok (GOL_TOP_END + off)" "ok (GOL_BOT_END + off)"
  shows "\<exists>hi lo hi' lo'. follows log w (gol_log addr off n hi lo hi' lo') w' \<and>
    f = (if cells (board_of hi' lo') = (life ^^ unat n) (cells (board_of hi lo)) then Return 0 else Exit EXIT_FAILURE)"
proof -
  let ?c = "PR_CONTROL_REGISTER + off"
  let ?w = "reset_pr_logic th off w"
  from run obtain hi lo r1 w7 where acc: "run_gol_accelerated th hi lo n off ?w = Some w7"
    and rest: "(let w = reset_pr_logic th off w7; (_, hi', w) = read_u32 th (GOL_TOP_END + off) 0 w;
       (_, lo', w) = read_u32 th (GOL_BOT_END + off) 0 w
       in case run_gol_verify (board_of hi lo) n of None \<Rightarrow> Some (Exit EXIT_FAILURE, w, r1)
        | Some h \<Rightarrow> Some (if check_result_64 h (board_of hi' lo') \<noteq> 0 then Exit EXIT_FAILURE else Return 0, w, r1)) =
       Some (f, w', r')"
    by (auto simp: do_gol_persona_def Let_def bind_eq_Some_conv)
  obtain e1 w1 where 1: "write_u32 th (GOL_TOP_HALF + off) hi ?w = (e1, w1)" by fastforce
  obtain e2 w2 where 2: "write_u32 th (GOL_BOT_HALF + off) lo w1 = (e2, w2)" by fastforce
  obtain e3 w3 where 3: "write_u32 th (GOL_COUNTER_LIMIT_ADDRESS + off) n w2 = (e3, w3)" by fastforce
  obtain e4 w4 where 4: "write_u32 th ?c 0 w3 = (e4, w4)" by fastforce
  obtain e5 w5 where 5: "write_u32 th ?c 2 w4 = (e5, w5)" by fastforce
  obtain e6 w6 where 6: "write_u32 th ?c 0 w5 = (e6, w6)" by fastforce
  have wait: "wait_while_busy th (GOL_BUSY_REG + off) w6 = Some w7"
    using acc by (simp add: run_gol_accelerated_def GOL_START_MASK_def 1 2 3 4 5 6)
  obtain e7 hi' w8 where 7: "read_u32 th (GOL_TOP_END + off) 0 (reset_pr_logic th off w7) = (e7, hi', w8)"
    by (metis prod_cases3)
  obtain e8 lo' w9 where 8: "read_u32 th (GOL_BOT_END + off) 0 w8 = (e8, lo', w9)" by (metis prod_cases3)
  note start = follows_write [OF follows_write [OF follows_write [OF follows_reset [OF ok(1)] 1 ok(2)] 2 ok(3)] 3 ok(4)]
  note go = follows_write [OF follows_write [OF follows_write [OF start 4 ok(1)] 5 ok(1)] 6 ok(1)]
  note busy = follows_trans [OF follows_trans [OF go follows_busy [OF wait ok(5)]] follows_reset [OF ok(1)]]
  have "follows log w (gol_log addr off n hi lo hi' lo') w9"
    using follows_read [OF follows_read [OF busy 7 ok(6)] 8 ok(7)] by (simp add: gol_log_def Let_def)
  moreover obtain h where "run_gol_verify (board_of hi lo) n = Some h"
    "cells h = (life ^^ unat n) (cells (board_of hi lo))" using verify_life by blast
  with rest 7 8 have "w' = w9" "f = (if cells (board_of hi' lo') = (life ^^ unat n) (cells (board_of hi lo))
      then Return 0 else Exit EXIT_FAILURE)"
    using cells_inject [of "board_of hi' lo'" h] by (auto simp: Let_def check_result_64_def split: if_splits)
  ultimately show ?thesis by blast
qed

end

section \<open>An adder and an accelerator, for the witnesses\<close>

text \<open>
  A region with an adder at \<open>0x50000\<close>; its state are the two operands. It is busy never, and as an
  accelerator it would leave the empty board empty.
\<close>

definition demo_adder :: "(u32 \<times> u32) bus" where
  "demo_adder = \<lparr>bus_read = (\<lambda>a (x, y). (if a = 0x50020 then x + y else 0, (x, y))),
     bus_write = (\<lambda>a v (x, y). if a = 0x500a0 then (v, y) else if a = 0x500b0 then (x, v) else (x, y)),
     bus_wait = (\<lambda>_ s. s)\<rparr>"

definition demo_accel :: "unit bus" where
  "demo_accel = \<lparr>bus_read = (\<lambda>a s. (0, s)), bus_write = (\<lambda>a v s. s), bus_wait = (\<lambda>_ s. s)\<rparr>"

text \<open>Random numbers that are not.\<close>

definition demo_rand :: "u32 \<Rightarrow> u32 \<times> u32" where
  "demo_rand r = (r, r + 5)"

section \<open>Properties\<close>

text \<open>
  The test of the adder. For any number of runs below the largest 32 bit integer the test ends. It makes
  one reset and then, for each run, a reset, the writes of the two operands and a read of the result,
  and no other access. It passes exactly when all the values read are the sums of the operands, modulo
  two to the 32, in all the runs asked for; at the first one that is not, the program exits with 1.
  This holds over the ioctls of the driver and over a UIO mapping that has the registers.
\<close>

theorem math_persona_verdict:
  fixes w :: "'h world"
  assumes "n \<noteq> - 1"
    and "th = pr_handle (card_fd b ops fs buf0 priv) junk \<and> addr = pr_region priv \<or>
      th = uio_device_handle c (Some h) \<and> addr = (\<lambda>reg. uio_iomem h + ucast reg) \<and>
      list_all (\<lambda>reg. reg + off < word_of_int (uio_size h)) [PR_CONTROL_REGISTER, PR_OPERAND, PR_INCR, PR_RESULT]"
  shows "\<exists>f w' r' runs. do_basic_math_persona th rnd n off w r = Some (f, w', r') \<and>
    follows trace w (reset_log (addr (PR_CONTROL_REGISTER + off)) @ concat (map (math_log addr off) runs)) w' \<and>
    test_verdict (\<lambda>(a, b, v). v = a + b) (unat n) runs f"
proof -
  obtain ok where "register_port th addr ok trace" "ok (PR_CONTROL_REGISTER + off)" "ok (PR_OPERAND + off)"
    "ok (PR_INCR + off)" "ok (PR_RESULT + off)"
    using assms(2) pr_port.register_port_axioms uio_access.register_port_axioms by (elim disjE) force+
  from register_port.math_persona [OF this assms(1)] show ?thesis .
qed

theorem math_persona_verdict_witness:
  "\<exists>f w' r' runs. do_basic_math_persona (uio_device_handle demo_adder (Some demo_uio)) demo_rand 2 0
      \<lparr>dev = (0, 0), trace = []\<rparr> 7 = Some (f, w', r') \<and> test_verdict (\<lambda>(a, b, v :: u32). v = a + b) 2 runs f"
  using math_persona_verdict [of 2 "uio_device_handle demo_adder (Some demo_uio)" _ _ _ _ _ _ "\<lambda>reg. uio_iomem demo_uio + ucast reg"
      demo_adder demo_uio 0 demo_rand "\<lparr>dev = (0, 0), trace = []\<rparr>" 7]
  by (auto simp: demo_uio_def const_defs)

text \<open>
  The test of the Game of Life accelerator. When it ends, it has reset the region, written the two halves of
  a board and the number of generations, pulsed the start bit, read the busy register until it was 0,
  reset the region again and read the two halves of the result, and nothing else; and it passes exactly
  when the board it read is the one it wrote, after that many generations of the Game of Life. Else the
  program exits with 1.
\<close>

theorem gol_persona_verdict:
  fixes w w' :: "'h world"
  assumes "do_gol_persona th rnd n off w r = Some (f, w', r')"
    and "th = pr_handle (card_fd b ops fs buf0 priv) junk \<and> addr = pr_region priv \<or>
      th = uio_device_handle c (Some h) \<and> addr = (\<lambda>reg. uio_iomem h + ucast reg) \<and>
      list_all (\<lambda>reg. reg + off < word_of_int (uio_size h)) [PR_CONTROL_REGISTER, GOL_TOP_HALF, GOL_BOT_HALF,
        GOL_COUNTER_LIMIT_ADDRESS, GOL_BUSY_REG, GOL_TOP_END, GOL_BOT_END]"
  shows "\<exists>hi lo hi' lo'. follows trace w (gol_log addr off n hi lo hi' lo') w' \<and>
    f = (if cells (board_of hi' lo') = (life ^^ unat n) (cells (board_of hi lo)) then Return 0 else Exit EXIT_FAILURE)"
proof -
  obtain ok where "register_port th addr ok trace" "ok (PR_CONTROL_REGISTER + off)" "ok (GOL_TOP_HALF + off)"
    "ok (GOL_BOT_HALF + off)" "ok (GOL_COUNTER_LIMIT_ADDRESS + off)" "ok (GOL_BUSY_REG + off)" "ok (GOL_TOP_END + off)"
    "ok (GOL_BOT_END + off)"
    using assms(2) pr_port.register_port_axioms uio_access.register_port_axioms by (elim disjE) force+
  from register_port.gol_persona [OF this(1) assms(1) this(2-)] show ?thesis .
qed

theorem gol_persona_verdict_witness:
  "\<exists>w'. do_gol_persona (uio_device_handle demo_accel (Some demo_uio)) (\<lambda>r. (0, r)) 3 0 \<lparr>dev = (), trace = []\<rparr> () =
     Some (Return 0, w', ()) \<and> (\<exists>hi lo hi' lo'. cells (board_of hi' lo') = (life ^^ 3) (cells (board_of hi lo)))"
proof -
  have "run_gol_verify 0 3 = Some 0" by code_simp
  then obtain w' where 1: "do_gol_persona (uio_device_handle demo_accel (Some demo_uio)) (\<lambda>r. (0, r)) 3 0 \<lparr>dev = (), trace = []\<rparr> () =
     Some (Return 0, w', ())"
    by (simp add: do_gol_persona_def generate_random_number.simps reset_pr_logic_def run_gol_accelerated_def
        wait_while_busy_def do_while_unfold uio_device_handle_def uio_read_u32_def uio_write_u32_def demo_uio_def
        demo_accel_def readl_def writel_def check_result_64_def const_defs)
  from gol_persona_verdict [OF 1, of _ _ _ _ _ _ "\<lambda>reg. uio_iomem demo_uio + ucast reg" demo_accel demo_uio] 1 show ?thesis
    by (auto simp: demo_uio_def const_defs split: if_splits)
qed

text \<open>
  A parent persona with one child region that holds an unknown persona passes when the other child passes:
  the program takes the bitwise conjunction of the two return values, and that of -22 and 0 is 0.
\<close>

lemma unknown_child_passes:
  assumes "read_u32 th (PR_PERSONA_ID + HPR_A_CHILD_0) 0 w = (e, x, w1)"
    and "read_u32 th (PR_PERSONA_ID + HPR_A_CHILD_1) 0 w1 = (e', y, w2)"
    and "x \<notin> {PERSONA_ID_BASIC_ARITHMETIC, PERSONA_ID_BASIC_DSP, PERSONA_ID_DDR4_ACCESS, PERSONA_ID_GOL_ACCELERATOR}"
    and "run_persona th rnd seed n HPR_A_CHILD_1 y w2 r = Some (Return 0, w3, r')"
  shows "do_hpr_config_a th rnd seed n w r = Some (Return 0, w3, r')"
  using assms by (simp add: do_hpr_config_a_def run_persona_def)

end
