(* ===== verification/Host_A10.thy ===== *)
theory Host_A10
  imports Host_Tests
begin

text \<open>
  The host programs of the Arria 10 designs. The one for the design with hierarchical reconfiguration
  (\<open>ref_designs/a10_pcie_devkit_cvp_hpr/software/util/example_host_uio.c\<close>) makes the tests of the
  Stratix 10 program over a UIO mapping. The one for the design without it
  (\<open>ref_designs/a10_pcie_devkit_cvp/software/util/example_host_uio.c\<close>) makes them over the ioctls of the
  PCIe driver at region offset 0; its memory test loads the seed twice, and it has its own Game of Life.
  The functions that have the same text share the definitions.
\<close>

section \<open>The program over UIO\<close>

text \<open>\<open>None\<close>: the search for the device does not end; \<open>Some None\<close>: the program leaves with its usage message.\<close>

fun uio_parse_options ::
  "(nat \<Rightarrow> string option option) \<Rightarrow> host_option list \<Rightarrow> u32 \<times> u32 \<times> u32 \<times> int \<Rightarrow> (u32 \<times> u32 \<times> u32 \<times> int) option option" where
  "uio_parse_options names [] s = Some (Some s)"
| "uio_parse_options names (Opt_v # os) (verbose, runs, seed, uio_num) = uio_parse_options names os (1, runs, seed, uio_num)"
| "uio_parse_options names (Opt_h # os) s = Some None"
| "uio_parse_options names (Opt_n a # os) (verbose, runs, seed, uio_num) =
     uio_parse_options names os (verbose, word_of_int (strtol10 a), seed, uio_num)"
| "uio_parse_options names (Opt_s a # os) (verbose, runs, seed, uio_num) =
     uio_parse_options names os (verbose, runs, word_of_int (strtol10 a), uio_num)"
| "uio_parse_options names (Opt_d a # os) (verbose, runs, seed, uio_num) = do {
     uio_num \<leftarrow> uio_find_dev_num names (Some a);
     uio_parse_options names os (verbose, runs, seed, uio_num)
   }"
| "uio_parse_options names (Opt_invalid # os) s = Some None"

text \<open>
  The exit status and the log of what the program takes and gives back. \<open>junk\<close> is the value of the
  identity of the persona before it is read.
\<close>

definition uio_host_main ::
  "('h, 'z) bus_scheme \<Rightarrow> (nat \<Rightarrow> string option option) \<Rightarrow> uio_system \<Rightarrow> u32 \<Rightarrow> (u32 \<Rightarrow> 'r) \<Rightarrow> ('r \<Rightarrow> u32 \<times> 'r) \<Rightarrow>
   host_option list \<Rightarrow> 'h world \<Rightarrow> (int \<times> 'h world \<times> user_event list) option" where
  "uio_host_main b names sys junk srand rnd opts w = do {
     parsed \<leftarrow> uio_parse_options names opts (0, 3, 1, - 1);
     case parsed of
       None \<Rightarrow> Some (0, w, [])
     | Some (verbose, number_of_runs, seed, uio_num) \<Rightarrow>
         let r = srand seed in
         if uio_num < 0 then Some (0, w, [])
         else let (uioh, log) = uio_open sys uio_num [] in
           case uioh of
             None \<Rightarrow> Some (0, w, log)
           | Some h \<Rightarrow> do {
               let th = uio_device_handle b uioh;
               let (_, data, w) = read_u32 th PR_PERSONA_ID junk w;
               (f, w, r) \<leftarrow>
                 (if data = PERSONA_ID_HPR_PARENT_ALPHA then do_hpr_config_a th rnd seed number_of_runs w r
                  else run_persona th rnd seed number_of_runs 0 data w r);
               Some (case f of Exit c \<Rightarrow> (c, w, log) | Return ret \<Rightarrow> (ret, w, uio_close h log))
             }
   }"

section \<open>The program for the design without hierarchy\<close>

partial_function (option) cvp_ddr4_loop ::
    "'w device_handle \<Rightarrow> ('r \<Rightarrow> u32 \<times> 'r) \<Rightarrow> u32 \<Rightarrow> u32 \<Rightarrow> u32 \<Rightarrow> 'w \<Rightarrow> 'r \<Rightarrow> (finish \<times> 'w \<times> 'r) option" where
  [code]: "cvp_ddr4_loop th rnd seed number_of_runs i w r =
    (if i > number_of_runs then Some (Return 0, w, r)
     else do {
       let w = reset_pr_logic th 0 w;
       let (_, w) = write_u32 th DDR4_SEED_ADDRESS seed w;
       let (_, w) = write_u32 th PR_CONTROL_REGISTER (push_bit DDR4_LOAD_SEED_MASK 1) w;
       let (_, w) = write_u32 th PR_CONTROL_REGISTER (push_bit DDR4_LOAD_SEED_MASK 1) w;
       let (_, data, w) = read_u32 th DDR4_SEED_ADDRESS 0 w;
       if data \<noteq> seed then Some (Exit EXIT_FAILURE, w, r)
       else do {
         (base_address, final_offset, r) \<leftarrow> ddr4_range rnd r;
         w \<leftarrow> run_ddr4_address_sweep th base_address final_offset 1 0 w;
         let (_, data, w) = read_u32 th PERFORMANCE_COUNTER 0 w;
         if data \<noteq> final_offset + 1 then Some (Exit EXIT_FAILURE, w, r)
         else cvp_ddr4_loop th rnd seed number_of_runs (i + 1) w r
       }
     })"

definition cvp_do_ddr4_access_persona ::
  "'w device_handle \<Rightarrow> ('r \<Rightarrow> u32 \<times> 'r) \<Rightarrow> u32 \<Rightarrow> u32 \<Rightarrow> 'w \<Rightarrow> 'r \<Rightarrow> (finish \<times> 'w \<times> 'r) option" where
  "cvp_do_ddr4_access_persona th rnd seed number_of_runs w r =
     (let w = reset_pr_logic th 0 w;
          (_, data, w) = read_u32 th DDR4_CAL_OFFSET 0 w
      in if data \<noteq> 2 then Some (Exit EXIT_FAILURE, w, r)
         else cvp_ddr4_loop th rnd seed number_of_runs 1 w r)"

definition cvp_do_gol_persona ::
  "'w device_handle \<Rightarrow> ('r \<Rightarrow> u32 \<times> 'r) \<Rightarrow> u32 \<Rightarrow> 'w \<Rightarrow> 'r \<Rightarrow> (finish \<times> 'w \<times> 'r) option" where
  "cvp_do_gol_persona th rnd number_of_runs w r = do {
     let w = reset_pr_logic th 0 w;
     (top_half, bottom_half, r) \<leftarrow> generate_random_number rnd 32 r;
     w \<leftarrow> run_gol_accelerated th top_half bottom_half number_of_runs 0 w;
     let w = reset_pr_logic th 0 w;
     let (_, top_half_final, w) = read_u32 th GOL_TOP_END 0 w;
     let (_, bottom_half_final, w) = read_u32 th GOL_BOT_END 0 w;
     let accelerated_result = board_of top_half_final bottom_half_final;
     case cvp_run_gol_verify (board_of top_half bottom_half) number_of_runs of
       None \<Rightarrow> Some (Exit EXIT_FAILURE, w, r)
     | Some host_generated_result \<Rightarrow>
         Some (if check_result_64 host_generated_result accelerated_result \<noteq> 0 then Exit EXIT_FAILURE else Return 0, w, r)
   }"

definition cvp_host_main ::
  "'w device_handle \<Rightarrow> bool \<Rightarrow> (u32 \<Rightarrow> 'r) \<Rightarrow> ('r \<Rightarrow> u32 \<times> 'r) \<Rightarrow> host_option list \<Rightarrow> 'w \<Rightarrow> (int \<times> 'w) option" where
  "cvp_host_main th open_ok srand rnd opts w =
     (if \<not> open_ok then Some (2, w)
      else case parse_options opts (0, 3, 1) of
          None \<Rightarrow> Some (0, w)
        | Some (verbose, number_of_runs, seed) \<Rightarrow> do {
            let r = srand seed;
            let (_, persona_id, w) = read_u32 th PR_PERSONA_ID 0 w;
            (f, w, r) \<leftarrow>
              (if persona_id = PERSONA_ID_BASIC_ARITHMETIC then do_basic_math_persona th rnd number_of_runs 0 w r
               else if persona_id = PERSONA_ID_BASIC_DSP then do_basic_dsp_persona th rnd number_of_runs 0 w r
               else if persona_id = PERSONA_ID_DDR4_ACCESS then cvp_do_ddr4_access_persona th rnd seed number_of_runs w r
               else if persona_id = PERSONA_ID_GOL_ACCELERATOR then cvp_do_gol_persona th rnd number_of_runs w r
               else Some (Return EINVAL, w, r));
            Some (case f of Exit c \<Rightarrow> c | Return ret \<Rightarrow> ret, w)
          })"

end
