(* ===== verification/Host_Verdict.thy ===== *)
theory Host_Verdict
  imports Host_A10
begin

text \<open>
  What an exit status of 0 of the host programs means: the persona that was found has passed its test,
  in all the runs asked for.
\<close>

section \<open>Loops over runs\<close>

text \<open>
  The loops of the tests over the runs: a round is good or leaves the program. \<open>run_log x\<close> is what a round
  with the values \<open>x\<close> does to the registers.
\<close>

locale test_loop =
  fixes loop :: "u32 \<Rightarrow> 'w \<Rightarrow> 'r \<Rightarrow> (finish \<times> 'w \<times> 'r) option"
    and round :: "'w \<Rightarrow> 'r \<Rightarrow> (bool \<times> 'w \<times> 'r) option"
    and n :: u32
    and log :: "'w \<Rightarrow> io_event list"
    and run_log :: "'a \<Rightarrow> (io_event list \<Rightarrow> bool) list"
    and good :: "'a \<Rightarrow> bool"
  assumes loop_round: "loop i w r =
      (if i > n then Some (Return 0, w, r)
       else do { (b, w, r) \<leftarrow> round w r; if b then loop (i + 1) w r else Some (Exit EXIT_FAILURE, w, r) })"
    and round_log: "round w r = Some (b, w', r') \<Longrightarrow> \<exists>x. follows log w (run_log x) w' \<and> (b \<longleftrightarrow> good x)"
begin

lemma rounds:
  assumes "n \<noteq> - 1" "unat i + m = unat n + 1" "loop i w r = Some (f, w', r')"
  shows "\<exists>runs. follows log w (concat (map run_log runs)) w' \<and> test_verdict good m runs f"
  using assms(2,3)
proof (induction m arbitrary: i w r)
  case 0
  then have "f = Return 0" "w' = w" using loop_round [of i w r] by (auto simp: word_less_nat_alt)
  then show ?case by (intro exI [of _ "[]"]) (simp add: follows_Nil test_verdict_def)
next
  case (Suc m)
  have "unat n < 2 ^ 32" by (rule order_less_le_trans [OF unsigned_less]) simp
  moreover have "unat (- 1 :: u32) = 2 ^ 32 - 1" by (simp add: unsigned_minus_1_eq_mask mask_eq_exp_minus_1)
  ultimately have small: "unat n + 1 < 2 ^ 32" using assms(1) by (auto simp: word_unat_eq_iff)
  have "\<not> i > n" using Suc.prems(1) by (simp add: word_less_nat_alt)
  then obtain b w1 r1 where 1: "round w r = Some (b, w1, r1)"
    and 2: "(if b then loop (i + 1) w1 r1 else Some (Exit EXIT_FAILURE, w1, r1)) = Some (f, w', r')"
    using Suc.prems(2) loop_round [of i w r] by (auto simp: bind_eq_Some_conv)
  obtain x where x: "follows log w (run_log x) w1" "b \<longleftrightarrow> good x" using round_log [OF 1] by blast
  show ?case
  proof (cases b)
    case True
    have "unat (i + 1) + m = unat n + 1" using Suc.prems(1) small by (simp add: unat_word_ariths)
    from Suc.IH [OF this, of w1 r1] 2 True obtain runs where
      "follows log w1 (concat (map run_log runs)) w'" "test_verdict good m runs f" by auto
    then show ?thesis using x True follows_trans [OF x(1)] test_verdict_Cons [of good x m runs f]
      by (intro exI [of _ "x # runs"]) simp
  next
    case False
    then show ?thesis using x 2 test_verdict_bad [of good x m] by (intro exI [of _ "[x]"]) simp
  qed
qed

lemma verdict:
  assumes "n \<noteq> - 1" "loop 1 w r = Some (f, w', r')"
  shows "\<exists>runs. follows log w (concat (map run_log runs)) w' \<and> test_verdict good (unat n) runs f"
  using rounds [OF assms(1) _ assms(2), of "unat n"] by simp

end

section \<open>The rounds of the tests\<close>

definition dsp_log :: "(u32 \<Rightarrow> u64) \<Rightarrow> u32 \<Rightarrow> u32 \<times> u32 \<times> u32 \<times> u32 \<Rightarrow> (io_event list \<Rightarrow> bool) list" where
  "dsp_log addr off = (\<lambda>(a, b, hi, lo). reset_log (addr (PR_CONTROL_REGISTER + off)) @
     [wrote (addr (PR_OPERAND + off)) a, wrote (addr (PR_INCR + off)) b,
      read_as (addr (PR_HOST_REGISTER_1 + off)) hi, read_as (addr (PR_HOST_REGISTER_0 + off)) lo])"

definition dsp_good :: "u32 \<times> u32 \<times> u32 \<times> u32 \<Rightarrow> bool" where
  "dsp_good = (\<lambda>(a, b, hi, lo). unat hi * 2 ^ 32 + unat lo = unat a * unat b)"

text \<open>
  A run of the memory test loads the seed with \<open>k\<close> writes to the control register and reads it back, \<open>s\<close>;
  then it sweeps over \<open>len + 1\<close> addresses from \<open>base\<close> and reads how many writes were right.
\<close>

datatype ddr4_run = Seed_lost u32 | Swept u32 u32 u32

definition ddr4_log :: "nat \<Rightarrow> (u32 \<Rightarrow> u64) \<Rightarrow> u32 \<Rightarrow> u32 \<Rightarrow> ddr4_run \<Rightarrow> (io_event list \<Rightarrow> bool) list" where
  "ddr4_log k addr off seed x = (let ctl = addr (PR_CONTROL_REGISTER + off) in
     reset_log ctl @ [wrote (addr (DDR4_SEED_ADDRESS + off)) seed] @ replicate k (wrote ctl 2) @
     (case x of
        Seed_lost s \<Rightarrow> [read_as (addr (DDR4_SEED_ADDRESS + off)) s]
      | Swept base len cnt \<Rightarrow>
          [read_as (addr (DDR4_SEED_ADDRESS + off)) seed,
           wrote (addr (DDR4_MEM_ADDRESS + off)) base, wrote (addr (DDR4_FINAL_OFFSET + off)) len,
           wrote ctl 12, wrote ctl 8, busy_poll (addr (DDR4_BUSY_REGISTER + off)),
           read_as (addr (PERFORMANCE_COUNTER + off)) cnt]))"

definition ddr4_good :: "ddr4_run \<Rightarrow> bool" where
  "ddr4_good x = (case x of Seed_lost s \<Rightarrow> False | Swept base len cnt \<Rightarrow> cnt = len + 1)"

lemma check_product:
  "check_result_64 (ucast a * ucast b) (push_bit 32 (ucast hi) + ucast lo) \<noteq> 0 \<longleftrightarrow> \<not> dsp_good (a, b, hi, lo)"
proof -
  have ab: "unat a < 2 ^ 32" "unat b < 2 ^ 32" "unat hi < 2 ^ 32" "unat lo < 2 ^ 32"
    by (rule order_less_le_trans [OF unsigned_less], simp)+
  have up: "unat (ucast x :: u64) = unat x" for x :: u32
  proof -
    have "unat x < 2 ^ 32" by (rule order_less_le_trans [OF unsigned_less]) simp
    then have "unat x < 2 ^ 64" by simp
    then show ?thesis by (simp add: unsigned_ucast_eq take_bit_nat_eq_self)
  qed
  have "unat a * unat b < 2 ^ 32 * 2 ^ 32" by (rule mult_strict_mono [OF ab(1,2)]) auto
  then have prod: "unat (ucast a * ucast b :: u64) = unat a * unat b"
    by (simp add: unat_word_ariths up)
  have "unat hi * 2 ^ 32 + unat lo < 2 ^ 64" using ab(3,4) by simp
  then have "unat (push_bit 32 (ucast hi) + ucast lo :: u64) = unat hi * 2 ^ 32 + unat lo"
    using ab(3,4) by (simp add: unat_word_ariths unsigned_ucast_eq unsigned_push_bit_eq push_bit_eq_mult take_bit_eq_mod)
  with prod show ?thesis by (simp add: check_result_64_def dsp_good_def word_unat_eq_iff)
qed

text \<open>One round of each test, as the loops make it.\<close>

definition dsp_round ::
  "'w device_handle \<Rightarrow> ('r \<Rightarrow> u32 \<times> 'r) \<Rightarrow> u32 \<Rightarrow> 'w \<Rightarrow> 'r \<Rightarrow> (bool \<times> 'w \<times> 'r) option" where
  "dsp_round th rnd off w r = do {
     let w = reset_pr_logic th off w;
     (a, b, r) \<leftarrow> generate_random_number rnd DSP_INPUT_SIZE r;
     let (_, w) = write_u32 th (PR_OPERAND + off) a w;
     let (_, w) = write_u32 th (PR_INCR + off) b w;
     let (_, hi, w) = read_u32 th (PR_HOST_REGISTER_1 + off) 0 w;
     let (_, lo, w) = read_u32 th (PR_HOST_REGISTER_0 + off) hi w;
     Some (check_result_64 (ucast a * ucast b) (push_bit 32 (ucast hi) + ucast lo) = 0, w, r)
   }"

lemma dsp_loop_round:
  "dsp_loop th rnd n off i w r =
    (if i > n then Some (Return 0, w, r)
     else do { (b, w, r) \<leftarrow> dsp_round th rnd off w r;
       if b then dsp_loop th rnd n off (i + 1) w r else Some (Exit EXIT_FAILURE, w, r) })"
  by (subst dsp_loop.simps, cases "generate_random_number rnd DSP_INPUT_SIZE r")
    (auto simp: dsp_round_def Let_def case_prod_beta)

definition pulses :: "'w device_handle \<Rightarrow> u32 \<Rightarrow> nat \<Rightarrow> 'w \<Rightarrow> 'w" where
  "pulses th off k = (\<lambda>w. snd (write_u32 th (PR_CONTROL_REGISTER + off) (push_bit DDR4_LOAD_SEED_MASK 1) w)) ^^ k"

definition ddr4_round ::
  "nat \<Rightarrow> 'w device_handle \<Rightarrow> ('r \<Rightarrow> u32 \<times> 'r) \<Rightarrow> u32 \<Rightarrow> u32 \<Rightarrow> 'w \<Rightarrow> 'r \<Rightarrow> (bool \<times> 'w \<times> 'r) option" where
  "ddr4_round k th rnd seed off w r = do {
     let w = reset_pr_logic th off w;
     let (_, w) = write_u32 th (DDR4_SEED_ADDRESS + off) seed w;
     let (_, s, w) = read_u32 th (DDR4_SEED_ADDRESS + off) 0 (pulses th off k w);
     if s \<noteq> seed then Some (False, w, r)
     else do {
       (base, len, r) \<leftarrow> ddr4_range rnd r;
       w \<leftarrow> run_ddr4_address_sweep th base len 1 off w;
       let (_, cnt, w) = read_u32 th (PERFORMANCE_COUNTER + off) 0 w;
       Some (cnt = len + 1, w, r)
     }
   }"

lemma ddr4_loop_round:
  "ddr4_loop th rnd seed n off i w r =
    (if i > n then Some (Return 0, w, r)
     else do { (b, w, r) \<leftarrow> ddr4_round 1 th rnd seed off w r;
       if b then ddr4_loop th rnd seed n off (i + 1) w r else Some (Exit EXIT_FAILURE, w, r) })"
  by (subst ddr4_loop.simps, cases "ddr4_range rnd r")
    (auto simp: ddr4_round_def pulses_def Let_def case_prod_beta split: bind_splits)

lemma cvp_ddr4_loop_round:
  "cvp_ddr4_loop th rnd seed n i w r =
    (if i > n then Some (Return 0, w, r)
     else do { (b, w, r) \<leftarrow> ddr4_round 2 th rnd seed 0 w r;
       if b then cvp_ddr4_loop th rnd seed n (i + 1) w r else Some (Exit EXIT_FAILURE, w, r) })"
  by (subst cvp_ddr4_loop.simps, cases "ddr4_range rnd r")
    (auto simp: ddr4_round_def pulses_def numeral_2_eq_2 Let_def case_prod_beta split: bind_splits)

text \<open>The registers of a region that the tests use.\<close>

definition has_registers :: "(u32 \<Rightarrow> bool) \<Rightarrow> u32 \<Rightarrow> bool" where
  "has_registers ok off \<longleftrightarrow> list_all (\<lambda>x. ok (x + off))
     [PR_CONTROL_REGISTER, HOST_PR_REGISTER_0, HOST_PR_REGISTER_1, HOST_PR_REGISTER_2,
      PR_HOST_REGISTER_0, PR_HOST_REGISTER_1, PR_HOST_REGISTER_2]"

lemmas register_names = PR_OPERAND_def PR_INCR_def PR_RESULT_def DDR4_MEM_ADDRESS_def DDR4_SEED_ADDRESS_def
  DDR4_FINAL_OFFSET_def PERFORMANCE_COUNTER_def DDR4_BUSY_REGISTER_def GOL_COUNTER_LIMIT_ADDRESS_def
  GOL_TOP_HALF_def GOL_BOT_HALF_def GOL_BUSY_REG_def GOL_TOP_END_def GOL_BOT_END_def

context register_port
begin

lemma dsp_round_log:
  assumes "has_registers ok off" "dsp_round th rnd off w r = Some (b, w', r')"
  shows "\<exists>x. follows log w (dsp_log addr off x) w' \<and> (b \<longleftrightarrow> dsp_good x)"
proof -
  have ok: "ok (PR_CONTROL_REGISTER + off)" "ok (PR_OPERAND + off)" "ok (PR_INCR + off)" "ok (PR_HOST_REGISTER_1 + off)"
    "ok (PR_HOST_REGISTER_0 + off)" using assms(1) by (simp_all add: has_registers_def register_names)
  obtain x y r1 where g: "generate_random_number rnd DSP_INPUT_SIZE r = Some (x, y, r1)"
    using assms(2) by (auto simp: dsp_round_def Let_def bind_eq_Some_conv)
  obtain r2 w2 where 2: "write_u32 th (PR_OPERAND + off) x (reset_pr_logic th off w) = (r2, w2)" by fastforce
  obtain r3 w3 where 3: "write_u32 th (PR_INCR + off) y w2 = (r3, w3)" by fastforce
  obtain r4 hi w4 where 4: "read_u32 th (PR_HOST_REGISTER_1 + off) 0 w3 = (r4, hi, w4)" by (metis prod_cases3)
  obtain r5 lo w5 where 5: "read_u32 th (PR_HOST_REGISTER_0 + off) hi w4 = (r5, lo, w5)" by (metis prod_cases3)
  have "follows log w (dsp_log addr off (x, y, hi, lo)) w5"
    using follows_read [OF follows_read [OF follows_write [OF follows_write [OF follows_reset [OF ok(1)] 2 ok(2)] 3 ok(3)]
      4 ok(4)] 5 ok(5)] by (simp add: dsp_log_def)
  moreover have "w' = w5" "b \<longleftrightarrow> dsp_good (x, y, hi, lo)"
    using assms(2) check_product [of x y hi lo] by (auto simp: dsp_round_def g 2 3 4 5)
  ultimately show ?thesis by blast
qed

lemma follows_pulses:
  assumes "follows log w Ps w'" "ok (PR_CONTROL_REGISTER + off)"
  shows "follows log w (Ps @ replicate k (wrote (addr (PR_CONTROL_REGISTER + off)) 2)) (pulses th off k w')"
proof (induction k)
  case 0
  then show ?case using assms(1) by (simp add: pulses_def)
next
  case (Suc k)
  obtain e w1 where 1: "write_u32 th (PR_CONTROL_REGISTER + off) 2 (pulses th off k w') = (e, w1)" by fastforce
  have "pulses th off (Suc k) w' = w1" using 1 by (simp add: pulses_def DDR4_LOAD_SEED_MASK_def)
  then show ?case using follows_write [OF Suc 1 assms(2)] by (simp add: replicate_append_same)
qed

lemma follows_sweep:
  assumes "follows log w Ps w1" "run_ddr4_address_sweep th base len 1 off w1 = Some w'" "has_registers ok off"
  shows "follows log w (Ps @ [wrote (addr (DDR4_MEM_ADDRESS + off)) base, wrote (addr (DDR4_FINAL_OFFSET + off)) len,
    wrote (addr (PR_CONTROL_REGISTER + off)) 12, wrote (addr (PR_CONTROL_REGISTER + off)) 8,
    busy_poll (addr (DDR4_BUSY_REGISTER + off))]) w'"
proof -
  have ok: "ok (PR_CONTROL_REGISTER + off)" "ok (DDR4_MEM_ADDRESS + off)" "ok (DDR4_FINAL_OFFSET + off)"
    "ok (DDR4_BUSY_REGISTER + off)" using assms(3) by (simp_all add: has_registers_def register_names)
  obtain r2 w2 where 2: "write_u32 th (DDR4_MEM_ADDRESS + off) base w1 = (r2, w2)" by fastforce
  obtain r3 w3 where 3: "write_u32 th (DDR4_FINAL_OFFSET + off) len w2 = (r3, w3)" by fastforce
  obtain r4 w4 where 4: "write_u32 th (PR_CONTROL_REGISTER + off) 12 w3 = (r4, w4)" by fastforce
  obtain r5 w5 where 5: "write_u32 th (PR_CONTROL_REGISTER + off) 8 w4 = (r5, w5)" by fastforce
  have "wait_while_busy th (DDR4_BUSY_REGISTER + off) w5 = Some w'"
    using assms(2) by (simp add: run_ddr4_address_sweep_def DDR4_START_MASK_def DDR4_CAL_MASK_def 2 3 4 5)
  from follows_trans [OF follows_write [OF follows_write [OF follows_write [OF follows_write [OF assms(1) 2 ok(2)]
    3 ok(3)] 4 ok(1)] 5 ok(1)] follows_busy [OF this ok(4)]] show ?thesis by simp
qed

lemma ddr4_round_log:
  assumes "has_registers ok off" "ddr4_round k th rnd seed off w r = Some (b, w', r')"
  shows "\<exists>x. follows log w (ddr4_log k addr off seed x) w' \<and> (b \<longleftrightarrow> ddr4_good x)"
proof -
  have ok: "ok (PR_CONTROL_REGISTER + off)" "ok (DDR4_SEED_ADDRESS + off)" "ok (PERFORMANCE_COUNTER + off)"
    using assms(1) by (simp_all add: has_registers_def register_names)
  obtain r1 w1 where 1: "write_u32 th (DDR4_SEED_ADDRESS + off) seed (reset_pr_logic th off w) = (r1, w1)" by fastforce
  obtain r2 s w2 where 2: "read_u32 th (DDR4_SEED_ADDRESS + off) 0 (pulses th off k w1) = (r2, s, w2)" by (metis prod_cases3)
  note seeded = follows_read [OF follows_pulses [OF follows_write [OF follows_reset [OF ok(1)] 1 ok(2)] ok(1)] 2 ok(2)]
  show ?thesis
  proof (cases "s = seed")
    case False
    then have "b = False" "w' = w2" using assms(2) by (auto simp: ddr4_round_def 1 2)
    moreover have "follows log w (ddr4_log k addr off seed (Seed_lost s)) w2"
      using seeded by (simp add: ddr4_log_def Let_def)
    ultimately show ?thesis by (intro exI [of _ "Seed_lost s"]) (simp add: ddr4_good_def)
  next
    case True
    then obtain base len r3 w3 where 3: "run_ddr4_address_sweep th base len 1 off w2 = Some w3"
      and rest: "(let (_, cnt, w) = read_u32 th (PERFORMANCE_COUNTER + off) 0 w3 in Some (cnt = len + 1, w, r3)) =
        Some (b, w', r')"
      using assms(2) by (auto simp: ddr4_round_def 1 2 bind_eq_Some_conv)
    obtain r4 cnt w4 where 4: "read_u32 th (PERFORMANCE_COUNTER + off) 0 w3 = (r4, cnt, w4)" by (metis prod_cases3)
    have "follows log w (ddr4_log k addr off seed (Swept base len cnt)) w4"
      using follows_read [OF follows_sweep [OF seeded 3 assms(1)] 4 ok(3)] True by (simp add: ddr4_log_def Let_def)
    then show ?thesis using rest by (intro exI [of _ "Swept base len cnt"]) (auto simp: 4 ddr4_good_def)
  qed
qed

lemma dsp_test:
  "has_registers ok off \<Longrightarrow> test_loop (dsp_loop th rnd n off) (dsp_round th rnd off) n log (dsp_log addr off) dsp_good"
  using dsp_round_log [of off rnd] dsp_loop_round [of th rnd n off] by unfold_locales

lemma ddr4_test:
  "has_registers ok off \<Longrightarrow>
   test_loop (ddr4_loop th rnd seed n off) (ddr4_round 1 th rnd seed off) n log (ddr4_log 1 addr off seed) ddr4_good"
  using ddr4_round_log [of off 1 rnd seed] ddr4_loop_round [of th rnd seed n off] by unfold_locales

lemma cvp_ddr4_test:
  "has_registers ok 0 \<Longrightarrow>
   test_loop (cvp_ddr4_loop th rnd seed n) (ddr4_round 2 th rnd seed 0) n log (ddr4_log 2 addr 0 seed) ddr4_good"
  using ddr4_round_log [of 0 2 rnd seed] cvp_ddr4_loop_round [of th rnd seed n] by unfold_locales

end

text \<open>The loops over the ioctls of the driver, where every register can be reached.\<close>

lemma all_registers: "has_registers (\<lambda>_. True) off"
  by (simp add: has_registers_def)

interpretation pr_dsp: test_loop "dsp_loop (pr_handle (card_fd b ops fs buf0 priv) junk) rnd n off"
    "dsp_round (pr_handle (card_fd b ops fs buf0 priv) junk) rnd off" n trace "dsp_log (pr_region priv) off" dsp_good
  for b :: "('h, 'z) pci_bus_scheme" and ops fs buf0 priv junk and rnd :: "'r \<Rightarrow> u32 \<times> 'r" and n off
  by (rule pr_port.dsp_test) (rule all_registers)

interpretation pr_ddr4: test_loop "ddr4_loop (pr_handle (card_fd b ops fs buf0 priv) junk) rnd seed n off"
    "ddr4_round 1 (pr_handle (card_fd b ops fs buf0 priv) junk) rnd seed off" n trace
    "ddr4_log 1 (pr_region priv) off seed" ddr4_good
  for b :: "('h, 'z) pci_bus_scheme" and ops fs buf0 priv junk and rnd :: "'r \<Rightarrow> u32 \<times> 'r" and seed n off
  by (rule pr_port.ddr4_test) (rule all_registers)

section \<open>What passing a test means\<close>

text \<open>The register accesses \<open>t\<close> of a test that the persona with the identity \<open>p\<close> has passed.\<close>

definition persona_passed :: "nat \<Rightarrow> (u32 \<Rightarrow> u64) \<Rightarrow> u32 \<Rightarrow> u32 \<Rightarrow> u32 \<Rightarrow> u32 \<Rightarrow> io_event list \<Rightarrow> bool" where
  "persona_passed k addr off seed n p t \<longleftrightarrow>
     (let ctl = addr (PR_CONTROL_REGISTER + off) in
      if p = PERSONA_ID_BASIC_ARITHMETIC then
        (\<exists>runs. length runs = unat n \<and> list_all (\<lambda>(a, b, v). v = a + b) runs \<and>
           stages (reset_log ctl @ concat (map (math_log addr off) runs)) t)
      else if p = PERSONA_ID_BASIC_DSP then
        (\<exists>runs. length runs = unat n \<and> list_all dsp_good runs \<and>
           stages (reset_log ctl @ concat (map (dsp_log addr off) runs)) t)
      else if p = PERSONA_ID_DDR4_ACCESS then
        (\<exists>runs. length runs = unat n \<and> list_all ddr4_good runs \<and>
           stages (reset_log ctl @ [read_as (addr DDR4_CAL_OFFSET) 2] @ concat (map (ddr4_log k addr off seed) runs)) t)
      else if p = PERSONA_ID_GOL_ACCELERATOR then
        (\<exists>hi lo hi' lo'. cells (board_of hi' lo') = (life ^^ unat n) (cells (board_of hi lo)) \<and>
           stages (gol_log addr off n hi lo hi' lo') t)
      else False)"

definition known_persona :: "u32 \<Rightarrow> bool" where
  "known_persona p \<longleftrightarrow> p \<in> {PERSONA_ID_BASIC_ARITHMETIC, PERSONA_ID_BASIC_DSP, PERSONA_ID_DDR4_ACCESS, PERSONA_ID_GOL_ACCELERATOR}"

definition child_passed :: "(u32 \<Rightarrow> u64) \<Rightarrow> u32 \<Rightarrow> u32 \<Rightarrow> u32 \<Rightarrow> u32 \<Rightarrow> io_event list \<Rightarrow> bool" where
  "child_passed addr off seed n p t \<longleftrightarrow>
     (if known_persona p then persona_passed 1 addr off seed n p t else t = [])"

definition children_passed :: "(u32 \<Rightarrow> u64) \<Rightarrow> u32 \<Rightarrow> u32 \<Rightarrow> io_event list \<Rightarrow> bool" where
  "children_passed addr seed n t \<longleftrightarrow> (\<exists>p0 p1 t0 t1.
     t = [Read (addr (PR_PERSONA_ID + HPR_A_CHILD_0)) p0, Read (addr (PR_PERSONA_ID + HPR_A_CHILD_1)) p1] @ t0 @ t1 \<and>
     child_passed addr HPR_A_CHILD_0 seed n p0 t0 \<and> child_passed addr HPR_A_CHILD_1 seed n p1 t1 \<and>
     (known_persona p0 \<or> known_persona p1))"

definition card_passed :: "(u32 \<Rightarrow> u64) \<Rightarrow> u32 \<Rightarrow> u32 \<Rightarrow> io_event list \<Rightarrow> bool" where
  "card_passed addr seed n t \<longleftrightarrow> (\<exists>p t'. t = Read (addr PR_PERSONA_ID) p # t' \<and>
     (if p = PERSONA_ID_HPR_PARENT_ALPHA then children_passed addr seed n t' else persona_passed 1 addr 0 seed n p t'))"

lemma followsE: "follows log w Ps w' \<Longrightarrow> (\<And>t. log w' = log w @ t \<Longrightarrow> stages Ps t \<Longrightarrow> thesis) \<Longrightarrow> thesis"
  by (auto simp: follows_def)

lemma verdict_return: "test_verdict good n runs (Return c) \<Longrightarrow> c = 0 \<and> length runs = n \<and> list_all good runs"
  by (simp add: test_verdict_def)

context register_port
begin

lemma ddr4_persona:
  assumes "do_ddr4_access_persona th rnd seed n off w r = Some (Return c, w', r')"
    and "has_registers ok off" "ok DDR4_CAL_OFFSET" "n \<noteq> - 1"
  shows "\<exists>runs. follows log w (reset_log (addr (PR_CONTROL_REGISTER + off)) @ [read_as (addr DDR4_CAL_OFFSET) 2] @
      concat (map (ddr4_log 1 addr off seed) runs)) w' \<and> test_verdict ddr4_good (unat n) runs (Return c)"
proof -
  have ctl: "ok (PR_CONTROL_REGISTER + off)" using assms(2) by (simp add: has_registers_def)
  obtain e d w1 where 1: "read_u32 th DDR4_CAL_OFFSET 0 (reset_pr_logic th off w) = (e, d, w1)" by (metis prod_cases3)
  then have d: "d = 2" "ddr4_loop th rnd seed n off 1 w1 r = Some (Return c, w', r')"
    using assms(1) by (auto simp: do_ddr4_access_persona_def split: if_splits)
  obtain runs where "follows log w1 (concat (map (ddr4_log 1 addr off seed) runs)) w'"
    "test_verdict ddr4_good (unat n) runs (Return c)"
    using test_loop.verdict [OF ddr4_test [OF assms(2)] assms(4) d(2)] by blast
  then show ?thesis using follows_trans [OF follows_read [OF follows_reset [OF ctl] 1 assms(3)]] d(1) by fastforce
qed

lemma dsp_persona:
  assumes "do_basic_dsp_persona th rnd n off w r = Some (Return c, w', r')" "has_registers ok off" "n \<noteq> - 1"
  shows "\<exists>runs. follows log w (reset_log (addr (PR_CONTROL_REGISTER + off)) @ concat (map (dsp_log addr off) runs)) w' \<and>
    test_verdict dsp_good (unat n) runs (Return c)"
proof -
  have ctl: "ok (PR_CONTROL_REGISTER + off)" using assms(2) by (simp add: has_registers_def)
  have "dsp_loop th rnd n off 1 (reset_pr_logic th off w) r = Some (Return c, w', r')"
    using assms(1) by (simp add: do_basic_dsp_persona_def)
  from test_loop.verdict [OF dsp_test [OF assms(2)] assms(3) this] show ?thesis
    using follows_trans [OF follows_reset [OF ctl]] by blast
qed

lemma run_persona_passed:
  assumes "run_persona th rnd seed n off p w r = Some (Return c, w', r')"
    and "has_registers ok off" "ok DDR4_CAL_OFFSET" "n \<noteq> - 1"
  shows "if known_persona p then c = 0 \<and> (\<exists>t. log w' = log w @ t \<and> persona_passed 1 addr off seed n p t)
    else c = - EINVAL \<and> w' = w"
proof -
  have ok: "ok (PR_CONTROL_REGISTER + off)" "ok (PR_OPERAND + off)" "ok (PR_INCR + off)" "ok (PR_RESULT + off)"
    "ok (GOL_TOP_HALF + off)" "ok (GOL_BOT_HALF + off)" "ok (GOL_COUNTER_LIMIT_ADDRESS + off)" "ok (GOL_BUSY_REG + off)"
    "ok (GOL_TOP_END + off)" "ok (GOL_BOT_END + off)"
    using assms(2) by (simp_all add: has_registers_def register_names)
  note ids = PERSONA_ID_BASIC_ARITHMETIC_def PERSONA_ID_BASIC_DSP_def PERSONA_ID_DDR4_ACCESS_def PERSONA_ID_GOL_ACCELERATOR_def
  consider (math) "p = PERSONA_ID_BASIC_ARITHMETIC" | (dsp) "p = PERSONA_ID_BASIC_DSP" | (ddr4) "p = PERSONA_ID_DDR4_ACCESS"
    | (gol) "p = PERSONA_ID_GOL_ACCELERATOR" | (other) "\<not> known_persona p" by (auto simp: known_persona_def)
  then show ?thesis
  proof cases
    case math
    obtain runs where "follows log w (reset_log (addr (PR_CONTROL_REGISTER + off)) @ concat (map (math_log addr off) runs)) w'"
      "test_verdict (\<lambda>(a, b, v). v = a + b) (unat n) runs (Return c)"
      using math_persona [OF ok(1-4) assms(4), of rnd w r] assms(1) math by (auto simp: run_persona_def)
    then show ?thesis using math verdict_return by (fastforce simp: known_persona_def persona_passed_def Let_def elim: followsE)
  next
    case dsp
    then have "do_basic_dsp_persona th rnd n off w r = Some (Return c, w', r')" using assms(1) by (simp add: run_persona_def ids)
    from dsp_persona [OF this assms(2,4)] obtain runs where
      "follows log w (reset_log (addr (PR_CONTROL_REGISTER + off)) @ concat (map (dsp_log addr off) runs)) w'"
      "test_verdict dsp_good (unat n) runs (Return c)" by blast
    then show ?thesis using dsp verdict_return
      by (fastforce simp: known_persona_def persona_passed_def Let_def ids elim: followsE)
  next
    case ddr4
    then have "do_ddr4_access_persona th rnd seed n off w r = Some (Return c, w', r')"
      using assms(1) by (simp add: run_persona_def ids)
    from ddr4_persona [OF this assms(2,3,4)] obtain runs where
      "follows log w (reset_log (addr (PR_CONTROL_REGISTER + off)) @ [read_as (addr DDR4_CAL_OFFSET) 2] @
        concat (map (ddr4_log 1 addr off seed) runs)) w'" "test_verdict ddr4_good (unat n) runs (Return c)" by blast
    then show ?thesis using ddr4 verdict_return
      by (fastforce simp: known_persona_def persona_passed_def Let_def ids elim: followsE)
  next
    case gol
    have "do_gol_persona th rnd n off w r = Some (Return c, w', r')" using assms(1) gol by (simp add: run_persona_def ids)
    from gol_persona [OF this ok(1,5-10)] show ?thesis using gol
      by (auto simp: known_persona_def persona_passed_def Let_def ids split: if_splits elim!: followsE) blast+
  next
    case other
    then show ?thesis using assms(1) by (auto simp: known_persona_def run_persona_def split: if_splits)
  qed
qed

lemma run_persona_exit:
  assumes "run_persona th rnd seed n off p w r = Some (Exit c, w', r')" and "has_registers ok off" "n \<noteq> - 1"
  shows "c = EXIT_FAILURE"
proof -
  have ok: "ok (PR_CONTROL_REGISTER + off)" "ok (PR_OPERAND + off)" "ok (PR_INCR + off)" "ok (PR_RESULT + off)"
    "ok (GOL_TOP_HALF + off)" "ok (GOL_BOT_HALF + off)" "ok (GOL_COUNTER_LIMIT_ADDRESS + off)" "ok (GOL_BUSY_REG + off)"
    "ok (GOL_TOP_END + off)" "ok (GOL_BOT_END + off)"
    using assms(2) by (simp_all add: has_registers_def register_names)
  consider (math) "do_basic_math_persona th rnd n off w r = Some (Exit c, w', r')"
    | (dsp) "do_basic_dsp_persona th rnd n off w r = Some (Exit c, w', r')"
    | (ddr4) "do_ddr4_access_persona th rnd seed n off w r = Some (Exit c, w', r')"
    | (gol) "do_gol_persona th rnd n off w r = Some (Exit c, w', r')"
    using assms(1) by (auto simp: run_persona_def split: if_splits)
  then show ?thesis
  proof cases
    case math
    then show ?thesis using math_persona [OF ok(1-4) assms(3), of rnd w r] by (auto simp: test_verdict_def)
  next
    case dsp
    then have "dsp_loop th rnd n off 1 (reset_pr_logic th off w) r = Some (Exit c, w', r')"
      by (simp add: do_basic_dsp_persona_def)
    from test_loop.verdict [OF dsp_test [OF assms(2)] assms(3) this] show ?thesis by (auto simp: test_verdict_def)
  next
    case ddr4
    then have "c = EXIT_FAILURE \<or> (\<exists>w1. ddr4_loop th rnd seed n off 1 w1 r = Some (Exit c, w', r'))"
      by (auto simp: do_ddr4_access_persona_def split: prod.splits if_splits)
    then show ?thesis
      using test_loop.verdict [OF ddr4_test [OF assms(2)] assms(3)] by (fastforce simp: test_verdict_def)
  next
    case gol
    from gol_persona [OF this ok(1,5-10)] show ?thesis by (auto split: if_splits)
  qed
qed

lemma config_a_exit:
  assumes "do_hpr_config_a th rnd seed n w r = Some (Exit c, w', r')" and "n \<noteq> - 1"
    and "has_registers ok HPR_A_CHILD_0" "has_registers ok HPR_A_CHILD_1"
  shows "c = EXIT_FAILURE"
proof -
  obtain e0 p0 w0 where 0: "read_u32 th (PR_PERSONA_ID + HPR_A_CHILD_0) 0 w = (e0, p0, w0)" by (metis prod_cases3)
  obtain e1 p1 w1 where 1: "read_u32 th (PR_PERSONA_ID + HPR_A_CHILD_1) 0 w0 = (e1, p1, w1)" by (metis prod_cases3)
  obtain f0 w2 r2 where run_0: "run_persona th rnd seed n HPR_A_CHILD_0 p0 w1 r = Some (f0, w2, r2)"
    and rest: "(case f0 of Exit c \<Rightarrow> Some (Exit c, w2, r2)
      | Return ret_0 \<Rightarrow> do {
          (f, w, r) \<leftarrow> run_persona th rnd seed n HPR_A_CHILD_1 p1 w2 r2;
          case f of Exit c \<Rightarrow> Some (Exit c, w, r) | Return ret_1 \<Rightarrow> Some (Return (ret_0 AND ret_1), w, r) }) =
      Some (Exit c, w', r')"
    using assms(1) by (auto simp: do_hpr_config_a_def 0 1 bind_eq_Some_conv)
  show ?thesis
  proof (cases f0)
    case (Exit d)
    then show ?thesis using run_0 rest run_persona_exit [OF _ assms(3,2)] by auto
  next
    case (Return d)
    then obtain f1 w3 r3 where "run_persona th rnd seed n HPR_A_CHILD_1 p1 w2 r2 = Some (f1, w3, r3)"
      and "(case f1 of Exit c \<Rightarrow> Some (Exit c, w3, r3) | Return ret_1 \<Rightarrow> Some (Return (d AND ret_1), w3, r3)) =
        Some (Exit c, w', r')" using rest by (auto simp: bind_eq_Some_conv)
    then show ?thesis using run_persona_exit [OF _ assms(4,2)] by (cases f1) auto
  qed
qed

lemma config_a_passed:
  assumes "do_hpr_config_a th rnd seed n w r = Some (Return 0, w', r')" and "n \<noteq> - 1"
    and "has_registers ok HPR_A_CHILD_0" "has_registers ok HPR_A_CHILD_1" "ok DDR4_CAL_OFFSET"
    and "ok (PR_PERSONA_ID + HPR_A_CHILD_0)" "ok (PR_PERSONA_ID + HPR_A_CHILD_1)"
  shows "\<exists>t. log w' = log w @ t \<and> children_passed addr seed n t"
proof -
  obtain e0 p0 w0 where 0: "read_u32 th (PR_PERSONA_ID + HPR_A_CHILD_0) 0 w = (e0, p0, w0)" by (metis prod_cases3)
  obtain e1 p1 w1 where 1: "read_u32 th (PR_PERSONA_ID + HPR_A_CHILD_1) 0 w0 = (e1, p1, w1)" by (metis prod_cases3)
  obtain f0 w2 r2 where run_0: "run_persona th rnd seed n HPR_A_CHILD_0 p0 w1 r = Some (f0, w2, r2)"
    and rest: "(case f0 of Exit c \<Rightarrow> Some (Exit c, w2, r2)
      | Return ret_0 \<Rightarrow> do {
          (f, w, r) \<leftarrow> run_persona th rnd seed n HPR_A_CHILD_1 p1 w2 r2;
          case f of Exit c \<Rightarrow> Some (Exit c, w, r) | Return ret_1 \<Rightarrow> Some (Return (ret_0 AND ret_1), w, r) }) =
      Some (Return 0, w', r')"
    using assms(1) by (auto simp: do_hpr_config_a_def 0 1 bind_eq_Some_conv)
  then obtain c0 f1 w3 r3 where f0: "f0 = Return c0" and run_1: "run_persona th rnd seed n HPR_A_CHILD_1 p1 w2 r2 = Some (f1, w3, r3)"
    and rest: "(case f1 of Exit c \<Rightarrow> Some (Exit c, w3, r3) | Return ret_1 \<Rightarrow> Some (Return (c0 AND ret_1), w3, r3)) =
      Some (Return 0, w', r')" by (cases f0) (auto simp: bind_eq_Some_conv)
  then obtain c1 where f1: "f1 = Return c1" "c0 AND c1 = 0" "w3 = w'" "r3 = r'" by (cases f1) auto
  note 2 = run_0 [unfolded f0] and 3 = run_1 [unfolded f1(1,3,4)] and c = f1(2)
  note run0 = run_persona_passed [OF 2 assms(3,5,2)] and run1 = run_persona_passed [OF 3 assms(4,5,2)]
  obtain t0 where t0: "log w2 = log w1 @ t0" "child_passed addr HPR_A_CHILD_0 seed n p0 t0"
    using run0 by (cases "known_persona p0") (auto simp: child_passed_def)
  obtain t1 where t1: "log w' = log w2 @ t1" "child_passed addr HPR_A_CHILD_1 seed n p1 t1"
    using run1 by (cases "known_persona p1") (auto simp: child_passed_def)
  have "known_persona p0 \<or> known_persona p1"
    using run0 run1 c by (auto simp: EINVAL_def split: if_splits)
  moreover have "log w1 = log w @ [Read (addr (PR_PERSONA_ID + HPR_A_CHILD_0)) p0, Read (addr (PR_PERSONA_ID + HPR_A_CHILD_1)) p1]"
    using port_read [OF assms(6) 0] port_read [OF assms(7) 1] by simp
  ultimately show ?thesis using t0 t1
    by (intro exI [of _ "[Read (addr (PR_PERSONA_ID + HPR_A_CHILD_0)) p0, Read (addr (PR_PERSONA_ID + HPR_A_CHILD_1)) p1] @ t0 @ t1"])
      (auto simp: children_passed_def)
qed

lemma card_test_passed:
  assumes "read_u32 th PR_PERSONA_ID d w = (e, p, w1)"
    and "(if p = PERSONA_ID_HPR_PARENT_ALPHA then do_hpr_config_a th rnd seed n w1 r
      else run_persona th rnd seed n 0 p w1 r) = Some (Return 0, w', r')"
    and "n \<noteq> - 1" "has_registers ok 0" "has_registers ok HPR_A_CHILD_0" "has_registers ok HPR_A_CHILD_1"
    and "ok DDR4_CAL_OFFSET" "ok PR_PERSONA_ID" "ok (PR_PERSONA_ID + HPR_A_CHILD_0)" "ok (PR_PERSONA_ID + HPR_A_CHILD_1)"
  shows "\<exists>t. log w' = log w @ t \<and> card_passed addr seed n t"
proof -
  have r: "log w1 = log w @ [Read (addr PR_PERSONA_ID) p]" by (rule port_read [OF assms(8,1)])
  show ?thesis
  proof (cases "p = PERSONA_ID_HPR_PARENT_ALPHA")
    case True
    then have "do_hpr_config_a th rnd seed n w1 r = Some (Return 0, w', r')" using assms(2) by simp
    from config_a_passed [OF this assms(3,5,6,7,9,10)] r True show ?thesis by (auto simp: card_passed_def)
  next
    case False
    then have "run_persona th rnd seed n 0 p w1 r = Some (Return 0, w', r')" using assms(2) by simp
    from run_persona_passed [OF this assms(4,7,3)] r False show ?thesis
      by (auto simp: card_passed_def EINVAL_def split: if_splits)
  qed
qed

text \<open>The program for the design without hierarchy.\<close>

lemma cvp_gol_persona: "cvp_do_gol_persona th rnd n w r = do_gol_persona th rnd n 0 w r"
proof -
  have "cvp_run_gol_verify board n = run_gol_verify board n" for board
    using verify_life [of board n] cvp_verify_life [of board n] cells_inject by (metis (no_types))
  then show ?thesis by (simp add: cvp_do_gol_persona_def do_gol_persona_def)
qed

lemma persona_passed_other: "p \<noteq> PERSONA_ID_DDR4_ACCESS \<Longrightarrow> persona_passed k addr off seed n p = persona_passed j addr off seed n p"
  by (intro ext) (simp add: persona_passed_def Let_def)

lemma cvp_persona_passed:
  assumes "(if p = PERSONA_ID_BASIC_ARITHMETIC then do_basic_math_persona th rnd n 0 w r
      else if p = PERSONA_ID_BASIC_DSP then do_basic_dsp_persona th rnd n 0 w r
      else if p = PERSONA_ID_DDR4_ACCESS then cvp_do_ddr4_access_persona th rnd seed n w r
      else if p = PERSONA_ID_GOL_ACCELERATOR then cvp_do_gol_persona th rnd n w r
      else Some (Return EINVAL, w, r)) = Some (f, w', r')"
    and "has_registers ok 0" "ok DDR4_CAL_OFFSET" "n \<noteq> - 1" "(case f of Exit c \<Rightarrow> c | Return ret \<Rightarrow> ret) = 0"
  shows "\<exists>t. log w' = log w @ t \<and> persona_passed 2 addr 0 seed n p t"
proof (cases "p = PERSONA_ID_DDR4_ACCESS")
  case False
  show ?thesis
  proof (cases "known_persona p")
    case True
    then have run: "run_persona th rnd seed n 0 p w r = Some (f, w', r')"
      using assms(1) False by (auto simp: known_persona_def run_persona_def cvp_gol_persona const_defs)
    then have "f = Return 0" using assms(5) by (cases f) (auto simp: EXIT_FAILURE_def dest!: run_persona_exit [OF _ assms(2,4)])
    then show ?thesis using run_persona_passed [OF _ assms(2-4), of rnd seed p w r 0] run True persona_passed_other [OF False, of 2 0 seed n 1]
      by simp
  next
    case False
    then show ?thesis using assms(1,5) by (auto simp: known_persona_def EINVAL_def)
  qed
next
  case True
  have ctl: "ok (PR_CONTROL_REGISTER + 0)" using assms(2) by (simp add: has_registers_def)
  obtain e d w1 where 1: "read_u32 th DDR4_CAL_OFFSET 0 (reset_pr_logic th 0 w) = (e, d, w1)" by (metis prod_cases3)
  have "cvp_do_ddr4_access_persona th rnd seed n w r = Some (f, w', r')"
    using assms(1) True by (simp add: const_defs)
  then have d: "d = 2" "cvp_ddr4_loop th rnd seed n 1 w1 r = Some (f, w', r')"
    using 1 assms(5) by (auto simp: cvp_do_ddr4_access_persona_def EXIT_FAILURE_def split: if_splits)
  obtain runs where runs: "follows log w1 (concat (map (ddr4_log 2 addr 0 seed) runs)) w'" "test_verdict ddr4_good (unat n) runs f"
    using test_loop.verdict [OF cvp_ddr4_test [OF assms(2)] assms(4) d(2)] by blast
  then have "length runs = unat n \<and> list_all ddr4_good runs"
    using assms(5) by (auto simp: test_verdict_def EXIT_FAILURE_def)
  moreover obtain t where "log w' = log w @ t" "stages (reset_log (addr (PR_CONTROL_REGISTER + 0)) @
      [read_as (addr DDR4_CAL_OFFSET) 2] @ concat (map (ddr4_log 2 addr 0 seed) runs)) t"
    using follows_trans [OF follows_read [OF follows_reset [OF ctl] 1 assms(3)] runs(1)] d(1) by (auto elim: followsE)
  ultimately show ?thesis using True by (auto simp: persona_passed_def Let_def const_defs)
qed

lemma main_passed:
  assumes "read_u32 th PR_PERSONA_ID d w = (e, p, w1)"
    and "(if p = PERSONA_ID_HPR_PARENT_ALPHA then do_hpr_config_a th rnd seed n w1 r
      else run_persona th rnd seed n 0 p w1 r) = Some (f, w', r')"
    and "(case f of Exit c \<Rightarrow> c | Return ret \<Rightarrow> ret) = 0"
    and "n \<noteq> - 1" "has_registers ok 0" "has_registers ok HPR_A_CHILD_0" "has_registers ok HPR_A_CHILD_1"
    and "ok DDR4_CAL_OFFSET" "ok PR_PERSONA_ID" "ok (PR_PERSONA_ID + HPR_A_CHILD_0)" "ok (PR_PERSONA_ID + HPR_A_CHILD_1)"
  shows "f = Return 0 \<and> (\<exists>t. log w' = log w @ t \<and> card_passed addr seed n t)"
proof -
  have f: "f = Return 0"
  proof (cases f)
    case (Exit c)
    then have "c = EXIT_FAILURE" using assms(2) config_a_exit [OF _ assms(4,6,7)] run_persona_exit [OF _ assms(5,4)]
      by (auto split: if_splits)
    then show ?thesis using assms(3) Exit by (simp add: EXIT_FAILURE_def)
  qed (use assms(3) in simp)
  show ?thesis using card_test_passed [OF assms(1) assms(2) [unfolded f] assms(4-11)] f by blast
qed

end

section \<open>Properties\<close>

text \<open>
  C35. An exit status of 0 of the host program, run over the ioctls of the PCIe driver with options that it
  accepts and a number of runs other than 0xffffffff, means that the persona on the card has passed: the accesses are a read of the identity of the
  persona and then those of its test, in which every value read was right, in all the runs asked for; for
  a parent persona, they are the reads of the identities of the two child regions and then their tests,
  of which at least one was made. A run that ends in the usage message has the status 0 as well.
\<close>

theorem host_status_zero:
  fixes w :: "'h world"
  assumes "host_main (pr_handle (card_fd b ops fs buf0 priv) junk) True srand rnd opts w = Some (0, w')"
    and "parse_options opts (0, 3, 1) = Some (v, n, seed)" and "n \<noteq> - 1"
  shows "\<exists>t. trace w' = trace w @ t \<and> card_passed (pr_region priv) seed n t"
proof -
  let ?th = "pr_handle (card_fd b ops fs buf0 priv) junk"
  obtain e p w1 where 1: "read_u32 ?th PR_PERSONA_ID 0 w = (e, p, w1)" by (metis prod_cases3)
  then obtain f r' where "(if p = PERSONA_ID_HPR_PARENT_ALPHA then do_hpr_config_a ?th rnd seed n w1 (srand seed)
      else run_persona ?th rnd seed n 0 p w1 (srand seed)) = Some (f, w', r')"
    and "(case f of Exit c \<Rightarrow> c | Return ret \<Rightarrow> ret) = 0"
    using assms(1) by (auto simp: host_main_def assms(2) Let_def bind_eq_Some_conv)
  from pr_port.main_passed [OF 1 this assms(3) all_registers all_registers all_registers TrueI TrueI TrueI TrueI]
  show ?thesis by blast
qed

text \<open>A card with an accelerator for the Game of Life that leaves the empty board empty.\<close>

definition demo_card :: "unit pci_bus" where
  "demo_card = bus.extend
     \<lparr>bus_read = (\<lambda>a s. (if a = pr_region demo_priv PR_PERSONA_ID then PERSONA_ID_GOL_ACCELERATOR else 0, s)),
      bus_write = (\<lambda>a v s. s), bus_wait = (\<lambda>_ s. s)\<rparr>
     \<lparr>hw_find_capability = (\<lambda>d c h. 0), hw_find_ext_capability = (\<lambda>d c h. 0),
      hw_cfg_read32 = (\<lambda>d p h. (0, h)), hw_cfg_write32 = (\<lambda>d p v h. h),
      hw_cfg_read16 = (\<lambda>d p h. (0, h)), hw_cfg_write16 = (\<lambda>d p v h. h),
      hw_save_state = (\<lambda>d h. h), hw_restore_state = (\<lambda>d h. h)\<rparr>"

theorem host_status_zero_witness:
  "\<exists>w'. host_main (pr_handle (card_fd demo_card (a10_ops demo_card (\<lambda>_. 0)) demo_image (\<lambda>_. 0) demo_priv) 0) True
      (\<lambda>_. ()) (\<lambda>r. (0, r)) [] \<lparr>dev = (), trace = []\<rparr> = Some (0, w') \<and>
    card_passed (pr_region demo_priv) 1 3 (trace w')"
proof -
  have "run_gol_verify 0 3 = Some 0" by code_simp
  then obtain w' where 1: "host_main (pr_handle (card_fd demo_card (a10_ops demo_card (\<lambda>_. 0)) demo_image (\<lambda>_. 0) demo_priv) 0) True
      (\<lambda>_. ()) (\<lambda>r. (0, r)) [] \<lparr>dev = (), trace = []\<rparr> = Some (0, w')"
    by (simp add: host_main_def run_persona_def do_gol_persona_def generate_random_number.simps reset_pr_logic_def
        run_gol_accelerated_def wait_while_busy_def do_while_unfold pr_handle_def read_pr_def write_pr_def card_fd_def
        my_ioctl_def demo_card_def bus.defs demo_priv_def readl_def writel_def check_result_64_def const_defs)
  from host_status_zero [OF 1] 1 show ?thesis by auto
qed

text \<open>
  C36. An exit status of 0 of the host program over UIO that has opened the device. When the mapping has the
  registers of all the regions and the number of runs is below the largest 32 bit integer, the persona
  on the card has passed, as for the program over the ioctls, and the program has given back the
  mapping, the descriptor and the heap block.
\<close>

theorem uio_host_status_zero:
  fixes w :: "'h world"
  assumes "uio_host_main b names sys junk srand rnd opts w = Some (0, w', log)"
    and "uio_parse_options names opts (0, 3, 1, - 1) = Some (Some (v, n, seed, uio_num))" and "0 \<le> uio_num"
    and "uio_open sys uio_num [] = (Some h, log0)" and "n \<noteq> - 1"
    and "DDR4_CAL_OFFSET < word_of_int (uio_size h)"
  shows "(\<exists>t. trace w' = trace w @ t \<and> card_passed (\<lambda>reg. uio_iomem h + ucast reg) seed n t) \<and> in_hand [] log = Some []"
proof -
  let ?th = "uio_device_handle b (Some h)" and ?ok = "\<lambda>off. off < word_of_int (uio_size h)"
  have near: "?ok off" if "off \<le> DDR4_CAL_OFFSET" for off using that assms(6) by (rule order_le_less_trans)
  have regs: "has_registers ?ok off" if "off \<in> {0, HPR_A_CHILD_0, HPR_A_CHILD_1}" for off
    using that by (auto simp: has_registers_def const_defs intro!: near)
  have ok: "?ok DDR4_CAL_OFFSET" "?ok PR_PERSONA_ID" "?ok (PR_PERSONA_ID + HPR_A_CHILD_0)" "?ok (PR_PERSONA_ID + HPR_A_CHILD_1)"
    by (rule near, simp add: const_defs)+
  obtain e p w1 where 1: "read_u32 ?th PR_PERSONA_ID junk w = (e, p, w1)" by (metis prod_cases3)
  then obtain f w2 r' where 2: "(if p = PERSONA_ID_HPR_PARENT_ALPHA then do_hpr_config_a ?th rnd seed n w1 (srand seed)
      else run_persona ?th rnd seed n 0 p w1 (srand seed)) = Some (f, w2, r')"
    and 3: "(case f of Exit c \<Rightarrow> (c, w2, log0) | Return ret \<Rightarrow> (ret, w2, uio_close h log0)) = (0, w', log)"
    using assms(1,3) by (auto simp: uio_host_main_def assms(2,4) Let_def bind_eq_Some_conv not_less)
  have w2: "w2 = w'" using 3 by (simp split: finish.splits)
  have "(case f of Exit c \<Rightarrow> c | Return ret \<Rightarrow> ret) = 0" using 3 by (simp split: finish.splits)
  from uio_access.main_passed [OF 1 2 [unfolded w2] this assms(5) regs regs regs ok]
  have f: "f = Return 0" and t: "\<exists>t. trace w' = trace w @ t \<and> card_passed (\<lambda>reg. uio_iomem h + ucast reg) seed n t" by simp_all
  have "in_hand [] log = Some []"
    using f 3 uio_open_holds [OF assms(4), of "[]" "[]"] by (auto simp: uio_close_def in_hand_append)
  with t show ?thesis by simp
qed

definition demo_gol :: "unit bus" where
  "demo_gol = \<lparr>bus_read = (\<lambda>a s. (if a = 0x50000 then PERSONA_ID_GOL_ACCELERATOR else 0, s)),
     bus_write = (\<lambda>a v s. s), bus_wait = (\<lambda>_ s. s)\<rparr>"

theorem uio_host_status_zero_witness:
  "\<exists>w' log. uio_host_main demo_gol demo_uio_names (demo_system\<lparr>sys_size := \<lambda>n. Some (1, 0x20000)\<rparr>) 0 (\<lambda>_. ()) (\<lambda>r. (0, r))
      [Opt_d ''0000:03:00.0''] \<lparr>dev = (), trace = []\<rparr> = Some (0, w', log) \<and>
    card_passed (\<lambda>reg. 0x50000 + ucast reg) 1 3 (trace w')"
proof -
  let ?sys = "demo_system\<lparr>sys_size := \<lambda>n. Some (1, 0x20000)\<rparr>" and ?opts = "[Opt_d ''0000:03:00.0'']"
  let ?h = "\<lparr>uio_fd = 3, uio_size = 0x20000, uio_iomem = 0x50000\<rparr>"
  have "run_gol_verify 0 3 = Some 0" by code_simp
  moreover have find: "uio_find_dev_num demo_uio_names (Some ''0000:03:00.0'') = Some 1" by code_simp
  moreover have sys: "uio_open ?sys 1 [] = (Some ?h, [Take Heap, Take (Descriptor 3), Take (Region 0x50000)])"
    by (simp add: uio_open_def demo_system_def)
  ultimately obtain w' log where 1: "uio_host_main demo_gol demo_uio_names ?sys 0 (\<lambda>_. ()) (\<lambda>r. (0, r)) ?opts
      \<lparr>dev = (), trace = []\<rparr> = Some (0, w', log)"
    by (simp add: uio_host_main_def run_persona_def do_gol_persona_def generate_random_number.simps reset_pr_logic_def
        run_gol_accelerated_def wait_while_busy_def do_while_unfold uio_device_handle_def uio_read_u32_def uio_write_u32_def
        demo_gol_def readl_def writel_def check_result_64_def const_defs)
  have opts: "uio_parse_options demo_uio_names ?opts (0, 3, 1, - 1) = Some (Some (0, 3, 1, 1))" using find by simp
  from uio_host_status_zero [OF 1 opts _ sys] 1 show ?thesis by (auto simp: const_defs)
qed

text \<open>
  C37. An exit status of 0 of the host program for the Arria 10 design without hierarchy, with options that it
  accepts and a number of runs other than 0xffffffff, means that the persona has passed: after the read of its identity come the accesses of its
  test, in which every value read was right, in all the runs asked for. The test of the memory loads
  the seed twice in each run. A run that ends in the usage message has the status 0 as well.
\<close>

theorem cvp_host_status_zero:
  fixes w :: "'h world"
  assumes "cvp_host_main (pr_handle (card_fd b ops fs buf0 priv) junk) True srand rnd opts w = Some (0, w')"
    and "parse_options opts (0, 3, 1) = Some (v, n, seed)" and "n \<noteq> - 1"
  shows "\<exists>p t. trace w' = trace w @ Read (pr_region priv PR_PERSONA_ID) p # t \<and> persona_passed 2 (pr_region priv) 0 seed n p t"
proof -
  let ?th = "pr_handle (card_fd b ops fs buf0 priv) junk"
  obtain e p w1 where 1: "read_u32 ?th PR_PERSONA_ID 0 w = (e, p, w1)" by (metis prod_cases3)
  then obtain f r' where "(if p = PERSONA_ID_BASIC_ARITHMETIC then do_basic_math_persona ?th rnd n 0 w1 (srand seed)
      else if p = PERSONA_ID_BASIC_DSP then do_basic_dsp_persona ?th rnd n 0 w1 (srand seed)
      else if p = PERSONA_ID_DDR4_ACCESS then cvp_do_ddr4_access_persona ?th rnd seed n w1 (srand seed)
      else if p = PERSONA_ID_GOL_ACCELERATOR then cvp_do_gol_persona ?th rnd n w1 (srand seed)
      else Some (Return EINVAL, w1, srand seed)) = Some (f, w', r')"
    and "(case f of Exit c \<Rightarrow> c | Return ret \<Rightarrow> ret) = 0"
    using assms(1) by (auto simp: cvp_host_main_def assms(2) Let_def bind_eq_Some_conv)
  from pr_port.cvp_persona_passed [OF this(1) all_registers TrueI assms(3) this(2)] pr_port.port_read [OF TrueI 1]
  show ?thesis by auto
qed

theorem cvp_host_status_zero_witness:
  "\<exists>w' t. cvp_host_main (pr_handle (card_fd demo_card (a10_ops demo_card (\<lambda>_. 0)) demo_image (\<lambda>_. 0) demo_priv) 0) True
      (\<lambda>_. ()) (\<lambda>r. (0, r)) [] \<lparr>dev = (), trace = []\<rparr> = Some (0, w') \<and>
    trace w' = Read (pr_region demo_priv PR_PERSONA_ID) PERSONA_ID_GOL_ACCELERATOR # t \<and>
    persona_passed 2 (pr_region demo_priv) 0 1 3 PERSONA_ID_GOL_ACCELERATOR t"
proof -
  have "cvp_run_gol_verify 0 3 = Some 0" by code_simp
  then obtain w' t where 1: "cvp_host_main (pr_handle (card_fd demo_card (a10_ops demo_card (\<lambda>_. 0)) demo_image (\<lambda>_. 0) demo_priv) 0) True
      (\<lambda>_. ()) (\<lambda>r. (0, r)) [] \<lparr>dev = (), trace = []\<rparr> = Some (0, w')"
    "trace w' = Read (pr_region demo_priv PR_PERSONA_ID) PERSONA_ID_GOL_ACCELERATOR # t"
    by (simp add: cvp_host_main_def cvp_do_gol_persona_def generate_random_number.simps reset_pr_logic_def
        run_gol_accelerated_def wait_while_busy_def do_while_unfold pr_handle_def read_pr_def write_pr_def card_fd_def
        my_ioctl_def demo_card_def bus.defs demo_priv_def readl_def writel_def check_result_64_def const_defs)
  from cvp_host_status_zero [OF 1(1)] 1 show ?thesis by auto
qed

end
