(* ===== verification/Host_Live.thy ===== *)
theory Host_Live
  imports Host_Verdict
begin

text \<open>
  The host programs come to an end. Their tests have loops without a bound: those that draw random numbers until
  the numbers are small enough, and those that wait for a busy persona. Two assumptions end them: the random
  numbers are fair, and a persona that is busy is idle after finitely many reads of its busy register.
\<close>

section \<open>Fair random numbers\<close>

definition after :: "('r \<Rightarrow> u32 \<times> 'r) \<Rightarrow> nat \<Rightarrow> 'r \<Rightarrow> 'r" where
  "after rnd k r = ((\<lambda>r. snd (rnd r)) ^^ k) r"

text \<open>However many numbers have been drawn, some even number of draws later come two below \<open>2 ^ 24\<close>.\<close>

definition fair :: "('r \<Rightarrow> u32 \<times> 'r) \<Rightarrow> 'r \<Rightarrow> bool" where
  "fair rnd r \<longleftrightarrow> (\<forall>j. \<exists>k. fst (rnd (after rnd (j + 2 * k) r)) < 2 ^ 24 \<and> fst (rnd (after rnd (j + 2 * k + 1) r)) < 2 ^ 24)"

lemma after_simps [simp]: "after rnd 0 r = r" "after rnd (Suc k) r = after rnd k (snd (rnd r))"
  by (simp_all add: after_def funpow_Suc_right del: funpow.simps(2))

lemma after_after: "after rnd k (after rnd j r) = after rnd (k + j) r"
  by (simp add: after_def funpow_add)

lemma fair_after: "fair rnd r \<Longrightarrow> fair rnd (after rnd j r)"
  unfolding fair_def
proof
  fix i
  assume "\<forall>j. \<exists>k. fst (rnd (after rnd (j + 2 * k) r)) < 2 ^ 24 \<and> fst (rnd (after rnd (j + 2 * k + 1) r)) < 2 ^ 24"
  then obtain k where k: "fst (rnd (after rnd (i + j + 2 * k) r)) < 2 ^ 24" "fst (rnd (after rnd (i + j + 2 * k + 1) r)) < 2 ^ 24"
    by blast
  have "i + 2 * k + j = i + j + 2 * k" "i + 2 * k + 1 + j = i + j + 2 * k + 1" by simp_all
  with k show "\<exists>k. fst (rnd (after rnd (i + 2 * k) (after rnd j r))) < 2 ^ 24 \<and>
      fst (rnd (after rnd (i + 2 * k + 1) (after rnd j r))) < 2 ^ 24"
    by (intro exI [of _ k]) (simp only: after_after simp_thms)
qed

lemma draw_until:
  assumes draw: "\<And>r. draw r = (let (a, r1) = rnd r; (b, r2) = rnd r1 in if P a b then Some (a, b, r2) else draw r2)"
    and small: "\<And>a b. a < 2 ^ 24 \<Longrightarrow> b < 2 ^ 24 \<Longrightarrow> P a b" and "fair rnd r"
  shows "\<exists>a b r'. draw r = Some (a, b, r') \<and> fair rnd r'"
proof -
  obtain k where "fst (rnd (after rnd (2 * k) r)) < 2 ^ 24" "fst (rnd (after rnd (2 * k + 1) r)) < 2 ^ 24"
    using assms(3) unfolding fair_def by (metis add_0)
  then show ?thesis using assms(3)
  proof (induction k arbitrary: r)
    case 0
    obtain a r1 where a: "rnd r = (a, r1)" by fastforce
    obtain b r2 where b: "rnd r1 = (b, r2)" by fastforce
    have "fair rnd r2" using fair_after [OF 0(3), of 2] by (simp add: numeral_2_eq_2 a b)
    with 0 small show ?case by (subst draw) (simp add: a b)
  next
    case (Suc k)
    obtain a r1 where a: "rnd r = (a, r1)" by fastforce
    obtain b r2 where b: "rnd r1 = (b, r2)" by fastforce
    have fair: "fair rnd r2" using fair_after [OF Suc.prems(3), of 2] by (simp add: numeral_2_eq_2 a b)
    with Suc.prems have "\<exists>a b r'. draw r2 = Some (a, b, r') \<and> fair rnd r'"
      by (intro Suc.IH) (simp_all add: a b)
    with fair show ?case by (subst draw) (simp add: a b)
  qed
qed

lemma generate_returns:
  assumes "fair rnd r" and "24 < k" "k \<le> 32"
  shows "\<exists>a b r'. generate_random_number rnd k r = Some (a, b, r') \<and> fair rnd r'"
proof (rule draw_until [OF _ _ assms(1)])
  show "generate_random_number rnd k r = (let (a, r1) = rnd r; (b, r2) = rnd r1
      in if k = 32 \<or> a < push_bit k 1 - 1 \<and> b < push_bit k 1 - 1 then Some (a, b, r2) else generate_random_number rnd k r2)" for r
    by (subst generate_random_number.simps) simp
  show "k = 32 \<or> a < push_bit k 1 - 1 \<and> b < push_bit k 1 - 1" if "a < 2 ^ 24" "b < 2 ^ 24" for a b :: u32
  proof -
    have "k \<in> {25 ..< 33}" using assms(2,3) by simp
    then have "k = 32 \<or> (2 :: u32) ^ 24 \<le> push_bit k 1 - 1"
      by (auto simp: push_bit_eq_mult atLeastLessThan_nat_numeral)
    with that show ?thesis by (meson order_less_le_trans)
  qed
qed

lemma range_returns:
  assumes "fair rnd r"
  shows "\<exists>a b r'. ddr4_range rnd r = Some (a, b, r') \<and> fair rnd r'"
proof (rule draw_until [OF _ _ assms])
  show "ddr4_range rnd r = (let (a, r1) = rnd r; (b, r2) = rnd r1
      in if a + b < DDR4_ADDRESS_MAX then Some (a, b, r2) else ddr4_range rnd r2)" for r
    by (subst ddr4_range.simps) simp
  show "a + b < DDR4_ADDRESS_MAX" if "a < 2 ^ 24" "b < 2 ^ 24" for a b :: u32
    using that by (simp add: word_less_nat_alt unat_word_ariths DDR4_ADDRESS_MAX_def)
qed

section \<open>Loops over runs\<close>

lemma loop_returns:
  fixes n :: u32
  assumes step: "\<And>w r. held w \<Longrightarrow> fair rnd r \<Longrightarrow> \<exists>b w' r'. held w' \<and> fair rnd r' \<and>
      (\<forall>i. loop i w r = (if i > n then Some (Return 0, w, r) else if b then loop (i + 1) w' r' else Some (Exit EXIT_FAILURE, w', r')))"
    and n: "n \<noteq> - 1" and start: "held w" "fair rnd r"
  shows "\<exists>f w' r'. loop 1 w r = Some (f, w', r') \<and> held w' \<and> fair rnd r'"
proof -
  have "unat n < 2 ^ 32" by (rule order_less_le_trans [OF unsigned_less]) simp
  moreover have "unat (- 1 :: u32) = 2 ^ 32 - 1" by (simp add: unsigned_minus_1_eq_mask mask_eq_exp_minus_1)
  ultimately have small: "unat n + 1 < 2 ^ 32" using n by (auto simp: word_unat_eq_iff)
  have "\<exists>f w' r'. loop i w r = Some (f, w', r') \<and> held w' \<and> fair rnd r'"
    if "unat i + m = unat n + 1" "held w" "fair rnd r" for m i w r
    using that
  proof (induction m arbitrary: i w r)
    case 0
    from step [OF 0(2,3)] 0 show ?case by (auto simp: word_less_nat_alt)
  next
    case (Suc m)
    obtain b w1 r1 where 1: "held w1" "fair rnd r1" and loop: "loop i w r =
        (if i > n then Some (Return 0, w, r) else if b then loop (i + 1) w1 r1 else Some (Exit EXIT_FAILURE, w1, r1))"
      using step [OF Suc.prems(2,3)] by blast
    have "unat (i + 1) + m = unat n + 1" "\<not> i > n" using Suc.prems(1) small by (simp_all add: unat_word_ariths word_less_nat_alt)
    with Suc.IH [OF this(1) 1] loop 1 show ?case by auto
  qed
  from this [OF _ start, of 1 "unat n"] show ?thesis by simp
qed

lemma round_loop_returns:
  fixes n :: u32
  assumes loop: "\<And>i w r. loop i w r = (if i > n then Some (Return 0, w, r)
      else do { (b, w, r) \<leftarrow> round w r; if b then loop (i + 1) w r else Some (Exit EXIT_FAILURE, w, r) })"
    and round: "\<And>w r. held w \<Longrightarrow> fair rnd r \<Longrightarrow> \<exists>b w' r'. round w r = Some (b, w', r') \<and> held w' \<and> fair rnd r'"
    and n: "n \<noteq> - 1" and start: "held w" "fair rnd r"
  shows "\<exists>f w' r'. loop 1 w r = Some (f, w', r') \<and> held w' \<and> fair rnd r'"
proof (rule loop_returns [where held = held and rnd = rnd and loop = loop and w = w and r = r, OF _ n start])
  fix w r
  assume "held w" "fair rnd r"
  then obtain b w' r' where "round w r = Some (b, w', r')" "held w'" "fair rnd r'" using round by blast
  then show "\<exists>b w' r'. held w' \<and> fair rnd r' \<and> (\<forall>i. loop i w r =
      (if i > n then Some (Return 0, w, r) else if b then loop (i + 1) w' r' else Some (Exit EXIT_FAILURE, w', r')))"
    by (intro exI [of _ b] exI [of _ w'] exI [of _ r']) (simp add: loop [of _ w r])
qed

section \<open>Access that keeps a property\<close>

text \<open>
  The registers are reached through a handle that keeps a property \<open>held\<close> of the world: what is on the card stays
  there while it is tested.
\<close>

locale held_port =
  fixes th :: "'w device_handle" and held :: "'w \<Rightarrow> bool"
  assumes read_held: "held w \<Longrightarrow> read_u32 th off d w = (r, v, w') \<Longrightarrow> held w'"
    and write_held: "held w \<Longrightarrow> write_u32 th off v w = (r, w') \<Longrightarrow> held w'"

definition idles :: "'w device_handle \<Rightarrow> ('w \<Rightarrow> bool) \<Rightarrow> u32 \<Rightarrow> bool" where
  "idles th held reg \<longleftrightarrow> (\<forall>w. held w \<longrightarrow> (\<exists>w'. wait_while_busy th reg w = Some w'))"

text \<open>The personas that report being busy, each in a register of its own.\<close>

definition persona_idles :: "'w device_handle \<Rightarrow> ('w \<Rightarrow> bool) \<Rightarrow> u32 \<Rightarrow> u32 \<Rightarrow> bool" where
  "persona_idles th held off p \<longleftrightarrow>
     (p = PERSONA_ID_DDR4_ACCESS \<longrightarrow> idles th held (DDR4_BUSY_REGISTER + off)) \<and>
     (p = PERSONA_ID_GOL_ACCELERATOR \<longrightarrow> idles th held (GOL_BUSY_REG + off))"

context held_port
begin

lemma read_then: "held w \<Longrightarrow> held (snd (snd (read_u32 th off d w)))"
  using read_held by (metis prod.collapse)

lemma write_then: "held w \<Longrightarrow> held (snd (write_u32 th off v w))"
  using write_held by (metis prod.collapse)

lemma reset_then: "held w \<Longrightarrow> held (reset_pr_logic th off w)"
  by (simp add: reset_pr_logic_def case_prod_beta write_then)

lemma pulses_then: "held w \<Longrightarrow> held (pulses th off k w)"
  by (induction k) (simp_all add: pulses_def write_then)

lemma wait_then:
  assumes "wait_while_busy th off w = Some w'" and "held w"
  shows "held w'"
proof -
  obtain v where "do_while (\<lambda>(_, w). let (_, data, w) = read_u32 th off 0 w in (data, w)) (\<lambda>(busy, _). busy \<noteq> 0) (0, w) = Some (v, w')"
    using assms(1) by (auto simp: wait_while_busy_def bind_eq_Some_conv)
  then have "held (snd (0 :: u32, w)) \<longrightarrow> held (snd (v, w'))"
    by (induction rule: do_while_induct) (auto simp: case_prod_beta read_then)
  with assms(2) show ?thesis by simp
qed

lemma wait_returns: "idles th held off \<Longrightarrow> held w \<Longrightarrow> \<exists>w'. wait_while_busy th off w = Some w' \<and> held w'"
  unfolding idles_def using wait_then by blast

lemma sweep_returns:
  assumes "idles th held (DDR4_BUSY_REGISTER + off)" and "held w"
  shows "\<exists>w'. run_ddr4_address_sweep th base len cal off w = Some w' \<and> held w'"
  unfolding run_ddr4_address_sweep_def Let_def case_prod_beta
  by (rule wait_returns [OF assms(1)]) (simp add: write_then assms(2))

lemma accelerated_returns:
  assumes "idles th held (GOL_BUSY_REG + off)" and "held w"
  shows "\<exists>w'. run_gol_accelerated th hi lo n off w = Some w' \<and> held w'"
  unfolding run_gol_accelerated_def Let_def case_prod_beta
  by (rule wait_returns [OF assms(1)]) (simp add: write_then assms(2))

lemma math_returns:
  assumes "n \<noteq> - 1" and "held w" "fair rnd r"
  shows "\<exists>f w' r'. do_basic_math_persona th rnd n off w r = Some (f, w', r') \<and> held w' \<and> fair rnd r'"
  unfolding do_basic_math_persona_def
proof (rule loop_returns [where held = held and rnd = rnd and r = r, OF _ assms(1) reset_then [OF assms(2)] assms(3)])
  fix w r
  assume "held w" "fair rnd r"
  from generate_returns [OF this(2), of ADDER_INPUT_SIZE] obtain a b r' where
    g: "generate_random_number rnd ADDER_INPUT_SIZE r = Some (a, b, r')" "fair rnd r'" by (auto simp: ADDER_INPUT_SIZE_def)
  let ?w = "snd (write_u32 th (PR_INCR + off) b (snd (write_u32 th (PR_OPERAND + off) a (reset_pr_logic th off w))))"
  let ?x = "read_u32 th (PR_RESULT + off) 0 ?w"
  have "held (snd (snd ?x))" by (simp add: read_then write_then reset_then \<open>held w\<close>)
  with g show "\<exists>b w' r'. held w' \<and> fair rnd r' \<and> (\<forall>i. math_loop th rnd n off i w r =
      (if i > n then Some (Return 0, w, r) else if b then math_loop th rnd n off (i + 1) w' r'
       else Some (Exit EXIT_FAILURE, w', r')))"
    by (intro exI [of _ "check_result_32 (a + b) (fst (snd ?x)) = 0"] exI [of _ "snd (snd ?x)"] exI [of _ r'] conjI allI)
      (simp_all add: math_loop.simps [of th rnd n off _ w r] case_prod_beta Let_def)
qed

lemma dsp_round_returns:
  assumes "held w" "fair rnd r"
  shows "\<exists>b w' r'. dsp_round th rnd off w r = Some (b, w', r') \<and> held w' \<and> fair rnd r'"
proof -
  obtain a b r' where "generate_random_number rnd DSP_INPUT_SIZE r = Some (a, b, r')" "fair rnd r'"
    using generate_returns [OF assms(2), of DSP_INPUT_SIZE] by (auto simp: DSP_INPUT_SIZE_def)
  then show ?thesis by (simp add: dsp_round_def Let_def case_prod_beta read_then write_then reset_then assms(1))
qed

lemma dsp_returns:
  assumes "n \<noteq> - 1" and "held w" "fair rnd r"
  shows "\<exists>f w' r'. do_basic_dsp_persona th rnd n off w r = Some (f, w', r') \<and> held w' \<and> fair rnd r'"
  unfolding do_basic_dsp_persona_def
  by (rule round_loop_returns [where held = held, OF dsp_loop_round dsp_round_returns assms(1) reset_then [OF assms(2)] assms(3)])

lemma ddr4_round_returns:
  assumes "idles th held (DDR4_BUSY_REGISTER + off)" and "held w" "fair rnd r"
  shows "\<exists>b w' r'. ddr4_round k th rnd seed off w r = Some (b, w', r') \<and> held w' \<and> fair rnd r'"
proof -
  let ?w = "pulses th off k (snd (write_u32 th (DDR4_SEED_ADDRESS + off) seed (reset_pr_logic th off w)))"
  obtain e s w1 where 1: "read_u32 th (DDR4_SEED_ADDRESS + off) 0 ?w = (e, s, w1)" by (metis prod_cases3)
  have h1: "held w1" by (rule read_held [OF _ 1]) (simp add: pulses_then write_then reset_then assms(2))
  obtain base len r' where r: "ddr4_range rnd r = Some (base, len, r')" "fair rnd r'"
    using range_returns [OF assms(3)] by blast
  obtain w2 where w2: "run_ddr4_address_sweep th base len 1 off w1 = Some w2" "held w2"
    using sweep_returns [OF assms(1) h1] by blast
  show ?thesis
    using 1 h1 r w2 assms(3) by (cases "s = seed") (auto simp: ddr4_round_def Let_def case_prod_beta read_then)
qed

lemma ddr4_returns:
  assumes "idles th held (DDR4_BUSY_REGISTER + off)" and "n \<noteq> - 1" and "held w" "fair rnd r"
  shows "\<exists>f w' r'. do_ddr4_access_persona th rnd seed n off w r = Some (f, w', r') \<and> held w' \<and> fair rnd r'"
proof -
  have "held (snd (snd (read_u32 th DDR4_CAL_OFFSET 0 (reset_pr_logic th off w))))"
    by (simp add: read_then reset_then assms(3))
  from round_loop_returns [where held = held, OF ddr4_loop_round ddr4_round_returns [OF assms(1)] assms(2) this assms(4)] this assms(4)
  show ?thesis by (simp add: do_ddr4_access_persona_def case_prod_beta Let_def)
qed

lemma cvp_ddr4_returns:
  assumes "idles th held DDR4_BUSY_REGISTER" and "n \<noteq> - 1" and "held w" "fair rnd r"
  shows "\<exists>f w' r'. cvp_do_ddr4_access_persona th rnd seed n w r = Some (f, w', r') \<and> held w' \<and> fair rnd r'"
proof -
  have idle: "idles th held (DDR4_BUSY_REGISTER + 0)" using assms(1) by simp
  have "held (snd (snd (read_u32 th DDR4_CAL_OFFSET 0 (reset_pr_logic th 0 w))))"
    by (simp add: read_then reset_then assms(3))
  from round_loop_returns [where held = held, OF cvp_ddr4_loop_round ddr4_round_returns [OF idle] assms(2) this assms(4)] this assms(4)
  show ?thesis by (simp add: cvp_do_ddr4_access_persona_def case_prod_beta Let_def)
qed

lemma gol_returns:
  assumes "idles th held (GOL_BUSY_REG + off)" and "held w" "fair rnd r"
  shows "\<exists>f w' r'. do_gol_persona th rnd n off w r = Some (f, w', r') \<and> held w' \<and> fair rnd r'"
    and "off = 0 \<Longrightarrow> \<exists>f w' r'. cvp_do_gol_persona th rnd n w r = Some (f, w', r') \<and> held w' \<and> fair rnd r'"
proof -
  obtain hi lo r' where r: "generate_random_number rnd 32 r = Some (hi, lo, r')" "fair rnd r'"
    using generate_returns [OF assms(3), of 32] by auto
  obtain w1 where w1: "run_gol_accelerated th hi lo n off (reset_pr_logic th off w) = Some w1" "held w1"
    using accelerated_returns [OF assms(1) reset_then [OF assms(2)]] by blast
  show "\<exists>f w' r'. do_gol_persona th rnd n off w r = Some (f, w', r') \<and> held w' \<and> fair rnd r'"
    using r w1 by (auto simp: do_gol_persona_def Let_def case_prod_beta read_then reset_then split: option.split)
  show "off = 0 \<Longrightarrow> \<exists>f w' r'. cvp_do_gol_persona th rnd n w r = Some (f, w', r') \<and> held w' \<and> fair rnd r'"
    using r w1 by (auto simp: cvp_do_gol_persona_def Let_def case_prod_beta read_then reset_then split: option.split)
qed

lemma persona_returns:
  assumes "persona_idles th held off p" and "n \<noteq> - 1" and "held w" "fair rnd r"
  shows "\<exists>f w' r'. run_persona th rnd seed n off p w r = Some (f, w', r') \<and> held w' \<and> fair rnd r'"
  using assms(1) math_returns [OF assms(2-4)] dsp_returns [OF assms(2-4)]
    ddr4_returns [OF _ assms(2-4)] gol_returns(1) [OF _ assms(3,4)] assms(3,4)
  by (simp add: run_persona_def persona_idles_def)

lemma config_a_returns:
  assumes idle: "\<And>w off d e p w'. held w \<Longrightarrow> read_u32 th (PR_PERSONA_ID + off) d w = (e, p, w') \<Longrightarrow> off \<in> {HPR_A_CHILD_0, HPR_A_CHILD_1} \<Longrightarrow>
      persona_idles th held off p"
    and "n \<noteq> - 1" and "held w" "fair rnd r"
  shows "\<exists>f w' r'. do_hpr_config_a th rnd seed n w r = Some (f, w', r')"
proof -
  obtain e0 p0 w0 where 0: "read_u32 th (PR_PERSONA_ID + HPR_A_CHILD_0) 0 w = (e0, p0, w0)" by (metis prod_cases3)
  obtain e1 p1 w1 where 1: "read_u32 th (PR_PERSONA_ID + HPR_A_CHILD_1) 0 w0 = (e1, p1, w1)" by (metis prod_cases3)
  have h: "held w0" "held w1" using read_held [OF assms(3) 0] read_held [OF _ 1] by simp_all
  obtain f w2 r2 where 2: "run_persona th rnd seed n HPR_A_CHILD_0 p0 w1 r = Some (f, w2, r2)" "held w2" "fair rnd r2"
    using persona_returns [OF idle [OF assms(3) 0] assms(2) h(2) assms(4)] by blast
  obtain f' w3 r3 where 3: "run_persona th rnd seed n HPR_A_CHILD_1 p1 w2 r2 = Some (f', w3, r3)"
    using persona_returns [OF idle [OF h(1) 1] assms(2) 2(2,3)] by blast
  show ?thesis using 0 1 2 3 by (cases f; cases f') (simp_all add: do_hpr_config_a_def)
qed

lemma card_test_returns:
  assumes idle: "\<And>w off d e p w'. held w \<Longrightarrow> read_u32 th (PR_PERSONA_ID + off) d w = (e, p, w') \<Longrightarrow>
      off \<in> {0, HPR_A_CHILD_0, HPR_A_CHILD_1} \<Longrightarrow> persona_idles th held off p"
    and "n \<noteq> - 1" and "held w" "fair rnd r" and p: "read_u32 th PR_PERSONA_ID d w = (e, p, w1)"
  shows "\<exists>f w' r'. (if p = PERSONA_ID_HPR_PARENT_ALPHA then do_hpr_config_a th rnd seed n w1 r
    else run_persona th rnd seed n 0 p w1 r) = Some (f, w', r')"
proof -
  have "held w1" by (rule read_held [OF assms(3) p])
  moreover from this config_a_returns [OF _ assms(2) _ assms(4)] idle
  have "\<exists>f w' r'. do_hpr_config_a th rnd seed n w1 r = Some (f, w', r')" by blast
  moreover have "persona_idles th held 0 p" using idle [OF assms(3), of 0] p by simp
  ultimately show ?thesis using persona_returns [OF _ assms(2) _ assms(4), of 0 p w1 seed] by auto
qed

lemma cvp_test_returns:
  assumes "persona_idles th held 0 p" and "n \<noteq> - 1" and "held w" "fair rnd r"
  shows "\<exists>f w' r'. (if p = PERSONA_ID_BASIC_ARITHMETIC then do_basic_math_persona th rnd n 0 w r
      else if p = PERSONA_ID_BASIC_DSP then do_basic_dsp_persona th rnd n 0 w r
      else if p = PERSONA_ID_DDR4_ACCESS then cvp_do_ddr4_access_persona th rnd seed n w r
      else if p = PERSONA_ID_GOL_ACCELERATOR then cvp_do_gol_persona th rnd n w r
      else Some (Return EINVAL, w, r)) = Some (f, w', r')"
proof -
  have "\<exists>f w' r'. do_basic_math_persona th rnd n 0 w r = Some (f, w', r')"
    "\<exists>f w' r'. do_basic_dsp_persona th rnd n 0 w r = Some (f, w', r')"
    using math_returns [OF assms(2-4), of 0] dsp_returns [OF assms(2-4), of 0] by blast+
  moreover have "\<exists>f w' r'. cvp_do_ddr4_access_persona th rnd seed n w r = Some (f, w', r')" if "p = PERSONA_ID_DDR4_ACCESS"
    using cvp_ddr4_returns [OF _ assms(2-4), of seed] assms(1) that by (auto simp: persona_idles_def)
  moreover have "\<exists>f w' r'. cvp_do_gol_persona th rnd n w r = Some (f, w', r')" if "p = PERSONA_ID_GOL_ACCELERATOR"
    using gol_returns(2) [of 0 w rnd r n] assms(1,3,4) that by (auto simp: persona_idles_def)
  ultimately show ?thesis by simp
qed

end

section \<open>The card\<close>

text \<open>A register that is 0 after finitely many reads.\<close>

definition goes_idle :: "('h, 'z) bus_scheme \<Rightarrow> u64 \<Rightarrow> 'h \<Rightarrow> bool" where
  "goes_idle b a h \<longleftrightarrow> (\<exists>k. fst (bus_read b a (((\<lambda>h. snd (bus_read b a h)) ^^ k) h)) = 0)"

text \<open>
  While the card has the property \<open>P\<close>, a region that may show the identity of a persona with a busy register goes
  idle.
\<close>

definition region_idles :: "('h, 'z) bus_scheme \<Rightarrow> (u32 \<Rightarrow> u64) \<Rightarrow> ('h \<Rightarrow> bool) \<Rightarrow> u32 \<Rightarrow> bool" where
  "region_idles b addr P off \<longleftrightarrow>
     (\<forall>h h'. P h \<longrightarrow> P h' \<longrightarrow>
       (let p = fst (bus_read b (addr (PR_PERSONA_ID + off)) h) in
        (p = PERSONA_ID_DDR4_ACCESS \<longrightarrow> goes_idle b (addr (DDR4_BUSY_REGISTER + off)) h') \<and>
        (p = PERSONA_ID_GOL_ACCELERATOR \<longrightarrow> goes_idle b (addr (GOL_BUSY_REG + off)) h')))"

lemma wait_goes_idle:
  assumes "\<And>w. \<exists>e. read_u32 th off 0 w = (e, fst (bus_read b a (dev w)), w\<lparr>dev := snd (bus_read b a (dev w)),
      trace := trace w @ [Read a (fst (bus_read b a (dev w)))]\<rparr>)"
    and "goes_idle b a (dev w)"
  shows "\<exists>w'. wait_while_busy th off w = Some w'"
proof -
  define c where "c = (\<lambda>(_ :: u32, w). let (_, data, w) = read_u32 th off 0 w in (data, w))"
  have c: "\<exists>w1. c (x, w) = (fst (bus_read b a (dev w)), w1) \<and> dev w1 = snd (bus_read b a (dev w))" for x w
    using assms(1) [of w] by (auto simp: c_def)
  obtain k where "fst (bus_read b a (((\<lambda>h. snd (bus_read b a h)) ^^ k) (dev w))) = 0"
    using assms(2) by (auto simp: goes_idle_def)
  then have "\<exists>v w'. do_while c (\<lambda>(busy, _). busy \<noteq> 0) (x, w) = Some (v, w')" for x
  proof (induction k arbitrary: x w)
    case 0
    then show ?case using c [of x w] by (subst do_while_unfold) auto
  next
    case (Suc k)
    obtain w1 where 1: "c (x, w) = (fst (bus_read b a (dev w)), w1)" "dev w1 = snd (bus_read b a (dev w))"
      using c [of x w] by blast
    with Suc.prems have "fst (bus_read b a (((\<lambda>h. snd (bus_read b a h)) ^^ k) (dev w1))) = 0"
      by (simp add: funpow_Suc_right del: funpow.simps)
    from Suc.IH [OF this] 1(1) show ?case by (subst do_while_unfold) simp
  qed
  then obtain v w' where "do_while c (\<lambda>(busy, _). busy \<noteq> 0) (0, w) = Some (v, w')" by blast
  then show ?thesis unfolding wait_while_busy_def c_def [symmetric] by simp
qed

lemma pr_read_dev:
  "read_u32 (pr_handle (card_fd b ops fs buf0 priv) junk) off d w =
    (0, fst (bus_read b (pr_region priv off) (dev w)), w\<lparr>dev := snd (bus_read b (pr_region priv off) (dev w)),
      trace := trace w @ [Read (pr_region priv off) (fst (bus_read b (pr_region priv off) (dev w)))]\<rparr>)"
  by (simp add: pr_handle_def read_pr_def card_fd_def my_ioctl_def readl_def case_prod_beta Let_def)

interpretation pr_held: held_port "pr_handle (card_fd b ops fs buf0 priv) junk"
    "\<lambda>w. keeps b (range (pr_region priv)) P \<and> P (dev w)"
  for b :: "('h, 'z) pci_bus_scheme" and ops fs buf0 priv junk P
proof
  fix off d v r and w w' :: "'h world"
  assume held: "keeps b (range (pr_region priv)) P \<and> P (dev w)"
  show "keeps b (range (pr_region priv)) P \<and> P (dev w')"
    if "read_u32 (pr_handle (card_fd b ops fs buf0 priv) junk) off d w = (r, v, w')"
    using that held by (auto simp: pr_read_dev keeps_def)
  show "keeps b (range (pr_region priv)) P \<and> P (dev w')"
    if "write_u32 (pr_handle (card_fd b ops fs buf0 priv) junk) off v w = (r, w')"
    using that held
    by (auto simp: pr_handle_def write_pr_def card_fd_def my_ioctl_def readl_def writel_def case_prod_beta Let_def keeps_def)
qed

lemma pr_persona_idles:
  assumes "region_idles b (pr_region priv) P off"
    and "keeps b (range (pr_region priv)) P \<and> P (dev w)"
    and "read_u32 (pr_handle (card_fd b ops fs buf0 priv) junk) (PR_PERSONA_ID + off) d w = (e, p, w')"
  shows "persona_idles (pr_handle (card_fd b ops fs buf0 priv) junk) (\<lambda>w. keeps b (range (pr_region priv)) P \<and> P (dev w)) off p"
proof -
  have p: "p = fst (bus_read b (pr_region priv (PR_PERSONA_ID + off)) (dev w))" using assms(3) by (simp add: pr_read_dev)
  have "\<exists>w'. wait_while_busy (pr_handle (card_fd b ops fs buf0 priv) junk) reg v = Some w'"
    if "goes_idle b (pr_region priv reg) (dev v)" for reg v
    using that by (intro wait_goes_idle [where a = "pr_region priv reg"]) (auto simp: pr_read_dev)
  then show ?thesis using assms(1,2) p by (auto simp: persona_idles_def idles_def region_idles_def Let_def)
qed

lemma uio_read_dev:
  "read_u32 (uio_device_handle b (Some h)) off d w =
    (if off \<ge> word_of_int (uio_size h) then (EINVAL, d, w)
     else (0, fst (bus_read b (uio_iomem h + ucast off) (dev w)), w\<lparr>dev := snd (bus_read b (uio_iomem h + ucast off) (dev w)),
       trace := trace w @ [Read (uio_iomem h + ucast off) (fst (bus_read b (uio_iomem h + ucast off) (dev w)))]\<rparr>))"
  by (simp add: uio_device_handle_def uio_read_u32_def readl_def case_prod_beta Let_def)

abbreviation mapped :: "uio_handle \<Rightarrow> u32 \<Rightarrow> u64" where
  "mapped h off \<equiv> uio_iomem h + ucast off"

interpretation uio_held: held_port "uio_device_handle b (Some h)"
    "\<lambda>w. keeps b (range (mapped h)) P \<and> P (dev w)"
  for b :: "('h, 'z) bus_scheme" and h P
proof
  fix off d v r and w w' :: "'h world"
  assume held: "keeps b (range (mapped h)) P \<and> P (dev w)"
  show "keeps b (range (mapped h)) P \<and> P (dev w')"
    if "read_u32 (uio_device_handle b (Some h)) off d w = (r, v, w')"
    using that held by (auto simp: uio_read_dev keeps_def split: if_splits)
  show "keeps b (range (mapped h)) P \<and> P (dev w')"
    if "write_u32 (uio_device_handle b (Some h)) off v w = (r, w')"
    using that held
    by (auto simp: uio_device_handle_def uio_write_u32_def writel_def keeps_def split: if_splits)
qed

text \<open>A read outside the mapping leaves the zero that the loop has put into its variable.\<close>

lemma uio_wait_returns:
  assumes "reg < word_of_int (uio_size h) \<Longrightarrow> goes_idle b (mapped h reg) (dev w)"
  shows "\<exists>w'. wait_while_busy (uio_device_handle b (Some h)) reg w = Some w'"
proof (cases "reg < word_of_int (uio_size h)")
  case True
  with assms show ?thesis by (intro wait_goes_idle [where a = "mapped h reg"]) (auto simp: uio_read_dev not_le)
next
  case False
  then have "read_u32 (uio_device_handle b (Some h)) reg 0 w = (EINVAL, 0, w)" by (simp add: uio_read_dev not_less)
  then show ?thesis by (simp add: wait_while_busy_def) (subst do_while_unfold, simp)
qed

lemma uio_persona_idles:
  assumes "region_idles b (mapped h) P off" and "off \<in> {0, HPR_A_CHILD_0, HPR_A_CHILD_1}"
    and "keeps b (range (mapped h)) P \<and> P (dev w)"
    and "read_u32 (uio_device_handle b (Some h)) (PR_PERSONA_ID + off) d w = (e, p, w')"
  shows "persona_idles (uio_device_handle b (Some h)) (\<lambda>w. keeps b (range (mapped h)) P \<and> P (dev w)) off p"
proof (cases "PR_PERSONA_ID + off < word_of_int (uio_size h)")
  case True
  then have p: "p = fst (bus_read b (mapped h (PR_PERSONA_ID + off)) (dev w))"
    using assms(4) by (simp add: uio_read_dev not_less split: if_splits)
  have "\<exists>w'. wait_while_busy (uio_device_handle b (Some h)) reg v = Some w'" if "goes_idle b (mapped h reg) (dev v)" for reg v
    using that by (rule uio_wait_returns)
  then show ?thesis using assms(1,3) p by (auto simp: persona_idles_def idles_def region_idles_def Let_def)
next
  case False
  have "PR_PERSONA_ID + off \<le> DDR4_BUSY_REGISTER + off" "PR_PERSONA_ID + off \<le> GOL_BUSY_REG + off"
    using assms(2) by (auto simp: const_defs)
  with False have "\<not> DDR4_BUSY_REGISTER + off < word_of_int (uio_size h)" "\<not> GOL_BUSY_REG + off < word_of_int (uio_size h)"
    by (meson order_le_less_trans)+
  then show ?thesis using uio_wait_returns [of _ h b]
    by (auto simp: persona_idles_def idles_def)
qed

section \<open>Properties\<close>


text \<open>
  A card with the memory persona, on which no seed is lost. The device state is how many more times the busy
  register reads as busy; a write to the control register makes it five.
\<close>

definition busy_card :: "nat pci_bus" where
  "busy_card = bus.extend
     \<lparr>bus_read = (\<lambda>a h. if a = 0x50030 then (if h = 0 then 0 else 1, h - 1)
        else (if a = 0x50000 then PERSONA_ID_DDR4_ACCESS else if a = 0x60010 then 2 else if a = 0x500b0 then 1 else 0, h)),
      bus_write = (\<lambda>a v h. if a = 0x50010 then 5 else h), bus_wait = (\<lambda>n h. h)\<rparr>
     \<lparr>hw_find_capability = (\<lambda>d c h. 0), hw_find_ext_capability = (\<lambda>d c h. 0),
      hw_cfg_read32 = (\<lambda>d p h. (0, h)), hw_cfg_write32 = (\<lambda>d p v h. h),
      hw_cfg_read16 = (\<lambda>d p h. (0, h)), hw_cfg_write16 = (\<lambda>d p v h. h),
      hw_save_state = (\<lambda>d h. h), hw_restore_state = (\<lambda>d h. h)\<rparr>"

lemma busy_card_idles: "list_all (region_idles busy_card (pr_region demo_priv) (\<lambda>_. True)) [0, HPR_A_CHILD_0, HPR_A_CHILD_1]"
proof -
  have "goes_idle busy_card 0x50030 h" for h
  proof -
    have "((\<lambda>h :: nat. h - 1) ^^ k) h = h - k" for k by (induction k) simp_all
    then show ?thesis by (auto simp: goes_idle_def busy_card_def bus.defs intro!: exI [of _ h])
  qed
  then show ?thesis by (simp add: region_idles_def busy_card_def bus.defs demo_priv_def const_defs)
qed

text \<open>Random numbers that are large for as many draws as the seed says.\<close>

definition late_rand :: "nat \<Rightarrow> u32 \<times> nat" where
  "late_rand r = (if r = 0 then 3 else 0x7fffffff, r - 1)"

lemma late_rand_fair: "fair late_rand r"
proof -
  have "after late_rand k r = r - k" for k r by (induction k arbitrary: r) (simp_all add: late_rand_def)
  then show ?thesis by (auto simp: fair_def late_rand_def intro!: exI [of _ r])
qed


text \<open>
  The program over a UIO mapping, whether or not the mapping has the registers, when the search for its device
  ends.
\<close>

theorem uio_host_program_returns:
  fixes b :: "('h, 'z) bus_scheme"
  assumes "uio_parse_options names opts (0, 3, 1, - 1) = Some parsed"
    and "\<And>v n seed u. parsed = Some (v, n, seed, u) \<Longrightarrow> n \<noteq> - 1"
    and "\<And>u h log. uio_open sys u [] = (Some h, log) \<Longrightarrow>
      keeps b (range (mapped h)) P \<and> list_all (region_idles b (mapped h) P) [0, HPR_A_CHILD_0, HPR_A_CHILD_1]"
    and "P (dev w)" and "\<And>seed. fair rnd (srand seed)"
  shows "\<exists>c w' log. uio_host_main b names sys junk srand rnd opts w = Some (c, w', log)"
proof -
  consider (usage) "parsed = None"
    | (no_device) v n seed u where "parsed = Some (v, n, seed, u)" "u < 0 \<or> fst (uio_open sys u []) = None"
    | (run) v n seed u h log where "parsed = Some (v, n, seed, u)" "\<not> u < 0" "uio_open sys u [] = (Some h, log)"
  proof (cases parsed)
    case (Some s)
    obtain v n seed u where s: "s = (v, n, seed, u)" by (metis prod_cases4)
    obtain handle log where "uio_open sys u [] = (handle, log)" by fastforce
    then show ?thesis using Some s no_device [of v n seed u] run [of v n seed u _ log] by (cases handle) auto
  qed (rule usage)
  then show ?thesis
  proof cases
    case usage
    then show ?thesis by (simp add: uio_host_main_def assms(1))
  next
    case no_device
    then show ?thesis by (cases "uio_open sys u []") (auto simp: uio_host_main_def assms(1) Let_def)
  next
    case run
    let ?th = "uio_device_handle b (Some h)"
    obtain e p w1 where 1: "read_u32 ?th PR_PERSONA_ID junk w = (e, p, w1)" by (metis prod_cases3)
    have held: "keeps b (range (mapped h)) P \<and> P (dev w)" using assms(3) [OF run(3)] assms(4) by simp
    have idle: "persona_idles ?th (\<lambda>w. keeps b (range (mapped h)) P \<and> P (dev w)) off q"
      if "keeps b (range (mapped h)) P \<and> P (dev v)" "read_u32 ?th (PR_PERSONA_ID + off) d v = (e, q, v')"
        "off \<in> {0, HPR_A_CHILD_0, HPR_A_CHILD_1}" for v off d e q v'
      using uio_persona_idles [OF _ that(3,1,2)] assms(3) [OF run(3)] that(3) by auto
    have "\<exists>f w' r'. (if p = PERSONA_ID_HPR_PARENT_ALPHA then do_hpr_config_a ?th rnd seed n w1 (srand seed)
      else run_persona ?th rnd seed n 0 p w1 (srand seed)) = Some (f, w', r')"
      by (rule uio_held.card_test_returns [OF _ assms(2) [OF run(1)] held assms(5) 1]) (erule (2) idle)
    then obtain f w2 r2 where "(if p = PERSONA_ID_HPR_PARENT_ALPHA then do_hpr_config_a ?th rnd seed n w1 (srand seed)
      else run_persona ?th rnd seed n 0 p w1 (srand seed)) = Some (f, w2, r2)" by blast
    with run 1 assms(1) show ?thesis by (cases f) (simp_all add: uio_host_main_def Let_def)
  qed
qed

end
